(* ===== verification/Prelude.thy ===== *)
theory Prelude
  imports Main "HOL-Library.Word" "HOL-Library.Multiset" "HOL-Library.Sublist"
begin

text \<open>
  Shared vocabulary of the development: the machine-integer types of the Rust
  sources, the result type of fallible code, loops over a result, byte slices,
  and the generic lemmas on them that the component theories use.

  Rust's fixed-width integers are words of the same width. A signed and an
  unsigned integer of one width are the same word type; which reading a
  comparison uses is written out (\<open>unat\<close>/\<open>\<le>\<close> unsigned, \<open>sint\<close> signed), and an
  \<open>as\<close> cast between them is the identity. \<open>usize\<close> is \<open>nat\<close>: the program is
  built for 64-bit Linux only and every \<open>usize\<close> here is a length of, or an
  index into, a buffer in memory.
\<close>

section \<open>Integers and buffers\<close>

type_synonym byte = "8 word"
type_synonym u16 = "16 word"
type_synonym u32 = "32 word"
type_synonym i32 = "32 word"
type_synonym u64 = "64 word"
type_synonym i64 = "64 word"

text \<open>A Rust string, as its UTF-8 bytes.\<close>
type_synonym str = "byte list"

named_theorems bytes_simps \<open>sizes and reads of encoded buffers\<close>
named_theorems outcome_elims \<open>inversion of successful fallible computations\<close>

text \<open>Conversions of \<open>as\<close>: sign extension of an \<open>i32\<close> or \<open>i64\<close> into \<open>usize\<close>, and
  truncation of a \<open>usize\<close>.\<close>

definition usize_of_i32 :: "i32 \<Rightarrow> nat" where
  "usize_of_i32 v = unat (scast v :: 64 word)"

definition usize_of_i64 :: "i64 \<Rightarrow> nat" where
  "usize_of_i64 v = unat v"

definition i32_of_usize :: "nat \<Rightarrow> i32" where
  "i32_of_usize n = word_of_nat n"

definition i64_of_usize :: "nat \<Rightarrow> i64" where
  "i64_of_usize n = word_of_nat n"

section \<open>Fallible computations\<close>

text \<open>The outcome of running Rust code: \<open>Ok\<close> and \<open>Err\<close> are the two values of
  \<open>Result\<close>, \<open>Panic\<close> is an \<open>unwrap\<close> of \<open>None\<close>, an index out of range or a failed
  \<open>assert!\<close>.\<close>

datatype ('a, 'e) outcome = Ok 'a | Err 'e | Panic

fun and_then :: "('a, 'e) outcome \<Rightarrow> ('a \<Rightarrow> ('b, 'e) outcome) \<Rightarrow> ('b, 'e) outcome" where
  "and_then (Ok x) f = f x"
| "and_then (Err e) f = Err e"
| "and_then Panic f = Panic"

fun unwrap :: "'a option \<Rightarrow> ('a, 'e) outcome" where
  "unwrap (Some x) = Ok x"
| "unwrap None = Panic"

fun ok_or :: "'a option \<Rightarrow> 'e \<Rightarrow> ('a, 'e) outcome" where
  "ok_or (Some x) e = Ok x"
| "ok_or None e = Err e"

fun map_err :: "('e \<Rightarrow> 'f) \<Rightarrow> ('a, 'e) outcome \<Rightarrow> ('a, 'f) outcome" where
  "map_err g (Ok x) = Ok x"
| "map_err g (Err e) = Err (g e)"
| "map_err g Panic = Panic"

text \<open>\<open>slice[i]\<close>: panics out of range.\<close>
definition index_o :: "'a list \<Rightarrow> nat \<Rightarrow> ('a, 'e) outcome" where
  "index_o xs i = (if i < length xs then Ok (xs ! i) else Panic)"

text \<open>\<open>for x in xs { body?; }\<close> without and with a loop-carried state.\<close>

fun for_each :: "('a \<Rightarrow> (unit, 'e) outcome) \<Rightarrow> 'a list \<Rightarrow> (unit, 'e) outcome" where
  "for_each f [] = Ok ()"
| "for_each f (x # xs) = and_then (f x) (\<lambda>_. for_each f xs)"

fun fold_o :: "('a \<Rightarrow> 's \<Rightarrow> ('s, 'e) outcome) \<Rightarrow> 'a list \<Rightarrow> 's \<Rightarrow> ('s, 'e) outcome" where
  "fold_o f [] s = Ok s"
| "fold_o f (x # xs) s = and_then (f x s) (fold_o f xs)"

text \<open>\<open>collect::<Result<Vec<_>, _>>()\<close>.\<close>

fun map_o :: "('a \<Rightarrow> ('b, 'e) outcome) \<Rightarrow> 'a list \<Rightarrow> ('b list, 'e) outcome" where
  "map_o f [] = Ok []"
| "map_o f (x # xs) = and_then (f x) (\<lambda>y. and_then (map_o f xs) (\<lambda>ys. Ok (y # ys)))"

text \<open>A loop whose body may \<open>break\<close> (the flag), and \<open>Iterator::any\<close> over a fallible test.\<close>

fun fold_break :: "('a \<Rightarrow> 's \<Rightarrow> ('s \<times> bool, 'e) outcome) \<Rightarrow> 'a list \<Rightarrow> 's \<Rightarrow> ('s, 'e) outcome" where
  "fold_break f [] s = Ok s"
| "fold_break f (x # xs) s =
     and_then (f x s) (\<lambda>(s', brk). if brk then Ok s' else fold_break f xs s')"

fun any_o :: "('a \<Rightarrow> (bool, 'e) outcome) \<Rightarrow> 'a list \<Rightarrow> (bool, 'e) outcome" where
  "any_o f [] = Ok False"
| "any_o f (x # xs) = and_then (f x) (\<lambda>b. if b then Ok True else any_o f xs)"

text \<open>\<open>&slice[off..off + n]\<close>: panics out of range.\<close>
definition slice_o :: "'a list \<Rightarrow> nat \<Rightarrow> nat \<Rightarrow> ('a list, 'e) outcome" where
  "slice_o b off n = (if off + n \<le> length b then Ok (take n (drop off b)) else Panic)"

text \<open>\<open>v as usize\<close> of an \<open>i64\<close> value computed in mathematical integers.\<close>
definition as_usize :: "int \<Rightarrow> nat" where
  "as_usize i = (if 0 \<le> i then nat i else nat (i + 2 ^ 64))"

lemma as_usize_nat [simp]: "as_usize (int n) = n"
  by (simp add: as_usize_def)

lemma as_usize_eq: "i = int n \<Longrightarrow> as_usize i = n"
  by simp

text \<open>A continuation only runs on the value of a successful computation; the function package needs
  this to see why a loop over fallible steps terminates.\<close>
lemma and_then_cong [fundef_cong]:
  "m = m' \<Longrightarrow> (\<And>x. m' = Ok x \<Longrightarrow> f x = g x) \<Longrightarrow> and_then m f = and_then m' g"
  by (cases m') auto

lemma and_then_assoc: "and_then (and_then m f) g = and_then m (\<lambda>x. and_then (f x) g)"
  by (cases m) auto

lemma and_then_eq_Ok [outcome_elims]:
  "and_then m f = Ok y \<longleftrightarrow> (\<exists>x. m = Ok x \<and> f x = Ok y)"
  by (cases m) auto

lemma and_then_eq_Panic:
  "and_then m f = Panic \<longleftrightarrow> m = Panic \<or> (\<exists>x. m = Ok x \<and> f x = Panic)"
  by (cases m) auto

lemma unwrap_eq_Ok [outcome_elims]: "unwrap m = Ok x \<longleftrightarrow> m = Some x"
  by (cases m) auto

lemma unwrap_eq_Panic: "unwrap m = Panic \<longleftrightarrow> m = None"
  by (cases m) auto

lemma ok_or_eq_Ok [outcome_elims]: "ok_or m e = Ok x \<longleftrightarrow> m = Some x"
  by (cases m) auto

lemma ok_or_neq_Panic [simp]: "ok_or m e \<noteq> Panic"
  by (cases m) auto

lemma map_err_eq_Ok [outcome_elims]: "map_err g m = Ok x \<longleftrightarrow> m = Ok x"
  by (cases m) auto

lemma map_err_eq_Panic [simp]: "map_err g m = Panic \<longleftrightarrow> m = Panic"
  by (cases m) auto

lemma index_o_eq_Ok [outcome_elims]: "index_o xs i = Ok x \<longleftrightarrow> i < length xs \<and> x = xs ! i"
  by (auto simp: index_o_def)

lemma for_each_Ok [outcome_elims]: "for_each f xs = Ok u \<longleftrightarrow> (\<forall>x \<in> set xs. f x = Ok ())"
  by (induction xs) (auto simp: and_then_eq_Ok)

lemma for_each_neq_Panic: "(\<And>x. x \<in> set xs \<Longrightarrow> f x \<noteq> Panic) \<Longrightarrow> for_each f xs \<noteq> Panic"
  by (induction xs) (auto simp: and_then_eq_Panic)

lemma fold_o_append: "fold_o f (xs @ ys) s = and_then (fold_o f xs s) (fold_o f ys)"
proof (induction xs arbitrary: s)
  case (Cons x xs)
  show ?case by (cases "f x s") (auto simp: Cons)
qed simp

lemma fold_o_neq_Panic:
  "(\<And>x s. x \<in> set xs \<Longrightarrow> f x s \<noteq> Panic) \<Longrightarrow> fold_o f xs s \<noteq> Panic"
  by (induction xs arbitrary: s) (auto simp: and_then_eq_Panic)

lemma fold_o_total: "(\<And>x s. x \<in> set xs \<Longrightarrow> \<exists>t. f x s = Ok t) \<Longrightarrow> \<exists>t. fold_o f xs s = Ok t"
  by (induction xs arbitrary: s) (auto simp: and_then_eq_Ok, metis)

lemma fold_o_inv:
  assumes "fold_o f xs s = Ok s'" and "P s" and "\<And>x t t'. x \<in> set xs \<Longrightarrow> P t \<Longrightarrow> f x t = Ok t' \<Longrightarrow> P t'"
  shows "P s'"
  using assms by (induction xs arbitrary: s) (auto simp: and_then_eq_Ok)

lemma and_then_no_panic:
  "m \<noteq> Panic \<Longrightarrow> (\<And>x. m = Ok x \<Longrightarrow> f x \<noteq> Panic) \<Longrightarrow> and_then m f \<noteq> Panic"
  by (cases m) auto

lemmas no_panicI = and_then_no_panic fold_o_neq_Panic for_each_neq_Panic

text \<open>A loop that never fails is a fold, as long as its invariant keeps it from failing.\<close>
lemma fold_o_inv_fold:
  assumes "P s" and "\<And>x t. x \<in> set xs \<Longrightarrow> P t \<Longrightarrow> f x t = Ok (g x t) \<and> P (g x t)"
  shows "fold_o f xs s = Ok (fold g xs s) \<and> P (fold g xs s)"
  using assms by (induction xs arbitrary: s) auto

text \<open>The invariant rule of a loop: \<open>P i s\<close> holds of the state before iteration \<open>i\<close>.\<close>

lemma fold_o_upt_inv:
  assumes "fold_o f [a..<b] s = Ok s'" and "a \<le> b" and "P a s"
    and step: "\<And>i t t'. \<lbrakk>a \<le> i; i < b; P i t; f i t = Ok t'\<rbrakk> \<Longrightarrow> P (Suc i) t'"
  shows "P b s'"
proof -
  have "fold_o f [i..<b] t = Ok s' \<Longrightarrow> a \<le> i \<Longrightarrow> i \<le> b \<Longrightarrow> P i t \<Longrightarrow> P b s'" for i t
  proof (induction "b - i" arbitrary: i t)
    case 0
    then show ?case by simp
  next
    case (Suc n)
    then have "i < b" by simp
    with Suc.prems(1) obtain t' where t': "f i t = Ok t'" "fold_o f [Suc i..<b] t' = Ok s'"
      by (auto simp: upt_conv_Cons and_then_eq_Ok)
    have "P (Suc i) t'" using step[OF Suc.prems(2) \<open>i < b\<close> Suc.prems(4) t'(1)] .
    with t'(2) Suc.hyps Suc.prems \<open>i < b\<close> show ?case by (metis Suc_diff_Suc Suc_inject Suc_leI le_SucI)
  qed
  with assms(1-3) show ?thesis by blast
qed

lemma any_o_Ok: "(\<And>x. x \<in> set xs \<Longrightarrow> f x = Ok (g x)) \<Longrightarrow> any_o f xs = Ok (\<exists>x \<in> set xs. g x)"
  by (induction xs) auto

lemma slice_o_eq_Ok [outcome_elims]:
  "slice_o b off n = Ok s \<longleftrightarrow> off + n \<le> length b \<and> s = take n (drop off b)"
  by (auto simp: slice_o_def)

text \<open>Every iteration of a successful loop succeeded.\<close>
lemma fold_o_each: "fold_o f xs s = Ok s' \<Longrightarrow> x \<in> set xs \<Longrightarrow> \<exists>t t'. f x t = Ok t'"
  by (induction xs arbitrary: s) (auto simp: and_then_eq_Ok)

lemma map_o_Ok [outcome_elims]:
  "map_o f xs = Ok ys \<longleftrightarrow> length ys = length xs \<and> (\<forall>i < length xs. f (xs ! i) = Ok (ys ! i))"
proof (induction xs arbitrary: ys)
  case (Cons x xs)
  show ?case
    by (cases ys) (auto simp: and_then_eq_Ok Cons nth_Cons split: nat.splits)
qed (auto)

lemma map_o_map_Ok: "(\<And>x. x \<in> set xs \<Longrightarrow> f x = Ok (g x)) \<Longrightarrow> map_o f xs = Ok (map g xs)"
  by (induction xs) auto

lemma fold_o_Ok_fold: "(\<And>x s. x \<in> set xs \<Longrightarrow> f x s = Ok (g x s)) \<Longrightarrow> fold_o f xs s = Ok (fold g xs s)"
  by (induction xs arbitrary: s) auto

section \<open>Signed readings\<close>

lemma uint_eq_sint: "0 \<le> sint v \<Longrightarrow> uint v = sint v" for v :: "'a::len word"
proof -
  assume "0 \<le> sint v"
  moreover have "sint v < 2 ^ LENGTH('a)"
    using sint_lt[of v] by (rule less_le_trans) (simp add: power_increasing)
  ultimately show ?thesis by (simp add: uint_sint take_bit_int_eq_self)
qed

lemma unat_eq_nat_sint: "0 \<le> sint v \<Longrightarrow> unat v = nat (sint v)" for v :: "'a::len word"
  using uint_eq_sint[of v] by (simp add: unat_eq_nat_uint del: nat_uint_eq)

lemma usize_of_i32_nonneg: "0 \<le> sint v \<Longrightarrow> usize_of_i32 v = nat (sint v)"
proof -
  assume nn: "0 \<le> sint v"
  have "sint v < 2 ^ 31" using sint_lt[of v] by simp
  with nn have "take_bit 64 (sint v) = sint v" by (intro take_bit_int_eq_self) auto
  then have "uint (scast v :: 64 word) = sint v"
    by (simp only: scast_eq uint_word_of_int_eq len_num1 len_bit0 len_bit1) simp
  then show ?thesis by (simp add: usize_of_i32_def unat_eq_nat_uint del: nat_uint_eq)
qed

lemma sint_eq_int_iff: "sint v = int n \<longleftrightarrow> 0 \<le> sint v \<and> unat v = n" for v :: "'a::len word"
  by (metis int_nat_eq nat_int of_nat_0_le_iff unat_eq_nat_sint)
section \<open>Slices\<close>

text \<open>\<open>b.get(off..off + n)\<close>.\<close>
definition get_slice :: "'a list \<Rightarrow> nat \<Rightarrow> nat \<Rightarrow> 'a list option" where
  "get_slice b off n = (if off + n \<le> length b then Some (take n (drop off b)) else None)"

lemma get_slice_eq_Some: "get_slice b off n = Some s \<longleftrightarrow> off + n \<le> length b \<and> s = take n (drop off b)"
  by (auto simp: get_slice_def)

lemma length_get_slice: "get_slice b off n = Some s \<Longrightarrow> length s = n"
  by (auto simp: get_slice_def split: if_splits)

lemma get_slice_append_right [bytes_simps]:
  "length xs \<le> off \<Longrightarrow> get_slice (xs @ ys) off n = get_slice ys (off - length xs) n"
  by (auto simp: get_slice_def)

lemma get_slice_append_left [bytes_simps]:
  "off + n \<le> length xs \<Longrightarrow> get_slice (xs @ ys) off n = get_slice xs off n"
  by (auto simp: get_slice_def)

lemma get_slice_0_append [bytes_simps]: "n = length xs \<Longrightarrow> get_slice (xs @ ys) 0 n = Some xs"
  by (auto simp: get_slice_def)

lemma get_slice_0_all [bytes_simps]: "n = length xs \<Longrightarrow> get_slice xs 0 n = Some xs"
  by (auto simp: get_slice_def)

text \<open>A table of rows of one width: reading inside row \<open>i\<close> is reading the row.\<close>

lemma length_concat_rows [bytes_simps]:
  "(\<And>x. x \<in> set xs \<Longrightarrow> length (f x) = w) \<Longrightarrow> length (concat (map f xs)) = length xs * w"
  by (induction xs) auto

lemma get_slice_rows:
  assumes "\<And>x. x \<in> set xs \<Longrightarrow> length (f x) = w" and "i < length xs" and "k + n \<le> w"
  shows "get_slice (concat (map f xs)) (i * w + k) n = get_slice (f (xs ! i)) k n"
  using assms
proof (induction xs arbitrary: i)
  case (Cons x xs)
  have lx: "length (f x) = w" using Cons.prems by simp
  show ?case
  proof (cases i)
    case 0
    then show ?thesis using Cons.prems lx by (simp add: get_slice_append_left)
  next
    case (Suc j)
    have "get_slice (concat (map f xs)) (j * w + k) n = get_slice (f (xs ! j)) k n"
      using Cons.IH[of j] Cons.prems Suc by simp
    then show ?thesis using Suc lx by (simp add: get_slice_append_right)
  qed
qed simp

section \<open>Lists\<close>

lemma map_upt_eq_take_drop:
  "a + n \<le> length xs \<Longrightarrow> map (\<lambda>i. xs ! i) [a..<a + n] = take n (drop a xs)"
  by (auto intro!: nth_equalityI)

lemma takeWhile_shorter: "\<exists>x \<in> set xs. \<not> P x \<Longrightarrow> length (takeWhile P xs) < length xs"
  by (induction xs) auto

lemma sorted_wrt_map_nth: "sorted_wrt R xs \<Longrightarrow> i < j \<Longrightarrow> j < length xs \<Longrightarrow> R (xs ! i) (xs ! j)"
  by (simp add: sorted_wrt_iff_nth_less)

lemma filter_concat_skip:
  assumes "\<And>b x. b \<in> set bs \<Longrightarrow> \<not> keep b \<Longrightarrow> x \<in> set b \<Longrightarrow> \<not> P x"
  shows "filter P (concat (filter keep bs)) = filter P (concat bs)"
  using assms
proof (induction bs)
  case (Cons b bs)
  have "\<not> keep b \<Longrightarrow> filter P b = []" using Cons.prems by (auto simp: filter_empty_conv)
  moreover have "filter P (concat (filter keep bs)) = filter P (concat bs)"
    using Cons.IH Cons.prems by (meson list.set_intros(2))
  ultimately show ?case by auto
qed simp

text \<open>Maps given by association lists.\<close>

lemma distinct_concat_map:
  "distinct rs \<Longrightarrow> (\<And>r. r \<in> set rs \<Longrightarrow> distinct (F r)) \<Longrightarrow>
   (\<And>r q. r \<in> set rs \<Longrightarrow> q \<in> set rs \<Longrightarrow> r \<noteq> q \<Longrightarrow> set (F r) \<inter> set (F q) = {}) \<Longrightarrow> distinct (concat (map F rs))"
proof (induction rs)
  case (Cons r rs)
  have "set (F r) \<inter> set (F q) = {}" if "q \<in> set rs" for q
    using Cons.prems(1) Cons.prems(3)[of r q] that by auto
  moreover have "distinct (concat (map F rs))" using Cons by simp
  ultimately show ?case using Cons.prems(2) by auto
qed simp

lemma map_of_snoc: "k \<notin> fst ` set xs \<Longrightarrow> map_of (xs @ [(k, v)]) = (map_of xs)(k \<mapsto> v)"
  by (induction xs) (auto simp: fun_upd_twist)

lemma map_of_rev_distinct: "distinct (map fst xs) \<Longrightarrow> map_of (rev xs) = map_of xs"
  by (induction xs) (auto simp: map_of_snoc simp del: map_of_append)

end
