(* ===== verification/Index_Model.thy ===== *)
theory Index_Model
  imports Prelude
begin

text \<open>
  The primitives of \<open>crates/ls-index-model\<close>: positions and spans with the columnar
  \<open>(line << 12) | char\<close> packing (\<open>text.rs\<close>), occurrence roles and flags
  (\<open>flags.rs\<close>), symbol keys and kinds (\<open>symbol.rs\<close>), the rename-safety reason mask
  and profile (\<open>unsafe_reason.rs\<close>, \<open>groups.rs\<close>) and the typed error surface
  (\<open>error.rs\<close>). The packing lemmas reduce every comparison of packed positions to
  the lexicographic order of the positions they pack.
\<close>

unbundle bit_operations_syntax

section \<open>Strings\<close>

text \<open>An ASCII literal as its bytes.\<close>
definition lit :: "string \<Rightarrow> str" where
  "lit s = map of_char s"

lemma lit_append [simp]: "lit (s @ t) = lit s @ lit t"
  by (simp add: lit_def)

text \<open>\<open>str::find\<close> of one ASCII character: the byte offset of its first occurrence.\<close>
fun find_byte :: "byte \<Rightarrow> str \<Rightarrow> nat option" where
  "find_byte c [] = None"
| "find_byte c (b # bs) = (if b = c then Some 0 else map_option Suc (find_byte c bs))"

text \<open>\<open>{n}\<close> in a format string: decimal digits without leading zeros.\<close>

fun decimal :: "nat \<Rightarrow> str" where
  "decimal n = (if n < 10 then [word_of_nat (48 + n)]
                else decimal (n div 10) @ [word_of_nat (48 + n mod 10)])"

declare decimal.simps [simp del]

definition is_ascii_digit :: "byte \<Rightarrow> bool" where
  "is_ascii_digit b \<longleftrightarrow> 48 \<le> b \<and> b \<le> 57"

section \<open>Positions and spans\<close>

record pos =
  line :: u32
  character :: u32

record span =
  start_line :: u32
  start_char :: u32
  end_line :: u32
  end_char :: u32

definition CHAR_BITS :: nat where "CHAR_BITS = 12"
definition CHAR_MASK :: u32 where "CHAR_MASK = push_bit CHAR_BITS 1 - 1"
definition LINE_MAX :: u32 where "LINE_MAX = push_bit 20 1 - 1"

definition new_span :: "u32 \<Rightarrow> u32 \<Rightarrow> u32 \<Rightarrow> u32 \<Rightarrow> span" where
  "new_span sl sc el ec = \<lparr>start_line = sl, start_char = sc, end_line = el, end_char = ec\<rparr>"

text \<open>The derived \<open>PartialOrd\<close> of \<open>Pos\<close> is lexicographic on the fields.\<close>
definition pos_le :: "pos \<Rightarrow> pos \<Rightarrow> bool" where
  "pos_le a b \<longleftrightarrow> line a < line b \<or> (line a = line b \<and> character a \<le> character b)"

definition contains :: "span \<Rightarrow> u32 \<Rightarrow> u32 \<Rightarrow> bool" where
  "contains s l c =
     (let after_start = l > start_line s \<or> (l = start_line s \<and> c \<ge> start_char s);
          before_end = l < end_line s \<or> (l = end_line s \<and> c \<le> end_char s)
      in after_start \<and> before_end)"

definition pack :: "u32 \<Rightarrow> u32 \<Rightarrow> u32" where
  "pack ln ch =
     (let l = (if ln < LINE_MAX then ln else LINE_MAX);
          c = (if ch < CHAR_MASK then ch else CHAR_MASK)
      in push_bit CHAR_BITS l OR c)"

definition unpack_line :: "u32 \<Rightarrow> u32" where
  "unpack_line p = drop_bit CHAR_BITS p"

definition unpack_char :: "u32 \<Rightarrow> u32" where
  "unpack_char p = p AND CHAR_MASK"

record loc =
  loc_uri :: str
  loc_span :: span

section \<open>Occurrence roles and flags\<close>

datatype role = Reference | Definition

definition DEFINITION :: u32 where "DEFINITION = push_bit 0 1"
definition EDITABLE :: u32 where "EDITABLE = push_bit 1 1"
definition GENERATED :: u32 where "GENERATED = push_bit 2 1"
definition READONLY :: u32 where "READONLY = push_bit 3 1"
definition SYNTHETIC :: u32 where "SYNTHETIC = push_bit 4 1"

definition has :: "u32 \<Rightarrow> u32 \<Rightarrow> bool" where
  "has flags b \<longleftrightarrow> flags AND b \<noteq> 0"

section \<open>Symbols\<close>

record symbol_key =
  semantic_symbol :: str
  local_doc :: "u64 option"

definition symbol_key_global :: "str \<Rightarrow> symbol_key" where
  "symbol_key_global s = \<lparr>semantic_symbol = s, local_doc = None\<rparr>"

definition symbol_key_local :: "str \<Rightarrow> u64 \<Rightarrow> symbol_key" where
  "symbol_key_local s d = \<lparr>semantic_symbol = s, local_doc = Some d\<rparr>"

definition key_is_local :: "symbol_key \<Rightarrow> bool" where
  "key_is_local k \<longleftrightarrow> local_doc k \<noteq> None"

datatype sym_kind = UnknownKind | LocalValue | LocalVariable | Method | Constructor | Macro
  | SymType | Parameter | SelfParameter | TypeParameter | Object | Package | PackageObject
  | SymClass | Trait | Interface | Field

fun code :: "sym_kind \<Rightarrow> i32" where
  "code UnknownKind = 0"
| "code LocalValue = 19"
| "code LocalVariable = 20"
| "code Method = 3"
| "code Constructor = 21"
| "code Macro = 6"
| "code SymType = 7"
| "code Parameter = 8"
| "code SelfParameter = 17"
| "code TypeParameter = 9"
| "code Object = 10"
| "code Package = 11"
| "code PackageObject = 12"
| "code SymClass = 13"
| "code Trait = 14"
| "code Interface = 18"
| "code Field = 15"

definition from_code :: "i32 \<Rightarrow> sym_kind" where
  "from_code c =
     (if c = 19 then LocalValue else if c = 20 then LocalVariable
      else if c = 3 then Method else if c = 21 then Constructor
      else if c = 6 then Macro else if c = 7 then SymType
      else if c = 8 then Parameter else if c = 17 then SelfParameter
      else if c = 9 then TypeParameter else if c = 10 then Object
      else if c = 11 then Package else if c = 12 then PackageObject
      else if c = 13 then SymClass else if c = 14 then Trait
      else if c = 18 then Interface else if c = 15 then Field
      else UnknownKind)"

text \<open>The property bits that the other components test.\<close>
definition OPAQUE :: u32 where "OPAQUE = 0x200000"

section \<open>Reasons a rename is rejected\<close>

definition EXTERNAL :: u64 where "EXTERNAL = push_bit 0 1"
definition GENERATED_OCCURRENCE :: u64 where "GENERATED_OCCURRENCE = push_bit 1 1"
definition READONLY_OCCURRENCE :: u64 where "READONLY_OCCURRENCE = push_bit 2 1"
definition OVERRIDE_FAMILY :: u64 where "OVERRIDE_FAMILY = push_bit 3 1"
definition SYNTHETIC_ONLY :: u64 where "SYNTHETIC_ONLY = push_bit 4 1"
definition PC_ONLY :: u64 where "PC_ONLY = push_bit 5 1"
definition SHARED_SOURCE_DISAGREEMENT :: u64 where "SHARED_SOURCE_DISAGREEMENT = push_bit 6 1"
definition UNSUPPORTED_SYMBOL_FAMILY :: u64 where "UNSUPPORTED_SYMBOL_FAMILY = push_bit 7 1"
definition DEPENDENCY_SOURCE :: u64 where "DEPENDENCY_SOURCE = push_bit 8 1"
definition OPAQUE_TYPE :: u64 where "OPAQUE_TYPE = push_bit 9 1"

definition explain :: "u64 \<Rightarrow> string list" where
  "explain m =
     (if m AND EXTERNAL \<noteq> 0
      then [''symbol is defined outside the workspace''] else []) @
     (if m AND GENERATED_OCCURRENCE \<noteq> 0
      then [''symbol has occurrences in generated sources''] else []) @
     (if m AND READONLY_OCCURRENCE \<noteq> 0
      then [''symbol has occurrences in readonly sources''] else []) @
     (if m AND OVERRIDE_FAMILY \<noteq> 0
      then [''symbol participates in an override family that cannot be renamed safely''] else []) @
     (if m AND SYNTHETIC_ONLY \<noteq> 0
      then [''symbol only has synthetic occurrences''] else []) @
     (if m AND PC_ONLY \<noteq> 0
      then [''symbol is provided by a PC-only plugin and is not present in fresh SemanticDB''] else []) @
     (if m AND SHARED_SOURCE_DISAGREEMENT \<noteq> 0
      then [''targets sharing this source disagree on the rename group''] else []) @
     (if m AND UNSUPPORTED_SYMBOL_FAMILY \<noteq> 0
      then [''symbol family (e.g. apply/unapply, exported symbol) is not safely renameable''] else []) @
     (if m AND DEPENDENCY_SOURCE \<noteq> 0
      then [''symbol has occurrences in dependency sources''] else []) @
     (if m AND OPAQUE_TYPE \<noteq> 0
      then [''opaque type rename is not supported (conservative policy)''] else [])"

record rename_profile =
  is_local :: bool
  is_external :: bool
  has_generated_occurrences :: bool
  has_readonly_occurrences :: bool
  has_override_family :: bool
  has_companion :: bool
  editable_occurrence_count :: u32
  unsafe_reason_mask :: u64

definition is_safe :: "rename_profile \<Rightarrow> bool" where
  "is_safe p \<longleftrightarrow> unsafe_reason_mask p = 0"

definition rename_profile_empty :: rename_profile where
  "rename_profile_empty =
     \<lparr>is_local = False, is_external = False, has_generated_occurrences = False,
      has_readonly_occurrences = False, has_override_family = False, has_companion = False,
      editable_occurrence_count = 0, unsafe_reason_mask = 0\<rparr>"

section \<open>Typed errors\<close>

datatype ls_error =
    IndexUnavailable str
  | StaleIndex str
  | CompileFailed str
  | RenameRejected "str list"
  | PcOnlySymbol
  | NoSymbolAtCursor str u32 u32
  | NotIndexed str
  | NoSemanticdb str

fun message :: "ls_error \<Rightarrow> str" where
  "message (IndexUnavailable target) =
     lit ''target '' @ target @ lit '' has no SemanticDB output; workspace symbol, references and rename are disabled for it''"
| "message (StaleIndex uri) =
     lit ''index for '' @ uri @ lit '' is stale (md5 mismatch) and could not be refreshed''"
| "message (CompileFailed target) =
     lit ''buildTarget/compile failed for '' @ target @ lit ''; rename requires a fresh successful compile''"
| "message (RenameRejected reasons) =
     lit ''rename rejected:'' @ concat (map (\<lambda>r. 10 # lit ''  - '' @ r) reasons)"
| "message PcOnlySymbol =
     lit ''This symbol is provided by a PC-only plugin and is not present in fresh SemanticDB. Workspace-wide references and cross-file rename are unavailable for this symbol.''"
| "message (NoSymbolAtCursor uri l c) =
     lit ''no symbol occurrence at '' @ uri @ lit '':'' @ decimal (unat l) @ lit '':'' @ decimal (unat c)"
| "message (NotIndexed uri) = uri @ lit '' is not part of any indexed build target''"
| "message (NoSemanticdb uri) =
     uri @ lit '' has no SemanticDB output; every source must be compiled with -Xsemanticdb''"

section \<open>Packing lemmas\<close>

lemma CHAR_MASK_eq: "CHAR_MASK = 4095"
  by (simp add: CHAR_MASK_def CHAR_BITS_def push_bit_eq_mult)

lemma LINE_MAX_eq: "LINE_MAX = 1048575"
  by (simp add: LINE_MAX_def push_bit_eq_mult)

lemma unat_shift_or:
  assumes "unat l < 2 ^ 20" and "unat c < 2 ^ 12"
  shows "unat (push_bit 12 (l::u32) OR c) = unat l * 4096 + unat c"
proof -
  have "push_bit 12 l AND c = 0"
  proof (rule bit_word_eqI)
    fix n
    have "c = take_bit 12 c"
      using assms(2) by (metis take_bit_nat_eq_self unsigned_take_bit_eq word_unat_eq_iff)
    then have "bit c n \<Longrightarrow> n < 12" by (metis bit_take_bit_iff)
    then show "bit (push_bit 12 l AND c) n \<longleftrightarrow> bit (0::u32) n"
      by (auto simp: bit_simps)
  qed
  then have "push_bit 12 l OR c = push_bit 12 l + c"
    by (simp add: disjunctive_add_eq_or)
  moreover have "unat (push_bit 12 l) = unat l * 4096"
    using assms(1) by (simp add: push_bit_eq_mult unat_word_ariths)
  ultimately show ?thesis
    using assms by (simp add: unat_word_ariths)
qed

lemma unat_pack: "unat (pack l c) = min (unat l) 1048575 * 4096 + min (unat c) 4095"
  unfolding pack_def Let_def CHAR_BITS_def
  by (subst unat_shift_or) (auto simp: CHAR_MASK_eq LINE_MAX_eq word_less_nat_alt)

lemma unat_unpack_line: "unat (unpack_line p) = unat p div 4096"
  by (simp add: unpack_line_def CHAR_BITS_def drop_bit_eq_div unat_div)

lemma unat_unpack_char: "unat (unpack_char p) = unat p mod 4096"
proof -
  have "p AND 4095 = take_bit 12 p"
    by (simp add: take_bit_eq_mask mask_eq_exp_minus_1)
  then show ?thesis
    by (simp add: unpack_char_def CHAR_MASK_eq take_bit_eq_mod unat_mod)
qed

lemma unpack_line_pack: "l \<le> LINE_MAX \<Longrightarrow> unpack_line (pack l c) = l"
  by (auto simp: word_unat_eq_iff unat_unpack_line unat_pack LINE_MAX_eq word_le_nat_alt)

lemma unpack_char_pack: "c \<le> CHAR_MASK \<Longrightarrow> unpack_char (pack l c) = c"
  by (auto simp: word_unat_eq_iff unat_unpack_char unat_pack CHAR_MASK_eq word_le_nat_alt)

lemma pack_unpack: "pack (unpack_line p) (unpack_char p) = p"
proof -
  have "unat p < 2 ^ 32" using unsigned_less[of p, where ?'a = nat] by simp
  then have "unat p div 4096 \<le> 1048575" by simp
  then show ?thesis
    by (auto simp: word_unat_eq_iff unat_unpack_line unat_unpack_char unat_pack min_def)
qed

lemma pack_le_iff:
  assumes "l \<le> LINE_MAX" "c \<le> CHAR_MASK" "l' \<le> LINE_MAX" "c' \<le> CHAR_MASK"
  shows "pack l c \<le> pack l' c' \<longleftrightarrow> l < l' \<or> (l = l' \<and> c \<le> c')"
proof -
  have bounds: "unat l \<le> 1048575" "unat c \<le> 4095" "unat l' \<le> 1048575" "unat c' \<le> 4095"
    using assms by (simp_all add: LINE_MAX_eq CHAR_MASK_eq word_le_nat_alt)
  have "unat l * 4096 + unat c \<le> unat l' * 4096 + unat c' \<longleftrightarrow>
      unat l < unat l' \<or> (unat l = unat l' \<and> unat c \<le> unat c')"
    using bounds(2,4) by auto
  then show ?thesis
    using bounds by (simp add: word_le_nat_alt word_less_nat_alt unat_pack min_absorb1 word_unat_eq_iff)
qed

section \<open>Properties\<close>

lemma pack_saturated: "pack l c = pack (min l LINE_MAX) (min c CHAR_MASK)"
  by (auto simp: pack_def min_def not_less)

text \<open>
  C17: Packing saturates and keeps order: for all positions, unpacking gives back the line and the column cut at the
  largest packable ones, and the unsigned order of packed values is the lexicographic order of the cut
  positions; so where everything fits the 20/12 bits, positions come back exactly, order is position order,
  and a span contains a position (end inclusive) exactly when the packed position lies between its packed ends.
\<close>
theorem pack_order_and_containment:
  "(pack l c \<le> pack l' c' \<longleftrightarrow>
      pos_le \<lparr>line = min l LINE_MAX, character = min c CHAR_MASK\<rparr> \<lparr>line = min l' LINE_MAX, character = min c' CHAR_MASK\<rparr>) \<and>
   unpack_line (pack l c) = min l LINE_MAX \<and> unpack_char (pack l c) = min c CHAR_MASK \<and>
   (l \<le> LINE_MAX \<and> c \<le> CHAR_MASK \<and> start_line s \<le> LINE_MAX \<and> start_char s \<le> CHAR_MASK \<and>
      end_line s \<le> LINE_MAX \<and> end_char s \<le> CHAR_MASK \<longrightarrow>
    (contains s l c \<longleftrightarrow>
       pack (start_line s) (start_char s) \<le> pack l c \<and> pack l c \<le> pack (end_line s) (end_char s)))"
proof -
  have fit: "min a LINE_MAX \<le> LINE_MAX" "min b CHAR_MASK \<le> CHAR_MASK" for a b by simp_all
  have "pack l c \<le> pack l' c' \<longleftrightarrow>
      pos_le \<lparr>line = min l LINE_MAX, character = min c CHAR_MASK\<rparr> \<lparr>line = min l' LINE_MAX, character = min c' CHAR_MASK\<rparr>"
    unfolding pack_saturated[of l c] pack_saturated[of l' c'] using fit by (simp add: pack_le_iff pos_le_def)
  moreover have "unpack_line (pack l c) = min l LINE_MAX" "unpack_char (pack l c) = min c CHAR_MASK"
    unfolding pack_saturated[of l c] using fit by (simp_all add: unpack_line_pack unpack_char_pack)
  ultimately show ?thesis by (auto simp: pack_le_iff contains_def Let_def)
qed

theorem pack_order_and_containment_witness:
  "unpack_line (pack 3 4) = 3 \<and> unpack_char (pack 3 5000) = 4095 \<and> pack 3 5000 \<le> pack 4 0 \<and>
   (contains (new_span 3 1 3 9) 3 4 \<longleftrightarrow> pack 3 1 \<le> pack 3 4 \<and> pack 3 4 \<le> pack 3 9)"
  using pack_order_and_containment[of 3 4 0 0 "new_span 3 1 3 9"] pack_order_and_containment[of 3 5000 4 0 "new_span 0 0 0 0"]
  by (simp add: LINE_MAX_eq CHAR_MASK_eq new_span_def pos_le_def)

text \<open>
  The persisted symbol-kind codes are faithful: every kind survives encoding, no two kinds share a
  code, and a code that no kind has decodes to the unknown kind.
\<close>
theorem sym_kind_code_round_trip:
  "from_code (code k) = k \<and> (code k = code k' \<longleftrightarrow> k = k') \<and>
   (from_code n = UnknownKind \<or> code (from_code n) = n)"
proof -
  have rt: "from_code (code j) = j" for j by (cases j) (simp_all add: from_code_def)
  moreover have "from_code n = UnknownKind \<or> code (from_code n) = n" by (simp add: from_code_def)
  ultimately show ?thesis by metis
qed

end
