(* ===== verification/Segment_Format.thy ===== *)
theory Segment_Format
  imports Index_Model "HOL-Library.List_Lexorder" "HOL-Library.Product_Lexorder"
begin

text \<open>
  The on-disk constants (\<open>format.rs\<close>), the in-memory segment description
  (\<open>data.rs\<close>) and the typed errors (\<open>error.rs\<close>) of \<open>crates/ls-store\<close>. The free text
  that an error formats from run-time values is left out; its fixed detail strings
  are kept, so that every early return of the reader and the writer is a value of
  its own. I/O failures are one constructor.
\<close>

unbundle bit_operations_syntax

section \<open>Format constants\<close>

definition MAGIC :: u32 where "MAGIC = 0x4750534c"
definition VERSION :: u16 where "VERSION = 1"
definition BLOCK_SIZE :: nat where "BLOCK_SIZE = 256"
definition HEADER_SIZE :: nat where "HEADER_SIZE = 64"
definition HEADER_CHECKSUM_OFFSET :: nat where "HEADER_CHECKSUM_OFFSET = 56"
definition GROUP_INDEX_ENTRY_SIZE :: nat where "GROUP_INDEX_ENTRY_SIZE = 16"
definition RENAME_PROFILE_ENTRY_SIZE :: nat where "RENAME_PROFILE_ENTRY_SIZE = 16"
definition DOC_ENTRY_SIZE :: nat where "DOC_ENTRY_SIZE = 48"
definition INTERVAL_ENTRY_SIZE :: nat where "INTERVAL_ENTRY_SIZE = 24"
definition SYMBOL_ENTRY_SIZE :: nat where "SYMBOL_ENTRY_SIZE = 32"
definition BLOCK_ENTRY_FIXED_SIZE :: nat where "BLOCK_ENTRY_FIXED_SIZE = 40"
definition TARGET_META_ENTRY_SIZE :: nat where "TARGET_META_ENTRY_SIZE = 48"
definition SYMBOL_META_ENTRY_SIZE :: nat where "SYMBOL_META_ENTRY_SIZE = 48"

definition CHECKSUMMED_FILES :: "string list" where
  "CHECKSUMMED_FILES =
     [''header.bin'', ''ref-group-index.bin'', ''definition-group-index.bin'',
      ''rename-group-index.bin'', ''doc-index.bin'', ''symbol-index.bin'', ''ref-postings.bin'',
      ''definition-postings.bin'', ''rename-postings.bin'', ''doc-postings.bin'',
      ''block-index.bin'', ''target-meta.bin'', ''symbol-meta.bin'', ''search.bin'']"

definition CHECKSUMS_FILE :: string where "CHECKSUMS_FILE = ''checksums.bin''"

definition DOC_GENERATED :: i32 where "DOC_GENERATED = push_bit 0 1"
definition DOC_READONLY :: i32 where "DOC_READONLY = push_bit 1 1"

definition IS_LOCAL :: i32 where "IS_LOCAL = push_bit 0 1"
definition IS_EXTERNAL :: i32 where "IS_EXTERNAL = push_bit 1 1"
definition HAS_GENERATED :: i32 where "HAS_GENERATED = push_bit 2 1"
definition HAS_READONLY :: i32 where "HAS_READONLY = push_bit 3 1"
definition HAS_OVERRIDE_FAMILY :: i32 where "HAS_OVERRIDE_FAMILY = push_bit 4 1"
definition HAS_COMPANION :: i32 where "HAS_COMPANION = push_bit 5 1"

definition target_word_count :: "nat \<Rightarrow> nat" where
  "target_word_count target_count =
     (let w = drop_bit 6 (target_count + 63) in if w = 0 then 1 else w)"

definition block_entry_size :: "nat \<Rightarrow> nat" where
  "block_entry_size target_count = BLOCK_ENTRY_FIXED_SIZE + 8 * target_word_count target_count"

text \<open>\<open>format!("segment-{segment_id:06}")\<close>.\<close>
definition segment_dir_name :: "u64 \<Rightarrow> str" where
  "segment_dir_name segment_id =
     (let ds = decimal (unat segment_id)
      in lit ''segment-'' @ replicate (6 - length ds) 48 @ ds)"

section \<open>Segment data\<close>

record segment_doc =
  sd_uri :: str
  sd_doc_id :: i64
  sd_epoch :: i32
  sd_target_ord :: i32
  sd_generated :: bool
  sd_readonly :: bool

record segment_symbol =
  ss_semantic_symbol :: str
  ss_symbol_id :: i64
  ss_ref_group_ord :: i32
  ss_rename_group_ord :: i32
  ss_def_target_ord :: i32

record group_occ =
  go_doc_ord :: i32
  go_doc_epoch :: i32
  go_target_ord :: i32
  go_span :: span
  go_flags :: i32

record doc_occ =
  do_symbol_ord :: i32
  do_span :: span
  do_flags :: i32

record stored_profile =
  sp_is_local :: bool
  sp_is_external :: bool
  sp_has_generated :: bool
  sp_has_readonly :: bool
  sp_has_override_family :: bool
  sp_has_companion :: bool
  sp_editable_occurrence_count :: i32
  sp_unsafe_reason_mask :: i64

record target_meta_data =
  tm_bsp_id :: str
  tm_scala_version :: str
  tm_sourceroot :: str
  tm_semanticdb_root :: str
  tm_content_hash :: i64
  tm_options_hash :: i64

definition target_meta_default :: target_meta_data where
  "target_meta_default =
     \<lparr>tm_bsp_id = [], tm_scala_version = [], tm_sourceroot = [], tm_semanticdb_root = [],
      tm_content_hash = 0, tm_options_hash = 0\<rparr>"

record symbol_meta_data =
  sm_display :: str
  sm_owner :: str
  sm_package_name :: str
  sm_kind :: i32
  sm_properties :: u32
  sm_def_packed_start :: i32
  sm_def_packed_end :: i32
  sm_def_doc_ord :: i32

definition symbol_meta_default :: symbol_meta_data where
  "symbol_meta_default =
     \<lparr>sm_display = [], sm_owner = [], sm_package_name = [], sm_kind = 0, sm_properties = 0,
      sm_def_packed_start = 0, sm_def_packed_end = 0, sm_def_doc_ord = 0\<rparr>"

record search_row_data =
  sr_normalized_name :: str
  sr_symbol_ord :: i32

record segment_data =
  docs :: "segment_doc list"
  targets :: "i64 list"
  symbols :: "segment_symbol list"
  ref_occurrences :: "group_occ list list"
  def_occurrences :: "group_occ list list"
  rename_occurrences :: "group_occ list list"
  rename_profiles :: "stored_profile list"
  doc_occurrences :: "doc_occ list list"
  target_metas :: "target_meta_data list"
  symbol_metas :: "symbol_meta_data list"
  search_rows :: "search_row_data list"

section \<open>Errors\<close>

datatype segment_error =
    SegmentIo
  | BadMagic u32
  | BadVersion u16
  | HeaderChecksumMismatch
  | ChecksumMismatch string
  | ChecksumListMismatch
  | Truncated string
  | Structural string
  | InvalidInput string

type_synonym 'a seg_result = "('a, segment_error) outcome"

section \<open>Standard-library operations on integers and slices\<close>

definition I32_MAX :: i32 where "I32_MAX = 0x7fffffff"
definition I32_MIN :: i32 where "I32_MIN = 0x80000000"

definition i32_min :: "i32 \<Rightarrow> i32 \<Rightarrow> i32" where
  "i32_min a b = (if sint a \<le> sint b then a else b)"

definition i32_max :: "i32 \<Rightarrow> i32 \<Rightarrow> i32" where
  "i32_max a b = (if sint a \<le> sint b then b else a)"

text \<open>\<open>target_words[t >> 6] |= 1u64 << (t & 63)\<close>.\<close>
definition set_target_bit :: "u64 list \<Rightarrow> nat \<Rightarrow> u64 list seg_result" where
  "set_target_bit ws t =
     and_then (index_o ws (drop_bit 6 t)) (\<lambda>w. Ok (ws[drop_bit 6 t := w OR push_bit (t AND 63) 1]))"

text \<open>\<open>slice::chunks(n)\<close>.\<close>
function chunks :: "nat \<Rightarrow> 'a list \<Rightarrow> 'a list list" where
  "chunks n xs = (if xs = [] \<or> n = 0 then [] else take n xs # chunks n (drop n xs))"
  by pat_completeness auto
termination by (relation "measure (length \<circ> snd)") auto

declare chunks.simps [simp del]

text \<open>\<open>usize::div_ceil\<close>.\<close>
definition div_ceil :: "nat \<Rightarrow> nat \<Rightarrow> nat" where
  "div_ceil a b = (a + b - 1) div b"

lemma chunks_Nil [simp]: "chunks n [] = []"
  by (simp add: chunks.simps)

lemma concat_chunks: "0 < n \<Longrightarrow> concat (chunks n xs) = xs"
  by (induction n xs rule: chunks.induct) (simp add: chunks.simps)

lemma length_chunks: "0 < n \<Longrightarrow> length (chunks n xs) = div_ceil (length xs) n"
proof (induction n xs rule: chunks.induct)
  case (1 n xs)
  show ?case
  proof (cases "xs = []")
    case True
    with "1.prems" show ?thesis by (simp add: div_ceil_def)
  next
    case False
    then have "length (chunks n xs) = Suc (div_ceil (length xs - n) n)"
      using "1.IH" "1.prems" by (subst chunks.simps) simp
    moreover have "div_ceil (length xs) n = Suc (div_ceil (length xs - n) n)"
    proof (cases "n \<le> length xs")
      case True
      then show ?thesis using "1.prems" by (simp add: div_ceil_def le_div_geq)
    next
      case below: False
      then have "(length xs + n - 1) div n = 1"
        using False "1.prems" by (intro div_nat_eqI) (cases xs; simp)+
      then show ?thesis using below "1.prems" by (simp add: div_ceil_def)
    qed
    ultimately show ?thesis by simp
  qed
qed

lemma nth_chunks:
  "0 < n \<Longrightarrow> k < length (chunks n xs) \<Longrightarrow> chunks n xs ! k = take n (drop (k * n) xs)"
proof (induction n xs arbitrary: k rule: chunks.induct)
  case (1 n xs)
  then have ne: "xs \<noteq> []" by auto
  have unfold: "chunks n xs = take n xs # chunks n (drop n xs)"
    using ne "1.prems" by (subst chunks.simps) simp
  show ?case
  proof (cases k)
    case (Suc j)
    then show ?thesis
      using "1.IH"[of j] "1.prems" ne by (simp add: unfold add.commute)
  qed (simp add: unfold)
qed

lemma length_target_words: "0 < target_word_count n" and target_word_bound: "t < n \<Longrightarrow> t div 64 < target_word_count n"
  by (auto simp: target_word_count_def Let_def drop_bit_eq_div div_less_iff_less_mult)

end
