(* ===== verification/Wire.thy ===== *)
theory Wire
  imports Prelude
begin

text \<open>
  Little-endian encoding and decoding (\<open>crates/ls-store/src/wire.rs\<close>). An \<open>LeBuf\<close>
  is its byte list; \<open>buf.put_u32(v)\<close> is \<open>buf @ put_u32 v\<close>. The locale \<open>le_codec\<close> is
  the interface the segment writer and reader rely on: a fixed width, a put, a
  bounds-checked read, and the law that a read of what was put returns it. Its
  lemmas read single fields and whole columns out of larger buffers.
\<close>

unbundle bit_operations_syntax

section \<open>to_le_bytes and from_le_bytes\<close>

definition le_bytes :: "nat \<Rightarrow> 'a::len word \<Rightarrow> byte list" where
  "le_bytes n w = map (\<lambda>i. ucast (drop_bit (8 * i) w)) [0..<n]"

fun from_le :: "byte list \<Rightarrow> 'a::len word" where
  "from_le [] = 0"
| "from_le (b # bs) = ucast b OR push_bit 8 (from_le bs)"

section \<open>LeBuf\<close>

definition put_u16 :: "u16 \<Rightarrow> byte list" where "put_u16 v = le_bytes 2 v"
definition put_u32 :: "u32 \<Rightarrow> byte list" where "put_u32 v = le_bytes 4 v"
definition put_i32 :: "i32 \<Rightarrow> byte list" where "put_i32 v = le_bytes 4 v"
definition put_u64 :: "u64 \<Rightarrow> byte list" where "put_u64 v = le_bytes 8 v"
definition put_i64 :: "i64 \<Rightarrow> byte list" where "put_i64 v = le_bytes 8 v"

text \<open>\<open>set_u64\<close> panics when \<open>off + 8\<close> is past the end; its one caller writes inside a
  buffer of fixed size.\<close>
definition set_u64 :: "byte list \<Rightarrow> nat \<Rightarrow> u64 \<Rightarrow> (byte list, 'e) outcome" where
  "set_u64 buf off v =
     (if off + 8 \<le> length buf then Ok (take off buf @ le_bytes 8 v @ drop (off + 8) buf) else Panic)"

section \<open>Bounds-checked readers\<close>

definition read_u16 :: "byte list \<Rightarrow> nat \<Rightarrow> u16 option" where
  "read_u16 b off = map_option from_le (get_slice b off 2)"
definition read_u32 :: "byte list \<Rightarrow> nat \<Rightarrow> u32 option" where
  "read_u32 b off = map_option from_le (get_slice b off 4)"
definition read_i32 :: "byte list \<Rightarrow> nat \<Rightarrow> i32 option" where
  "read_i32 b off = map_option from_le (get_slice b off 4)"
definition read_u64 :: "byte list \<Rightarrow> nat \<Rightarrow> u64 option" where
  "read_u64 b off = map_option from_le (get_slice b off 8)"
definition read_i64 :: "byte list \<Rightarrow> nat \<Rightarrow> i64 option" where
  "read_i64 b off = map_option from_le (get_slice b off 8)"

section \<open>The codec law\<close>

lemma length_le_bytes [simp]: "length (le_bytes n w) = n"
  by (simp add: le_bytes_def)

lemma bit_from_le:
  "bit (from_le bs :: 'a::len word) i \<longleftrightarrow>
     i < LENGTH('a) \<and> i div 8 < length bs \<and> bit (bs ! (i div 8)) (i mod 8)"
proof (induction bs arbitrary: i)
  case (Cons b bs)
  show ?case
  proof (cases "i < 8")
    case True
    then show ?thesis by (auto simp: bit_simps)
  next
    case False
    then have "i div 8 = Suc ((i - 8) div 8)" "(i - 8) mod 8 = i mod 8"
      by (auto simp: le_div_geq le_mod_geq)
    moreover have "\<not> bit b i" using False bit_imp_le_length[of b i] by auto
    ultimately show ?thesis using False by (auto simp: bit_simps Cons)
  qed
qed simp

lemma from_le_le_bytes:
  assumes "LENGTH('a::len) \<le> 8 * n"
  shows "from_le (le_bytes n (w :: 'a word)) = w"
proof (rule bit_word_eqI)
  fix i assume "i < LENGTH('a)"
  moreover from this assms have "i div 8 < n" by (simp add: div_less_iff_less_mult mult.commute)
  ultimately show "bit (from_le (le_bytes n w) :: 'a word) i \<longleftrightarrow> bit w i"
    by (simp add: bit_from_le le_bytes_def bit_simps)
qed

lemma le_bytes_from_le:
  assumes "length bs = n" and "8 * n \<le> LENGTH('a::len)"
  shows "le_bytes n (from_le bs :: 'a word) = bs"
proof (rule nth_equalityI)
  fix i assume "i < length (le_bytes n (from_le bs :: 'a word))"
  then have i: "i < n" by simp
  show "le_bytes n (from_le bs :: 'a word) ! i = bs ! i"
  proof (rule bit_word_eqI)
    fix j assume "j < LENGTH(8)"
    then have j: "j < 8" by simp
    then have "8 * i + j < 8 * n" using i by simp
    with assms(2) have "8 * i + j < LENGTH('a)" by simp
    with i j assms show "bit (le_bytes n (from_le bs :: 'a word) ! i) j \<longleftrightarrow> bit (bs ! i) j"
      by (simp add: le_bytes_def bit_simps bit_from_le)
  qed
qed (use assms in simp)

section \<open>The fixed-width codec interface\<close>

locale le_codec =
  fixes put :: "'v \<Rightarrow> byte list" and read :: "byte list \<Rightarrow> nat \<Rightarrow> 'v option" and width :: nat
  assumes put_length: "length (put v) = width"
    and read_slice: "read b off = Option.bind (get_slice b off width) (\<lambda>s. read s 0)"
    and read_put: "read (put v) 0 = Some v"
    and put_read: "length s = width \<Longrightarrow> \<exists>v. read s 0 = Some v \<and> put v = s"
begin

lemma read_None_iff: "read b off = None \<longleftrightarrow> length b < off + width"
proof -
  have "off + width \<le> length b \<Longrightarrow> \<exists>v. read b off = Some v"
    using put_read[of "take width (drop off b)"] read_slice[of b off] by (auto simp: get_slice_def)
  moreover have "length b < off + width \<Longrightarrow> read b off = None"
    using read_slice[of b off] by (simp add: get_slice_def)
  ultimately show ?thesis by (metis not_less option.distinct(1))
qed

lemma read_Some_iff: "(\<exists>v. read b off = Some v) \<longleftrightarrow> off + width \<le> length b"
  using read_None_iff[of b off] by (cases "read b off") auto

lemma read_here: "off = length pre \<Longrightarrow> read (pre @ put v @ post) off = Some v"
  using read_slice[of "pre @ put v @ post" off] by (simp add: get_slice_def put_length read_put)

lemma read_first: "read (put v @ post) 0 = Some v"
  using read_here[of 0 "[]"] by simp

lemma read_skip: "length pre \<le> off \<Longrightarrow> read (pre @ post) off = read post (off - length pre)"
  using read_slice[of "pre @ post" off] read_slice[of post "off - length pre"]
  by (simp add: get_slice_append_right)

lemma read_prefix: "off + width \<le> length pre \<Longrightarrow> read (pre @ post) off = read pre off"
  using read_slice[of "pre @ post" off] read_slice[of pre off]
  by (simp add: get_slice_append_left)

lemma read_row:
  assumes "\<And>x. x \<in> set xs \<Longrightarrow> length (f x) = w" and "i < length xs" and "k + width \<le> w"
  shows "read (concat (map f xs)) (i * w + k) = read (f (xs ! i)) k"
  using read_slice[of "concat (map f xs)" "i * w + k"] read_slice[of "f (xs ! i)" k]
  by (simp add: get_slice_rows[OF assms])

lemma read_column:
  assumes "i < length vs"
  shows "read (concat (map put vs) @ post) (width * i) = Some (vs ! i)"
proof -
  have len: "length (concat (map put vs)) = length vs * width"
    by (simp add: put_length length_concat_rows)
  have "width * i + width \<le> length vs * width"
    using mult_le_mono1[of "Suc i" "length vs" width] assms by (simp add: mult.commute add.commute)
  then have "read (concat (map put vs) @ post) (width * i) = read (concat (map put vs)) (i * width + 0)"
    using read_prefix[of "width * i" "concat (map put vs)" post] by (simp add: len mult.commute[of width i])
  also have "\<dots> = read (put (vs ! i)) 0"
    by (rule read_row) (simp_all add: put_length assms)
  finally show ?thesis by (simp add: read_put)
qed

text \<open>What was read is what the bytes encode.\<close>

lemma slice_of_read: "read b off = Some v \<Longrightarrow> take width (drop off b) = put v"
proof -
  assume read: "read b off = Some v"
  then have len: "off + width \<le> length b" using read_Some_iff by blast
  then have "get_slice b off width = Some (take width (drop off b))" by (simp add: get_slice_def)
  then have "read (take width (drop off b)) 0 = Some v" using read read_slice[of b off] by simp
  moreover obtain w where "read (take width (drop off b)) 0 = Some w" "put w = take width (drop off b)"
    using put_read[of "take width (drop off b)"] len by auto
  ultimately show ?thesis by simp
qed

lemma read_inj: "length s = width \<Longrightarrow> length t = width \<Longrightarrow> read s 0 = read t 0 \<Longrightarrow> s = t"
  using put_read by (metis option.inject)

end

lemma get_slice_whole: "get_slice s 0 (length s) = Some s"
  by (simp add: get_slice_def)

lemma le_codec_word:
  assumes "LENGTH('a::len) = 8 * n"
  shows "le_codec (le_bytes n :: 'a word \<Rightarrow> byte list) (\<lambda>b off. map_option from_le (get_slice b off n)) n"
proof
  fix s :: "byte list" assume "length s = n"
  with assms show "\<exists>v. map_option from_le (get_slice s 0 n) = Some v \<and> le_bytes n (v :: 'a word) = s"
    by (intro exI[of _ "from_le s"]) (auto simp: get_slice_def le_bytes_from_le)
qed (use assms in \<open>auto simp: get_slice_def from_le_le_bytes split: bind_splits\<close>)

interpretation u16_codec: le_codec put_u16 read_u16 2
  unfolding put_u16_def[abs_def] read_u16_def[abs_def] by (rule le_codec_word) simp

interpretation u32_codec: le_codec put_u32 read_u32 4
  unfolding put_u32_def[abs_def] read_u32_def[abs_def] by (rule le_codec_word) simp

interpretation i32_codec: le_codec put_i32 read_i32 4
  unfolding put_i32_def[abs_def] read_i32_def[abs_def] by (rule le_codec_word) simp

interpretation u64_codec: le_codec put_u64 read_u64 8
  unfolding put_u64_def[abs_def] read_u64_def[abs_def] by (rule le_codec_word) simp

interpretation i64_codec: le_codec put_i64 read_i64 8
  unfolding put_i64_def[abs_def] read_i64_def[abs_def] by (rule le_codec_word) simp

lemmas put_lengths [simp, bytes_simps] =
  u16_codec.put_length u32_codec.put_length i32_codec.put_length
  u64_codec.put_length i64_codec.put_length

lemmas read_firsts [simp] =
  u16_codec.read_first u32_codec.read_first i32_codec.read_first
  u64_codec.read_first i64_codec.read_first

lemmas read_puts [simp] =
  u16_codec.read_put u32_codec.read_put i32_codec.read_put u64_codec.read_put i64_codec.read_put

lemmas read_skips =
  u16_codec.read_skip u32_codec.read_skip i32_codec.read_skip
  u64_codec.read_skip i64_codec.read_skip

lemmas read_prefixes =
  u16_codec.read_prefix u32_codec.read_prefix i32_codec.read_prefix
  u64_codec.read_prefix i64_codec.read_prefix

lemmas read_somes =
  u16_codec.read_Some_iff u32_codec.read_Some_iff i32_codec.read_Some_iff
  u64_codec.read_Some_iff i64_codec.read_Some_iff

lemmas slices_of_reads =
  u16_codec.slice_of_read u32_codec.slice_of_read i32_codec.slice_of_read
  u64_codec.slice_of_read i64_codec.slice_of_read

lemma read_u32_i32: "read_u32 = read_i32"
  by (simp add: read_u32_def read_i32_def fun_eq_iff)

lemma read_u64_i64: "read_u64 = read_i64"
  by (simp add: read_u64_def read_i64_def fun_eq_iff)

lemma put_u32_i32: "put_u32 = put_i32"
  by (simp add: put_u32_def put_i32_def fun_eq_iff)

end
