(* ===== verification/Workspace_State.thy ===== *)
theory Workspace_State
  imports Segment_Format Wire
begin

text \<open>
  The generational \<open>workspace-state-<n>.bin\<close> container of \<open>crates/ls-store/src/workspace_state.rs\<close>, and the
  store-level errors (\<open>error.rs\<close>). The file's bytes are an argument of \<open>load_state\<close> (\<open>None\<close> when it cannot be
  read); CRC32C is the parameter \<open>crc\<close>.
\<close>

datatype store_error =
    StoreSegment segment_error
  | StoreIo
  | ManifestCorrupt string
  | StateCorrupt string
  | PairMismatch string
  | FutureSchema string nat

type_synonym 'a store_result = "('a, store_error) outcome"

definition STATE_MAGIC :: u32 where "STATE_MAGIC = 0x4c535754"
definition STATE_VERSION :: u16 where "STATE_VERSION = 1"
definition STATE_HEADER_SIZE :: nat where "STATE_HEADER_SIZE = 32"
definition STATE_CHECKSUM_OFFSET :: nat where "STATE_CHECKSUM_OFFSET = 28"

record workspace_state =
  ws_generation :: u64
  ws_payload :: "byte list"

definition state_file_name :: "u64 \<Rightarrow> str" where
  "state_file_name generation = lit ''workspace-state-'' @ decimal (unat generation) @ lit ''.bin''"

definition state_tmp_name :: "u64 \<Rightarrow> str" where
  "state_tmp_name generation = lit ''workspace-state-'' @ decimal (unat generation) @ lit ''.bin.tmp''"

text \<open>The header fields before the checksum of the header.\<close>
definition state_header :: "(byte list \<Rightarrow> u32) \<Rightarrow> u64 \<Rightarrow> byte list \<Rightarrow> byte list" where
  "state_header crc generation payload =
     put_u32 STATE_MAGIC @ put_u16 STATE_VERSION @ put_u16 0 @ put_u64 generation @
     put_u64 (word_of_nat (length payload)) @ put_u32 (crc payload)"

definition serialize_state :: "(byte list \<Rightarrow> u32) \<Rightarrow> u64 \<Rightarrow> byte list \<Rightarrow> byte list" where
  "serialize_state crc generation payload =
     (let buf = state_header crc generation payload
      in buf @ put_u32 (crc (take STATE_CHECKSUM_OFFSET buf)) @ payload)"

definition payload_checksum :: "(byte list \<Rightarrow> u32) \<Rightarrow> byte list \<Rightarrow> u32" where
  "payload_checksum crc payload = crc payload"

definition load_state ::
  "(byte list \<Rightarrow> u32) \<Rightarrow> byte list option \<Rightarrow> u64 \<Rightarrow> u32 \<Rightarrow> workspace_state store_result" where
  "load_state crc contents generation expected_checksum =
     and_then (ok_or contents StoreIo) (\<lambda>bytes.
     if length bytes < STATE_HEADER_SIZE then Err (StateCorrupt ''truncated header'')
     else and_then (unwrap (read_u32 bytes 0)) (\<lambda>magic.
     if magic \<noteq> STATE_MAGIC then Err (StateCorrupt ''bad magic'')
     else and_then (unwrap (read_u16 bytes 4)) (\<lambda>version.
     if version > STATE_VERSION then Err (FutureSchema ''workspace-state'' (unat version))
     else if version \<noteq> STATE_VERSION then Err (StateCorrupt ''unsupported version'')
     else and_then (unwrap (read_u16 bytes 6)) (\<lambda>flags.
     if flags \<noteq> 0 then Err (StateCorrupt ''flags nonzero'')
     else and_then (unwrap (read_u32 bytes STATE_CHECKSUM_OFFSET)) (\<lambda>stored_header_crc.
     if stored_header_crc \<noteq> crc (take STATE_CHECKSUM_OFFSET bytes)
     then Err (StateCorrupt ''header checksum mismatch'')
     else and_then (unwrap (read_u64 bytes 8)) (\<lambda>file_generation.
          and_then (unwrap (read_u64 bytes 16)) (\<lambda>payload_len.
          and_then (unwrap (read_u32 bytes 24)) (\<lambda>stored_payload_crc.
          if word_of_nat STATE_HEADER_SIZE + payload_len < payload_len then Err (StateCorrupt ''payload_len overflow'')
          else if length bytes \<noteq> STATE_HEADER_SIZE + unat payload_len then Err (StateCorrupt ''payload length'')
          else
            let payload = drop STATE_HEADER_SIZE bytes
            in if crc payload \<noteq> stored_payload_crc then Err (StateCorrupt ''payload checksum mismatch'')
               else if file_generation \<noteq> generation then Err (PairMismatch ''state generation'')
               else if stored_payload_crc \<noteq> expected_checksum then Err (PairMismatch ''state payload checksum'')
               else Ok \<lparr>ws_generation = generation, ws_payload = payload\<rparr>))))))))"

section \<open>Round trip and refusal\<close>

lemma length_state_header [simp]: "length (state_header crc g p) = 28"
  by (simp add: state_header_def)

lemma load_serialized:
  assumes "length p + 32 < 2 ^ 64"
  shows "load_state crc (Some (serialize_state crc g p)) g (payload_checksum crc p) =
           Ok \<lparr>ws_generation = g, ws_payload = p\<rparr>"
proof -
  let ?b = "serialize_state crc g p"
  have fields: "read_u32 ?b 0 = Some STATE_MAGIC" "read_u16 ?b 4 = Some STATE_VERSION" "read_u16 ?b 6 = Some 0"
    "read_u64 ?b 8 = Some g" "read_u64 ?b 16 = Some (word_of_nat (length p))" "read_u32 ?b 24 = Some (crc p)"
    by (simp_all add: serialize_state_def state_header_def Let_def read_skips)
  have crc: "read_u32 ?b 28 = Some (crc (take 28 ?b))"
    by (simp add: serialize_state_def Let_def read_skips STATE_CHECKSUM_OFFSET_def)
  have len: "length ?b = 32 + length p" "drop 32 ?b = p"
    by (simp_all add: serialize_state_def Let_def)
  have "unat (word_of_nat (length p) :: u64) = length p"
    using assms by (simp add: unat_of_nat)
  moreover from this have "\<not> 32 + word_of_nat (length p) < (word_of_nat (length p) :: u64)"
    using assms by (simp add: word_less_nat_alt unat_word_ariths)
  ultimately show ?thesis
    using assms fields crc len
    by (simp add: load_state_def STATE_HEADER_SIZE_def STATE_CHECKSUM_OFFSET_def payload_checksum_def STATE_VERSION_def)
qed

lemma state_bytes_split:
  assumes "32 \<le> length (b :: byte list)"
  shows "b = take 4 (drop 0 b) @ take 2 (drop 4 b) @ take 2 (drop 6 b) @ take 8 (drop 8 b) @
             take 8 (drop 16 b) @ take 4 (drop 24 b) @ take 4 (drop 28 b) @ drop 32 b"
proof -
  have step: "drop i b = take n (drop i b) @ drop (i + n) b" for i n
    by (metis add.commute append_take_drop_id drop_drop)
  show ?thesis
    using step[of 0 4] step[of 4 2] step[of 6 2] step[of 8 8] step[of 16 8] step[of 24 4] step[of 28 4] by simp
qed

lemma load_accepts:
  assumes "load_state crc (Some b) g chk = Ok ws"
  shows "b = serialize_state crc g (ws_payload ws) \<and> chk = payload_checksum crc (ws_payload ws) \<and> ws_generation ws = g"
proof -
  from assms have len: "32 \<le> length b" and reads: "read_u32 b 0 = Some STATE_MAGIC" "read_u16 b 4 = Some STATE_VERSION"
    "read_u16 b 6 = Some 0" "read_u32 b 28 = Some (crc (take 28 b))" "read_u64 b 8 = Some g"
    "read_u64 b 16 = Some (word_of_nat (length (drop 32 b)))" "read_u32 b 24 = Some (crc (drop 32 b))"
    and ws: "chk = crc (drop 32 b)" "ws = \<lparr>ws_generation = g, ws_payload = drop 32 b\<rparr>"
    by (auto simp: load_state_def and_then_eq_Ok unwrap_eq_Ok ok_or_eq_Ok STATE_HEADER_SIZE_def
        STATE_CHECKSUM_OFFSET_def Let_def split: if_splits)
  let ?h = "state_header crc g (drop 32 b)"
  have b: "b = ?h @ put_u32 (crc (take 28 b)) @ drop 32 b"
    using state_bytes_split[OF len]
    unfolding state_header_def reads(1,4,7)[THEN u32_codec.slice_of_read]
      reads(2,3)[THEN u16_codec.slice_of_read] reads(5,6)[THEN u64_codec.slice_of_read]
    by simp
  then have "take 28 b = ?h" by (metis append_eq_conv_conj length_state_header)
  with b ws show ?thesis
    by (simp add: serialize_state_def Let_def STATE_CHECKSUM_OFFSET_def payload_checksum_def)
qed

text \<open>
  C15: The workspace-state container is read back exactly: loading what \<open>serialize\<close> wrote for a
  generation and payload, with the checksum the manifest records, returns that payload.
\<close>
theorem state_round_trip:
  assumes "length p + 32 < 2 ^ 64"
  shows "load_state crc (Some (serialize_state crc g p)) g (payload_checksum crc p) =
           Ok \<lparr>ws_generation = g, ws_payload = p\<rparr>"
  using assms by (rule load_serialized)

theorem state_round_trip_witness:
  "load_state (\<lambda>bs. of_nat (length bs)) (Some (serialize_state (\<lambda>bs. of_nat (length bs)) 3 [1, 2])) 3
     (payload_checksum (\<lambda>bs. of_nat (length bs)) [1, 2]) = Ok \<lparr>ws_generation = 3, ws_payload = [1, 2]\<rparr>"
  by (rule state_round_trip) simp

text \<open>
  C14: The container's reader is exact and total: it never panics, and the only bytes it accepts for a
  generation and checksum are the serialisation of that generation and of a payload with that
  checksum; truncated, extended, re-versioned or re-paired files are typed refusals.
\<close>
theorem load_state_exact:
  "load_state crc contents g chk \<noteq> Panic \<and>
   (\<forall>ws. load_state crc contents g chk = Ok ws \<longrightarrow>
      contents = Some (serialize_state crc g (ws_payload ws)) \<and>
      chk = payload_checksum crc (ws_payload ws) \<and> ws_generation ws = g)"
proof (cases contents)
  case None
  then show ?thesis by (simp add: load_state_def)
next
  case (Some b)
  have "load_state crc (Some b) g chk \<noteq> Panic"
  proof (cases "length b < 32")
    case False
    then have "read_u32 b 0 \<noteq> None" "read_u16 b 4 \<noteq> None" "read_u16 b 6 \<noteq> None" "read_u32 b 28 \<noteq> None"
      "read_u64 b 8 \<noteq> None" "read_u64 b 16 \<noteq> None" "read_u32 b 24 \<noteq> None"
      by (simp_all add: u32_codec.read_None_iff u16_codec.read_None_iff u64_codec.read_None_iff)
    then show ?thesis
      by (auto simp: load_state_def and_then_eq_Panic unwrap_eq_Panic STATE_CHECKSUM_OFFSET_def Let_def)
  qed (simp add: load_state_def STATE_HEADER_SIZE_def)
  then show ?thesis using load_accepts Some by blast
qed

text \<open>On a container that loads, and on the same bytes asked for under another generation.\<close>
theorem load_state_exact_witness:
  "let b = serialize_state (\<lambda>bs. 0) 3 [1, 2]
   in load_state (\<lambda>bs. 0) (Some b) 3 0 = Ok \<lparr>ws_generation = 3, ws_payload = [1, 2]\<rparr> \<and>
      (\<forall>ws. load_state (\<lambda>bs. 0) (Some b) 4 0 \<noteq> Ok ws) \<and> load_state (\<lambda>bs. 0) (Some b) 4 0 \<noteq> Panic"
proof -
  let ?b = "serialize_state (\<lambda>bs. 0) 3 [1, 2]"
  have ok: "load_state (\<lambda>bs. 0) (Some ?b) 3 0 = Ok \<lparr>ws_generation = 3, ws_payload = [1, 2]\<rparr>"
    using load_serialized[of "[1, 2]" "\<lambda>bs. 0" 3] by (simp add: payload_checksum_def)
  have "load_state (\<lambda>bs. 0) (Some ?b) 4 0 \<noteq> Ok ws" for ws
  proof
    assume "load_state (\<lambda>bs. 0) (Some ?b) 4 0 = Ok ws"
    then have "?b = serialize_state (\<lambda>bs. 0) 4 (ws_payload ws)"
      using load_state_exact[of "\<lambda>bs. 0" "Some ?b" 4 0] by blast
    then have "read_u64 ?b 8 = Some 4" by (simp add: serialize_state_def state_header_def Let_def read_skips)
    then show False by (simp add: serialize_state_def state_header_def Let_def read_skips)
  qed
  with ok load_state_exact[of "\<lambda>bs. 0" "Some ?b" 3 0] load_state_exact[of "\<lambda>bs. 0" "Some ?b" 4 0]
  show ?thesis by (simp add: Let_def)
qed

end
