(* ===== verification/Segment_Writer.thy ===== *)
theory Segment_Writer
  imports Segment_Format Wire
begin

text \<open>
  The segment writer, \<open>crates/ls-store/src/writer.rs\<close>: input validation, the sorted
  symbol dictionary, the columnar group layout with its skip blocks, and the
  serialisation of the fourteen checksummed files and \<open>checksums.bin\<close>. The CRC32C
  routine is a parameter (\<open>crc\<close>), since the code calls the \<open>crc32c\<close> crate. The
  durable publication of the files is modelled in the theory \<open>Store\<close>.

  Vectors that the code fills by \<open>push\<close> are lists extended at the end. An index into
  a vector that could be out of range is a \<open>Panic\<close>.
\<close>

unbundle bit_operations_syntax

section \<open>Rows\<close>

record group_index_entry =
  ge_offset :: i64
  ge_count :: i32
  ge_block_index_offset :: i32

record block_entry =
  be_first_record :: i64
  be_record_count :: i32
  be_editable_count :: i32
  be_ref_role_count :: i32
  be_def_role_count :: i32
  be_doc_ord_min :: i32
  be_doc_ord_max :: i32
  be_epoch_min :: i32
  be_epoch_max :: i32
  be_target_words :: "u64 list"

record group_layout =
  gl_doc_ord :: "i32 list"
  gl_doc_epoch :: "i32 list"
  gl_target_ord :: "i32 list"
  gl_packed_start :: "i32 list"
  gl_packed_end :: "i32 list"
  gl_flags :: "i32 list"
  gl_entries :: "group_index_entry list"

definition group_layout_default :: group_layout where
  "group_layout_default =
     \<lparr>gl_doc_ord = [], gl_doc_epoch = [], gl_target_ord = [], gl_packed_start = [],
      gl_packed_end = [], gl_flags = [], gl_entries = []\<rparr>"

section \<open>Input validation\<close>

definition ord_in :: "i32 \<Rightarrow> nat \<Rightarrow> bool" where
  "ord_in v n \<longleftrightarrow> 0 \<le> sint v \<and> usize_of_i32 v < n"

definition ord_opt :: "i32 \<Rightarrow> nat \<Rightarrow> bool" where
  "ord_opt v n \<longleftrightarrow> v = -1 \<or> ord_in v n"

definition span_ok :: "span \<Rightarrow> bool" where
  "span_ok s \<longleftrightarrow>
     start_char s \<le> CHAR_MASK \<and> end_char s \<le> CHAR_MASK \<and>
     start_line s \<le> LINE_MAX \<and> end_line s \<le> LINE_MAX \<and>
     pack (start_line s) (start_char s) \<le> pack (end_line s) (end_char s)"

definition require :: "bool \<Rightarrow> string \<Rightarrow> unit seg_result" where
  "require c detail = (if c then Ok () else Err (InvalidInput detail))"

definition seq_checks :: "(unit, 'e) outcome list \<Rightarrow> (unit, 'e) outcome" where
  "seq_checks cs = for_each (\<lambda>c. c) cs"

definition validate_group_occ :: "nat \<Rightarrow> nat \<Rightarrow> group_occ \<Rightarrow> unit seg_result" where
  "validate_group_occ n_docs n_targets occ =
     seq_checks
       [require (ord_in (go_doc_ord occ) n_docs) ''occurrence doc_ord out of range'',
        require (ord_in (go_target_ord occ) n_targets) ''occurrence target_ord out of range'',
        require (span_ok (go_span occ)) ''occurrence span out of range'']"

definition validate :: "segment_data \<Rightarrow> unit seg_result" where
  "validate d =
     (let n_docs = length (docs d); n_targets = length (targets d); n_symbols = length (symbols d);
          n_ref = length (ref_occurrences d); n_rename = length (rename_occurrences d)
      in seq_checks
        [require (length (def_occurrences d) = length (ref_occurrences d)) ''def/ref group counts differ'',
         require (length (rename_profiles d) = length (rename_occurrences d))
           ''rename profile/group counts differ'',
         require (length (doc_occurrences d) = length (docs d)) ''doc occurrence/doc counts differ'',
         require (\<not> (target_metas d \<noteq> [] \<and> length (target_metas d) \<noteq> length (targets d)))
           ''target_meta must be empty or parallel to targets'',
         require (\<not> (symbol_metas d \<noteq> [] \<and> length (symbol_metas d) \<noteq> length (symbols d)))
           ''symbol_meta must be empty or parallel to symbols'',
         for_each (\<lambda>doc. seq_checks
             [require (sd_uri doc \<noteq> []) ''empty doc uri'',
              require (ord_in (sd_target_ord doc) n_targets) ''doc target_ord out of range'']) (docs d),
         for_each (\<lambda>groups. for_each (\<lambda>grp. for_each (validate_group_occ n_docs n_targets) grp) groups)
           [ref_occurrences d, def_occurrences d, rename_occurrences d],
         for_each (\<lambda>doc_occs. for_each (\<lambda>occ. seq_checks
             [require (ord_in (do_symbol_ord occ) n_symbols) ''doc occurrence symbol_ord out of range'',
              require (span_ok (do_span occ)) ''doc occurrence span out of range'']) doc_occs)
           (doc_occurrences d),
         for_each (\<lambda>s. seq_checks
             [require (ord_opt (ss_ref_group_ord s) n_ref) ''symbol ref_group_ord out of range'',
              require (ord_opt (ss_rename_group_ord s) n_rename) ''symbol rename_group_ord out of range'',
              require (ord_opt (ss_def_target_ord s) n_targets) ''symbol def_target_ord out of range''])
           (symbols d),
         for_each (\<lambda>row. require (ord_in (sr_symbol_ord row) n_symbols) ''search row symbol_ord out of range'')
           (search_rows d),
         for_each (\<lambda>m. require (ord_opt (sm_def_doc_ord m) n_docs) ''symbol_meta def_doc_ord out of range'')
           (symbol_metas d)])"

section \<open>The symbol dictionary\<close>

text \<open>The order on \<open>str\<close> is the lexicographic order of unsigned bytes.\<close>

definition has_adjacent_duplicate :: "str list \<Rightarrow> bool" where
  "has_adjacent_duplicate xs \<longleftrightarrow> list_ex (\<lambda>(a, b). a = b) (zip xs (tl xs))"

definition sort_symbol_indices :: "segment_data \<Rightarrow> nat list seg_result" where
  "sort_symbol_indices d =
     (let indices = sort_key (\<lambda>i. ss_semantic_symbol (symbols d ! i)) [0..<length (symbols d)]
      in if has_adjacent_duplicate (map (\<lambda>i. ss_semantic_symbol (symbols d ! i)) indices)
         then Err (InvalidInput ''duplicate symbol string'') else Ok indices)"

definition caller_to_sorted :: "nat \<Rightarrow> nat list \<Rightarrow> i32 list" where
  "caller_to_sorted n sorted_indices =
     fold (\<lambda>(sorted_pos, caller) c2s. c2s[caller := i32_of_usize sorted_pos])
       (enumerate 0 sorted_indices) (replicate n 0)"

section \<open>Group layout\<close>

definition occ_key :: "group_occ \<Rightarrow> int \<times> u32 \<times> u32" where
  "occ_key oc = (sint (go_doc_ord oc),
     pack (start_line (go_span oc)) (start_char (go_span oc)),
     pack (end_line (go_span oc)) (end_char (go_span oc)))"

definition push_occ :: "group_occ \<Rightarrow> group_layout \<Rightarrow> group_layout" where
  "push_occ occ l = l\<lparr>
     gl_doc_ord := gl_doc_ord l @ [go_doc_ord occ],
     gl_doc_epoch := gl_doc_epoch l @ [go_doc_epoch occ],
     gl_target_ord := gl_target_ord l @ [go_target_ord occ],
     gl_packed_start := gl_packed_start l @ [pack (start_line (go_span occ)) (start_char (go_span occ))],
     gl_packed_end := gl_packed_end l @ [pack (end_line (go_span occ)) (end_char (go_span occ))],
     gl_flags := gl_flags l @ [go_flags occ]\<rparr>"

definition count_occ :: "group_occ \<Rightarrow> block_entry \<Rightarrow> block_entry seg_result" where
  "count_occ occ b =
     (let flags = go_flags occ;
          b1 = (if has flags EDITABLE then b\<lparr>be_editable_count := be_editable_count b + 1\<rparr> else b);
          b2 = (if has flags DEFINITION then b1\<lparr>be_def_role_count := be_def_role_count b1 + 1\<rparr>
                else b1\<lparr>be_ref_role_count := be_ref_role_count b1 + 1\<rparr>);
          b3 = b2\<lparr>be_doc_ord_min := i32_min (be_doc_ord_min b2) (go_doc_ord occ),
                  be_doc_ord_max := i32_max (be_doc_ord_max b2) (go_doc_ord occ),
                  be_epoch_min := i32_min (be_epoch_min b2) (go_doc_epoch occ),
                  be_epoch_max := i32_max (be_epoch_max b2) (go_doc_epoch occ)\<rparr>
      in if 0 \<le> sint (go_target_ord occ)
         then and_then (set_target_bit (be_target_words b3) (usize_of_i32 (go_target_ord occ)))
                (\<lambda>ws. Ok (b3\<lparr>be_target_words := ws\<rparr>))
         else Ok b3)"

definition new_block :: "nat \<Rightarrow> nat \<Rightarrow> nat \<Rightarrow> block_entry" where
  "new_block n_words first_record cnt =
     \<lparr>be_first_record = i64_of_usize first_record, be_record_count = i32_of_usize cnt,
      be_editable_count = 0, be_ref_role_count = 0, be_def_role_count = 0,
      be_doc_ord_min = I32_MAX, be_doc_ord_max = I32_MIN, be_epoch_min = I32_MAX, be_epoch_max = I32_MIN,
      be_target_words = replicate n_words 0\<rparr>"

definition layout_chunk ::
  "nat \<Rightarrow> group_occ list \<Rightarrow> group_layout \<times> block_entry list \<Rightarrow> (group_layout \<times> block_entry list) seg_result" where
  "layout_chunk n_words chunk = (\<lambda>(l, blocks).
     and_then
       (fold_o (\<lambda>occ (l', b). and_then (count_occ occ b) (\<lambda>b'. Ok (push_occ occ l', b'))) chunk
          (l, new_block n_words (length (gl_doc_ord l)) (length chunk)))
       (\<lambda>(l', b). Ok (l', blocks @ [b])))"

definition layout_group ::
  "nat \<Rightarrow> group_occ list \<Rightarrow> group_layout \<times> block_entry list \<Rightarrow> (group_layout \<times> block_entry list) seg_result" where
  "layout_group n_words grp = (\<lambda>(l, blocks).
     let group_start = i64_of_usize (length (gl_doc_ord l))
     in if grp = []
        then Ok (l\<lparr>gl_entries := gl_entries l @
                   [\<lparr>ge_offset = group_start, ge_count = 0, ge_block_index_offset = -1\<rparr>]\<rparr>, blocks)
        else fold_o (layout_chunk n_words) (chunks BLOCK_SIZE (sort_key occ_key grp))
               (l\<lparr>gl_entries := gl_entries l @
                  [\<lparr>ge_offset = group_start, ge_count = i32_of_usize (length grp),
                    ge_block_index_offset = i32_of_usize (length blocks)\<rparr>]\<rparr>, blocks))"

definition layout_groups ::
  "group_occ list list \<Rightarrow> nat \<Rightarrow> block_entry list \<Rightarrow> (group_layout \<times> block_entry list) seg_result" where
  "layout_groups groups n_words blocks =
     fold_o (layout_group n_words) groups (group_layout_default, blocks)"

section \<open>Serialisation\<close>

definition put_column :: "i32 list \<Rightarrow> byte list" where
  "put_column vs = concat (map put_i32 vs)"

definition serialize_group_postings :: "group_layout \<Rightarrow> byte list" where
  "serialize_group_postings l =
     put_i64 (i64_of_usize (length (gl_doc_ord l))) @
     concat (map put_column
       [gl_doc_ord l, gl_doc_epoch l, gl_target_ord l, gl_packed_start l, gl_packed_end l, gl_flags l])"

definition profile_flags :: "stored_profile \<Rightarrow> i32" where
  "profile_flags p =
     (let f = 0;
          f = (if sp_is_local p then f OR IS_LOCAL else f);
          f = (if sp_is_external p then f OR IS_EXTERNAL else f);
          f = (if sp_has_generated p then f OR HAS_GENERATED else f);
          f = (if sp_has_readonly p then f OR HAS_READONLY else f);
          f = (if sp_has_override_family p then f OR HAS_OVERRIDE_FAMILY else f);
          f = (if sp_has_companion p then f OR HAS_COMPANION else f)
      in f)"

definition put_group_entry :: "group_index_entry \<Rightarrow> byte list" where
  "put_group_entry e = put_i64 (ge_offset e) @ put_i32 (ge_count e) @ put_i32 (ge_block_index_offset e)"

definition put_profile :: "stored_profile \<Rightarrow> byte list" where
  "put_profile p =
     put_i32 (profile_flags p) @ put_i32 (sp_editable_occurrence_count p) @ put_i64 (sp_unsafe_reason_mask p)"

definition serialize_group_index :: "group_index_entry list \<Rightarrow> stored_profile list option \<Rightarrow> byte list" where
  "serialize_group_index entries profiles =
     put_i64 (i64_of_usize (length entries)) @ concat (map put_group_entry entries) @
     (case profiles of None \<Rightarrow> [] | Some ps \<Rightarrow> concat (map put_profile ps))"

definition put_block :: "block_entry \<Rightarrow> byte list" where
  "put_block b =
     put_i64 (be_first_record b) @ put_i32 (be_record_count b) @ put_i32 (be_editable_count b) @
     put_i32 (be_ref_role_count b) @ put_i32 (be_def_role_count b) @
     put_i32 (be_doc_ord_min b) @ put_i32 (be_doc_ord_max b) @
     put_i32 (be_epoch_min b) @ put_i32 (be_epoch_max b) @
     concat (map put_u64 (be_target_words b))"

definition serialize_block_index :: "block_entry list \<Rightarrow> nat \<Rightarrow> byte list" where
  "serialize_block_index blocks n_words =
     put_i64 (i64_of_usize (length blocks)) @ put_i32 (i32_of_usize n_words) @
     put_i32 (i32_of_usize BLOCK_SIZE) @ concat (map put_block blocks)"

section \<open>Document files\<close>

record doc_entry_row =
  dr_uri_offset :: i32
  dr_uri_len :: i32
  dr_doc_id :: i64
  dr_epoch :: i32
  dr_target_ord :: i32
  dr_doc_flags :: i32
  dr_interval_first :: i32
  dr_postings_offset :: i64
  dr_postings_count :: i32
  dr_interval_count :: i32

text \<open>The local vectors of \<open>build_doc_files\<close>; an interval is
  \<open>(first_line, last_line, offset, cnt)\<close>.\<close>
record doc_layout =
  dl_symbol_ord :: "i32 list"
  dl_packed_start :: "i32 list"
  dl_packed_end :: "i32 list"
  dl_flags :: "i32 list"
  dl_intervals :: "(i32 \<times> i32 \<times> i64 \<times> i32) list"
  dl_docs :: "doc_entry_row list"
  dl_uri_blob :: "byte list"

definition doc_layout_empty :: doc_layout where
  "doc_layout_empty =
     \<lparr>dl_symbol_ord = [], dl_packed_start = [], dl_packed_end = [], dl_flags = [],
      dl_intervals = [], dl_docs = [], dl_uri_blob = []\<rparr>"

definition doc_occ_key :: "doc_occ \<Rightarrow> u32 \<times> u32" where
  "doc_occ_key oc = (pack (start_line (do_span oc)) (start_char (do_span oc)),
     pack (end_line (do_span oc)) (end_char (do_span oc)))"

definition doc_flags_word :: "segment_doc \<Rightarrow> i32" where
  "doc_flags_word doc =
     (let f = 0;
          f = (if sd_generated doc then f OR DOC_GENERATED else f);
          f = (if sd_readonly doc then f OR DOC_READONLY else f)
      in f)"

definition push_doc_occ :: "i32 list \<Rightarrow> doc_occ \<Rightarrow> doc_layout \<times> i32 \<Rightarrow> (doc_layout \<times> i32) seg_result" where
  "push_doc_occ c2s occ = (\<lambda>(l, last_line).
     and_then (index_o c2s (usize_of_i32 (do_symbol_ord occ))) (\<lambda>sym.
       Ok (l\<lparr>dl_symbol_ord := dl_symbol_ord l @ [sym],
             dl_packed_start := dl_packed_start l @ [pack (start_line (do_span occ)) (start_char (do_span occ))],
             dl_packed_end := dl_packed_end l @ [pack (end_line (do_span occ)) (end_char (do_span occ))],
             dl_flags := dl_flags l @ [do_flags occ]\<rparr>,
           i32_max last_line (end_line (do_span occ)))))"

definition layout_doc_chunk :: "i32 list \<Rightarrow> doc_occ list \<Rightarrow> doc_layout \<Rightarrow> doc_layout seg_result" where
  "layout_doc_chunk c2s chunk l =
     (let offset = i64_of_usize (length (dl_symbol_ord l))
      in and_then (index_o chunk 0) (\<lambda>first.
         and_then (fold_o (push_doc_occ c2s) chunk (l, I32_MIN)) (\<lambda>(l', last_line).
           Ok (l'\<lparr>dl_intervals := dl_intervals l' @
                    [(start_line (do_span first), last_line, offset, i32_of_usize (length chunk))]\<rparr>))))"

definition layout_doc ::
  "i32 list \<Rightarrow> doc_occ list list \<Rightarrow> nat \<times> segment_doc \<Rightarrow> doc_layout \<Rightarrow> doc_layout seg_result" where
  "layout_doc c2s all_occs = (\<lambda>(doc_ord, doc) l0.
     let uri_offset = i32_of_usize (length (dl_uri_blob l0));
         l = l0\<lparr>dl_uri_blob := dl_uri_blob l0 @ sd_uri doc\<rparr>;
         postings_offset = length (dl_symbol_ord l);
         row = \<lparr>dr_uri_offset = uri_offset, dr_uri_len = i32_of_usize (length (sd_uri doc)),
                dr_doc_id = sd_doc_id doc, dr_epoch = sd_epoch doc, dr_target_ord = sd_target_ord doc,
                dr_doc_flags = doc_flags_word doc, dr_interval_first = -1,
                dr_postings_offset = i64_of_usize postings_offset, dr_postings_count = 0, dr_interval_count = 0\<rparr>
     in and_then (index_o all_occs doc_ord) (\<lambda>occs.
        if occs = [] then Ok (l\<lparr>dl_docs := dl_docs l @ [row]\<rparr>)
        else
          let interval_first = i32_of_usize (length (dl_intervals l));
              cs = chunks BLOCK_SIZE (sort_key doc_occ_key occs)
          in and_then (fold_o (layout_doc_chunk c2s) cs l) (\<lambda>l'.
             Ok (l'\<lparr>dl_docs := dl_docs l' @
                      [row\<lparr>dr_interval_first := interval_first,
                           dr_postings_count := i32_of_usize (length (dl_symbol_ord l') - postings_offset),
                           dr_interval_count := i32_of_usize (length cs)\<rparr>]\<rparr>))))"

definition put_doc_row :: "doc_entry_row \<Rightarrow> byte list" where
  "put_doc_row d =
     put_i32 (dr_uri_offset d) @ put_i32 (dr_uri_len d) @ put_i64 (dr_doc_id d) @ put_i32 (dr_epoch d) @
     put_i32 (dr_target_ord d) @ put_i32 (dr_doc_flags d) @ put_i32 (dr_interval_first d) @
     put_i64 (dr_postings_offset d) @ put_i32 (dr_postings_count d) @ put_i32 (dr_interval_count d)"

definition put_interval :: "i32 \<times> i32 \<times> i64 \<times> i32 \<Rightarrow> byte list" where
  "put_interval = (\<lambda>(fl, ll, off, cnt).
     put_i32 fl @ put_i32 ll @ put_i64 off @ put_i32 cnt @ put_i32 0)"

definition build_doc_files :: "segment_data \<Rightarrow> i32 list \<Rightarrow> (byte list \<times> byte list \<times> nat) seg_result" where
  "build_doc_files d c2s =
     and_then (fold_o (layout_doc c2s (doc_occurrences d)) (enumerate 0 (docs d)) doc_layout_empty) (\<lambda>l.
       let idx = put_i64 (i64_of_usize (length (dl_docs l))) @
                 put_i64 (i64_of_usize (length (dl_intervals l))) @
                 put_i64 (i64_of_usize (length (dl_uri_blob l))) @
                 concat (map put_doc_row (dl_docs l)) @ concat (map put_interval (dl_intervals l)) @
                 dl_uri_blob l;
           n = length (dl_symbol_ord l);
           post = put_i64 (i64_of_usize n) @
                  concat (map put_column [dl_symbol_ord l, dl_packed_start l, dl_packed_end l, dl_flags l])
       in Ok (idx, post, n))"

section \<open>Dictionary, metadata and search files\<close>

text \<open>Append \<open>s\<close> to \<open>blob\<close>, returning its \<open>(offset, len)\<close>.\<close>
definition push_str :: "byte list \<Rightarrow> str \<Rightarrow> (i32 \<times> i32) \<times> byte list" where
  "push_str blob s = ((i32_of_usize (length blob), i32_of_usize (length s)), blob @ s)"

definition symbol_step :: "segment_data \<Rightarrow> nat \<Rightarrow> byte list \<times> byte list \<Rightarrow> byte list \<times> byte list" where
  "symbol_step d caller = (\<lambda>(rows, blob).
     let s = symbols d ! caller
     in (rows @ put_i32 (i32_of_usize (length blob)) @ put_i32 (i32_of_usize (length (ss_semantic_symbol s))) @
           put_i64 (ss_symbol_id s) @ put_i32 (ss_ref_group_ord s) @ put_i32 (ss_rename_group_ord s) @
           put_i32 (ss_def_target_ord s) @ put_i32 0,
         blob @ ss_semantic_symbol s))"

definition serialize_symbol_index :: "segment_data \<Rightarrow> nat list \<Rightarrow> byte list" where
  "serialize_symbol_index d sorted_indices =
     (case fold (symbol_step d) sorted_indices ([], []) of (rows, blob) \<Rightarrow>
        put_i64 (i64_of_usize (length sorted_indices)) @ put_i64 (i64_of_usize (length (targets d))) @
        put_i64 (i64_of_usize (length blob)) @ rows @ concat (map put_i64 (targets d)) @ blob)"

text \<open>\<open>v.get(i).cloned().unwrap_or_default()\<close>.\<close>
definition get_or :: "'a \<Rightarrow> 'a list \<Rightarrow> nat \<Rightarrow> 'a" where
  "get_or dflt xs i = (if i < length xs then xs ! i else dflt)"

definition target_meta_step :: "segment_data \<Rightarrow> nat \<Rightarrow> byte list \<times> byte list \<Rightarrow> byte list \<times> byte list" where
  "target_meta_step d i = (\<lambda>(rows, blob0).
     let m = get_or target_meta_default (target_metas d) i;
         ((o0, l0), blob1) = push_str blob0 (tm_bsp_id m);
         ((o1, l1), blob2) = push_str blob1 (tm_scala_version m);
         ((o2, l2), blob3) = push_str blob2 (tm_sourceroot m);
         ((o3, l3), blob4) = push_str blob3 (tm_semanticdb_root m)
     in (rows @ concat (map put_i32 [o0, l0, o1, l1, o2, l2, o3, l3]) @
           put_i64 (tm_content_hash m) @ put_i64 (tm_options_hash m), blob4))"

definition serialize_target_meta :: "segment_data \<Rightarrow> byte list" where
  "serialize_target_meta d =
     (let cnt = length (targets d)
      in case fold (target_meta_step d) [0..<cnt] ([], []) of (rows, blob) \<Rightarrow>
           put_i64 (i64_of_usize cnt) @ put_i64 (i64_of_usize (length blob)) @ rows @ blob)"

definition symbol_meta_step :: "segment_data \<Rightarrow> nat \<Rightarrow> byte list \<times> byte list \<Rightarrow> byte list \<times> byte list" where
  "symbol_meta_step d caller = (\<lambda>(rows, blob0).
     let m = get_or symbol_meta_default (symbol_metas d) caller;
         ((o0, l0), blob1) = push_str blob0 (sm_display m);
         ((o1, l1), blob2) = push_str blob1 (sm_owner m);
         ((o2, l2), blob3) = push_str blob2 (sm_package_name m)
     in (rows @ put_i32 o0 @ put_i32 l0 @ put_i32 o1 @ put_i32 l1 @ put_i32 o2 @ put_i32 l2 @
           put_i32 (sm_kind m) @ put_u32 (sm_properties m) @ put_i32 (sm_def_packed_start m) @
           put_i32 (sm_def_packed_end m) @ put_i32 (sm_def_doc_ord m) @ put_i32 0, blob3))"

definition serialize_symbol_meta :: "segment_data \<Rightarrow> nat list \<Rightarrow> byte list" where
  "serialize_symbol_meta d sorted_indices =
     (case fold (symbol_meta_step d) sorted_indices ([], []) of (rows, blob) \<Rightarrow>
        put_i64 (i64_of_usize (length sorted_indices)) @ put_i64 (i64_of_usize (length blob)) @ rows @ blob)"

definition search_step ::
  "i32 list \<Rightarrow> search_row_data \<Rightarrow> byte list \<times> byte list \<Rightarrow> (byte list \<times> byte list) seg_result" where
  "search_step c2s r = (\<lambda>(rows, blob0).
     let ((off, len), blob) = push_str blob0 (sr_normalized_name r)
     in and_then (index_o c2s (usize_of_i32 (sr_symbol_ord r))) (\<lambda>sym.
        Ok (rows @ put_i32 off @ put_i32 len @ put_i32 sym @ put_i32 0, blob)))"

definition serialize_search :: "segment_data \<Rightarrow> i32 list \<Rightarrow> byte list seg_result" where
  "serialize_search d c2s =
     (let srows = sort_key sr_normalized_name (search_rows d)
      in and_then (fold_o (search_step c2s) srows ([], [])) (\<lambda>(rows, blob).
           Ok (put_i64 (i64_of_usize (length srows)) @ put_i64 (i64_of_usize (length blob)) @ rows @ blob)))"

section \<open>Header, checksums and the whole segment\<close>

definition serialize_header ::
  "(byte list \<Rightarrow> u32) \<Rightarrow> u64 \<Rightarrow> i64 \<Rightarrow> u64 \<Rightarrow> u64 \<Rightarrow> u64 \<Rightarrow> u64 \<Rightarrow> byte list seg_result" where
  "serialize_header crc segment_id created_at_ms ref_group_count rename_group_count doc_count occurrence_count =
     (let buf = put_u32 MAGIC @ put_u16 VERSION @ put_u16 0 @ put_u64 segment_id @ put_i64 created_at_ms @
                put_u64 ref_group_count @ put_u64 rename_group_count @ put_u64 doc_count @
                put_u64 occurrence_count @ put_u64 0;
          checksum = crc (take HEADER_CHECKSUM_OFFSET buf)
      in set_u64 buf HEADER_CHECKSUM_OFFSET (ucast checksum))"

definition serialize_checksums :: "(byte list \<Rightarrow> u32) \<Rightarrow> (string \<times> byte list) list \<Rightarrow> byte list" where
  "serialize_checksums crc files =
     put_i64 (i64_of_usize (length files)) @
     concat (map (\<lambda>(name, bytes). put_i32 (i32_of_usize (length name)) @ lit name @ put_u64 (ucast (crc bytes)))
       files)"

definition build_files ::
  "(byte list \<Rightarrow> u32) \<Rightarrow> u64 \<Rightarrow> segment_data \<Rightarrow> i64 \<Rightarrow> (string \<times> byte list) list seg_result" where
  "build_files crc segment_id d created_at_ms =
     and_then (validate d) (\<lambda>_.
     let n_words = target_word_count (length (targets d))
     in and_then (sort_symbol_indices d) (\<lambda>sorted_indices.
     let c2s = caller_to_sorted (length (symbols d)) sorted_indices
     in and_then (layout_groups (ref_occurrences d) n_words []) (\<lambda>(ref_layout, blocks1).
        and_then (layout_groups (def_occurrences d) n_words blocks1) (\<lambda>(def_layout, blocks2).
        and_then (layout_groups (rename_occurrences d) n_words blocks2) (\<lambda>(rename_layout, blocks).
        and_then (build_doc_files d c2s) (\<lambda>(doc_index, doc_postings, doc_record_count).
        and_then (serialize_search d c2s) (\<lambda>search.
        let occurrence_count = length (gl_doc_ord ref_layout) + length (gl_doc_ord def_layout) +
              length (gl_doc_ord rename_layout) + doc_record_count
        in and_then (serialize_header crc segment_id created_at_ms
               (word_of_nat (length (ref_occurrences d))) (word_of_nat (length (rename_occurrences d)))
               (word_of_nat (length (docs d))) (word_of_nat occurrence_count)) (\<lambda>header.
           Ok (zip CHECKSUMMED_FILES
             [header,
              serialize_group_index (gl_entries ref_layout) None,
              serialize_group_index (gl_entries def_layout) None,
              serialize_group_index (gl_entries rename_layout) (Some (rename_profiles d)),
              doc_index,
              serialize_symbol_index d sorted_indices,
              serialize_group_postings ref_layout,
              serialize_group_postings def_layout,
              serialize_group_postings rename_layout,
              doc_postings,
              serialize_block_index blocks n_words,
              serialize_target_meta d,
              serialize_symbol_meta d sorted_indices,
              search])))))))))"

end
