(* ===== verification/Utf8.thy ===== *)
theory Utf8
  imports Prelude
begin

text \<open>
  The part of Rust's \<open>str\<close> that the store relies on: which byte sequences
  \<open>str::from_utf8\<close> accepts, and what \<open>String::from_utf8_lossy\<close> makes of the others.
  \<open>utf8_step\<close> reads one sequence of a buffer as the standard library does: the flag
  tells whether it is a well-formed code point, the number is how many bytes it
  takes, for an ill-formed sequence the longest prefix of a well-formed one.
\<close>

definition is_cont :: "byte \<Rightarrow> bool" where
  "is_cont b \<longleftrightarrow> 0x80 \<le> b \<and> b \<le> 0xBF"

definition utf8_width :: "byte \<Rightarrow> nat" where
  "utf8_width b =
     (if b < 0x80 then 1 else if 0xC2 \<le> b \<and> b \<le> 0xDF then 2
      else if 0xE0 \<le> b \<and> b \<le> 0xEF then 3 else if 0xF0 \<le> b \<and> b \<le> 0xF4 then 4 else 0)"

text \<open>The second byte excludes overlong forms, surrogates and values past U+10FFFF.\<close>
definition second_ok :: "byte \<Rightarrow> byte \<Rightarrow> bool" where
  "second_ok b0 b1 \<longleftrightarrow>
     (if b0 = 0xE0 then 0xA0 \<le> b1 \<and> b1 \<le> 0xBF
      else if b0 = 0xED then 0x80 \<le> b1 \<and> b1 \<le> 0x9F
      else if b0 = 0xF0 then 0x90 \<le> b1 \<and> b1 \<le> 0xBF
      else if b0 = 0xF4 then 0x80 \<le> b1 \<and> b1 \<le> 0x8F
      else is_cont b1)"

fun utf8_step :: "byte list \<Rightarrow> bool \<times> nat" where
  "utf8_step [] = (True, 0)"
| "utf8_step (b0 # rest) =
     (if utf8_width b0 = 1 then (True, 1)
      else if utf8_width b0 = 0 then (False, 1)
      else case rest of
        [] \<Rightarrow> (False, 1)
      | b1 # rest1 \<Rightarrow>
          if \<not> second_ok b0 b1 then (False, 1)
          else if utf8_width b0 = 2 then (True, 2)
          else case rest1 of
            [] \<Rightarrow> (False, 2)
          | b2 # rest2 \<Rightarrow>
              if \<not> is_cont b2 then (False, 2)
              else if utf8_width b0 = 3 then (True, 3)
              else case rest2 of
                [] \<Rightarrow> (False, 3)
              | b3 # _ \<Rightarrow> if is_cont b3 then (True, 4) else (False, 3))"

lemma utf8_step_pos: "bs \<noteq> [] \<Longrightarrow> 0 < snd (utf8_step bs)"
  by (cases bs) (auto split: list.splits)

lemma utf8_step_le: "snd (utf8_step bs) \<le> length bs"
  by (cases bs) (auto split: list.splits)

function utf8_valid :: "byte list \<Rightarrow> bool" where
  "utf8_valid bs =
     (if bs = [] then True
      else fst (utf8_step bs) \<and> utf8_valid (drop (snd (utf8_step bs)) bs))"
  by pat_completeness auto
termination
  by (relation "measure length") (auto simp: utf8_step_pos)

function from_utf8_lossy :: "byte list \<Rightarrow> str" where
  "from_utf8_lossy bs =
     (if bs = [] then []
      else (if fst (utf8_step bs) then take (snd (utf8_step bs)) bs else [0xEF, 0xBF, 0xBD]) @
           from_utf8_lossy (drop (snd (utf8_step bs)) bs))"
  by pat_completeness auto
termination
  by (relation "measure length") (auto simp: utf8_step_pos)

declare utf8_valid.simps [simp del] from_utf8_lossy.simps [simp del]

text \<open>\<open>std::str::from_utf8\<close>: the bytes themselves, when they are well formed.\<close>
definition from_utf8 :: "byte list \<Rightarrow> str option" where
  "from_utf8 bs = (if utf8_valid bs then Some bs else None)"

lemma utf8_valid_Nil [simp]: "utf8_valid []"
  by (simp add: utf8_valid.simps)

lemma from_utf8_lossy_valid: "utf8_valid bs \<Longrightarrow> from_utf8_lossy bs = bs"
proof (induction bs rule: utf8_valid.induct)
  case (1 bs)
  show ?case
  proof (cases "bs = []")
    case True
    then show ?thesis by (simp add: from_utf8_lossy.simps)
  next
    case False
    with "1.prems" have "fst (utf8_step bs)" "utf8_valid (drop (snd (utf8_step bs)) bs)"
      by (simp_all add: utf8_valid.simps[of bs])
    with "1.IH" False show ?thesis by (subst from_utf8_lossy.simps) simp
  qed
qed

lemma utf8_step_append:
  "fst (utf8_step xs) \<Longrightarrow> xs \<noteq> [] \<Longrightarrow> utf8_step (xs @ ys) = utf8_step xs"
  by (cases xs) (auto split: list.splits if_splits)

lemma utf8_valid_append: "utf8_valid xs \<Longrightarrow> utf8_valid ys \<Longrightarrow> utf8_valid (xs @ ys)"
proof (induction xs rule: utf8_valid.induct)
  case (1 xs)
  show ?case
  proof (cases "xs = []")
    case True
    then show ?thesis using "1.prems" by simp
  next
    case False
    with "1.prems" have step: "fst (utf8_step xs)" "utf8_valid (drop (snd (utf8_step xs)) xs)"
      by (simp_all add: utf8_valid.simps[of xs])
    have "utf8_step (xs @ ys) = utf8_step xs" using utf8_step_append step(1) False by blast
    moreover have "drop (snd (utf8_step xs)) (xs @ ys) = drop (snd (utf8_step xs)) xs @ ys"
      using utf8_step_le[of xs] by simp
    ultimately show ?thesis
      using "1.IH" "1.prems"(2) False step by (subst utf8_valid.simps) simp
  qed
qed

lemma utf8_valid_ascii: "(\<forall>b \<in> set bs. b < 0x80) \<Longrightarrow> utf8_valid bs"
proof (induction bs)
  case (Cons b bs)
  then have "utf8_valid [b]" by (simp add: utf8_valid.simps utf8_width_def)
  then show ?case using utf8_valid_append[of "[b]" bs] Cons by simp
qed simp

end
