(* ===== verification/Target_Bitset.thy ===== *)
theory Target_Bitset
  imports Prelude
begin

text \<open>
  The exact target-membership set of \<open>crates/ls-index-model/src/bitset.rs\<close>: a vector
  of 64-bit lanes with a size in ordinals. The abstraction \<open>members\<close> is the set of
  ordinals; every constructor establishes the invariant \<open>bitset_ok\<close> and every query
  answers what the set says.
\<close>

unbundle bit_operations_syntax

section \<open>Model\<close>

record target_bitset =
  words :: "u64 list"
  bsize :: u32

definition word_count :: "u32 \<Rightarrow> nat" where
  "word_count sz = drop_bit 6 (unat sz + 63)"

definition lane :: "u32 \<Rightarrow> nat" where
  "lane ord = unat (drop_bit 6 ord)"

definition bit_of :: "u32 \<Rightarrow> u64" where
  "bit_of ord = push_bit (unat (ord AND 63)) 1"

definition empty_set :: "u32 \<Rightarrow> target_bitset" where
  "empty_set sz = \<lparr>words = replicate (word_count sz) 0, bsize = sz\<rparr>"

definition of_step :: "u32 \<Rightarrow> u32 \<Rightarrow> u64 list \<Rightarrow> (u64 list, unit) outcome" where
  "of_step sz ord ws =
     (if ord < sz
      then and_then (index_o ws (lane ord)) (\<lambda>w. Ok (ws[lane ord := w OR bit_of ord]))
      else Panic)"

definition of_ords :: "u32 \<Rightarrow> u32 list \<Rightarrow> (target_bitset, unit) outcome" where
  "of_ords sz ords =
     and_then (fold_o (of_step sz) ords (replicate (max (word_count sz) 1) 0))
       (\<lambda>ws. Ok \<lparr>words = ws, bsize = sz\<rparr>)"

text \<open>\<open>Vec::resize(n, 0)\<close>.\<close>
definition resize :: "nat \<Rightarrow> u64 list \<Rightarrow> u64 list" where
  "resize n ws = take n ws @ replicate (n - length ws) 0"

definition from_words :: "u32 \<Rightarrow> u64 list \<Rightarrow> target_bitset" where
  "from_words sz ws0 =
     (let n = word_count sz;
          ws = resize n ws0;
          ws' = (if n > 0
                 then (let used = unat sz - (n - 1) * 64
                       in if used < 64 then ws[n - 1 := (ws ! (n - 1)) AND (push_bit used 1 - 1)] else ws)
                 else ws)
      in \<lparr>words = ws', bsize = sz\<rparr>)"

definition all_set :: "u32 \<Rightarrow> (target_bitset, unit) outcome" where
  "all_set sz = of_ords sz (map word_of_nat [0..<unat sz])"

definition contains_ord :: "target_bitset \<Rightarrow> u32 \<Rightarrow> bool" where
  "contains_ord bs ord \<longleftrightarrow> ord < bsize bs \<and> (words bs ! lane ord) AND bit_of ord \<noteq> 0"

definition intersects_words :: "target_bitset \<Rightarrow> u64 list \<Rightarrow> bool" where
  "intersects_words bs other =
     (let n = min (length (words bs)) (length other)
      in list_ex (\<lambda>(a, b). a AND b \<noteq> 0) (zip (take n (words bs)) (take n other)))"

definition intersects :: "target_bitset \<Rightarrow> target_bitset \<Rightarrow> bool" where
  "intersects bs other = intersects_words bs (words other)"

definition count_ones :: "u64 \<Rightarrow> nat" where
  "count_ones w = length (filter (bit w) [0..<64])"

definition cardinality :: "target_bitset \<Rightarrow> nat" where
  "cardinality bs = sum_list (map count_ones (words bs))"

definition trailing_zeros :: "u64 \<Rightarrow> nat" where
  "trailing_zeros w = length (takeWhile (\<lambda>i. \<not> bit w i) [0..<64])"

text \<open>The \<open>from_fn\<close> closure of \<open>iter\<close>: emit the lowest set bit, clear it with
  \<open>w &= w - 1\<close>, until no bit is left.\<close>

function lane_iter :: "nat \<Rightarrow> u64 \<Rightarrow> nat list" where
  "lane_iter base w = (if w = 0 then [] else (base + trailing_zeros w) # lane_iter base (w AND (w - 1)))"
  by pat_completeness auto
termination
proof (relation "measure (\<lambda>(base, w). unat w)")
  fix base :: nat and w :: u64
  assume "w \<noteq> 0"
  have "w AND (w - 1) \<le> w - 1" by (rule word_and_le1)
  also have "w - 1 < w" using \<open>w \<noteq> 0\<close> by (simp add: word_less_nat_alt measure_unat)
  finally show "((base, w AND (w - 1)), (base, w)) \<in> measure (\<lambda>(base, w). unat w)"
    by (simp add: word_less_nat_alt)
qed simp

declare lane_iter.simps [simp del]

definition iter :: "target_bitset \<Rightarrow> nat list" where
  "iter bs = concat (map (\<lambda>(wi, w). lane_iter (wi * 64) w) (enumerate 0 (words bs)))"

section \<open>Abstraction and invariant\<close>

definition bit_at :: "u64 list \<Rightarrow> nat \<Rightarrow> bool" where
  "bit_at ws n \<longleftrightarrow> n div 64 < length ws \<and> bit (ws ! (n div 64)) (n mod 64)"

definition members :: "target_bitset \<Rightarrow> nat set" where
  "members bs = {n. bit_at (words bs) n}"

definition bitset_ok :: "target_bitset \<Rightarrow> bool" where
  "bitset_ok bs \<longleftrightarrow> word_count (bsize bs) \<le> length (words bs) \<and>
     (\<forall>n. bit_at (words bs) n \<longrightarrow> n < unat (bsize bs))"

lemma drop_bit_6: "drop_bit 6 (n::nat) = n div 64"
  by (simp add: drop_bit_eq_div)

lemma lane_eq: "lane ord = unat ord div 64"
  by (simp add: lane_def drop_bit_eq_div unat_div)

lemma unat_and_63: "unat (ord AND 63 :: u32) = unat ord mod 64"
proof -
  have "ord AND 63 = take_bit 6 ord" by (simp add: take_bit_eq_mask mask_eq_exp_minus_1)
  then show ?thesis by (simp add: take_bit_eq_mod unat_mod)
qed

lemma bit_bit_of: "bit (bit_of ord) k \<longleftrightarrow> k = unat ord mod 64"
  by (auto simp: bit_of_def unat_and_63 bit_simps)

lemma and_bit_of: "w AND bit_of ord \<noteq> 0 \<longleftrightarrow> bit w (unat ord mod 64)"
proof -
  have "bit_of ord = 2 ^ (unat ord mod 64)" by (simp add: bit_of_def unat_and_63 push_bit_eq_mult)
  then show ?thesis by (simp add: and_exp_eq_0_iff_not_bit)
qed

lemma word_count_bound: "n < unat sz \<Longrightarrow> n div 64 < word_count sz"
  by (auto simp: word_count_def drop_bit_6 div_less_iff_less_mult)

lemma contains_ord_members: "bitset_ok bs \<Longrightarrow> contains_ord bs ord \<longleftrightarrow> unat ord \<in> members bs"
  using word_count_bound[of "unat ord" "bsize bs"]
  by (auto simp: contains_ord_def members_def bit_at_def and_bit_of lane_eq bitset_ok_def word_less_nat_alt)

lemma bit_at_set_bit:
  assumes "unat ord div 64 < length ws"
  shows "bit_at (ws[lane ord := (ws ! lane ord) OR bit_of ord]) n \<longleftrightarrow> bit_at ws n \<or> n = unat ord"
proof -
  have "n = unat ord \<longleftrightarrow> n div 64 = unat ord div 64 \<and> n mod 64 = unat ord mod 64"
    by (metis div_mult_mod_eq)
  then show ?thesis
    using assms by (auto simp: bit_at_def lane_eq nth_list_update bit_or_iff bit_bit_of)
qed

lemma of_step_Ok:
  assumes "word_count sz \<le> length ws" and "ord < sz"
  shows "of_step sz ord ws = Ok (ws[lane ord := (ws ! lane ord) OR bit_of ord])"
  using assms word_count_bound[of "unat ord" sz]
  by (auto simp: of_step_def index_o_def lane_eq word_less_nat_alt)

lemma fold_of_step:
  assumes "word_count sz \<le> length ws" and "\<forall>ord \<in> set ords. ord < sz"
  shows "\<exists>ws'. fold_o (of_step sz) ords ws = Ok ws' \<and> length ws' = length ws \<and>
    (\<forall>n. bit_at ws' n \<longleftrightarrow> bit_at ws n \<or> n \<in> unat ` set ords)"
  using assms
proof (induction ords arbitrary: ws)
  case (Cons ord ords)
  let ?ws = "ws[lane ord := (ws ! lane ord) OR bit_of ord]"
  have "unat ord div 64 < length ws"
    using Cons.prems word_count_bound[of "unat ord" sz] by (auto simp: word_less_nat_alt)
  then have set_bit: "bit_at ?ws n \<longleftrightarrow> bit_at ws n \<or> n = unat ord" for n
    by (rule bit_at_set_bit)
  obtain ws' where ws': "fold_o (of_step sz) ords ?ws = Ok ws'" "length ws' = length ?ws"
    "\<forall>n. bit_at ws' n \<longleftrightarrow> bit_at ?ws n \<or> n \<in> unat ` set ords"
    using Cons.IH[of ?ws] Cons.prems by (metis length_list_update list.set_intros(2))
  have "fold_o (of_step sz) (ord # ords) ws = Ok ws'"
    using of_step_Ok[of sz ws ord] Cons.prems ws'(1) by simp
  then show ?case using ws'(2,3) set_bit by auto
qed simp

lemma not_bit_at_zeros: "\<not> bit_at (replicate k 0) n"
  by (auto simp: bit_at_def)

lemma of_ords_members:
  assumes "\<forall>ord \<in> set ords. ord < sz"
  obtains bs where "of_ords sz ords = Ok bs" and "bitset_ok bs" and "bsize bs = sz"
    and "members bs = unat ` set ords"
proof -
  let ?zs = "replicate (max (word_count sz) 1) (0::u64)"
  obtain ws where ws: "fold_o (of_step sz) ords ?zs = Ok ws" "length ws = length ?zs"
    "\<forall>n. bit_at ws n \<longleftrightarrow> n \<in> unat ` set ords"
    using fold_of_step[of sz ?zs ords] assms by (auto simp: not_bit_at_zeros)
  show thesis
  proof
    show "of_ords sz ords = Ok \<lparr>words = ws, bsize = sz\<rparr>" unfolding of_ords_def ws(1) by simp
    show "bitset_ok \<lparr>words = ws, bsize = sz\<rparr>"
      using ws assms by (auto simp: bitset_ok_def word_less_nat_alt)
  qed (use ws in \<open>auto simp: members_def\<close>)
qed

lemma of_ords_panics: "\<exists>ord \<in> set ords. \<not> ord < sz \<Longrightarrow> of_ords sz ords = Panic"
proof -
  assume ex: "\<exists>ord \<in> set ords. \<not> ord < sz"
  have "fold_o (of_step sz) ords ws = (Panic :: (u64 list, unit) outcome)" if "word_count sz \<le> length ws" for ws
    using ex that
  proof (induction ords arbitrary: ws)
    case (Cons ord ords)
    show ?case
    proof (cases "ord < sz")
      case True
      then show ?thesis using Cons by (simp add: of_step_Ok)
    next
      case False
      then show ?thesis by (simp add: of_step_def)
    qed
  qed simp
  from this[of "replicate (max (word_count sz) 1) 0"] show ?thesis
    by (simp add: of_ords_def)
qed

lemma bit_at_resize: "bit_at (resize k ws) n \<longleftrightarrow> n div 64 < k \<and> bit_at ws n"
  by (auto simp: bit_at_def resize_def nth_append)

lemma length_resize [simp]: "length (resize k ws) = k"
  by (simp add: resize_def)

lemma length_from_words: "length (words (from_words sz ws)) = word_count sz"
  by (simp add: from_words_def Let_def)

lemma bit_low_mask: "bit (2 ^ u - 1 :: u64) k \<longleftrightarrow> k < min u 64"
  unfolding mask_eq_exp_minus_1[symmetric] by (auto simp: bit_mask_iff)

lemma from_words_bit_at:
  "bit_at (words (from_words sz ws)) n \<longleftrightarrow> n < unat sz \<and> bit_at ws n"
proof -
  define k where "k = word_count sz"
  have k: "k = (unat sz + 63) div 64" by (simp add: k_def word_count_def drop_bit_6)
  show ?thesis
  proof (cases "k > 0 \<and> unat sz - (k - 1) * 64 < 64")
    case True
    let ?m = "push_bit (unat sz - (k - 1) * 64) (1::u64) - 1"
    have ws: "words (from_words sz ws) = (resize k ws)[k - 1 := (resize k ws ! (k - 1)) AND ?m]"
      using True by (simp add: from_words_def Let_def k_def[symmetric])
    have "bit_at (words (from_words sz ws)) n \<longleftrightarrow>
        bit_at (resize k ws) n \<and> (n div 64 = k - 1 \<longrightarrow> n mod 64 < unat sz - (k - 1) * 64)"
      using True unfolding ws by (auto simp: bit_at_def nth_list_update bit_and_iff bit_low_mask)
    also have "\<dots> \<longleftrightarrow> n < unat sz \<and> bit_at ws n"
    proof -
      have "n div 64 < k \<and> (n div 64 = k - 1 \<longrightarrow> n mod 64 < unat sz - (k - 1) * 64) \<longleftrightarrow> n < unat sz"
      proof -
        obtain j where j: "k = Suc j" using True by (cases k) auto
        have "j * 64 < unat sz" using j k by linarith
        then obtain u where u: "unat sz = j * 64 + u" "0 < u" by (metis less_imp_add_positive)
        have "n div 64 < Suc j \<and> (n div 64 = j \<longrightarrow> n mod 64 < u) \<longleftrightarrow> n < j * 64 + u"
          using u True j by (auto simp: less_Suc_eq) (linarith | metis div_mult_mod_eq add_less_cancel_left
            less_mult_imp_div_less nat_less_le add.commute div_le_mono div_mult_self_is_m)+
        then show ?thesis using j u by simp
      qed
      then show ?thesis by (auto simp: bit_at_resize)
    qed
    finally show ?thesis .
  next
    case False
    then have "words (from_words sz ws) = resize k ws"
      by (auto simp: from_words_def Let_def k_def[symmetric])
    moreover have "unat sz = k * 64"
    proof (cases k)
      case 0
      then have "(unat sz + 63) div 64 = 0" using k by simp
      then show ?thesis using 0 by simp
    next
      case (Suc j)
      then have "j * 64 + 64 \<le> unat sz" using False by auto
      then show ?thesis using Suc k by linarith
    qed
    ultimately show ?thesis by (auto simp: bit_at_resize div_less_iff_less_mult)
  qed
qed

lemma from_words_ok: "bitset_ok (from_words sz ws)"
  unfolding bitset_ok_def
  by (simp add: from_words_bit_at length_from_words) (simp add: from_words_def Let_def)

lemma word_and_neq_0: "(a::u64) AND b \<noteq> 0 \<longleftrightarrow> (\<exists>k < 64. bit a k \<and> bit b k)"
proof -
  have "(a AND b = 0) \<longleftrightarrow> (\<forall>k < LENGTH(64). \<not> bit (a AND b) k)"
    by (metis bit_0_eq bot_apply bot_bool_def bit_word_eqI)
  then show ?thesis by (auto simp: bit_and_iff)
qed

text \<open>Whether two lane vectors share a bit is whether they share an ordinal.\<close>

lemma lanes_share_bit:
  "(\<exists>w < min (length as) (length bs). (as ! w :: u64) AND bs ! w \<noteq> 0) \<longleftrightarrow> (\<exists>n. bit_at as n \<and> bit_at bs n)"
proof
  assume "\<exists>w < min (length as) (length bs). as ! w AND bs ! w \<noteq> 0"
  then obtain w k where "w < length as" "w < length bs" "k < 64" "bit (as ! w) k" "bit (bs ! w) k"
    by (auto simp: word_and_neq_0)
  then have "bit_at as (w * 64 + k) \<and> bit_at bs (w * 64 + k)" by (simp add: bit_at_def)
  then show "\<exists>n. bit_at as n \<and> bit_at bs n" by blast
next
  assume "\<exists>n. bit_at as n \<and> bit_at bs n"
  then obtain n where n: "bit_at as n" "bit_at bs n" by blast
  then have "as ! (n div 64) AND bs ! (n div 64) \<noteq> 0"
    unfolding word_and_neq_0 bit_at_def by (intro exI[of _ "n mod 64"]) simp
  with n show "\<exists>w < min (length as) (length bs). as ! w AND bs ! w \<noteq> 0"
    by (intro exI[of _ "n div 64"]) (auto simp: bit_at_def)
qed

lemma intersects_words_share: "intersects_words bs ws \<longleftrightarrow> (\<exists>n. bit_at (words bs) n \<and> bit_at ws n)"
  unfolding lanes_share_bit[symmetric]
  by (auto simp: intersects_words_def Let_def list_ex_length)

section \<open>Enumeration\<close>

lemma trailing_zeros_least:
  assumes "(w::u64) \<noteq> 0"
  shows "trailing_zeros w < 64" and "bit w (trailing_zeros w)" and "\<And>k. k < trailing_zeros w \<Longrightarrow> \<not> bit w k"
proof -
  obtain j where j: "j < 64" "bit w j" using assms word_and_neq_0[of w w] by auto
  have "length (takeWhile (\<lambda>i. \<not> bit w i) [0..<64]) < length [0..<64::nat]"
    using j by (intro takeWhile_shorter) auto
  then show lt: "trailing_zeros w < 64" by (simp add: trailing_zeros_def)
  show "bit w (trailing_zeros w)"
    using nth_length_takeWhile[of "\<lambda>i. \<not> bit w i" "[0..<64]"] lt by (simp add: trailing_zeros_def)
  fix k assume k: "k < trailing_zeros w"
  have "takeWhile (\<lambda>i. \<not> bit w i) [0..<64] ! k \<in> set (takeWhile (\<lambda>i. \<not> bit w i) [0..<64])"
    using k by (simp add: trailing_zeros_def)
  then show "\<not> bit w k"
    using set_takeWhileD takeWhile_nth[of k "\<lambda>i. \<not> bit w i" "[0..<64]"] k lt
    by (fastforce simp: trailing_zeros_def)
qed

text \<open>\<open>w & (w - 1)\<close> clears exactly the lowest set bit.\<close>

lemma clear_lowest_bit:
  assumes "(w::u64) \<noteq> 0"
  shows "bit (w AND (w - 1)) k \<longleftrightarrow> bit w k \<and> k \<noteq> trailing_zeros w"
proof -
  define t where "t = trailing_zeros w"
  define u where "u = unset_bit t w"
  note least = trailing_zeros_least[OF assms, folded t_def]
  have u: "bit u k \<longleftrightarrow> bit w k \<and> k \<noteq> t" for k by (auto simp: u_def bit_simps)
  have "u AND 2 ^ t = 0" by (simp add: and_exp_eq_0_iff_not_bit u)
  then have "u + 2 ^ t = u OR 2 ^ t" by (rule disjunctive_add_eq_or)
  also have "u OR 2 ^ t = w"
    using least(1,2) by (intro bit_word_eqI) (auto simp: u bit_simps)
  finally have w1: "w - 1 = u + mask t" by (auto simp: mask_eq_exp_minus_1 algebra_simps)
  have "u AND mask t = 0" using least(3) by (intro bit_word_eqI) (auto simp: u bit_simps)
  then have "w - 1 = u OR mask t" unfolding w1 by (rule disjunctive_add_eq_or)
  then show ?thesis using least(1,2) by (auto simp: u bit_simps t_def[symmetric])
qed

lemma lane_iter_eq: "lane_iter base w = map ((+) base) (filter (bit w) [0..<64])"
proof (induction base w rule: lane_iter.induct)
  case (1 base w)
  show ?case
  proof (cases "w = 0")
    case True
    then show ?thesis by (simp add: lane_iter.simps)
  next
    case False
    define t where "t = trailing_zeros w"
    note least = trailing_zeros_least[OF False, folded t_def]
    have split: "[0..<64] = [0..<t] @ t # [Suc t..<64]"
      using least(1) by (metis le0 less_imp_le_nat upt_add_eq_append upt_conv_Cons le_add_diff_inverse)
    have "filter (bit w) [0..<t] = []" using least(3) by (auto simp: filter_empty_conv)
    moreover have "filter (bit (w AND (w - 1))) [0..<t] = []"
      using least(3) by (auto simp: filter_empty_conv bit_and_iff)
    moreover have "filter (bit (w AND (w - 1))) [Suc t..<64] = filter (bit w) [Suc t..<64]"
      using clear_lowest_bit[OF False] by (intro filter_cong) (auto simp: t_def)
    ultimately have "filter (bit w) [0..<64] = t # filter (bit (w AND (w - 1))) [0..<64]"
      using least(2) clear_lowest_bit[OF False, of t] unfolding split by (simp add: t_def)
    then show ?thesis
      using False "1.IH" by (subst lane_iter.simps) (simp add: t_def)
  qed
qed

lemma iter_append:
  "concat (map (\<lambda>(wi, w). lane_iter (wi * 64) w) (enumerate k ws)) =
     filter (\<lambda>n. bit_at ws (n - k * 64)) [k * 64..<(k + length ws) * 64]"
proof (induction ws arbitrary: k)
  case (Cons w ws)
  have range: "[k * 64..<(k + length (w # ws)) * 64] = [k * 64..<k * 64 + 64] @ [Suc k * 64..<(Suc k + length ws) * 64]"
    by (metis (no_types, lifting) add.commute add_Suc_right length_Cons mult_Suc mult_le_mono1 le_add1
        le_add_diff_inverse upt_add_eq_append)
  have "map ((+) (k * 64)) (filter (bit w) [0..<64]) =
      filter (\<lambda>n. bit w (n - k * 64)) (map ((+) (k * 64)) [0..<64])"
    by (simp add: filter_map o_def)
  also have "map ((+) (k * 64)) [0..<64] = [k * 64..<k * 64 + 64]"
    by (rule nth_equalityI) auto
  also have "filter (\<lambda>n. bit w (n - k * 64)) [k * 64..<k * 64 + 64] =
      filter (\<lambda>n. bit_at (w # ws) (n - k * 64)) [k * 64..<k * 64 + 64]"
    by (intro filter_cong) (auto simp: bit_at_def)
  finally have head: "lane_iter (k * 64) w = \<dots>" by (simp add: lane_iter_eq)
  have "filter (\<lambda>n. bit_at ws (n - Suc k * 64)) [Suc k * 64..<(Suc k + length ws) * 64] =
      filter (\<lambda>n. bit_at (w # ws) (n - k * 64)) [Suc k * 64..<(Suc k + length ws) * 64]"
  proof (intro filter_cong refl)
    fix n assume "n \<in> set [Suc k * 64..<(Suc k + length ws) * 64]"
    then have "64 \<le> n - k * 64" "n - Suc k * 64 = (n - k * 64) - 64" by auto
    then show "bit_at ws (n - Suc k * 64) = bit_at (w # ws) (n - k * 64)"
      by (simp add: bit_at_def le_div_geq le_mod_geq)
  qed
  then show ?case using head Cons.IH[of "Suc k"] unfolding range by simp
qed simp

lemma iter_eq: "iter bs = filter (bit_at (words bs)) [0..<length (words bs) * 64]"
  using iter_append[of 0 "words bs"] by (simp add: iter_def)

lemma bit_at_bound: "bit_at ws n \<Longrightarrow> n < length ws * 64"
  by (auto simp: bit_at_def div_less_iff_less_mult)

lemma length_iter: "length (iter bs) = cardinality bs"
proof -
  have "length (lane_iter b w) = count_ones w" for b w
    by (simp add: lane_iter_eq count_ones_def)
  then have "length (iter bs) = sum_list (map (count_ones \<circ> snd) (enumerate 0 (words bs)))"
    by (simp add: iter_def length_concat o_def split_def)
  also have "map (count_ones \<circ> snd) (enumerate 0 (words bs)) = map count_ones (words bs)"
    by (metis map_map map_snd_enumerate)
  finally show ?thesis by (simp add: cardinality_def)
qed

lemma iter_members: "iter bs = sorted_list_of_set (members bs)"
proof -
  have "set (iter bs) = members bs"
    using bit_at_bound by (auto simp: iter_eq members_def)
  moreover have "sorted (iter bs)" "distinct (iter bs)"
    by (auto simp: iter_eq sorted_wrt_filter)
  ultimately show ?thesis by (metis sorted_list_of_set.idem_if_sorted_distinct)
qed

section \<open>What the set promises its clients\<close>

text \<open>The interface the segment scans rely on: membership of one ordinal, overlap with
  a raw lane vector, and the set both of them describe.\<close>

locale exact_target_set =
  fixes invar :: "'s \<Rightarrow> bool" and mem :: "'s \<Rightarrow> u32 \<Rightarrow> bool" and lanes :: "'s \<Rightarrow> u64 list"
    and overlaps :: "'s \<Rightarrow> u64 list \<Rightarrow> bool" and ords :: "'s \<Rightarrow> nat set"
  assumes mem_ords: "invar s \<Longrightarrow> mem s x \<longleftrightarrow> unat x \<in> ords s"
    and lanes_ords: "invar s \<Longrightarrow> n \<in> ords s \<longleftrightarrow> bit_at (lanes s) n"
    and overlaps_lanes: "overlaps s ws \<longleftrightarrow> (\<exists>n. bit_at (lanes s) n \<and> bit_at ws n)"
begin

text \<open>A lane vector that holds a member's bit always overlaps: no member is skipped.\<close>

lemma overlaps_of_mem: "invar s \<Longrightarrow> mem s x \<Longrightarrow> bit_at ws (unat x) \<Longrightarrow> overlaps s ws"
  using mem_ords lanes_ords overlaps_lanes by blast

lemma no_overlap_disjoint: "invar s \<Longrightarrow> \<not> overlaps s ws \<Longrightarrow> bit_at ws (unat x) \<Longrightarrow> \<not> mem s x"
  using overlaps_of_mem by blast

end

interpretation target_set: exact_target_set bitset_ok contains_ord words intersects_words members
  by unfold_locales (auto simp: contains_ord_members members_def intersects_words_share)

section \<open>Properties\<close>

text \<open>
  The block-pruning test is exact: two well-formed target bitsets intersect
  precisely when some ordinal is a member of both, by the bitset's own \<open>contains\<close>.
\<close>
theorem intersects_iff_common_member:
  assumes "bitset_ok a" and "bitset_ok b"
  shows "intersects a b \<longleftrightarrow> (\<exists>ord. contains_ord a ord \<and> contains_ord b ord)"
proof
  assume "intersects a b"
  then obtain n where n: "bit_at (words a) n" "bit_at (words b) n"
    by (auto simp: intersects_def intersects_words_share)
  then have "n < unat (bsize a)" using assms(1) by (simp add: bitset_ok_def)
  then have "unat (word_of_nat n :: u32) = n"
    using unsigned_less[of "bsize a", where ?'a = nat] by (simp add: unat_of_nat)
  with n assms show "\<exists>ord. contains_ord a ord \<and> contains_ord b ord"
    by (intro exI[of _ "word_of_nat n"]) (simp add: contains_ord_members members_def)
next
  assume "\<exists>ord. contains_ord a ord \<and> contains_ord b ord"
  then show "intersects a b"
    using assms by (auto simp: intersects_def target_set.overlaps_lanes contains_ord_members members_def)
qed

theorem intersects_iff_common_member_witness:
  "intersects (from_words 128 [8, 64]) (from_words 128 [0, 64]) \<longleftrightarrow>
     (\<exists>ord. contains_ord (from_words 128 [8, 64]) ord \<and> contains_ord (from_words 128 [0, 64]) ord)"
  by (rule intersects_iff_common_member) (rule from_words_ok)+

text \<open>
  C13: \<open>from_words\<close> normalises any raw lane vector (too short, too long, stray high
  bits): the result is well formed, \<open>iter\<close> lists exactly the ordinals below \<open>size\<close>
  whose bit was set, in ascending order, and \<open>cardinality\<close> counts them.
\<close>
theorem from_words_normalizes:
  "bitset_ok (from_words sz ws) \<and>
   iter (from_words sz ws) = filter (bit_at ws) [0..<unat sz] \<and>
   cardinality (from_words sz ws) = length (filter (bit_at ws) [0..<unat sz])"
proof -
  have "members (from_words sz ws) = set (filter (bit_at ws) [0..<unat sz])"
    by (auto simp: members_def from_words_bit_at)
  then have "iter (from_words sz ws) = filter (bit_at ws) [0..<unat sz]"
    by (simp only: iter_members) (rule sorted_list_of_set.idem_if_sorted_distinct,
      auto simp: sorted_wrt_filter)
  then show ?thesis using from_words_ok length_iter by metis
qed

text \<open>
  \<open>of\<close> builds exactly the set it is given: for ordinals in range it succeeds, and
  \<open>contains\<close> holds of precisely the listed ordinals; one ordinal out of range panics.
\<close>
theorem of_ords_exact:
  "(case of_ords sz ords of
      Ok bs \<Rightarrow> (\<forall>ord. contains_ord bs ord \<longleftrightarrow> ord \<in> set ords)
    | Panic \<Rightarrow> (\<exists>ord. ord \<in> set ords \<and> sz \<le> ord)
    | Err e \<Rightarrow> False)"
proof (cases "\<forall>ord \<in> set ords. ord < sz")
  case True
  then obtain bs where bs: "of_ords sz ords = Ok bs" "bitset_ok bs" "members bs = unat ` set ords"
    by (rule of_ords_members)
  then show ?thesis by (auto simp: contains_ord_members dest!: word_unat_eq_iff[THEN iffD2])
next
  case False
  then show ?thesis using of_ords_panics[of ords sz] by (auto simp: not_less)
qed

end
