(* ===== verification/Segment_Reader.thy ===== *)
theory Segment_Reader
  imports Segment_Format Wire Utf8 Target_Bitset
begin

text \<open>
  The typed accessors and scans of an opened segment,
  \<open>crates/ls-store/src/reader.rs\<close> lines 18-700. Accessors \<open>unwrap\<close> bounds-checked
  reads, so each returns an outcome in which a failed read is a \<open>Panic\<close>; that none
  panics on an opened segment is proved in \<open>Segment_Scan\<close>. A scan's sink is modelled by
  the list of records it receives, in order.
\<close>

unbundle bit_operations_syntax

section \<open>Views\<close>

record group_index_view =
  gv_offset :: i64
  gv_count :: i32
  gv_block_index_offset :: i32

record group_rec =
  gr_doc_ord :: i32
  gr_doc_epoch :: i32
  gr_target_ord :: i32
  gr_packed_start :: i32
  gr_packed_end :: i32
  gr_flags :: i32

record doc_entry_view =
  dv_interval_first :: i32
  dv_postings_offset :: i64
  dv_postings_count :: i32
  dv_interval_count :: i32

record interval_view =
  iv_first_line :: i32
  iv_last_line :: i32
  iv_offset :: i64
  iv_count :: i32

record doc_rec =
  dc_symbol_ord :: i32
  dc_packed_start :: i32
  dc_packed_end :: i32
  dc_flags :: i32

record symbol_view =
  sv_symbol_id :: i64
  sv_ref_group_ord :: i32
  sv_rename_group_ord :: i32
  sv_def_target_ord :: i32

record occurrence_hit =
  oh_symbol_ord :: i32
  oh_doc_ord :: u32
  oh_span :: span
  oh_role :: role
  oh_flags :: i32

record block_view =
  bv_first_record :: i64
  bv_record_count :: i32
  bv_editable_count :: i32
  bv_ref_role_count :: i32
  bv_def_role_count :: i32
  bv_doc_ord_min :: i32
  bv_doc_ord_max :: i32
  bv_epoch_min :: i32
  bv_epoch_max :: i32
  bv_target_words :: "u64 list"

record segment_reader =
  rd_files :: "byte list list"
  rd_segment_id :: u64
  rd_created_at_ms :: i64
  rd_ref_group_count :: u32
  rd_rename_group_count :: u32
  rd_doc_count :: u32
  rd_occurrence_count :: u64
  rd_symbol_count :: nat
  rd_target_count :: nat
  rd_words :: nat
  rd_doc_epochs :: "i32 list"

abbreviation (input) HEADER :: nat where "HEADER \<equiv> 0"
abbreviation (input) REF_GROUP_INDEX :: nat where "REF_GROUP_INDEX \<equiv> 1"
abbreviation (input) DEF_GROUP_INDEX :: nat where "DEF_GROUP_INDEX \<equiv> 2"
abbreviation (input) RENAME_GROUP_INDEX :: nat where "RENAME_GROUP_INDEX \<equiv> 3"
abbreviation (input) DOC_INDEX :: nat where "DOC_INDEX \<equiv> 4"
abbreviation (input) SYMBOL_INDEX :: nat where "SYMBOL_INDEX \<equiv> 5"
abbreviation (input) REF_POSTINGS :: nat where "REF_POSTINGS \<equiv> 6"
abbreviation (input) DEF_POSTINGS :: nat where "DEF_POSTINGS \<equiv> 7"
abbreviation (input) RENAME_POSTINGS :: nat where "RENAME_POSTINGS \<equiv> 8"
abbreviation (input) DOC_POSTINGS :: nat where "DOC_POSTINGS \<equiv> 9"
abbreviation (input) BLOCK_INDEX :: nat where "BLOCK_INDEX \<equiv> 10"
abbreviation (input) TARGET_META :: nat where "TARGET_META \<equiv> 11"
abbreviation (input) SYMBOL_META :: nat where "SYMBOL_META \<equiv> 12"
abbreviation (input) SEARCH :: nat where "SEARCH \<equiv> 13"

definition seg_file :: "segment_reader \<Rightarrow> nat \<Rightarrow> byte list" where
  "seg_file rd idx = rd_files rd ! idx"

section \<open>Group index and postings\<close>

definition group_index_view_at :: "byte list \<Rightarrow> nat \<Rightarrow> group_index_view seg_result" where
  "group_index_view_at f ord =
     (let base = 8 + ord * GROUP_INDEX_ENTRY_SIZE
      in and_then (unwrap (read_i64 f base)) (\<lambda>off.
         and_then (unwrap (read_i32 f (base + 8))) (\<lambda>cnt.
         and_then (unwrap (read_i32 f (base + 12))) (\<lambda>blk.
           Ok \<lparr>gv_offset = off, gv_count = cnt, gv_block_index_offset = blk\<rparr>))))"

definition ref_group :: "segment_reader \<Rightarrow> nat \<Rightarrow> group_index_view seg_result" where
  "ref_group rd ord = group_index_view_at (seg_file rd REF_GROUP_INDEX) ord"

definition def_group :: "segment_reader \<Rightarrow> nat \<Rightarrow> group_index_view seg_result" where
  "def_group rd ord = group_index_view_at (seg_file rd DEF_GROUP_INDEX) ord"

definition rename_group :: "segment_reader \<Rightarrow> nat \<Rightarrow> group_index_view seg_result" where
  "rename_group rd ord = group_index_view_at (seg_file rd RENAME_GROUP_INDEX) ord"

definition rename_profile_at :: "segment_reader \<Rightarrow> nat \<Rightarrow> stored_profile seg_result" where
  "rename_profile_at rd ord =
     (let f = seg_file rd RENAME_GROUP_INDEX;
          base = 8 + unat (rd_rename_group_count rd) * GROUP_INDEX_ENTRY_SIZE + ord * RENAME_PROFILE_ENTRY_SIZE
      in and_then (unwrap (read_i32 f base)) (\<lambda>flags.
         and_then (unwrap (read_i32 f (base + 4))) (\<lambda>editable.
         and_then (unwrap (read_i64 f (base + 8))) (\<lambda>reasons.
           Ok \<lparr>sp_is_local = flags AND IS_LOCAL \<noteq> 0,
               sp_is_external = flags AND IS_EXTERNAL \<noteq> 0,
               sp_has_generated = flags AND HAS_GENERATED \<noteq> 0,
               sp_has_readonly = flags AND HAS_READONLY \<noteq> 0,
               sp_has_override_family = flags AND HAS_OVERRIDE_FAMILY \<noteq> 0,
               sp_has_companion = flags AND HAS_COMPANION \<noteq> 0,
               sp_editable_occurrence_count = editable,
               sp_unsafe_reason_mask = reasons\<rparr>))))"

definition column_at :: "byte list \<Rightarrow> int \<Rightarrow> int \<Rightarrow> int \<Rightarrow> i32 seg_result" where
  "column_at f n r c = unwrap (read_i32 f (as_usize (8 + c * 4 * n + 4 * r)))"

definition group_record :: "byte list \<Rightarrow> int \<Rightarrow> group_rec seg_result" where
  "group_record f r =
     and_then (unwrap (read_i64 f 0)) (\<lambda>n.
     and_then (column_at f (sint n) r 0) (\<lambda>doc_ord.
     and_then (column_at f (sint n) r 1) (\<lambda>doc_epoch.
     and_then (column_at f (sint n) r 2) (\<lambda>target_ord.
     and_then (column_at f (sint n) r 3) (\<lambda>packed_start.
     and_then (column_at f (sint n) r 4) (\<lambda>packed_end.
     and_then (column_at f (sint n) r 5) (\<lambda>flags.
       Ok \<lparr>gr_doc_ord = doc_ord, gr_doc_epoch = doc_epoch, gr_target_ord = target_ord,
           gr_packed_start = packed_start, gr_packed_end = packed_end, gr_flags = flags\<rparr>)))))))"

section \<open>Document index and postings\<close>

definition doc_entry_base :: "nat \<Rightarrow> nat" where
  "doc_entry_base idx = 24 + idx * DOC_ENTRY_SIZE"

definition interval_count_total :: "segment_reader \<Rightarrow> i64 seg_result" where
  "interval_count_total rd = unwrap (read_i64 (seg_file rd DOC_INDEX) 8)"

definition uri_blob_start :: "segment_reader \<Rightarrow> nat seg_result" where
  "uri_blob_start rd =
     and_then (interval_count_total rd) (\<lambda>n.
       Ok (24 + unat (rd_doc_count rd) * DOC_ENTRY_SIZE + usize_of_i64 n * INTERVAL_ENTRY_SIZE))"

definition uri_of :: "segment_reader \<Rightarrow> nat \<Rightarrow> str seg_result" where
  "uri_of rd doc_ord =
     (let f = seg_file rd DOC_INDEX; base = doc_entry_base doc_ord
      in and_then (unwrap (read_i32 f base)) (\<lambda>off.
         and_then (unwrap (read_i32 f (base + 4))) (\<lambda>len.
         and_then (uri_blob_start rd) (\<lambda>blob_start.
         and_then (slice_o f (blob_start + usize_of_i32 off) (usize_of_i32 len)) (\<lambda>s.
           Ok (case from_utf8 s of Some t \<Rightarrow> t | None \<Rightarrow> []))))))"

definition doc_id_of :: "segment_reader \<Rightarrow> nat \<Rightarrow> i64 seg_result" where
  "doc_id_of rd doc_ord = unwrap (read_i64 (seg_file rd DOC_INDEX) (doc_entry_base doc_ord + 8))"

definition epoch_of :: "segment_reader \<Rightarrow> nat \<Rightarrow> i32 seg_result" where
  "epoch_of rd doc_ord = unwrap (read_i32 (seg_file rd DOC_INDEX) (doc_entry_base doc_ord + 16))"

definition target_ord_of_doc :: "segment_reader \<Rightarrow> nat \<Rightarrow> i32 seg_result" where
  "target_ord_of_doc rd doc_ord = unwrap (read_i32 (seg_file rd DOC_INDEX) (doc_entry_base doc_ord + 20))"

definition doc_flags_of :: "segment_reader \<Rightarrow> nat \<Rightarrow> i32 seg_result" where
  "doc_flags_of rd doc_ord = unwrap (read_i32 (seg_file rd DOC_INDEX) (doc_entry_base doc_ord + 24))"

definition doc_generated :: "segment_reader \<Rightarrow> nat \<Rightarrow> bool seg_result" where
  "doc_generated rd doc_ord = and_then (doc_flags_of rd doc_ord) (\<lambda>f. Ok (f AND DOC_GENERATED \<noteq> 0))"

definition doc_readonly :: "segment_reader \<Rightarrow> nat \<Rightarrow> bool seg_result" where
  "doc_readonly rd doc_ord = and_then (doc_flags_of rd doc_ord) (\<lambda>f. Ok (f AND DOC_READONLY \<noteq> 0))"

definition doc_entry :: "segment_reader \<Rightarrow> nat \<Rightarrow> doc_entry_view seg_result" where
  "doc_entry rd doc_ord =
     (let f = seg_file rd DOC_INDEX; base = doc_entry_base doc_ord
      in and_then (unwrap (read_i32 f (base + 28))) (\<lambda>ifirst.
         and_then (unwrap (read_i64 f (base + 32))) (\<lambda>poff.
         and_then (unwrap (read_i32 f (base + 40))) (\<lambda>pcnt.
         and_then (unwrap (read_i32 f (base + 44))) (\<lambda>icnt.
           Ok \<lparr>dv_interval_first = ifirst, dv_postings_offset = poff, dv_postings_count = pcnt,
               dv_interval_count = icnt\<rparr>)))))"

definition interval_entry :: "segment_reader \<Rightarrow> i32 \<Rightarrow> interval_view seg_result" where
  "interval_entry rd idx =
     (let f = seg_file rd DOC_INDEX;
          base = 24 + unat (rd_doc_count rd) * DOC_ENTRY_SIZE + usize_of_i32 idx * INTERVAL_ENTRY_SIZE
      in and_then (unwrap (read_i32 f base)) (\<lambda>fl.
         and_then (unwrap (read_i32 f (base + 4))) (\<lambda>ll.
         and_then (unwrap (read_i64 f (base + 8))) (\<lambda>off.
         and_then (unwrap (read_i32 f (base + 16))) (\<lambda>cnt.
           Ok \<lparr>iv_first_line = fl, iv_last_line = ll, iv_offset = off, iv_count = cnt\<rparr>)))))"

definition doc_record :: "segment_reader \<Rightarrow> int \<Rightarrow> doc_rec seg_result" where
  "doc_record rd r =
     (let f = seg_file rd DOC_POSTINGS
      in and_then (unwrap (read_i64 f 0)) (\<lambda>n.
         and_then (column_at f (sint n) r 0) (\<lambda>sym.
         and_then (column_at f (sint n) r 1) (\<lambda>packed_start.
         and_then (column_at f (sint n) r 2) (\<lambda>packed_end.
         and_then (column_at f (sint n) r 3) (\<lambda>flags.
           Ok \<lparr>dc_symbol_ord = sym, dc_packed_start = packed_start, dc_packed_end = packed_end,
               dc_flags = flags\<rparr>))))))"

section \<open>Symbol index\<close>

definition symbol_entry_base :: "nat \<Rightarrow> nat" where
  "symbol_entry_base idx = 24 + idx * SYMBOL_ENTRY_SIZE"

definition sym_blob_start :: "segment_reader \<Rightarrow> nat" where
  "sym_blob_start rd = 24 + rd_symbol_count rd * SYMBOL_ENTRY_SIZE + rd_target_count rd * 8"

text \<open>The bytes of dictionary entry \<open>ord\<close>, shared by \<open>semantic_symbol_of\<close> and the
  binary search.\<close>
definition symbol_bytes :: "segment_reader \<Rightarrow> nat \<Rightarrow> byte list seg_result" where
  "symbol_bytes rd ord =
     (let f = seg_file rd SYMBOL_INDEX; base = symbol_entry_base ord
      in and_then (unwrap (read_i32 f base)) (\<lambda>off.
         and_then (unwrap (read_i32 f (base + 4))) (\<lambda>len.
           slice_o f (sym_blob_start rd + usize_of_i32 off) (usize_of_i32 len))))"

definition semantic_symbol_of :: "segment_reader \<Rightarrow> nat \<Rightarrow> str seg_result" where
  "semantic_symbol_of rd ord =
     and_then (symbol_bytes rd ord) (\<lambda>s. Ok (case from_utf8 s of Some t \<Rightarrow> t | None \<Rightarrow> []))"

definition symbol_view_at :: "segment_reader \<Rightarrow> nat \<Rightarrow> symbol_view seg_result" where
  "symbol_view_at rd ord =
     (let f = seg_file rd SYMBOL_INDEX; base = symbol_entry_base ord
      in and_then (unwrap (read_i64 f (base + 8))) (\<lambda>sid.
         and_then (unwrap (read_i32 f (base + 16))) (\<lambda>rg.
         and_then (unwrap (read_i32 f (base + 20))) (\<lambda>rn.
         and_then (unwrap (read_i32 f (base + 24))) (\<lambda>dt.
           Ok \<lparr>sv_symbol_id = sid, sv_ref_group_ord = rg, sv_rename_group_ord = rn, sv_def_target_ord = dt\<rparr>)))))"

definition target_id_of :: "segment_reader \<Rightarrow> nat \<Rightarrow> i64 seg_result" where
  "target_id_of rd target_ord =
     unwrap (read_i64 (seg_file rd SYMBOL_INDEX) (24 + rd_symbol_count rd * SYMBOL_ENTRY_SIZE + target_ord * 8))"

text \<open>\<open>slice::cmp\<close> on bytes: lexicographic, unsigned.\<close>

datatype ordering = Less | Equal | Greater

fun bytes_cmp :: "byte list \<Rightarrow> byte list \<Rightarrow> ordering" where
  "bytes_cmp [] [] = Equal"
| "bytes_cmp [] (b # bs) = Less"
| "bytes_cmp (a # as) [] = Greater"
| "bytes_cmp (a # as) (b # bs) = (if a < b then Less else if b < a then Greater else bytes_cmp as bs)"

function find_symbol_loop :: "segment_reader \<Rightarrow> byte list \<Rightarrow> nat \<Rightarrow> nat \<Rightarrow> nat option seg_result" where
  "find_symbol_loop rd needle lo hi =
     (if lo < hi
      then (let mid = (lo + hi) div 2
            in and_then (symbol_bytes rd mid) (\<lambda>hay.
               case bytes_cmp hay needle of
                 Less \<Rightarrow> find_symbol_loop rd needle (mid + 1) hi
               | Greater \<Rightarrow> find_symbol_loop rd needle lo mid
               | Equal \<Rightarrow> Ok (Some mid)))
      else Ok None)"
  by pat_completeness auto
termination by (relation "measure (\<lambda>(rd, needle, lo, hi). hi - lo)") auto

declare find_symbol_loop.simps [simp del]

definition find_symbol_ord :: "segment_reader \<Rightarrow> str \<Rightarrow> nat option seg_result" where
  "find_symbol_ord rd needle = find_symbol_loop rd needle 0 (rd_symbol_count rd)"

section \<open>Block index\<close>

definition block_count :: "segment_reader \<Rightarrow> i64 seg_result" where
  "block_count rd = unwrap (read_i64 (seg_file rd BLOCK_INDEX) 0)"

definition block_base :: "segment_reader \<Rightarrow> nat \<Rightarrow> nat" where
  "block_base rd idx = 16 + idx * (BLOCK_ENTRY_FIXED_SIZE + 8 * rd_words rd)"

definition block_entry_at :: "segment_reader \<Rightarrow> nat \<Rightarrow> block_view seg_result" where
  "block_entry_at rd idx =
     (let f = seg_file rd BLOCK_INDEX; base = block_base rd idx
      in and_then (map_o (\<lambda>w. unwrap (read_u64 f (base + 40 + 8 * w))) [0..<rd_words rd]) (\<lambda>tws.
         and_then (unwrap (read_i64 f base)) (\<lambda>first.
         and_then (unwrap (read_i32 f (base + 8))) (\<lambda>cnt.
         and_then (unwrap (read_i32 f (base + 12))) (\<lambda>ed.
         and_then (unwrap (read_i32 f (base + 16))) (\<lambda>rr.
         and_then (unwrap (read_i32 f (base + 20))) (\<lambda>dr.
         and_then (unwrap (read_i32 f (base + 24))) (\<lambda>dmin.
         and_then (unwrap (read_i32 f (base + 28))) (\<lambda>dmax.
         and_then (unwrap (read_i32 f (base + 32))) (\<lambda>emin.
         and_then (unwrap (read_i32 f (base + 36))) (\<lambda>emax.
           Ok \<lparr>bv_first_record = first, bv_record_count = cnt, bv_editable_count = ed,
               bv_ref_role_count = rr, bv_def_role_count = dr, bv_doc_ord_min = dmin,
               bv_doc_ord_max = dmax, bv_epoch_min = emin, bv_epoch_max = emax,
               bv_target_words = tws\<rparr>)))))))))))"

definition block_intersects :: "segment_reader \<Rightarrow> nat \<Rightarrow> u64 list \<Rightarrow> bool seg_result" where
  "block_intersects rd idx allowed_words =
     (let base = block_base rd idx + 40; f = seg_file rd BLOCK_INDEX;
          n = min (rd_words rd) (length allowed_words)
      in any_o (\<lambda>w. and_then (unwrap (read_u64 f (base + 8 * w)))
                  (\<lambda>v. Ok (v AND allowed_words ! w \<noteq> 0))) [0..<n])"

section \<open>Extension sections\<close>

definition read_str :: "byte list \<Rightarrow> nat \<Rightarrow> nat \<Rightarrow> str" where
  "read_str f ref_off blob_start =
     (let off = usize_of_i32 (case read_i32 f ref_off of Some v \<Rightarrow> v | None \<Rightarrow> 0);
          len = usize_of_i32 (case read_i32 f (ref_off + 4) of Some v \<Rightarrow> v | None \<Rightarrow> 0)
      in case get_slice f (blob_start + off) len of Some s \<Rightarrow> from_utf8_lossy s | None \<Rightarrow> [])"

definition target_meta :: "segment_reader \<Rightarrow> nat \<Rightarrow> target_meta_data seg_result" where
  "target_meta rd target_ord =
     (let f = seg_file rd TARGET_META;
          base = 16 + target_ord * TARGET_META_ENTRY_SIZE;
          blob = 16 + rd_target_count rd * TARGET_META_ENTRY_SIZE;
          s = (\<lambda>i. read_str f (base + i * 8) blob)
      in and_then (unwrap (read_i64 f (base + 32))) (\<lambda>ch.
         and_then (unwrap (read_i64 f (base + 40))) (\<lambda>oh.
           Ok \<lparr>tm_bsp_id = s 0, tm_scala_version = s 1, tm_sourceroot = s 2, tm_semanticdb_root = s 3,
               tm_content_hash = ch, tm_options_hash = oh\<rparr>)))"

definition symbol_meta :: "segment_reader \<Rightarrow> nat \<Rightarrow> symbol_meta_data seg_result" where
  "symbol_meta rd symbol_ord =
     (let f = seg_file rd SYMBOL_META;
          base = 16 + symbol_ord * SYMBOL_META_ENTRY_SIZE;
          blob = 16 + rd_symbol_count rd * SYMBOL_META_ENTRY_SIZE;
          s = (\<lambda>i. read_str f (base + i * 8) blob)
      in and_then (unwrap (read_i32 f (base + 24))) (\<lambda>kind.
         and_then (unwrap (read_u32 f (base + 28))) (\<lambda>props.
         and_then (unwrap (read_i32 f (base + 32))) (\<lambda>dps.
         and_then (unwrap (read_i32 f (base + 36))) (\<lambda>dpe.
         and_then (unwrap (read_i32 f (base + 40))) (\<lambda>ddo.
           Ok \<lparr>sm_display = s 0, sm_owner = s 1, sm_package_name = s 2, sm_kind = kind,
               sm_properties = props, sm_def_packed_start = dps, sm_def_packed_end = dpe,
               sm_def_doc_ord = ddo\<rparr>))))))"

definition search_row_count :: "segment_reader \<Rightarrow> i64 seg_result" where
  "search_row_count rd = unwrap (read_i64 (seg_file rd SEARCH) 0)"

definition search_row :: "segment_reader \<Rightarrow> nat \<Rightarrow> (str \<times> i32) seg_result" where
  "search_row rd idx =
     (let f = seg_file rd SEARCH; base = 16 + idx * 16
      in and_then (search_row_count rd) (\<lambda>n.
         and_then (unwrap (read_i32 f (base + 8))) (\<lambda>sym.
           Ok (read_str f base (16 + usize_of_i64 n * 16), sym))))"

section \<open>Scans\<close>

definition keep_record ::
  "segment_reader \<Rightarrow> target_bitset option \<Rightarrow> bool \<Rightarrow> group_rec \<Rightarrow> bool seg_result" where
  "keep_record rd allowed require_editable rec =
     (if (case allowed of None \<Rightarrow> False
          | Some a \<Rightarrow> sint (gr_target_ord rec) < 0 \<or> \<not> contains_ord a (gr_target_ord rec))
      then Ok False
      else and_then (index_o (rd_doc_epochs rd) (usize_of_i32 (gr_doc_ord rec))) (\<lambda>epoch.
        if gr_doc_epoch rec \<noteq> epoch then Ok False
        else if require_editable \<and> \<not> has (gr_flags rec) EDITABLE then Ok False
        else Ok True))"

definition scan_block_records ::
  "segment_reader \<Rightarrow> byte list \<Rightarrow> target_bitset option \<Rightarrow> bool \<Rightarrow> int \<Rightarrow> int \<Rightarrow> group_rec list
     \<Rightarrow> group_rec list seg_result" where
  "scan_block_records rd f allowed require_editable first cnt out =
     fold_o (\<lambda>k acc. and_then (group_record f (first + int k)) (\<lambda>rec.
         and_then (keep_record rd allowed require_editable rec) (\<lambda>keep.
           Ok (if keep then acc @ [rec] else acc))))
       [0..<nat cnt] out"

definition scan_block ::
  "segment_reader \<Rightarrow> nat \<Rightarrow> group_index_view \<Rightarrow> target_bitset option \<Rightarrow> bool \<Rightarrow> nat \<Rightarrow> group_rec list
     \<Rightarrow> group_rec list seg_result" where
  "scan_block rd postings entry allowed require_editable b out =
     (let block_idx = as_usize (sint (gv_block_index_offset entry) + int b)
      in and_then (case allowed of None \<Rightarrow> Ok True | Some a \<Rightarrow> block_intersects rd block_idx (words a))
         (\<lambda>hit. if \<not> hit then Ok out
           else
             let base = block_base rd block_idx; f = seg_file rd BLOCK_INDEX
             in and_then (unwrap (read_i32 f (base + 12))) (\<lambda>editable.
                if require_editable \<and> editable = 0 then Ok out
                else and_then (unwrap (read_i64 f base)) (\<lambda>first.
                     and_then (unwrap (read_i32 f (base + 8))) (\<lambda>cnt.
                       scan_block_records rd (seg_file rd postings) allowed require_editable
                         (sint first) (sint cnt) out)))))"

definition scan_group ::
  "segment_reader \<Rightarrow> nat \<Rightarrow> group_index_view \<Rightarrow> target_bitset option \<Rightarrow> bool \<Rightarrow> group_rec list seg_result" where
  "scan_group rd postings entry allowed require_editable =
     (if gv_count entry = 0 then Ok []
      else
        let num_blocks = (sint (gv_count entry) + int BLOCK_SIZE - 1) div int BLOCK_SIZE
        in fold_o (scan_block rd postings entry allowed require_editable) [0..<nat num_blocks] [])"

definition scan_ref_group :: "segment_reader \<Rightarrow> nat \<Rightarrow> target_bitset option \<Rightarrow> group_rec list seg_result" where
  "scan_ref_group rd group_ord allowed =
     and_then (ref_group rd group_ord) (\<lambda>entry. scan_group rd REF_POSTINGS entry allowed False)"

definition scan_def_group :: "segment_reader \<Rightarrow> nat \<Rightarrow> group_rec list seg_result" where
  "scan_def_group rd group_ord =
     and_then (def_group rd group_ord) (\<lambda>entry. scan_group rd DEF_POSTINGS entry None False)"

definition scan_rename_group :: "segment_reader \<Rightarrow> nat \<Rightarrow> group_rec list seg_result" where
  "scan_rename_group rd group_ord =
     and_then (rename_group rd group_ord) (\<lambda>entry. scan_group rd RENAME_POSTINGS entry None True)"

definition scan_doc :: "segment_reader \<Rightarrow> nat \<Rightarrow> bool \<Rightarrow> doc_rec list seg_result" where
  "scan_doc rd doc_ord require_editable =
     and_then (doc_entry rd doc_ord) (\<lambda>entry.
       fold_o (\<lambda>k acc. and_then (doc_record rd (sint (dv_postings_offset entry) + int k)) (\<lambda>rec.
           Ok (if require_editable \<and> \<not> has (dc_flags rec) EDITABLE then acc else acc @ [rec])))
         [0..<nat (sint (dv_postings_count entry))] [])"

section \<open>Symbol at a position\<close>

text \<open>\<open>best\<close> is \<open>(packed_start, packed_end, symbol, flags)\<close>.\<close>
type_synonym best_hit = "(u32 \<times> u32 \<times> i32 \<times> i32) option"

definition better :: "u32 \<Rightarrow> best_hit \<Rightarrow> bool" where
  "better sz best = (case best of None \<Rightarrow> True | Some (bs, be, _, _) \<Rightarrow> sz < be - bs)"

definition symbol_at_record ::
  "byte list \<Rightarrow> int \<Rightarrow> u32 \<Rightarrow> int \<Rightarrow> best_hit \<Rightarrow> (best_hit \<times> bool) seg_result" where
  "symbol_at_record dp n query r best =
     and_then (unwrap (read_u32 dp (as_usize (8 + 4 * n + 4 * r)))) (\<lambda>ps.
       if ps > query then Ok (best, True)
       else and_then (unwrap (read_u32 dp (as_usize (8 + 8 * n + 4 * r)))) (\<lambda>pe.
         if pe \<ge> query \<and> better (pe - ps) best
         then and_then (unwrap (read_i32 dp (as_usize (8 + 4 * r)))) (\<lambda>sym.
              and_then (unwrap (read_i32 dp (as_usize (8 + 12 * n + 4 * r)))) (\<lambda>flags.
                Ok (Some (ps, pe, sym, flags), False)))
         else Ok (best, False)))"

definition symbol_at_interval ::
  "segment_reader \<Rightarrow> byte list \<Rightarrow> int \<Rightarrow> i32 \<Rightarrow> i32 \<Rightarrow> u32 \<Rightarrow> nat \<Rightarrow> best_hit \<times> u32
     \<Rightarrow> ((best_hit \<times> u32) \<times> bool) seg_result" where
  "symbol_at_interval rd dp n interval_first ln query b = (\<lambda>(best, blocks_scanned).
     let di = seg_file rd DOC_INDEX;
         ie = 24 + unat (rd_doc_count rd) * DOC_ENTRY_SIZE +
              usize_of_i32 (interval_first + word_of_nat b) * INTERVAL_ENTRY_SIZE
     in and_then (unwrap (read_i32 di ie)) (\<lambda>first_line.
        if sint first_line > sint ln then Ok ((best, blocks_scanned), True)
        else and_then (unwrap (read_i32 di (ie + 4))) (\<lambda>last_line.
          if sint last_line < sint ln then Ok ((best, blocks_scanned), False)
          else and_then (unwrap (read_i64 di (ie + 8))) (\<lambda>rec_first.
               and_then (unwrap (read_i32 di (ie + 16))) (\<lambda>rec_count.
               and_then (fold_break (\<lambda>k. symbol_at_record dp n query (sint rec_first + int k))
                           [0..<nat (sint rec_count)] best) (\<lambda>best'.
                 Ok ((best', blocks_scanned + 1), False)))))))"

definition hit_of_best :: "u32 \<Rightarrow> best_hit \<Rightarrow> occurrence_hit option" where
  "hit_of_best doc_ord best =
     map_option (\<lambda>(ps, pe, sym, flags).
       \<lparr>oh_symbol_ord = sym, oh_doc_ord = doc_ord,
        oh_span = new_span (unpack_line ps) (unpack_char ps) (unpack_line pe) (unpack_char pe),
        oh_role = (if has flags DEFINITION then Definition else Reference), oh_flags = flags\<rparr>) best"

definition symbol_at_counting :: "segment_reader \<Rightarrow> u32 \<Rightarrow> u32 \<Rightarrow> u32 \<Rightarrow> (occurrence_hit option \<times> u32) seg_result" where
  "symbol_at_counting rd doc_ord ln ch =
     (let di = seg_file rd DOC_INDEX; base = doc_entry_base (unat doc_ord)
      in and_then (unwrap (read_i32 di (base + 28))) (\<lambda>interval_first.
         and_then (unwrap (read_i32 di (base + 44))) (\<lambda>interval_count.
         if sint interval_first < 0 \<or> interval_count = 0 then Ok (None, 0)
         else
           let query = pack ln ch; dp = seg_file rd DOC_POSTINGS
           in and_then (unwrap (read_i64 dp 0)) (\<lambda>n.
              and_then (fold_break (symbol_at_interval rd dp (sint n) interval_first ln query)
                          [0..<nat (sint interval_count)] (None, 0)) (\<lambda>(best, scanned).
                Ok (hit_of_best doc_ord best, scanned))))))"

definition symbol_at :: "segment_reader \<Rightarrow> u32 \<Rightarrow> u32 \<Rightarrow> u32 \<Rightarrow> occurrence_hit option seg_result" where
  "symbol_at rd doc_ord ln ch = and_then (symbol_at_counting rd doc_ord ln ch) (\<lambda>(hit, _). Ok hit)"

end
