(* ===== verification/Segment_Open.thy ===== *)
theory Segment_Open
  imports Segment_Reader
begin

text \<open>
  Opening a segment, \<open>crates/ls-store/src/reader.rs\<close>: \<open>SegmentReader::open\<close> (lines
  133-197), the structural validation (702-1339) and its helpers (1343-1489). A
  directory is a function from file names to the result of mapping the file; the CRC32C
  routine of the \<open>crc32c\<close> crate is the parameter \<open>crc\<close>. An early return is an \<open>Err\<close>, an
  \<open>unwrap\<close> of a failed read or an index out of range a \<open>Panic\<close>. The theory ends with the
  proof that opening never panics, on any bytes.
\<close>

unbundle bit_operations_syntax

section \<open>Helpers\<close>

datatype mapped = Contents "byte list" | NotFound | IoFailure

definition map_file :: "(string \<Rightarrow> mapped) \<Rightarrow> string \<Rightarrow> byte list seg_result" where
  "map_file dir name =
     (case dir name of Contents bs \<Rightarrow> Ok bs | NotFound \<Rightarrow> Err (Truncated name) | IoFailure \<Rightarrow> Err SegmentIo)"

definition expect :: "bool \<Rightarrow> string \<Rightarrow> unit seg_result" where
  "expect c detail = (if c then Ok () else Err (Structural detail))"

definition bounded :: "i64 \<Rightarrow> nat \<Rightarrow> string \<Rightarrow> nat seg_result" where
  "bounded v mx detail =
     (if sint v < 0 \<or> unat v > mx then Err (Structural detail) else Ok (usize_of_i64 v))"

definition check_ord :: "i32 \<Rightarrow> nat \<Rightarrow> string \<Rightarrow> unit seg_result" where
  "check_ord v cnt detail =
     (if 0 \<le> sint v \<and> usize_of_i32 v < cnt then Ok () else Err (Structural detail))"

definition check_ord_opt :: "i32 \<Rightarrow> nat \<Rightarrow> string \<Rightarrow> unit seg_result" where
  "check_ord_opt v cnt detail =
     (if v = -1 \<or> (0 \<le> sint v \<and> usize_of_i32 v < cnt) then Ok () else Err (Structural detail))"

definition str_slice :: "byte list \<Rightarrow> i32 \<Rightarrow> i32 \<Rightarrow> nat \<Rightarrow> nat \<Rightarrow> string \<Rightarrow> byte list seg_result" where
  "str_slice f off len blob_start blob_len detail =
     (if sint off < 0 \<or> sint len < 0 then Err (Structural detail)
      else if usize_of_i32 off + usize_of_i32 len > blob_len then Err (Structural detail)
      else ok_or (get_slice f (blob_start + usize_of_i32 off) (usize_of_i32 len)) (Structural detail))"

definition req_i64 :: "byte list \<Rightarrow> nat \<Rightarrow> string \<Rightarrow> i64 seg_result" where
  "req_i64 b off name = ok_or (read_i64 b off) (Truncated name)"
definition req_u64 :: "byte list \<Rightarrow> nat \<Rightarrow> string \<Rightarrow> u64 seg_result" where
  "req_u64 b off name = ok_or (read_u64 b off) (Truncated name)"
definition req_i32 :: "byte list \<Rightarrow> nat \<Rightarrow> string \<Rightarrow> i32 seg_result" where
  "req_i32 b off name = ok_or (read_i32 b off) (Truncated name)"
definition req_u32 :: "byte list \<Rightarrow> nat \<Rightarrow> string \<Rightarrow> u32 seg_result" where
  "req_u32 b off name = ok_or (read_u32 b off) (Truncated name)"

text \<open>A required \<open>(offset, len)\<close> string reference at \<open>at\<close>.\<close>
definition req_str :: "byte list \<Rightarrow> nat \<Rightarrow> string \<Rightarrow> nat \<Rightarrow> nat \<Rightarrow> string \<Rightarrow> byte list seg_result" where
  "req_str f at name blob_start blob_len detail =
     and_then (req_i32 f at name) (\<lambda>off.
     and_then (req_i32 f (at + 4) name) (\<lambda>len.
       str_slice f off len blob_start blob_len detail))"

text \<open>A required and bounded count.\<close>
definition req_count :: "byte list \<Rightarrow> nat \<Rightarrow> string \<Rightarrow> string \<Rightarrow> nat seg_result" where
  "req_count f off name detail = and_then (req_i64 f off name) (\<lambda>v. bounded v (length f) detail)"

definition checked_file :: "nat \<Rightarrow> string" where
  "checked_file idx = CHECKSUMMED_FILES ! idx"

section \<open>checksums.bin\<close>

definition verify_entry ::
  "(byte list \<Rightarrow> u32) \<Rightarrow> byte list \<Rightarrow> nat \<times> string \<times> byte list \<Rightarrow> nat \<Rightarrow> nat seg_result" where
  "verify_entry crc checksums = (\<lambda>(i, expected_name, contents) off.
     and_then (req_i32 checksums off CHECKSUMS_FILE) (\<lambda>name_len.
       if sint name_len < 0 then Err ChecksumListMismatch
       else
         let name_start = off + 4; name_end = name_start + usize_of_i32 name_len
         in and_then (ok_or (get_slice checksums name_start (name_end - name_start)) (Truncated CHECKSUMS_FILE))
           (\<lambda>name. if name \<noteq> lit expected_name then Err ChecksumListMismatch
             else and_then (req_u64 checksums name_end CHECKSUMS_FILE) (\<lambda>stored.
               if ucast (crc contents) \<noteq> stored then Err (ChecksumMismatch expected_name)
               else Ok (name_end + 8)))))"

definition verify_checksums :: "(byte list \<Rightarrow> u32) \<Rightarrow> byte list \<Rightarrow> byte list list \<Rightarrow> unit seg_result" where
  "verify_checksums crc checksums mapped_files =
     and_then (req_i64 checksums 0 CHECKSUMS_FILE) (\<lambda>cnt.
       if sint cnt < 0 \<or> usize_of_i64 cnt \<noteq> length CHECKSUMMED_FILES then Err ChecksumListMismatch
       else and_then (fold_o (verify_entry crc checksums)
              (enumerate 0 (zip CHECKSUMMED_FILES mapped_files)) 8)
         (\<lambda>off. if off \<noteq> length checksums then Err ChecksumListMismatch else Ok ()))"

section \<open>Sizes\<close>

definition check_group_index :: "segment_reader \<Rightarrow> nat \<Rightarrow> nat \<Rightarrow> bool \<Rightarrow> unit seg_result" where
  "check_group_index rd idx cnt with_profiles =
     (let f = seg_file rd idx
      in and_then (req_count f 0 (checked_file idx) ''group count'') (\<lambda>declared.
         and_then (expect (declared = cnt) ''group index count'') (\<lambda>_.
           let need = 8 + cnt * GROUP_INDEX_ENTRY_SIZE
                      + (if with_profiles then cnt * RENAME_PROFILE_ENTRY_SIZE else 0)
           in expect (length f = need) ''group index size'')))"

definition check_columns :: "segment_reader \<Rightarrow> nat \<Rightarrow> nat \<Rightarrow> nat seg_result" where
  "check_columns rd idx columns =
     (let f = seg_file rd idx
      in and_then (req_count f 0 (checked_file idx) ''record_count'') (\<lambda>n.
         and_then (expect (length f = 8 + columns * 4 * n) ''postings columns size'') (\<lambda>_. Ok n)))"

section \<open>Symbol dictionary and records\<close>

definition validate_symbol_entry ::
  "segment_reader \<Rightarrow> nat \<Rightarrow> nat \<Rightarrow> byte list option \<Rightarrow> byte list option seg_result" where
  "validate_symbol_entry rd sym_blob i prev =
     (let f = seg_file rd SYMBOL_INDEX; name = checked_file SYMBOL_INDEX;
          blob_start = 24 + rd_symbol_count rd * 32 + rd_target_count rd * 8;
          b = 24 + i * 32
      in and_then (req_str f b name blob_start sym_blob ''symbol str ref'') (\<lambda>s.
         and_then (expect (from_utf8 s \<noteq> None) ''symbol not utf-8'') (\<lambda>_.
         and_then (case prev of None \<Rightarrow> Ok () | Some p \<Rightarrow> expect (p < s) ''symbols not strictly sorted'') (\<lambda>_.
         and_then (req_i32 f (b + 16) name) (\<lambda>rg.
         and_then (check_ord_opt rg (unat (rd_ref_group_count rd)) ''ref_group_ord'') (\<lambda>_.
         and_then (req_i32 f (b + 20) name) (\<lambda>rn.
         and_then (check_ord_opt rn (unat (rd_rename_group_count rd)) ''rename_group_ord'') (\<lambda>_.
         and_then (req_i32 f (b + 24) name) (\<lambda>dt.
         and_then (check_ord_opt dt (rd_target_count rd) ''def_target_ord'') (\<lambda>_.
           Ok (Some s)))))))))))"

definition validate_symbol_dict :: "segment_reader \<Rightarrow> nat \<Rightarrow> unit seg_result" where
  "validate_symbol_dict rd sym_blob =
     and_then (fold_o (validate_symbol_entry rd sym_blob) [0..<rd_symbol_count rd] None) (\<lambda>_. Ok ())"

definition validate_group_records :: "segment_reader \<Rightarrow> nat \<Rightarrow> nat \<Rightarrow> unit seg_result" where
  "validate_group_records rd idx recs =
     (let f = seg_file rd idx; name = checked_file idx;
          doc_col = 8; target_col = 8 + 2 * 4 * recs; start_col = 8 + 3 * 4 * recs; end_col = 8 + 4 * 4 * recs
      in for_each (\<lambda>r.
           and_then (req_i32 f (doc_col + 4 * r) name) (\<lambda>d.
           and_then (check_ord d (unat (rd_doc_count rd)) ''group doc_ord'') (\<lambda>_.
           and_then (req_i32 f (target_col + 4 * r) name) (\<lambda>t.
           and_then (check_ord t (rd_target_count rd) ''group target_ord'') (\<lambda>_.
           and_then (req_u32 f (start_col + 4 * r) name) (\<lambda>ps.
           and_then (req_u32 f (end_col + 4 * r) name) (\<lambda>pe.
             expect (ps \<le> pe) ''group postings inverted span''))))))) [0..<recs])"

definition validate_doc_records :: "segment_reader \<Rightarrow> nat \<Rightarrow> unit seg_result" where
  "validate_doc_records rd recs =
     (let f = seg_file rd DOC_POSTINGS; name = checked_file DOC_POSTINGS;
          start_col = 8 + 4 * recs; end_col = 8 + 8 * recs
      in for_each (\<lambda>r.
           and_then (req_i32 f (8 + 4 * r) name) (\<lambda>s.
           and_then (check_ord s (rd_symbol_count rd) ''doc symbol_ord'') (\<lambda>_.
           and_then (req_u32 f (start_col + 4 * r) name) (\<lambda>ps.
           and_then (req_u32 f (end_col + 4 * r) name) (\<lambda>pe.
             expect (ps \<le> pe) ''doc postings inverted span''))))) [0..<recs])"

section \<open>Blocks\<close>

record block_agg =
  ba_editable :: i32
  ba_ref_role :: i32
  ba_def_role :: i32
  ba_dmin :: i32
  ba_dmax :: i32
  ba_emin :: i32
  ba_emax :: i32
  ba_words :: "u64 list"

definition block_agg_init :: "nat \<Rightarrow> block_agg" where
  "block_agg_init n_words =
     \<lparr>ba_editable = 0, ba_ref_role = 0, ba_def_role = 0, ba_dmin = I32_MAX, ba_dmax = I32_MIN,
      ba_emin = I32_MAX, ba_emax = I32_MIN, ba_words = replicate n_words 0\<rparr>"

definition block_agg_step :: "byte list \<Rightarrow> int \<Rightarrow> int \<Rightarrow> block_agg \<Rightarrow> block_agg seg_result" where
  "block_agg_step pf recs r a =
     and_then (unwrap (read_i32 pf (as_usize (8 + 4 * r)))) (\<lambda>doc.
     and_then (unwrap (read_i32 pf (as_usize (8 + 4 * recs + 4 * r)))) (\<lambda>epoch.
     and_then (unwrap (read_i32 pf (as_usize (8 + 8 * recs + 4 * r)))) (\<lambda>target.
     and_then (unwrap (read_i32 pf (as_usize (8 + 20 * recs + 4 * r)))) (\<lambda>flags.
       let a1 = (if has flags EDITABLE then a\<lparr>ba_editable := ba_editable a + 1\<rparr> else a);
           a2 = (if has flags DEFINITION then a1\<lparr>ba_def_role := ba_def_role a1 + 1\<rparr>
                 else a1\<lparr>ba_ref_role := ba_ref_role a1 + 1\<rparr>);
           a3 = a2\<lparr>ba_dmin := i32_min (ba_dmin a2) doc, ba_dmax := i32_max (ba_dmax a2) doc,
                   ba_emin := i32_min (ba_emin a2) epoch, ba_emax := i32_max (ba_emax a2) epoch\<rparr>
       in and_then (set_target_bit (ba_words a3) (usize_of_i32 target)) (\<lambda>ws.
            Ok (a3\<lparr>ba_words := ws\<rparr>))))))"

definition validate_block :: "segment_reader \<Rightarrow> nat \<Rightarrow> nat \<Rightarrow> nat \<Rightarrow> nat \<Rightarrow> unit seg_result" where
  "validate_block rd blk want_first want_count postings_idx =
     (let bi = seg_file rd BLOCK_INDEX; name = checked_file BLOCK_INDEX; base = block_base rd blk;
          pf = seg_file rd postings_idx
      in and_then (req_i64 bi base name) (\<lambda>first.
         and_then (expect (unat first = want_first) ''block first_record'') (\<lambda>_.
         and_then (req_i32 bi (base + 8) name) (\<lambda>rc.
         and_then (expect (0 \<le> sint rc \<and> usize_of_i32 rc = want_count) ''block record_count'') (\<lambda>_.
         and_then (unwrap (read_i64 pf 0)) (\<lambda>recs.
         and_then (fold_o (\<lambda>k. block_agg_step pf (sint recs) (int want_first + int k)) [0..<want_count]
                     (block_agg_init (rd_words rd))) (\<lambda>a.
         and_then (req_i32 bi (base + 12) name) (\<lambda>v.
         and_then (expect (v = ba_editable a) ''block editable_count'') (\<lambda>_.
         and_then (req_i32 bi (base + 16) name) (\<lambda>v.
         and_then (expect (v = ba_ref_role a) ''block ref_role_count'') (\<lambda>_.
         and_then (req_i32 bi (base + 20) name) (\<lambda>v.
         and_then (expect (v = ba_def_role a) ''block def_role_count'') (\<lambda>_.
         and_then (req_i32 bi (base + 24) name) (\<lambda>v.
         and_then (expect (v = ba_dmin a) ''block doc_ord_min'') (\<lambda>_.
         and_then (req_i32 bi (base + 28) name) (\<lambda>v.
         and_then (expect (v = ba_dmax a) ''block doc_ord_max'') (\<lambda>_.
         and_then (req_i32 bi (base + 32) name) (\<lambda>v.
         and_then (expect (v = ba_emin a) ''block epoch_min'') (\<lambda>_.
         and_then (req_i32 bi (base + 36) name) (\<lambda>v.
         and_then (expect (v = ba_emax a) ''block epoch_max'') (\<lambda>_.
           for_each (\<lambda>(w, word). and_then (req_u64 bi (base + 40 + 8 * w) name) (\<lambda>v.
               expect (v = word) ''block target_words'')) (enumerate 0 (ba_words a)))))))))))))))))))))))"

section \<open>Role groups\<close>

text \<open>Records \<open>[acc, acc + cnt)\<close> of a postings file are in \<open>(doc_ord, packed_start,
  packed_end)\<close> order.\<close>
definition check_group_sorted :: "byte list \<Rightarrow> string \<Rightarrow> nat \<Rightarrow> nat \<Rightarrow> nat \<Rightarrow> unit seg_result" where
  "check_group_sorted pf pname postings_recs acc cnt =
     (let start_col = 8 + 3 * 4 * postings_recs; end_col = 8 + 4 * 4 * postings_recs
      in and_then (fold_o (\<lambda>r prev.
           and_then (req_i32 pf (8 + 4 * r) pname) (\<lambda>d.
           and_then (req_u32 pf (start_col + 4 * r) pname) (\<lambda>ps.
           and_then (req_u32 pf (end_col + 4 * r) pname) (\<lambda>pe.
             let key = (sint d, ps, pe)
             in and_then (case prev of None \<Rightarrow> Ok () | Some p \<Rightarrow> expect (p \<le> key) ''group postings not sorted'')
                  (\<lambda>_. Ok (Some key)))))) [acc..<acc + cnt] None) (\<lambda>_. Ok ()))"

definition validate_role_group ::
  "segment_reader \<Rightarrow> nat \<Rightarrow> nat \<Rightarrow> nat \<Rightarrow> nat \<Rightarrow> nat \<Rightarrow> nat \<times> nat \<Rightarrow> (nat \<times> nat) seg_result" where
  "validate_role_group rd gi_idx postings_recs postings_idx blk_count g = (\<lambda>(acc, block_cursor).
     let gi = seg_file rd gi_idx; name = checked_file gi_idx; b = 8 + g * 16
     in and_then (req_i64 gi b name) (\<lambda>offset.
        and_then (expect (0 \<le> sint offset \<and> unat offset = acc) ''group offset tiling'') (\<lambda>_.
        and_then (req_i32 gi (b + 8) name) (\<lambda>cnt32.
        and_then (expect (0 \<le> sint cnt32) ''group count sign'') (\<lambda>_.
        let cnt = usize_of_i32 cnt32
        in and_then (expect (acc + cnt \<le> postings_recs) ''group range'') (\<lambda>_.
           and_then (req_i32 gi (b + 12) name) (\<lambda>block_off.
           if cnt = 0
           then and_then (expect (block_off = -1) ''empty group block_index_offset'') (\<lambda>_.
                Ok (acc + cnt, block_cursor))
           else
             and_then (check_group_sorted (seg_file rd postings_idx) (checked_file postings_idx)
                         postings_recs acc cnt) (\<lambda>_.
             and_then (expect (0 \<le> sint block_off \<and> usize_of_i32 block_off = block_cursor)
                         ''group block_index_offset'') (\<lambda>_.
             let num_blocks = div_ceil cnt 256
             in and_then (for_each (\<lambda>k.
                  and_then (expect (block_cursor + k < blk_count) ''block index range'') (\<lambda>_.
                    validate_block rd (block_cursor + k) (acc + k * 256) (min (cnt - k * 256) 256) postings_idx))
                  [0..<num_blocks]) (\<lambda>_.
                Ok (acc + cnt, block_cursor + num_blocks)))))))))))"

definition validate_role_groups ::
  "segment_reader \<Rightarrow> nat \<Rightarrow> nat \<Rightarrow> nat \<Rightarrow> nat \<Rightarrow> nat \<Rightarrow> nat \<Rightarrow> nat seg_result" where
  "validate_role_groups rd gi_idx group_count postings_recs postings_idx block_cursor blk_count =
     and_then (fold_o (validate_role_group rd gi_idx postings_recs postings_idx blk_count)
                 [0..<group_count] (0, block_cursor)) (\<lambda>(acc, cursor).
     and_then (expect (acc = postings_recs) ''group tiling total'') (\<lambda>_. Ok cursor))"

section \<open>Documents\<close>

definition check_doc_sorted :: "byte list \<Rightarrow> nat \<Rightarrow> nat \<Rightarrow> nat \<Rightarrow> unit seg_result" where
  "check_doc_sorted dp doc_recs post_acc post_count =
     (let start_col = 8 + 4 * doc_recs; end_col = 8 + 8 * doc_recs; name = checked_file DOC_POSTINGS
      in and_then (fold_o (\<lambda>r prev.
           and_then (req_u32 dp (start_col + 4 * r) name) (\<lambda>ps.
           and_then (req_u32 dp (end_col + 4 * r) name) (\<lambda>pe.
             and_then (case prev of None \<Rightarrow> Ok () | Some p \<Rightarrow> expect (p \<le> (ps, pe)) ''doc postings not sorted'')
               (\<lambda>_. Ok (Some (ps, pe)))))) [post_acc..<post_acc + post_count] None) (\<lambda>_. Ok ()))"

definition validate_interval ::
  "segment_reader \<Rightarrow> nat \<Rightarrow> nat \<Rightarrow> nat \<Rightarrow> nat \<Rightarrow> nat \<Rightarrow> nat \<Rightarrow> nat \<Rightarrow> unit seg_result" where
  "validate_interval rd interval_base interval_count doc_recs post_acc post_count iv_cursor k =
     (let di = seg_file rd DOC_INDEX; name = checked_file DOC_INDEX;
          dp = seg_file rd DOC_POSTINGS; dp_name = checked_file DOC_POSTINGS;
          start_col = 8 + 4 * doc_recs; end_col = 8 + 8 * doc_recs;
          ib = interval_base + (iv_cursor + k) * 24;
          iv_off = post_acc + k * 256; iv_cnt = min (post_count - k * 256) 256
      in and_then (expect (iv_cursor + k < interval_count) ''interval index range'') (\<lambda>_.
         and_then (req_i64 di (ib + 8) name) (\<lambda>v.
         and_then (expect (unat v = iv_off) ''interval offset'') (\<lambda>_.
         and_then (req_i32 di (ib + 16) name) (\<lambda>v.
         and_then (expect (usize_of_i32 v = iv_cnt) ''interval count'') (\<lambda>_.
         and_then (req_u32 dp (start_col + 4 * iv_off) dp_name) (\<lambda>ps0.
         and_then (fold_o (\<lambda>j last. and_then (req_u32 dp (end_col + 4 * (iv_off + j)) dp_name) (\<lambda>pe.
                      Ok (max last (unpack_line pe)))) [0..<iv_cnt] 0) (\<lambda>last_line.
         and_then (req_i32 di ib name) (\<lambda>v.
         and_then (expect (v = unpack_line ps0) ''interval first_line'') (\<lambda>_.
         and_then (req_i32 di (ib + 4) name) (\<lambda>v.
           expect (v = last_line) ''interval last_line'')))))))))))"

definition validate_doc_entry ::
  "segment_reader \<Rightarrow> nat \<Rightarrow> nat \<Rightarrow> nat \<Rightarrow> nat \<Rightarrow> nat \<Rightarrow> nat \<times> nat \<Rightarrow> (nat \<times> nat) seg_result" where
  "validate_doc_entry rd n_docs interval_count uri_blob doc_recs d = (\<lambda>(post_acc, iv_cursor).
     let di = seg_file rd DOC_INDEX; name = checked_file DOC_INDEX;
         interval_base = 24 + n_docs * 48; blob_start = interval_base + interval_count * 24;
         b = 24 + d * 48
     in and_then (req_str di b name blob_start uri_blob ''uri str ref'') (\<lambda>uri.
        and_then (expect (from_utf8 uri \<noteq> None) ''uri not utf-8'') (\<lambda>_.
        and_then (req_i32 di (b + 20) name) (\<lambda>t.
        and_then (check_ord t (rd_target_count rd) ''doc target_ord'') (\<lambda>_.
        and_then (req_i32 di (b + 28) name) (\<lambda>interval_first.
        and_then (req_i64 di (b + 32) name) (\<lambda>post_off.
        and_then (expect (0 \<le> sint post_off \<and> unat post_off = post_acc) ''doc postings tiling'') (\<lambda>_.
        and_then (req_i32 di (b + 40) name) (\<lambda>post_count32.
        and_then (expect (0 \<le> sint post_count32) ''doc postings_count sign'') (\<lambda>_.
        let post_count = usize_of_i32 post_count32
        in and_then (expect (post_acc + post_count \<le> doc_recs) ''doc postings range'') (\<lambda>_.
           and_then (req_i32 di (b + 44) name) (\<lambda>iv_count.
           if post_count = 0
           then and_then (expect (interval_first = -1 \<and> iv_count = 0) ''empty doc interval ptr'') (\<lambda>_.
                Ok (post_acc + post_count, iv_cursor))
           else
             and_then (expect (0 \<le> sint interval_first \<and> usize_of_i32 interval_first = iv_cursor)
                         ''doc interval_first'') (\<lambda>_.
             and_then (check_doc_sorted (seg_file rd DOC_POSTINGS) doc_recs post_acc post_count) (\<lambda>_.
             let want_iv = div_ceil post_count 256
             in and_then (expect (0 \<le> sint iv_count \<and> usize_of_i32 iv_count = want_iv)
                            ''doc interval_count'') (\<lambda>_.
                and_then (for_each (validate_interval rd interval_base interval_count doc_recs
                            post_acc post_count iv_cursor) [0..<want_iv]) (\<lambda>_.
                  Ok (post_acc + post_count, iv_cursor + want_iv)))))))))))))))))"

definition validate_doc_index :: "segment_reader \<Rightarrow> nat \<Rightarrow> nat \<Rightarrow> nat \<Rightarrow> nat \<Rightarrow> unit seg_result" where
  "validate_doc_index rd n_docs interval_count uri_blob doc_recs =
     and_then (fold_o (validate_doc_entry rd n_docs interval_count uri_blob doc_recs)
                 [0..<n_docs] (0, 0)) (\<lambda>(post_acc, iv_cursor).
     and_then (expect (post_acc = doc_recs) ''doc postings total'') (\<lambda>_.
       expect (iv_cursor = interval_count) ''interval total''))"

section \<open>Metadata and search rows\<close>

definition validate_target_metas :: "segment_reader \<Rightarrow> nat \<Rightarrow> nat \<Rightarrow> unit seg_result" where
  "validate_target_metas rd tmc tmb =
     for_each (\<lambda>i. for_each (\<lambda>k.
         and_then (req_str (seg_file rd TARGET_META) (16 + i * 48 + k * 8) (checked_file TARGET_META)
                     (16 + tmc * 48) tmb ''target-meta str ref'') (\<lambda>_. Ok ())) [0..<4]) [0..<tmc]"

definition validate_symbol_metas :: "segment_reader \<Rightarrow> nat \<Rightarrow> nat \<Rightarrow> unit seg_result" where
  "validate_symbol_metas rd smc smb =
     for_each (\<lambda>i.
       and_then (for_each (\<lambda>k.
           and_then (req_str (seg_file rd SYMBOL_META) (16 + i * 48 + k * 8) (checked_file SYMBOL_META)
                       (16 + smc * 48) smb ''symbol-meta str ref'') (\<lambda>_. Ok ())) [0..<3]) (\<lambda>_.
       and_then (req_i32 (seg_file rd SYMBOL_META) (16 + i * 48 + 40) (checked_file SYMBOL_META)) (\<lambda>v.
         check_ord_opt v (unat (rd_doc_count rd)) ''symbol-meta def_doc_ord''))) [0..<smc]"

definition validate_search_row ::
  "segment_reader \<Rightarrow> nat \<Rightarrow> nat \<Rightarrow> nat \<Rightarrow> byte list option \<Rightarrow> byte list option seg_result" where
  "validate_search_row rd src srb i prev =
     (let se = seg_file rd SEARCH; name = checked_file SEARCH; base = 16 + i * 16
      in and_then (req_str se base name (16 + src * 16) srb ''search name ref'') (\<lambda>nm.
         and_then (case prev of None \<Rightarrow> Ok () | Some p \<Rightarrow> expect (p \<le> nm) ''search rows not sorted'') (\<lambda>_.
         and_then (req_i32 se (base + 8) name) (\<lambda>v.
         and_then (check_ord v (rd_symbol_count rd) ''search symbol_ord'') (\<lambda>_. Ok (Some nm))))))"

definition validate_meta_and_search ::
  "segment_reader \<Rightarrow> nat \<Rightarrow> nat \<Rightarrow> nat \<Rightarrow> nat \<Rightarrow> nat \<Rightarrow> nat \<Rightarrow> unit seg_result" where
  "validate_meta_and_search rd tmc tmb smc smb src srb =
     and_then (validate_target_metas rd tmc tmb) (\<lambda>_.
     and_then (validate_symbol_metas rd smc smb) (\<lambda>_.
     and_then (fold_o (validate_search_row rd src srb) [0..<src] None) (\<lambda>_. Ok ())))"

section \<open>validate_structure\<close>

text \<open>The first half of \<open>validate_structure\<close> (lines 710-830) bounds every declared count
  and checks every file size; it yields the counts the second half uses.\<close>

record segment_sizes =
  sz_sym_blob :: nat
  sz_ref_recs :: nat
  sz_def_recs :: nat
  sz_rename_recs :: nat
  sz_doc_recs :: nat
  sz_dc :: nat
  sz_ic :: nat
  sz_ub :: nat
  sz_bc :: nat
  sz_tmc :: nat
  sz_tmb :: nat
  sz_smc :: nat
  sz_smb :: nat
  sz_src :: nat
  sz_srb :: nat

definition check_symbol_index :: "segment_reader \<Rightarrow> (nat \<times> nat \<times> nat) seg_result" where
  "check_symbol_index rd =
     (let sym = seg_file rd SYMBOL_INDEX; name = checked_file SYMBOL_INDEX
      in and_then (req_count sym 0 name ''symbol_count'') (\<lambda>n_symbols.
         and_then (req_count sym 8 name ''target_count'') (\<lambda>n_targets.
         and_then (req_count sym 16 name ''sym_blob_len'') (\<lambda>sym_blob.
         and_then (expect (length sym = 24 + n_symbols * 32 + n_targets * 8 + sym_blob) ''symbol-index size'')
           (\<lambda>_. Ok (n_symbols, n_targets, sym_blob))))))"

definition check_doc_index_size :: "segment_reader \<Rightarrow> (nat \<times> nat \<times> nat) seg_result" where
  "check_doc_index_size rd =
     (let di = seg_file rd DOC_INDEX; name = checked_file DOC_INDEX
      in and_then (req_count di 0 name ''doc_count'') (\<lambda>dc.
         and_then (req_count di 8 name ''interval_count'') (\<lambda>ic.
         and_then (req_count di 16 name ''uri_blob_len'') (\<lambda>ub.
         and_then (expect (dc = unat (rd_doc_count rd)) ''doc-index doc_count'') (\<lambda>_.
         and_then (expect (length di = 24 + dc * 48 + ic * 24 + ub) ''doc-index size'')
           (\<lambda>_. Ok (dc, ic, ub)))))))"

definition check_block_index_size :: "segment_reader \<Rightarrow> nat seg_result" where
  "check_block_index_size rd =
     (let bi = seg_file rd BLOCK_INDEX; name = checked_file BLOCK_INDEX
      in and_then (req_count bi 0 name ''block_count'') (\<lambda>bc.
         and_then (req_i32 bi 8 name) (\<lambda>w.
         and_then (expect (sint w = int (rd_words rd)) ''block target_word_count'') (\<lambda>_.
         and_then (req_i32 bi 12 name) (\<lambda>bs.
         and_then (expect (bs = of_nat BLOCK_SIZE) ''block_size'') (\<lambda>_.
         and_then (expect (length bi = 16 + bc * (40 + 8 * rd_words rd)) ''block-index size'')
           (\<lambda>_. Ok bc)))))))"

text \<open>The three extension sections: a header (\<open>count\<close>, \<open>blob length\<close>) followed by rows of one
  size and the blob. \<open>pre\<close> and \<open>what\<close> are the words of the error details.\<close>
definition check_table ::
  "segment_reader \<Rightarrow> nat \<Rightarrow> nat \<Rightarrow> nat option \<Rightarrow> string \<Rightarrow> string \<Rightarrow> (nat \<times> nat) seg_result" where
  "check_table rd idx row want pre what =
     (let f = seg_file rd idx; name = checked_file idx
      in and_then (req_count f 0 name (pre @ what)) (\<lambda>n.
         and_then (req_count f 8 name (pre @ '' blob'')) (\<lambda>blob.
         and_then (case want of None \<Rightarrow> Ok () | Some w \<Rightarrow> expect (n = w) (pre @ '' count match'')) (\<lambda>_.
         and_then (expect (length f = 16 + n * row + blob) (pre @ '' size'')) (\<lambda>_. Ok (n, blob))))))"

definition check_sizes :: "segment_reader \<Rightarrow> (segment_reader \<times> segment_sizes) seg_result" where
  "check_sizes rd0 =
     and_then (check_symbol_index rd0) (\<lambda>(n_symbols, n_targets, sym_blob).
     let rd = rd0\<lparr>rd_symbol_count := n_symbols, rd_target_count := n_targets,
                  rd_words := target_word_count n_targets\<rparr>;
         n_ref = unat (rd_ref_group_count rd); n_rename = unat (rd_rename_group_count rd)
     in and_then (check_columns rd REF_POSTINGS 6) (\<lambda>ref_recs.
        and_then (check_columns rd DEF_POSTINGS 6) (\<lambda>def_recs.
        and_then (check_columns rd RENAME_POSTINGS 6) (\<lambda>rename_recs.
        and_then (check_columns rd DOC_POSTINGS 4) (\<lambda>doc_recs.
        and_then (expect (ref_recs + def_recs + rename_recs + doc_recs = unat (rd_occurrence_count rd))
                    ''occurrence_count sum'') (\<lambda>_.
        and_then (check_group_index rd REF_GROUP_INDEX n_ref False) (\<lambda>_.
        and_then (check_group_index rd DEF_GROUP_INDEX n_ref False) (\<lambda>_.
        and_then (check_group_index rd RENAME_GROUP_INDEX n_rename True) (\<lambda>_.
        and_then (check_doc_index_size rd) (\<lambda>(dc, ic, ub).
        and_then (check_block_index_size rd) (\<lambda>bc.
        and_then (check_table rd TARGET_META 48 (Some n_targets) ''target-meta'' '' count'') (\<lambda>(tmc, tmb).
        and_then (check_table rd SYMBOL_META 48 (Some n_symbols) ''symbol-meta'' '' count'') (\<lambda>(smc, smb).
        and_then (check_table rd SEARCH 16 None ''search'' '' rows'') (\<lambda>(src, srb).
          Ok (rd, \<lparr>sz_sym_blob = sym_blob, sz_ref_recs = ref_recs, sz_def_recs = def_recs,
                   sz_rename_recs = rename_recs, sz_doc_recs = doc_recs, sz_dc = dc, sz_ic = ic,
                   sz_ub = ub, sz_bc = bc, sz_tmc = tmc, sz_tmb = tmb, sz_smc = smc, sz_smb = smb,
                   sz_src = src, sz_srb = srb\<rparr>)))))))))))))))"

definition deep_validate :: "segment_reader \<Rightarrow> segment_sizes \<Rightarrow> unit seg_result" where
  "deep_validate rd z =
     (let n_ref = unat (rd_ref_group_count rd); n_rename = unat (rd_rename_group_count rd)
      in and_then (validate_symbol_dict rd (sz_sym_blob z)) (\<lambda>_.
         and_then (validate_group_records rd REF_POSTINGS (sz_ref_recs z)) (\<lambda>_.
         and_then (validate_group_records rd DEF_POSTINGS (sz_def_recs z)) (\<lambda>_.
         and_then (validate_group_records rd RENAME_POSTINGS (sz_rename_recs z)) (\<lambda>_.
         and_then (validate_doc_records rd (sz_doc_recs z)) (\<lambda>_.
         and_then (validate_role_groups rd REF_GROUP_INDEX n_ref (sz_ref_recs z) REF_POSTINGS 0 (sz_bc z)) (\<lambda>c1.
         and_then (validate_role_groups rd DEF_GROUP_INDEX n_ref (sz_def_recs z) DEF_POSTINGS c1 (sz_bc z)) (\<lambda>c2.
         and_then (validate_role_groups rd RENAME_GROUP_INDEX n_rename (sz_rename_recs z) RENAME_POSTINGS c2
                     (sz_bc z)) (\<lambda>c3.
         and_then (expect (c3 = sz_bc z) ''block_count total'') (\<lambda>_.
         and_then (validate_doc_index rd (sz_dc z) (sz_ic z) (sz_ub z) (sz_doc_recs z)) (\<lambda>_.
           validate_meta_and_search rd (sz_tmc z) (sz_tmb z) (sz_smc z) (sz_smb z) (sz_src z) (sz_srb z))))))))))))"

definition validate_structure :: "segment_reader \<Rightarrow> segment_reader seg_result" where
  "validate_structure rd0 =
     and_then (check_sizes rd0) (\<lambda>(rd, z).
     and_then (deep_validate rd z) (\<lambda>_.
     and_then (map_o (\<lambda>d. epoch_of rd d) [0..<unat (rd_doc_count rd)]) (\<lambda>epochs.
       Ok (rd\<lparr>rd_doc_epochs := epochs\<rparr>))))"

section \<open>open\<close>

definition header_count :: "byte list \<Rightarrow> nat \<Rightarrow> string \<Rightarrow> u32 seg_result" where
  "header_count header off what =
     and_then (unwrap (read_u64 header off)) (\<lambda>v.
       if v \<le> 0xFFFFFFFF then Ok (ucast v) else Err (Structural (''header '' @ what @ '' exceeds u32'')))"

definition open_segment :: "(byte list \<Rightarrow> u32) \<Rightarrow> (string \<Rightarrow> mapped) \<Rightarrow> segment_reader seg_result" where
  "open_segment crc dir =
     and_then (map_o (map_file dir) CHECKSUMMED_FILES) (\<lambda>files.
     and_then (map_file dir CHECKSUMS_FILE) (\<lambda>checksums.
     and_then (index_o files HEADER) (\<lambda>header.
     if length header \<noteq> HEADER_SIZE then Err (Truncated (checked_file HEADER))
     else and_then (unwrap (read_u32 header 0)) (\<lambda>magic.
     if magic \<noteq> MAGIC then Err (BadMagic magic)
     else and_then (unwrap (read_u16 header 4)) (\<lambda>version.
     if version \<noteq> VERSION then Err (BadVersion version)
     else and_then (unwrap (read_u16 header 6)) (\<lambda>flags.
     if flags \<noteq> 0 then Err (Structural ''header flags nonzero'')
     else and_then (unwrap (read_u64 header HEADER_CHECKSUM_OFFSET)) (\<lambda>stored.
     if stored \<noteq> ucast (crc (take HEADER_CHECKSUM_OFFSET header)) then Err HeaderChecksumMismatch
     else and_then (unwrap (read_u64 header 8)) (\<lambda>segment_id.
          and_then (unwrap (read_i64 header 16)) (\<lambda>created_at_ms.
          and_then (header_count header 24 ''ref_group_count'') (\<lambda>ref_group_count.
          and_then (header_count header 32 ''rename_group_count'') (\<lambda>rename_group_count.
          and_then (header_count header 40 ''doc_count'') (\<lambda>doc_count.
          and_then (unwrap (read_u64 header 48)) (\<lambda>occurrence_count.
          and_then (verify_checksums crc checksums files) (\<lambda>_.
            validate_structure
              \<lparr>rd_files = files, rd_segment_id = segment_id, rd_created_at_ms = created_at_ms,
               rd_ref_group_count = ref_group_count, rd_rename_group_count = rename_group_count,
               rd_doc_count = doc_count, rd_occurrence_count = occurrence_count, rd_symbol_count = 0,
               rd_target_count = 0, rd_words = 0, rd_doc_epochs = []\<rparr>))))))))))))))"

section \<open>What the checks establish\<close>

named_theorems check_Ok \<open>what a successful check says\<close>
named_theorems no_panic \<open>checks that return an error instead of panicking\<close>

lemma expect_Ok [check_Ok]: "expect c d = Ok u \<longleftrightarrow> c"
  by (auto simp: expect_def)

lemma expect_no_panic [no_panic]: "expect c d \<noteq> Panic"
  by (auto simp: expect_def)

lemma bounded_Ok [check_Ok]: "bounded v mx d = Ok n \<longleftrightarrow> sint v = int n \<and> n \<le> mx"
  by (auto simp: bounded_def usize_of_i64_def sint_eq_int_iff)

lemma bounded_no_panic [no_panic]: "bounded v mx d \<noteq> Panic"
  by (auto simp: bounded_def)

lemma check_ord_Ok [check_Ok]: "check_ord v n d = Ok u \<longleftrightarrow> 0 \<le> sint v \<and> usize_of_i32 v < n"
  by (auto simp: check_ord_def)

lemma check_ord_no_panic [no_panic]: "check_ord v n d \<noteq> Panic"
  by (auto simp: check_ord_def)

lemma check_ord_opt_Ok [check_Ok]:
  "check_ord_opt v n d = Ok u \<longleftrightarrow> v = -1 \<or> 0 \<le> sint v \<and> usize_of_i32 v < n"
  by (auto simp: check_ord_opt_def)

lemma check_ord_opt_no_panic [no_panic]: "check_ord_opt v n d \<noteq> Panic"
  by (auto simp: check_ord_opt_def)

lemma req_Ok [check_Ok]:
  "req_i64 b off name = Ok v \<longleftrightarrow> read_i64 b off = Some v"
  "req_u64 b off name = Ok v64 \<longleftrightarrow> read_u64 b off = Some v64"
  "req_i32 b off name = Ok w \<longleftrightarrow> read_i32 b off = Some w"
  "req_u32 b off name = Ok w32 \<longleftrightarrow> read_u32 b off = Some w32"
  by (simp_all add: req_i64_def req_u64_def req_i32_def req_u32_def ok_or_eq_Ok)

lemma req_no_panic [no_panic]:
  "req_i64 b off name \<noteq> Panic" "req_u64 b off name \<noteq> Panic"
  "req_i32 b off name \<noteq> Panic" "req_u32 b off name \<noteq> Panic"
  by (simp_all add: req_i64_def req_u64_def req_i32_def req_u32_def)

lemma str_slice_Ok [check_Ok]:
  "str_slice f off len blob_start blob_len d = Ok s \<longleftrightarrow>
     0 \<le> sint off \<and> 0 \<le> sint len \<and> usize_of_i32 off + usize_of_i32 len \<le> blob_len \<and>
     get_slice f (blob_start + usize_of_i32 off) (usize_of_i32 len) = Some s"
  by (auto simp: str_slice_def ok_or_eq_Ok)

lemma str_slice_no_panic [no_panic]: "str_slice f off len blob_start blob_len d \<noteq> Panic"
  by (auto simp: str_slice_def)

lemma req_str_no_panic [no_panic]: "req_str f a name blob_start blob_len d \<noteq> Panic"
  by (simp add: req_str_def and_then_eq_Panic no_panic)

lemma req_str_Ok [check_Ok]:
  "req_str f a name blob_start blob_len d = Ok s \<longleftrightarrow>
     (\<exists>off len. read_i32 f a = Some off \<and> read_i32 f (a + 4) = Some len \<and>
        str_slice f off len blob_start blob_len d = Ok s)"
  by (simp add: req_str_def and_then_eq_Ok req_Ok)

lemma req_count_no_panic [no_panic]: "req_count f off name d \<noteq> Panic"
  by (simp add: req_count_def and_then_eq_Panic no_panic)

lemma req_count_Ok [check_Ok]:
  "req_count f off name d = Ok n \<longleftrightarrow>
     (\<exists>v. read_i64 f off = Some v \<and> sint v = int n) \<and> n \<le> length f"
  by (auto simp: req_count_def and_then_eq_Ok check_Ok)

lemma prev_check_no_panic [no_panic]:
  "(case prev of None \<Rightarrow> Ok () | Some p \<Rightarrow> expect (c p) d) \<noteq> Panic"
  by (auto simp: no_panic split: option.splits)

lemma check_columns_no_panic [no_panic]: "check_columns rd idx c \<noteq> Panic"
  by (simp add: check_columns_def Let_def and_then_eq_Panic no_panic)

lemma check_group_index_no_panic [no_panic]: "check_group_index rd idx n w \<noteq> Panic"
  by (simp add: check_group_index_def Let_def and_then_eq_Panic no_panic)

lemma check_table_no_panic [no_panic]: "check_table rd idx row want pre what \<noteq> Panic"
  by (auto simp add: check_table_def Let_def and_then_eq_Panic no_panic split: option.splits)

lemma check_index_no_panic [no_panic]:
  "check_symbol_index rd \<noteq> Panic" "check_doc_index_size rd \<noteq> Panic" "check_block_index_size rd \<noteq> Panic"
  by (simp_all add: check_symbol_index_def check_doc_index_size_def check_block_index_size_def Let_def
      and_then_eq_Panic no_panic)

lemma check_sizes_no_panic [no_panic]: "check_sizes rd \<noteq> Panic"
  by (auto simp add: check_sizes_def Let_def and_then_eq_Panic no_panic)

lemma validate_symbol_dict_no_panic [no_panic]: "validate_symbol_dict rd blob \<noteq> Panic"
  unfolding validate_symbol_dict_def validate_symbol_entry_def Let_def
  by (intro no_panicI) (simp_all add: no_panic)

lemma validate_group_records_no_panic [no_panic]: "validate_group_records rd idx recs \<noteq> Panic"
  unfolding validate_group_records_def Let_def
  by (rule for_each_neq_Panic) (simp add: and_then_eq_Panic no_panic)

lemma validate_doc_records_no_panic [no_panic]: "validate_doc_records rd recs \<noteq> Panic"
  unfolding validate_doc_records_def Let_def
  by (rule for_each_neq_Panic) (simp add: and_then_eq_Panic no_panic)

lemma check_group_sorted_no_panic [no_panic]: "check_group_sorted pf name recs acc cnt \<noteq> Panic"
  unfolding check_group_sorted_def Let_def
  by (intro no_panicI) (simp_all add: no_panic)

lemma validate_doc_index_no_panic [no_panic]: "validate_doc_index rd n ic ub recs \<noteq> Panic"
proof -
  have sorted: "check_doc_sorted dp recs a c \<noteq> Panic" for dp a c
    unfolding check_doc_sorted_def Let_def by (intro no_panicI) (simp_all add: no_panic)
  have interval: "validate_interval rd ib ic recs pa pc cur k \<noteq> Panic" for ib pa pc cur k
    unfolding validate_interval_def Let_def by (intro no_panicI) (simp_all add: no_panic)
  have "validate_doc_entry rd n ic ub recs d st \<noteq> Panic" for d st
    unfolding validate_doc_entry_def Let_def
    by (cases st) (auto simp: and_then_eq_Panic no_panic sorted for_each_neq_Panic[OF interval])
  then show ?thesis
    unfolding validate_doc_index_def by (intro no_panicI) (auto simp: no_panic and_then_eq_Panic)
qed

lemma validate_meta_and_search_no_panic [no_panic]: "validate_meta_and_search rd a b c d e f \<noteq> Panic"
  unfolding validate_meta_and_search_def validate_target_metas_def validate_symbol_metas_def
    validate_search_row_def Let_def
  by (intro no_panicI) (simp_all add: no_panic)

section \<open>Records of a columnar file\<close>

text \<open>Column \<open>c\<close> of record \<open>r\<close> of a postings file of \<open>n\<close> records.\<close>

definition col :: "byte list \<Rightarrow> nat \<Rightarrow> nat \<Rightarrow> nat \<Rightarrow> i32" where
  "col f n c r = the (read_i32 f (8 + c * 4 * n + 4 * r))"

definition rec_at :: "byte list \<Rightarrow> nat \<Rightarrow> nat \<Rightarrow> group_rec" where
  "rec_at f n r =
     \<lparr>gr_doc_ord = col f n 0 r, gr_doc_epoch = col f n 1 r, gr_target_ord = col f n 2 r,
      gr_packed_start = col f n 3 r, gr_packed_end = col f n 4 r, gr_flags = col f n 5 r\<rparr>"

text \<open>A postings file of \<open>n\<close> records in \<open>cols\<close> columns.\<close>
definition columns_ok :: "byte list \<Rightarrow> nat \<Rightarrow> nat \<Rightarrow> bool" where
  "columns_ok f cols n \<longleftrightarrow> length f = 8 + cols * 4 * n \<and> (\<exists>v. read_i64 f 0 = Some v \<and> sint v = int n)"

lemma check_columns_Ok: "check_columns rd idx cols = Ok n \<Longrightarrow> columns_ok (seg_file rd idx) cols n"
  by (auto simp: check_columns_def columns_ok_def Let_def and_then_eq_Ok check_Ok)

lemma read_col:
  assumes "columns_ok f cols n" and "c < cols" and "r < n"
  shows "read_i32 f (8 + c * 4 * n + 4 * r) = Some (col f n c r)"
proof -
  have "Suc c * n \<le> cols * n" using assms(2) by (intro mult_le_mono1) simp
  then have "8 + c * 4 * n + 4 * r + 4 \<le> length f"
    using assms(1,3) by (simp add: columns_ok_def)
  then show ?thesis
    using i32_codec.read_Some_iff[of f "8 + c * 4 * n + 4 * r"] by (auto simp: col_def)
qed

lemma column_at_eq:
  assumes "columns_ok f cols n" and "c < cols" and "r < n"
  shows "column_at f (int n) (int r) (int c) = Ok (col f n c r)"
proof -
  have "as_usize (8 + int c * 4 * int n + 4 * int r) = 8 + c * 4 * n + 4 * r" by (rule as_usize_eq) simp
  then show ?thesis by (simp add: column_at_def read_col[OF assms])
qed

lemma group_record_eq:
  assumes "columns_ok f 6 n" and "r < n"
  shows "group_record f (int r) = Ok (rec_at f n r)"
proof -
  from assms(1) obtain v where "read_i64 f 0 = Some v" "sint v = int n" by (auto simp: columns_ok_def)
  then show ?thesis
    using column_at_eq[OF assms(1) _ assms(2), of 0] column_at_eq[OF assms(1) _ assms(2), of 1]
      column_at_eq[OF assms(1) _ assms(2), of 2] column_at_eq[OF assms(1) _ assms(2), of 3]
      column_at_eq[OF assms(1) _ assms(2), of 4] column_at_eq[OF assms(1) _ assms(2), of 5]
    by (simp add: group_record_def rec_at_def)
qed

section \<open>Block aggregates\<close>

text \<open>One record's contribution to the aggregates of its block, as a total function.\<close>

definition add_rec :: "group_rec \<Rightarrow> block_agg \<Rightarrow> block_agg" where
  "add_rec rec a =
     \<lparr>ba_editable = ba_editable a + (if has (gr_flags rec) EDITABLE then 1 else 0),
      ba_ref_role = ba_ref_role a + (if has (gr_flags rec) DEFINITION then 0 else 1),
      ba_def_role = ba_def_role a + (if has (gr_flags rec) DEFINITION then 1 else 0),
      ba_dmin = i32_min (ba_dmin a) (gr_doc_ord rec), ba_dmax = i32_max (ba_dmax a) (gr_doc_ord rec),
      ba_emin = i32_min (ba_emin a) (gr_doc_epoch rec), ba_emax = i32_max (ba_emax a) (gr_doc_epoch rec),
      ba_words =
        (let t = usize_of_i32 (gr_target_ord rec)
         in (ba_words a)[t div 64 := ba_words a ! (t div 64) OR push_bit (t mod 64) 1])\<rparr>"

definition aggregate :: "nat \<Rightarrow> group_rec list \<Rightarrow> block_agg" where
  "aggregate n_words recs = fold add_rec recs (block_agg_init n_words)"

lemma length_words_add_rec [simp]: "length (ba_words (add_rec rec a)) = length (ba_words a)"
  by (simp add: add_rec_def Let_def)

lemma set_target_bit_Ok:
  "t div 64 < length ws \<Longrightarrow> set_target_bit ws t = Ok (ws[t div 64 := ws ! (t div 64) OR push_bit (t mod 64) 1])"
proof -
  have "t AND 63 = t mod 64" using take_bit_eq_mask[of 6 t] by (simp add: take_bit_eq_mod mask_eq_exp_minus_1)
  moreover have "drop_bit 6 t = t div 64" by (simp add: drop_bit_nat_def)
  ultimately show "t div 64 < length ws \<Longrightarrow> ?thesis" by (simp add: set_target_bit_def index_o_def)
qed

lemma block_agg_step_eq:
  assumes "columns_ok f 6 n" and "r < n"
    and "usize_of_i32 (gr_target_ord (rec_at f n r)) div 64 < length (ba_words a)"
  shows "block_agg_step f (int n) (int r) a = Ok (add_rec (rec_at f n r) a)"
proof -
  have "read_i32 f (as_usize (8 + 4 * int r)) = Some (col f n 0 r)"
    "read_i32 f (as_usize (8 + 4 * int n + 4 * int r)) = Some (col f n 1 r)"
    "read_i32 f (as_usize (8 + 8 * int n + 4 * int r)) = Some (col f n 2 r)"
    "read_i32 f (as_usize (8 + 20 * int n + 4 * int r)) = Some (col f n 5 r)"
    using read_col[OF assms(1) _ assms(2), of 0] read_col[OF assms(1) _ assms(2), of 1]
      read_col[OF assms(1) _ assms(2), of 2] read_col[OF assms(1) _ assms(2), of 5]
      as_usize_eq[of "8 + 4 * int r" "8 + 4 * r"]
      as_usize_eq[of "8 + 4 * int n + 4 * int r" "8 + 4 * n + 4 * r"]
      as_usize_eq[of "8 + 8 * int n + 4 * int r" "8 + 8 * n + 4 * r"]
      as_usize_eq[of "8 + 20 * int n + 4 * int r" "8 + 20 * n + 4 * r"]
    by simp_all
  then show ?thesis
    using assms(3) by (simp add: block_agg_step_def add_rec_def rec_at_def set_target_bit_Ok Let_def)
qed

text \<open>The recomputation of a block's aggregates never panics once its records' targets are
  in range.\<close>

lemma block_agg_loop:
  assumes "columns_ok f 6 n" and "first + cnt \<le> n"
    and "\<And>r. r < n \<Longrightarrow> usize_of_i32 (gr_target_ord (rec_at f n r)) div 64 < n_words"
  shows "fold_o (\<lambda>k. block_agg_step f (int n) (int first + int k)) [0..<cnt] (block_agg_init n_words) =
           Ok (aggregate n_words (map (rec_at f n) [first..<first + cnt]))"
proof -
  let ?P = "\<lambda>a :: block_agg. length (ba_words a) = n_words"
  let ?g = "\<lambda>k. add_rec (rec_at f n (first + k))"
  have "fold_o (\<lambda>k. block_agg_step f (int n) (int first + int k)) [0..<cnt] (block_agg_init n_words) =
          Ok (fold ?g [0..<cnt] (block_agg_init n_words)) \<and> ?P (fold ?g [0..<cnt] (block_agg_init n_words))"
  proof (rule fold_o_inv_fold)
    show "?P (block_agg_init n_words)" by (simp add: block_agg_init_def)
  next
    fix k a assume "k \<in> set [0..<cnt]" and len: "?P a"
    then have r: "first + k < n" using assms(2) by simp
    show "block_agg_step f (int n) (int first + int k) a = Ok (?g k a) \<and> ?P (?g k a)"
      using block_agg_step_eq[OF assms(1) r, of a] assms(3)[OF r] len by simp
  qed
  moreover have "map (\<lambda>k. rec_at f n (first + k)) [0..<cnt] = map (rec_at f n) [first..<first + cnt]"
    by (rule nth_equalityI) simp_all
  moreover have "fold ?g [0..<cnt] a = fold add_rec (map (\<lambda>k. rec_at f n (first + k)) [0..<cnt]) a" for a
    by (simp add: fold_map comp_def)
  ultimately show ?thesis by (simp add: aggregate_def)
qed

section \<open>Opening never panics\<close>

text \<open>What \<open>validate_group_records\<close> establishes of each record.\<close>

definition rec_ok :: "segment_reader \<Rightarrow> group_rec \<Rightarrow> bool" where
  "rec_ok rd rec \<longleftrightarrow>
     0 \<le> sint (gr_doc_ord rec) \<and> usize_of_i32 (gr_doc_ord rec) < unat (rd_doc_count rd) \<and>
     0 \<le> sint (gr_target_ord rec) \<and> usize_of_i32 (gr_target_ord rec) < rd_target_count rd \<and>
     gr_packed_start rec \<le> gr_packed_end rec"

lemma validate_group_records_Ok:
  assumes "validate_group_records rd idx n = Ok u" and "columns_ok (seg_file rd idx) 6 n" and "r < n"
  shows "rec_ok rd (rec_at (seg_file rd idx) n r)"
proof -
  from assms(1,3) obtain d t ps pe where
    "read_i32 (seg_file rd idx) (8 + 4 * r) = Some d" "0 \<le> sint d" "usize_of_i32 d < unat (rd_doc_count rd)"
    "read_i32 (seg_file rd idx) (8 + 2 * 4 * n + 4 * r) = Some t" "0 \<le> sint t" "usize_of_i32 t < rd_target_count rd"
    "read_i32 (seg_file rd idx) (8 + 3 * 4 * n + 4 * r) = Some ps"
    "read_i32 (seg_file rd idx) (8 + 4 * 4 * n + 4 * r) = Some pe" "ps \<le> pe"
    by (auto simp: validate_group_records_def Let_def for_each_Ok and_then_eq_Ok check_Ok read_u32_i32
        dest!: bspec[where x = r])
  with read_col[OF assms(2) _ assms(3), of 0] read_col[OF assms(2) _ assms(3), of 2]
    read_col[OF assms(2) _ assms(3), of 3] read_col[OF assms(2) _ assms(3), of 4]
  show ?thesis by (simp add: rec_ok_def rec_at_def)
qed

lemma rec_ok_word_bound:
  "rec_ok rd rec \<Longrightarrow> rd_words rd = target_word_count (rd_target_count rd) \<Longrightarrow>
     usize_of_i32 (gr_target_ord rec) div 64 < rd_words rd"
  by (auto simp: rec_ok_def intro: target_word_bound)

text \<open>The facts about a postings file that make its blocks safe to recompute.\<close>
definition postings_ok :: "segment_reader \<Rightarrow> nat \<Rightarrow> nat \<Rightarrow> bool" where
  "postings_ok rd idx n \<longleftrightarrow>
     columns_ok (seg_file rd idx) 6 n \<and> (\<forall>r < n. rec_ok rd (rec_at (seg_file rd idx) n r)) \<and>
     rd_words rd = target_word_count (rd_target_count rd)"

lemma validate_block_loop:
  assumes "postings_ok rd idx n" and "first + cnt \<le> n" and "read_i64 (seg_file rd idx) 0 = Some v"
  shows "fold_o (\<lambda>k. block_agg_step (seg_file rd idx) (sint v) (int first + int k)) [0..<cnt]
             (block_agg_init (rd_words rd)) =
           Ok (aggregate (rd_words rd) (map (rec_at (seg_file rd idx) n) [first..<first + cnt]))"
proof -
  have "sint v = int n" using assms(1,3) by (auto simp: postings_ok_def columns_ok_def)
  moreover have "usize_of_i32 (gr_target_ord (rec_at (seg_file rd idx) n r)) div 64 < rd_words rd" if "r < n" for r
    using assms(1) that rec_ok_word_bound by (auto simp: postings_ok_def)
  ultimately show ?thesis
    using block_agg_loop[of "seg_file rd idx" n first cnt "rd_words rd"] assms by (simp add: postings_ok_def)
qed

lemma validate_block_no_panic:
  assumes "postings_ok rd idx n" and "first + cnt \<le> n"
  shows "validate_block rd b first cnt idx \<noteq> Panic"
proof -
  obtain v where v: "read_i64 (seg_file rd idx) 0 = Some v"
    using assms(1) by (auto simp: postings_ok_def columns_ok_def)
  have words: "for_each (\<lambda>(w, word). and_then (req_u64 bi (base + 40 + 8 * w) name) (\<lambda>v.
      expect (v = word) d)) xs \<noteq> Panic" for bi base name d xs
    by (rule for_each_neq_Panic) (auto simp: and_then_eq_Panic no_panic)
  show ?thesis
    unfolding validate_block_def Let_def v
    by (simp add: and_then_eq_Panic no_panic validate_block_loop[OF assms v] words)
qed

lemma validate_role_groups_no_panic:
  assumes "postings_ok rd idx n"
  shows "validate_role_groups rd gi cnt n idx cursor bc \<noteq> Panic"
proof -
  have blocks: "for_each (\<lambda>k. and_then (expect (cur + k < bc) d) (\<lambda>_.
      validate_block rd (cur + k) (acc + k * 256) (min (m - k * 256) 256) idx)) [0..<div_ceil m 256] \<noteq> Panic"
    if "acc + m \<le> n" for cur d acc m
  proof (rule for_each_neq_Panic)
    fix k assume "k \<in> set [0..<div_ceil m 256]"
    then have "k * 256 < m" by (auto simp: div_ceil_def less_eq_div_iff_mult_less_eq Suc_le_eq)
    with that have "acc + k * 256 + min (m - k * 256) 256 \<le> n" by simp
    from validate_block_no_panic[OF assms this]
    show "and_then (expect (cur + k < bc) d) (\<lambda>_.
      validate_block rd (cur + k) (acc + k * 256) (min (m - k * 256) 256) idx) \<noteq> Panic"
      by (simp add: and_then_eq_Panic no_panic)
  qed
  have "validate_role_group rd gi n idx bc g st \<noteq> Panic" for g st
    unfolding validate_role_group_def Let_def
    by (cases st) (auto simp: and_then_eq_Panic no_panic check_Ok blocks)
  then show ?thesis
    unfolding validate_role_groups_def by (intro no_panicI) (auto simp: no_panic and_then_eq_Panic)
qed

text \<open>The sizes that \<open>check_sizes\<close> establishes, as one predicate on the reader and the counts.\<close>

definition sizes_ok :: "segment_reader \<Rightarrow> segment_sizes \<Rightarrow> bool" where
  "sizes_ok rd z \<longleftrightarrow>
     rd_words rd = target_word_count (rd_target_count rd) \<and>
     length (seg_file rd SYMBOL_INDEX) = 24 + rd_symbol_count rd * 32 + rd_target_count rd * 8 + sz_sym_blob z \<and>
     columns_ok (seg_file rd REF_POSTINGS) 6 (sz_ref_recs z) \<and>
     columns_ok (seg_file rd DEF_POSTINGS) 6 (sz_def_recs z) \<and>
     columns_ok (seg_file rd RENAME_POSTINGS) 6 (sz_rename_recs z) \<and>
     columns_ok (seg_file rd DOC_POSTINGS) 4 (sz_doc_recs z) \<and>
     length (seg_file rd REF_GROUP_INDEX) = 8 + unat (rd_ref_group_count rd) * 16 \<and>
     length (seg_file rd DEF_GROUP_INDEX) = 8 + unat (rd_ref_group_count rd) * 16 \<and>
     length (seg_file rd RENAME_GROUP_INDEX) = 8 + unat (rd_rename_group_count rd) * 32 \<and>
     sz_dc z = unat (rd_doc_count rd) \<and>
     (\<exists>v. read_i64 (seg_file rd DOC_INDEX) 8 = Some v \<and> unat v = sz_ic z) \<and>
     length (seg_file rd DOC_INDEX) = 24 + sz_dc z * 48 + sz_ic z * 24 + sz_ub z \<and>
     length (seg_file rd BLOCK_INDEX) = 16 + sz_bc z * (40 + 8 * rd_words rd) \<and>
     sz_tmc z = rd_target_count rd \<and> length (seg_file rd TARGET_META) = 16 + sz_tmc z * 48 + sz_tmb z \<and>
     sz_smc z = rd_symbol_count rd \<and> length (seg_file rd SYMBOL_META) = 16 + sz_smc z * 48 + sz_smb z \<and>
     (\<exists>v. read_i64 (seg_file rd SEARCH) 0 = Some v \<and> unat v = sz_src z) \<and>
     length (seg_file rd SEARCH) = 16 + sz_src z * 16 + sz_srb z"

lemma check_group_index_Ok:
  "check_group_index rd idx n w = Ok u \<Longrightarrow> length (seg_file rd idx) = 8 + n * (if w then 32 else 16)"
  by (auto simp: check_group_index_def Let_def and_then_eq_Ok check_Ok GROUP_INDEX_ENTRY_SIZE_def
      RENAME_PROFILE_ENTRY_SIZE_def)

lemma check_table_Ok:
  "check_table rd idx row want pre what = Ok (n, blob) \<Longrightarrow>
     length (seg_file rd idx) = 16 + n * row + blob \<and> (\<forall>w. want = Some w \<longrightarrow> n = w) \<and>
     (\<exists>v. read_i64 (seg_file rd idx) 0 = Some v \<and> unat v = n)"
  by (auto simp: check_table_def Let_def and_then_eq_Ok check_Ok sint_eq_int_iff split: option.splits)

lemma check_doc_index_size_Ok:
  "check_doc_index_size rd = Ok (dc, ic, ub) \<Longrightarrow>
     dc = unat (rd_doc_count rd) \<and> length (seg_file rd DOC_INDEX) = 24 + dc * 48 + ic * 24 + ub \<and>
     (\<exists>v. read_i64 (seg_file rd DOC_INDEX) 8 = Some v \<and> unat v = ic)"
  by (auto simp: check_doc_index_size_def Let_def and_then_eq_Ok check_Ok sint_eq_int_iff)

lemma check_block_index_size_Ok:
  "check_block_index_size rd = Ok bc \<Longrightarrow> length (seg_file rd BLOCK_INDEX) = 16 + bc * (40 + 8 * rd_words rd)"
  by (auto simp: check_block_index_size_def Let_def and_then_eq_Ok check_Ok)

lemma check_symbol_index_Ok:
  "check_symbol_index rd = Ok (ns, nt, blob) \<Longrightarrow>
     length (seg_file rd SYMBOL_INDEX) = 24 + ns * 32 + nt * 8 + blob"
  by (auto simp: check_symbol_index_def Let_def and_then_eq_Ok check_Ok)

lemma seg_file_update [simp]:
  "seg_file (rd\<lparr>rd_symbol_count := a\<rparr>) i = seg_file rd i"
  "seg_file (rd\<lparr>rd_target_count := b\<rparr>) i = seg_file rd i"
  "seg_file (rd\<lparr>rd_words := c\<rparr>) i = seg_file rd i"
  "seg_file (rd\<lparr>rd_doc_epochs := d\<rparr>) i = seg_file rd i"
  by (simp_all add: seg_file_def)

lemma check_sizes_Ok: "check_sizes rd0 = Ok (rd, z) \<Longrightarrow> sizes_ok rd z"
  by (auto simp: check_sizes_def sizes_ok_def Let_def and_then_eq_Ok expect_Ok
      dest!: check_symbol_index_Ok check_columns_Ok check_group_index_Ok check_doc_index_size_Ok
        check_block_index_size_Ok check_table_Ok)

lemma deep_validate_no_panic:
  assumes "sizes_ok rd z"
  shows "deep_validate rd z \<noteq> Panic"
proof -
  have "postings_ok rd idx n"
    if "validate_group_records rd idx n = Ok ()" "columns_ok (seg_file rd idx) 6 n" for idx n
    using that validate_group_records_Ok[OF that(1,2)] assms by (simp add: postings_ok_def sizes_ok_def)
  then show ?thesis
    using assms unfolding deep_validate_def Let_def
    by (intro no_panicI) (simp_all add: no_panic validate_role_groups_no_panic sizes_ok_def)
qed

lemma epoch_of_Ok:
  assumes "sizes_ok rd z" and "d < unat (rd_doc_count rd)"
  shows "\<exists>e. epoch_of rd d = Ok e"
proof -
  have "d * 48 + 48 \<le> unat (rd_doc_count rd) * 48" using assms(2) by simp
  then have "doc_entry_base d + 16 + 4 \<le> length (seg_file rd DOC_INDEX)"
    using assms(1) by (simp add: sizes_ok_def doc_entry_base_def DOC_ENTRY_SIZE_def)
  then obtain e where "read_i32 (seg_file rd DOC_INDEX) (doc_entry_base d + 16) = Some e"
    using i32_codec.read_Some_iff[of "seg_file rd DOC_INDEX" "doc_entry_base d + 16"] by auto
  then show ?thesis by (simp add: epoch_of_def)
qed

lemma map_o_neq_Panic: "(\<And>x. x \<in> set xs \<Longrightarrow> f x \<noteq> Panic) \<Longrightarrow> map_o f xs \<noteq> Panic"
  by (induction xs) (auto simp: and_then_eq_Panic)

lemma validate_structure_no_panic [no_panic]: "validate_structure rd \<noteq> Panic"
proof -
  have "map_o (epoch_of rd') [0..<unat (rd_doc_count rd')] \<noteq> Panic" if "sizes_ok rd' z" for rd' z
    by (rule map_o_neq_Panic) (use epoch_of_Ok[OF that] in force)
  then show ?thesis
    unfolding validate_structure_def
    by (auto simp: and_then_eq_Panic no_panic deep_validate_no_panic dest!: check_sizes_Ok)
qed

lemma verify_checksums_no_panic [no_panic]: "verify_checksums crc cs files \<noteq> Panic"
proof -
  have "verify_entry crc cs e off \<noteq> Panic" for e off
    by (cases e) (auto simp: verify_entry_def Let_def and_then_eq_Panic no_panic)
  then show ?thesis
    unfolding verify_checksums_def by (auto simp: and_then_eq_Panic no_panic fold_o_neq_Panic)
qed

lemma length_CHECKSUMMED_FILES: "length CHECKSUMMED_FILES = 14"
  by (simp add: CHECKSUMMED_FILES_def)

text \<open>
  C2: \<open>SegmentReader::open\<close> never panics: whatever bytes the fourteen files and
  \<open>checksums.bin\<close> hold, and even when the checksums have been recomputed to match, every
  read it unwraps is in bounds and every index it uses is in range, so it returns a reader
  or a typed error.
\<close>
theorem open_never_panics: "open_segment crc dir \<noteq> Panic"
proof -
  have map_file: "map_file dir name \<noteq> Panic" for name
    by (simp add: map_file_def split: mapped.splits)
  have hdr: "read_u64 h off \<noteq> None" if "length h = 64" "off \<le> 56" for h off
    using that u64_codec.read_None_iff[of h off] by simp
  have "read_u32 h 0 \<noteq> None" "read_u16 h 4 \<noteq> None" "read_u16 h 6 \<noteq> None" "read_i64 h 16 \<noteq> None"
    if "length h = 64" for h
    using that by (simp_all add: u32_codec.read_None_iff u16_codec.read_None_iff i64_codec.read_None_iff)
  moreover have "header_count h off what \<noteq> Panic" if "length h = 64" "off \<le> 56" for h off what
    using hdr[OF that] by (auto simp: header_count_def and_then_eq_Panic unwrap_eq_Panic)
  ultimately show ?thesis
    unfolding open_segment_def
    by (auto simp: and_then_eq_Panic no_panic map_file map_o_neq_Panic unwrap_eq_Panic hdr map_o_Ok
        HEADER_SIZE_def HEADER_CHECKSUM_OFFSET_def index_o_def length_CHECKSUMMED_FILES)
qed

end
