(* ===== verification/Store.thy ===== *)
theory Store
  imports Workspace_State Segment_Writer Segment_Open
begin

text \<open>
  The snapshot store: \<open>crates/ls-store/src/snapshot.rs\<close>, the manifest (\<open>manifest.rs\<close>), the durable
  file operations (\<open>durable.rs\<close>) and the segment publication of \<open>writer.rs\<close> (lines 741-785).

  The disk under the store root is a map from file names to bytes and a map from directory paths
  to the files in them. \<open>publish\<close> is the list of disk operations it performs, in order; a crash is any
  prefix of that list, with the next operation possibly torn (\<open>crash_state\<close>). A rename is atomic; a
  file being written may be left with any content, a directory being removed with any part of its
  files. The code fsyncs every file before the rename that publishes it and every directory after it,
  so an operation has reached the disk before the next one starts; \<open>SyncDir\<close> marks these points.

  \<open>serde_json\<close> is outside the repository: the printer and parser of the manifest are the parameters
  \<open>to_json\<close> and \<open>parse\<close>, and the theorems assume that the parser reads back what the printer wrote.
\<close>

section \<open>The disk\<close>

record disk =
  dk_files :: "str \<Rightarrow> byte list option"
  dk_dirs :: "str \<Rightarrow> (string \<Rightarrow> byte list option) option"

datatype disk_op =
    WriteFile str "byte list"
  | RenameFile str str
  | RemoveFile str
  | MakeDir str
  | RemoveDir str
  | WriteInDir str string "byte list"
  | RenameDir str str
  | SyncDir str

fun apply_op :: "disk_op \<Rightarrow> disk \<Rightarrow> disk" where
  "apply_op (WriteFile n b) d = d\<lparr>dk_files := (dk_files d)(n := Some b)\<rparr>"
| "apply_op (RenameFile a b) d = d\<lparr>dk_files := (dk_files d)(a := None, b := dk_files d a)\<rparr>"
| "apply_op (RemoveFile n) d = d\<lparr>dk_files := (dk_files d)(n := None)\<rparr>"
| "apply_op (MakeDir p) d =
     (if dk_dirs d p = None then d\<lparr>dk_dirs := (dk_dirs d)(p := Some (\<lambda>_. None))\<rparr> else d)"
| "apply_op (RemoveDir p) d = d\<lparr>dk_dirs := (dk_dirs d)(p := None)\<rparr>"
| "apply_op (WriteInDir p n b) d =
     (case dk_dirs d p of None \<Rightarrow> d | Some fs \<Rightarrow> d\<lparr>dk_dirs := (dk_dirs d)(p := Some (fs(n := Some b)))\<rparr>)"
| "apply_op (RenameDir a b) d = d\<lparr>dk_dirs := (dk_dirs d)(a := None, b := dk_dirs d a)\<rparr>"
| "apply_op (SyncDir p) d = d"

definition apply_ops :: "disk_op list \<Rightarrow> disk \<Rightarrow> disk" where
  "apply_ops ops d = fold apply_op ops d"

text \<open>A torn operation: what a crash in the middle of it can leave behind.\<close>
inductive torn :: "disk_op \<Rightarrow> disk \<Rightarrow> disk \<Rightarrow> bool" where
  torn_write: "torn (WriteFile n b) d (d\<lparr>dk_files := (dk_files d)(n := c)\<rparr>)"
| torn_write_in_dir: "dk_dirs d p = Some fs \<Longrightarrow>
    torn (WriteInDir p n b) d (d\<lparr>dk_dirs := (dk_dirs d)(p := Some (fs(n := c)))\<rparr>)"
| torn_remove_dir: "dk_dirs d p = Some fs \<Longrightarrow> (\<And>n. fs' n = None \<or> fs' n = fs n) \<Longrightarrow>
    torn (RemoveDir p) d (d\<lparr>dk_dirs := (dk_dirs d)(p := Some fs')\<rparr>)"

inductive crash_state :: "disk_op list \<Rightarrow> disk \<Rightarrow> disk \<Rightarrow> bool" where
  crash_between: "crash_state (pre @ post) d (apply_ops pre d)"
| crash_torn: "torn op (apply_ops pre d) d' \<Longrightarrow> crash_state (pre @ op # post) d d'"

section \<open>Manifest\<close>

definition MANIFEST_SCHEMA_VERSION :: u32 where "MANIFEST_SCHEMA_VERSION = 1"
definition MANIFEST_FILE :: str where "MANIFEST_FILE = lit ''manifest.json''"
definition MANIFEST_TMP :: str where "MANIFEST_TMP = lit ''manifest.json.tmp''"

record manifest =
  mf_schema_version :: u32
  mf_segment_id :: u64
  mf_segment_dir :: str
  mf_state_generation :: u64
  mf_state_checksum :: u32
  mf_doc_count :: u32
  mf_symbol_count :: u32

definition manifest_load :: "(byte list \<Rightarrow> manifest option) \<Rightarrow> disk \<Rightarrow> manifest option store_result" where
  "manifest_load parse d =
     (case dk_files d MANIFEST_FILE of
        None \<Rightarrow> Ok None
      | Some bytes \<Rightarrow>
          and_then (ok_or (parse bytes) (ManifestCorrupt ''parse'')) (\<lambda>m.
            if mf_schema_version m > MANIFEST_SCHEMA_VERSION
            then Err (FutureSchema ''manifest'' (unat (mf_schema_version m)))
            else Ok (Some m)))"

section \<open>Opening a snapshot\<close>

record snapshot =
  sn_segment :: segment_reader
  sn_state :: workspace_state
  sn_segment_id :: u64
  sn_generation :: u64
  sn_segment_dir :: str
  sn_state_path :: str

definition starts_with :: "str \<Rightarrow> str \<Rightarrow> bool" where
  "starts_with s p \<longleftrightarrow> take (length p) s = p"

definition ends_with :: "str \<Rightarrow> str \<Rightarrow> bool" where
  "ends_with s p \<longleftrightarrow> length p \<le> length s \<and> drop (length s - length p) s = p"

definition is_canonical_segment_dir :: "str \<Rightarrow> bool" where
  "is_canonical_segment_dir dir =
     (let p = lit ''segments/segment-''
      in if starts_with dir p
         then (let rest = drop (length p) dir in rest \<noteq> [] \<and> list_all is_ascii_digit rest)
         else False)"

text \<open>The files of a directory, as the segment reader maps them.\<close>
definition dir_files :: "disk \<Rightarrow> str \<Rightarrow> string \<Rightarrow> mapped" where
  "dir_files d path name =
     (case dk_dirs d path of
        None \<Rightarrow> NotFound
      | Some fs \<Rightarrow> (case fs name of None \<Rightarrow> NotFound | Some b \<Rightarrow> Contents b))"

definition open_snapshot :: "(byte list \<Rightarrow> u32) \<Rightarrow> disk \<Rightarrow> manifest \<Rightarrow> snapshot store_result" where
  "open_snapshot crc d m =
     (if \<not> is_canonical_segment_dir (mf_segment_dir m)
      then Err (ManifestCorrupt ''non-canonical segment_dir'')
      else and_then (map_err StoreSegment (open_segment crc (dir_files d (mf_segment_dir m)))) (\<lambda>segment.
        if rd_segment_id segment \<noteq> mf_segment_id m then Err (PairMismatch ''segment header id'')
        else if rd_doc_count segment \<noteq> mf_doc_count m \<or>
                word_of_nat (rd_symbol_count segment) \<noteq> mf_symbol_count m
        then Err (PairMismatch ''manifest doc/symbol counts disagree with segment'')
        else and_then (load_state crc (dk_files d (state_file_name (mf_state_generation m)))
                         (mf_state_generation m) (mf_state_checksum m)) (\<lambda>state.
          Ok \<lparr>sn_segment = segment, sn_state = state, sn_segment_id = mf_segment_id m,
              sn_generation = mf_state_generation m, sn_segment_dir = mf_segment_dir m,
              sn_state_path = state_file_name (mf_state_generation m)\<rparr>)))"

definition remove_tmp_debris :: "disk \<Rightarrow> disk" where
  "remove_tmp_debris d =
     d\<lparr>dk_files := (\<lambda>n. if n = MANIFEST_TMP \<or>
                          starts_with n (lit ''workspace-state-'') \<and> ends_with n (lit ''.bin.tmp'')
                       then None else dk_files d n),
       dk_dirs := (\<lambda>p. if starts_with p (lit ''tmp-'') then None else dk_dirs d p)\<rparr>"

section \<open>The store\<close>

text \<open>\<open>st_held\<close> lists the generations that readers retain, one entry per \<open>Arc\<close>; a retired
  generation's strong count is zero when it is not in the list.\<close>

record retired =
  rt_generation :: u64
  rt_segment_dir :: str
  rt_state_path :: str

record store =
  st_disk :: disk
  st_current :: "snapshot option"
  st_retired :: "retired list"
  st_held :: "u64 list"

definition recover ::
  "(byte list \<Rightarrow> u32) \<Rightarrow> (byte list \<Rightarrow> manifest option) \<Rightarrow> disk \<Rightarrow> snapshot option store_result" where
  "recover crc parse d =
     and_then (manifest_load parse d) (\<lambda>mo.
       case mo of
         None \<Rightarrow> Ok None
       | Some m \<Rightarrow> and_then (open_snapshot crc d m) (\<lambda>s. Ok (Some s)))"

definition store_open :: "(byte list \<Rightarrow> u32) \<Rightarrow> (byte list \<Rightarrow> manifest option) \<Rightarrow> disk \<Rightarrow> store store_result" where
  "store_open crc parse d0 =
     (let d = remove_tmp_debris d0
      in and_then (recover crc parse d) (\<lambda>cur.
           Ok \<lparr>st_disk = d, st_current = cur, st_retired = [], st_held = []\<rparr>))"

definition store_open_readonly ::
  "(byte list \<Rightarrow> u32) \<Rightarrow> (byte list \<Rightarrow> manifest option) \<Rightarrow> disk \<Rightarrow> store store_result" where
  "store_open_readonly crc parse d =
     and_then (recover crc parse d) (\<lambda>cur.
       Ok \<lparr>st_disk = d, st_current = cur, st_retired = [], st_held = []\<rparr>)"

definition retain :: "store \<Rightarrow> store \<times> snapshot option" where
  "retain s =
     (case st_current s of
        None \<Rightarrow> (s, None)
      | Some snap \<Rightarrow> (s\<lparr>st_held := sn_generation snap # st_held s\<rparr>, Some snap))"

definition release :: "u64 \<Rightarrow> store \<Rightarrow> store" where
  "release g s = s\<lparr>st_held := remove1 g (st_held s)\<rparr>"

section \<open>Publishing\<close>

definition segment_path :: "u64 \<Rightarrow> str" where
  "segment_path segment_id = lit ''segments/'' @ segment_dir_name segment_id"

definition tmp_path :: "u64 \<Rightarrow> str" where
  "tmp_path segment_id = lit ''tmp-'' @ decimal (unat segment_id)"

definition segment_publish_ops ::
  "disk \<Rightarrow> u64 \<Rightarrow> (string \<times> byte list) list \<Rightarrow> byte list \<Rightarrow> disk_op list" where
  "segment_publish_ops d segment_id files checksums =
     (let tmp_dir = tmp_path segment_id; final_dir = segment_path segment_id
      in [MakeDir (lit ''segments'')] @
         (if dk_dirs d tmp_dir \<noteq> None then [RemoveDir tmp_dir] else []) @
         [MakeDir tmp_dir] @
         map (\<lambda>(name, bytes). WriteInDir tmp_dir name bytes) files @
         [WriteInDir tmp_dir CHECKSUMS_FILE checksums, SyncDir tmp_dir] @
         (if dk_dirs d final_dir \<noteq> None then [RemoveDir final_dir] else []) @
         [RenameDir tmp_dir final_dir, SyncDir (lit ''segments'')])"

definition state_tmp_ops :: "(byte list \<Rightarrow> u32) \<Rightarrow> u64 \<Rightarrow> byte list \<Rightarrow> disk_op list" where
  "state_tmp_ops crc generation payload = [WriteFile (state_tmp_name generation) (serialize_state crc generation payload)]"

definition state_commit_ops :: "u64 \<Rightarrow> disk_op list" where
  "state_commit_ops generation =
     [RenameFile (state_tmp_name generation) (state_file_name generation), SyncDir []]"

definition new_manifest :: "(byte list \<Rightarrow> u32) \<Rightarrow> u64 \<Rightarrow> segment_data \<Rightarrow> byte list \<Rightarrow> manifest" where
  "new_manifest crc next data payload =
     \<lparr>mf_schema_version = MANIFEST_SCHEMA_VERSION, mf_segment_id = next, mf_segment_dir = segment_path next,
      mf_state_generation = next, mf_state_checksum = payload_checksum crc payload,
      mf_doc_count = word_of_nat (length (docs data)), mf_symbol_count = word_of_nat (length (symbols data))\<rparr>"

definition manifest_tmp_ops :: "(manifest \<Rightarrow> byte list) \<Rightarrow> manifest \<Rightarrow> disk_op list" where
  "manifest_tmp_ops to_json m = [WriteFile MANIFEST_TMP (to_json m)]"

definition manifest_commit_ops :: "disk_op list" where
  "manifest_commit_ops = [RenameFile MANIFEST_TMP MANIFEST_FILE, SyncDir []]"

datatype failpoint = NoFailpoint | TornStateTmp | AfterStateBeforeManifest | TornManifestTmp

text \<open>The disk operations up to a failpoint.\<close>
definition publish_ops ::
  "(byte list \<Rightarrow> u32) \<Rightarrow> (manifest \<Rightarrow> byte list) \<Rightarrow> disk \<Rightarrow> u64 \<Rightarrow> (string \<times> byte list) list \<Rightarrow> segment_data
     \<Rightarrow> byte list \<Rightarrow> failpoint \<Rightarrow> disk_op list" where
  "publish_ops crc to_json d next files data payload fp =
     segment_publish_ops d next files (serialize_checksums crc files) @
     state_tmp_ops crc next payload @
     (if fp = TornStateTmp then []
      else state_commit_ops next @
        (if fp = AfterStateBeforeManifest then []
         else manifest_tmp_ops to_json (new_manifest crc next data payload) @
           (if fp = TornManifestTmp then [] else manifest_commit_ops)))"

definition next_generation :: "store \<Rightarrow> u64" where
  "next_generation s = (case st_current s of None \<Rightarrow> 1 | Some snap \<Rightarrow> sn_generation snap + 1)"

text \<open>Delete the files of every retired generation that nobody retains.\<close>
definition janitor_ops :: "store \<Rightarrow> disk_op list" where
  "janitor_ops s =
     concat (map (\<lambda>r. [RemoveDir (rt_segment_dir r), RemoveFile (rt_state_path r)])
       (filter (\<lambda>r. rt_generation r \<notin> set (st_held s)) (st_retired s)))"

definition run_janitor :: "store \<Rightarrow> store" where
  "run_janitor s =
     s\<lparr>st_disk := apply_ops (janitor_ops s) (st_disk s),
       st_retired := filter (\<lambda>r. rt_generation r \<in> set (st_held s)) (st_retired s)\<rparr>"

definition retire :: "snapshot \<Rightarrow> store \<Rightarrow> store" where
  "retire old s =
     s\<lparr>st_retired := st_retired s @
         [\<lparr>rt_generation = sn_generation old, rt_segment_dir = sn_segment_dir old,
           rt_state_path = sn_state_path old\<rparr>]\<rparr>"

text \<open>The local \<open>prev\<close> keeps a strong reference to the superseded snapshot until the function returns, so
  the janitor pass at the end of a publish sees that generation as held; the returned \<open>Arc\<close> is held by
  the caller.\<close>
definition publish_with_failpoint ::
  "(byte list \<Rightarrow> u32) \<Rightarrow> (manifest \<Rightarrow> byte list) \<Rightarrow> segment_data \<Rightarrow> byte list \<Rightarrow> i64 \<Rightarrow> failpoint \<Rightarrow> store
     \<Rightarrow> store \<times> snapshot option store_result" where
  "publish_with_failpoint crc to_json data payload created_at_ms fp s =
     (let next = next_generation s
      in case build_files crc next data created_at_ms of
           Err e \<Rightarrow> (s, Err (StoreSegment e))
         | Panic \<Rightarrow> (s, Panic)
         | Ok files \<Rightarrow>
             let d = apply_ops (publish_ops crc to_json (st_disk s) next files data payload fp) (st_disk s);
                 s1 = s\<lparr>st_disk := d\<rparr>
             in if fp \<noteq> NoFailpoint then (s1, Ok None)
                else (case open_snapshot crc d (new_manifest crc next data payload) of
                        Err e \<Rightarrow> (s1, Err e)
                      | Panic \<Rightarrow> (s1, Panic)
                      | Ok snap \<Rightarrow>
                          let s2 = s1\<lparr>st_current := Some snap\<rparr>;
                              s3 = (case st_current s of None \<Rightarrow> s2 | Some old \<Rightarrow> retire old s2);
                              prev = (case st_current s of None \<Rightarrow> [] | Some old \<Rightarrow> [sn_generation old]);
                              s4 = run_janitor (s3\<lparr>st_held := prev @ st_held s\<rparr>)
                          in (s4\<lparr>st_held := sn_generation snap # st_held s\<rparr>, Ok (Some snap))))"

definition publish ::
  "(byte list \<Rightarrow> u32) \<Rightarrow> (manifest \<Rightarrow> byte list) \<Rightarrow> segment_data \<Rightarrow> byte list \<Rightarrow> i64 \<Rightarrow> store
     \<Rightarrow> store \<times> snapshot store_result" where
  "publish crc to_json data payload created_at_ms s =
     (case publish_with_failpoint crc to_json data payload created_at_ms NoFailpoint s of
        (s', r) \<Rightarrow> (s', and_then r unwrap))"

end
