(* ===== verification/Store_Recovery.thy ===== *)
theory Store_Recovery
  imports Store
begin

text \<open>
  Crash safety of the store. Every disk operation of a publish before the manifest rename touches only
  files of the next generation and tmp files (\<open>foreign\<close>), so whatever a crash leaves, recovery finds
  the previous generation complete; from the rename on it finds the new one. The state machine
  \<open>reachable\<close> interleaves publishes, readers that retain and release snapshots, janitor passes, crashes
  at any point and reopenings; its invariant is proved by rule induction.
\<close>

section \<open>File names\<close>

definition undecimal :: "str \<Rightarrow> nat" where
  "undecimal ds = foldl (\<lambda>n b. n * 10 + (unat b - 48)) 0 ds"

lemma unat_digit: "k < 10 \<Longrightarrow> unat (word_of_nat (48 + k) :: byte) = 48 + k"
  by (simp add: unat_of_nat del: of_nat_add)

lemma undecimal_decimal: "undecimal (decimal n) = n"
proof (induction n rule: decimal.induct)
  case (1 n)
  have digit: "k < 10 \<Longrightarrow> unat (word_of_nat (48 + k) :: byte) - 48 = k" for k
    using unat_digit by simp
  show ?case
  proof (cases "n < 10")
    case True
    then show ?thesis using digit[of n] by (subst decimal.simps) (simp add: undecimal_def)
  next
    case False
    then show ?thesis using 1 digit[of "n mod 10"] by (subst decimal.simps) (simp add: undecimal_def)
  qed
qed

lemma decimal_inj: "decimal m = decimal n \<Longrightarrow> m = n"
  by (metis undecimal_decimal)

lemma undecimal_pad: "undecimal (replicate k 48 @ ds) = undecimal ds"
  by (induction k) (simp_all add: undecimal_def)

lemma segment_path_inj: "segment_path a = segment_path b \<Longrightarrow> a = b"
proof -
  assume "segment_path a = segment_path b"
  then have "undecimal (replicate (6 - length (decimal (unat a))) 48 @ decimal (unat a)) =
      undecimal (replicate (6 - length (decimal (unat b))) 48 @ decimal (unat b))"
    by (simp add: segment_path_def segment_dir_name_def Let_def)
  then show "a = b" by (simp add: undecimal_pad undecimal_decimal word_unat_eq_iff)
qed

lemma state_file_name_inj: "state_file_name a = state_file_name b \<Longrightarrow> a = b"
  by (simp add: state_file_name_def) (metis decimal_inj word_unat_eq_iff)

lemma decimal_digits: "list_all is_ascii_digit (decimal n)"
proof (induction n rule: decimal.induct)
  case (1 n)
  have digit: "k < 10 \<Longrightarrow> is_ascii_digit (word_of_nat (48 + k))" for k
    using unat_digit[of k] by (simp add: is_ascii_digit_def word_le_nat_alt del: of_nat_add)
  show ?case
  proof (cases "n < 10")
    case True
    then show ?thesis using digit[of n] by (subst decimal.simps) simp
  next
    case False
    then show ?thesis using 1 digit[of "n mod 10"] by (subst decimal.simps) simp
  qed
qed

lemma decimal_nonempty: "decimal n \<noteq> []"
  by (subst decimal.simps) simp

lemma canonical_segment_path: "is_canonical_segment_dir (segment_path g)"
proof -
  have "segment_path g = lit ''segments/segment-'' @
      (replicate (6 - length (decimal (unat g))) 48 @ decimal (unat g))"
    by (simp add: segment_path_def segment_dir_name_def Let_def lit_def)
  then show ?thesis
    using decimal_digits[of "unat g"] decimal_nonempty[of "unat g"]
    by (auto simp: is_canonical_segment_dir_def starts_with_def Let_def list_all_iff is_ascii_digit_def)
qed

lemma last_lit_tmp: "last (lit ''.bin.tmp'') = 112" "last (lit ''.bin'') = 110" "last (lit ''manifest.json'') = 110"
  by code_simp+

lemma file_names_distinct:
  "MANIFEST_FILE \<noteq> MANIFEST_TMP" "state_file_name g \<noteq> MANIFEST_FILE" "state_file_name g \<noteq> MANIFEST_TMP"
  "state_tmp_name g \<noteq> MANIFEST_FILE" "state_tmp_name g \<noteq> MANIFEST_TMP" "state_tmp_name g \<noteq> state_file_name h"
  "hd (tmp_path g) \<noteq> hd (segment_path h)" "tmp_path g \<noteq> lit ''segments''" "segment_path g \<noteq> lit ''segments''"
  by (auto simp: MANIFEST_FILE_def MANIFEST_TMP_def state_file_name_def state_tmp_name_def lit_def tmp_path_def
      segment_path_def dest: arg_cong[of _ _ last])

section \<open>What an operation can change\<close>

fun op_files :: "disk_op \<Rightarrow> str set" where
  "op_files (WriteFile n b) = {n}"
| "op_files (RenameFile a b) = {a, b}"
| "op_files (RemoveFile n) = {n}"
| "op_files _ = {}"

fun op_dirs :: "disk_op \<Rightarrow> str set" where
  "op_dirs (MakeDir p) = {p}"
| "op_dirs (RemoveDir p) = {p}"
| "op_dirs (WriteInDir p n b) = {p}"
| "op_dirs (RenameDir a b) = {a, b}"
| "op_dirs _ = {}"

inductive_cases torn_renameE: "torn (RenameFile a b) d d'"
inductive_cases torn_syncE: "torn (SyncDir p) d d'"

lemma apply_op_files: "n \<notin> op_files op \<Longrightarrow> dk_files (apply_op op d) n = dk_files d n"
  by (cases op) (auto split: option.splits)

lemma apply_op_dirs: "p \<notin> op_dirs op \<Longrightarrow> dk_dirs (apply_op op d) p = dk_dirs d p"
  by (cases op) (auto split: option.splits)

lemma torn_files: "torn op d d' \<Longrightarrow> n \<notin> op_files op \<Longrightarrow> dk_files d' n = dk_files d n"
  by (induction rule: torn.induct) auto

lemma torn_dirs: "torn op d d' \<Longrightarrow> p \<notin> op_dirs op \<Longrightarrow> dk_dirs d' p = dk_dirs d p"
  by (induction rule: torn.induct) auto

lemma apply_ops_files: "n \<notin> \<Union> (op_files ` set ops) \<Longrightarrow> dk_files (apply_ops ops d) n = dk_files d n"
  by (induction ops arbitrary: d) (auto simp: apply_ops_def apply_op_files)

lemma apply_ops_dirs: "p \<notin> \<Union> (op_dirs ` set ops) \<Longrightarrow> dk_dirs (apply_ops ops d) p = dk_dirs d p"
  by (induction ops arbitrary: d) (auto simp: apply_ops_def apply_op_dirs)

lemma apply_ops_append: "apply_ops (xs @ ys) d = apply_ops ys (apply_ops xs d)"
  by (simp add: apply_ops_def)

lemma crash_state_files:
  "crash_state ops d d' \<Longrightarrow> n \<notin> \<Union> (op_files ` set ops) \<Longrightarrow> dk_files d' n = dk_files d n"
  by (induction rule: crash_state.induct) (auto simp: apply_ops_files torn_files)

lemma crash_state_dirs:
  "crash_state ops d d' \<Longrightarrow> p \<notin> \<Union> (op_dirs ` set ops) \<Longrightarrow> dk_dirs d' p = dk_dirs d p"
  by (induction rule: crash_state.induct) (auto simp: apply_ops_dirs torn_dirs)

text \<open>A crash around an atomic commit: before it, or after it.\<close>

lemma crash_around_commit:
  assumes "crash_state (ops @ [RenameFile a b, SyncDir p]) d d'"
  shows "crash_state ops d d' \<or> d' = apply_ops (ops @ [RenameFile a b, SyncDir p]) d"
  using assms
proof (cases rule: crash_state.cases)
  case (crash_between pre post)
  then consider us where "ops = pre @ us" | "pre = ops @ [RenameFile a b]" | "pre = ops @ [RenameFile a b, SyncDir p]"
    by (auto simp: append_eq_append_conv2 append_eq_Cons_conv Cons_eq_append_conv)
  then show ?thesis
  proof cases
    case 1
    then show ?thesis using crash_between(2) crash_state.crash_between by blast
  next
    case 2
    then show ?thesis using crash_between(2) by (simp add: apply_ops_def)
  next
    case 3
    then show ?thesis using crash_between(2) by simp
  qed
next
  case (crash_torn op pre post)
  then consider us where "ops = pre @ op # us" | "op = RenameFile a b" | "op = SyncDir p"
    by (auto simp: append_eq_append_conv2 append_eq_Cons_conv Cons_eq_append_conv)
  then show ?thesis
  proof cases
    case 1
    then show ?thesis using crash_torn(2) crash_state.crash_torn by blast
  qed (use crash_torn(2) in \<open>auto elim: torn_renameE torn_syncE\<close>)
qed

section \<open>What recovery reads\<close>

text \<open>Recovery of a generation depends on its segment directory and its state file only.\<close>

lemma open_snapshot_cong:
  assumes "dk_dirs d (mf_segment_dir m) = dk_dirs d' (mf_segment_dir m)"
    and "dk_files d (state_file_name (mf_state_generation m)) = dk_files d' (state_file_name (mf_state_generation m))"
  shows "open_snapshot crc d m = open_snapshot crc d' m"
proof -
  have "dir_files d (mf_segment_dir m) = dir_files d' (mf_segment_dir m)"
    by (rule ext) (simp add: dir_files_def assms(1))
  then show ?thesis unfolding open_snapshot_def assms(2) by (simp only:)
qed

lemma ends_with_last: "ends_with s p \<Longrightarrow> p \<noteq> [] \<Longrightarrow> last s = last p"
  by (metis append_take_drop_id ends_with_def last_appendR)

lemma debris_files [simp]:
  "dk_files (remove_tmp_debris d) MANIFEST_FILE = dk_files d MANIFEST_FILE"
  "dk_files (remove_tmp_debris d) (state_file_name g) = dk_files d (state_file_name g)"
proof -
  have "\<not> ends_with (state_file_name g) (lit ''.bin.tmp'')"
  proof
    assume "ends_with (state_file_name g) (lit ''.bin.tmp'')"
    then have "last (state_file_name g) = last (lit ''.bin.tmp'')"
      by (rule ends_with_last) (simp add: lit_def)
    then show False by (simp add: state_file_name_def last_lit_tmp lit_def)
  qed
  then show "dk_files (remove_tmp_debris d) (state_file_name g) = dk_files d (state_file_name g)"
    using file_names_distinct(3) by (simp add: remove_tmp_debris_def)
  have "\<not> starts_with MANIFEST_FILE (lit ''workspace-state-'')"
    by (simp add: starts_with_def MANIFEST_FILE_def lit_def)
  then show "dk_files (remove_tmp_debris d) MANIFEST_FILE = dk_files d MANIFEST_FILE"
    using file_names_distinct(1) by (simp add: remove_tmp_debris_def)
qed

lemma debris_dirs [simp]: "dk_dirs (remove_tmp_debris d) (segment_path g) = dk_dirs d (segment_path g)"
  by (simp add: remove_tmp_debris_def starts_with_def segment_path_def lit_def)

section \<open>The operations of a publish\<close>

text \<open>Everything before the commit.\<close>
definition prepare_ops ::
  "(byte list \<Rightarrow> u32) \<Rightarrow> (manifest \<Rightarrow> byte list) \<Rightarrow> disk \<Rightarrow> u64 \<Rightarrow> (string \<times> byte list) list \<Rightarrow> segment_data
     \<Rightarrow> byte list \<Rightarrow> disk_op list" where
  "prepare_ops crc to_json d next files data payload =
     segment_publish_ops d next files (serialize_checksums crc files) @ state_tmp_ops crc next payload @
     state_commit_ops next @ manifest_tmp_ops to_json (new_manifest crc next data payload)"

lemma publish_ops_split:
  "publish_ops crc to_json d next files data payload NoFailpoint =
     prepare_ops crc to_json d next files data payload @ [RenameFile MANIFEST_TMP MANIFEST_FILE, SyncDir []]"
  by (simp add: publish_ops_def prepare_ops_def manifest_commit_ops_def)

lemma prepare_ops_files:
  "\<Union> (op_files ` set (prepare_ops crc to_json d next files data payload)) \<subseteq>
     {state_tmp_name next, state_file_name next, MANIFEST_TMP}"
  by (auto simp: prepare_ops_def segment_publish_ops_def state_tmp_ops_def state_commit_ops_def manifest_tmp_ops_def
      Let_def split: if_splits)

lemma prepare_ops_dirs:
  "\<Union> (op_dirs ` set (prepare_ops crc to_json d next files data payload)) \<subseteq>
     {lit ''segments'', tmp_path next, segment_path next}"
  by (auto simp: prepare_ops_def segment_publish_ops_def state_tmp_ops_def state_commit_ops_def manifest_tmp_ops_def
      Let_def split: if_splits)

lemma tmp_path_neq_segment_path: "tmp_path g \<noteq> segment_path h"
  using file_names_distinct(7) by metis

lemma prepare_leaves_manifest:
  "crash_state (prepare_ops crc to_json d next files data payload) d0 d' \<Longrightarrow>
     dk_files d' MANIFEST_FILE = dk_files d0 MANIFEST_FILE"
proof (erule crash_state_files)
  have "MANIFEST_FILE \<notin> {state_tmp_name next, state_file_name next, MANIFEST_TMP}"
    using file_names_distinct(1,2,4) by (metis empty_iff insert_iff)
  then show "MANIFEST_FILE \<notin> \<Union> (op_files ` set (prepare_ops crc to_json d next files data payload))"
    using prepare_ops_files by blast
qed

lemma prepare_leaves_generation:
  assumes "crash_state (prepare_ops crc to_json d next files data payload) d0 d'" and "g \<noteq> next"
  shows "dk_dirs d' (segment_path g) = dk_dirs d0 (segment_path g)"
    and "dk_files d' (state_file_name g) = dk_files d0 (state_file_name g)"
proof -
  have "segment_path g \<notin> {lit ''segments'', tmp_path next, segment_path next}"
    using assms(2) segment_path_inj tmp_path_neq_segment_path file_names_distinct(9) by (metis empty_iff insert_iff)
  then show "dk_dirs d' (segment_path g) = dk_dirs d0 (segment_path g)"
    using prepare_ops_dirs by (intro crash_state_dirs[OF assms(1)]) blast
  have "state_file_name g \<notin> {state_tmp_name next, state_file_name next, MANIFEST_TMP}"
    using assms(2) state_file_name_inj file_names_distinct(3,6) by (metis empty_iff insert_iff)
  then show "dk_files d' (state_file_name g) = dk_files d0 (state_file_name g)"
    using prepare_ops_files by (intro crash_state_files[OF assms(1)]) blast
qed

lemma apply_ops_crash: "crash_state ops d (apply_ops ops d)"
  using crash_state.crash_between[of ops "[]" d] by simp

section \<open>What a publish leaves in the segment directory\<close>

lemma write_in_dir_ops:
  assumes "dk_dirs d p = Some fs"
  shows "dk_dirs (apply_ops (map (\<lambda>(n, b). WriteInDir p n b) files) d) p =
     Some (\<lambda>n. case map_of (rev files) n of Some b \<Rightarrow> Some b | None \<Rightarrow> fs n)"
  using assms
proof (induction files arbitrary: d fs)
  case (Cons f files)
  obtain n b where f: "f = (n, b)" by fastforce
  have "dk_dirs (apply_op (WriteInDir p n b) d) p = Some (fs(n := Some b))" using Cons.prems by simp
  from Cons.IH[OF this] show ?case
    by (auto simp: f apply_ops_def map_add_def fun_eq_iff split: option.splits)
qed (simp add: apply_ops_def)

lemma map_of_rev: "distinct (map fst xs) \<Longrightarrow> map_of (rev xs) = map_of xs"
  by (metis distinct_map map_of_inject_set distinct_rev rev_map set_rev)

lemma published_dir:
  assumes "distinct (map fst files)" and "CHECKSUMS_FILE \<notin> set (map fst files)"
  shows "dk_dirs (apply_ops (publish_ops crc to_json d next files data payload NoFailpoint) d) (segment_path next) =
     Some ((map_of files)(CHECKSUMS_FILE := Some (serialize_checksums crc files)))"
proof -
  let ?tmp = "tmp_path next" and ?fin = "segment_path next"
  let ?pre = "[MakeDir (lit ''segments'')] @ (if dk_dirs d ?tmp \<noteq> None then [RemoveDir ?tmp] else []) @ [MakeDir ?tmp]"
  let ?wr = "map (\<lambda>(n, b). WriteInDir ?tmp n b) (files @ [(CHECKSUMS_FILE, serialize_checksums crc files)])"
  let ?post = "SyncDir ?tmp # (if dk_dirs d ?fin \<noteq> None then [RemoveDir ?fin] else []) @
     [RenameDir ?tmp ?fin, SyncDir (lit ''segments'')]"
  let ?rest = "state_tmp_ops crc next payload @ state_commit_ops next @
     manifest_tmp_ops to_json (new_manifest crc next data payload) @ manifest_commit_ops"
  have ops: "publish_ops crc to_json d next files data payload NoFailpoint = ?pre @ ?wr @ ?post @ ?rest"
    by (simp add: publish_ops_def segment_publish_ops_def Let_def)
  have "dk_dirs (apply_ops ?pre d) ?tmp = Some (\<lambda>_. None)"
    using file_names_distinct(8)[of "next"] by (auto simp: apply_ops_def)
  from write_in_dir_ops[OF this] have "dk_dirs (apply_ops ?wr (apply_ops ?pre d)) ?tmp =
      Some (\<lambda>n. case map_of (rev (files @ [(CHECKSUMS_FILE, serialize_checksums crc files)])) n of
        Some b \<Rightarrow> Some b | None \<Rightarrow> None)" .
  also have "(\<lambda>n. case map_of (rev (files @ [(CHECKSUMS_FILE, serialize_checksums crc files)])) n of
        Some b \<Rightarrow> Some b | None \<Rightarrow> None) = (map_of files)(CHECKSUMS_FILE := Some (serialize_checksums crc files))"
    using map_of_rev[OF assms(1)] by (auto simp: fun_eq_iff split: option.splits)
  finally have tmp: "dk_dirs (apply_ops ?wr (apply_ops ?pre d)) ?tmp =
      Some ((map_of files)(CHECKSUMS_FILE := Some (serialize_checksums crc files)))" .
  have "dk_dirs (apply_ops ?post (apply_ops ?wr (apply_ops ?pre d))) ?fin =
      Some ((map_of files)(CHECKSUMS_FILE := Some (serialize_checksums crc files)))"
    using tmp tmp_path_neq_segment_path[of "next" "next"] by (auto simp: apply_ops_def)
  moreover have "dk_dirs (apply_ops ?rest d') ?fin = dk_dirs d' ?fin" for d'
    by (rule apply_ops_dirs)
      (auto simp: state_tmp_ops_def state_commit_ops_def manifest_tmp_ops_def manifest_commit_ops_def)
  ultimately show ?thesis by (simp only: ops apply_ops_append)
qed

lemma published_state:
  "dk_files (apply_ops (publish_ops crc to_json d next files data payload NoFailpoint) d) (state_file_name next) =
     Some (serialize_state crc next payload)"
proof -
  let ?seg = "segment_publish_ops d next files (serialize_checksums crc files)"
  have "publish_ops crc to_json d next files data payload NoFailpoint = ?seg @
     [WriteFile (state_tmp_name next) (serialize_state crc next payload),
      RenameFile (state_tmp_name next) (state_file_name next), SyncDir [],
      WriteFile MANIFEST_TMP (to_json (new_manifest crc next data payload)),
      RenameFile MANIFEST_TMP MANIFEST_FILE, SyncDir []]"
    by (simp add: publish_ops_def state_tmp_ops_def state_commit_ops_def manifest_tmp_ops_def manifest_commit_ops_def)
  then show ?thesis
    using file_names_distinct(2,3)[of "next"] by (simp add: apply_ops_append) (simp add: apply_ops_def)
qed

text \<open>The directory of a written segment, as the reader maps it.\<close>
definition written_dir :: "(byte list \<Rightarrow> u32) \<Rightarrow> (string \<times> byte list) list \<Rightarrow> string \<Rightarrow> mapped" where
  "written_dir crc files name =
     (if name = CHECKSUMS_FILE then Contents (serialize_checksums crc files)
      else case map_of files name of Some b \<Rightarrow> Contents b | None \<Rightarrow> NotFound)"

lemma files_named: "distinct CHECKSUMMED_FILES" "CHECKSUMS_FILE \<notin> set CHECKSUMMED_FILES" "length CHECKSUMMED_FILES = 14"
  by code_simp+

lemma built_files:
  assumes "build_files crc g data t = Ok files"
  shows "\<exists>bs header ixs n rc nc. files = zip CHECKSUMMED_FILES bs \<and> length bs = 14 \<and> bs ! HEADER = header \<and>
    bs ! SYMBOL_INDEX = serialize_symbol_index data ixs \<and> length ixs = length (symbols data) \<and>
    serialize_header crc g t rc nc (word_of_nat (length (docs data))) n = Ok header"
proof -
  from assms obtain ixs bs header n rc nc where "sort_symbol_indices data = Ok ixs"
    "serialize_header crc g t rc nc (word_of_nat (length (docs data))) n = Ok header"
    "files = zip CHECKSUMMED_FILES bs" "length bs = 14" "bs ! HEADER = header" "bs ! SYMBOL_INDEX = serialize_symbol_index data ixs"
    by (auto simp: build_files_def and_then_eq_Ok Let_def split: prod.splits)
  moreover from this(1) have "length ixs = length (symbols data)"
    by (auto simp: sort_symbol_indices_def Let_def split: if_splits)
  ultimately show ?thesis by blast
qed

lemma built_names: "build_files crc g data t = Ok files \<Longrightarrow> map fst files = CHECKSUMMED_FILES"
  using files_named(3) by (auto dest!: built_files)

lemma published_dir_files:
  assumes "build_files crc g data t = Ok files"
  shows "dir_files (apply_ops (publish_ops crc to_json d next files data' payload NoFailpoint) d) (segment_path next) = written_dir crc files"
proof -
  have names: "distinct (map fst files)" "CHECKSUMS_FILE \<notin> set (map fst files)"
    using built_names[OF assms] files_named by simp_all
  show ?thesis
    by (rule ext) (simp add: dir_files_def published_dir[OF names] written_dir_def split: option.splits)
qed

lemma header_identity:
  assumes "serialize_header crc g t rc nc dc n = Ok header"
  shows "read_u64 header 8 = Some g" "read_u64 header 40 = Some dc"
  using assms
  by (auto simp: serialize_header_def Let_def set_u64_def HEADER_CHECKSUM_OFFSET_def read_skips split: if_splits)

lemma validate_structure_keeps:
  assumes "validate_structure rd0 = Ok rd"
  shows "rd_segment_id rd = rd_segment_id rd0" "rd_doc_count rd = rd_doc_count rd0"
    "\<exists>v. read_i64 (seg_file rd0 SYMBOL_INDEX) 0 = Some v \<and> sint v = int (rd_symbol_count rd)"
  using assms
  by (auto simp: validate_structure_def check_sizes_def check_symbol_index_def req_count_def req_i64_def Let_def and_then_eq_Ok ok_or_eq_Ok bounded_Ok)

lemma mapped_files:
  assumes "length bs = 14" "map_o (map_file (written_dir crc (zip CHECKSUMMED_FILES bs))) CHECKSUMMED_FILES = Ok files"
  shows "files = bs"
proof -
  have "map_file (written_dir crc (zip CHECKSUMMED_FILES bs)) (CHECKSUMMED_FILES ! i) = Ok (bs ! i)" if "i < 14" for i
  proof -
    have "map_of (zip CHECKSUMMED_FILES bs) (CHECKSUMMED_FILES ! i) = Some (bs ! i)"
      using that assms(1) files_named by (intro map_of_zip_nth) simp_all
    moreover have "CHECKSUMMED_FILES ! i \<noteq> CHECKSUMS_FILE" using files_named that nth_mem by metis
    ultimately show ?thesis by (simp add: map_file_def written_dir_def)
  qed
  then show ?thesis using assms files_named(3) by (intro nth_equalityI) (auto simp: map_o_Ok)
qed

lemma ucast_word_of_nat: "(ucast (word_of_nat n :: u64) :: u32) = word_of_nat n"
  by (simp add: unsigned_of_nat word_of_nat_eq_iff)

text \<open>The segment that opens from the written files carries the id and the counts the manifest records.\<close>
lemma written_identity:
  assumes "build_files crc g data t = Ok files" "open_segment crc (written_dir crc files) = Ok segment"
  shows "rd_segment_id segment = g" "rd_doc_count segment = word_of_nat (length (docs data))"
    "(word_of_nat (rd_symbol_count segment) :: u32) = word_of_nat (length (symbols data))"
proof -
  obtain bs header ixs n rc nc where b: "files = zip CHECKSUMMED_FILES bs" "length bs = 14" "bs ! HEADER = header"
      "bs ! SYMBOL_INDEX = serialize_symbol_index data ixs" "length ixs = length (symbols data)"
      "serialize_header crc g t rc nc (word_of_nat (length (docs data))) n = Ok header"
    using built_files[OF assms(1)] by blast
  note reads = header_identity[OF b(6)]
  from assms(2) obtain fs rd0 where o: "map_o (map_file (written_dir crc files)) CHECKSUMMED_FILES = Ok fs"
      "validate_structure rd0 = Ok segment" "rd_files rd0 = fs" "read_u64 (fs ! HEADER) 8 = Some (rd_segment_id rd0)"
      "\<exists>v. read_u64 (fs ! HEADER) 40 = Some v \<and> rd_doc_count rd0 = ucast v"
    by (auto simp: open_segment_def and_then_eq_Ok unwrap_eq_Ok header_count_def index_o_def split: if_splits)
  have fs: "fs = bs" using mapped_files[OF b(2)] o(1) b(1) by blast
  note keep = validate_structure_keeps[OF o(2)]
  show "rd_segment_id segment = g" using keep(1) o(4) reads(1) fs b(3) by simp
  show "rd_doc_count segment = word_of_nat (length (docs data))"
    using keep(2) o(5) reads(2) fs b(3) by (auto simp: ucast_word_of_nat)
  have sym: "read_i64 (serialize_symbol_index data ixs) 0 = Some (i64_of_usize (length (symbols data)))"
    using b(5) by (simp add: serialize_symbol_index_def read_skips split: prod.splits)
  have "seg_file rd0 SYMBOL_INDEX = serialize_symbol_index data ixs"
    using o(3) fs b(4) by (simp add: seg_file_def)
  then have "sint (i64_of_usize (length (symbols data))) = int (rd_symbol_count segment)" using keep(3) sym by auto
  from arg_cong[OF this, of "word_of_int :: int \<Rightarrow> u64"]
  have "(word_of_nat (rd_symbol_count segment) :: u64) = word_of_nat (length (symbols data))"
    by (simp add: i64_of_usize_def)
  from arg_cong[OF this, of "ucast :: u64 \<Rightarrow> u32"] show "(word_of_nat (rd_symbol_count segment) :: u32) = word_of_nat (length (symbols data))"
    by (simp only: ucast_word_of_nat)
qed

section \<open>The store invariant\<close>

text \<open>The manifest on disk names the current generation, and opening it yields the current
  snapshot; a store without a manifest has no snapshot.\<close>
definition disk_ok :: "(byte list \<Rightarrow> u32) \<Rightarrow> (byte list \<Rightarrow> manifest option) \<Rightarrow> disk \<Rightarrow> snapshot option \<Rightarrow> bool" where
  "disk_ok crc parse d cur \<longleftrightarrow>
     (case cur of
        None \<Rightarrow> dk_files d MANIFEST_FILE = None
      | Some snap \<Rightarrow> (\<exists>b m. dk_files d MANIFEST_FILE = Some b \<and> parse b = Some m \<and>
          mf_schema_version m \<le> MANIFEST_SCHEMA_VERSION \<and>
          mf_segment_dir m = segment_path (mf_state_generation m) \<and> open_snapshot crc d m = Ok snap))"

lemma open_snapshot_fields:
  "open_snapshot crc d m = Ok snap \<Longrightarrow>
     sn_generation snap = mf_state_generation m \<and> sn_segment_dir snap = mf_segment_dir m \<and>
     sn_state_path snap = state_file_name (mf_state_generation m)"
  by (auto simp: open_snapshot_def and_then_eq_Ok split: if_splits)

lemma disk_ok_recover: "disk_ok crc parse d cur \<Longrightarrow> recover crc parse d = Ok cur"
  by (auto simp: disk_ok_def recover_def manifest_load_def not_less split: option.splits)

text \<open>The invariant survives any change that keeps the manifest and the current generation's files.\<close>

lemma disk_ok_cong:
  assumes "disk_ok crc parse d cur" and "dk_files d' MANIFEST_FILE = dk_files d MANIFEST_FILE"
    and "\<And>snap. cur = Some snap \<Longrightarrow>
      dk_dirs d' (segment_path (sn_generation snap)) = dk_dirs d (segment_path (sn_generation snap)) \<and>
      dk_files d' (state_file_name (sn_generation snap)) = dk_files d (state_file_name (sn_generation snap))"
  shows "disk_ok crc parse d' cur"
proof (cases cur)
  case None
  then show ?thesis using assms(1,2) by (simp add: disk_ok_def)
next
  case (Some snap)
  with assms(1) obtain b m where m: "dk_files d MANIFEST_FILE = Some b" "parse b = Some m"
    "mf_schema_version m \<le> MANIFEST_SCHEMA_VERSION" "mf_segment_dir m = segment_path (mf_state_generation m)"
    "open_snapshot crc d m = Ok snap" by (auto simp: disk_ok_def)
  have "open_snapshot crc d' m = open_snapshot crc d m"
    using assms(3)[OF Some] open_snapshot_fields[OF m(5)] m(4) by (intro open_snapshot_cong) simp_all
  then show ?thesis using m assms(2) Some by (auto simp: disk_ok_def)
qed

lemma disk_ok_debris: "disk_ok crc parse d cur \<Longrightarrow> disk_ok crc parse (remove_tmp_debris d) cur"
  by (erule disk_ok_cong) simp_all

text \<open>After the commit, the manifest on disk is the new one.\<close>

lemma committed_disk:
  assumes "\<And>m. parse (to_json m) = Some m"
    and "d' = apply_ops (publish_ops crc to_json d next files data payload NoFailpoint) d"
  shows "\<exists>b. dk_files d' MANIFEST_FILE = Some b \<and> parse b = Some (new_manifest crc next data payload)"
proof -
  let ?pre = "segment_publish_ops d next files (serialize_checksums crc files) @ state_tmp_ops crc next payload @
     state_commit_ops next"
  have "d' = apply_ops [WriteFile MANIFEST_TMP (to_json (new_manifest crc next data payload)),
      RenameFile MANIFEST_TMP MANIFEST_FILE, SyncDir []] (apply_ops ?pre d)"
    by (simp add: assms(2) publish_ops_split prepare_ops_def manifest_tmp_ops_def apply_ops_def)
  then show ?thesis using assms(1) by (simp add: apply_ops_def)
qed

lemma disk_ok_committed:
  assumes "\<And>m. parse (to_json m) = Some m"
    and "d' = apply_ops (publish_ops crc to_json d next files data payload NoFailpoint) d"
    and "open_snapshot crc d' (new_manifest crc next data payload) = Ok snap"
  shows "disk_ok crc parse d' (Some snap)"
  using committed_disk[OF assms(1,2)] assms(3)
  by (auto simp: disk_ok_def new_manifest_def)

lemma recover_committed:
  assumes "\<And>m. parse (to_json m) = Some m"
    and "d' = apply_ops (publish_ops crc to_json d next files data payload NoFailpoint) d"
  shows "recover crc parse (remove_tmp_debris d') =
           and_then (open_snapshot crc d' (new_manifest crc next data payload)) (\<lambda>snap. Ok (Some snap))"
proof -
  have "open_snapshot crc (remove_tmp_debris d') (new_manifest crc next data payload) =
      open_snapshot crc d' (new_manifest crc next data payload)"
    by (rule open_snapshot_cong) (simp_all add: new_manifest_def)
  then show ?thesis
    using committed_disk[OF assms]
    by (auto simp: recover_def manifest_load_def) (simp add: new_manifest_def)
qed

lemma crash_recovers_one:
  assumes codec: "\<And>m. parse (to_json m) = Some m" and inv: "disk_ok crc parse d cur"
    and fresh: "\<And>snap. cur = Some snap \<Longrightarrow> next \<noteq> sn_generation snap"
    and crash: "crash_state (publish_ops crc to_json d next files data payload NoFailpoint) d d'"
  shows "disk_ok crc parse d' cur \<or>
    d' = apply_ops (publish_ops crc to_json d next files data payload NoFailpoint) d"
  using crash_around_commit[OF crash[unfolded publish_ops_split]]
proof
  assume pre: "crash_state (prepare_ops crc to_json d next files data payload) d d'"
  have "disk_ok crc parse d' cur"
    by (rule disk_ok_cong[OF inv prepare_leaves_manifest[OF pre]])
      (use prepare_leaves_generation[OF pre] fresh in metis)
  then show ?thesis ..
qed (simp add: publish_ops_split)

section \<open>The live generation and the manifest\<close>

text \<open>A manifest that a publish wrote, or none.\<close>
definition manifest_ok :: "(byte list \<Rightarrow> manifest option) \<Rightarrow> disk \<Rightarrow> bool" where
  "manifest_ok parse d \<longleftrightarrow>
     (\<forall>b. dk_files d MANIFEST_FILE = Some b \<longrightarrow> (\<exists>m. parse b = Some m \<and> mf_schema_version m \<le> MANIFEST_SCHEMA_VERSION \<and>
        mf_segment_dir m = segment_path (mf_state_generation m)))"

text \<open>The files of the served snapshot are complete: it can be opened again.\<close>
definition live_ok :: "(byte list \<Rightarrow> u32) \<Rightarrow> disk \<Rightarrow> snapshot option \<Rightarrow> bool" where
  "live_ok crc d cur \<longleftrightarrow>
     (\<forall>snap. cur = Some snap \<longrightarrow>
        (\<exists>m. mf_segment_dir m = segment_path (mf_state_generation m) \<and> open_snapshot crc d m = Ok snap))"

text \<open>A publish has failed after its commit: the manifest on disk is one generation ahead of what is served.\<close>
definition ahead :: "(byte list \<Rightarrow> manifest option) \<Rightarrow> disk \<Rightarrow> u64 \<Rightarrow> bool" where
  "ahead parse d next \<longleftrightarrow>
     (\<exists>b m. dk_files d MANIFEST_FILE = Some b \<and> parse b = Some m \<and> mf_schema_version m \<le> MANIFEST_SCHEMA_VERSION \<and>
        mf_segment_dir m = segment_path (mf_state_generation m) \<and> mf_state_generation m = next)"

lemma disk_ok_live: "disk_ok crc parse d cur \<Longrightarrow> live_ok crc d cur"
  by (auto simp: disk_ok_def live_ok_def)

lemma disk_ok_manifest: "disk_ok crc parse d cur \<Longrightarrow> manifest_ok parse d"
  by (auto simp: disk_ok_def manifest_ok_def split: option.splits)

lemma ahead_manifest: "ahead parse d g \<Longrightarrow> manifest_ok parse d"
  by (auto simp: ahead_def manifest_ok_def)

lemma manifest_ok_debris: "manifest_ok parse d \<Longrightarrow> manifest_ok parse (remove_tmp_debris d)"
  by (simp add: manifest_ok_def)

lemma live_ok_cong:
  assumes "live_ok crc d cur"
    and "\<And>snap. cur = Some snap \<Longrightarrow>
      dk_dirs d' (segment_path (sn_generation snap)) = dk_dirs d (segment_path (sn_generation snap)) \<and>
      dk_files d' (state_file_name (sn_generation snap)) = dk_files d (state_file_name (sn_generation snap))"
  shows "live_ok crc d' cur"
  unfolding live_ok_def
proof (intro allI impI)
  fix snap assume cur: "cur = Some snap"
  with assms(1) obtain m where m: "mf_segment_dir m = segment_path (mf_state_generation m)" "open_snapshot crc d m = Ok snap"
    by (auto simp: live_ok_def)
  have "open_snapshot crc d' m = open_snapshot crc d m"
    using assms(2)[OF cur] open_snapshot_fields[OF m(2)] m(1) by (intro open_snapshot_cong) simp_all
  then show "\<exists>m. mf_segment_dir m = segment_path (mf_state_generation m) \<and> open_snapshot crc d' m = Ok snap" using m by auto
qed

text \<open>Whatever opens from a manifest that a publish wrote is what the disk recovers.\<close>
lemma recover_disk_ok:
  assumes "manifest_ok parse d" "recover crc parse d = Ok cur"
  shows "disk_ok crc parse d cur"
  using assms
  by (cases "dk_files d MANIFEST_FILE")
    (auto simp: manifest_ok_def recover_def manifest_load_def disk_ok_def and_then_eq_Ok ok_or_eq_Ok split: if_splits)

lemma commit_keeps_generation:
  assumes "g \<noteq> next" and "d' = apply_ops (publish_ops crc to_json d next files data payload NoFailpoint) d"
  shows "dk_dirs d' (segment_path g) = dk_dirs d (segment_path g)"
    and "dk_files d' (state_file_name g) = dk_files d (state_file_name g)"
proof -
  let ?pre = "prepare_ops crc to_json d next files data payload"
  note pre = prepare_leaves_generation[OF apply_ops_crash[of ?pre d] assms(1)]
  have "d' = apply_ops [RenameFile MANIFEST_TMP MANIFEST_FILE, SyncDir []] (apply_ops ?pre d)"
    using assms(2) by (simp add: publish_ops_split apply_ops_append)
  then show "dk_dirs d' (segment_path g) = dk_dirs d (segment_path g)"
    and "dk_files d' (state_file_name g) = dk_files d (state_file_name g)"
    using pre file_names_distinct(2,3)[of g] by (simp_all add: apply_ops_def)
qed

lemma ahead_committed:
  assumes "\<And>m. parse (to_json m) = Some m"
    and "d' = apply_ops (publish_ops crc to_json d next files data payload NoFailpoint) d"
  shows "ahead parse d' next"
  using committed_disk[OF assms] by (auto simp: ahead_def new_manifest_def)

text \<open>A publish that stops anywhere, with the store alive or not, leaves the served generation alone; the manifest is
  the old one, or the new one after the commit.\<close>
lemma stopped_publish:
  assumes codec: "\<And>m. parse (to_json m) = Some m"
    and fresh: "\<And>snap. cur = Some snap \<Longrightarrow> sn_generation snap \<noteq> next"
    and live: "live_ok crc d cur"
    and stop: "crash_state (publish_ops crc to_json d next files data payload NoFailpoint) d d'"
  shows "live_ok crc d' cur"
    and "(dk_files d' MANIFEST_FILE = dk_files d MANIFEST_FILE \<and> (disk_ok crc parse d cur \<longrightarrow> disk_ok crc parse d' cur)) \<or>
      d' = apply_ops (publish_ops crc to_json d next files data payload NoFailpoint) d"
proof -
  let ?full = "apply_ops (publish_ops crc to_json d next files data payload NoFailpoint) d"
  have cases: "crash_state (prepare_ops crc to_json d next files data payload) d d' \<or> d' = ?full"
    using crash_around_commit[OF stop[unfolded publish_ops_split]] by (simp add: publish_ops_split)
  show "live_ok crc d' cur"
    by (rule live_ok_cong[OF live])
      (use cases prepare_leaves_generation commit_keeps_generation[OF _ refl] fresh in metis)
  from cases show "(dk_files d' MANIFEST_FILE = dk_files d MANIFEST_FILE \<and> (disk_ok crc parse d cur \<longrightarrow> disk_ok crc parse d' cur)) \<or>
      d' = ?full"
  proof
    assume pre: "crash_state (prepare_ops crc to_json d next files data payload) d d'"
    have "disk_ok crc parse d' cur" if "disk_ok crc parse d cur"
      by (rule disk_ok_cong[OF that prepare_leaves_manifest[OF pre]])
        (use prepare_leaves_generation[OF pre] fresh in metis)
    then show ?thesis using prepare_leaves_manifest[OF pre] by blast
  qed blast
qed

section \<open>The store as a state machine\<close>

definition empty_disk :: disk where
  "empty_disk = \<lparr>dk_files = (\<lambda>_. None), dk_dirs = (\<lambda>_. None)\<rparr>"

text \<open>\<open>next_generation s \<noteq> 0\<close> says that the 64-bit generation counter has not wrapped. A publish that returns an
  error stops after any part of its disk operations, the last one possibly incomplete, and the store goes on
  serving what it served (\<open>failing\<close>); the error of the final \<open>open_snapshot\<close>, after the commit, is the case
  where all operations were done.\<close>
inductive reachable ::
  "(byte list \<Rightarrow> u32) \<Rightarrow> (byte list \<Rightarrow> manifest option) \<Rightarrow> (manifest \<Rightarrow> byte list) \<Rightarrow> store \<Rightarrow> bool"
  for crc parse to_json where
  boot: "store_open crc parse empty_disk = Ok s \<Longrightarrow> reachable crc parse to_json s"
| publishing: "reachable crc parse to_json s \<Longrightarrow> next_generation s \<noteq> 0 \<Longrightarrow>
    publish crc to_json data payload t s = (s', Ok snap) \<Longrightarrow> reachable crc parse to_json s'"
| failing: "reachable crc parse to_json s \<Longrightarrow> next_generation s \<noteq> 0 \<Longrightarrow>
    build_files crc (next_generation s) data t = Ok files \<Longrightarrow>
    crash_state (publish_ops crc to_json (st_disk s) (next_generation s) files data payload NoFailpoint) (st_disk s) d' \<Longrightarrow>
    reachable crc parse to_json (s\<lparr>st_disk := d'\<rparr>)"
| retaining: "reachable crc parse to_json s \<Longrightarrow> reachable crc parse to_json (fst (retain s))"
| releasing: "reachable crc parse to_json s \<Longrightarrow> reachable crc parse to_json (release g s)"
| janitor: "reachable crc parse to_json s \<Longrightarrow> reachable crc parse to_json (run_janitor s)"
| crashing: "reachable crc parse to_json s \<Longrightarrow> next_generation s \<noteq> 0 \<Longrightarrow>
    build_files crc (next_generation s) data t = Ok files \<Longrightarrow>
    crash_state (publish_ops crc to_json (st_disk s) (next_generation s) files data payload NoFailpoint) (st_disk s) d' \<Longrightarrow>
    store_open crc parse d' = Ok s' \<Longrightarrow> reachable crc parse to_json s'"
| crashing_janitor: "reachable crc parse to_json s \<Longrightarrow> crash_state (janitor_ops s) (st_disk s) d' \<Longrightarrow>
    store_open crc parse d' = Ok s' \<Longrightarrow> reachable crc parse to_json s'"
| restarting: "reachable crc parse to_json s \<Longrightarrow> store_open crc parse (st_disk s) = Ok s' \<Longrightarrow>
    reachable crc parse to_json s'"

definition retired_ok :: "snapshot option \<Rightarrow> retired \<Rightarrow> bool" where
  "retired_ok cur r \<longleftrightarrow>
     rt_segment_dir r = segment_path (rt_generation r) \<and> rt_state_path r = state_file_name (rt_generation r) \<and>
     (\<exists>snap. cur = Some snap \<and> unat (rt_generation r) < unat (sn_generation snap))"

definition held_ok :: "snapshot option \<Rightarrow> u64 \<Rightarrow> bool" where
  "held_ok cur g \<longleftrightarrow> (\<exists>snap. cur = Some snap \<and> unat g \<le> unat (sn_generation snap))"

definition store_ok :: "(byte list \<Rightarrow> u32) \<Rightarrow> (byte list \<Rightarrow> manifest option) \<Rightarrow> store \<Rightarrow> bool" where
  "store_ok crc parse s \<longleftrightarrow>
     live_ok crc (st_disk s) (st_current s) \<and>
     (disk_ok crc parse (st_disk s) (st_current s) \<or> ahead parse (st_disk s) (next_generation s)) \<and> list_all (retired_ok (st_current s)) (st_retired s) \<and>
     list_all (held_ok (st_current s)) (st_held s)"

text \<open>A janitor pass touches only retired generations that nobody holds.\<close>

lemma janitor_touches:
  assumes "list_all (retired_ok cur) (st_retired s)"
  shows "\<Union> (op_files ` set (janitor_ops s)) \<subseteq>
           state_file_name ` {rt_generation r |r. r \<in> set (st_retired s) \<and> rt_generation r \<notin> set (st_held s)}"
    and "\<Union> (op_dirs ` set (janitor_ops s)) \<subseteq>
           segment_path ` {rt_generation r |r. r \<in> set (st_retired s) \<and> rt_generation r \<notin> set (st_held s)}"
  using assms by (auto simp: janitor_ops_def list_all_iff retired_ok_def)

lemma janitor_leaves_manifest:
  assumes "list_all (retired_ok cur) (st_retired s)" and "crash_state (janitor_ops s) d d'"
  shows "dk_files d' MANIFEST_FILE = dk_files d MANIFEST_FILE"
proof (rule crash_state_files[OF assms(2)])
  have "MANIFEST_FILE \<notin> range state_file_name" using file_names_distinct(2) by (metis rangeE)
  then show "MANIFEST_FILE \<notin> \<Union> (op_files ` set (janitor_ops s))"
    using janitor_touches(1)[OF assms(1)] by blast
qed

lemma janitor_leaves:
  assumes "list_all (retired_ok cur) (st_retired s)" and "crash_state (janitor_ops s) d d'"
    and "\<And>r. r \<in> set (st_retired s) \<Longrightarrow> rt_generation r = g \<Longrightarrow> g \<in> set (st_held s)"
  shows "dk_dirs d' (segment_path g) = dk_dirs d (segment_path g)"
    and "dk_files d' (state_file_name g) = dk_files d (state_file_name g)"
proof -
  let ?gs = "{rt_generation r |r. r \<in> set (st_retired s) \<and> rt_generation r \<notin> set (st_held s)}"
  have g: "g \<notin> ?gs" using assms(3) by auto
  then have dir: "segment_path g \<notin> segment_path ` ?gs" using segment_path_inj by blast
  show "dk_dirs d' (segment_path g) = dk_dirs d (segment_path g)"
    by (rule crash_state_dirs[OF assms(2)]) (use janitor_touches(2)[OF assms(1)] dir in blast)
  have name: "state_file_name g \<notin> state_file_name ` ?gs" using g state_file_name_inj by blast
  show "dk_files d' (state_file_name g) = dk_files d (state_file_name g)"
    by (rule crash_state_files[OF assms(2)]) (use janitor_touches(1)[OF assms(1)] name in blast)
qed

lemma janitor_leaves_current:
  assumes "list_all (retired_ok (Some snap)) (st_retired s)" and "crash_state (janitor_ops s) (st_disk s) d'"
  shows "dk_dirs d' (segment_path (sn_generation snap)) = dk_dirs (st_disk s) (segment_path (sn_generation snap)) \<and>
      dk_files d' (state_file_name (sn_generation snap)) = dk_files (st_disk s) (state_file_name (sn_generation snap))"
proof -
  have "rt_generation r \<noteq> sn_generation snap" if "r \<in> set (st_retired s)" for r
    using assms(1) that by (auto simp: list_all_iff retired_ok_def)
  then show ?thesis using janitor_leaves[OF assms] by blast
qed

lemma janitor_disk_ok:
  assumes "list_all (retired_ok (st_current s)) (st_retired s)" and "crash_state (janitor_ops s) (st_disk s) d'"
  shows "disk_ok crc parse (st_disk s) (st_current s) \<Longrightarrow> disk_ok crc parse d' (st_current s)"
    and "live_ok crc (st_disk s) (st_current s) \<Longrightarrow> live_ok crc d' (st_current s)"
  using janitor_leaves_current[OF _ assms(2)] assms(1) janitor_leaves_manifest[OF assms]
  by (auto intro: disk_ok_cong live_ok_cong)

lemma janitor_ok:
  assumes "store_ok crc parse s" and "crash_state (janitor_ops s) (st_disk s) d'"
  shows "live_ok crc d' (st_current s)"
    and "disk_ok crc parse d' (st_current s) \<or> ahead parse d' (next_generation s)"
  using assms(1) janitor_disk_ok[OF _ assms(2)] janitor_leaves_manifest[OF _ assms(2)]
  by (auto simp: store_ok_def ahead_def)

lemma reopened_ok:
  assumes "store_open crc parse d = Ok s" and "manifest_ok parse d"
  shows "store_ok crc parse s \<and> disk_ok crc parse (st_disk s) (st_current s) \<and> st_held s = []"
proof -
  have "recover crc parse (remove_tmp_debris d) = Ok (st_current s)" "st_disk s = remove_tmp_debris d" "st_retired s = []" "st_held s = []"
    using assms(1) by (auto simp: store_open_def Let_def and_then_eq_Ok)
  moreover from recover_disk_ok[OF manifest_ok_debris[OF assms(2)] this(1)]
  have "disk_ok crc parse (remove_tmp_debris d) (st_current s)" .
  ultimately show ?thesis using disk_ok_live by (auto simp: store_ok_def)
qed

lemma store_ok_manifest: "store_ok crc parse s \<Longrightarrow> manifest_ok parse (st_disk s)"
  using disk_ok_manifest ahead_manifest by (auto simp: store_ok_def)

lemma next_fresh:
  assumes "next_generation s \<noteq> 0" and "st_current s = Some snap"
  shows "unat (next_generation s) = unat (sn_generation snap) + 1"
proof -
  let ?g = "sn_generation snap"
  have "unat (?g + 1) \<noteq> 0" using assms by (simp add: next_generation_def unat_eq_zero)
  moreover have "unat (?g + 1) = (unat ?g + 1) mod 2 ^ 64" by (simp add: unat_word_ariths)
  moreover have "unat ?g < 2 ^ 64" using unsigned_less[of ?g, where ?'a = nat] by simp
  ultimately have "unat (?g + 1) = unat ?g + 1" by (cases "unat ?g + 1 = 2 ^ 64") auto
  then show ?thesis using assms(2) by (simp add: next_generation_def)
qed

lemma publish_cases:
  assumes "publish crc to_json data payload t s = (s', Ok snap)"
  obtains files where "build_files crc (next_generation s) data t = Ok files"
    "open_snapshot crc (apply_ops (publish_ops crc to_json (st_disk s) (next_generation s) files data payload NoFailpoint)
       (st_disk s)) (new_manifest crc (next_generation s) data payload) = Ok snap"
    "s' = (run_janitor \<lparr>st_disk = apply_ops (publish_ops crc to_json (st_disk s) (next_generation s) files data payload
          NoFailpoint) (st_disk s), st_current = Some snap,
        st_retired = st_retired s @ (case st_current s of None \<Rightarrow> [] | Some old \<Rightarrow>
          [\<lparr>rt_generation = sn_generation old, rt_segment_dir = sn_segment_dir old, rt_state_path = sn_state_path old\<rparr>]),
        st_held = (case st_current s of None \<Rightarrow> [] | Some old \<Rightarrow> [sn_generation old]) @ st_held s\<rparr>)
        \<lparr>st_held := sn_generation snap # st_held s\<rparr>"
  using assms that
  by (cases s) (auto simp: publish_def publish_with_failpoint_def Let_def retire_def and_then_eq_Ok unwrap_eq_Ok
      split: outcome.splits option.splits prod.splits)

lemma current_fields:
  "live_ok crc d (Some snap) \<Longrightarrow>
     sn_segment_dir snap = segment_path (sn_generation snap) \<and> sn_state_path snap = state_file_name (sn_generation snap)"
  by (auto simp: live_ok_def dest!: open_snapshot_fields)

lemma next_generation_0: "st_current s = None \<Longrightarrow> next_generation s = 1"
  by (simp add: next_generation_def)

lemma publish_store_ok:
  assumes codec: "\<And>m. parse (to_json m) = Some m" and ok: "store_ok crc parse s" and wrap: "next_generation s \<noteq> 0"
    and pub: "publish crc to_json data payload t s = (s', Ok snap)"
  shows "store_ok crc parse s' \<and> disk_ok crc parse (st_disk s') (Some snap)"
proof -
  from pub obtain files where files: "build_files crc (next_generation s) data t = Ok files"
    and opened: "open_snapshot crc (apply_ops (publish_ops crc to_json (st_disk s) (next_generation s) files data payload
       NoFailpoint) (st_disk s)) (new_manifest crc (next_generation s) data payload) = Ok snap"
    and s': "s' = (run_janitor \<lparr>st_disk = apply_ops (publish_ops crc to_json (st_disk s) (next_generation s) files data payload
          NoFailpoint) (st_disk s), st_current = Some snap,
        st_retired = st_retired s @ (case st_current s of None \<Rightarrow> [] | Some old \<Rightarrow>
          [\<lparr>rt_generation = sn_generation old, rt_segment_dir = sn_segment_dir old, rt_state_path = sn_state_path old\<rparr>]),
        st_held = (case st_current s of None \<Rightarrow> [] | Some old \<Rightarrow> [sn_generation old]) @ st_held s\<rparr>)
        \<lparr>st_held := sn_generation snap # st_held s\<rparr>"
    by (rule publish_cases)
  let ?d = "apply_ops (publish_ops crc to_json (st_disk s) (next_generation s) files data payload NoFailpoint) (st_disk s)"
  let ?retired = "st_retired s @ (case st_current s of None \<Rightarrow> [] | Some old \<Rightarrow>
     [\<lparr>rt_generation = sn_generation old, rt_segment_dir = sn_segment_dir old, rt_state_path = sn_state_path old\<rparr>])"
  have gen: "sn_generation snap = next_generation s" using open_snapshot_fields[OF opened] by (simp add: new_manifest_def)
  have disk: "disk_ok crc parse ?d (Some snap)" using disk_ok_committed[OF codec refl opened] .
  have newer: "unat (sn_generation old) < unat (sn_generation snap)" if "st_current s = Some old" for old
    using next_fresh[OF wrap that] gen by simp
  have retired: "list_all (retired_ok (Some snap)) ?retired"
  proof (cases "st_current s")
    case None
    then have "st_retired s = []" using ok by (auto simp: store_ok_def list_all_iff retired_ok_def)
    then show ?thesis by (simp add: None)
  next
    case (Some old)
    then show ?thesis
      using ok newer[OF Some] current_fields[of crc "st_disk s" old]
      by (auto simp: store_ok_def list_all_iff retired_ok_def)
  qed
  have held: "list_all (held_ok (Some snap)) (sn_generation snap # st_held s)"
    using ok newer by (fastforce simp: store_ok_def list_all_iff held_ok_def)
  let ?s3 = "\<lparr>st_disk = ?d, st_current = Some snap, st_retired = ?retired,
        st_held = (case st_current s of None \<Rightarrow> [] | Some old \<Rightarrow> [sn_generation old]) @ st_held s\<rparr>"
  have "disk_ok crc parse (apply_ops (janitor_ops ?s3) ?d) (Some snap)"
    using janitor_disk_ok(1)[of ?s3 _ crc parse] disk retired apply_ops_crash[of "janitor_ops ?s3" ?d] by simp
  then show ?thesis
    using retired held disk_ok_live by (auto simp: s' store_ok_def run_janitor_def list_all_iff)
qed

lemma stopped_publish_ok:
  assumes codec: "\<And>m. parse (to_json m) = Some m" and ok: "store_ok crc parse s" and wrap: "next_generation s \<noteq> 0"
    and stop: "crash_state (publish_ops crc to_json (st_disk s) (next_generation s) files data payload NoFailpoint)
      (st_disk s) d'"
  shows "live_ok crc d' (st_current s)"
    and "disk_ok crc parse d' (st_current s) \<or> ahead parse d' (next_generation s)"
proof -
  have fresh: "sn_generation snap \<noteq> next_generation s" if "st_current s = Some snap" for snap
    using next_fresh[OF wrap that] by auto
  have live: "live_ok crc (st_disk s) (st_current s)" using ok by (simp add: store_ok_def)
  note st = stopped_publish[OF codec fresh live stop]
  show "live_ok crc d' (st_current s)" by (rule st(1))
  from st(2) show "disk_ok crc parse d' (st_current s) \<or> ahead parse d' (next_generation s)"
    using ok ahead_committed[OF codec] by (auto simp: store_ok_def ahead_def)
qed

lemma reachable_store_ok:
  assumes codec: "\<And>m. parse (to_json m) = Some m" and "reachable crc parse to_json s"
  shows "store_ok crc parse s"
  using assms(2)
proof (induction rule: reachable.induct)
  case (boot s)
  have "manifest_ok parse empty_disk" by (simp add: manifest_ok_def empty_disk_def)
  then show ?case using reopened_ok[OF boot] by blast
next
  case (publishing s data payload t s' snap)
  then show ?case using publish_store_ok[OF codec] by blast
next
  case (failing s data t files payload d')
  then show ?case using stopped_publish_ok[OF codec failing.IH failing.hyps(2,4)] by (simp add: store_ok_def next_generation_def)
next
  case (retaining s)
  then show ?case by (auto simp: retain_def store_ok_def held_ok_def next_generation_def split: option.splits)
next
  case (releasing s g)
  then show ?case by (auto simp: release_def store_ok_def list_all_iff next_generation_def dest: notin_set_remove1)
next
  case (janitor s)
  then show ?case
    using janitor_ok[OF janitor.IH apply_ops_crash] by (auto simp: run_janitor_def store_ok_def list_all_iff next_generation_def)
next
  case (crashing s data t files payload d' s')
  have "manifest_ok parse d'"
    using stopped_publish_ok(2)[OF codec crashing.IH crashing.hyps(2,4)] disk_ok_manifest ahead_manifest by blast
  from reopened_ok[OF crashing.hyps(5) this] show ?case by blast
next
  case (crashing_janitor s d' s')
  have "manifest_ok parse d'"
    using janitor_ok(2)[OF crashing_janitor.IH crashing_janitor.hyps(2)] disk_ok_manifest ahead_manifest by blast
  from reopened_ok[OF crashing_janitor.hyps(3) this] show ?case by blast
next
  case (restarting s s')
  from reopened_ok[OF restarting.hyps(2) store_ok_manifest[OF restarting.IH]] show ?case by blast
qed

lemma publish_leaves_held:
  assumes codec: "\<And>m. parse (to_json m) = Some m" and ok: "store_ok crc parse s" and wrap: "next_generation s \<noteq> 0"
    and pub: "publish crc to_json data payload t s = (s', Ok snap)" and g: "g \<in> set (st_held s)"
  shows "dk_dirs (st_disk s') (segment_path g) = dk_dirs (st_disk s) (segment_path g)"
    and "dk_files (st_disk s') (state_file_name g) = dk_files (st_disk s) (state_file_name g)"
proof -
  from pub obtain files where files: "build_files crc (next_generation s) data t = Ok files"
    and opened: "open_snapshot crc (apply_ops (publish_ops crc to_json (st_disk s) (next_generation s) files data payload
       NoFailpoint) (st_disk s)) (new_manifest crc (next_generation s) data payload) = Ok snap"
    and s': "s' = (run_janitor \<lparr>st_disk = apply_ops (publish_ops crc to_json (st_disk s) (next_generation s) files data payload
          NoFailpoint) (st_disk s), st_current = Some snap,
        st_retired = st_retired s @ (case st_current s of None \<Rightarrow> [] | Some old \<Rightarrow>
          [\<lparr>rt_generation = sn_generation old, rt_segment_dir = sn_segment_dir old, rt_state_path = sn_state_path old\<rparr>]),
        st_held = (case st_current s of None \<Rightarrow> [] | Some old \<Rightarrow> [sn_generation old]) @ st_held s\<rparr>)
        \<lparr>st_held := sn_generation snap # st_held s\<rparr>"
    by (rule publish_cases)
  let ?d = "apply_ops (publish_ops crc to_json (st_disk s) (next_generation s) files data payload NoFailpoint) (st_disk s)"
  from ok g obtain old where old: "st_current s = Some old" "unat g \<le> unat (sn_generation old)"
    by (auto simp: store_ok_def list_all_iff held_ok_def)
  then have "g \<noteq> next_generation s" using next_fresh[OF wrap old(1)] by auto
  note d = commit_keeps_generation[OF this refl, where d = "st_disk s"]
  let ?s3 = "\<lparr>st_disk = ?d, st_current = Some snap,
        st_retired = st_retired s @ (case st_current s of None \<Rightarrow> [] | Some old \<Rightarrow>
          [\<lparr>rt_generation = sn_generation old, rt_segment_dir = sn_segment_dir old, rt_state_path = sn_state_path old\<rparr>]),
        st_held = (case st_current s of None \<Rightarrow> [] | Some old \<Rightarrow> [sn_generation old]) @ st_held s\<rparr>"
  have s3: "list_all (retired_ok (Some old')) (st_retired ?s3)" if "unat (sn_generation old) < unat (sn_generation old')" for old'
    using ok old that current_fields[of crc "st_disk s" old]
    by (auto simp: store_ok_def list_all_iff retired_ok_def)
  have "unat (sn_generation old) < unat (sn_generation snap)"
    using open_snapshot_fields[OF opened] next_fresh[OF wrap old(1)] by (simp add: new_manifest_def)
  from janitor_leaves[OF s3[OF this] apply_ops_crash[of "janitor_ops ?s3" ?d], of g] d[of crc to_json files data payload] g
  show "dk_dirs (st_disk s') (segment_path g) = dk_dirs (st_disk s) (segment_path g)"
    and "dk_files (st_disk s') (state_file_name g) = dk_files (st_disk s) (state_file_name g)"
    by (simp_all add: s' run_janitor_def)
qed

section \<open>Properties\<close>

text \<open>The snapshot of a published generation: the segment that opens from the written files, the state payload.\<close>
definition published_snapshot :: "u64 \<Rightarrow> segment_reader \<Rightarrow> byte list \<Rightarrow> snapshot" where
  "published_snapshot g segment payload =
     \<lparr>sn_segment = segment, sn_state = \<lparr>ws_generation = g, ws_payload = payload\<rparr>, sn_segment_id = g,
      sn_generation = g, sn_segment_dir = segment_path g, sn_state_path = state_file_name g\<rparr>"

lemma published_snapshot_opens:
  assumes "build_files crc g data t = Ok files" "open_segment crc (written_dir crc files) = Ok segment"
    and "length payload + 32 < 2 ^ 64"
    and "d' = apply_ops (publish_ops crc to_json d g files data payload NoFailpoint) d"
  shows "open_snapshot crc d' (new_manifest crc g data payload) = Ok (published_snapshot g segment payload)"
proof -
  have "dir_files d' (segment_path g) = written_dir crc files"
    using published_dir_files[OF assms(1)] assms(4) by simp
  moreover have "load_state crc (dk_files d' (state_file_name g)) g (payload_checksum crc payload) =
      Ok \<lparr>ws_generation = g, ws_payload = payload\<rparr>"
    using load_serialized[OF assms(3)] by (simp add: assms(4) published_state)
  ultimately show ?thesis
    using written_identity[OF assms(1,2)] assms(2)
    by (simp add: open_snapshot_def new_manifest_def canonical_segment_path published_snapshot_def)
qed

lemma synced_disk_ok:
  assumes "store_ok crc parse s" "recover crc parse (st_disk s) = Ok (st_current s)"
  shows "disk_ok crc parse (st_disk s) (st_current s)"
  using recover_disk_ok[OF store_ok_manifest[OF assms(1)] assms(2)] .

text \<open>
  C1: Crash safety of publishing. Take a store whose disk recovers to what it serves, and publish a generation whose
  written segment opens. A crash at any point, with the operation in progress torn, leaves a disk that
  recovers: to the current snapshot as long as the manifest is the old one, and from the manifest rename on to
  the new generation, which opens with the written segment and exactly the published state.
\<close>
theorem publish_crash_safe:
  assumes "\<And>m. parse (to_json m) = Some m" and "reachable crc parse to_json s" and "next_generation s \<noteq> 0"
    and "recover crc parse (st_disk s) = Ok (st_current s)"
    and "build_files crc (next_generation s) data t = Ok files"
    and "open_segment crc (written_dir crc files) = Ok segment" and "length payload + 32 < 2 ^ 64"
    and "crash_state (publish_ops crc to_json (st_disk s) (next_generation s) files data payload NoFailpoint)
      (st_disk s) d'"
  shows "recover crc parse (remove_tmp_debris d') =
    Ok (if dk_files d' MANIFEST_FILE = dk_files (st_disk s) MANIFEST_FILE then st_current s
        else Some (published_snapshot (next_generation s) segment payload))"
proof -
  have ok: "store_ok crc parse s" by (rule reachable_store_ok[OF assms(1,2)])
  note disk = synced_disk_ok[OF ok assms(4)]
  have fresh: "sn_generation snap \<noteq> next_generation s" if "st_current s = Some snap" for snap
    using next_fresh[OF assms(3) that] by auto
  from stopped_publish(2)[OF assms(1) fresh disk_ok_live[OF disk] assms(8)] show ?thesis
  proof
    assume "dk_files d' MANIFEST_FILE = dk_files (st_disk s) MANIFEST_FILE \<and>
      (disk_ok crc parse (st_disk s) (st_current s) \<longrightarrow> disk_ok crc parse d' (st_current s))"
    then show ?thesis using disk_ok_recover[OF disk_ok_debris] disk by simp
  next
    assume d': "d' = apply_ops (publish_ops crc to_json (st_disk s) (next_generation s) files data payload NoFailpoint) (st_disk s)"
    obtain b where b: "dk_files d' MANIFEST_FILE = Some b" "parse b = Some (new_manifest crc (next_generation s) data payload)"
      using committed_disk[OF assms(1) d'] by blast
    have "dk_files (st_disk s) MANIFEST_FILE \<noteq> Some b"
      using disk b(2) fresh
      by (auto simp: disk_ok_def new_manifest_def split: option.splits dest: open_snapshot_fields)
    then show ?thesis
      using recover_committed[OF assms(1) d'] published_snapshot_opens[OF assms(5-7) d'] b(1) by simp
  qed
qed

text \<open>
  C8: What is served stays on disk. In every reachable store - through publishes that succeed or fail at any point,
  retained and released snapshots, janitor passes, crashes and restarts - the served snapshot can be opened again
  from its files; a restart recovers exactly it, unless a publish failed after its commit, and then the
  manifest names the generation after it; and a publish that succeeds makes disk and served snapshot agree.
\<close>
theorem live_snapshot_is_recoverable:
  assumes "\<And>m. parse (to_json m) = Some m" and "reachable crc parse to_json s"
  shows "(\<forall>snap. st_current s = Some snap \<longrightarrow>
      (\<exists>m. mf_state_generation m = sn_generation snap \<and> open_snapshot crc (st_disk s) m = Ok snap)) \<and>
    (recover crc parse (st_disk s) = Ok (st_current s) \<or>
      (\<exists>b m. dk_files (st_disk s) MANIFEST_FILE = Some b \<and> parse b = Some m \<and> mf_state_generation m = next_generation s)) \<and>
    (\<forall>data payload t s' snap. next_generation s \<noteq> 0 \<and> publish crc to_json data payload t s = (s', Ok snap) \<longrightarrow>
      st_current s' = Some snap \<and> recover crc parse (st_disk s') = Ok (Some snap))"
proof -
  have ok: "store_ok crc parse s" by (rule reachable_store_ok[OF assms])
  have "st_current s' = Some snap" if "publish crc to_json data payload t s = (s', Ok snap)" for data payload t s' snap
    using that by (rule publish_cases) (simp add: run_janitor_def)
  moreover have "\<exists>m. mf_state_generation m = sn_generation snap \<and> open_snapshot crc (st_disk s) m = Ok snap" if "st_current s = Some snap" for snap
    using ok that open_snapshot_fields unfolding store_ok_def live_ok_def by metis
  moreover have "recover crc parse (st_disk s) = Ok (st_current s) \<or>
      (\<exists>b m. dk_files (st_disk s) MANIFEST_FILE = Some b \<and> parse b = Some m \<and> mf_state_generation m = next_generation s)"
    using ok disk_ok_recover unfolding store_ok_def ahead_def by blast
  ultimately show ?thesis using disk_ok_recover publish_store_ok[OF assms(1) ok] by blast
qed

text \<open>
  C7: A reader never loses its snapshot's files: in every reachable store, a janitor pass, and a publish that
  succeeds, leave the segment directory and the state file of every retained generation untouched.
\<close>
theorem retained_files_untouched:
  assumes "\<And>m. parse (to_json m) = Some m" and "reachable crc parse to_json s" and "g \<in> set (st_held s)"
  shows "dk_dirs (st_disk (run_janitor s)) (segment_path g) = dk_dirs (st_disk s) (segment_path g) \<and>
    dk_files (st_disk (run_janitor s)) (state_file_name g) = dk_files (st_disk s) (state_file_name g) \<and>
    (next_generation s \<noteq> 0 \<and> publish crc to_json data payload t s = (s', Ok snap) \<longrightarrow>
      dk_dirs (st_disk s') (segment_path g) = dk_dirs (st_disk s) (segment_path g) \<and>
      dk_files (st_disk s') (state_file_name g) = dk_files (st_disk s) (state_file_name g))"
proof (intro conjI impI)
  have ok: "store_ok crc parse s" by (rule reachable_store_ok[OF assms(1,2)])
  have "crash_state (janitor_ops s) (st_disk s) (st_disk (run_janitor s))"
    by (simp add: run_janitor_def apply_ops_crash)
  from janitor_leaves[OF _ this] ok assms(3)
  show "dk_dirs (st_disk (run_janitor s)) (segment_path g) = dk_dirs (st_disk s) (segment_path g)"
    "dk_files (st_disk (run_janitor s)) (state_file_name g) = dk_files (st_disk s) (state_file_name g)"
    unfolding store_ok_def by blast+
next
  assume pub: "next_generation s \<noteq> 0 \<and> publish crc to_json data payload t s = (s', Ok snap)"
  show "dk_dirs (st_disk s') (segment_path g) = dk_dirs (st_disk s) (segment_path g)"
    and "dk_files (st_disk s') (state_file_name g) = dk_files (st_disk s) (state_file_name g)"
    using publish_leaves_held[OF assms(1) reachable_store_ok[OF assms(1,2)] _ _ assms(3)] pub by blast+
qed

end
