(* ===== verification/Sample_Segment.thy ===== *)
theory Sample_Segment
  imports Segment_Open
begin

text \<open>
  A concrete segment, byte for byte: one document, one symbol, one reference occurrence in
  one target, the format of \<open>docs/\<close> section by section. It is what the writer emits for
  that input, and it opens; the lookups' hypotheses are met on it.
\<close>

definition sample_crc :: "byte list \<Rightarrow> u32" where
  "sample_crc bs = of_nat (length bs)"

definition sample_files :: "byte list list" where
  "sample_files =
     [[76, 83, 80, 71, 1, 0, 0, 0, 1, 0, 0, 0, 0, 0, 0, 0, 2, 0, 0, 0, 0, 0, 0, 0, 1, 0, 0, 0, 0, 0,
       0, 0, 1, 0, 0, 0, 0, 0, 0, 0, 1, 0, 0, 0, 0, 0, 0, 0, 2, 0, 0, 0, 0, 0, 0, 0, 56, 0, 0, 0, 0,
       0, 0, 0],
      [1, 0, 0, 0, 0, 0, 0, 0, 0, 0, 0, 0, 0, 0, 0, 0, 1, 0, 0, 0, 0, 0, 0, 0],
      [1, 0, 0, 0, 0, 0, 0, 0, 0, 0, 0, 0, 0, 0, 0, 0, 0, 0, 0, 0, 255, 255, 255, 255],
      [1, 0, 0, 0, 0, 0, 0, 0, 0, 0, 0, 0, 0, 0, 0, 0, 0, 0, 0, 0, 255, 255, 255, 255, 0, 0, 0, 0,
       0, 0, 0, 0, 0, 0, 0, 0, 0, 0, 0, 0],
      [1, 0, 0, 0, 0, 0, 0, 0, 1, 0, 0, 0, 0, 0, 0, 0, 1, 0, 0, 0, 0, 0, 0, 0, 0, 0, 0, 0, 1, 0, 0,
       0, 7, 0, 0, 0, 0, 0, 0, 0, 1, 0, 0, 0, 0, 0, 0, 0, 0, 0, 0, 0, 0, 0, 0, 0, 0, 0, 0, 0, 0, 0,
       0, 0, 1, 0, 0, 0, 1, 0, 0, 0, 1, 0, 0, 0, 1, 0, 0, 0, 0, 0, 0, 0, 0, 0, 0, 0, 1, 0, 0, 0, 0,
       0, 0, 0, 97],
      [1, 0, 0, 0, 0, 0, 0, 0, 1, 0, 0, 0, 0, 0, 0, 0, 2, 0, 0, 0, 0, 0, 0, 0, 0, 0, 0, 0, 2, 0, 0,
       0, 3, 0, 0, 0, 0, 0, 0, 0, 0, 0, 0, 0, 0, 0, 0, 0, 0, 0, 0, 0, 0, 0, 0, 0, 5, 0, 0, 0, 0, 0,
       0, 0, 65, 35],
      [1, 0, 0, 0, 0, 0, 0, 0, 0, 0, 0, 0, 1, 0, 0, 0, 0, 0, 0, 0, 2, 16, 0, 0, 3, 16, 0, 0, 0, 0,
       0, 0],
      [0, 0, 0, 0, 0, 0, 0, 0],
      [0, 0, 0, 0, 0, 0, 0, 0],
      [1, 0, 0, 0, 0, 0, 0, 0, 0, 0, 0, 0, 2, 16, 0, 0, 3, 16, 0, 0, 0, 0, 0, 0],
      [1, 0, 0, 0, 0, 0, 0, 0, 1, 0, 0, 0, 0, 1, 0, 0, 0, 0, 0, 0, 0, 0, 0, 0, 1, 0, 0, 0, 0, 0, 0,
       0, 1, 0, 0, 0, 0, 0, 0, 0, 0, 0, 0, 0, 0, 0, 0, 0, 1, 0, 0, 0, 1, 0, 0, 0, 1, 0, 0, 0, 0, 0,
       0, 0],
      [1, 0, 0, 0, 0, 0, 0, 0, 0, 0, 0, 0, 0, 0, 0, 0, 0, 0, 0, 0, 0, 0, 0, 0, 0, 0, 0, 0, 0, 0, 0,
       0, 0, 0, 0, 0, 0, 0, 0, 0, 0, 0, 0, 0, 0, 0, 0, 0, 0, 0, 0, 0, 0, 0, 0, 0, 0, 0, 0, 0, 0, 0,
       0, 0],
      [1, 0, 0, 0, 0, 0, 0, 0, 0, 0, 0, 0, 0, 0, 0, 0, 0, 0, 0, 0, 0, 0, 0, 0, 0, 0, 0, 0, 0, 0, 0,
       0, 0, 0, 0, 0, 0, 0, 0, 0, 0, 0, 0, 0, 0, 0, 0, 0, 0, 0, 0, 0, 0, 0, 0, 0, 0, 0, 0, 0, 0, 0,
       0, 0],
      [0, 0, 0, 0, 0, 0, 0, 0, 0, 0, 0, 0, 0, 0, 0, 0]]"

definition sample_checksums :: "byte list" where
  "sample_checksums =
      [14, 0, 0, 0, 0, 0, 0, 0, 10, 0, 0, 0, 104, 101, 97, 100, 101, 114, 46, 98, 105, 110, 64, 0,
       0, 0, 0, 0, 0, 0, 19, 0, 0, 0, 114, 101, 102, 45, 103, 114, 111, 117, 112, 45, 105, 110, 100,
       101, 120, 46, 98, 105, 110, 24, 0, 0, 0, 0, 0, 0, 0, 26, 0, 0, 0, 100, 101, 102, 105, 110,
       105, 116, 105, 111, 110, 45, 103, 114, 111, 117, 112, 45, 105, 110, 100, 101, 120, 46, 98,
       105, 110, 24, 0, 0, 0, 0, 0, 0, 0, 22, 0, 0, 0, 114, 101, 110, 97, 109, 101, 45, 103, 114,
       111, 117, 112, 45, 105, 110, 100, 101, 120, 46, 98, 105, 110, 40, 0, 0, 0, 0, 0, 0, 0, 13, 0,
       0, 0, 100, 111, 99, 45, 105, 110, 100, 101, 120, 46, 98, 105, 110, 97, 0, 0, 0, 0, 0, 0, 0,
       16, 0, 0, 0, 115, 121, 109, 98, 111, 108, 45, 105, 110, 100, 101, 120, 46, 98, 105, 110, 66,
       0, 0, 0, 0, 0, 0, 0, 16, 0, 0, 0, 114, 101, 102, 45, 112, 111, 115, 116, 105, 110, 103, 115,
       46, 98, 105, 110, 32, 0, 0, 0, 0, 0, 0, 0, 23, 0, 0, 0, 100, 101, 102, 105, 110, 105, 116,
       105, 111, 110, 45, 112, 111, 115, 116, 105, 110, 103, 115, 46, 98, 105, 110, 8, 0, 0, 0, 0,
       0, 0, 0, 19, 0, 0, 0, 114, 101, 110, 97, 109, 101, 45, 112, 111, 115, 116, 105, 110, 103,
       115, 46, 98, 105, 110, 8, 0, 0, 0, 0, 0, 0, 0, 16, 0, 0, 0, 100, 111, 99, 45, 112, 111, 115,
       116, 105, 110, 103, 115, 46, 98, 105, 110, 24, 0, 0, 0, 0, 0, 0, 0, 15, 0, 0, 0, 98, 108,
       111, 99, 107, 45, 105, 110, 100, 101, 120, 46, 98, 105, 110, 64, 0, 0, 0, 0, 0, 0, 0, 15, 0,
       0, 0, 116, 97, 114, 103, 101, 116, 45, 109, 101, 116, 97, 46, 98, 105, 110, 64, 0, 0, 0, 0,
       0, 0, 0, 15, 0, 0, 0, 115, 121, 109, 98, 111, 108, 45, 109, 101, 116, 97, 46, 98, 105, 110,
       64, 0, 0, 0, 0, 0, 0, 0, 10, 0, 0, 0, 115, 101, 97, 114, 99, 104, 46, 98, 105, 110, 16, 0, 0,
       0, 0, 0, 0, 0]"

definition sample_dir :: "string \<Rightarrow> mapped" where
  "sample_dir name =
     (if name = CHECKSUMS_FILE then Contents sample_checksums
      else case map_of (zip CHECKSUMMED_FILES sample_files) name of Some f \<Rightarrow> Contents f | None \<Rightarrow> NotFound)"

definition sample_unchecked :: segment_reader where
  "sample_unchecked =
     \<lparr>rd_files = sample_files, rd_segment_id = 1, rd_created_at_ms = 2, rd_ref_group_count = 1,
      rd_rename_group_count = 1, rd_doc_count = 1, rd_occurrence_count = 2, rd_symbol_count = 0,
      rd_target_count = 0, rd_words = 0, rd_doc_epochs = []\<rparr>"

definition sample_reader :: segment_reader where
  "sample_reader =
     sample_unchecked\<lparr>rd_symbol_count := 1, rd_target_count := 1, rd_words := 1, rd_doc_epochs := [1]\<rparr>"

lemma sample_mapped: "map_o (map_file sample_dir) CHECKSUMMED_FILES = Ok sample_files"
  by code_simp

lemma sample_checksums_mapped: "map_file sample_dir CHECKSUMS_FILE = Ok sample_checksums"
  by (simp add: map_file_def sample_dir_def)

lemma sample_checksums_match: "verify_checksums sample_crc sample_checksums sample_files = Ok ()"
  by code_simp

lemma sample_validates: "validate_structure sample_unchecked = Ok sample_reader"
  by code_simp

lemma sample_header:
  "index_o sample_files HEADER = (Ok (hd sample_files) :: byte list seg_result)" "length (hd sample_files) = HEADER_SIZE"
  "read_u32 (hd sample_files) 0 = Some MAGIC" "read_u16 (hd sample_files) 4 = Some VERSION"
  "read_u16 (hd sample_files) 6 = Some 0"
  "read_u64 (hd sample_files) HEADER_CHECKSUM_OFFSET =
     Some (ucast (sample_crc (take HEADER_CHECKSUM_OFFSET (hd sample_files))))"
  "read_u64 (hd sample_files) 8 = Some 1" "read_i64 (hd sample_files) 16 = Some 2"
  "header_count (hd sample_files) 24 ''ref_group_count'' = Ok 1"
  "header_count (hd sample_files) 32 ''rename_group_count'' = Ok 1"
  "header_count (hd sample_files) 40 ''doc_count'' = Ok 1" "read_u64 (hd sample_files) 48 = Some 2"
  by code_simp+

lemma sample_opens: "open_segment sample_crc sample_dir = Ok sample_reader"
  by (simp add: open_segment_def sample_mapped sample_checksums_mapped sample_header sample_checksums_match
      sample_validates flip: sample_unchecked_def)

end
