(* ===== verification/Sample_Store.thy ===== *)
theory Sample_Store
  imports Store_Recovery Sample_Segment
begin

text \<open>
  A concrete run of the store: booted on an empty disk, it publishes the segment of
  \<open>Sample_Segment\<close> and opens it, so a store that holds a snapshot is reachable. The manifest printer and
  parser are instantiated by a binary encoding.
\<close>

section \<open>A manifest encoding\<close>

definition sample_to_json :: "manifest \<Rightarrow> byte list" where
  "sample_to_json m =
     put_u32 (mf_schema_version m) @ put_u64 (mf_segment_id m) @ put_u64 (mf_state_generation m) @
     put_u32 (mf_state_checksum m) @ put_u32 (mf_doc_count m) @ put_u32 (mf_symbol_count m) @ mf_segment_dir m"

definition sample_parse :: "byte list \<Rightarrow> manifest option" where
  "sample_parse b =
     (case (read_u32 b 0, read_u64 b 4, read_u64 b 12, read_u32 b 20, read_u32 b 24, read_u32 b 28) of
        (Some v, Some i, Some g, Some c, Some n, Some k) \<Rightarrow>
          Some \<lparr>mf_schema_version = v, mf_segment_id = i, mf_segment_dir = drop 32 b, mf_state_generation = g,
                mf_state_checksum = c, mf_doc_count = n, mf_symbol_count = k\<rparr>
      | _ \<Rightarrow> None)"

lemma sample_parse_to_json: "sample_parse (sample_to_json m) = Some m"
  by (simp add: sample_parse_def sample_to_json_def read_skips)

section \<open>The run\<close>

definition sample_data :: segment_data where
  "sample_data =
     \<lparr>docs = [\<lparr>sd_uri = lit ''a'', sd_doc_id = 7, sd_epoch = 1, sd_target_ord = 0, sd_generated = False,
               sd_readonly = False\<rparr>],
      targets = [5],
      symbols = [\<lparr>ss_semantic_symbol = lit ''A#'', ss_symbol_id = 3, ss_ref_group_ord = 0,
                  ss_rename_group_ord = 0, ss_def_target_ord = 0\<rparr>],
      ref_occurrences = [[\<lparr>go_doc_ord = 0, go_doc_epoch = 1, go_target_ord = 0, go_span = new_span 1 2 1 3,
                           go_flags = 0\<rparr>]],
      def_occurrences = [[]], rename_occurrences = [[]],
      rename_profiles = [\<lparr>sp_is_local = False, sp_is_external = False, sp_has_generated = False,
        sp_has_readonly = False, sp_has_override_family = False, sp_has_companion = False,
        sp_editable_occurrence_count = 0, sp_unsafe_reason_mask = 0\<rparr>],
      doc_occurrences = [[\<lparr>do_symbol_ord = 0, do_span = new_span 1 2 1 3, do_flags = 0\<rparr>]],
      target_metas = [], symbol_metas = [], search_rows = []\<rparr>"

definition sample_boot :: store where
  "sample_boot = \<lparr>st_disk = empty_disk, st_current = None, st_retired = [], st_held = []\<rparr>"

lemma sample_built: "build_files sample_crc 1 sample_data 2 = Ok (zip CHECKSUMMED_FILES sample_files)"
  by code_simp

lemma sample_checksums_written:
  "serialize_checksums sample_crc (zip CHECKSUMMED_FILES sample_files) = sample_checksums"
  by code_simp

lemma sample_booted: "store_open sample_crc sample_parse empty_disk = Ok sample_boot"
proof -
  have "remove_tmp_debris empty_disk = empty_disk" by (auto simp: remove_tmp_debris_def empty_disk_def)
  then show ?thesis
    by (simp add: store_open_def recover_def manifest_load_def sample_boot_def) (simp add: empty_disk_def)
qed

lemma sample_boot_reachable: "reachable sample_crc sample_parse sample_to_json sample_boot"
  using sample_booted by (rule reachable.boot)

definition sample_disk :: disk where
  "sample_disk = apply_ops (publish_ops sample_crc sample_to_json empty_disk 1 (zip CHECKSUMMED_FILES sample_files)
     sample_data [9] NoFailpoint) empty_disk"

definition sample_snapshot :: snapshot where
  "sample_snapshot =
     \<lparr>sn_segment = sample_reader, sn_state = \<lparr>ws_generation = 1, ws_payload = [9]\<rparr>, sn_segment_id = 1,
      sn_generation = 1, sn_segment_dir = segment_path 1, sn_state_path = state_file_name 1\<rparr>"

definition sample_store :: store where
  "sample_store = \<lparr>st_disk = sample_disk, st_current = Some sample_snapshot, st_retired = [], st_held = [1]\<rparr>"

lemma sample_dir_files: "dir_files sample_disk (segment_path 1) = sample_dir"
proof -
  have names: "distinct (map fst (zip CHECKSUMMED_FILES sample_files))"
    "CHECKSUMS_FILE \<notin> set (map fst (zip CHECKSUMMED_FILES sample_files))" by code_simp+
  show ?thesis
    by (rule ext)
      (simp add: dir_files_def sample_disk_def published_dir[OF names] sample_dir_def sample_checksums_written
        split: option.splits)
qed

lemma sample_snapshot_opens:
  "open_snapshot sample_crc sample_disk (new_manifest sample_crc 1 sample_data [9]) = Ok sample_snapshot"
proof -
  have state: "load_state sample_crc (dk_files sample_disk (state_file_name 1)) 1 (payload_checksum sample_crc [9]) =
      Ok \<lparr>ws_generation = 1, ws_payload = [9]\<rparr>"
    using load_serialized[of "[9]" sample_crc 1] by (simp add: sample_disk_def published_state)
  show ?thesis
    by (simp add: open_snapshot_def new_manifest_def canonical_segment_path sample_dir_files sample_opens state
        sample_snapshot_def)
      (simp add: sample_reader_def sample_unchecked_def sample_data_def)
qed

lemma sample_published:
  "publish sample_crc sample_to_json sample_data [9] 2 sample_boot = (sample_store, Ok sample_snapshot)"
  using sample_snapshot_opens
  by (simp add: publish_def publish_with_failpoint_def next_generation_def sample_boot_def sample_built
      sample_store_def run_janitor_def janitor_ops_def apply_ops_def[of "[]"] flip: sample_disk_def)
    (simp add: sample_snapshot_def)

lemma sample_store_reachable: "reachable sample_crc sample_parse sample_to_json sample_store"
  by (rule reachable.publishing[OF sample_boot_reachable _ sample_published])
    (simp add: next_generation_def sample_boot_def)

section \<open>The store properties on the run\<close>

abbreviation (input) sample_ops :: "disk_op list" where
  "sample_ops \<equiv> publish_ops sample_crc sample_to_json (st_disk sample_boot) (next_generation sample_boot)
     (zip CHECKSUMMED_FILES sample_files) sample_data [9] NoFailpoint"

abbreviation (input) sample_prepare :: "disk_op list" where
  "sample_prepare \<equiv> prepare_ops sample_crc sample_to_json (st_disk sample_boot) (next_generation sample_boot)
     (zip CHECKSUMMED_FILES sample_files) sample_data [9]"

lemma sample_written: "written_dir sample_crc (zip CHECKSUMMED_FILES sample_files) = sample_dir"
  by (rule ext) (simp add: written_dir_def sample_dir_def sample_checksums_written)

text \<open>Interrupted before the commit, the sample publish recovers to the empty store; after it, to the new snapshot.\<close>
theorem publish_crash_safe_witness:
  "recover sample_crc sample_parse (remove_tmp_debris (apply_ops sample_prepare (st_disk sample_boot))) = Ok None \<and>
   recover sample_crc sample_parse (remove_tmp_debris sample_disk) = Ok (Some sample_snapshot)"
proof
  have ops: "sample_disk = apply_ops sample_ops (st_disk sample_boot)"
    by (simp add: sample_disk_def next_generation_def sample_boot_def)
  have safe: "recover sample_crc sample_parse (remove_tmp_debris d') =
      Ok (if dk_files d' MANIFEST_FILE = dk_files (st_disk sample_boot) MANIFEST_FILE then st_current sample_boot
          else Some (published_snapshot (next_generation sample_boot) sample_reader [9]))"
    if "crash_state sample_ops (st_disk sample_boot) d'" for d'
  proof (rule publish_crash_safe[OF sample_parse_to_json sample_boot_reachable _ _ _ _ _ that, where t = 2])
    show "recover sample_crc sample_parse (st_disk sample_boot) = Ok (st_current sample_boot)"
      by (simp add: recover_def manifest_load_def sample_boot_def empty_disk_def)
  qed (simp_all add: next_generation_def sample_boot_def sample_built sample_written sample_opens)
  have stop: "crash_state sample_ops (st_disk sample_boot) (apply_ops sample_prepare (st_disk sample_boot))"
    unfolding publish_ops_split by (rule crash_state.crash_between)
  show "recover sample_crc sample_parse (remove_tmp_debris (apply_ops sample_prepare (st_disk sample_boot))) = Ok None"
    using safe[OF stop] prepare_leaves_manifest[OF apply_ops_crash] by (simp add: sample_boot_def)
  obtain b where "dk_files sample_disk MANIFEST_FILE = Some b"
    using committed_disk[OF sample_parse_to_json ops[unfolded sample_boot_def, simplified]] ops by (auto simp: sample_boot_def)
  with safe[OF apply_ops_crash] show "recover sample_crc sample_parse (remove_tmp_debris sample_disk) = Ok (Some sample_snapshot)"
    unfolding ops[symmetric]
    by (simp add: sample_boot_def empty_disk_def published_snapshot_def next_generation_def sample_snapshot_def)
qed

theorem live_snapshot_is_recoverable_witness:
  "recover sample_crc sample_parse (st_disk sample_store) = Ok (Some sample_snapshot) \<and>
   (\<exists>m. mf_state_generation m = 1 \<and> open_snapshot sample_crc (st_disk sample_store) m = Ok sample_snapshot)"
proof -
  note boot = live_snapshot_is_recoverable[OF sample_parse_to_json sample_boot_reachable]
  have "next_generation sample_boot \<noteq> 0" by (simp add: next_generation_def sample_boot_def)
  then have "recover sample_crc sample_parse (st_disk sample_store) = Ok (Some sample_snapshot)"
    using boot sample_published by blast
  moreover have "\<exists>m. mf_state_generation m = 1 \<and> open_snapshot sample_crc (st_disk sample_store) m = Ok sample_snapshot"
    using live_snapshot_is_recoverable[OF sample_parse_to_json sample_store_reachable]
    by (simp add: sample_store_def sample_snapshot_def)
  ultimately show ?thesis ..
qed

theorem retained_files_untouched_witness:
  "dk_dirs (st_disk (run_janitor sample_store)) (segment_path 1) = dk_dirs (st_disk sample_store) (segment_path 1) \<and>
   dk_files (st_disk (run_janitor sample_store)) (state_file_name 1) = dk_files (st_disk sample_store) (state_file_name 1)"
  using retained_files_untouched[OF sample_parse_to_json sample_store_reachable, of 1] by (simp add: sample_store_def)

end
