(* ===== verification/Segment_Scan.thy ===== *)
theory Segment_Scan
  imports Sample_Segment
begin

text \<open>
  What the scans of an opened segment return. The validation of
  \<open>Segment_Open\<close> gives, for each group, the facts \<open>group_ok\<close>: its records lie in the
  postings file, and each of its skip blocks stores the aggregate of exactly the records
  it covers. From them a block-skipping scan is shown equal to the filter of all the
  group's records; the skip test rests on the interface \<open>exact_target_set\<close> of
  \<open>Target_Bitset\<close>. Likewise \<open>symbol_at\<close> and the dictionary's binary search are shown
  equal to exhaustive searches.
\<close>

unbundle bit_operations_syntax

section \<open>Aggregates of a block\<close>

lemma aggregate_Cons_rev: "aggregate n (recs @ [rec]) = add_rec rec (aggregate n recs)"
  by (simp add: aggregate_def)

lemma length_aggregate_words [simp]: "length (ba_words (aggregate n recs)) = n"
  by (induction recs rule: rev_induct) (simp_all add: aggregate_Cons_rev aggregate_def block_agg_init_def)

lemma aggregate_editable:
  "ba_editable (aggregate n recs) = of_nat (length (filter (\<lambda>rec. has (gr_flags rec) EDITABLE) recs))"
proof (induction recs rule: rev_induct)
  case Nil
  show ?case by (simp add: aggregate_def block_agg_init_def)
qed (simp add: aggregate_Cons_rev add_rec_def)

lemma bit_at_or_update:
  assumes "t div 64 < length ws"
  shows "bit_at (ws[t div 64 := ws ! (t div 64) OR push_bit (t mod 64) 1]) m \<longleftrightarrow> bit_at ws m \<or> m = t"
proof -
  have "m = t \<longleftrightarrow> m div 64 = t div 64 \<and> m mod 64 = t mod 64" by (metis div_mult_mod_eq)
  moreover have "bit (push_bit (t mod 64) 1 :: u64) i \<longleftrightarrow> i = t mod 64" for i
    by (auto simp: bit_simps)
  ultimately show ?thesis using assms by (auto simp: bit_at_def nth_list_update bit_or_iff)
qed

lemma aggregate_bit_at:
  assumes "\<forall>rec \<in> set recs. usize_of_i32 (gr_target_ord rec) div 64 < n"
  shows "bit_at (ba_words (aggregate n recs)) m \<longleftrightarrow> m \<in> (\<lambda>rec. usize_of_i32 (gr_target_ord rec)) ` set recs"
  using assms
proof (induction recs rule: rev_induct)
  case Nil
  then show ?case by (simp add: aggregate_def block_agg_init_def not_bit_at_zeros)
next
  case (snoc rec recs)
  have words: "ba_words (aggregate n (recs @ [rec])) =
     (let ws = ba_words (aggregate n recs); t = usize_of_i32 (gr_target_ord rec)
      in ws[t div 64 := ws ! (t div 64) OR push_bit (t mod 64) 1])"
    by (simp add: aggregate_Cons_rev add_rec_def Let_def)
  show ?case
    using snoc bit_at_or_update[of "usize_of_i32 (gr_target_ord rec)" "ba_words (aggregate n recs)"]
    by (auto simp: words Let_def)
qed

section \<open>Validated blocks and groups\<close>

text \<open>Block \<open>b\<close> stores the aggregate of records \<open>[first, first + cnt)\<close>.\<close>
definition block_ok :: "segment_reader \<Rightarrow> nat \<Rightarrow> nat \<Rightarrow> nat \<Rightarrow> nat \<Rightarrow> nat \<Rightarrow> bool" where
  "block_ok rd idx n b first cnt \<longleftrightarrow>
     (let bi = seg_file rd BLOCK_INDEX; base = block_base rd b;
          a = aggregate (rd_words rd) (map (rec_at (seg_file rd idx) n) [first..<first + cnt])
      in (\<exists>v. read_i64 bi base = Some v \<and> sint v = int first) \<and>
         (\<exists>v. read_i32 bi (base + 8) = Some v \<and> sint v = int cnt) \<and>
         read_i32 bi (base + 12) = Some (ba_editable a) \<and>
         (\<forall>w < rd_words rd. read_u64 bi (base + 40 + 8 * w) = Some (ba_words a ! w)))"

lemma sint_eq_int_unat: "unat (v :: i64) < 2 ^ 63 \<Longrightarrow> sint v = int (unat v)"
  by (auto simp: sint_uint signed_take_bit_int_eq_self_iff unat_eq_nat_uint nat_less_iff
      simp del: nat_uint_eq intro: order_trans[OF _ uint_ge_0])

lemma validate_block_Ok:
  assumes ok: "validate_block rd b first cnt idx = Ok ()" and post: "postings_ok rd idx n" and "first + cnt \<le> n"
  shows "block_ok rd idx n b first cnt"
proof -
  obtain v where v: "read_i64 (seg_file rd idx) 0 = Some v" "sint v = int n"
    using post by (auto simp: postings_ok_def columns_ok_def)
  have n: "n < 2 ^ 63" using v(2) sint_lt[of v] by simp
  let ?a = "aggregate (rd_words rd) (map (rec_at (seg_file rd idx) n) [first..<first + cnt])"
  let ?bi = "seg_file rd BLOCK_INDEX" and ?base = "block_base rd b"
  from ok have facts: "\<exists>v. read_i64 ?bi ?base = Some v \<and> unat v = first"
    "\<exists>v. read_i32 ?bi (?base + 8) = Some v \<and> 0 \<le> sint v \<and> usize_of_i32 v = cnt"
    "read_i32 ?bi (?base + 12) = Some (ba_editable ?a)"
    "\<forall>(w, word) \<in> set (enumerate 0 (ba_words ?a)). read_u64 ?bi (?base + 40 + 8 * w) = Some word"
    unfolding validate_block_def Let_def v(1)
    by (auto simp: and_then_eq_Ok check_Ok for_each_Ok validate_block_loop[OF post \<open>first + cnt \<le> n\<close> v(1)])
  have "read_u64 ?bi (?base + 40 + 8 * w) = Some (ba_words ?a ! w)" if "w < rd_words rd" for w
    using facts(4) that by (auto simp: in_set_enumerate_eq)
  moreover have "unat x = first \<Longrightarrow> sint x = int first" for x :: i64
    using n \<open>first + cnt \<le> n\<close> sint_eq_int_unat[of x] by simp
  ultimately show ?thesis
    using facts(1-3) by (auto simp: block_ok_def Let_def usize_of_i32_nonneg)
qed

text \<open>The records of a group, by its index entry.\<close>
definition entry_recs :: "segment_reader \<Rightarrow> nat \<Rightarrow> nat \<Rightarrow> group_index_view \<Rightarrow> group_rec list" where
  "entry_recs rd idx n e =
     map (rec_at (seg_file rd idx) n)
       [nat (sint (gv_offset e))..<nat (sint (gv_offset e)) + nat (sint (gv_count e))]"

definition group_ok :: "segment_reader \<Rightarrow> nat \<Rightarrow> nat \<Rightarrow> nat \<Rightarrow> nat \<Rightarrow> bool" where
  "group_ok rd gi idx n g \<longleftrightarrow>
     (\<exists>e acc cnt. group_index_view_at (seg_file rd gi) g = Ok e \<and>
        sint (gv_offset e) = int acc \<and> sint (gv_count e) = int cnt \<and> acc + cnt \<le> n \<and>
        sorted (map (\<lambda>rec. (sint (gr_doc_ord rec), gr_packed_start rec, gr_packed_end rec))
                  (entry_recs rd idx n e)) \<and>
        (cnt \<noteq> 0 \<longrightarrow> (\<exists>cur. sint (gv_block_index_offset e) = int cur \<and>
           (\<forall>k < div_ceil cnt 256. block_ok rd idx n (cur + k) (acc + k * 256) (min (cnt - k * 256) 256)))))"

lemma loop_prev_sorted:
  assumes "fold_o f [a..<a + cnt] None = Ok st"
    and "\<And>r prev st'. r < a + cnt \<Longrightarrow> f r prev = Ok st' \<Longrightarrow>
           st' = Some (key r) \<and> (case prev of None \<Rightarrow> True | Some p \<Rightarrow> R p (key r))"
    and "transp R"
  shows "sorted_wrt R (map key [a..<a + cnt])"
proof -
  let ?P = "\<lambda>i st. sorted_wrt R (map key [a..<i]) \<and> st = (if i = a then None else Some (key (i - 1)))"
  have "?P (a + cnt) st"
  proof (rule fold_o_upt_inv[OF assms(1), where P = ?P])
    fix i prev st'
    assume i: "a \<le> i" "i < a + cnt" and f: "f i prev = Ok st'"
      and inv: "sorted_wrt R (map key [a..<i]) \<and> prev = (if i = a then None else Some (key (i - 1)))"
    from assms(2)[OF i(2) f] have st': "st' = Some (key i)" "case prev of None \<Rightarrow> True | Some p \<Rightarrow> R p (key i)"
      by auto
    have "R (key j) (key i)" if "a \<le> j" "j < i" for j
    proof (cases "j = i - 1")
      case True
      then show ?thesis using st'(2) inv that by auto
    next
      case False
      then have "j - a < i - 1 - a" "i - 1 - a < length (map key [a..<i])" using that by auto
      with inv have "R (map key [a..<i] ! (j - a)) (map key [a..<i] ! (i - 1 - a))"
        by (simp only: sorted_wrt_iff_nth_less)
      then have "R (key j) (key (i - 1))" using that i False by simp
      then show ?thesis using st'(2) inv that \<open>transp R\<close> by (auto dest: transpD)
    qed
    with inv st' i show "sorted_wrt R (map key [a..<Suc i]) \<and>
        st' = (if Suc i = a then None else Some (key (Suc i - 1)))"
      by (auto simp: sorted_wrt_append)
  qed auto
  then show ?thesis by simp
qed

lemma check_group_sorted_Ok:
  assumes "check_group_sorted f name n acc cnt = Ok u" and "columns_ok f 6 n" and "acc + cnt \<le> n"
  shows "sorted (map (\<lambda>rec. (sint (gr_doc_ord rec), gr_packed_start rec, gr_packed_end rec))
           (map (rec_at f n) [acc..<acc + cnt]))"
proof -
  let ?key = "\<lambda>r. (sint (col f n 0 r), col f n 3 r, col f n 4 r)"
  from assms(1) obtain st where "fold_o (\<lambda>r prev.
      and_then (req_i32 f (8 + 4 * r) name) (\<lambda>d.
      and_then (req_u32 f (8 + 3 * 4 * n + 4 * r) name) (\<lambda>ps.
      and_then (req_u32 f (8 + 4 * 4 * n + 4 * r) name) (\<lambda>pe.
        let key = (sint d, ps, pe)
        in and_then (case prev of None \<Rightarrow> Ok () | Some p \<Rightarrow> expect (p \<le> key) ''group postings not sorted'')
             (\<lambda>_. Ok (Some key)))))) [acc..<acc + cnt] None = Ok st"
    unfolding check_group_sorted_def by (auto simp only: Let_def and_then_eq_Ok)
  then have "sorted_wrt (\<le>) (map ?key [acc..<acc + cnt])"
  proof (rule loop_prev_sorted)
    fix r prev st' assume "r < acc + cnt"
      and step: "and_then (req_i32 f (8 + 4 * r) name) (\<lambda>d.
      and_then (req_u32 f (8 + 3 * 4 * n + 4 * r) name) (\<lambda>ps.
      and_then (req_u32 f (8 + 4 * 4 * n + 4 * r) name) (\<lambda>pe.
        let key = (sint d, ps, pe)
        in and_then (case prev of None \<Rightarrow> Ok () | Some p \<Rightarrow> expect (p \<le> key) ''group postings not sorted'')
             (\<lambda>_. Ok (Some key))))) = Ok st'"
    then have r: "r < n" using assms(3) by simp
    from step read_col[OF assms(2) _ r, of 0] read_col[OF assms(2) _ r, of 3] read_col[OF assms(2) _ r, of 4]
    show "st' = Some (?key r) \<and> (case prev of None \<Rightarrow> True | Some p \<Rightarrow> p \<le> ?key r)"
      by (auto simp: and_then_eq_Ok check_Ok read_u32_i32 Let_def split: option.splits)
  qed (rule transp_on_le)
  then show ?thesis by (simp add: comp_def rec_at_def)
qed

lemma validate_role_group_Ok:
  assumes ok: "validate_role_group rd gi n idx bc g (acc, cursor) = Ok st" and post: "postings_ok rd idx n"
  shows "group_ok rd gi idx n g"
proof -
  let ?f = "seg_file rd gi"
  from ok obtain offset cnt32 boff where reads:
    "read_i64 ?f (8 + g * 16) = Some offset" "0 \<le> sint offset" "unat offset = acc"
    "read_i32 ?f (8 + g * 16 + 8) = Some cnt32" "0 \<le> sint cnt32" "acc + usize_of_i32 cnt32 \<le> n"
    "read_i32 ?f (8 + g * 16 + 12) = Some boff"
    and rest: "usize_of_i32 cnt32 = 0 \<or>
      check_group_sorted (seg_file rd idx) (checked_file idx) n acc (usize_of_i32 cnt32) = Ok () \<and>
      0 \<le> sint boff \<and> usize_of_i32 boff = cursor \<and>
      (\<forall>k < div_ceil (usize_of_i32 cnt32) 256. validate_block rd (cursor + k) (acc + k * 256)
         (min (usize_of_i32 cnt32 - k * 256) 256) idx = Ok ())"
    unfolding validate_role_group_def Let_def
    by (auto simp: and_then_eq_Ok check_Ok for_each_Ok split: if_splits)
  let ?cnt = "usize_of_i32 cnt32"
  let ?e = "\<lparr>gv_offset = offset, gv_count = cnt32, gv_block_index_offset = boff\<rparr>"
  have off: "sint offset = int acc" using reads(2,3) by (simp add: sint_eq_int_iff)
  have cnt: "sint cnt32 = int ?cnt" using reads(5) by (simp add: usize_of_i32_nonneg)
  have cols: "columns_ok (seg_file rd idx) 6 n" using post by (simp add: postings_ok_def)
  have view: "group_index_view_at ?f g = Ok ?e"
    using reads by (simp add: group_index_view_at_def GROUP_INDEX_ENTRY_SIZE_def)
  have recs: "entry_recs rd idx n ?e = map (rec_at (seg_file rd idx) n) [acc..<acc + ?cnt]"
    by (simp add: entry_recs_def off cnt)
  have sorted: "sorted (map (\<lambda>rec. (sint (gr_doc_ord rec), gr_packed_start rec, gr_packed_end rec))
      (entry_recs rd idx n ?e))"
    using rest check_group_sorted_Ok[OF _ cols reads(6)] unfolding recs by (cases "?cnt = 0") auto
  have "\<exists>cur. sint boff = int cur \<and> (\<forall>k < div_ceil ?cnt 256.
      block_ok rd idx n (cur + k) (acc + k * 256) (min (?cnt - k * 256) 256))" if "?cnt \<noteq> 0"
  proof (intro exI conjI allI impI)
    show "sint boff = int cursor" using rest that by (auto simp: usize_of_i32_nonneg)
    fix k assume k: "k < div_ceil ?cnt 256"
    then have "k * 256 < ?cnt" by (auto simp: div_ceil_def less_eq_div_iff_mult_less_eq Suc_le_eq)
    with reads(6) have "acc + k * 256 + min (?cnt - k * 256) 256 \<le> n" by simp
    with validate_block_Ok[OF _ post this] rest that k
    show "block_ok rd idx n (cursor + k) (acc + k * 256) (min (?cnt - k * 256) 256)" by auto
  qed
  with view off cnt reads(6) sorted show ?thesis
    unfolding group_ok_def by (intro exI[of _ ?e] exI[of _ acc] exI[of _ ?cnt]) simp
qed

lemma validate_role_groups_Ok:
  assumes "validate_role_groups rd gi gcnt n idx cursor bc = Ok c" and "postings_ok rd idx n" and "g < gcnt"
  shows "group_ok rd gi idx n g"
proof -
  from assms(1) obtain st where "fold_o (validate_role_group rd gi n idx bc) [0..<gcnt] (0, cursor) = Ok st"
    by (auto simp: validate_role_groups_def and_then_eq_Ok)
  with assms(3) obtain t t' where "validate_role_group rd gi n idx bc g t = Ok t'"
    by (auto dest: fold_o_each[where x = g])
  then show ?thesis using validate_role_group_Ok[OF _ assms(2)] by (cases t) blast
qed

section \<open>Scanning a group\<close>

text \<open>The records a scan keeps, as a pure predicate: the target is allowed, the record's
  epoch is its document's current one, and it is editable when that is required.\<close>
definition kept :: "segment_reader \<Rightarrow> target_bitset option \<Rightarrow> bool \<Rightarrow> group_rec \<Rightarrow> bool" where
  "kept rd allowed require_editable rec \<longleftrightarrow>
     (case allowed of None \<Rightarrow> True | Some a \<Rightarrow> contains_ord a (gr_target_ord rec)) \<and>
     gr_doc_epoch rec = rd_doc_epochs rd ! usize_of_i32 (gr_doc_ord rec) \<and>
     (require_editable \<longrightarrow> has (gr_flags rec) EDITABLE)"

lemma keep_record_eq:
  assumes "rec_ok rd rec" and "length (rd_doc_epochs rd) = unat (rd_doc_count rd)"
  shows "keep_record rd allowed ed rec = Ok (kept rd allowed ed rec)"
  using assms by (auto simp: keep_record_def kept_def rec_ok_def index_o_def split: option.splits)

text \<open>The reader facts the scans use.\<close>
definition scannable :: "segment_reader \<Rightarrow> nat \<Rightarrow> nat \<Rightarrow> bool" where
  "scannable rd idx n \<longleftrightarrow> postings_ok rd idx n \<and> length (rd_doc_epochs rd) = unat (rd_doc_count rd)"

lemma scan_block_records_eq:
  assumes "scannable rd idx n" and "first + cnt \<le> n"
  shows "scan_block_records rd (seg_file rd idx) allowed ed (int first) (int cnt) out =
           Ok (out @ filter (kept rd allowed ed) (map (rec_at (seg_file rd idx) n) [first..<first + cnt]))"
  using assms(2)
proof (induction cnt)
  case 0
  then show ?case by (simp add: scan_block_records_def)
next
  case (Suc cnt)
  have r: "first + cnt < n" using Suc.prems by simp
  have cols: "columns_ok (seg_file rd idx) 6 n" and ok: "rec_ok rd (rec_at (seg_file rd idx) n (first + cnt))"
    using assms(1) r by (auto simp: scannable_def postings_ok_def)
  have "group_record (seg_file rd idx) (int first + int cnt) = Ok (rec_at (seg_file rd idx) n (first + cnt))"
    using group_record_eq[OF cols r] by simp
  moreover have "nat (1 + int cnt) = Suc cnt" by simp
  ultimately show ?case
    using Suc ok assms(1)
    by (simp add: scan_block_records_def fold_o_append keep_record_eq scannable_def)
qed

text \<open>The stored words of a block are its aggregate's, so the overlap test on them is the
  bitset's own.\<close>

lemma list_ex_zip:
  "list_ex (\<lambda>(a, b). P a b) (zip xs ys) \<longleftrightarrow> (\<exists>i. i < length xs \<and> i < length ys \<and> P (xs ! i) (ys ! i))"
  by (force simp: list_ex_iff set_zip)

lemma block_intersects_eq:
  assumes "block_ok rd idx n b first cnt"
  shows "block_intersects rd b (words a) =
           Ok (intersects_words a (ba_words (aggregate (rd_words rd)
                 (map (rec_at (seg_file rd idx) n) [first..<first + cnt]))))"
proof -
  let ?ws = "ba_words (aggregate (rd_words rd) (map (rec_at (seg_file rd idx) n) [first..<first + cnt]))"
  have read: "read_u64 (seg_file rd BLOCK_INDEX) (block_base rd b + 40 + 8 * w) = Some (?ws ! w)"
    if "w < rd_words rd" for w
    using assms that by (simp add: block_ok_def Let_def)
  have "block_intersects rd b (words a) =
      Ok (\<exists>w \<in> set [0..<min (rd_words rd) (length (words a))]. ?ws ! w AND words a ! w \<noteq> 0)"
    unfolding block_intersects_def Let_def by (rule any_o_Ok) (simp add: read)
  moreover have "intersects_words a ?ws \<longleftrightarrow>
      (\<exists>w \<in> set [0..<min (rd_words rd) (length (words a))]. ?ws ! w AND words a ! w \<noteq> 0)"
    by (auto simp: intersects_words_def Let_def list_ex_zip and.commute)
  ultimately show ?thesis by simp
qed

text \<open>A block that does not overlap the allowed targets, or has no editable record when one
  is required, holds no record the scan would keep.\<close>

lemma skipped_block_empty:
  assumes "scannable rd idx n" and "first + cnt \<le> n" and "cnt \<le> 256"
    and "\<And>a. allowed = Some a \<Longrightarrow> bitset_ok a"
    and "(\<exists>a. allowed = Some a \<and> \<not> intersects_words a (ba_words (aggregate (rd_words rd)
           (map (rec_at (seg_file rd idx) n) [first..<first + cnt])))) \<or>
         (ed \<and> ba_editable (aggregate (rd_words rd) (map (rec_at (seg_file rd idx) n) [first..<first + cnt])) = 0)"
  shows "filter (kept rd allowed ed) (map (rec_at (seg_file rd idx) n) [first..<first + cnt]) = []"
proof -
  let ?recs = "map (rec_at (seg_file rd idx) n) [first..<first + cnt]"
  have ok: "\<forall>rec \<in> set ?recs. rec_ok rd rec"
    using assms(1,2) by (auto simp: scannable_def postings_ok_def)
  have bits: "bit_at (ba_words (aggregate (rd_words rd) ?recs)) m \<longleftrightarrow>
      m \<in> (\<lambda>rec. usize_of_i32 (gr_target_ord rec)) ` set ?recs" for m
  proof (rule aggregate_bit_at)
    have "rd_words rd = target_word_count (rd_target_count rd)"
      using assms(1) by (simp add: scannable_def postings_ok_def)
    then show "\<forall>rec \<in> set ?recs. usize_of_i32 (gr_target_ord rec) div 64 < rd_words rd"
      using ok rec_ok_word_bound by blast
  qed
  have "\<not> kept rd allowed ed rec" if rec: "rec \<in> set ?recs" for rec
    using assms(5)
  proof
    assume "\<exists>a. allowed = Some a \<and> \<not> intersects_words a (ba_words (aggregate (rd_words rd) ?recs))"
    then obtain a where a: "allowed = Some a" "\<not> intersects_words a (ba_words (aggregate (rd_words rd) ?recs))"
      by blast
    have "usize_of_i32 (gr_target_ord rec) = unat (gr_target_ord rec)"
      using bspec[OF ok rec] by (simp add: rec_ok_def usize_of_i32_nonneg unat_eq_nat_sint)
    then have "bit_at (ba_words (aggregate (rd_words rd) ?recs)) (unat (gr_target_ord rec))"
      using bits rec by force
    from target_set.no_overlap_disjoint[OF assms(4)[OF a(1)] a(2) this] show ?thesis by (simp add: kept_def a(1))
  next
    assume *: "ed \<and> ba_editable (aggregate (rd_words rd) ?recs) = 0"
    let ?k = "length (filter (\<lambda>rec. has (gr_flags rec) EDITABLE) ?recs)"
    have "?k \<le> 256" using le_trans[OF length_filter_le, of ?recs 256] assms(3) by simp
    moreover have "of_nat ?k = (0 :: i32)" using * by (simp add: aggregate_editable)
    ultimately have "?k = 0"
      using word_of_nat_eq_0_iff[where ?'a = 32, of ?k] by (auto dest: dvd_imp_le)
    then have "\<not> has (gr_flags rec) EDITABLE" using rec by (simp only: length_0_conv filter_empty_conv) blast
    then show ?thesis using * by (simp add: kept_def)
  qed
  then show ?thesis by (simp only: filter_empty_conv) blast
qed

lemma scan_block_eq:
  assumes "scannable rd idx n" and "first + cnt \<le> n" and "cnt \<le> 256"
    and "\<And>a. allowed = Some a \<Longrightarrow> bitset_ok a"
    and blk: "block_ok rd idx n (cur + b) first cnt" and "sint (gv_block_index_offset e) = int cur"
  shows "scan_block rd idx e allowed ed b out =
           Ok (out @ filter (kept rd allowed ed) (map (rec_at (seg_file rd idx) n) [first..<first + cnt]))"
proof -
  let ?a = "aggregate (rd_words rd) (map (rec_at (seg_file rd idx) n) [first..<first + cnt])"
  let ?bi = "seg_file rd BLOCK_INDEX" and ?base = "block_base rd (cur + b)"
  obtain v w where reads: "read_i64 ?bi ?base = Some v" "sint v = int first"
    "read_i32 ?bi (?base + 8) = Some w" "sint w = int cnt" "read_i32 ?bi (?base + 12) = Some (ba_editable ?a)"
    using blk by (auto simp: block_ok_def Let_def)
  have idx: "as_usize (int cur + int b) = cur + b" by (rule as_usize_eq) simp
  let ?out = "filter (kept rd allowed ed) (map (rec_at (seg_file rd idx) n) [first..<first + cnt])"
  have "?out = []" if "allowed = Some a" "\<not> intersects_words a (ba_words ?a)" for a
    using skipped_block_empty[OF assms(1-4)] that by blast
  moreover have "?out = []" if "ed" "ba_editable ?a = 0"
    using skipped_block_empty[OF assms(1-4)] that by blast
  ultimately show ?thesis
    using block_intersects_eq[OF blk] reads assms(6)
    by (cases allowed)
      (simp_all add: scan_block_def Let_def idx scan_block_records_eq[OF assms(1,2)])
qed

lemma scan_blocks_eq:
  assumes scan: "scannable rd idx n" and range: "acc + cnt \<le> n" and bs: "\<And>a. allowed = Some a \<Longrightarrow> bitset_ok a"
    and blks: "\<forall>k < div_ceil cnt 256. block_ok rd idx n (cur + k) (acc + k * 256) (min (cnt - k * 256) 256)"
    and off: "sint (gv_block_index_offset e) = int cur" and "j \<le> div_ceil cnt 256"
  shows "fold_o (scan_block rd idx e allowed ed) [0..<j] [] =
           Ok (filter (kept rd allowed ed) (map (rec_at (seg_file rd idx) n) [acc..<acc + min (j * 256) cnt]))"
  using assms(6)
proof (induction j)
  case (Suc j)
  then have j: "j < div_ceil cnt 256" by simp
  then have lt: "j * 256 < cnt" by (auto simp: div_ceil_def less_eq_div_iff_mult_less_eq Suc_le_eq)
  let ?k = "min (cnt - j * 256) 256"
  have step: "scan_block rd idx e allowed ed j out =
      Ok (out @ filter (kept rd allowed ed) (map (rec_at (seg_file rd idx) n) [acc + j * 256..<acc + j * 256 + ?k]))"
    for out
    by (rule scan_block_eq[OF scan _ _ bs]) (use range lt blks j off in auto)
  have "[acc..<acc + min (Suc j * 256) cnt] = [acc..<acc + j * 256] @ [acc + j * 256..<acc + j * 256 + ?k]"
  proof -
    have "acc + min (Suc j * 256) cnt = acc + j * 256 + ?k" using lt by simp
    then show ?thesis by (simp only: upt_add_eq_append[of acc "acc + j * 256" ?k, simplified])
  qed
  then show ?case using Suc lt by (simp add: fold_o_append step)
qed simp

text \<open>The order of a group's records.\<close>
definition rec_key :: "group_rec \<Rightarrow> int \<times> u32 \<times> u32" where
  "rec_key rec = (sint (gr_doc_ord rec), gr_packed_start rec, gr_packed_end rec)"

lemma scan_group_eq:
  assumes grp: "group_ok rd gi idx n g" and scan: "scannable rd idx n"
    and bs: "\<And>a. allowed = Some a \<Longrightarrow> bitset_ok a"
  shows "\<exists>e recs. group_index_view_at (seg_file rd gi) g = Ok e \<and>
     map_o (\<lambda>k. group_record (seg_file rd idx) (sint (gv_offset e) + int k)) [0..<nat (sint (gv_count e))] = Ok recs \<and>
     sorted (map rec_key recs) \<and>
     scan_group rd idx e allowed ed = Ok (filter (kept rd allowed ed) recs)"
proof -
  from grp obtain e acc cnt where e: "group_index_view_at (seg_file rd gi) g = Ok e"
    "sint (gv_offset e) = int acc" "sint (gv_count e) = int cnt" "acc + cnt \<le> n"
    "sorted (map rec_key (entry_recs rd idx n e))"
    and blks: "cnt \<noteq> 0 \<longrightarrow> (\<exists>cur. sint (gv_block_index_offset e) = int cur \<and>
       (\<forall>k < div_ceil cnt 256. block_ok rd idx n (cur + k) (acc + k * 256) (min (cnt - k * 256) 256)))"
    by (auto simp: group_ok_def rec_key_def[abs_def])
  have cols: "columns_ok (seg_file rd idx) 6 n" using scan by (simp add: scannable_def postings_ok_def)
  let ?recs = "map (rec_at (seg_file rd idx) n) [acc..<acc + cnt]"
  have recs: "entry_recs rd idx n e = ?recs" by (simp add: entry_recs_def e)
  have "map_o (\<lambda>k. group_record (seg_file rd idx) (int acc + int k)) [0..<cnt] =
      Ok (map (\<lambda>k. rec_at (seg_file rd idx) n (acc + k)) [0..<cnt])"
    by (rule map_o_map_Ok) (use e(4) group_record_eq[OF cols] in \<open>simp flip: of_nat_add\<close>)
  also have "map (\<lambda>k. rec_at (seg_file rd idx) n (acc + k)) [0..<cnt] = ?recs"
    by (rule nth_equalityI) simp_all
  finally have read: "map_o (\<lambda>k. group_record (seg_file rd idx) (int acc + int k)) [0..<cnt] = Ok ?recs" .
  have "scan_group rd idx e allowed ed = Ok (filter (kept rd allowed ed) ?recs)"
  proof (cases "cnt = 0")
    case True
    then have "gv_count e = 0" using e(3) by (intro signed_word_eqI) simp
    then show ?thesis using True by (simp add: scan_group_def)
  next
    case False
    with blks obtain cur where cur: "sint (gv_block_index_offset e) = int cur"
      "\<forall>k < div_ceil cnt 256. block_ok rd idx n (cur + k) (acc + k * 256) (min (cnt - k * 256) 256)" by blast
    have "gv_count e \<noteq> 0" using e(3) False by auto
    moreover have "nat ((int cnt + int BLOCK_SIZE - 1) div int BLOCK_SIZE) = div_ceil cnt 256"
    proof -
      have "(int cnt + int BLOCK_SIZE - 1) div int BLOCK_SIZE = int ((cnt + 256 - 1) div 256)"
        by (simp add: BLOCK_SIZE_def zdiv_int of_nat_diff)
      then show ?thesis by (simp add: div_ceil_def)
    qed
    moreover have "min (div_ceil cnt 256 * 256) cnt = cnt" by (simp add: div_ceil_def)
    ultimately show ?thesis
      using scan_blocks_eq[OF scan e(4) bs cur(2,1) order_refl] by (simp add: scan_group_def e(3))
  qed
  with e read recs show ?thesis by (intro exI[of _ e] exI[of _ ?recs]) simp
qed

section \<open>What opening establishes\<close>

definition opened :: "segment_reader \<Rightarrow> segment_sizes \<Rightarrow> bool" where
  "opened rd z \<longleftrightarrow>
     sizes_ok rd z \<and>
     length (rd_doc_epochs rd) = unat (rd_doc_count rd) \<and>
     (\<forall>d < unat (rd_doc_count rd). epoch_of rd d = Ok (rd_doc_epochs rd ! d)) \<and>
     scannable rd REF_POSTINGS (sz_ref_recs z) \<and> scannable rd DEF_POSTINGS (sz_def_recs z) \<and>
     scannable rd RENAME_POSTINGS (sz_rename_recs z) \<and>
     (\<forall>g < unat (rd_ref_group_count rd). group_ok rd REF_GROUP_INDEX REF_POSTINGS (sz_ref_recs z) g) \<and>
     (\<forall>g < unat (rd_ref_group_count rd). group_ok rd DEF_GROUP_INDEX DEF_POSTINGS (sz_def_recs z) g) \<and>
     (\<forall>g < unat (rd_rename_group_count rd). group_ok rd RENAME_GROUP_INDEX RENAME_POSTINGS (sz_rename_recs z) g)"

lemma epochs_update [simp]:
  "sizes_ok (rd\<lparr>rd_doc_epochs := es\<rparr>) z = sizes_ok rd z"
  "group_ok (rd\<lparr>rd_doc_epochs := es\<rparr>) gi idx n g = group_ok rd gi idx n g"
  "postings_ok (rd\<lparr>rd_doc_epochs := es\<rparr>) idx n = postings_ok rd idx n"
  "epoch_of (rd\<lparr>rd_doc_epochs := es\<rparr>) d = epoch_of rd d"
  by (simp_all add: sizes_ok_def group_ok_def entry_recs_def block_ok_def block_base_def postings_ok_def rec_ok_def
      epoch_of_def)

lemma validate_structure_opened:
  assumes "validate_structure rd0 = Ok rd"
  shows "\<exists>z rd1. opened rd z \<and> check_sizes rd0 = Ok (rd1, z) \<and> deep_validate rd1 z = Ok () \<and>
           rd = rd1\<lparr>rd_doc_epochs := rd_doc_epochs rd\<rparr>"
proof -
  from assms obtain rd1 z es where steps: "check_sizes rd0 = Ok (rd1, z)" "deep_validate rd1 z = Ok ()"
    "map_o (epoch_of rd1) [0..<unat (rd_doc_count rd1)] = Ok es" "rd = rd1\<lparr>rd_doc_epochs := es\<rparr>"
    by (auto simp: validate_structure_def and_then_eq_Ok)
  have sz: "sizes_ok rd1 z" using steps(1) by (rule check_sizes_Ok)
  have post: "postings_ok rd1 idx n"
    if "validate_group_records rd1 idx n = Ok ()" "columns_ok (seg_file rd1 idx) 6 n" for idx n
    using that validate_group_records_Ok[OF that(1,2)] sz by (simp add: postings_ok_def sizes_ok_def)
  have recs: "postings_ok rd1 REF_POSTINGS (sz_ref_recs z)" "postings_ok rd1 DEF_POSTINGS (sz_def_recs z)"
    "postings_ok rd1 RENAME_POSTINGS (sz_rename_recs z)"
    using steps(2) sz post by (auto simp: deep_validate_def Let_def and_then_eq_Ok sizes_ok_def)
  from steps(2) obtain c1 c2 c3 where
    "validate_role_groups rd1 REF_GROUP_INDEX (unat (rd_ref_group_count rd1)) (sz_ref_recs z) REF_POSTINGS 0 (sz_bc z) = Ok c1"
    "validate_role_groups rd1 DEF_GROUP_INDEX (unat (rd_ref_group_count rd1)) (sz_def_recs z) DEF_POSTINGS c1 (sz_bc z) = Ok c2"
    "validate_role_groups rd1 RENAME_GROUP_INDEX (unat (rd_rename_group_count rd1)) (sz_rename_recs z) RENAME_POSTINGS c2
       (sz_bc z) = Ok c3"
    by (auto simp: deep_validate_def Let_def and_then_eq_Ok)
  then have groups:
    "\<forall>g < unat (rd_ref_group_count rd1). group_ok rd1 REF_GROUP_INDEX REF_POSTINGS (sz_ref_recs z) g"
    "\<forall>g < unat (rd_ref_group_count rd1). group_ok rd1 DEF_GROUP_INDEX DEF_POSTINGS (sz_def_recs z) g"
    "\<forall>g < unat (rd_rename_group_count rd1). group_ok rd1 RENAME_GROUP_INDEX RENAME_POSTINGS (sz_rename_recs z) g"
    using validate_role_groups_Ok recs by blast+
  have "length es = unat (rd_doc_count rd1)" "\<forall>d < unat (rd_doc_count rd1). epoch_of rd1 d = Ok (es ! d)"
    using steps(3) by (auto simp: map_o_Ok)
  with sz recs groups have "opened rd z" unfolding steps(4) by (simp add: opened_def scannable_def)
  with steps show ?thesis by auto
qed

lemma open_segment_opened:
  assumes "open_segment crc dir = Ok rd"
  shows "\<exists>z. opened rd z"
proof -
  from assms obtain rd0 where "validate_structure rd0 = Ok rd"
    by (auto simp: open_segment_def and_then_eq_Ok split: if_splits)
  then show ?thesis using validate_structure_opened by blast
qed

text \<open>
  C3: On an opened segment, a reference scan that skips blocks by their metadata returns exactly the
  records an exhaustive read of the group would keep: those whose target is allowed
  and whose epoch is the document's current one, in (document, start, end) order. No
  read panics.
\<close>
theorem scan_ref_group_exact:
  assumes "open_segment crc dir = Ok rd" and "g < unat (rd_ref_group_count rd)"
    and "\<forall>a. allowed = Some a \<longrightarrow> bitset_ok a"
  shows "\<exists>e recs. ref_group rd g = Ok e \<and>
     map_o (\<lambda>k. group_record (seg_file rd REF_POSTINGS) (sint (gv_offset e) + int k))
       [0..<nat (sint (gv_count e))] = Ok recs \<and>
     sorted (map rec_key recs) \<and>
     scan_ref_group rd g allowed = Ok (filter (kept rd allowed False) recs)"
proof -
  from open_segment_opened[OF assms(1)] obtain z where "opened rd z" by blast
  with scan_group_eq[of rd REF_GROUP_INDEX REF_POSTINGS "sz_ref_recs z" g allowed False] assms(2,3)
  show ?thesis by (auto simp: opened_def ref_group_def scan_ref_group_def)
qed

theorem scan_ref_group_exact_witness:
  "\<exists>e recs. ref_group sample_reader 0 = Ok e \<and>
     map_o (\<lambda>k. group_record (seg_file sample_reader REF_POSTINGS) (sint (gv_offset e) + int k))
       [0..<nat (sint (gv_count e))] = Ok recs \<and>
     sorted (map rec_key recs) \<and>
     scan_ref_group sample_reader 0 (Some (from_words 1 [1])) =
       Ok (filter (kept sample_reader (Some (from_words 1 [1])) False) recs)"
  by (rule scan_ref_group_exact[OF sample_opens])
    (simp_all add: from_words_ok sample_reader_def sample_unchecked_def)

text \<open>
  C12: A rename scan of an opened segment, which skips every block without an editable
  record, returns exactly the editable current-epoch records of the group, in order; a
  definition scan returns exactly the current-epoch ones.
\<close>
theorem scan_rename_and_def_group_exact:
  assumes "open_segment crc dir = Ok rd"
  shows "(g < unat (rd_rename_group_count rd) \<longrightarrow> (\<exists>e recs. rename_group rd g = Ok e \<and>
     map_o (\<lambda>k. group_record (seg_file rd RENAME_POSTINGS) (sint (gv_offset e) + int k))
       [0..<nat (sint (gv_count e))] = Ok recs \<and>
     sorted (map rec_key recs) \<and>
     scan_rename_group rd g = Ok (filter (kept rd None True) recs))) \<and>
   (g < unat (rd_ref_group_count rd) \<longrightarrow> (\<exists>e recs. def_group rd g = Ok e \<and>
     map_o (\<lambda>k. group_record (seg_file rd DEF_POSTINGS) (sint (gv_offset e) + int k))
       [0..<nat (sint (gv_count e))] = Ok recs \<and>
     sorted (map rec_key recs) \<and>
     scan_def_group rd g = Ok (filter (kept rd None False) recs)))"
proof -
  from open_segment_opened[OF assms(1)] obtain z where "opened rd z" by blast
  with scan_group_eq[of rd RENAME_GROUP_INDEX RENAME_POSTINGS "sz_rename_recs z" g None True]
    scan_group_eq[of rd DEF_GROUP_INDEX DEF_POSTINGS "sz_def_recs z" g None False]
  show ?thesis
    by (auto simp: opened_def rename_group_def scan_rename_group_def def_group_def scan_def_group_def)
qed

theorem scan_rename_and_def_group_exact_witness:
  "\<exists>e recs. def_group sample_reader 0 = Ok e \<and>
     map_o (\<lambda>k. group_record (seg_file sample_reader DEF_POSTINGS) (sint (gv_offset e) + int k))
       [0..<nat (sint (gv_count e))] = Ok recs \<and>
     sorted (map rec_key recs) \<and>
     scan_def_group sample_reader 0 = Ok (filter (kept sample_reader None False) recs)"
  using scan_rename_and_def_group_exact[OF sample_opens, of 0]
  by (simp add: sample_reader_def sample_unchecked_def)

end
