(* ===== verification/Segment_Lookup.thy ===== *)
theory Segment_Lookup
  imports Segment_Scan
begin

text \<open>
  Point lookups in an opened segment: the binary search of the symbol dictionary
  (\<open>find_symbol_ord\<close>) and the occurrence under a cursor (\<open>symbol_at\<close>), each shown equal
  to an exhaustive search.
\<close>

unbundle bit_operations_syntax

section \<open>The symbol dictionary\<close>

text \<open>The dictionary an opened segment serves: every entry readable, strictly ascending.\<close>
definition dict_ok :: "segment_reader \<Rightarrow> str list \<Rightarrow> bool" where
  "dict_ok rd syms \<longleftrightarrow>
     length syms = rd_symbol_count rd \<and> (\<forall>i < length syms. symbol_bytes rd i = Ok (syms ! i)) \<and>
     sorted_wrt (<) syms"

lemma get_slice_slice_o: "get_slice b off n = Some s \<Longrightarrow> slice_o b off n = Ok s"
  by (auto simp: get_slice_def slice_o_def split: if_splits)

lemma validate_symbol_entry_Ok:
  assumes "validate_symbol_entry rd blob i prev = Ok st"
  shows "\<exists>s. symbol_bytes rd i = Ok s \<and> st = Some s \<and> from_utf8 s \<noteq> None \<and>
           (case prev of None \<Rightarrow> True | Some p \<Rightarrow> p < s)"
proof -
  from assms obtain s off len where
    "read_i32 (seg_file rd SYMBOL_INDEX) (24 + i * 32) = Some off"
    "read_i32 (seg_file rd SYMBOL_INDEX) (24 + i * 32 + 4) = Some len"
    "get_slice (seg_file rd SYMBOL_INDEX)
       (24 + rd_symbol_count rd * 32 + rd_target_count rd * 8 + usize_of_i32 off) (usize_of_i32 len) = Some s"
    and "st = Some s" "from_utf8 s \<noteq> None" "case prev of None \<Rightarrow> True | Some p \<Rightarrow> p < s"
    unfolding validate_symbol_entry_def Let_def
    by (auto simp: and_then_eq_Ok check_Ok split: option.splits)
  then show ?thesis
    by (simp add: symbol_bytes_def Let_def symbol_entry_base_def sym_blob_start_def SYMBOL_ENTRY_SIZE_def
        get_slice_slice_o)
qed

lemma symbol_bytes_epochs [simp]: "symbol_bytes (rd\<lparr>rd_doc_epochs := es\<rparr>) i = symbol_bytes rd i"
  by (simp add: symbol_bytes_def sym_blob_start_def)

lemma validate_symbol_dict_Ok:
  assumes "validate_symbol_dict rd blob = Ok u"
  shows "\<exists>syms. dict_ok rd syms"
proof -
  let ?n = "rd_symbol_count rd"
  let ?key = "\<lambda>i. case symbol_bytes rd i of Ok s \<Rightarrow> s | _ \<Rightarrow> []"
  from assms obtain st where loop: "fold_o (validate_symbol_entry rd blob) [0..<0 + ?n] None = Ok st"
    by (auto simp: validate_symbol_dict_def and_then_eq_Ok)
  have "sorted_wrt (<) (map ?key [0..<0 + ?n])"
    by (rule loop_prev_sorted[OF loop _ transp_on_less])
      (auto dest!: validate_symbol_entry_Ok split: option.splits)
  moreover have "symbol_bytes rd i = Ok (?key i)" if "i < ?n" for i
  proof -
    from fold_o_each[OF loop, of i] that obtain t t' where "validate_symbol_entry rd blob i t = Ok t'" by auto
    from validate_symbol_entry_Ok[OF this] show ?thesis by auto
  qed
  ultimately show ?thesis by (intro exI[of _ "map ?key [0..<?n]"]) (simp add: dict_ok_def)
qed

lemma bytes_cmp_eq:
  "bytes_cmp a b = (if a < b then Less else if a = b then Equal else Greater)"
  by (induction a b rule: bytes_cmp.induct) auto

lemma find_symbol_loop_eq:
  assumes "dict_ok rd syms" and "hi \<le> length syms"
    and "\<forall>i < lo. syms ! i < needle" and "\<forall>i. hi \<le> i \<and> i < length syms \<longrightarrow> needle < syms ! i"
  shows "\<exists>res. find_symbol_loop rd needle lo hi = Ok res \<and>
           (case res of Some i \<Rightarrow> i < length syms \<and> syms ! i = needle | None \<Rightarrow> needle \<notin> set syms)"
  using assms
proof (induction rd needle lo hi rule: find_symbol_loop.induct)
  case (1 rd needle lo hi)
  note dict = "1.prems"(1)
  show ?case
  proof (cases "lo < hi")
    case False
    then have "needle \<notin> set syms"
      using "1.prems" by (metis in_set_conv_nth leI less_le_trans less_irrefl)
    then show ?thesis using False by (subst find_symbol_loop.simps) simp
  next
    case True
    define mid where "mid = (lo + hi) div 2"
    have mid: "lo \<le> mid" "mid < hi" using True by (auto simp: mid_def)
    then have "mid < length syms" using "1.prems"(2) by simp
    have bytes: "symbol_bytes rd mid = Ok (syms ! mid)"
      using dict \<open>mid < length syms\<close> by (simp add: dict_ok_def)
    have less: "syms ! i < syms ! j" if "i < j" "j < length syms" for i j
      using dict that by (simp add: dict_ok_def sorted_wrt_nth_less)
    consider "syms ! mid < needle" | "syms ! mid = needle" | "needle < syms ! mid" by (rule linorder_cases)
    then show ?thesis
    proof cases
      case 1
      have "find_symbol_loop rd needle lo hi = find_symbol_loop rd needle (mid + 1) hi"
        by (subst find_symbol_loop.simps) (simp add: True Let_def bytes bytes_cmp_eq 1 flip: mid_def)
      moreover have "\<forall>i < mid + 1. syms ! i < needle"
        using 1 less \<open>mid < length syms\<close> by (metis Suc_eq_plus1 less_Suc_eq less_trans)
      ultimately show ?thesis
        using "1.IH"(1)[OF True mid_def, of "syms ! mid"] "1.prems" 1 bytes by (simp add: bytes_cmp_eq)
    next
      case 2
      then show ?thesis
        using \<open>mid < length syms\<close>
        by (subst find_symbol_loop.simps) (simp add: True Let_def bytes bytes_cmp_eq flip: mid_def)
    next
      case 3
      have "find_symbol_loop rd needle lo hi = find_symbol_loop rd needle lo mid"
        using 3 by (subst find_symbol_loop.simps) (auto simp add: True Let_def bytes bytes_cmp_eq simp flip: mid_def)
      moreover have "\<forall>i. mid \<le> i \<and> i < length syms \<longrightarrow> needle < syms ! i"
        using 3 less by (metis le_neq_implies_less less_trans)
      moreover have "bytes_cmp (syms ! mid) needle = Greater" using 3 by (auto simp: bytes_cmp_eq)
      ultimately show ?thesis
        using "1.IH"(2)[OF True mid_def, of "syms ! mid"] "1.prems" mid bytes by simp
    qed
  qed
qed

lemma open_segment_deep:
  assumes "open_segment crc dir = Ok rd"
  obtains z rd1 where "opened rd z" "deep_validate rd1 z = Ok ()" "sizes_ok rd1 z"
    "rd = rd1\<lparr>rd_doc_epochs := rd_doc_epochs rd\<rparr>"
proof -
  from assms obtain rd0 where "validate_structure rd0 = Ok rd"
    by (auto simp: open_segment_def and_then_eq_Ok split: if_splits)
  from validate_structure_opened[OF this] that show ?thesis using check_sizes_Ok by blast
qed

text \<open>
  C11: The dictionary lookup of an opened segment is correct for every needle: there is a
  strictly ascending list of symbols that the entries spell, the binary search never panics,
  returns an ordinal only if that entry is the needle, and returns none only if no entry is.
\<close>
theorem find_symbol_ord_correct:
  assumes "open_segment crc dir = Ok rd"
  shows "\<exists>syms. length syms = rd_symbol_count rd \<and> sorted_wrt (<) syms \<and>
     (\<forall>i. i < length syms \<longrightarrow> symbol_bytes rd i = Ok (syms ! i)) \<and>
     (\<forall>needle. \<exists>res. find_symbol_ord rd needle = Ok res \<and>
        (case res of Some i \<Rightarrow> i < length syms \<and> syms ! i = needle | None \<Rightarrow> needle \<notin> set syms))"
proof -
  from assms obtain z rd1 where rd1: "deep_validate rd1 z = Ok ()" "rd = rd1\<lparr>rd_doc_epochs := rd_doc_epochs rd\<rparr>"
    by (rule open_segment_deep)
  then obtain syms where "dict_ok rd1 syms"
    using validate_symbol_dict_Ok by (auto simp: deep_validate_def Let_def and_then_eq_Ok)
  then have dict: "dict_ok rd syms" by (subst rd1(2)) (simp add: dict_ok_def)
  have "\<exists>res. find_symbol_ord rd needle = Ok res \<and>
      (case res of Some i \<Rightarrow> i < length syms \<and> syms ! i = needle | None \<Rightarrow> needle \<notin> set syms)" for needle
  proof -
    have "\<forall>i. length syms \<le> i \<and> i < length syms \<longrightarrow> needle < syms ! i" by auto
    from find_symbol_loop_eq[OF dict order_refl _ this, of 0] dict show ?thesis
      by (simp add: find_symbol_ord_def dict_ok_def)
  qed
  with dict show ?thesis unfolding dict_ok_def by blast
qed

theorem find_symbol_ord_correct_witness:
  "\<exists>syms. length syms = rd_symbol_count sample_reader \<and> sorted_wrt (<) syms \<and>
     (\<forall>i. i < length syms \<longrightarrow> symbol_bytes sample_reader i = Ok (syms ! i)) \<and>
     (\<exists>res. find_symbol_ord sample_reader (lit ''A#'') = Ok res \<and>
        (case res of Some i \<Rightarrow> i < length syms \<and> syms ! i = lit ''A#'' | None \<Rightarrow> lit ''A#'' \<notin> set syms))"
  using find_symbol_ord_correct[OF sample_opens] by blast

section \<open>Validated documents\<close>

definition doc_rec_at :: "byte list \<Rightarrow> nat \<Rightarrow> nat \<Rightarrow> doc_rec" where
  "doc_rec_at f n r =
     \<lparr>dc_symbol_ord = col f n 0 r, dc_packed_start = col f n 1 r, dc_packed_end = col f n 2 r,
      dc_flags = col f n 3 r\<rparr>"

lemma doc_record_eq:
  assumes "columns_ok (seg_file rd DOC_POSTINGS) 4 n" and "r < n"
  shows "doc_record rd (int r) = Ok (doc_rec_at (seg_file rd DOC_POSTINGS) n r)"
proof -
  let ?f = "seg_file rd DOC_POSTINGS"
  from assms(1) obtain v where "read_i64 ?f 0 = Some v" "sint v = int n" by (auto simp: columns_ok_def)
  then show ?thesis
    using column_at_eq[OF assms(1) _ assms(2), of 0] column_at_eq[OF assms(1) _ assms(2), of 1]
      column_at_eq[OF assms(1) _ assms(2), of 2] column_at_eq[OF assms(1) _ assms(2), of 3]
    by (simp add: doc_record_def doc_rec_at_def Let_def)
qed

text \<open>Interval \<open>iv\<close> covers records \<open>[first, first + cnt)\<close>: it stores the line its first record starts on
  and the last line any of them ends on.\<close>
definition interval_ok :: "segment_reader \<Rightarrow> nat \<Rightarrow> nat \<Rightarrow> nat \<Rightarrow> nat \<Rightarrow> bool" where
  "interval_ok rd n iv first cnt \<longleftrightarrow>
     (let di = seg_file rd DOC_INDEX; dp = seg_file rd DOC_POSTINGS;
          ib = 24 + unat (rd_doc_count rd) * 48 + iv * 24
      in (\<exists>v. read_i64 di (ib + 8) = Some v \<and> sint v = int first) \<and>
         (\<exists>v. read_i32 di (ib + 16) = Some v \<and> sint v = int cnt) \<and>
         read_i32 di ib = Some (unpack_line (col dp n 1 first)) \<and>
         read_i32 di (ib + 4) = Some (fold max (map (\<lambda>r. unpack_line (col dp n 2 r)) [first..<first + cnt]) 0))"

definition doc_ok :: "segment_reader \<Rightarrow> nat \<Rightarrow> nat \<Rightarrow> nat \<Rightarrow> bool" where
  "doc_ok rd n ic d \<longleftrightarrow>
     (\<exists>e acc cnt. doc_entry rd d = Ok e \<and>
        sint (dv_postings_offset e) = int acc \<and> sint (dv_postings_count e) = int cnt \<and> acc + cnt \<le> n \<and>
        sorted_wrt (\<le>) (map (\<lambda>r. (col (seg_file rd DOC_POSTINGS) n 1 r, col (seg_file rd DOC_POSTINGS) n 2 r))
          [acc..<acc + cnt]) \<and>
        (cnt = 0 \<longrightarrow> dv_interval_first e = -1 \<and> dv_interval_count e = 0) \<and>
        (cnt \<noteq> 0 \<longrightarrow> (\<exists>cur. sint (dv_interval_first e) = int cur \<and>
           sint (dv_interval_count e) = int (div_ceil cnt 256) \<and>
           (\<forall>k < div_ceil cnt 256. cur + k < ic \<and>
              interval_ok rd n (cur + k) (acc + k * 256) (min (cnt - k * 256) 256)))))"

lemma usize_of_i32_small:
  assumes "usize_of_i32 v = c" and "c < 2 ^ 31"
  shows "sint v = int c"
proof (cases "0 \<le> sint v")
  case True
  then show ?thesis using assms(1) by (simp add: usize_of_i32_nonneg)
next
  case False
  have lo: "- (2 ^ 31) \<le> sint v" using sint_ge[of v] by simp
  have "take_bit 64 (sint v) = sint v + 2 ^ 64"
  proof -
    have "(sint v + 2 ^ 64) mod 2 ^ 64 = sint v + 2 ^ 64"
      using False lo by (intro mod_pos_pos_trivial) auto
    then show ?thesis by (simp only: take_bit_eq_mod mod_add_self2)
  qed
  then have "uint (scast v :: 64 word) = sint v + 2 ^ 64"
    by (simp only: scast_eq uint_word_of_int_eq len_num1 len_bit0 len_bit1) simp
  then have "int (usize_of_i32 v) = sint v + 2 ^ 64"
    by (simp add: usize_of_i32_def)
  with lo assms show ?thesis by simp
qed

lemma check_doc_sorted_Ok:
  assumes "check_doc_sorted f n acc cnt = Ok u" and "columns_ok f 4 n" and "acc + cnt \<le> n"
  shows "sorted_wrt (\<le>) (map (\<lambda>r. (col f n 1 r, col f n 2 r)) [acc..<acc + cnt])"
proof -
  let ?name = "checked_file DOC_POSTINGS"
  let ?key = "\<lambda>r. (col f n 1 r, col f n 2 r)"
  from assms(1) obtain st where "fold_o (\<lambda>r prev.
      and_then (req_u32 f (8 + 4 * n + 4 * r) ?name) (\<lambda>ps.
      and_then (req_u32 f (8 + 8 * n + 4 * r) ?name) (\<lambda>pe.
        and_then (case prev of None \<Rightarrow> Ok () | Some p \<Rightarrow> expect (p \<le> (ps, pe)) ''doc postings not sorted'')
          (\<lambda>_. Ok (Some (ps, pe)))))) [acc..<acc + cnt] None = Ok st"
    unfolding check_doc_sorted_def by (auto simp only: Let_def and_then_eq_Ok)
  then show ?thesis
  proof (rule loop_prev_sorted)
    fix r prev st' assume "r < acc + cnt"
      and step: "and_then (req_u32 f (8 + 4 * n + 4 * r) ?name) (\<lambda>ps.
      and_then (req_u32 f (8 + 8 * n + 4 * r) ?name) (\<lambda>pe.
        and_then (case prev of None \<Rightarrow> Ok () | Some p \<Rightarrow> expect (p \<le> (ps, pe)) ''doc postings not sorted'')
          (\<lambda>_. Ok (Some (ps, pe))))) = Ok st'"
    then have r: "r < n" using assms(3) by simp
    from step read_col[OF assms(2) _ r, of 1] read_col[OF assms(2) _ r, of 2]
    show "st' = Some (?key r) \<and> (case prev of None \<Rightarrow> True | Some p \<Rightarrow> p \<le> ?key r)"
      by (auto simp: and_then_eq_Ok check_Ok read_u32_i32 split: option.splits)
  qed (rule transp_on_le)
qed

lemma validate_interval_Ok:
  assumes ok: "validate_interval rd (24 + unat (rd_doc_count rd) * 48) ic n acc cnt cur k = Ok ()"
    and cols: "columns_ok (seg_file rd DOC_POSTINGS) 4 n" and "acc + cnt \<le> n" and k: "k * 256 < cnt"
  shows "cur + k < ic \<and> interval_ok rd n (cur + k) (acc + k * 256) (min (cnt - k * 256) 256)"
proof -
  let ?dp = "seg_file rd DOC_POSTINGS" and ?first = "acc + k * 256" and ?c = "min (cnt - k * 256) 256"
  have range: "?first + ?c \<le> n" "?first < n" using assms(3) k by auto
  have read_end: "read_u32 ?dp (8 + 8 * n + 4 * (?first + j)) = Some (col ?dp n 2 (?first + j))" if "j < ?c" for j
    using read_col[OF cols, of 2 "?first + j"] range that by (simp add: read_u32_i32)
  have "fold_o (\<lambda>j last. and_then (req_u32 ?dp (8 + 8 * n + 4 * (?first + j)) name) (\<lambda>pe.
      Ok (max last (unpack_line pe)))) [0..<?c] 0 =
      Ok (fold (\<lambda>j last. max last (unpack_line (col ?dp n 2 (?first + j)))) [0..<?c] 0)" for name
    by (rule fold_o_Ok_fold) (use read_end in \<open>simp add: req_u32_def\<close>)
  also have "fold (\<lambda>j last. max last (unpack_line (col ?dp n 2 (?first + j)))) [0..<?c] 0 =
      fold max (map (\<lambda>r. unpack_line (col ?dp n 2 r)) [?first..<?first + ?c]) 0"
  proof -
    have shift: "map (\<lambda>r. unpack_line (col ?dp n 2 r)) [?first..<?first + ?c] =
        map (\<lambda>j. unpack_line (col ?dp n 2 (?first + j))) [0..<?c]"
      by (rule nth_equalityI) simp_all
    show ?thesis unfolding shift fold_map comp_def by (rule fold_cong) (simp_all add: max.commute fun_eq_iff)
  qed
  finally have last: "fold_o (\<lambda>j last. and_then (req_u32 ?dp (8 + 8 * n + 4 * (?first + j)) name) (\<lambda>pe.
      Ok (max last (unpack_line pe)))) [0..<?c] 0 =
      Ok (fold max (map (\<lambda>r. unpack_line (col ?dp n 2 r)) [?first..<?first + ?c]) 0)" for name .
  have n: "n < 2 ^ 63"
  proof -
    from cols obtain v where "sint (v :: i64) = int n" by (auto simp: columns_ok_def)
    then show ?thesis using sint_lt[of v] by simp
  qed
  have "unat x = ?first \<Longrightarrow> sint x = int ?first" for x :: i64
    using n range sint_eq_int_unat[of x] by simp
  moreover have "usize_of_i32 x = ?c \<Longrightarrow> sint x = int ?c" for x by (rule usize_of_i32_small) auto
  moreover have "read_i32 ?dp (8 + 4 * n + 4 * ?first) = Some (col ?dp n 1 ?first)"
    using read_col[OF cols, of 1 ?first] range by simp
  ultimately show ?thesis
    using ok unfolding validate_interval_def Let_def last
    by (auto simp: and_then_eq_Ok check_Ok read_u32_i32 interval_ok_def Let_def)
qed

lemma validate_doc_entry_Ok:
  assumes ok: "validate_doc_entry rd (unat (rd_doc_count rd)) ic ub n d (acc, cur) = Ok st"
    and cols: "columns_ok (seg_file rd DOC_POSTINGS) 4 n"
  shows "doc_ok rd n ic d"
proof -
  let ?di = "seg_file rd DOC_INDEX"
  from ok obtain ifirst off cnt32 icnt where reads:
    "read_i32 ?di (24 + d * 48 + 28) = Some ifirst" "read_i64 ?di (24 + d * 48 + 32) = Some off"
    "0 \<le> sint off" "unat off = acc" "read_i32 ?di (24 + d * 48 + 40) = Some cnt32" "0 \<le> sint cnt32"
    "acc + usize_of_i32 cnt32 \<le> n" "read_i32 ?di (24 + d * 48 + 44) = Some icnt"
    and empty: "usize_of_i32 cnt32 = 0 \<Longrightarrow> ifirst = -1 \<and> icnt = 0"
    and rest: "usize_of_i32 cnt32 \<noteq> 0 \<Longrightarrow>
      0 \<le> sint ifirst \<and> usize_of_i32 ifirst = cur \<and>
      check_doc_sorted (seg_file rd DOC_POSTINGS) n acc (usize_of_i32 cnt32) = Ok () \<and>
      0 \<le> sint icnt \<and> usize_of_i32 icnt = div_ceil (usize_of_i32 cnt32) 256 \<and>
      (\<forall>k < div_ceil (usize_of_i32 cnt32) 256.
         validate_interval rd (24 + unat (rd_doc_count rd) * 48) ic n acc (usize_of_i32 cnt32) cur k = Ok ())"
    unfolding validate_doc_entry_def Let_def
    by (auto simp: and_then_eq_Ok check_Ok for_each_Ok split: if_splits)
  let ?cnt = "usize_of_i32 cnt32"
  let ?e = "\<lparr>dv_interval_first = ifirst, dv_postings_offset = off, dv_postings_count = cnt32,
              dv_interval_count = icnt\<rparr>"
  have "doc_entry rd d = Ok ?e"
    using reads by (simp add: doc_entry_def Let_def doc_entry_base_def DOC_ENTRY_SIZE_def)
  moreover have "sint off = int acc" "sint cnt32 = int ?cnt"
    using reads by (simp_all add: sint_eq_int_iff[of off] usize_of_i32_nonneg)
  moreover have "sorted_wrt (\<le>) (map (\<lambda>r. (col (seg_file rd DOC_POSTINGS) n 1 r, col (seg_file rd DOC_POSTINGS) n 2 r))
      [acc..<acc + ?cnt])"
    using rest check_doc_sorted_Ok[OF _ cols reads(7)] by (cases "?cnt = 0") auto
  moreover have "\<exists>cur. sint ifirst = int cur \<and> sint icnt = int (div_ceil ?cnt 256) \<and>
      (\<forall>k < div_ceil ?cnt 256. cur + k < ic \<and>
         interval_ok rd n (cur + k) (acc + k * 256) (min (?cnt - k * 256) 256))" if "?cnt \<noteq> 0"
  proof (intro exI conjI allI impI)
    show "sint ifirst = int cur" "sint icnt = int (div_ceil ?cnt 256)"
      using rest[OF that] by (auto simp: usize_of_i32_nonneg)
    fix k assume k: "k < div_ceil ?cnt 256"
    then have "k * 256 < ?cnt" by (auto simp: div_ceil_def less_eq_div_iff_mult_less_eq Suc_le_eq)
    with validate_interval_Ok[OF _ cols reads(7) this] rest[OF that] k
    show "cur + k < ic" "interval_ok rd n (cur + k) (acc + k * 256) (min (?cnt - k * 256) 256)" by auto
  qed
  ultimately show ?thesis
    using reads(7) empty unfolding doc_ok_def by (intro exI[of _ ?e] exI[of _ acc] exI[of _ ?cnt]) simp
qed

lemma validate_doc_index_Ok:
  assumes "validate_doc_index rd (unat (rd_doc_count rd)) ic ub n = Ok u"
    and "columns_ok (seg_file rd DOC_POSTINGS) 4 n" and "d < unat (rd_doc_count rd)"
  shows "doc_ok rd n ic d"
proof -
  from assms(1) obtain st where
    "fold_o (validate_doc_entry rd (unat (rd_doc_count rd)) ic ub n) [0..<unat (rd_doc_count rd)] (0, 0) = Ok st"
    by (auto simp: validate_doc_index_def and_then_eq_Ok)
  with assms(3) obtain t t' where "validate_doc_entry rd (unat (rd_doc_count rd)) ic ub n d t = Ok t'"
    by (auto dest: fold_o_each[where x = d])
  then show ?thesis using validate_doc_entry_Ok[OF _ assms(2)] by (cases t) blast
qed

lemma doc_ok_epochs [simp]: "doc_ok (rd\<lparr>rd_doc_epochs := es\<rparr>) n ic d = doc_ok rd n ic d"
  by (simp add: doc_ok_def doc_entry_def interval_ok_def)

section \<open>The occurrence under a cursor\<close>

text \<open>A record covers a packed position; the exhaustive search keeps, in record order, the
  first of the shortest covering records.\<close>

definition covers :: "u32 \<Rightarrow> doc_rec \<Rightarrow> bool" where
  "covers q rec \<longleftrightarrow> dc_packed_start rec \<le> q \<and> q \<le> dc_packed_end rec"

definition extent :: "doc_rec \<Rightarrow> u32" where
  "extent rec = dc_packed_end rec - dc_packed_start rec"

definition as_best :: "doc_rec \<Rightarrow> u32 \<times> u32 \<times> i32 \<times> i32" where
  "as_best rec = (dc_packed_start rec, dc_packed_end rec, dc_symbol_ord rec, dc_flags rec)"

definition consider_rec :: "u32 \<Rightarrow> doc_rec \<Rightarrow> best_hit \<Rightarrow> best_hit" where
  "consider_rec q rec best = (if covers q rec \<and> better (extent rec) best then Some (as_best rec) else best)"

lemma consider_rec_skip: "\<not> covers q rec \<Longrightarrow> consider_rec q rec best = best"
  by (simp add: consider_rec_def)

text \<open>\<open>b\<close> is a shortest covering record of \<open>recs\<close>, or none covers.\<close>
definition is_best :: "u32 \<Rightarrow> doc_rec list \<Rightarrow> best_hit \<Rightarrow> bool" where
  "is_best q recs b =
     (case b of
        None \<Rightarrow> list_all (\<lambda>rec. \<not> covers q rec) recs
      | Some h \<Rightarrow> list_ex (\<lambda>rec. h = as_best rec \<and> covers q rec \<and>
                    list_all (\<lambda>r. covers q r \<longrightarrow> extent rec \<le> extent r) recs) recs)"

lemma is_best_step: "is_best q recs b \<Longrightarrow> is_best q (recs @ [r]) (consider_rec q r b)"
proof (cases b)
  case None
  then show "is_best q recs b \<Longrightarrow> ?thesis"
    by (auto simp: is_best_def consider_rec_def better_def list_all_iff list_ex_iff)
next
  case (Some h)
  assume "is_best q recs b"
  with Some obtain rec where rec: "rec \<in> set recs" "h = as_best rec" "covers q rec"
    "\<forall>r \<in> set recs. covers q r \<longrightarrow> extent rec \<le> extent r"
    by (auto simp: is_best_def list_all_iff list_ex_iff)
  have "better (extent r) b \<longleftrightarrow> extent r < extent rec"
    by (simp add: Some rec(2) better_def as_best_def extent_def)
  with Some rec show ?thesis
    by (cases "covers q r") (force simp: is_best_def consider_rec_def list_all_iff list_ex_iff not_less)+
qed

lemma is_best_fold: "is_best q recs (fold (consider_rec q) recs None)"
proof (induction recs rule: rev_induct)
  case (snoc r recs)
  then show ?case using is_best_step by simp
qed (simp add: is_best_def)

lemma fold_break_fold:
  assumes "\<And>x s. x \<in> set xs \<Longrightarrow> f x s = Ok (if stop x then (s, True) else (g x s, False))"
    and "sorted_wrt (\<lambda>x y. stop x \<longrightarrow> stop y) xs" and "\<And>x s. x \<in> set xs \<Longrightarrow> stop x \<Longrightarrow> g x s = s"
  shows "fold_break f xs s = Ok (fold g xs s)"
  using assms
proof (induction xs arbitrary: s)
  case (Cons x xs)
  show ?case
  proof (cases "stop x")
    case True
    have "fold g ys t = t" if "set ys \<subseteq> set (x # xs)" for ys t
      using that Cons.prems(2,3) True by (induction ys arbitrary: t) auto
    from this[of "x # xs" s] show ?thesis using Cons.prems(1)[of x s] True by simp
  next
    case False
    moreover have "fold_break f xs (g x s) = Ok (fold g xs (g x s))"
      by (rule Cons.IH) (use Cons.prems in auto)
    ultimately show ?thesis using Cons.prems(1)[of x s] by simp
  qed
qed simp

text \<open>Packed positions and lines.\<close>

lemma line_gt_pack: "unpack_line p > ln \<Longrightarrow> pack ln ch < p"
proof -
  assume "unpack_line p > ln"
  then have "unat ln < unat p div 4096" by (simp add: word_less_nat_alt unat_unpack_line)
  then have "(unat ln + 1) * 4096 \<le> unat p" by (simp add: less_eq_div_iff_mult_less_eq Suc_le_eq[symmetric])
  then show ?thesis by (simp add: word_less_nat_alt unat_pack)
qed

lemma line_lt_pack: "ln \<le> LINE_MAX \<Longrightarrow> unpack_line p < ln \<Longrightarrow> p < pack ln ch"
proof -
  assume "ln \<le> LINE_MAX" "unpack_line p < ln"
  then have "unat p div 4096 < unat ln" "min (unat ln) 1048575 = unat ln"
    by (simp_all add: word_less_nat_alt word_le_nat_alt unat_unpack_line LINE_MAX_eq)
  then show ?thesis by (simp add: word_less_nat_alt unat_pack div_less_iff_less_mult)
qed

lemma sint_u32_small: "unat (v :: u32) < 2 ^ 31 \<Longrightarrow> sint v = int (unat v)"
  by (auto simp: sint_uint signed_take_bit_int_eq_self_iff unat_eq_nat_uint nat_less_iff
      simp del: nat_uint_eq intro: order_trans[OF _ uint_ge_0])

lemma unpack_line_small: "unat (unpack_line p) < 2 ^ 31"
  using unsigned_less[of p, where ?'a = nat] by (simp add: unat_unpack_line div_less_iff_less_mult)

lemma fold_max_ge: "x \<in> set xs \<Longrightarrow> (x :: u32) \<le> fold max xs m"
  by (metis List.finite_set Max.set_eq_fold Max_ge finite_insert insertI2 list.simps(15))

lemma fold_max_small:
  "\<forall>x \<in> set xs. unat (x :: u32) < k \<Longrightarrow> unat m < k \<Longrightarrow> unat (fold max xs m) < k"
  by (induction xs arbitrary: m) (auto simp: max_def)

text \<open>One interval: the inner loop, with its early break, considers every record.\<close>

lemma symbol_at_records_eq:
  assumes cols: "columns_ok dp 4 n" and "first + cnt \<le> n"
    and sorted: "sorted_wrt (\<le>) (map (\<lambda>r. (col dp n 1 r, col dp n 2 r)) [first..<first + cnt])"
  shows "fold_break (\<lambda>k. symbol_at_record dp (int n) q (int first + int k)) [0..<cnt] best =
           Ok (fold (consider_rec q) (map (doc_rec_at dp n) [first..<first + cnt]) best)"
proof -
  let ?g = "\<lambda>k. consider_rec q (doc_rec_at dp n (first + k))"
  have "fold_break (\<lambda>k. symbol_at_record dp (int n) q (int first + int k)) [0..<cnt] best =
      Ok (fold ?g [0..<cnt] best)"
  proof (rule fold_break_fold[where stop = "\<lambda>k. col dp n 1 (first + k) > q"])
    fix k b assume "k \<in> set [0..<cnt]"
    then have r: "first + k < n" using assms(2) by simp
    have "as_usize (8 + 4 * int n + 4 * (int first + int k)) = 8 + 4 * n + 4 * (first + k)"
      "as_usize (8 + 8 * int n + 4 * (int first + int k)) = 8 + 8 * n + 4 * (first + k)"
      "as_usize (8 + 4 * (int first + int k)) = 8 + 4 * (first + k)"
      "as_usize (8 + 12 * int n + 4 * (int first + int k)) = 8 + 12 * n + 4 * (first + k)"
      by (rule as_usize_eq, simp)+
    then show "symbol_at_record dp (int n) q (int first + int k) b =
        Ok (if col dp n 1 (first + k) > q then (b, True) else (?g k b, False))"
      using read_col[OF cols _ r, of 0] read_col[OF cols _ r, of 1] read_col[OF cols _ r, of 2]
        read_col[OF cols _ r, of 3]
      by (cases "col dp n 1 (first + k) \<le> q")
        (auto simp: symbol_at_record_def read_u32_i32 consider_rec_def covers_def extent_def as_best_def
          doc_rec_at_def dest: leD)
  next
    have "col dp n 1 (first + i) \<le> col dp n 1 (first + j)" if "i < j" "j < cnt" for i j
      using sorted_wrt_nth_less[OF sorted, of i j] that by auto
    then show "sorted_wrt (\<lambda>x y. q < col dp n 1 (first + x) \<longrightarrow> q < col dp n 1 (first + y)) [0..<cnt]"
      by (auto simp: sorted_wrt_iff_nth_less intro: less_le_trans)
  qed (auto simp: consider_rec_def covers_def doc_rec_at_def)
  moreover have "map (\<lambda>k. doc_rec_at dp n (first + k)) [0..<cnt] = map (doc_rec_at dp n) [first..<first + cnt]"
    by (rule nth_equalityI) simp_all
  moreover have "fold ?g [0..<cnt] best = fold (consider_rec q) (map (\<lambda>k. doc_rec_at dp n (first + k)) [0..<cnt]) best"
    by (simp add: fold_map comp_def)
  ultimately show ?thesis by simp
qed

text \<open>Skipping an interval that starts after, or ends before, the queried line drops no covering
  record.\<close>

lemma interval_skip:
  assumes "first_rec \<le> r" "r < first_rec + cnt"
    and sorted: "sorted_wrt (\<le>) (map (\<lambda>r. (col dp n 1 r, col dp n 2 r)) [first_rec..<first_rec + cnt])"
    and "ln \<le> LINE_MAX"
    and "ln < unpack_line (col dp n 1 first_rec) \<or>
         fold max (map (\<lambda>r. unpack_line (col dp n 2 r)) [first_rec..<first_rec + cnt]) 0 < ln"
  shows "\<not> covers (pack ln ch) (doc_rec_at dp n r)"
  using assms(5)
proof
  assume "ln < unpack_line (col dp n 1 first_rec)"
  then have "pack ln ch < col dp n 1 first_rec" by (rule line_gt_pack)
  also have "col dp n 1 first_rec \<le> col dp n 1 r"
  proof (cases "r = first_rec")
    case False
    then have "0 < r - first_rec" "r - first_rec < cnt" using assms(1,2) by auto
    then show ?thesis using sorted_wrt_nth_less[OF sorted, of 0 "r - first_rec"] assms(1) by auto
  qed simp
  finally show ?thesis by (simp add: covers_def doc_rec_at_def not_le)
next
  let ?lines = "map (\<lambda>r. unpack_line (col dp n 2 r)) [first_rec..<first_rec + cnt]"
  assume "fold max ?lines 0 < ln"
  moreover have "unpack_line (col dp n 2 r) \<le> fold max ?lines 0"
    by (rule fold_max_ge) (use assms(1,2) in auto)
  ultimately have "unpack_line (col dp n 2 r) < ln" by simp
  from line_lt_pack[OF assms(4) this, of ch] show ?thesis by (auto simp: covers_def doc_rec_at_def dest: leD)
qed

text \<open>The state after one interval: the best hit and the number of intervals scanned.\<close>
definition interval_next ::
  "byte list \<Rightarrow> nat \<Rightarrow> u32 \<Rightarrow> u32 \<Rightarrow> nat \<Rightarrow> nat \<Rightarrow> best_hit \<times> u32 \<Rightarrow> best_hit \<times> u32" where
  "interval_next dp n ln q first cnt = (\<lambda>(best, scanned).
     if ln < unpack_line (col dp n 1 first) \<or>
        fold max (map (\<lambda>r. unpack_line (col dp n 2 r)) [first..<first + cnt]) 0 < ln
     then (best, scanned)
     else (fold (consider_rec q) (map (doc_rec_at dp n) [first..<first + cnt]) best, scanned + 1))"

lemma symbol_at_interval_eq:
  assumes cols: "columns_ok (seg_file rd DOC_POSTINGS) 4 n" and "first + cnt \<le> n"
    and sorted: "sorted_wrt (\<le>) (map (\<lambda>r. (col (seg_file rd DOC_POSTINGS) n 1 r, col (seg_file rd DOC_POSTINGS) n 2 r))
          [first..<first + cnt])"
    and iv: "interval_ok rd n (cur + b) first cnt" and cur: "sint ifirst = int cur" "cur + b < 2 ^ 31"
    and "ln \<le> LINE_MAX"
  shows "symbol_at_interval rd (seg_file rd DOC_POSTINGS) (int n) ifirst ln q b st =
     Ok (if ln < unpack_line (col (seg_file rd DOC_POSTINGS) n 1 first) then (st, True)
         else (interval_next (seg_file rd DOC_POSTINGS) n ln q first cnt st, False))"
proof -
  let ?dp = "seg_file rd DOC_POSTINGS" and ?di = "seg_file rd DOC_INDEX"
  let ?ib = "24 + unat (rd_doc_count rd) * 48 + (cur + b) * 24"
  let ?last = "fold max (map (\<lambda>r. unpack_line (col ?dp n 2 r)) [first..<first + cnt]) 0"
  obtain v w where reads: "read_i64 ?di (?ib + 8) = Some v" "sint v = int first"
    "read_i32 ?di (?ib + 16) = Some w" "sint w = int cnt"
    "read_i32 ?di ?ib = Some (unpack_line (col ?dp n 1 first))" "read_i32 ?di (?ib + 4) = Some ?last"
    using iv by (auto simp: interval_ok_def Let_def)
  have "unat ifirst = cur" using cur(1) by (simp add: sint_eq_int_iff)
  then have "unat (ifirst + word_of_nat b) = cur + b"
    using cur(2) by (simp add: unat_word_ariths unat_of_nat)
  then have "sint (ifirst + word_of_nat b) = int (cur + b)" using cur(2) sint_u32_small by metis
  then have idx: "usize_of_i32 (ifirst + word_of_nat b) = cur + b"
    by (simp add: usize_of_i32_nonneg)
  have small: "sint (unpack_line p) = int (unat (unpack_line p))" for p
    using sint_u32_small unpack_line_small by blast
  have "sint ln = int (unat ln)"
    using assms(7) by (intro sint_u32_small) (simp add: LINE_MAX_eq word_le_nat_alt)
  moreover have "sint ?last = int (unat ?last)"
    by (intro sint_u32_small fold_max_small) (auto simp: unpack_line_small[simplified])
  ultimately show ?thesis
    using reads symbol_at_records_eq[OF cols assms(2) sorted]
    by (cases st)
      (auto simp: symbol_at_interval_def Let_def idx DOC_ENTRY_SIZE_def INTERVAL_ENTRY_SIZE_def small
        interval_next_def word_less_def)
qed

lemma sorted_wrt_map_upt_sub:
  "sorted_wrt R (map f [a..<b]) \<Longrightarrow> a \<le> c \<Longrightarrow> d \<le> b \<Longrightarrow> sorted_wrt R (map f [c..<d])"
proof -
  assume R: "sorted_wrt R (map f [a..<b])" and "a \<le> c" "d \<le> b"
  have "R (f (c + i)) (f (c + j))" if "i < j" "j < d - c" for i j
    using sorted_wrt_nth_less[OF R, of "c - a + i" "c - a + j"] that \<open>a \<le> c\<close> \<open>d \<le> b\<close> by simp
  then show ?thesis by (auto simp: sorted_wrt_iff_nth_less)
qed

lemma symbol_at_loop_eq:
  assumes cols: "columns_ok (seg_file rd DOC_POSTINGS) 4 n" and range: "acc + cnt \<le> n"
    and sorted: "sorted_wrt (\<le>) (map (\<lambda>r. (col (seg_file rd DOC_POSTINGS) n 1 r, col (seg_file rd DOC_POSTINGS) n 2 r))
          [acc..<acc + cnt])"
    and ivs: "\<forall>k < div_ceil cnt 256. cur + k < ic \<and>
         interval_ok rd n (cur + k) (acc + k * 256) (min (cnt - k * 256) 256)"
    and cur: "sint ifirst = int cur" and ic: "ic \<le> 2 ^ 31" and ln: "ln \<le> LINE_MAX"
  shows "\<exists>scanned. fold_break (symbol_at_interval rd (seg_file rd DOC_POSTINGS) (int n) ifirst ln (pack ln ch))
             [0..<div_ceil cnt 256] (None, 0) =
           Ok (fold (consider_rec (pack ln ch)) (map (doc_rec_at (seg_file rd DOC_POSTINGS) n) [acc..<acc + cnt]) None,
               scanned)"
proof -
  let ?dp = "seg_file rd DOC_POSTINGS" and ?q = "pack ln ch"
  let ?c = "\<lambda>k. min (cnt - k * 256) 256"
  let ?g = "\<lambda>k. interval_next ?dp n ln ?q (acc + k * 256) (?c k)"
  have in_range: "k * 256 < cnt" if "k < div_ceil cnt 256" for k
    using that by (auto simp: div_ceil_def less_eq_div_iff_mult_less_eq Suc_le_eq)
  have sub: "sorted_wrt (\<le>) (map (\<lambda>r. (col ?dp n 1 r, col ?dp n 2 r)) [acc + k * 256..<acc + k * 256 + ?c k])"
    if "k < div_ceil cnt 256" for k
    using in_range[OF that] by (intro sorted_wrt_map_upt_sub[OF sorted]) auto
  have loop: "fold_break (symbol_at_interval rd ?dp (int n) ifirst ln ?q) [0..<div_ceil cnt 256] s =
      Ok (fold ?g [0..<div_ceil cnt 256] s)" for s
  proof (rule fold_break_fold[where stop = "\<lambda>k. ln < unpack_line (col ?dp n 1 (acc + k * 256))"])
    fix k st assume "k \<in> set [0..<div_ceil cnt 256]"
    then have k: "k < div_ceil cnt 256" by simp
    have "cur + k < 2 ^ 31" "interval_ok rd n (cur + k) (acc + k * 256) (?c k)" using ivs k ic by auto
    then show "symbol_at_interval rd ?dp (int n) ifirst ln ?q k st =
        Ok (if ln < unpack_line (col ?dp n 1 (acc + k * 256)) then (st, True) else (?g k st, False))"
      using symbol_at_interval_eq[OF cols _ sub[OF k] _ cur _ ln] in_range[OF k] range by simp
  next
    have "unpack_line (col ?dp n 1 (acc + i * 256)) \<le> unpack_line (col ?dp n 1 (acc + j * 256))"
      if "i < j" "j < div_ceil cnt 256" for i j
      using sorted_wrt_nth_less[OF sorted, of "i * 256" "j * 256"] in_range[OF that(2)] that
      by (auto simp: word_le_nat_alt unat_unpack_line word_less_nat_alt intro!: div_le_mono)
    then show "sorted_wrt (\<lambda>x y. ln < unpack_line (col ?dp n 1 (acc + x * 256)) \<longrightarrow>
        ln < unpack_line (col ?dp n 1 (acc + y * 256))) [0..<div_ceil cnt 256]"
      by (auto simp: sorted_wrt_iff_nth_less intro: less_le_trans)
  qed (auto simp: interval_next_def)
  have upto: "fst (fold ?g [0..<j] (None, 0)) =
      fold (consider_rec ?q) (map (doc_rec_at ?dp n) [acc..<acc + min (j * 256) cnt]) None" if "j \<le> div_ceil cnt 256" for j
    using that
  proof (induction j)
    case (Suc j)
    then have j: "j < div_ceil cnt 256" by simp
    note lt = in_range[OF j]
    obtain best sc where st: "fold ?g [0..<j] (None, 0) = (best, sc)" by fastforce
    have "fst (?g j (best, sc)) =
        fold (consider_rec ?q) (map (doc_rec_at ?dp n) [acc + j * 256..<acc + j * 256 + ?c j]) best"
    proof (cases "ln < unpack_line (col ?dp n 1 (acc + j * 256)) \<or>
        fold max (map (\<lambda>r. unpack_line (col ?dp n 2 r)) [acc + j * 256..<acc + j * 256 + ?c j]) 0 < ln")
      case True
      have "\<forall>rec \<in> set (map (doc_rec_at ?dp n) [acc + j * 256..<acc + j * 256 + ?c j]). \<not> covers ?q rec"
        using interval_skip[OF _ _ sub[OF j] ln True] by auto
      then have "fold (consider_rec ?q) (map (doc_rec_at ?dp n) [acc + j * 256..<acc + j * 256 + ?c j]) best = best"
        by (intro fold_invariant[where Q = "\<lambda>rec. \<not> covers ?q rec" and P = "\<lambda>b. b = best"])
          (auto simp: consider_rec_skip)
      then show ?thesis using True by (simp only: interval_next_def if_True prod.case fst_conv)
    qed (simp only: interval_next_def if_False prod.case fst_conv)
    moreover have "[acc..<acc + min (Suc j * 256) cnt] = [acc..<acc + j * 256] @ [acc + j * 256..<acc + j * 256 + ?c j]"
    proof -
      have "acc + min (Suc j * 256) cnt = acc + j * 256 + ?c j" using lt by simp
      then show ?thesis by (simp only: upt_add_eq_append[of acc "acc + j * 256" "?c j", simplified])
    qed
    ultimately show ?case using Suc st lt by simp
  qed simp
  have "min (div_ceil cnt 256 * 256) cnt = cnt" by (simp add: div_ceil_def)
  then have "fst (fold ?g [0..<div_ceil cnt 256] (None, 0)) =
      fold (consider_rec ?q) (map (doc_rec_at ?dp n) [acc..<acc + cnt]) None"
    using upto[OF order_refl] by simp
  then show ?thesis
    by (intro exI[of _ "snd (fold ?g [0..<div_ceil cnt 256] (None, 0))"])
      (simp only: loop prod_eq_iff outcome.inject fst_conv snd_conv)
qed

text \<open>The hit that a covering record gives.\<close>
definition hit_of :: "u32 \<Rightarrow> doc_rec \<Rightarrow> occurrence_hit" where
  "hit_of d rec =
     \<lparr>oh_symbol_ord = dc_symbol_ord rec, oh_doc_ord = d,
      oh_span = new_span (unpack_line (dc_packed_start rec)) (unpack_char (dc_packed_start rec))
                  (unpack_line (dc_packed_end rec)) (unpack_char (dc_packed_end rec)),
      oh_role = (if has (dc_flags rec) DEFINITION then Definition else Reference), oh_flags = dc_flags rec\<rparr>"

lemma hit_of_best_as_best: "hit_of_best d (Some (as_best rec)) = Some (hit_of d rec)"
  by (simp add: hit_of_best_def as_best_def hit_of_def)

lemma symbol_at_eq:
  assumes doc: "doc_ok rd n ic (unat d)" and cols: "columns_ok (seg_file rd DOC_POSTINGS) 4 n"
    and ic: "ic \<le> 2 ^ 31" and ln: "ln \<le> LINE_MAX"
  shows "\<exists>e recs. doc_entry rd (unat d) = Ok e \<and>
     map_o (\<lambda>k. doc_record rd (sint (dv_postings_offset e) + int k)) [0..<nat (sint (dv_postings_count e))] = Ok recs \<and>
     symbol_at rd d ln ch = Ok (hit_of_best d (fold (consider_rec (pack ln ch)) recs None))"
proof -
  let ?dp = "seg_file rd DOC_POSTINGS"
  from doc obtain e acc cnt where e: "doc_entry rd (unat d) = Ok e"
    "sint (dv_postings_offset e) = int acc" "sint (dv_postings_count e) = int cnt" "acc + cnt \<le> n"
    "sorted_wrt (\<le>) (map (\<lambda>r. (col ?dp n 1 r, col ?dp n 2 r)) [acc..<acc + cnt])"
    and empty: "cnt = 0 \<longrightarrow> dv_interval_first e = -1 \<and> dv_interval_count e = 0"
    and ivs: "cnt \<noteq> 0 \<longrightarrow> (\<exists>cur. sint (dv_interval_first e) = int cur \<and>
       sint (dv_interval_count e) = int (div_ceil cnt 256) \<and>
       (\<forall>k < div_ceil cnt 256. cur + k < ic \<and>
          interval_ok rd n (cur + k) (acc + k * 256) (min (cnt - k * 256) 256)))"
    by (auto simp: doc_ok_def)
  have reads: "read_i32 (seg_file rd DOC_INDEX) (doc_entry_base (unat d) + 28) = Some (dv_interval_first e)"
    "read_i32 (seg_file rd DOC_INDEX) (doc_entry_base (unat d) + 44) = Some (dv_interval_count e)"
    using e(1) by (auto simp: doc_entry_def Let_def and_then_eq_Ok unwrap_eq_Ok)
  let ?recs = "map (doc_rec_at ?dp n) [acc..<acc + cnt]"
  have "map_o (\<lambda>k. doc_record rd (int acc + int k)) [0..<cnt] =
      Ok (map (\<lambda>k. doc_rec_at ?dp n (acc + k)) [0..<cnt])"
    by (rule map_o_map_Ok) (use e(4) doc_record_eq[OF cols] in \<open>simp flip: of_nat_add\<close>)
  also have "map (\<lambda>k. doc_rec_at ?dp n (acc + k)) [0..<cnt] = ?recs"
    by (rule nth_equalityI) simp_all
  finally have read: "map_o (\<lambda>k. doc_record rd (int acc + int k)) [0..<cnt] = Ok ?recs" .
  have "symbol_at rd d ln ch = Ok (hit_of_best d (fold (consider_rec (pack ln ch)) ?recs None))"
  proof (cases "cnt = 0")
    case True
    then show ?thesis
      using reads empty by (simp add: symbol_at_def symbol_at_counting_def Let_def hit_of_best_def)
  next
    case False
    with ivs obtain cur where cur: "sint (dv_interval_first e) = int cur"
      "sint (dv_interval_count e) = int (div_ceil cnt 256)"
      "\<forall>k < div_ceil cnt 256. cur + k < ic \<and> interval_ok rd n (cur + k) (acc + k * 256) (min (cnt - k * 256) 256)"
      by blast
    obtain v where v: "read_i64 ?dp 0 = Some v" "sint v = int n" using cols by (auto simp: columns_ok_def)
    have "dv_interval_count e \<noteq> 0" using cur(2) False by (auto simp: div_ceil_def)
    then show ?thesis
      using reads v cur(1,2) symbol_at_loop_eq[OF cols e(4,5) cur(3,1) ic ln, of ch]
      by (auto simp: symbol_at_def symbol_at_counting_def Let_def)
  qed
  with e read show ?thesis by (intro exI[of _ e] exI[of _ ?recs]) simp
qed

text \<open>
  C4: The occurrence under a cursor: on an opened segment \<open>symbol_at\<close>, which prunes
  interval blocks by line and stops early inside one, never panics and agrees with a search of
  all the document's records. It answers none only when no record covers the position, and
  otherwise a record that covers it, with the smallest extent of all that do. The document
  index is below 2 GiB, so that an interval's ordinal fits an \<open>i32\<close>, and the line is one that a
  packed position can hold.
\<close>
theorem symbol_at_exact:
  assumes "open_segment crc dir = Ok rd" and "d < rd_doc_count rd"
    and "length (seg_file rd DOC_INDEX) \<le> 2 ^ 31" and "ln \<le> LINE_MAX"
  shows "\<exists>e recs hit. doc_entry rd (unat d) = Ok e \<and>
     map_o (\<lambda>k. doc_record rd (sint (dv_postings_offset e) + int k)) [0..<nat (sint (dv_postings_count e))] = Ok recs \<and>
     symbol_at rd d ln ch = Ok hit \<and>
     (case hit of
        None \<Rightarrow> list_all (\<lambda>rec. \<not> covers (pack ln ch) rec) recs
      | Some h \<Rightarrow> list_ex (\<lambda>rec. h = hit_of d rec \<and> covers (pack ln ch) rec \<and>
                    list_all (\<lambda>r. covers (pack ln ch) r \<longrightarrow> extent rec \<le> extent r) recs) recs)"
proof -
  from assms(1) obtain z rd1 where rd1: "deep_validate rd1 z = Ok ()" "sizes_ok rd1 z"
    "rd = rd1\<lparr>rd_doc_epochs := rd_doc_epochs rd\<rparr>"
    by (rule open_segment_deep)
  have same: "seg_file rd i = seg_file rd1 i" "rd_doc_count rd = rd_doc_count rd1" for i
    by (subst rd1(3), simp)+
  have cols: "columns_ok (seg_file rd DOC_POSTINGS) 4 (sz_doc_recs z)" and "sz_ic z \<le> 2 ^ 31"
    using rd1(2) assms(3) by (auto simp: sizes_ok_def same)
  have "doc_ok rd1 (sz_doc_recs z) (sz_ic z) (unat d)"
  proof (rule validate_doc_index_Ok)
    show "validate_doc_index rd1 (unat (rd_doc_count rd1)) (sz_ic z) (sz_ub z) (sz_doc_recs z) = Ok ()"
      using rd1(1,2) by (auto simp: deep_validate_def Let_def and_then_eq_Ok sizes_ok_def)
  qed (use cols assms(2) in \<open>simp_all add: same word_less_nat_alt\<close>)
  then have doc: "doc_ok rd (sz_doc_recs z) (sz_ic z) (unat d)" by (subst rd1(3)) simp
  from symbol_at_eq[OF doc cols \<open>sz_ic z \<le> 2 ^ 31\<close> assms(4), of ch] obtain e recs where
    e: "doc_entry rd (unat d) = Ok e"
    "map_o (\<lambda>k. doc_record rd (sint (dv_postings_offset e) + int k)) [0..<nat (sint (dv_postings_count e))] = Ok recs"
    "symbol_at rd d ln ch = Ok (hit_of_best d (fold (consider_rec (pack ln ch)) recs None))" by blast
  have best: "is_best (pack ln ch) recs (fold (consider_rec (pack ln ch)) recs None)" by (rule is_best_fold)
  show ?thesis
  proof (intro exI conjI)
    show "case hit_of_best d (fold (consider_rec (pack ln ch)) recs None) of
        None \<Rightarrow> list_all (\<lambda>rec. \<not> covers (pack ln ch) rec) recs
      | Some h \<Rightarrow> list_ex (\<lambda>rec. h = hit_of d rec \<and> covers (pack ln ch) rec \<and>
                    list_all (\<lambda>r. covers (pack ln ch) r \<longrightarrow> extent rec \<le> extent r) recs) recs"
    proof (cases "fold (consider_rec (pack ln ch)) recs None")
      case None
      then show ?thesis using best by (simp add: is_best_def hit_of_best_def)
    next
      case (Some b)
      with best show ?thesis by (auto simp: is_best_def list_ex_iff hit_of_best_as_best)
    qed
  qed (use e in auto)
qed

theorem symbol_at_exact_witness:
  "\<exists>e recs hit. doc_entry sample_reader (unat (0 :: u32)) = Ok e \<and>
     map_o (\<lambda>k. doc_record sample_reader (sint (dv_postings_offset e) + int k))
       [0..<nat (sint (dv_postings_count e))] = Ok recs \<and>
     symbol_at sample_reader 0 1 2 = Ok hit \<and>
     (case hit of
        None \<Rightarrow> list_all (\<lambda>rec. \<not> covers (pack 1 2) rec) recs
      | Some h \<Rightarrow> list_ex (\<lambda>rec. h = hit_of 0 rec \<and> covers (pack 1 2) rec \<and>
                    list_all (\<lambda>r. covers (pack 1 2) r \<longrightarrow> extent rec \<le> extent r) recs) recs)"
  by (rule symbol_at_exact[OF sample_opens])
    (simp_all add: sample_reader_def sample_unchecked_def seg_file_def sample_files_def LINE_MAX_eq)

end
