(* ===== verification/Uri.thy ===== *)
theory Uri
  imports Index_Model Utf8
begin

text \<open>
  \<open>file://\<close> URIs, \<open>crates/ls-index-model/src/uri.rs\<close>. A path is its bytes, as on Unix. Of the
  standard library the model spells out \<open>Path::components\<close>, \<open>PathBuf::push\<close> and
  \<open>PathBuf::pop\<close>: a \<open>PathBuf\<close> under construction is the list of the components pushed on it, and
  \<open>render\<close> is its bytes. The free text of an error is dropped; each early return is a constructor.
\<close>

unbundle bit_operations_syntax

datatype uri_error = NotFileUri | NonEmptyAuthority | NoPath | TruncatedEscape | BadEscape | BadUtf8

type_synonym 'a uri_result = "('a, uri_error) outcome"

section \<open>Percent encoding\<close>

definition is_ascii_alphanumeric :: "byte \<Rightarrow> bool" where
  "is_ascii_alphanumeric b \<longleftrightarrow> (48 \<le> b \<and> b \<le> 57) \<or> (65 \<le> b \<and> b \<le> 90) \<or> (97 \<le> b \<and> b \<le> 122)"

definition is_unreserved :: "byte \<Rightarrow> bool" where
  "is_unreserved b \<longleftrightarrow> is_ascii_alphanumeric b \<or> b = 45 \<or> b = 95 \<or> b = 46 \<or> b = 126 \<or> b = 47"

definition HEX :: "byte list" where
  "HEX = lit ''0123456789ABCDEF''"

definition encode_byte :: "byte \<Rightarrow> str" where
  "encode_byte b =
     (if is_unreserved b then [b] else [37, HEX ! unat (drop_bit 4 b), HEX ! unat (b AND 0x0f)])"

definition path_to_uri :: "str \<Rightarrow> str" where
  "path_to_uri path = lit ''file://'' @ concat (map encode_byte (from_utf8_lossy path))"

definition hex_val :: "byte \<Rightarrow> byte option" where
  "hex_val b =
     (if 48 \<le> b \<and> b \<le> 57 then Some (b - 48)
      else if 97 \<le> b \<and> b \<le> 102 then Some (b - 97 + 10)
      else if 65 \<le> b \<and> b \<le> 70 then Some (b - 65 + 10)
      else None)"

fun percent_decode :: "str \<Rightarrow> byte list uri_result" where
  "percent_decode [] = Ok []"
| "percent_decode (b # rest) =
     (if b = 37
      then (case rest of
              h # l # rest' \<Rightarrow>
                and_then (ok_or (hex_val h) BadEscape) (\<lambda>hi.
                and_then (ok_or (hex_val l) BadEscape) (\<lambda>lo.
                and_then (percent_decode rest') (\<lambda>out. Ok ((push_bit 4 hi OR lo) # out))))
            | _ \<Rightarrow> Err TruncatedEscape)
      else and_then (percent_decode rest) (\<lambda>out. Ok (b # out)))"

section \<open>URI to path\<close>

definition strip_prefix :: "str \<Rightarrow> str \<Rightarrow> str option" where
  "strip_prefix p s = (if take (length p) s = p then Some (drop (length p) s) else None)"

definition path_part :: "str \<Rightarrow> str uri_result" where
  "path_part uri =
     (case strip_prefix (lit ''file:'') uri of
        None \<Rightarrow> Err NotFileUri
      | Some rest \<Rightarrow>
          (case strip_prefix (lit ''//'') rest of
             Some after_authority \<Rightarrow>
               (case find_byte 47 after_authority of
                  Some 0 \<Rightarrow> Ok after_authority
                | Some (Suc _) \<Rightarrow> Err NonEmptyAuthority
                | None \<Rightarrow> Err NoPath)
           | None \<Rightarrow> if take 1 rest = [47] then Ok rest else Err NoPath))"

definition uri_to_path :: "str \<Rightarrow> str uri_result" where
  "uri_to_path uri =
     and_then (path_part uri) (\<lambda>part.
     and_then (percent_decode part) (\<lambda>bytes.
       ok_or (from_utf8 bytes) BadUtf8))"

section \<open>Lexical normalisation\<close>

datatype component = RootDir | CurDir | ParentDir | Normal str

fun split_on :: "byte \<Rightarrow> str \<Rightarrow> str list" where
  "split_on c [] = [[]]"
| "split_on c (x # xs) =
     (if x = c then [] # split_on c xs
      else (case split_on c xs of [] \<Rightarrow> [[x]] | y # ys \<Rightarrow> (x # y) # ys))"

definition component_of :: "str \<Rightarrow> component" where
  "component_of s = (if s = [46] then CurDir else if s = [46, 46] then ParentDir else Normal s)"

text \<open>\<open>Path::components\<close>: repeated separators collapse, \<open>.\<close> survives only at the start of a relative
  path.\<close>
definition components :: "str \<Rightarrow> component list" where
  "components p =
     (let pieces = map component_of (filter (\<lambda>s. s \<noteq> []) (split_on 47 p))
      in if take 1 p = [47] then RootDir # filter (\<lambda>c. c \<noteq> CurDir) pieces
         else (case pieces of [] \<Rightarrow> [] | c # cs \<Rightarrow> c # filter (\<lambda>c. c \<noteq> CurDir) cs))"

text \<open>\<open>PathBuf::pop\<close> drops the last component unless it is the root.\<close>
definition pop :: "component list \<Rightarrow> component list" where
  "pop out = (if out = [] \<or> last out = RootDir then out else butlast out)"

text \<open>\<open>PathBuf::push\<close>: an absolute component replaces the path.\<close>
definition push :: "component list \<Rightarrow> component \<Rightarrow> component list" where
  "push out c = (if c = RootDir then [RootDir] else out @ [c])"

definition normalize_step :: "component \<Rightarrow> component list \<Rightarrow> component list" where
  "normalize_step c out = (case c of ParentDir \<Rightarrow> pop out | CurDir \<Rightarrow> out | _ \<Rightarrow> push out c)"

definition os_str :: "component \<Rightarrow> str" where
  "os_str c = (case c of RootDir \<Rightarrow> [47] | CurDir \<Rightarrow> [46] | ParentDir \<Rightarrow> [46, 46] | Normal s \<Rightarrow> s)"

fun join_slash :: "str list \<Rightarrow> str" where
  "join_slash [] = []"
| "join_slash [s] = s"
| "join_slash (s # t # ts) = s @ 47 # join_slash (t # ts)"

definition render :: "component list \<Rightarrow> str" where
  "render cs = (case cs of RootDir # rest \<Rightarrow> 47 # join_slash (map os_str rest) | _ \<Rightarrow> join_slash (map os_str cs))"

definition normalize :: "str \<Rightarrow> str" where
  "normalize path = render (fold normalize_step (components path) [])"

definition has_nonempty_authority :: "str \<Rightarrow> bool" where
  "has_nonempty_authority uri =
     (case strip_prefix (lit ''file://'') uri of
        None \<Rightarrow> False
      | Some rest \<Rightarrow> hd (split_on 47 rest) \<noteq> [])"

definition normalize_uri :: "str \<Rightarrow> str" where
  "normalize_uri uri =
     (if has_nonempty_authority uri then uri
      else (case uri_to_path uri of Ok path \<Rightarrow> path_to_uri (normalize path) | _ \<Rightarrow> uri))"

section \<open>Round trip\<close>

lemma hex_digit_round_trip: "n < 16 \<Longrightarrow> hex_val (HEX ! n) = Some (word_of_nat n)"
proof -
  have "\<forall>n \<in> set [0..<16]. hex_val (HEX ! n) = Some (word_of_nat n)" by code_simp
  then show "n < 16 \<Longrightarrow> ?thesis" by simp
qed

lemma nibbles: "push_bit 4 (drop_bit 4 b) OR (b AND 0x0f) = (b :: byte)"
proof -
  have "b AND 0x0f = take_bit 4 b" by (simp add: take_bit_eq_mask mask_eq_exp_minus_1)
  then show ?thesis by (intro bit_word_eqI) (auto simp: bit_simps)
qed

lemma percent_decode_encode_byte:
  "percent_decode (encode_byte b @ rest) = and_then (percent_decode rest) (\<lambda>out. Ok (b # out))"
proof (cases "is_unreserved b")
  case True
  then have "b \<noteq> 37" by (auto simp: is_unreserved_def is_ascii_alphanumeric_def)
  then show ?thesis using True by (simp add: encode_byte_def)
next
  case False
  have "unat (drop_bit 4 b) < 16"
    using unsigned_less[of b, where ?'a = nat] by (simp add: drop_bit_eq_div unat_div div_less_iff_less_mult)
  moreover have "unat (b AND 0x0f) < 16"
    using word_and_le1[of b "0x0f"] by (simp add: word_le_nat_alt)
  ultimately show ?thesis using False nibbles[of b] by (simp add: encode_byte_def hex_digit_round_trip)
qed

lemma percent_decode_encode: "percent_decode (concat (map encode_byte bs)) = Ok bs"
  by (induction bs) (simp_all add: percent_decode_encode_byte)

lemma strip_prefix_append [simp]: "strip_prefix p (p @ s) = Some s"
  by (simp add: strip_prefix_def)

lemma path_part_encoded:
  "take 1 p = [47] \<Longrightarrow> path_part (lit ''file://'' @ concat (map encode_byte p)) = Ok (concat (map encode_byte p))"
proof -
  assume "take 1 p = [47]"
  then obtain q where p: "p = 47 # q" by (cases p) auto
  have "encode_byte 47 = [47]" by (simp add: encode_byte_def is_unreserved_def)
  moreover have "lit ''file://'' = lit ''file:'' @ lit ''//''" by (simp add: lit_def)
  ultimately show ?thesis by (simp add: path_part_def p)
qed

lemma uri_to_path_to_uri:
  "utf8_valid p \<Longrightarrow> take 1 p = [47] \<Longrightarrow> uri_to_path (path_to_uri p) = Ok p"
  by (simp add: uri_to_path_def path_to_uri_def path_part_encoded percent_decode_encode from_utf8_lossy_valid
      from_utf8_def)

section \<open>Idempotence\<close>

text \<open>Splitting at an ASCII separator preserves well-formed UTF-8.\<close>

lemma second_ok_ge: "second_ok b0 b1 \<Longrightarrow> 0x80 \<le> b1"
  unfolding second_ok_def is_cont_def word_le_nat_alt by (simp split: if_splits)

lemma is_cont_ge: "is_cont b \<Longrightarrow> 0x80 \<le> b"
  by (simp add: is_cont_def)

lemma utf8_width_ge: "utf8_width b \<noteq> 1 \<Longrightarrow> 0x80 \<le> b"
  by (auto simp: utf8_width_def split: if_splits)

lemma utf8_step_no_ascii:
  "fst (utf8_step bs) \<Longrightarrow> 1 < snd (utf8_step bs) \<Longrightarrow> \<forall>c \<in> set (take (snd (utf8_step bs)) bs). 0x80 \<le> c"
proof (cases bs)
  case (Cons b0 rest)
  assume step: "fst (utf8_step bs)" "1 < snd (utf8_step bs)"
  then have w: "utf8_width b0 \<noteq> 1" "utf8_width b0 \<noteq> 0" by (auto simp: Cons split: if_splits)
  then have "0x80 \<le> b0" using utf8_width_ge by blast
  with step w show ?thesis
    unfolding Cons
    by (auto simp del: One_nat_def split: list.splits if_splits dest: second_ok_ge is_cont_ge utf8_width_ge)
qed simp

lemma utf8_step_prefix:
  assumes "fst (utf8_step (xs @ ys))" and "snd (utf8_step (xs @ ys)) \<le> length xs" and "xs \<noteq> []"
  shows "utf8_step xs = utf8_step (xs @ ys)"
proof -
  obtain x xs' where xs: "xs = x # xs'" using assms(3) by (cases xs) auto
  show ?thesis
  proof (cases xs')
    case Nil
    then show ?thesis using assms(1,2) by (auto simp: xs split: list.splits if_splits)
  next
    case c1: (Cons y xs'')
    show ?thesis
    proof (cases xs'')
      case Nil
      then show ?thesis using assms(1,2) by (auto simp: xs c1 split: list.splits if_splits)
    next
      case c2: (Cons z xs3)
      then show ?thesis using assms(1,2) by (cases xs3) (auto simp: xs c1 split: list.splits if_splits)
    qed
  qed
qed

lemma utf8_valid_step:
  "bs \<noteq> [] \<Longrightarrow> utf8_valid bs \<longleftrightarrow> fst (utf8_step bs) \<and> utf8_valid (drop (snd (utf8_step bs)) bs)"
  by (subst utf8_valid.simps) (simp del: utf8_step.simps)

declare utf8_step.simps [simp del]

lemma utf8_valid_split:
  "utf8_valid (xs @ c # ys) \<Longrightarrow> c < 0x80 \<Longrightarrow> utf8_valid xs \<and> utf8_valid ys"
proof (induction "length xs" arbitrary: xs rule: less_induct)
  case less
  show ?case
  proof (cases xs)
    case Nil
    then show ?thesis using less.prems by (simp add: utf8_valid.simps[of "c # ys"] utf8_width_def utf8_step.simps)
  next
    case (Cons x xs')
    let ?n = "snd (utf8_step (xs @ c # ys))"
    have step: "fst (utf8_step (xs @ c # ys))" "utf8_valid (drop ?n (xs @ c # ys))"
      using less.prems utf8_valid_step[of "xs @ c # ys"] by blast+
    have "?n \<le> length xs"
    proof (rule ccontr)
      assume "\<not> ?n \<le> length xs"
      then have "1 < ?n" "c \<in> set (take ?n (xs @ c # ys))" using Cons by (auto simp: take_Cons')
      then show False using utf8_step_no_ascii[OF step(1)] less.prems(2) by (meson leD)
    qed
    moreover have "0 < ?n" using utf8_step_pos[of "xs @ c # ys"] by simp
    moreover have "drop ?n (xs @ c # ys) = drop ?n xs @ c # ys" using \<open>?n \<le> length xs\<close> by simp
    moreover have "0 < length xs" by (simp add: Cons)
    ultimately have "utf8_valid (drop ?n xs) \<and> utf8_valid ys"
      using less.hyps[of "drop ?n xs"] step(2) less.prems(2) by simp
    moreover have "utf8_step xs = utf8_step (xs @ c # ys)"
      using utf8_step_prefix[OF step(1) \<open>?n \<le> length xs\<close>] Cons by simp
    ultimately show ?thesis using step(1) utf8_valid_step[of xs] Cons by (metis list.distinct(1))
  qed
qed

lemma split_on_valid: "utf8_valid p \<Longrightarrow> c < 0x80 \<Longrightarrow> s \<in> set (split_on c p) \<Longrightarrow> utf8_valid s"
proof (induction "length p" arbitrary: p rule: less_induct)
  case less
  have split: "split_on c (xs @ c # ys) = xs # split_on c ys" if "c \<notin> set xs" for xs ys
    using that by (induction xs) auto
  have whole: "split_on c xs = [xs]" if "c \<notin> set xs" for xs
    using that by (induction xs) auto
  show ?case
  proof (cases "c \<in> set p")
    case True
    then obtain xs ys where p: "p = xs @ c # ys" "c \<notin> set xs" by (meson split_list_first)
    have valid: "utf8_valid xs" "utf8_valid ys"
      using utf8_valid_split[of xs c ys] less.prems(1,2) unfolding p(1) by blast+
    have "s = xs \<or> s \<in> set (split_on c ys)" using less.prems(3) by (simp add: p(1) split[OF p(2)])
    moreover have "length ys < length p" by (simp add: p(1))
    ultimately show ?thesis using valid less.hyps[OF _ valid(2) less.prems(2)] by auto
  qed (use less.prems whole in auto)
qed

lemma split_on_no_sep: "\<forall>s \<in> set (split_on c p). c \<notin> set s"
  by (induction c p rule: split_on.induct) (auto split: list.splits if_splits)

lemma split_on_join:
  "ss \<noteq> [] \<Longrightarrow> \<forall>s \<in> set ss. 47 \<notin> set s \<Longrightarrow> split_on 47 (join_slash ss) = ss"
proof (induction ss rule: join_slash.induct)
  case (2 s)
  have "47 \<notin> set s \<Longrightarrow> split_on 47 s = [s]" for s by (induction s) auto
  then show ?case using 2 by simp
next
  case (3 s t ts)
  have "47 \<notin> set s \<Longrightarrow> split_on 47 (s @ 47 # r) = s # split_on 47 r" for s r by (induction s) auto
  then show ?case using 3 by simp
qed simp

text \<open>A normal form: an optional root, then plain names.\<close>
definition plain :: "str \<Rightarrow> bool" where
  "plain s \<longleftrightarrow> s \<noteq> [] \<and> s \<noteq> [46] \<and> s \<noteq> [46, 46] \<and> 47 \<notin> set s \<and> utf8_valid s"

definition normal_form :: "component list \<Rightarrow> bool" where
  "normal_form cs \<longleftrightarrow> (\<exists>ns. (cs = RootDir # map Normal ns \<or> cs = map Normal ns) \<and> list_all plain ns)"

lemma pop_normal: "normal_form cs \<Longrightarrow> normal_form (pop cs)"
proof -
  assume "normal_form cs"
  then obtain ns where ns: "cs = RootDir # map Normal ns \<or> cs = map Normal ns" "list_all plain ns"
    by (auto simp: normal_form_def)
  have "list_all plain (butlast ns)" using ns(2) by (auto simp: list_all_iff dest: in_set_butlastD)
  moreover have "pop (RootDir # map Normal ns) = RootDir # map Normal (butlast ns)"
    by (cases ns rule: rev_cases) (auto simp: pop_def)
  moreover have "pop (map Normal ns) = map Normal (butlast ns)"
    by (cases ns rule: rev_cases) (auto simp: pop_def)
  ultimately show ?thesis using ns(1) by (auto simp: normal_form_def)
qed

lemma push_normal: "normal_form cs \<Longrightarrow> plain s \<Longrightarrow> normal_form (push cs (Normal s))"
proof -
  assume "normal_form cs" "plain s"
  then obtain ns where "cs = RootDir # map Normal ns \<or> cs = map Normal ns" "list_all plain (ns @ [s])"
    by (auto simp: normal_form_def)
  then show ?thesis by (auto simp: normal_form_def push_def intro!: exI[of _ "ns @ [s]"])
qed

lemma components_plain:
  assumes "utf8_valid p" and "Normal s \<in> set (components p)"
  shows "plain s"
proof -
  let ?pieces = "map component_of (filter (\<lambda>s. s \<noteq> []) (split_on 47 p))"
  have "set (components p) \<subseteq> insert RootDir (set ?pieces)"
    by (cases ?pieces) (auto simp: components_def Let_def)
  with assms(2) have "Normal s \<in> set ?pieces" by auto
  then have "s \<in> set (split_on 47 p)" "s \<noteq> []" "s \<noteq> [46]" "s \<noteq> [46, 46]"
    by (auto simp: component_of_def split: if_splits)
  then show ?thesis
    using split_on_valid[OF assms(1), of 47 s] split_on_no_sep[of 47 p] by (simp add: plain_def)
qed

lemma fold_normal:
  "normal_form out \<Longrightarrow> \<forall>s. Normal s \<in> set cs \<longrightarrow> plain s \<Longrightarrow> normal_form (fold normalize_step cs out)"
proof (induction cs arbitrary: out)
  case (Cons c cs)
  have "normal_form [RootDir]" by (auto simp: normal_form_def intro: exI[of _ "[]"])
  then have "normal_form (normalize_step c out)"
    using Cons.prems push_normal[OF Cons.prems(1)]
    by (cases c) (simp_all add: normalize_step_def pop_normal, simp add: push_def)
  then show ?case using Cons by simp
qed simp

lemma fold_rooted:
  "out \<noteq> [] \<Longrightarrow> hd out = RootDir \<Longrightarrow>
     fold normalize_step cs out \<noteq> [] \<and> hd (fold normalize_step cs out) = RootDir"
proof (induction cs arbitrary: out)
  case (Cons c cs)
  have "normalize_step c out \<noteq> [] \<and> hd (normalize_step c out) = RootDir"
    using Cons.prems
    by (cases out rule: rev_cases) (auto simp: normalize_step_def pop_def push_def hd_append split: component.splits)
  then show ?case using Cons.IH by simp
qed simp

text \<open>Rendering a normal form and reading its components back changes nothing.\<close>

lemma components_render:
  assumes "normal_form cs"
  shows "components (render cs) = cs"
proof -
  obtain ns where ns: "cs = RootDir # map Normal ns \<or> cs = map Normal ns" "list_all plain ns"
    using assms by (auto simp: normal_form_def)
  have "map os_str (map Normal ns) = ns" by (simp add: comp_def os_str_def)
  have pieces: "map component_of (filter (\<lambda>s. s \<noteq> []) ns) = map Normal ns"
    using ns(2) by (induction ns) (auto simp: component_of_def plain_def)
  have nocur: "filter (\<lambda>c. c \<noteq> CurDir) (map Normal ms) = map Normal ms" for ms
    by (induction ms) auto
  have join: "split_on 47 (join_slash ns) = ns" if "ns \<noteq> []"
    using split_on_join[OF that] ns(2) by (simp add: list_all_iff plain_def)
  show ?thesis
    using ns(1)
  proof
    assume cs: "cs = RootDir # map Normal ns"
    show ?thesis
      using join pieces nocur by (cases "ns = []") (simp_all add: cs render_def components_def comp_def os_str_def)
  next
    assume cs: "cs = map Normal ns"
    show ?thesis
    proof (cases ns)
      case Nil
      then show ?thesis by (simp add: cs render_def components_def)
    next
      case (Cons m ms)
      have "render cs = join_slash ns" by (simp add: cs Cons render_def comp_def os_str_def)
      moreover have "take 1 (join_slash ns) \<noteq> [47]"
        using ns(2) by (cases ms; cases m) (auto simp: Cons plain_def)
      ultimately show ?thesis using join pieces nocur by (simp add: components_def cs Cons)
    qed
  qed
qed

lemma fold_normal_id: "normal_form cs \<Longrightarrow> fold normalize_step cs [] = cs"
proof -
  assume "normal_form cs"
  then obtain ns where ns: "cs = RootDir # map Normal ns \<or> cs = map Normal ns" by (auto simp: normal_form_def)
  have "fold normalize_step (map Normal ns) out = out @ map Normal ns" for out
    by (induction ns arbitrary: out) (simp_all add: normalize_step_def push_def)
  with ns show ?thesis by (auto simp: normalize_step_def push_def)
qed

lemma normal_form_valid: "normal_form cs \<Longrightarrow> utf8_valid (render cs)"
proof -
  have join: "list_all plain ns \<Longrightarrow> utf8_valid (join_slash ns)" for ns
  proof (induction ns rule: join_slash.induct)
    case (3 s t ts)
    have "utf8_valid [47]" by (rule utf8_valid_ascii) simp
    with 3 utf8_valid_append[of s "[47] @ join_slash (t # ts)"] utf8_valid_append[of "[47]" "join_slash (t # ts)"]
    show ?case by (simp add: plain_def)
  qed (simp_all add: plain_def)
  assume "normal_form cs"
  then obtain ns where ns: "cs = RootDir # map Normal ns \<or> cs = map Normal ns" "list_all plain ns"
    by (auto simp: normal_form_def)
  have os: "map os_str (map Normal ns) = ns" by (simp add: comp_def os_str_def)
  have "utf8_valid [47]" by (rule utf8_valid_ascii) simp
  then have "utf8_valid (47 # join_slash ns)" using utf8_valid_append[of "[47]" "join_slash ns"] join ns(2) by simp
  with ns(1) join[OF ns(2)] os show ?thesis
    by (cases ns) (auto simp: render_def)
qed

lemma normalize_normal: "utf8_valid p \<Longrightarrow> normal_form (fold normalize_step (components p) [])"
proof (rule fold_normal)
  show "normal_form []" by (auto simp: normal_form_def)
qed (use components_plain in blast)

lemma normalize_idem: "utf8_valid p \<Longrightarrow> normalize (normalize p) = normalize p"
  by (simp add: normalize_def components_render normalize_normal fold_normal_id)

lemma normalize_absolute:
  assumes "take 1 p = [47]"
  shows "take 1 (normalize p) = [47]"
proof -
  obtain cs where cs: "components p = RootDir # cs" using assms by (simp add: components_def Let_def)
  have "fold normalize_step cs [RootDir] \<noteq> [] \<and> hd (fold normalize_step cs [RootDir]) = RootDir"
    by (rule fold_rooted) simp_all
  then obtain cs' where "fold normalize_step cs [RootDir] = RootDir # cs'"
    by (metis list.exhaust_sel)
  then show ?thesis by (simp add: normalize_def cs normalize_step_def push_def render_def)
qed

lemma uri_to_path_Ok:
  assumes "uri_to_path uri = Ok p"
  shows "utf8_valid p \<and> take 1 p = [47]"
proof -
  from assms obtain part bytes where part: "path_part uri = Ok part" "percent_decode part = Ok bytes"
    "from_utf8 bytes = Some p" by (auto simp: uri_to_path_def and_then_eq_Ok ok_or_eq_Ok)
  have find0: "find_byte 47 s = Some 0 \<Longrightarrow> take (Suc 0) s = [47]" for s by (cases s) (auto split: if_splits)
  have "take (Suc 0) part = [47]"
    using part(1) by (auto simp: path_part_def dest!: find0 split: option.splits if_splits nat.splits)
  then obtain q where q: "part = 47 # q" by (cases part) auto
  with part(2) have "take 1 bytes = [47]" by (auto simp: and_then_eq_Ok)
  then show ?thesis using part(3) by (auto simp: from_utf8_def split: if_splits)
qed

lemma authority_path_to_uri:
  assumes "utf8_valid p" and "take 1 p = [47]"
  shows "\<not> has_nonempty_authority (path_to_uri p)"
proof -
  obtain q where p: "p = 47 # q" using assms(2) by (cases p) auto
  have "encode_byte 47 = [47]" by (simp add: encode_byte_def is_unreserved_def)
  then show ?thesis
    using assms(1) by (simp add: has_nonempty_authority_def path_to_uri_def from_utf8_lossy_valid p)
qed

section \<open>Properties\<close>

text \<open>
  C16: \<open>path_to_uri\<close> and \<open>uri_to_path\<close> are inverse on absolute paths: every absolute UTF-8 path
  survives the trip through its URI, whatever bytes had to be percent-escaped.
\<close>
theorem uri_round_trip:
  assumes "utf8_valid p" and "take 1 p = [47]"
  shows "uri_to_path (path_to_uri p) = Ok p"
  using assms by (rule uri_to_path_to_uri)

theorem uri_round_trip_witness:
  "uri_to_path (path_to_uri (lit ''/ws/A B.scala'')) = Ok (lit ''/ws/A B.scala'')"
  by (rule uri_round_trip) (code_simp, code_simp)

text \<open>
  URI canonicalisation is idempotent on every input: a canonical URI is its own canonical form,
  so equal documents key one entry however often they are normalised.
\<close>
theorem normalize_uri_idempotent: "normalize_uri (normalize_uri uri) = normalize_uri uri"
proof (cases "has_nonempty_authority uri")
  case True
  then show ?thesis by (simp add: normalize_uri_def)
next
  case False
  show ?thesis
  proof (cases "uri_to_path uri")
    case (Ok p)
    have p: "utf8_valid p" "take 1 p = [47]" using uri_to_path_Ok[OF Ok] by simp_all
    let ?n = "normalize p"
    have n: "utf8_valid ?n" "take 1 ?n = [47]"
      using normal_form_valid normalize_normal p normalize_absolute by (auto simp: normalize_def)
    have "normalize_uri uri = path_to_uri ?n" using False Ok by (simp add: normalize_uri_def)
    then show ?thesis
      using uri_to_path_to_uri[OF n] authority_path_to_uri[OF n] normalize_idem[OF p(1)]
      by (simp add: normalize_uri_def)
  qed (use False in \<open>simp_all add: normalize_uri_def\<close>)
qed

end
