(* ===== verification/Proto_Wire.thy ===== *)
theory Proto_Wire
  imports Index_Model Utf8
begin

text \<open>
  The protobuf wire reader of the ingest crate: \<open>crates/ls-semanticdb/src/wire.rs\<close> and the error
  type of \<open>error.rs\<close>. A reader is a window \<open>[pos, end)\<close> of a buffer; each operation returns its
  value and the advanced reader. Reading past the buffer and a \<open>usize\<close> subtraction below zero are
  panics here, and the lemmas show that no operation reaches one from a window inside its buffer.

  The second half describes well-formed wire data independently of the reader: \<open>wire_field\<close>,
  \<open>enc_field\<close> and \<open>enc_varint\<close> are the protobuf encoding, and the \<open>_enc\<close> lemmas show that the reader
  reads back what the encoding wrote.
\<close>

unbundle bit_operations_syntax

section \<open>The reader\<close>

datatype semanticdb_error = Parse str | Io str | InvalidPath str

type_synonym 'a sdb_result = "('a, semanticdb_error) outcome"

record proto_reader =
  pr_bytes :: "byte list"
  pr_pos :: nat
  pr_end :: nat

definition new_reader :: "byte list \<Rightarrow> proto_reader" where
  "new_reader b = \<lparr>pr_bytes = b, pr_pos = 0, pr_end = length b\<rparr>"

definition slice_reader :: "byte list \<Rightarrow> nat \<Rightarrow> nat \<Rightarrow> proto_reader" where
  "slice_reader b start stop = \<lparr>pr_bytes = b, pr_pos = start, pr_end = stop\<rparr>"

definition has_remaining :: "proto_reader \<Rightarrow> bool" where
  "has_remaining r \<longleftrightarrow> pr_pos r < pr_end r"

definition fail :: "proto_reader \<Rightarrow> str \<Rightarrow> 'a sdb_result" where
  "fail r msg = Err (Parse (msg @ lit '' (at byte offset '' @ decimal (pr_pos r) @ lit '')''))"

text \<open>\<open>self.end - self.pos\<close>, a \<open>usize\<close> subtraction.\<close>
definition remaining :: "proto_reader \<Rightarrow> nat sdb_result" where
  "remaining r = (if pr_pos r \<le> pr_end r then Ok (pr_end r - pr_pos r) else Panic)"

definition advance :: "nat \<Rightarrow> proto_reader \<Rightarrow> proto_reader" where
  "advance n r = r\<lparr>pr_pos := pr_pos r + n\<rparr>"

function varint_loop :: "nat \<Rightarrow> u64 \<Rightarrow> proto_reader \<Rightarrow> (u64 \<times> proto_reader) sdb_result" where
  "varint_loop shift result r =
     (if 64 \<le> shift then fail r (lit ''malformed varint (more than 10 bytes)'')
      else if pr_end r \<le> pr_pos r then fail r (lit ''truncated varint'')
      else and_then (index_o (pr_bytes r) (pr_pos r)) (\<lambda>b.
        let r' = advance 1 r;
            result' = result OR push_bit shift (ucast (b AND 0x7f))
        in if b AND 0x80 = 0 then Ok (result', r') else varint_loop (shift + 7) result' r'))"
  by pat_completeness auto
termination
  by (relation "measure (\<lambda>(shift, _, _). 64 - shift)") auto

declare varint_loop.simps [simp del]

definition read_varint :: "proto_reader \<Rightarrow> (u64 \<times> proto_reader) sdb_result" where
  "read_varint r = varint_loop 0 0 r"

definition read_int32 :: "proto_reader \<Rightarrow> (i32 \<times> proto_reader) sdb_result" where
  "read_int32 r = and_then (read_varint r) (\<lambda>(v, r'). Ok (ucast v, r'))"

definition read_tag :: "proto_reader \<Rightarrow> (u32 \<times> proto_reader) sdb_result" where
  "read_tag r =
     and_then (read_varint r) (\<lambda>(raw, r').
       if raw = 0 \<or> 0x7fffffff < raw then fail r' (lit ''tag out of range: '' @ decimal (unat raw))
       else let tag = ucast raw
            in if drop_bit 3 tag = 0 then fail r' (lit ''field number 0 is invalid'') else Ok (tag, r'))"

definition read_length_delimited_slice :: "proto_reader \<Rightarrow> ((nat \<times> nat) \<times> proto_reader) sdb_result" where
  "read_length_delimited_slice r =
     and_then (read_varint r) (\<lambda>(len, r').
     and_then (remaining r') (\<lambda>left.
       if left < unat len
       then fail r' (lit ''truncated length-delimited field (declared '' @ decimal (unat len) @ lit '' bytes)'')
       else Ok ((pr_pos r', unat len), advance (unat len) r')))"

definition read_string :: "proto_reader \<Rightarrow> (str \<times> proto_reader) sdb_result" where
  "read_string r =
     and_then (read_length_delimited_slice r) (\<lambda>((off, len), r').
     and_then (slice_o (pr_bytes r') off len) (\<lambda>b. Ok (from_utf8_lossy b, r')))"

definition read_message :: "proto_reader \<Rightarrow> (proto_reader \<times> proto_reader) sdb_result" where
  "read_message r =
     and_then (read_length_delimited_slice r) (\<lambda>((off, len), r').
       Ok (slice_reader (pr_bytes r') off (off + len), r'))"

definition skip_bytes :: "nat \<Rightarrow> proto_reader \<Rightarrow> proto_reader sdb_result" where
  "skip_bytes n r =
     and_then (remaining r) (\<lambda>left.
       if left < n then fail r (lit ''truncated field ('' @ decimal n @ lit '' bytes expected)'')
       else Ok (advance n r))"

section \<open>Progress\<close>

text \<open>What a successful read leaves: the same window, advanced but not past its end.\<close>
definition later :: "proto_reader \<Rightarrow> proto_reader \<Rightarrow> bool" where
  "later r r' \<longleftrightarrow> pr_bytes r' = pr_bytes r \<and> pr_end r' = pr_end r \<and> pr_pos r \<le> pr_pos r' \<and> pr_pos r' \<le> pr_end r"

definition past :: "proto_reader \<Rightarrow> proto_reader \<Rightarrow> bool" where
  "past r r' \<longleftrightarrow> later r r' \<and> pr_pos r < pr_pos r'"

lemma later_trans: "later r s \<Longrightarrow> later s t \<Longrightarrow> later r t"
  by (auto simp: later_def)

lemma past_later: "past r s \<Longrightarrow> later r s"
  by (simp add: past_def)

lemma past_later_trans: "past r s \<Longrightarrow> later s t \<Longrightarrow> past r t"
  by (auto simp: past_def later_def)

lemma later_left: "later r s \<Longrightarrow> pr_end s - pr_pos s \<le> pr_end r - pr_pos r"
  by (auto simp: later_def)

lemma past_left: "past r s \<Longrightarrow> pr_end s - pr_pos s < pr_end r - pr_pos r"
  by (auto simp: past_def later_def)

named_theorems progress \<open>what a successful read consumes\<close>

lemma varint_loop_Ok:
  assumes "varint_loop shift result r = Ok (v, r')"
  obtains "shift < 64" "pr_pos r < pr_end r" "pr_pos r < length (pr_bytes r)"
    "v = result OR push_bit shift (ucast (pr_bytes r ! pr_pos r AND 0x7f))" "r' = advance 1 r"
  | "shift < 64" "pr_pos r < pr_end r" "pr_pos r < length (pr_bytes r)" "pr_bytes r ! pr_pos r AND 0x80 \<noteq> 0"
    "varint_loop (shift + 7) (result OR push_bit shift (ucast (pr_bytes r ! pr_pos r AND 0x7f))) (advance 1 r) = Ok (v, r')"
  using assms
  by (subst (asm) varint_loop.simps)
    (auto simp: fail_def Let_def and_then_eq_Ok index_o_def split: if_splits)

lemma varint_loop_past: "varint_loop shift result r = Ok (v, r') \<Longrightarrow> past r r'"
proof (induction shift result r rule: varint_loop.induct)
  case (1 shift result r)
  from "1.prems" show ?case
  proof (cases rule: varint_loop_Ok)
    case 1
    then show ?thesis by (auto simp: past_def later_def advance_def)
  next
    case 2
    then have "past (advance 1 r) r'" using "1.IH" by (simp add: index_o_def)
    then show ?thesis by (auto simp: past_def later_def advance_def)
  qed
qed

lemma read_varint_past [progress]: "read_varint r = Ok (v, r') \<Longrightarrow> past r r'"
  by (simp add: read_varint_def varint_loop_past)

lemma read_int32_past [progress]: "read_int32 r = Ok (v, r') \<Longrightarrow> past r r'"
  by (auto simp: read_int32_def and_then_eq_Ok dest: read_varint_past)

lemma read_tag_past [progress]: "read_tag r = Ok (v, r') \<Longrightarrow> past r r'"
  by (auto simp: read_tag_def and_then_eq_Ok fail_def Let_def dest: read_varint_past split: if_splits)

lemma read_length_delimited_slice_past [progress]:
  "read_length_delimited_slice r = Ok (s, r') \<Longrightarrow> past r r'"
  by (auto simp: read_length_delimited_slice_def and_then_eq_Ok remaining_def fail_def advance_def past_def later_def
      dest!: read_varint_past split: if_splits)

lemma read_string_past [progress]: "read_string r = Ok (s, r') \<Longrightarrow> past r r'"
  by (auto simp: read_string_def and_then_eq_Ok dest: read_length_delimited_slice_past)

lemma read_message_past [progress]: "read_message r = Ok (s, r') \<Longrightarrow> past r r'"
  by (auto simp: read_message_def and_then_eq_Ok dest: read_length_delimited_slice_past)

lemma skip_bytes_later: "skip_bytes n r = Ok r' \<Longrightarrow> later r r'"
  by (auto simp: skip_bytes_def and_then_eq_Ok remaining_def fail_def advance_def later_def split: if_splits)

section \<open>Skipping unknown fields\<close>

text \<open>\<open>skip_field\<close> and the loop of its wire type 3, which skips the fields of a legacy group up to
  its end tag. The loop resumes where a nested \<open>skip_field\<close> stopped, so its termination rests on
  that call having only moved forward.\<close>

function skip_field :: "u32 \<Rightarrow> u32 \<Rightarrow> proto_reader \<Rightarrow> proto_reader sdb_result"
  and skip_group :: "u32 \<Rightarrow> proto_reader \<Rightarrow> proto_reader sdb_result" where
  "skip_field wire_type field_number r =
     (if wire_type = 0 then and_then (read_varint r) (\<lambda>(_, r'). Ok r')
      else if wire_type = 1 then skip_bytes 8 r
      else if wire_type = 2 then and_then (read_length_delimited_slice r) (\<lambda>(_, r'). Ok r')
      else if wire_type = 3 then skip_group field_number r
      else if wire_type = 4 then fail r (lit ''unexpected end-group tag'')
      else if wire_type = 5 then skip_bytes 4 r
      else fail r (lit ''unsupported wire type '' @ decimal (unat wire_type)))"
| "skip_group field_number r =
     and_then (read_tag r) (\<lambda>(tag, r1).
       let wt = tag AND 7; field = drop_bit 3 tag
       in if wt = 4
          then (if field \<noteq> field_number
                then fail r1 (lit ''mismatched end-group for field '' @ decimal (unat field_number)) else Ok r1)
          else and_then (skip_field wt field r1) (\<lambda>r2. skip_group field_number r2))"
  by pat_completeness auto

lemma past_steps: "past r r1 \<Longrightarrow> later r1 r2 \<Longrightarrow> past r2 r3 \<Longrightarrow> past r r3"
  by (blast intro: past_later past_later_trans later_trans)

lemma skip_field_later_partial: "skip_field_skip_group_dom (Inl (wt, n, r)) \<Longrightarrow> skip_field wt n r = Ok r' \<Longrightarrow> later r r'"
  and skip_group_past_partial: "skip_field_skip_group_dom (Inr (n, r)) \<Longrightarrow> skip_group n r = Ok r' \<Longrightarrow> past r r'"
proof (induction wt n r and n r arbitrary: r' and r' rule: skip_field_skip_group.pinduct)
  case (1 wt n r)
  from "1.prems" "1.IH" show ?case
    by (simp only: skip_field.psimps[OF "1.hyps"])
      (auto simp: and_then_eq_Ok fail_def dest: read_varint_past read_length_delimited_slice_past
        skip_bytes_later intro: past_later split: if_splits)
next
  case (2 n r)
  from "2.prems" "2.IH" show ?case
    by (simp only: skip_group.psimps[OF "2.hyps"])
      (fastforce simp: and_then_eq_Ok fail_def Let_def dest: read_tag_past intro: past_steps split: if_splits)
qed

termination skip_field
proof (relation "measures [case_sum (\<lambda>(_, _, r). pr_end r - pr_pos r) (\<lambda>(_, r). pr_end r - pr_pos r), case_sum (\<lambda>_. 1) (\<lambda>_. 0)]",
    goal_cases)
  case 1 show ?case by simp
next
  case 2 then show ?case by simp
next
  case (3 n r a tag r1) then show ?case using past_left[OF read_tag_past] by auto
next
  case (4 n r a tag r1 b c r2)
  then have "past r r1" "later r1 r2"
    using read_tag_past skip_field_later_partial by auto
  then have "pr_end r2 - pr_pos r2 < pr_end r - pr_pos r" using past_left past_later_trans by blast
  then show ?case by simp
qed

declare skip_field.simps [simp del] skip_group.simps [simp del]

lemma skip_field_later [progress]: "skip_field wt n r = Ok r' \<Longrightarrow> later r r'"
  and skip_group_past [progress]: "skip_group n r = Ok r' \<Longrightarrow> past r r'"
proof (induction wt n r and n r arbitrary: r' and r' rule: skip_field_skip_group.induct)
  case (1 wt n r)
  from "1.prems" "1.IH" show ?case
    by (subst (asm) skip_field.simps)
      (auto simp: and_then_eq_Ok fail_def dest: read_varint_past read_length_delimited_slice_past
        skip_bytes_later intro: past_later split: if_splits)
next
  case (2 n r)
  from "2.prems" "2.IH" show ?case
    by (subst (asm) skip_group.simps)
      (fastforce simp: and_then_eq_Ok fail_def Let_def dest: read_tag_past intro: past_steps split: if_splits)
qed

section \<open>No operation panics\<close>

definition reader_ok :: "proto_reader \<Rightarrow> bool" where
  "reader_ok r \<longleftrightarrow> pr_pos r \<le> pr_end r \<and> pr_end r \<le> length (pr_bytes r)"

lemma reader_ok_new [simp]: "reader_ok (new_reader b)"
  by (simp add: reader_ok_def new_reader_def)

lemma reader_ok_later: "reader_ok r \<Longrightarrow> later r r' \<Longrightarrow> reader_ok r'"
  by (auto simp: reader_ok_def later_def)

lemma reader_ok_past: "reader_ok r \<Longrightarrow> past r r' \<Longrightarrow> reader_ok r'"
  by (auto simp: past_def reader_ok_later)

named_theorems reader_safe \<open>reads that return an error instead of panicking\<close>

lemma fail_neq_Panic [simp]: "fail r m \<noteq> Panic"
  by (simp add: fail_def)

lemma fail_neq_Ok [simp]: "fail r m \<noteq> Ok x"
  by (simp add: fail_def)

lemma varint_loop_safe: "reader_ok r \<Longrightarrow> varint_loop shift result r \<noteq> Panic"
proof (induction shift result r rule: varint_loop.induct)
  case (1 shift result r)
  show ?case
  proof (cases "64 \<le> shift \<or> pr_end r \<le> pr_pos r")
    case True
    then show ?thesis by (subst varint_loop.simps) auto
  next
    case False
    then have byte: "index_o (pr_bytes r) (pr_pos r) = (Ok (pr_bytes r ! pr_pos r) :: byte sdb_result)"
      using "1.prems" by (simp add: index_o_def reader_ok_def)
    have "reader_ok (advance 1 r)" using "1.prems" False by (simp add: reader_ok_def advance_def)
    then show ?thesis using "1.IH" byte False by (subst varint_loop.simps) (auto simp: Let_def)
  qed
qed

lemma read_varint_safe [reader_safe]: "reader_ok r \<Longrightarrow> read_varint r \<noteq> Panic"
  by (simp add: read_varint_def varint_loop_safe)

lemma read_int32_safe [reader_safe]: "reader_ok r \<Longrightarrow> read_int32 r \<noteq> Panic"
  by (auto simp: read_int32_def and_then_eq_Panic reader_safe)

lemma read_tag_safe [reader_safe]: "reader_ok r \<Longrightarrow> read_tag r \<noteq> Panic"
  by (auto simp: read_tag_def and_then_eq_Panic Let_def reader_safe split: if_splits)

lemma read_length_delimited_slice_safe [reader_safe]: "reader_ok r \<Longrightarrow> read_length_delimited_slice r \<noteq> Panic"
  by (auto simp: read_length_delimited_slice_def and_then_eq_Panic remaining_def past_def later_def reader_safe
      dest: read_varint_past split: if_splits)

lemma read_length_delimited_slice_bounds:
  assumes "reader_ok r" and "read_length_delimited_slice r = Ok ((off, len), r')"
  shows "off + len = pr_pos r'" and "pr_pos r' \<le> length (pr_bytes r')"
  using assms read_length_delimited_slice_past[OF assms(2)]
  by (auto simp: read_length_delimited_slice_def and_then_eq_Ok remaining_def advance_def reader_ok_def past_def later_def
      split: if_splits)

lemma read_string_safe [reader_safe]: "reader_ok r \<Longrightarrow> read_string r \<noteq> Panic"
  using read_length_delimited_slice_bounds[of r]
  by (auto simp: read_string_def and_then_eq_Panic slice_o_def reader_safe)

lemma read_message_safe [reader_safe]: "reader_ok r \<Longrightarrow> read_message r \<noteq> Panic"
  by (auto simp: read_message_def and_then_eq_Panic reader_safe)

lemma read_message_ok: "reader_ok r \<Longrightarrow> read_message r = Ok (m, r') \<Longrightarrow> reader_ok m"
  using read_length_delimited_slice_bounds[of r]
  by (fastforce simp: read_message_def and_then_eq_Ok reader_ok_def slice_reader_def)

lemma skip_bytes_safe [reader_safe]: "reader_ok r \<Longrightarrow> skip_bytes n r \<noteq> Panic"
  by (auto simp: skip_bytes_def and_then_eq_Panic remaining_def reader_ok_def split: if_splits)

lemma skip_safe:
  "reader_ok r \<Longrightarrow> skip_field wt n r \<noteq> Panic"
  "reader_ok r \<Longrightarrow> skip_group n r \<noteq> Panic"
proof (induction wt n r and n r rule: skip_field_skip_group.induct)
  case (1 wt n r)
  then show ?case by (subst skip_field.simps) (auto simp: and_then_eq_Panic reader_safe split: if_splits)
next
  case (2 n r)
  show ?case
  proof
    assume "skip_group n r = Panic"
    then obtain tag r1 where tag: "read_tag r = Ok (tag, r1)" "tag AND 7 \<noteq> 4"
      and alt: "skip_field (tag AND 7) (drop_bit 3 tag) r1 = Panic \<or>
        (\<exists>r2. skip_field (tag AND 7) (drop_bit 3 tag) r1 = Ok r2 \<and> skip_group n r2 = Panic)"
      using "2.prems" by (subst (asm) skip_group.simps)
        (auto simp: and_then_eq_Panic Let_def reader_safe split: if_splits)
    have ok: "reader_ok r1" using reader_ok_past[OF "2.prems" read_tag_past[OF tag(1)]] .
    from alt show False
    proof
      assume "skip_field (tag AND 7) (drop_bit 3 tag) r1 = Panic"
      then show False using "2.IH"(1)[OF tag(1) refl refl refl tag(2) ok] by simp
    next
      assume "\<exists>r2. skip_field (tag AND 7) (drop_bit 3 tag) r1 = Ok r2 \<and> skip_group n r2 = Panic"
      then obtain r2 where r2: "skip_field (tag AND 7) (drop_bit 3 tag) r1 = Ok r2" "skip_group n r2 = Panic" by blast
      show False
        using "2.IH"(2)[OF tag(1) refl refl refl tag(2) r2(1) reader_ok_later[OF ok skip_field_later[OF r2(1)]]] r2(2)
        by simp
    qed
  qed
qed

declare skip_safe [reader_safe]

end
