(* ===== verification/Proto_Encoding.thy ===== *)
theory Proto_Encoding
  imports Proto_Wire
begin

text \<open>
  Well-formed protobuf wire data, as the encoding documents it and independently of the reader:
  varints with seven bits per byte, tags \<open>field << 3 | wire type\<close>, length-delimited payloads,
  fixed-width payloads and legacy groups closed by their end tag. The lemmas show that the reader of
  \<open>wire.rs\<close> reads back exactly what such an encoding wrote, and that \<open>skip_field\<close> skips exactly one
  encoded field, nested groups included.
\<close>

section \<open>The encoding\<close>

lemma drop_bit_7_less: "\<not> v < 128 \<Longrightarrow> unat (drop_bit 7 v) < unat v" for v :: u64
proof -
  assume "\<not> v < 128"
  then have "0 < unat v" by (simp add: word_less_nat_alt)
  then show ?thesis unfolding unat_drop_bit_eq by (simp add: drop_bit_eq_div)
qed

function enc_varint :: "u64 \<Rightarrow> byte list" where
  "enc_varint v = (if v < 128 then [ucast v] else (ucast (v AND 127) OR 128) # enc_varint (drop_bit 7 v))"
  by pat_completeness auto
termination
  by (relation "measure unat") (auto simp: drop_bit_7_less)

declare enc_varint.simps [simp del]

definition enc_tag :: "u32 \<Rightarrow> u64 \<Rightarrow> byte list" where
  "enc_tag n wt = enc_varint (push_bit 3 (ucast n) OR wt)"

datatype wire_field =
    FVarint u32 u64
  | FFixed64 u32 "byte list"
  | FLen u32 "byte list"
  | FGroup u32 "wire_field list"
  | FFixed32 u32 "byte list"

primrec field_num :: "wire_field \<Rightarrow> u32" where
  "field_num (FVarint n _) = n"
| "field_num (FFixed64 n _) = n"
| "field_num (FLen n _) = n"
| "field_num (FGroup n _) = n"
| "field_num (FFixed32 n _) = n"

primrec wire_type :: "wire_field \<Rightarrow> u32" where
  "wire_type (FVarint _ _) = 0"
| "wire_type (FFixed64 _ _) = 1"
| "wire_type (FLen _ _) = 2"
| "wire_type (FGroup _ _) = 3"
| "wire_type (FFixed32 _ _) = 5"

definition enc_len :: "byte list \<Rightarrow> byte list" where
  "enc_len b = enc_varint (word_of_nat (length b)) @ b"

fun enc_payload :: "wire_field \<Rightarrow> byte list" and enc_fields :: "wire_field list \<Rightarrow> byte list" where
  "enc_payload (FVarint n v) = enc_varint v"
| "enc_payload (FFixed64 n b) = b"
| "enc_payload (FLen n b) = enc_len b"
| "enc_payload (FGroup n fs) = enc_fields fs @ enc_tag n 4"
| "enc_payload (FFixed32 n b) = b"
| "enc_fields [] = []"
| "enc_fields (f # fs) = enc_tag (field_num f) (ucast (wire_type f)) @ enc_payload f @ enc_fields fs"

definition field_num_ok :: "u32 \<Rightarrow> bool" where
  "field_num_ok n \<longleftrightarrow> 0 < n \<and> n < 0x10000000"

fun field_ok :: "wire_field \<Rightarrow> bool" and fields_ok :: "wire_field list \<Rightarrow> bool" where
  "field_ok (FVarint n v) \<longleftrightarrow> field_num_ok n"
| "field_ok (FFixed64 n b) \<longleftrightarrow> field_num_ok n \<and> length b = 8"
| "field_ok (FLen n b) \<longleftrightarrow> field_num_ok n \<and> length b < 2 ^ 64"
| "field_ok (FGroup n fs) \<longleftrightarrow> field_num_ok n \<and> fields_ok fs"
| "field_ok (FFixed32 n b) \<longleftrightarrow> field_num_ok n \<and> length b = 4"
| "fields_ok [] \<longleftrightarrow> True"
| "fields_ok (f # fs) \<longleftrightarrow> field_ok f \<and> fields_ok fs"

lemma fields_ok_all: "fields_ok fs \<longleftrightarrow> list_all field_ok fs"
  by (induction fs) auto

lemma enc_fields_append: "enc_fields (fs @ gs) = enc_fields fs @ enc_fields gs"
  by (induction fs) auto

section \<open>Windows\<close>

definition window :: "proto_reader \<Rightarrow> byte list" where
  "window r = take (pr_end r - pr_pos r) (drop (pr_pos r) (pr_bytes r))"

lemma length_window: "reader_ok r \<Longrightarrow> length (window r) = pr_end r - pr_pos r"
  by (auto simp: window_def reader_ok_def)

lemma window_new [simp]: "window (new_reader b) = b"
  by (simp add: window_def new_reader_def)

lemma has_remaining_window: "reader_ok r \<Longrightarrow> has_remaining r \<longleftrightarrow> window r \<noteq> []"
  using length_window[of r] by (fastforce simp: has_remaining_def simp flip: length_greater_0_conv)

lemma advance_ok: "reader_ok r \<Longrightarrow> n \<le> length (window r) \<Longrightarrow> reader_ok (advance n r)"
  using length_window[of r] by (auto simp: reader_ok_def advance_def)

lemma window_advance: "reader_ok r \<Longrightarrow> window (advance n r) = drop n (window r)"
  by (simp add: window_def advance_def drop_take add.commute)

lemma advance_advance [simp]: "advance m (advance n r) = advance (n + m) r"
  by (simp add: advance_def add.assoc)

lemma advance_0 [simp]: "advance 0 r = r"
  by (simp add: advance_def)

text \<open>Consuming a prefix of the window.\<close>
lemma consume:
  assumes "reader_ok r" and "window r = xs @ ys"
  shows "reader_ok (advance (length xs) r)" and "window (advance (length xs) r) = ys"
  using assms by (auto intro: advance_ok simp: window_advance)

section \<open>Reading back varints and tags\<close>

lemma bit_128: "bit (128 :: byte) n \<longleftrightarrow> n = 7" "bit (128 :: int) n \<longleftrightarrow> n = 7"
  using bit_exp_iff[of 7 n, where 'a = "8 word"] bit_exp_iff[of 7 n, where 'a = int] by auto

lemma mask_7: "(127 :: byte) = mask 7" "(127 :: u64) = mask 7"
  by (simp_all add: mask_eq_exp_minus_1)

lemma varint_digit:
  fixes v :: u64
  shows "ucast ((ucast (v AND 127) OR (128 :: byte)) AND 127) = v AND 127"
    and "((ucast (v AND 127) OR (128 :: byte)) AND 128) \<noteq> 0"
proof -
  show "ucast ((ucast (v AND 127) OR (128 :: byte)) AND 127) = v AND 127"
    unfolding mask_7 by (rule bit_eqI) (auto simp: bit_simps bit_128)
  have "bit ((ucast (v AND 127) OR (128 :: byte)) AND 128) 7" by (simp add: bit_simps bit_128)
  then show "((ucast (v AND 127) OR (128 :: byte)) AND 128) \<noteq> 0" by fastforce
qed

lemma varint_last:
  fixes v :: u64
  assumes "v < 128"
  shows "ucast ((ucast v :: byte) AND 127) = v" and "(ucast v :: byte) AND 128 = 0"
proof -
  have "unat (take_bit 7 v) = unat v"
    using assms by (simp add: unsigned_take_bit_eq take_bit_nat_eq_self word_less_nat_alt)
  then have "take_bit 7 v = v" by (simp only: word_unat_eq_iff)
  then have hi: "bit v n \<Longrightarrow> n < 7" for n by (metis bit_take_bit_iff)
  show "ucast ((ucast v :: byte) AND 127) = v"
    unfolding mask_7 by (rule bit_eqI) (auto simp: bit_simps dest: hi)
  show "(ucast v :: byte) AND 128 = 0"
    by (rule bit_eqI) (auto simp: bit_simps bit_128 dest: hi)
qed

lemma varint_rest: "push_bit s (v AND 127) OR push_bit (s + 7) (drop_bit 7 v) = push_bit s v" for v :: u64
proof (rule bit_eqI)
  fix n
  assume "possible_bit TYPE(64 word) n"
  have "s + 7 \<le> n \<Longrightarrow> 7 + (n - (s + 7)) = n - s" by simp
  then show "bit (push_bit s (v AND 127) OR push_bit (s + 7) (drop_bit 7 v)) n = bit (push_bit s v) n"
    unfolding mask_7 by (cases "n < s + 7") (auto simp: bit_simps)
qed

lemma drop_7_bound: "unat v < 2 ^ (64 - s) \<Longrightarrow> \<not> v < 128 \<Longrightarrow> s < 64 \<Longrightarrow> s + 7 < 64 \<and> unat (drop_bit 7 v) < 2 ^ (64 - (s + 7))" for v :: u64
proof -
  assume v: "unat v < 2 ^ (64 - s)" and big: "\<not> v < 128" and "s < 64"
  have "2 ^ 7 \<le> unat v" using big by (simp add: word_less_nat_alt)
  with v have "(2::nat) ^ 7 < 2 ^ (64 - s)" by linarith
  then have s: "7 < 64 - s" by (simp only: power_strict_increasing_iff)
  have "64 - s = (64 - (s + 7)) + 7" using s by simp
  then have "(2::nat) ^ (64 - s) = 2 ^ (64 - (s + 7)) * 2 ^ 7" by (metis power_add)
  then have "unat v < 2 ^ (64 - (s + 7)) * 2 ^ 7" using v by (simp only:)
  then have "unat v div 2 ^ 7 < 2 ^ (64 - (s + 7))" by (rule less_mult_imp_div_less)
  then have "unat (drop_bit 7 v) < 2 ^ (64 - (s + 7))" unfolding unat_drop_bit_eq by (simp only: drop_bit_eq_div)
  with s show ?thesis by simp
qed

lemma head_byte:
  assumes "reader_ok r" and "window r = b # ys"
  shows "pr_pos r < pr_end r" and "index_o (pr_bytes r) (pr_pos r) = (Ok b :: byte sdb_result)"
proof -
  have "length (window r) = pr_end r - pr_pos r" using assms(1) by (rule length_window)
  then show lt: "pr_pos r < pr_end r" using assms(2) by simp
  then have "pr_pos r < length (pr_bytes r)" using assms(1) by (simp add: reader_ok_def)
  moreover from this have "window r ! 0 = pr_bytes r ! pr_pos r" using lt by (simp add: window_def)
  ultimately show "index_o (pr_bytes r) (pr_pos r) = (Ok b :: byte sdb_result)"
    using assms(2) by (simp add: index_o_def)
qed

lemma varint_loop_enc:
  assumes "reader_ok r" and "window r = enc_varint v @ ys" and "s < 64" and "unat v < 2 ^ (64 - s)"
  shows "varint_loop s acc r = Ok (acc OR push_bit s v, advance (length (enc_varint v)) r)"
  using assms
proof (induction v arbitrary: s acc r rule: enc_varint.induct)
  case (1 v)
  show ?case
  proof (cases "v < 128")
    case True
    then have enc: "enc_varint v = [ucast v]" by (simp add: enc_varint.simps)
    then show ?thesis
      using head_byte[OF "1.prems"(1), of "ucast v" ys] "1.prems"(2,3) varint_last[OF True]
      by (subst varint_loop.simps) simp
  next
    case False
    let ?b = "ucast (v AND 127) OR 128 :: byte"
    have enc: "enc_varint v = ?b # enc_varint (drop_bit 7 v)" using False by (simp add: enc_varint.simps[of v])
    have w: "window r = ?b # enc_varint (drop_bit 7 v) @ ys" using enc "1.prems"(2) by simp
    have next_r: "reader_ok (advance 1 r)" "window (advance 1 r) = enc_varint (drop_bit 7 v) @ ys"
      using consume[OF "1.prems"(1), of "[?b]"] w by simp_all
    have s: "s + 7 < 64" "unat (drop_bit 7 v) < 2 ^ (64 - (s + 7))"
      using drop_7_bound "1.prems"(3,4) False by blast+
    have "varint_loop s acc r = varint_loop (s + 7) (acc OR push_bit s (v AND 127)) (advance 1 r)"
      using head_byte[OF "1.prems"(1) w] "1.prems"(3) varint_digit[of v]
      by (subst varint_loop.simps) simp
    also have "\<dots> = Ok ((acc OR push_bit s (v AND 127)) OR push_bit (s + 7) (drop_bit 7 v),
        advance (length (enc_varint (drop_bit 7 v))) (advance 1 r))"
      by (rule "1.IH"[OF False next_r s])
    finally show ?thesis using enc by (simp only: or.assoc varint_rest) simp
  qed
qed

lemma read_varint_enc:
  "reader_ok r \<Longrightarrow> window r = enc_varint v @ ys \<Longrightarrow> read_varint r = Ok (v, advance (length (enc_varint v)) r)"
  using varint_loop_enc[of r v ys 0 0] unsigned_less[of v] by (simp add: read_varint_def)

lemma small_bits: "unat v < 2 ^ k \<Longrightarrow> bit v m \<Longrightarrow> m < k" for v :: "'a::len word"
proof -
  assume "unat v < 2 ^ k" and b: "bit v m"
  then have "unat (take_bit k v) = unat v" by (simp add: unsigned_take_bit_eq take_bit_nat_eq_self)
  then have "take_bit k v = v" by (simp only: word_unat_eq_iff)
  with b show ?thesis by (metis bit_take_bit_iff)
qed

lemma bits_small: "(\<And>m. bit v m \<Longrightarrow> m < k) \<Longrightarrow> unat v < 2 ^ k" for v :: "'a::len word"
proof -
  assume "\<And>m. bit v m \<Longrightarrow> m < k"
  then have "take_bit k v = v" by (intro bit_word_eqI) (auto simp: bit_simps)
  then have "unat v = take_bit k (unat v)" by (metis unsigned_take_bit_eq)
  then show ?thesis by (metis take_bit_nat_less_exp)
qed

lemma tag_parts:
  fixes n wt :: u32
  assumes "field_num_ok n" and "wt < 8"
  defines "raw \<equiv> push_bit 3 (ucast n) OR ucast wt :: u64"
  shows "drop_bit 3 (ucast raw :: u32) = n" and "(ucast raw :: u32) AND 7 = wt" and "raw \<noteq> 0" and "\<not> 0x7fffffff < raw"
proof -
  have n: "bit n m \<Longrightarrow> m < 28" for m
    using small_bits[of n 28] assms(1) by (simp add: field_num_ok_def word_less_nat_alt)
  have wt: "bit wt m \<Longrightarrow> m < 3" for m using small_bits[of wt 3] assms(2) by (simp add: word_less_nat_alt)
  have bits: "bit raw m \<longleftrightarrow> (if m < 3 then bit wt m else bit n (m - 3))" for m
    using wt[of m] n[of "m - 3"] by (auto simp: raw_def bit_simps)
  show num: "drop_bit 3 (ucast raw :: u32) = n"
    by (intro bit_word_eqI) (auto simp: bit_simps bits dest: n n[THEN less_SucI])
  have "(7 :: u32) = mask 3" by (simp add: mask_eq_exp_minus_1)
  then have "bit (7 :: u32) m \<longleftrightarrow> m < 3" for m by (simp only: bit_mask_iff) auto
  then show "(ucast raw :: u32) AND 7 = wt"
    by (intro bit_word_eqI) (auto simp: bit_simps bits dest: wt)
  show "raw \<noteq> 0" using num assms(1) by (auto simp: field_num_ok_def)
  have "unat raw < 2 ^ 31" by (rule bits_small) (auto simp: bits dest: wt n split: if_splits)
  then show "\<not> 0x7fffffff < raw" by (simp add: word_less_nat_alt)
qed

lemma read_tag_enc:
  assumes "reader_ok r" and "window r = enc_tag n (ucast wt) @ ys" and "field_num_ok n" and "wt < 8"
  obtains tag where "read_tag r = Ok (tag, advance (length (enc_tag n (ucast wt))) r)"
    and "drop_bit 3 tag = n" and "tag AND 7 = wt"
proof -
  let ?raw = "push_bit 3 (ucast n) OR ucast wt :: u64"
  have "read_varint r = Ok (?raw, advance (length (enc_tag n (ucast wt))) r)"
    using read_varint_enc[OF assms(1), of ?raw ys] assms(2) by (simp add: enc_tag_def)
  then have "read_tag r = Ok (ucast ?raw, advance (length (enc_tag n (ucast wt))) r)"
    using tag_parts[OF assms(3,4)] assms(3) by (auto simp: read_tag_def Let_def field_num_ok_def)
  then show thesis using that tag_parts(1,2)[OF assms(3,4)] by blast
qed

lemma read_length_delimited_slice_enc:
  assumes "reader_ok r" and "window r = enc_len b @ ys" and "length b < 2 ^ 64"
  shows "read_length_delimited_slice r =
     Ok ((pr_pos r + length (enc_len b) - length b, length b), advance (length (enc_len b)) r)"
proof -
  let ?l = "enc_varint (word_of_nat (length b))"
  have len: "unat (word_of_nat (length b) :: u64) = length b"
    using assms(3) by (simp add: unat_of_nat take_bit_nat_eq_self)
  have w: "window r = ?l @ b @ ys" using assms(2) by (simp add: enc_len_def)
  note c = consume[OF assms(1) w]
  have "length (window (advance (length ?l) r)) = pr_end (advance (length ?l) r) - pr_pos (advance (length ?l) r)"
    using c(1) by (rule length_window)
  then have left: "remaining (advance (length ?l) r) = Ok (length b + length ys)"
    using c by (simp add: remaining_def reader_ok_def)
  show ?thesis
    using read_varint_enc[OF assms(1) w] left len
    by (simp add: read_length_delimited_slice_def enc_len_def advance_def)
qed

lemma read_int32_enc:
  "reader_ok r \<Longrightarrow> window r = enc_varint v @ ys \<Longrightarrow> read_int32 r = Ok (ucast v, advance (length (enc_varint v)) r)"
  by (simp add: read_int32_def read_varint_enc)

lemma slice_of_window:
  assumes "reader_ok r" and "window r = xs @ b @ ys"
  shows "slice_o (pr_bytes r) (pr_pos r + length xs) (length b) = (Ok b :: byte list sdb_result)"
    and "pr_pos r + length xs + length b \<le> pr_end r"
proof -
  have len: "length xs + length b + length ys = pr_end r - pr_pos r"
    using length_window[OF assms(1)] assms(2) by simp
  then show bound: "pr_pos r + length xs + length b \<le> pr_end r"
    using assms(1) by (auto simp: reader_ok_def)
  have "take (length b) (drop (length xs) (window r)) = b" using assms(2) by simp
  then have "take (length b) (drop (pr_pos r + length xs) (pr_bytes r)) = b"
    using len bound by (simp add: window_def drop_take min_def add.commute split: if_splits)
  then show "slice_o (pr_bytes r) (pr_pos r + length xs) (length b) = (Ok b :: byte list sdb_result)"
    using assms(1) bound by (simp add: slice_o_def reader_ok_def)
qed

lemma read_string_enc:
  assumes "reader_ok r" and "window r = enc_len b @ ys" and "length b < 2 ^ 64"
  shows "read_string r = Ok (from_utf8_lossy b, advance (length (enc_len b)) r)"
  using read_length_delimited_slice_enc[OF assms]
    slice_of_window(1)[OF assms(1), of "enc_varint (word_of_nat (length b))" b ys] assms(2)
  by (simp add: read_string_def enc_len_def advance_def)

lemma read_message_enc:
  assumes "reader_ok r" and "window r = enc_len b @ ys" and "length b < 2 ^ 64"
  obtains m where "read_message r = Ok (m, advance (length (enc_len b)) r)" and "reader_ok m" and "window m = b"
proof -
  let ?l = "enc_varint (word_of_nat (length b))"
  let ?m = "slice_reader (pr_bytes r) (pr_pos r + length ?l) (pr_pos r + length ?l + length b)"
  have w: "window r = ?l @ b @ ys" using assms(2) by (simp add: enc_len_def)
  have "read_message r = Ok (?m, advance (length (enc_len b)) r)"
    using read_length_delimited_slice_enc[OF assms] by (simp add: read_message_def enc_len_def advance_def)
  moreover have "reader_ok ?m"
    using slice_of_window(2)[OF assms(1) w] assms(1) by (simp add: reader_ok_def slice_reader_def)
  moreover have "window ?m = b"
    using slice_of_window(1)[OF assms(1) w] by (auto simp: window_def slice_reader_def slice_o_def split: if_splits)
  ultimately show thesis using that by blast
qed

section \<open>Skipping an encoded field\<close>

lemma skip_bytes_enc:
  "reader_ok r \<Longrightarrow> window r = b @ ys \<Longrightarrow> length b = n \<Longrightarrow> skip_bytes n r = Ok (advance n r)"
  using length_window[of r] by (auto simp: skip_bytes_def remaining_def reader_ok_def)

lemma wire_type_small: "wire_type f < 8" "wire_type f \<noteq> 4"
  by (cases f; simp)+

lemma field_ok_num: "field_ok f \<Longrightarrow> field_num_ok (field_num f)"
  by (cases f) auto

lemma skip_enc:
  "field_ok f \<Longrightarrow> reader_ok r \<Longrightarrow> window r = enc_payload f @ ys \<Longrightarrow>
     skip_field (wire_type f) (field_num f) r = Ok (advance (length (enc_payload f)) r)"
  "fields_ok fs \<Longrightarrow> reader_ok r \<Longrightarrow> window r = enc_fields fs @ enc_tag n 4 @ ys \<Longrightarrow> field_num_ok n \<Longrightarrow>
     skip_group n r = Ok (advance (length (enc_fields fs @ enc_tag n 4)) r)"
proof (induction f and fs arbitrary: r ys and n r ys rule: enc_payload_enc_fields.induct)
  case (1 n v)
  then show ?case by (subst skip_field.simps) (simp add: read_varint_enc)
next
  case (2 n b)
  then show ?case by (subst skip_field.simps) (simp add: skip_bytes_enc)
next
  case (3 n b)
  then show ?case by (subst skip_field.simps) (simp add: read_length_delimited_slice_enc)
next
  case (4 n fs)
  then show ?case by (subst skip_field.simps) simp
next
  case (5 n b)
  then show ?case by (subst skip_field.simps) (simp add: skip_bytes_enc)
next
  case 6
  then obtain tag where "read_tag r = Ok (tag, advance (length (enc_tag n 4)) r)" "drop_bit 3 tag = n" "tag AND 7 = 4"
    using read_tag_enc[of r n 4 ys] by auto
  then show ?case by (subst skip_group.simps) (simp add: Let_def)
next
  case (7 f fs)
  let ?t = "enc_tag (field_num f) (ucast (wire_type f))"
  have w: "window r = ?t @ enc_payload f @ enc_fields fs @ enc_tag n 4 @ ys" using "7.prems"(3) by simp
  obtain tag where tag: "read_tag r = Ok (tag, advance (length ?t) r)" "drop_bit 3 tag = field_num f" "tag AND 7 = wire_type f"
    using read_tag_enc[OF "7.prems"(2) w field_ok_num wire_type_small(1)] "7.prems"(1) by auto
  note c1 = consume[OF "7.prems"(2) w]
  note c2 = consume[OF c1]
  have "skip_field (wire_type f) (field_num f) (advance (length ?t) r) =
      Ok (advance (length (enc_payload f)) (advance (length ?t) r))"
    using "7.IH"(1)[OF _ c1] "7.prems"(1) by simp
  moreover have "skip_group n (advance (length (enc_payload f)) (advance (length ?t) r)) =
      Ok (advance (length (enc_fields fs @ enc_tag n 4)) (advance (length (enc_payload f)) (advance (length ?t) r)))"
    using "7.IH"(2)[OF _ c2 "7.prems"(4)] "7.prems"(1) by simp
  ultimately show ?case
    using tag wire_type_small(2)[of f] by (subst skip_group.simps) (simp add: Let_def add.assoc)
qed

section \<open>Sizes\<close>

lemma length_enc_varint_bound: "unat v < 2 ^ (7 * Suc k) \<Longrightarrow> length (enc_varint v) \<le> Suc k"
proof (induction k arbitrary: v)
  case 0
  then have "v < 128" by (simp add: word_less_nat_alt)
  then show ?case by (simp add: enc_varint.simps)
next
  case (Suc k)
  have "unat v < 2 ^ (7 * Suc k) * 2 ^ 7" using Suc.prems by (simp add: power_add mult.commute)
  then have "unat v div 2 ^ 7 < 2 ^ (7 * Suc k)" by (rule less_mult_imp_div_less)
  then have "unat (drop_bit 7 v) < 2 ^ (7 * Suc k)" unfolding unat_drop_bit_eq by (simp only: drop_bit_eq_div)
  then have "length (enc_varint (drop_bit 7 v)) \<le> Suc k" by (rule Suc.IH)
  then show ?case by (subst enc_varint.simps) simp
qed

lemma length_enc_varint: "length (enc_varint v) \<le> 10"
  using length_enc_varint_bound[of v 9] unsigned_less[of v, where ?'a = nat] by simp

fun payload_bound :: "wire_field \<Rightarrow> nat" and fields_bound :: "wire_field list \<Rightarrow> nat" where
  "payload_bound (FVarint n v) = 10"
| "payload_bound (FFixed64 n b) = length b"
| "payload_bound (FLen n b) = 10 + length b"
| "payload_bound (FGroup n fs) = fields_bound fs + 10"
| "payload_bound (FFixed32 n b) = length b"
| "fields_bound [] = 0"
| "fields_bound (f # fs) = 10 + payload_bound f + fields_bound fs"

lemma length_enc_bound:
  "length (enc_payload f) \<le> payload_bound f" "length (enc_fields fs) \<le> fields_bound fs"
proof (induction f and fs rule: enc_payload_enc_fields.induct)
  case (7 f fs)
  then show ?case using length_enc_varint[of "push_bit 3 (ucast (field_num f)) OR ucast (wire_type f)"]
    by (simp add: enc_tag_def)
next
  case (4 n fs)
  then show ?case using length_enc_varint[of "push_bit 3 (ucast n) OR 4"] by (simp add: enc_tag_def)
qed (auto simp: enc_len_def length_enc_varint)

end
