(* ===== verification/Sdb_Parser.thy ===== *)
theory Sdb_Parser
  imports Proto_Encoding
begin

text \<open>
  The SemanticDB document decoder: \<open>crates/ls-semanticdb/src/parser.rs\<close> over the messages of
  \<open>model.rs\<close>. The five parse functions of the source share one shape, a loop that reads a tag and
  matches the pair of field number and wire type; \<open>fields_loop\<close> is that loop, and the arms of each
  \<open>match\<close> are a function from that pair to a \<open>field_action\<close>.
\<close>

unbundle bit_operations_syntax

section \<open>Messages\<close>

record sdb_range =
  sr_start_line :: i32
  sr_start_character :: i32
  sr_end_line :: i32
  sr_end_character :: i32

record sdb_symbol_info =
  si_symbol :: str
  si_kind_code :: i32
  si_properties :: i32
  si_display_name :: str
  si_overridden_symbols :: "str list"

record sdb_occurrence =
  so_range :: "sdb_range option"
  so_symbol :: str
  so_role_code :: i32

record sdb_document =
  sdoc_schema :: i32
  sdoc_uri :: str
  sdoc_text :: str
  sdoc_md5 :: str
  sdoc_language_code :: i32
  sdoc_symbols :: "sdb_symbol_info list"
  sdoc_occurrences :: "sdb_occurrence list"

type_synonym sdb_documents = "sdb_document list"

section \<open>The loop over the fields of a message\<close>

text \<open>An arm of the \<open>match\<close>: read an \<open>int32\<close> or a string and store it, read an embedded message and
  decode it, or skip the field.\<close>
datatype 's field_action =
    Int32Field "i32 \<Rightarrow> 's \<Rightarrow> 's"
  | StringField "str \<Rightarrow> 's \<Rightarrow> 's"
  | MessageField "proto_reader \<Rightarrow> 's \<Rightarrow> 's sdb_result"
  | SkipField

fun run_action :: "'s field_action \<Rightarrow> u32 \<Rightarrow> u32 \<Rightarrow> 's \<Rightarrow> proto_reader \<Rightarrow> ('s \<times> proto_reader) sdb_result" where
  "run_action (Int32Field f) wire field s r = and_then (read_int32 r) (\<lambda>(v, r'). Ok (f v s, r'))"
| "run_action (StringField f) wire field s r = and_then (read_string r) (\<lambda>(v, r'). Ok (f v s, r'))"
| "run_action (MessageField f) wire field s r =
     and_then (read_message r) (\<lambda>(m, r'). and_then (f m s) (\<lambda>s'. Ok (s', r')))"
| "run_action SkipField wire field s r = and_then (skip_field wire field r) (\<lambda>r'. Ok (s, r'))"

lemma run_action_later: "run_action a w f s r = Ok (s', r') \<Longrightarrow> later r r'"
  by (cases a) (auto simp: and_then_eq_Ok dest: progress past_later)

function fields_loop :: "(u32 \<Rightarrow> u32 \<Rightarrow> 's field_action) \<Rightarrow> 's \<Rightarrow> proto_reader \<Rightarrow> 's sdb_result" where
  "fields_loop arms s r =
     (if \<not> has_remaining r then Ok s
      else and_then (read_tag r) (\<lambda>(tag, r1).
        let field = drop_bit 3 tag; wire = tag AND 7
        in and_then (run_action (arms field wire) wire field s r1) (\<lambda>(s', r2). fields_loop arms s' r2)))"
  by pat_completeness auto
termination
proof (relation "measure (\<lambda>(_, _, r). pr_end r - pr_pos r)", goal_cases)
  case 1 show ?case by simp
next
  case (2 arms s r a tag r1 field wire b s' r2)
  then have "past r r1" "later r1 r2" by (auto dest: read_tag_past run_action_later)
  then show ?case using past_left past_later_trans by fastforce
qed

declare fields_loop.simps [simp del]

abbreviation (input) WIRE_VARINT :: u32 where "WIRE_VARINT \<equiv> 0"
abbreviation (input) WIRE_LEN :: u32 where "WIRE_LEN \<equiv> 2"

section \<open>The decoders\<close>

definition range_arms :: "u32 \<Rightarrow> u32 \<Rightarrow> sdb_range field_action" where
  "range_arms field wire =
     (if (field, wire) = (1, WIRE_VARINT) then Int32Field (\<lambda>v s. s\<lparr>sr_start_line := v\<rparr>)
      else if (field, wire) = (2, WIRE_VARINT) then Int32Field (\<lambda>v s. s\<lparr>sr_start_character := v\<rparr>)
      else if (field, wire) = (3, WIRE_VARINT) then Int32Field (\<lambda>v s. s\<lparr>sr_end_line := v\<rparr>)
      else if (field, wire) = (4, WIRE_VARINT) then Int32Field (\<lambda>v s. s\<lparr>sr_end_character := v\<rparr>)
      else SkipField)"

definition empty_range :: sdb_range where
  "empty_range = \<lparr>sr_start_line = 0, sr_start_character = 0, sr_end_line = 0, sr_end_character = 0\<rparr>"

definition parse_range :: "proto_reader \<Rightarrow> sdb_range sdb_result" where
  "parse_range r = fields_loop range_arms empty_range r"

definition occurrence_arms :: "u32 \<Rightarrow> u32 \<Rightarrow> sdb_occurrence field_action" where
  "occurrence_arms field wire =
     (if (field, wire) = (1, WIRE_LEN)
      then MessageField (\<lambda>m s. and_then (parse_range m) (\<lambda>rg. Ok (s\<lparr>so_range := Some rg\<rparr>)))
      else if (field, wire) = (2, WIRE_LEN) then StringField (\<lambda>v s. s\<lparr>so_symbol := v\<rparr>)
      else if (field, wire) = (3, WIRE_VARINT) then Int32Field (\<lambda>v s. s\<lparr>so_role_code := v\<rparr>)
      else SkipField)"

definition empty_occurrence :: sdb_occurrence where
  "empty_occurrence = \<lparr>so_range = None, so_symbol = [], so_role_code = 0\<rparr>"

definition parse_occurrence :: "proto_reader \<Rightarrow> sdb_occurrence sdb_result" where
  "parse_occurrence r = fields_loop occurrence_arms empty_occurrence r"

definition symbol_info_arms :: "u32 \<Rightarrow> u32 \<Rightarrow> sdb_symbol_info field_action" where
  "symbol_info_arms field wire =
     (if (field, wire) = (1, WIRE_LEN) then StringField (\<lambda>v s. s\<lparr>si_symbol := v\<rparr>)
      else if (field, wire) = (3, WIRE_VARINT) then Int32Field (\<lambda>v s. s\<lparr>si_kind_code := v\<rparr>)
      else if (field, wire) = (4, WIRE_VARINT) then Int32Field (\<lambda>v s. s\<lparr>si_properties := v\<rparr>)
      else if (field, wire) = (5, WIRE_LEN) then StringField (\<lambda>v s. s\<lparr>si_display_name := v\<rparr>)
      else if (field, wire) = (19, WIRE_LEN)
      then StringField (\<lambda>v s. s\<lparr>si_overridden_symbols := si_overridden_symbols s @ [v]\<rparr>)
      else SkipField)"

definition empty_symbol_info :: sdb_symbol_info where
  "empty_symbol_info = \<lparr>si_symbol = [], si_kind_code = 0, si_properties = 0, si_display_name = [],
     si_overridden_symbols = []\<rparr>"

definition parse_symbol_info :: "proto_reader \<Rightarrow> sdb_symbol_info sdb_result" where
  "parse_symbol_info r = fields_loop symbol_info_arms empty_symbol_info r"

definition document_arms :: "u32 \<Rightarrow> u32 \<Rightarrow> sdb_document field_action" where
  "document_arms field wire =
     (if (field, wire) = (1, WIRE_VARINT) then Int32Field (\<lambda>v s. s\<lparr>sdoc_schema := v\<rparr>)
      else if (field, wire) = (2, WIRE_LEN) then StringField (\<lambda>v s. s\<lparr>sdoc_uri := v\<rparr>)
      else if (field, wire) = (3, WIRE_LEN) then StringField (\<lambda>v s. s\<lparr>sdoc_text := v\<rparr>)
      else if (field, wire) = (11, WIRE_LEN) then StringField (\<lambda>v s. s\<lparr>sdoc_md5 := v\<rparr>)
      else if (field, wire) = (10, WIRE_VARINT) then Int32Field (\<lambda>v s. s\<lparr>sdoc_language_code := v\<rparr>)
      else if (field, wire) = (5, WIRE_LEN)
      then MessageField (\<lambda>m s. and_then (parse_symbol_info m) (\<lambda>i. Ok (s\<lparr>sdoc_symbols := sdoc_symbols s @ [i]\<rparr>)))
      else if (field, wire) = (6, WIRE_LEN)
      then MessageField (\<lambda>m s. and_then (parse_occurrence m) (\<lambda>i. Ok (s\<lparr>sdoc_occurrences := sdoc_occurrences s @ [i]\<rparr>)))
      else SkipField)"

definition empty_document :: sdb_document where
  "empty_document = \<lparr>sdoc_schema = 0, sdoc_uri = [], sdoc_text = [], sdoc_md5 = [], sdoc_language_code = 0,
     sdoc_symbols = [], sdoc_occurrences = []\<rparr>"

definition parse_document :: "proto_reader \<Rightarrow> sdb_document sdb_result" where
  "parse_document r = fields_loop document_arms empty_document r"

definition documents_arms :: "u32 \<Rightarrow> u32 \<Rightarrow> sdb_documents field_action" where
  "documents_arms field wire =
     (if (field, wire) = (1, WIRE_LEN)
      then MessageField (\<lambda>m s. and_then (parse_document m) (\<lambda>d. Ok (s @ [d])))
      else SkipField)"

definition parse_text_documents :: "byte list \<Rightarrow> sdb_documents sdb_result" where
  "parse_text_documents b = fields_loop documents_arms [] (new_reader b)"

section \<open>No payload makes the decoder panic\<close>

definition safe_action :: "'s field_action \<Rightarrow> bool" where
  "safe_action a \<longleftrightarrow> (case a of MessageField f \<Rightarrow> \<forall>m s. reader_ok m \<longrightarrow> f m s \<noteq> Panic | _ \<Rightarrow> True)"

lemma run_action_safe: "safe_action a \<Longrightarrow> reader_ok r \<Longrightarrow> run_action a w f s r \<noteq> Panic"
  by (cases a) (auto simp: safe_action_def and_then_eq_Panic reader_safe dest: read_message_ok)

lemma fields_loop_safe:
  "(\<And>f w. safe_action (arms f w)) \<Longrightarrow> reader_ok r \<Longrightarrow> fields_loop arms s r \<noteq> Panic"
proof (induction arms s r rule: fields_loop.induct)
  case (1 arms s r)
  show ?case
  proof
    assume "fields_loop arms s r = Panic"
    then obtain tag r1 s' r2 where tag: "has_remaining r" "read_tag r = Ok (tag, r1)"
      and alt: "run_action (arms (drop_bit 3 tag) (tag AND 7)) (tag AND 7) (drop_bit 3 tag) s r1 = Panic \<or>
        (run_action (arms (drop_bit 3 tag) (tag AND 7)) (tag AND 7) (drop_bit 3 tag) s r1 = Ok (s', r2) \<and>
         fields_loop arms s' r2 = Panic)"
      using "1.prems"(2) by (subst (asm) fields_loop.simps)
        (auto simp: and_then_eq_Panic Let_def reader_safe split: if_splits)
    have ok: "reader_ok r1" using reader_ok_past[OF "1.prems"(2) read_tag_past[OF tag(2)]] .
    then have run: "run_action (arms (drop_bit 3 tag) (tag AND 7)) (tag AND 7) (drop_bit 3 tag) s r1 = Ok (s', r2)"
      and rest: "fields_loop arms s' r2 = Panic"
      using alt run_action_safe[OF "1.prems"(1)] by auto
    have "reader_ok r2" using reader_ok_later[OF ok run_action_later[OF run]] .
    then show False
      using "1.IH"[OF _ tag(2) refl refl refl run refl "1.prems"(1)] tag(1) rest by simp
  qed
qed

lemma range_arms_safe: "safe_action (range_arms f w)"
  by (simp add: range_arms_def safe_action_def)

lemma parse_range_safe: "reader_ok r \<Longrightarrow> parse_range r \<noteq> Panic"
  by (simp add: parse_range_def fields_loop_safe range_arms_safe)

lemma occurrence_arms_safe: "safe_action (occurrence_arms f w)"
  by (auto simp: occurrence_arms_def safe_action_def and_then_eq_Panic dest: parse_range_safe)

lemma parse_occurrence_safe: "reader_ok r \<Longrightarrow> parse_occurrence r \<noteq> Panic"
  by (simp add: parse_occurrence_def fields_loop_safe occurrence_arms_safe)

lemma parse_symbol_info_safe: "reader_ok r \<Longrightarrow> parse_symbol_info r \<noteq> Panic"
  unfolding parse_symbol_info_def
  by (rule fields_loop_safe) (simp_all add: symbol_info_arms_def safe_action_def)

lemma parse_document_safe: "reader_ok r \<Longrightarrow> parse_document r \<noteq> Panic"
  unfolding parse_document_def
  by (rule fields_loop_safe)
    (auto simp: document_arms_def safe_action_def and_then_eq_Panic dest: parse_symbol_info_safe parse_occurrence_safe)

lemma parse_total: "parse_text_documents b \<noteq> Panic"
proof -
  have "safe_action (documents_arms f w)" for f w
    by (auto simp: documents_arms_def safe_action_def and_then_eq_Panic dest: parse_document_safe)
  then show ?thesis
    unfolding parse_text_documents_def by (rule fields_loop_safe) simp
qed

text \<open>
  C20: The SemanticDB decoder is total on arbitrary bytes: whatever is in a \<open>.semanticdb\<close> file (truncated
  varints, lengths past the end, unterminated or mismatched groups, unknown wire types, invalid UTF-8),
  \<open>parse_text_documents\<close> returns documents or a typed parse error and never panics.
\<close>
theorem parse_never_panics:
  "(\<exists>ds. parse_text_documents b = Ok ds) \<or> (\<exists>e. parse_text_documents b = Err e)"
  using parse_total[of b] by (cases "parse_text_documents b") auto

section \<open>Well-formed messages are decoded exactly\<close>

text \<open>The effect of one encoded field on the message under construction, wherever the field stands.\<close>
definition field_effect :: "(u32 \<Rightarrow> u32 \<Rightarrow> 's field_action) \<Rightarrow> wire_field \<Rightarrow> 's \<Rightarrow> 's \<Rightarrow> bool" where
  "field_effect arms f s s' \<longleftrightarrow> (\<forall>r ys. reader_ok r \<longrightarrow> window r = enc_payload f @ ys \<longrightarrow>
     run_action (arms (field_num f) (wire_type f)) (wire_type f) (field_num f) s r =
       Ok (s', advance (length (enc_payload f)) r))"

definition is_skip :: "'s field_action \<Rightarrow> bool" where
  "is_skip a \<longleftrightarrow> (case a of SkipField \<Rightarrow> True | _ \<Rightarrow> False)"

definition known :: "(u32 \<Rightarrow> u32 \<Rightarrow> 's field_action) \<Rightarrow> wire_field \<Rightarrow> bool" where
  "known arms f \<longleftrightarrow> \<not> is_skip (arms (field_num f) (wire_type f))"

lemma int32_effect: "arms n 0 = Int32Field g \<Longrightarrow> field_effect arms (FVarint n v) s (g (ucast v) s)"
  by (auto simp: field_effect_def read_int32_enc)

lemma string_effect:
  "arms n 2 = StringField g \<Longrightarrow> length b < 2 ^ 64 \<Longrightarrow> utf8_valid b \<Longrightarrow> field_effect arms (FLen n b) s (g b s)"
  by (auto simp: field_effect_def read_string_enc from_utf8_lossy_valid)

lemma message_effect:
  assumes "arms n 2 = MessageField g" and "length b < 2 ^ 64"
    and "\<And>m. reader_ok m \<Longrightarrow> window m = b \<Longrightarrow> g m s = Ok s'"
  shows "field_effect arms (FLen n b) s s'"
  unfolding field_effect_def
proof (intro allI impI)
  fix r ys
  assume "reader_ok r" and "window r = enc_payload (FLen n b) @ ys"
  then obtain m where "read_message r = Ok (m, advance (length (enc_len b)) r)" "reader_ok m" "window m = b"
    using read_message_enc[of r b ys] assms(2) by auto
  then show "run_action (arms (field_num (FLen n b)) (wire_type (FLen n b))) (wire_type (FLen n b)) (field_num (FLen n b)) s r =
      Ok (s', advance (length (enc_payload (FLen n b))) r)"
    using assms(1,3) by simp
qed

lemma skip_effect: "field_ok f \<Longrightarrow> \<not> known arms f \<Longrightarrow> field_effect arms f s s"
  by (auto simp: field_effect_def known_def is_skip_def skip_enc(1) split: field_action.splits)

inductive decodes :: "(u32 \<Rightarrow> u32 \<Rightarrow> 's field_action) \<Rightarrow> 's \<Rightarrow> wire_field list \<Rightarrow> 's \<Rightarrow> bool" for arms where
  decodes_Nil: "decodes arms s [] s"
| decodes_Cons: "field_ok f \<Longrightarrow> field_effect arms f s s' \<Longrightarrow> decodes arms s' fs t \<Longrightarrow> decodes arms s (f # fs) t"

lemma decodes_loop:
  "decodes arms s fs t \<Longrightarrow> reader_ok r \<Longrightarrow> window r = enc_fields fs \<Longrightarrow> fields_loop arms s r = Ok t"
proof (induction arbitrary: r rule: decodes.induct)
  case (decodes_Nil s)
  then show ?case by (subst fields_loop.simps) (simp add: has_remaining_window)
next
  case (decodes_Cons f s s' fs t)
  let ?t = "enc_tag (field_num f) (ucast (wire_type f))"
  have w: "window r = ?t @ enc_payload f @ enc_fields fs" using decodes_Cons.prems(2) by simp
  have nonempty: "?t \<noteq> []" by (simp add: enc_tag_def enc_varint.simps)
  obtain tag where tag: "read_tag r = Ok (tag, advance (length ?t) r)" "drop_bit 3 tag = field_num f" "tag AND 7 = wire_type f"
    using read_tag_enc[OF decodes_Cons.prems(1) w field_ok_num[OF decodes_Cons.hyps(1)] wire_type_small(1)] by blast
  note c1 = consume[OF decodes_Cons.prems(1) w]
  note c2 = consume[OF c1]
  have "run_action (arms (field_num f) (wire_type f)) (wire_type f) (field_num f) s (advance (length ?t) r) =
      Ok (s', advance (length (enc_payload f)) (advance (length ?t) r))"
    using decodes_Cons.hyps(2) c1 by (simp add: field_effect_def)
  moreover have "fields_loop arms s' (advance (length (enc_payload f)) (advance (length ?t) r)) = Ok t"
    by (rule decodes_Cons.IH[OF c2])
  moreover have "has_remaining r" using has_remaining_window[OF decodes_Cons.prems(1)] w nonempty by simp
  ultimately show ?case using tag by (subst fields_loop.simps) (simp add: Let_def)
qed

section \<open>Wire representations of the messages\<close>

text \<open>What it means for a list of wire fields to represent a message, following the proto3 rules for the
  schema that \<open>parser.rs\<close> quotes: the fields stand in any order; a scalar is the last value its field was
  given and its default when the field is absent; a repeated component is the list of the field's occurrences in
  order; an embedded range stands at most once; any other fields, groups included, may stand anywhere. An
  \<open>int32\<close> is the low half of its varint.\<close>

fun varints :: "u32 \<Rightarrow> wire_field list \<Rightarrow> u64 list" where
  "varints n [] = []"
| "varints n (f # fs) = (case f of FVarint m v \<Rightarrow> if m = n then [v] else [] | _ \<Rightarrow> []) @ varints n fs"

fun lens :: "u32 \<Rightarrow> wire_field list \<Rightarrow> byte list list" where
  "lens n [] = []"
| "lens n (f # fs) = (case f of FLen m b \<Rightarrow> if m = n then [b] else [] | _ \<Rightarrow> []) @ lens n fs"

definition int32_field :: "u32 \<Rightarrow> wire_field list \<Rightarrow> i32" where
  "int32_field n fs = last (0 # map ucast (varints n fs))"

definition string_field :: "u32 \<Rightarrow> wire_field list \<Rightarrow> str" where
  "string_field n fs = last ([] # lens n fs)"

definition embeds :: "(wire_field list \<Rightarrow> 'a \<Rightarrow> bool) \<Rightarrow> byte list \<Rightarrow> 'a \<Rightarrow> bool" where
  "embeds rep b x \<longleftrightarrow> length b < 2 ^ 64 \<and> (\<exists>gs. b = enc_fields gs \<and> rep gs x)"

definition represents_range :: "wire_field list \<Rightarrow> sdb_range \<Rightarrow> bool" where
  "represents_range fs rg \<longleftrightarrow> list_all field_ok fs \<and>
     sr_start_line rg = int32_field 1 fs \<and> sr_start_character rg = int32_field 2 fs \<and>
     sr_end_line rg = int32_field 3 fs \<and> sr_end_character rg = int32_field 4 fs"

definition represents_occurrence :: "wire_field list \<Rightarrow> sdb_occurrence \<Rightarrow> bool" where
  "represents_occurrence fs oc \<longleftrightarrow> list_all field_ok fs \<and> list_all utf8_valid (lens 2 fs) \<and>
     list_all2 (embeds represents_range) (lens 1 fs) (case so_range oc of None \<Rightarrow> [] | Some rg \<Rightarrow> [rg]) \<and>
     so_symbol oc = string_field 2 fs \<and> so_role_code oc = int32_field 3 fs"

definition represents_symbol_info :: "wire_field list \<Rightarrow> sdb_symbol_info \<Rightarrow> bool" where
  "represents_symbol_info fs i \<longleftrightarrow> list_all field_ok fs \<and> list_all utf8_valid (lens 1 fs @ lens 5 fs @ lens 19 fs) \<and>
     si_symbol i = string_field 1 fs \<and> si_kind_code i = int32_field 3 fs \<and> si_properties i = int32_field 4 fs \<and>
     si_display_name i = string_field 5 fs \<and> si_overridden_symbols i = lens 19 fs"

definition represents_document :: "wire_field list \<Rightarrow> sdb_document \<Rightarrow> bool" where
  "represents_document fs d \<longleftrightarrow> list_all field_ok fs \<and> list_all utf8_valid (lens 2 fs @ lens 3 fs @ lens 11 fs) \<and>
     sdoc_schema d = int32_field 1 fs \<and> sdoc_uri d = string_field 2 fs \<and> sdoc_text d = string_field 3 fs \<and>
     sdoc_md5 d = string_field 11 fs \<and> sdoc_language_code d = int32_field 10 fs \<and>
     list_all2 (embeds represents_symbol_info) (lens 5 fs) (sdoc_symbols d) \<and>
     list_all2 (embeds represents_occurrence) (lens 6 fs) (sdoc_occurrences d)"

definition represents_documents :: "wire_field list \<Rightarrow> sdb_documents \<Rightarrow> bool" where
  "represents_documents fs ds \<longleftrightarrow> list_all field_ok fs \<and> list_all2 (embeds represents_document) (lens 1 fs) ds"

section \<open>Every representation is decoded\<close>

lemma embedded_effect:
  assumes "embeds rep b x" and "arms n 2 = MessageField (\<lambda>m s. and_then (fields_loop arms' s0 m) (\<lambda>x. Ok (put x s)))"
    and "\<And>gs x. rep gs x \<Longrightarrow> decodes arms' s0 gs x"
  shows "field_effect arms (FLen n b) s (put x s)"
proof -
  have "fields_loop arms' s0 m = Ok x" if "reader_ok m" "window m = b" for m
    using assms(1,3) decodes_loop that by (metis embeds_def)
  then show ?thesis
    using message_effect[of arms n "\<lambda>m s. and_then (fields_loop arms' s0 m) (\<lambda>x. Ok (put x s))" b s "put x s"] assms(1,2)
    by (simp add: embeds_def)
qed

text \<open>To decode a list of fields it is enough to have, for what is left of the list at each point, a
  relation between the message so far and the final one.\<close>
lemma decodes_by:
  assumes "\<And>s t. after s [] t \<Longrightarrow> t = s"
    and "\<And>s f fs t. field_ok f \<Longrightarrow> after s (f # fs) t \<Longrightarrow> \<exists>s'. field_effect arms f s s' \<and> after s' fs t"
  shows "list_all field_ok fs \<Longrightarrow> after s fs t \<Longrightarrow> decodes arms s fs t"
proof (induction fs arbitrary: s)
  case Nil
  then show ?case using assms(1) by (metis decodes_Nil)
next
  case (Cons f fs)
  then obtain s' where "field_effect arms f s s'" "after s' fs t" using assms(2)[of f s fs t] by auto
  then show ?case using Cons by (auto intro: decodes_Cons)
qed

lemma field_lists [simp]:
  "varints n (FVarint m v # fs) = (if m = n then v # varints n fs else varints n fs)" "varints n (FLen m b # fs) = varints n fs"
  "lens n (FLen m b # fs) = (if m = n then b # lens n fs else lens n fs)" "lens n (FVarint m v # fs) = lens n fs"
  "varints n (FGroup m gs # fs) = varints n fs" "varints n (FFixed64 m b # fs) = varints n fs" "varints n (FFixed32 m b # fs) = varints n fs"
  "lens n (FGroup m gs # fs) = lens n fs" "lens n (FFixed64 m b # fs) = lens n fs" "lens n (FFixed32 m b # fs) = lens n fs"
  by simp_all

lemma other_fields:
  "\<forall>v. f \<noteq> FVarint n v \<Longrightarrow> varints n (f # fs) = varints n fs"
  "\<forall>b. f \<noteq> FLen n b \<Longrightarrow> lens n (f # fs) = lens n fs"
  by (cases f; auto)+

declare varints.simps(2) [simp del] lens.simps(2) [simp del]

lemma range_arms_at:
  "range_arms 1 0 = Int32Field (\<lambda>v s. s\<lparr>sr_start_line := v\<rparr>)"
  "range_arms 2 0 = Int32Field (\<lambda>v s. s\<lparr>sr_start_character := v\<rparr>)"
  "range_arms 3 0 = Int32Field (\<lambda>v s. s\<lparr>sr_end_line := v\<rparr>)"
  "range_arms 4 0 = Int32Field (\<lambda>v s. s\<lparr>sr_end_character := v\<rparr>)"
  by (simp_all add: range_arms_def)

lemma known_range: "known range_arms f \<longleftrightarrow>
  (\<exists>v. f = FVarint 1 v) \<or> (\<exists>v. f = FVarint 2 v) \<or> (\<exists>v. f = FVarint 3 v) \<or> (\<exists>v. f = FVarint 4 v)"
  by (cases f) (auto simp: known_def is_skip_def range_arms_def)

definition range_after :: "sdb_range \<Rightarrow> wire_field list \<Rightarrow> sdb_range \<Rightarrow> bool" where
  "range_after s fs t \<longleftrightarrow>
     t = \<lparr>sr_start_line = last (sr_start_line s # map ucast (varints 1 fs)),
          sr_start_character = last (sr_start_character s # map ucast (varints 2 fs)),
          sr_end_line = last (sr_end_line s # map ucast (varints 3 fs)),
          sr_end_character = last (sr_end_character s # map ucast (varints 4 fs))\<rparr>"

lemma represents_range_decodes:
  assumes "represents_range fs rg"
  shows "decodes range_arms empty_range fs rg"
proof (rule decodes_by[where after = range_after])
  show "list_all field_ok fs" "range_after empty_range fs rg"
    using assms by (auto simp: represents_range_def range_after_def empty_range_def int32_field_def)
next
  fix s t assume "range_after s [] t"
  then show "t = s" by (simp add: range_after_def)
next
  fix s f fs t
  assume ok: "field_ok f" and aft: "range_after s (f # fs) t"
  show "\<exists>s'. field_effect range_arms f s s' \<and> range_after s' fs t"
  proof (cases "known range_arms f")
    case False
    then show ?thesis using aft by (intro exI[of _ s] conjI skip_effect[OF ok False]) (simp add: known_range range_after_def other_fields)
  next
    case True
    then show ?thesis
      using aft unfolding known_range
      by - (elim disjE exE; hypsubst; intro exI; rule conjI; (rule int32_effect, rule range_arms_at)?; simp add: range_after_def)
  qed
qed

lemma occurrence_arms_at:
  "occurrence_arms 1 2 = MessageField (\<lambda>m s. and_then (fields_loop range_arms empty_range m) (\<lambda>rg. Ok (s\<lparr>so_range := Some rg\<rparr>)))"
  "occurrence_arms 2 2 = StringField (\<lambda>v s. s\<lparr>so_symbol := v\<rparr>)"
  "occurrence_arms 3 0 = Int32Field (\<lambda>v s. s\<lparr>so_role_code := v\<rparr>)"
  by (simp_all add: occurrence_arms_def parse_range_def)

lemma known_occurrence: "known occurrence_arms f \<longleftrightarrow> (\<exists>b. f = FLen 1 b) \<or> (\<exists>b. f = FLen 2 b) \<or> (\<exists>v. f = FVarint 3 v)"
  by (cases f) (auto simp: known_def is_skip_def occurrence_arms_def)

definition occurrence_after :: "sdb_occurrence \<Rightarrow> wire_field list \<Rightarrow> sdb_occurrence \<Rightarrow> bool" where
  "occurrence_after s fs t \<longleftrightarrow> list_all utf8_valid (lens 2 fs) \<and>
     (\<exists>rgs. list_all2 (embeds represents_range) (lens 1 fs) rgs \<and>
        t = \<lparr>so_range = last (so_range s # map Some rgs), so_symbol = last (so_symbol s # lens 2 fs),
             so_role_code = last (so_role_code s # map ucast (varints 3 fs))\<rparr>)"

lemma represents_occurrence_decodes:
  assumes "represents_occurrence fs oc"
  shows "decodes occurrence_arms empty_occurrence fs oc"
proof (rule decodes_by[where after = occurrence_after])
  show "list_all field_ok fs" "occurrence_after empty_occurrence fs oc"
    using assms
    by (auto simp: represents_occurrence_def occurrence_after_def empty_occurrence_def int32_field_def string_field_def
        split: option.splits intro!: exI[of _ "case so_range oc of None \<Rightarrow> [] | Some rg \<Rightarrow> [rg]"])
next
  fix s t assume "occurrence_after s [] t"
  then show "t = s" by (simp add: occurrence_after_def)
next
  fix s f fs t
  assume ok: "field_ok f" and aft: "occurrence_after s (f # fs) t"
  show "\<exists>s'. field_effect occurrence_arms f s s' \<and> occurrence_after s' fs t"
  proof (cases "known occurrence_arms f")
    case False
    then show ?thesis using aft by (intro exI[of _ s] conjI skip_effect[OF ok False]) (simp add: known_occurrence occurrence_after_def other_fields)
  next
    case True
    then consider b where "f = FLen 1 b" | b where "f = FLen 2 b" | v where "f = FVarint 3 v" unfolding known_occurrence by blast
    then show ?thesis
    proof cases
      case 1
      then obtain rg rgs where rg: "embeds represents_range b rg" "list_all2 (embeds represents_range) (lens 1 fs) rgs"
        and t: "list_all utf8_valid (lens 2 fs)" "t = \<lparr>so_range = last (Some rg # map Some rgs), so_symbol = last (so_symbol s # lens 2 fs),
          so_role_code = last (so_role_code s # map ucast (varints 3 fs))\<rparr>"
        using aft by (auto simp: occurrence_after_def list_all2_Cons1)
      have "occurrence_after (s\<lparr>so_range := Some rg\<rparr>) fs t"
        unfolding occurrence_after_def t(2) by (intro conjI exI[of _ rgs] rg(2) t(1)) simp
      then show ?thesis
        using 1 embedded_effect[where arms = occurrence_arms and n = 1 and put = "\<lambda>rg s. s\<lparr>so_range := Some rg\<rparr>", OF rg(1) occurrence_arms_at(1) represents_range_decodes, of s] by auto
    next
      case 2
      then show ?thesis
        using string_effect[of occurrence_arms 2, OF occurrence_arms_at(2), of b s] ok aft
        by (intro exI[of _ "s\<lparr>so_symbol := b\<rparr>"]) (auto simp: occurrence_after_def)
    next
      case 3
      then show ?thesis
        using int32_effect[of occurrence_arms 3 _ v s, OF occurrence_arms_at(3)] aft
        by (intro exI[of _ "s\<lparr>so_role_code := ucast v\<rparr>"]) (auto simp: occurrence_after_def)
    qed
  qed
qed

lemma symbol_info_arms_at:
  "symbol_info_arms 1 2 = StringField (\<lambda>v s. s\<lparr>si_symbol := v\<rparr>)"
  "symbol_info_arms 3 0 = Int32Field (\<lambda>v s. s\<lparr>si_kind_code := v\<rparr>)"
  "symbol_info_arms 4 0 = Int32Field (\<lambda>v s. s\<lparr>si_properties := v\<rparr>)"
  "symbol_info_arms 5 2 = StringField (\<lambda>v s. s\<lparr>si_display_name := v\<rparr>)"
  "symbol_info_arms 19 2 = StringField (\<lambda>v s. s\<lparr>si_overridden_symbols := si_overridden_symbols s @ [v]\<rparr>)"
  by (simp_all add: symbol_info_arms_def)

lemma known_symbol_info: "known symbol_info_arms f \<longleftrightarrow>
  ((\<exists>b. f = FLen 1 b) \<or> (\<exists>b. f = FLen 5 b) \<or> (\<exists>b. f = FLen 19 b)) \<or> ((\<exists>v. f = FVarint 3 v) \<or> (\<exists>v. f = FVarint 4 v))"
  by (cases f) (auto simp: known_def is_skip_def symbol_info_arms_def)

definition symbol_info_after :: "sdb_symbol_info \<Rightarrow> wire_field list \<Rightarrow> sdb_symbol_info \<Rightarrow> bool" where
  "symbol_info_after s fs t \<longleftrightarrow> list_all utf8_valid (lens 1 fs @ lens 5 fs @ lens 19 fs) \<and>
     t = \<lparr>si_symbol = last (si_symbol s # lens 1 fs), si_kind_code = last (si_kind_code s # map ucast (varints 3 fs)),
          si_properties = last (si_properties s # map ucast (varints 4 fs)), si_display_name = last (si_display_name s # lens 5 fs),
          si_overridden_symbols = si_overridden_symbols s @ lens 19 fs\<rparr>"

lemma represents_symbol_info_decodes:
  assumes "represents_symbol_info fs i"
  shows "decodes symbol_info_arms empty_symbol_info fs i"
proof (rule decodes_by[where after = symbol_info_after])
  show "list_all field_ok fs" "symbol_info_after empty_symbol_info fs i"
    using assms
    by (auto simp: represents_symbol_info_def symbol_info_after_def empty_symbol_info_def int32_field_def string_field_def)
next
  fix s t assume "symbol_info_after s [] t"
  then show "t = s" by (simp add: symbol_info_after_def)
next
  fix s f fs t
  assume ok: "field_ok f" and aft: "symbol_info_after s (f # fs) t"
  show "\<exists>s'. field_effect symbol_info_arms f s s' \<and> symbol_info_after s' fs t"
  proof (cases "known symbol_info_arms f")
    case False
    then show ?thesis using aft by (intro exI[of _ s] conjI skip_effect[OF ok False]) (simp add: known_symbol_info symbol_info_after_def other_fields)
  next
    case True
    then show ?thesis
      using aft ok unfolding known_symbol_info
      by - (elim disjE exE; hypsubst; intro exI; rule conjI;
          (rule int32_effect, rule symbol_info_arms_at | rule string_effect, rule symbol_info_arms_at)?; simp add: symbol_info_after_def)
  qed
qed

lemma document_arms_at:
  "document_arms 1 0 = Int32Field (\<lambda>v s. s\<lparr>sdoc_schema := v\<rparr>)"
  "document_arms 2 2 = StringField (\<lambda>v s. s\<lparr>sdoc_uri := v\<rparr>)"
  "document_arms 3 2 = StringField (\<lambda>v s. s\<lparr>sdoc_text := v\<rparr>)"
  "document_arms 11 2 = StringField (\<lambda>v s. s\<lparr>sdoc_md5 := v\<rparr>)"
  "document_arms 10 0 = Int32Field (\<lambda>v s. s\<lparr>sdoc_language_code := v\<rparr>)"
  "document_arms 5 2 = MessageField (\<lambda>m s. and_then (fields_loop symbol_info_arms empty_symbol_info m)
     (\<lambda>i. Ok (s\<lparr>sdoc_symbols := sdoc_symbols s @ [i]\<rparr>)))"
  "document_arms 6 2 = MessageField (\<lambda>m s. and_then (fields_loop occurrence_arms empty_occurrence m)
     (\<lambda>i. Ok (s\<lparr>sdoc_occurrences := sdoc_occurrences s @ [i]\<rparr>)))"
  by (simp_all add: document_arms_def parse_symbol_info_def parse_occurrence_def)

lemma known_document: "known document_arms f \<longleftrightarrow>
  (\<exists>b. f = FLen 5 b) \<or> (\<exists>b. f = FLen 6 b) \<or>
  ((\<exists>b. f = FLen 2 b) \<or> (\<exists>b. f = FLen 3 b) \<or> (\<exists>b. f = FLen 11 b)) \<or> ((\<exists>v. f = FVarint 1 v) \<or> (\<exists>v. f = FVarint 10 v))"
  by (cases f) (auto simp: known_def is_skip_def document_arms_def)

definition document_after :: "sdb_document \<Rightarrow> wire_field list \<Rightarrow> sdb_document \<Rightarrow> bool" where
  "document_after s fs t \<longleftrightarrow> list_all utf8_valid (lens 2 fs @ lens 3 fs @ lens 11 fs) \<and>
     (\<exists>is ocs. list_all2 (embeds represents_symbol_info) (lens 5 fs) is \<and> list_all2 (embeds represents_occurrence) (lens 6 fs) ocs \<and>
        t = \<lparr>sdoc_schema = last (sdoc_schema s # map ucast (varints 1 fs)), sdoc_uri = last (sdoc_uri s # lens 2 fs),
             sdoc_text = last (sdoc_text s # lens 3 fs), sdoc_md5 = last (sdoc_md5 s # lens 11 fs),
             sdoc_language_code = last (sdoc_language_code s # map ucast (varints 10 fs)),
             sdoc_symbols = sdoc_symbols s @ is, sdoc_occurrences = sdoc_occurrences s @ ocs\<rparr>)"

lemma represents_document_decodes:
  assumes "represents_document fs d"
  shows "decodes document_arms empty_document fs d"
proof (rule decodes_by[where after = document_after])
  show "list_all field_ok fs" using assms by (simp add: represents_document_def)
  show "document_after empty_document fs d"
    unfolding document_after_def
    by (intro conjI exI[of _ "sdoc_symbols d"] exI[of _ "sdoc_occurrences d"] sdb_document.equality)
      (use assms in \<open>simp_all add: represents_document_def empty_document_def int32_field_def string_field_def\<close>)
next
  fix s t assume "document_after s [] t"
  then show "t = s" by (simp add: document_after_def)
next
  fix s f fs t
  assume ok: "field_ok f" and aft: "document_after s (f # fs) t"
  show "\<exists>s'. field_effect document_arms f s s' \<and> document_after s' fs t"
  proof (cases "known document_arms f")
    case False
    then show ?thesis using aft by (intro exI[of _ s] conjI skip_effect[OF ok False]) (simp add: known_document document_after_def other_fields)
  next
    case True
    then consider b where "f = FLen 5 b" | b where "f = FLen 6 b"
      | (scalar) "((\<exists>b. f = FLen 2 b) \<or> (\<exists>b. f = FLen 3 b) \<or> (\<exists>b. f = FLen 11 b)) \<or> ((\<exists>v. f = FVarint 1 v) \<or> (\<exists>v. f = FVarint 10 v))"
      unfolding known_document by blast
    then show ?thesis
    proof cases
      case 1
      then obtain i where i: "embeds represents_symbol_info b i" "document_after (s\<lparr>sdoc_symbols := sdoc_symbols s @ [i]\<rparr>) fs t"
        using aft by (auto simp: document_after_def list_all2_Cons1)
      then show ?thesis
        using 1 embedded_effect[where arms = document_arms and n = 5 and put = "\<lambda>i s. s\<lparr>sdoc_symbols := sdoc_symbols s @ [i]\<rparr>", OF i(1) document_arms_at(6) represents_symbol_info_decodes, of s] by auto
    next
      case 2
      then obtain oc where oc: "embeds represents_occurrence b oc"
        "document_after (s\<lparr>sdoc_occurrences := sdoc_occurrences s @ [oc]\<rparr>) fs t"
        using aft by (auto simp: document_after_def list_all2_Cons1)
      then show ?thesis
        using 2 embedded_effect[where arms = document_arms and n = 6 and put = "\<lambda>i s. s\<lparr>sdoc_occurrences := sdoc_occurrences s @ [i]\<rparr>", OF oc(1) document_arms_at(7) represents_occurrence_decodes, of s] by auto
    next
      case scalar
      then show ?thesis
        using aft ok
        by - (elim disjE exE; hypsubst; intro exI; rule conjI;
            (rule int32_effect, rule document_arms_at | rule string_effect, rule document_arms_at)?; simp add: document_after_def)
    qed
  qed
qed

lemma documents_arms_at:
  "documents_arms 1 2 = MessageField (\<lambda>m s. and_then (fields_loop document_arms empty_document m) (\<lambda>d. Ok (s @ [d])))"
  by (simp add: documents_arms_def parse_document_def)

lemma known_documents: "known documents_arms f \<longleftrightarrow> (\<exists>b. f = FLen 1 b)"
  by (cases f) (auto simp: known_def is_skip_def documents_arms_def)

definition documents_after :: "sdb_documents \<Rightarrow> wire_field list \<Rightarrow> sdb_documents \<Rightarrow> bool" where
  "documents_after s fs t \<longleftrightarrow> (\<exists>ds. list_all2 (embeds represents_document) (lens 1 fs) ds \<and> t = s @ ds)"

lemma represents_documents_decodes:
  assumes "represents_documents fs ds"
  shows "decodes documents_arms [] fs ds"
proof (rule decodes_by[where after = documents_after])
  show "list_all field_ok fs" "documents_after [] fs ds" using assms by (auto simp: represents_documents_def documents_after_def)
next
  fix s t assume "documents_after s [] t"
  then show "t = s" by (simp add: documents_after_def)
next
  fix s f fs t
  assume ok: "field_ok f" and aft: "documents_after s (f # fs) t"
  show "\<exists>s'. field_effect documents_arms f s s' \<and> documents_after s' fs t"
  proof (cases "known documents_arms f")
    case False
    then show ?thesis using aft by (intro exI[of _ s] conjI skip_effect[OF ok False]) (simp add: known_documents documents_after_def other_fields)
  next
    case True
    then obtain b where b: "f = FLen 1 b" unfolding known_documents by blast
    then obtain d where d: "embeds represents_document b d" "documents_after (s @ [d]) fs t"
      using aft by (auto simp: documents_after_def list_all2_Cons1)
    then show ?thesis
      using b embedded_effect[where arms = documents_arms and n = 1 and put = "\<lambda>d s. s @ [d]", OF d(1) documents_arms_at represents_document_decodes, of s] by auto
  qed
qed

lemma parse_represented: "represents_documents fs ds \<Longrightarrow> parse_text_documents (enc_fields fs) = Ok ds"
  unfolding parse_text_documents_def by (rule decodes_loop[OF represents_documents_decodes]) simp_all

text \<open>
  C21: The decoder reads back every SemanticDB payload that a proto3 encoder may write: if the wire fields \<open>fs\<close>
  represent the documents \<open>ds\<close> at every level (fields in any order, scalars at their default left out or given
  several times with the last value counting, repeated components in the order of their fields, at most one range in
  an occurrence, valid UTF-8 texts, unknown fields of any wire type and nested legacy groups anywhere in between),
  then parsing their encoding, whose tags, lengths and integers are shortest varints, yields exactly \<open>ds\<close>.
\<close>
theorem parse_represented_documents:
  assumes "represents_documents fs ds"
  shows "parse_text_documents (enc_fields fs) = Ok ds"
  using assms by (rule parse_represented)

definition sample_range :: sdb_range where
  "sample_range = \<lparr>sr_start_line = 1, sr_start_character = 6, sr_end_line = 1, sr_end_character = 7\<rparr>"

definition sample_occurrence :: sdb_occurrence where
  "sample_occurrence = \<lparr>so_range = Some sample_range, so_symbol = lit ''a/B#'', so_role_code = 2\<rparr>"

definition sample_symbol_info :: sdb_symbol_info where
  "sample_symbol_info = \<lparr>si_symbol = lit ''a/B#'', si_kind_code = 13, si_properties = -1, si_display_name = lit ''B'',
     si_overridden_symbols = [lit ''a/A#'']\<rparr>"

definition sample_document :: sdb_document where
  "sample_document = \<lparr>sdoc_schema = 4, sdoc_uri = lit ''a/B.scala'', sdoc_text = [], sdoc_md5 = [], sdoc_language_code = 1,
     sdoc_symbols = [sample_symbol_info], sdoc_occurrences = [sample_occurrence]\<rparr>"

text \<open>The same document with its fields out of order, the schema given twice, the empty texts left out, an
  unknown group before its first field and unknown fixed-width fields in the occurrence.\<close>
definition sample_range_fields :: "wire_field list" where
  "sample_range_fields = [FVarint 3 1, FVarint 4 7, FVarint 1 1, FVarint 2 6]"

definition sample_occurrence_fields :: "wire_field list" where
  "sample_occurrence_fields = [FVarint 3 2, FFixed32 9 [0, 0, 0, 0], FLen 2 (lit ''a/B#''), FLen 1 (enc_fields sample_range_fields)]"

definition sample_symbol_fields :: "wire_field list" where
  "sample_symbol_fields = [FLen 1 (lit ''a/B#''), FVarint 3 13, FLen 5 (lit ''B''), FVarint 4 (scast (-1 :: i32)), FLen 19 (lit ''a/A#'')]"

definition sample_document_fields :: "wire_field list" where
  "sample_document_fields = [FGroup 20 [FVarint 1 300, FGroup 2 []], FVarint 10 1, FLen 6 (enc_fields sample_occurrence_fields),
     FVarint 1 9, FLen 2 (lit ''a/B.scala''), FLen 5 (enc_fields sample_symbol_fields), FVarint 1 4]"

lemma sample_lengths:
  "length (enc_fields sample_range_fields) \<le> 100"
  "length (enc_fields sample_symbol_fields) \<le> 200"
  "length (enc_fields sample_occurrence_fields) \<le> 200"
  "length (enc_fields sample_document_fields) \<le> 1000"
proof -
  show 1: "length (enc_fields sample_range_fields) \<le> 100"
    using length_enc_bound(2)[of sample_range_fields] by (simp add: sample_range_fields_def)
  show 2: "length (enc_fields sample_symbol_fields) \<le> 200"
    using length_enc_bound(2)[of sample_symbol_fields] by (simp add: sample_symbol_fields_def lit_def)
  show 3: "length (enc_fields sample_occurrence_fields) \<le> 200"
    using length_enc_bound(2)[of sample_occurrence_fields] 1 by (simp add: sample_occurrence_fields_def lit_def)
  show "length (enc_fields sample_document_fields) \<le> 1000"
    using length_enc_bound(2)[of sample_document_fields] 2 3 by (simp add: sample_document_fields_def lit_def)
qed

lemma sample_texts: "utf8_valid (lit ''a/B#'')" "utf8_valid (lit ''B'')" "utf8_valid (lit ''a/A#'')" "utf8_valid (lit ''a/B.scala'')"
  by (simp_all add: lit_def utf8_valid_ascii)

lemma embedsI: "length (enc_fields gs) \<le> 1000 \<Longrightarrow> rep gs x \<Longrightarrow> embeds rep (enc_fields gs) x"
  by (auto simp: embeds_def)

lemma ucast_scast_i32: "ucast (scast v :: u64) = v" for v :: i32
  by (rule bit_word_eqI) (auto simp: bit_simps)

lemmas sample_field_defs = int32_field_def string_field_def field_num_ok_def

lemma sample_range_represented: "represents_range sample_range_fields sample_range"
  by (simp add: represents_range_def sample_range_fields_def sample_range_def sample_field_defs)

lemma sample_occurrence_represented: "represents_occurrence sample_occurrence_fields sample_occurrence"
  using embedsI[where rep = represents_range, OF _ sample_range_represented] sample_lengths(1) sample_texts
  by (simp add: represents_occurrence_def sample_occurrence_fields_def sample_occurrence_def sample_field_defs) (simp add: lit_def)

lemma sample_symbol_represented: "represents_symbol_info sample_symbol_fields sample_symbol_info"
  using sample_texts ucast_scast_i32[of "- 1"]
  by (simp add: represents_symbol_info_def sample_symbol_fields_def sample_symbol_info_def sample_field_defs lit_def)

lemma sample_document_represented: "represents_document sample_document_fields sample_document"
  using embedsI[where rep = represents_symbol_info, OF _ sample_symbol_represented] embedsI[where rep = represents_occurrence, OF _ sample_occurrence_represented] sample_lengths sample_texts
  by (simp add: represents_document_def sample_document_fields_def sample_document_def sample_field_defs) (simp add: lit_def)

definition sample_file :: "byte list" where
  "sample_file = enc_fields [FVarint 2 7, FLen 1 (enc_fields sample_document_fields)]"

lemma sample_documents_represented: "represents_documents [FVarint 2 7, FLen 1 (enc_fields sample_document_fields)] [sample_document]"
  using embedsI[where rep = represents_document, OF _ sample_document_represented] sample_lengths(4) by (simp add: represents_documents_def sample_field_defs)

lemma sample_file_parses: "parse_text_documents sample_file = Ok [sample_document]"
  unfolding sample_file_def using sample_documents_represented by (rule parse_represented)

theorem parse_represented_documents_witness:
  "represents_documents [FVarint 2 7, FLen 1 (enc_fields sample_document_fields)] [sample_document] \<and>
   parse_text_documents (enc_fields [FVarint 2 7, FLen 1 (enc_fields sample_document_fields)]) = Ok [sample_document]"
  using sample_documents_represented parse_represented_documents by blast

end
