(* ===== verification/Rust_Char.thy ===== *)
theory Rust_Char
  imports Index_Model Utf8
begin

text \<open>
  Rust \<open>char\<close>s and the part of \<open>char\<close>'s classification that the sources use. A \<open>char\<close> is kept as its
  UTF-8 bytes, so that \<open>chars\<close> splits a string and \<open>concat\<close> collects it again. On ASCII the
  classification is written out as the standard library has it; beyond ASCII it consults the Unicode
  tables of the standard library, which are the fields of the parameter \<open>unicode\<close>.
\<close>

type_synonym rchar = "byte list"

function chars :: "str \<Rightarrow> rchar list" where
  "chars s = (if s = [] then [] else take (snd (utf8_step s)) s # chars (drop (snd (utf8_step s)) s))"
  by pat_completeness auto
termination
  by (relation "measure length") (auto simp: utf8_step_pos)

declare chars.simps [simp del]

definition ch :: "char \<Rightarrow> rchar" where
  "ch c = [of_char c]"

record unicode =
  uc_alphabetic :: "rchar \<Rightarrow> bool"
  uc_numeric :: "rchar \<Rightarrow> bool"
  uc_uppercase :: "rchar \<Rightarrow> bool"
  uc_is_lowercase :: "rchar \<Rightarrow> bool"
  uc_lowercase :: "rchar \<Rightarrow> rchar list"
  uc_whitespace :: "rchar \<Rightarrow> bool"

definition is_ascii :: "rchar \<Rightarrow> bool" where
  "is_ascii c \<longleftrightarrow> length c = 1"

definition ascii_upper :: "byte \<Rightarrow> bool" where
  "ascii_upper b \<longleftrightarrow> 65 \<le> b \<and> b \<le> 90"

definition ascii_lower :: "byte \<Rightarrow> bool" where
  "ascii_lower b \<longleftrightarrow> 97 \<le> b \<and> b \<le> 122"

definition ascii_digit :: "byte \<Rightarrow> bool" where
  "ascii_digit b \<longleftrightarrow> 48 \<le> b \<and> b \<le> 57"

definition is_alphabetic :: "unicode \<Rightarrow> rchar \<Rightarrow> bool" where
  "is_alphabetic U c = (if is_ascii c then ascii_upper (hd c) \<or> ascii_lower (hd c) else uc_alphabetic U c)"

definition is_numeric :: "unicode \<Rightarrow> rchar \<Rightarrow> bool" where
  "is_numeric U c = (if is_ascii c then ascii_digit (hd c) else uc_numeric U c)"

definition is_alphanumeric :: "unicode \<Rightarrow> rchar \<Rightarrow> bool" where
  "is_alphanumeric U c \<longleftrightarrow> is_alphabetic U c \<or> is_numeric U c"

definition is_uppercase :: "unicode \<Rightarrow> rchar \<Rightarrow> bool" where
  "is_uppercase U c = (if is_ascii c then ascii_upper (hd c) else uc_uppercase U c)"

definition is_lowercase :: "unicode \<Rightarrow> rchar \<Rightarrow> bool" where
  "is_lowercase U c = (if is_ascii c then ascii_lower (hd c) else uc_is_lowercase U c)"

definition is_whitespace :: "unicode \<Rightarrow> rchar \<Rightarrow> bool" where
  "is_whitespace U c = (if is_ascii c then hd c = 32 \<or> 9 \<le> hd c \<and> hd c \<le> 13 else uc_whitespace U c)"

definition to_lowercase :: "unicode \<Rightarrow> rchar \<Rightarrow> rchar list" where
  "to_lowercase U c = (if is_ascii c then [if ascii_upper (hd c) then [hd c + 32] else c] else uc_lowercase U c)"

text \<open>Tables that know no letter beyond ASCII, for concrete evaluation.\<close>
definition ascii_unicode :: unicode where
  "ascii_unicode = \<lparr>uc_alphabetic = (\<lambda>_. False), uc_numeric = (\<lambda>_. False), uc_uppercase = (\<lambda>_. False), uc_is_lowercase = (\<lambda>_. False), uc_lowercase = (\<lambda>c. [c]),
     uc_whitespace = (\<lambda>_. False)\<rparr>"

section \<open>Splitting and collecting\<close>

text \<open>One well-formed \<open>char\<close>.\<close>
definition rchar_ok :: "rchar \<Rightarrow> bool" where
  "rchar_ok c \<longleftrightarrow> c \<noteq> [] \<and> utf8_step c = (True, length c)"

lemma chars_Nil [simp]: "chars [] = []"
  by (simp add: chars.simps)

lemma concat_chars [simp]: "concat (chars s) = s"
proof (induction s rule: chars.induct)
  case (1 s)
  then show ?case by (subst chars.simps) simp
qed

lemma chars_eq_Nil [simp]: "chars s = [] \<longleftrightarrow> s = []"
  by (subst chars.simps) simp

lemma chars_Cons: "rchar_ok c \<Longrightarrow> chars (c @ s) = c # chars s"
  by (subst chars.simps) (auto simp: rchar_ok_def utf8_step_append)

lemma chars_concat: "list_all rchar_ok cs \<Longrightarrow> chars (concat cs) = cs"
  by (induction cs) (auto simp: chars_Cons)

lemma utf8_step_take: "fst (utf8_step s) \<Longrightarrow> s \<noteq> [] \<Longrightarrow> utf8_step (take (snd (utf8_step s)) s) = (True, snd (utf8_step s))"
  by (cases s) (auto split: list.splits if_splits)

lemma chars_ok: "utf8_valid s \<Longrightarrow> list_all rchar_ok (chars s)"
proof (induction s rule: chars.induct)
  case (1 s)
  show ?case
  proof (cases "s = []")
    case False
    then have step: "fst (utf8_step s)" "utf8_valid (drop (snd (utf8_step s)) s)"
      using "1.prems" by (subst (asm) utf8_valid.simps, simp)+
    have "rchar_ok (take (snd (utf8_step s)) s)"
      using utf8_step_take[OF step(1) False] utf8_step_pos[OF False] utf8_step_le[of s] False
      by (simp add: rchar_ok_def)
    then show ?thesis using "1.IH"[OF False step(2)] False by (subst chars.simps) simp
  qed simp
qed

lemma concat_valid: "list_all rchar_ok cs \<Longrightarrow> utf8_valid (concat cs)"
proof (induction cs)
  case (Cons c cs)
  then have "utf8_valid c" by (subst utf8_valid.simps) (simp add: rchar_ok_def)
  then show ?case using Cons by (simp add: utf8_valid_append)
qed simp

lemma chars_concat_append: "list_all rchar_ok cs \<Longrightarrow> chars (concat cs @ t) = cs @ chars t"
  by (induction cs) (auto simp: chars_Cons)

lemma chars_append: "utf8_valid s \<Longrightarrow> chars (s @ t) = chars s @ chars t"
  using chars_concat_append[OF chars_ok] by simp

lemma chars_nonempty: "c \<in> set (chars s) \<Longrightarrow> c \<noteq> []"
proof (induction s rule: chars.induct)
  case (1 s)
  then show ?case using utf8_step_pos[of s] by (subst (asm) chars.simps) (auto split: if_splits)
qed

lemma rchar_ok_ascii: "b < 128 \<Longrightarrow> rchar_ok [b]"
  by (simp add: rchar_ok_def utf8_width_def)

lemma chars_ascii: "b < 128 \<Longrightarrow> chars (b # s) = [b] # chars s"
  using chars_Cons[OF rchar_ok_ascii] by simp

end
