(* ===== verification/Sdb_Symbols.thy ===== *)
theory Sdb_Symbols
  imports Rust_Char
begin

text \<open>
  The SemanticDB symbol grammar: \<open>crates/ls-semanticdb/src/symbols.rs\<close>. Parsing works backwards over
  the \<open>char\<close>s of the symbol. Every backward loop starts at an index of the slice and goes down, so
  the reads it makes are in range; it is a recursion on the number of \<open>char\<close>s still before it.
\<close>

definition ROOT_PACKAGE :: str where "ROOT_PACKAGE = lit ''_root_/''"
definition EMPTY_PACKAGE :: str where "EMPTY_PACKAGE = lit ''_empty_/''"
definition CONSTRUCTOR_NAME :: str where "CONSTRUCTOR_NAME = lit ''<init>''"

datatype descriptor =
    DTerm str
  | DMethod str str
  | DType str
  | DPackage str
  | DParameter str
  | DTypeParameter str

primrec descriptor_name :: "descriptor \<Rightarrow> str" where
  "descriptor_name (DTerm n) = n"
| "descriptor_name (DMethod n _) = n"
| "descriptor_name (DType n) = n"
| "descriptor_name (DPackage n) = n"
| "descriptor_name (DParameter n) = n"
| "descriptor_name (DTypeParameter n) = n"

definition is_name_boundary :: "rchar \<Rightarrow> bool" where
  "is_name_boundary c \<longleftrightarrow> c \<in> {ch CHR ''/'', ch CHR ''.'', ch CHR ''#'', ch CHR ''('', ch CHR '')'', ch CHR ''['', ch CHR '']'', ch CHR 0x60}"

definition sym_is_local :: "str \<Rightarrow> bool" where
  "sym_is_local sm \<longleftrightarrow> 5 < length (chars sm) \<and> prefix (lit ''local'') sm \<and> \<not> list_ex is_name_boundary (chars sm)"

definition is_global :: "str \<Rightarrow> bool" where
  "is_global sm \<longleftrightarrow> sm \<noteq> [] \<and> \<not> sym_is_local sm"

definition is_package :: "str \<Rightarrow> bool" where
  "is_package sm \<longleftrightarrow> suffix (lit ''/'') sm"

definition is_java_id_start :: "unicode \<Rightarrow> rchar \<Rightarrow> bool" where
  "is_java_id_start U c \<longleftrightarrow> is_alphabetic U c \<or> c = ch CHR ''_'' \<or> c = ch CHR ''$''"

definition is_java_id_part :: "unicode \<Rightarrow> rchar \<Rightarrow> bool" where
  "is_java_id_part U c \<longleftrightarrow> is_java_id_start U c \<or> is_numeric U c"

definition backtick :: str where "backtick = [0x60]"

definition encode_name :: "unicode \<Rightarrow> str \<Rightarrow> str" where
  "encode_name U name =
     (case chars name of
        [] \<Rightarrow> backtick @ backtick
      | head # _ \<Rightarrow>
          if is_java_id_start U head \<and> list_all (is_java_id_part U) (chars name) then name
          else backtick @ name @ backtick)"

text \<open>\<open>prefix(chars, to)\<close> and the half-open slices of the source, collected into a string.\<close>
definition prefix_of :: "rchar list \<Rightarrow> nat \<Rightarrow> str" where
  "prefix_of cs n = concat (take n cs)"

definition between :: "rchar list \<Rightarrow> nat \<Rightarrow> nat \<Rightarrow> str" where
  "between cs i j = concat (take (j - i) (drop i cs))"

text \<open>Last index of \<open>target\<close> among the first \<open>n\<close> chars (\<open>from = n - 1\<close> in the source).\<close>
primrec last_index_of :: "rchar list \<Rightarrow> rchar \<Rightarrow> nat \<Rightarrow> nat option" where
  "last_index_of cs target 0 = None"
| "last_index_of cs target (Suc i) = (if cs ! i = target then Some i else last_index_of cs target i)"

text \<open>The start of the maximal run of non-boundary chars that ends before index \<open>n\<close>.\<close>
primrec name_start :: "rchar list \<Rightarrow> nat \<Rightarrow> nat" where
  "name_start cs 0 = 0"
| "name_start cs (Suc i) = (if is_name_boundary (cs ! i) then Suc i else name_start cs i)"

text \<open>\<open>read_name_backwards(chars, end_idx)\<close> with \<open>n = end_idx + 1\<close>, so that \<open>end_idx < 0\<close> is \<open>n = 0\<close>.\<close>
fun read_name_backwards :: "rchar list \<Rightarrow> nat \<Rightarrow> (nat \<times> str) option" where
  "read_name_backwards cs 0 = None"
| "read_name_backwards cs (Suc e) =
     (if cs ! e = backtick
      then map_option (\<lambda>opn. (opn, between cs (opn + 1) e)) (last_index_of cs backtick e)
      else let start = name_start cs (Suc e)
           in if start = Suc e then None else Some (start, between cs start (Suc e)))"

definition split_last :: "str \<Rightarrow> (str \<times> descriptor) option" where
  "split_last sm =
     (if sm = [] \<or> sym_is_local sm then None
      else let cs = chars sm; n = length cs; c = cs ! (n - 1)
           in if c = ch CHR ''/''
              then map_option (\<lambda>(start, name). (prefix_of cs start, DPackage name)) (read_name_backwards cs (n - 1))
              else if c = ch CHR ''#''
              then map_option (\<lambda>(start, name). (prefix_of cs start, DType name)) (read_name_backwards cs (n - 1))
              else if c = ch CHR ''.''
              then (if 2 \<le> n \<and> cs ! (n - 2) = ch CHR '')''
                    then (case last_index_of cs (ch CHR ''('') (n - 1) of
                            None \<Rightarrow> None
                          | Some opn \<Rightarrow>
                              map_option (\<lambda>(start, name). (prefix_of cs start, DMethod name (between cs opn (n - 1))))
                                (read_name_backwards cs opn))
                    else map_option (\<lambda>(start, name). (prefix_of cs start, DTerm name)) (read_name_backwards cs (n - 1)))
              else if c = ch CHR '')''
              then (case read_name_backwards cs (n - 1) of
                      None \<Rightarrow> None
                    | Some (start, name) \<Rightarrow>
                        if 0 < start \<and> cs ! (start - 1) = ch CHR ''(''
                        then Some (prefix_of cs (start - 1), DParameter name) else None)
              else if c = ch CHR '']''
              then (case read_name_backwards cs (n - 1) of
                      None \<Rightarrow> None
                    | Some (start, name) \<Rightarrow>
                        if 0 < start \<and> cs ! (start - 1) = ch CHR ''[''
                        then Some (prefix_of cs (start - 1), DTypeParameter name) else None)
              else None)"

definition descriptor_of :: "str \<Rightarrow> descriptor option" where
  "descriptor_of sm = map_option snd (split_last sm)"

definition display_name :: "str \<Rightarrow> str option" where
  "display_name sm = map_option descriptor_name (descriptor_of sm)"

definition owner :: "str \<Rightarrow> str option" where
  "owner sm = (case split_last sm of None \<Rightarrow> None | Some (own, _) \<Rightarrow> if own \<noteq> [] then Some own else None)"

definition companion :: "unicode \<Rightarrow> str \<Rightarrow> str option" where
  "companion U sm =
     (case split_last sm of
        Some (own, DType name) \<Rightarrow> Some (own @ encode_name U name @ lit ''.'')
      | Some (own, DTerm name) \<Rightarrow> Some (own @ encode_name U name @ lit ''#'')
      | _ \<Rightarrow> None)"

definition is_companion_pair :: "unicode \<Rightarrow> str \<Rightarrow> str \<Rightarrow> bool" where
  "is_companion_pair U a b \<longleftrightarrow> companion U a = Some b"

definition is_constructor :: "str \<Rightarrow> bool" where
  "is_constructor sm = (case descriptor_of sm of Some (DMethod name _) \<Rightarrow> name = CONSTRUCTOR_NAME | _ \<Rightarrow> False)"

definition is_setter_name :: "str \<Rightarrow> bool" where
  "is_setter_name name \<longleftrightarrow> 2 < length (chars name) \<and> suffix (lit ''_='') name"

definition is_setter :: "str \<Rightarrow> bool" where
  "is_setter sm = (case descriptor_of sm of Some (DMethod name _) \<Rightarrow> is_setter_name name | _ \<Rightarrow> False)"

text \<open>\<open>name.truncate(name.len() - 2)\<close>.\<close>
definition drop_setter :: "str \<Rightarrow> str" where
  "drop_setter name = take (length name - 2) name"

definition setter_target_name :: "str \<Rightarrow> str option" where
  "setter_target_name sm =
     (case descriptor_of sm of
        Some (DMethod name _) \<Rightarrow> if is_setter_name name then Some (drop_setter name) else None
      | _ \<Rightarrow> None)"

section \<open>What a split returns\<close>

lemma last_index_of_Some: "last_index_of cs t n = Some i \<Longrightarrow> i < n \<and> cs ! i = t \<and> (\<forall>j. i < j \<longrightarrow> j < n \<longrightarrow> cs ! j \<noteq> t)"
  by (induction n) (auto split: if_splits simp: less_Suc_eq)

lemma name_start_le: "name_start cs n \<le> n"
  by (induction n) auto

lemma name_start_run: "name_start cs n \<le> j \<Longrightarrow> j < n \<Longrightarrow> \<not> is_name_boundary (cs ! j)"
  by (induction n) (auto simp: less_Suc_eq split: if_splits)

lemma between_snoc: "i \<le> j \<Longrightarrow> j < length cs \<Longrightarrow> between cs i (Suc j) = between cs i j @ cs ! j"
  by (simp add: between_def Suc_diff_le take_Suc_conv_app_nth)

lemma between_Cons: "i < j \<Longrightarrow> j \<le> length cs \<Longrightarrow> between cs i j = cs ! i @ between cs (Suc i) j"
  by (cases "drop i cs")
    (auto simp: between_def take_Cons' drop_Suc nth_via_drop tl_drop[symmetric] Suc_diff_Suc[symmetric]
      simp del: tl_drop dest: arg_cong[of _ _ tl])

lemma prefix_between: "i \<le> j \<Longrightarrow> prefix_of cs i @ between cs i j = prefix_of cs j"
  by (simp add: prefix_of_def between_def flip: concat_append take_add)

lemma prefix_all: "prefix_of cs (length cs) = concat cs"
  by (simp add: prefix_of_def)

lemma read_name_backwards_Some:
  assumes "read_name_backwards cs n = Some (start, name)" and "n \<le> length cs"
  shows "start < n" and "between cs start n = name \<or> between cs start n = backtick @ name @ backtick"
proof -
  obtain e where n: "n = Suc e" using assms(1) by (cases n) auto
  have *: "start < n \<and> (between cs start n = name \<or> between cs start n = backtick @ name @ backtick)"
  proof (cases "cs ! e = backtick")
    case True
    then have idx: "last_index_of cs backtick e = Some start" and nm: "name = between cs (start + 1) e"
      using assms(1) n by auto
    have s: "start < e" "cs ! start = backtick" using last_index_of_Some[OF idx] by auto
    have "between cs start n = cs ! start @ between cs (Suc start) e @ cs ! e"
      using s assms(2) n between_snoc[of start e cs] between_Cons[of start e cs] by simp
    then show ?thesis using s True nm n by simp
  next
    case False
    then show ?thesis using assms(1) n name_start_le[of cs "Suc e"] by (auto simp: Let_def split: if_splits)
  qed
  then show "start < n" and "between cs start n = name \<or> between cs start n = backtick @ name @ backtick" by auto
qed

lemma split_last_reads:
  assumes "split_last sm = Some (own, d)"
  shows "\<exists>m start name. read_name_backwards (chars sm) m = Some (start, name) \<and> m < length (chars sm) \<and>
     (own = prefix_of (chars sm) start \<or> own = prefix_of (chars sm) (start - 1))"
proof -
  let ?cs = "chars sm"
  have "split_last [] = None" by (simp add: split_last_def)
  then have "sm \<noteq> []" using assms by auto
  then have n: "length ?cs - 1 < length ?cs" by simp
  define Q where "Q \<longleftrightarrow> (\<exists>m start name. read_name_backwards ?cs m = Some (start, name) \<and> m < length ?cs \<and>
      (own = prefix_of ?cs start \<or> own = prefix_of ?cs (start - 1)))"
  have read: "Q" if "read_name_backwards ?cs m = Some (start, name)" "m < length ?cs"
      "own = prefix_of ?cs start \<or> own = prefix_of ?cs (start - 1)" for m start name
    using that unfolding Q_def by blast
  have opn: "last_index_of ?cs c (length ?cs - 1) = Some i \<Longrightarrow> i < length ?cs" for c i
    using last_index_of_Some n by fastforce
  from assms have Q
    by (auto simp: split_last_def Let_def split: if_splits option.splits
        intro: read[OF _ n[simplified]] read[OF _ opn[simplified]])
  then show ?thesis unfolding Q_def .
qed

lemma split_last_prefix:
  assumes "split_last sm = Some (own, d)"
  obtains k where "k < length (chars sm)" and "own = prefix_of (chars sm) k"
proof -
  from split_last_reads[OF assms] obtain m start name where
    r: "read_name_backwards (chars sm) m = Some (start, name)" "m < length (chars sm)"
      "own = prefix_of (chars sm) start \<or> own = prefix_of (chars sm) (start - 1)" by blast
  then have "start < length (chars sm)" using read_name_backwards_Some(1)[OF r(1)] by simp
  then show thesis using r(3) that[of start] that[of "start - 1"] by auto
qed

lemma prefix_of_shorter:
  assumes "k < length (chars sm)"
  shows "length (prefix_of (chars sm) k) < length sm" and "prefix (prefix_of (chars sm) k) sm"
proof -
  have sm: "sm = prefix_of (chars sm) k @ concat (drop k (chars sm))"
    by (metis append_take_drop_id concat_append concat_chars prefix_of_def)
  have "chars sm ! k \<in> set (chars sm)" "drop k (chars sm) = chars sm ! k # drop (Suc k) (chars sm)"
    using assms by (simp_all add: Cons_nth_drop_Suc)
  then have "concat (drop k (chars sm)) \<noteq> []" using chars_nonempty by fastforce
  with sm show "length (prefix_of (chars sm) k) < length sm"
    by (metis length_append length_greater_0_conv less_add_same_cancel1)
  show "prefix (prefix_of (chars sm) k) sm" using sm by (metis prefixI)
qed

lemma split_last_shorter: "split_last sm = Some (own, d) \<Longrightarrow> length own < length sm \<and> prefix own sm"
  using split_last_prefix prefix_of_shorter by metis

section \<open>Enclosing symbols\<close>

text \<open>The loop of \<open>owner_chain\<close>: \<open>acc\<close> grows from the symbol outwards and is reversed at the end.\<close>
function owner_loop :: "str \<Rightarrow> str list \<Rightarrow> str list" where
  "owner_loop cur acc =
     (if cur = [] then acc
      else case split_last cur of
             Some (own, _) \<Rightarrow> owner_loop own (acc @ [cur])
           | None \<Rightarrow> acc @ [cur])"
  by pat_completeness auto
termination
  by (relation "measure (\<lambda>(cur, _). length cur)") (auto dest: split_last_shorter)

declare owner_loop.simps [simp del]

definition owner_chain :: "str \<Rightarrow> str list" where
  "owner_chain sm =
     (if sm = [] then [] else if sym_is_local sm then [sm] else rev (owner_loop sm []))"

definition enclosing :: "str \<Rightarrow> str list" where
  "enclosing sm = (let chain = owner_chain sm in take (length chain - 1) chain)"

text \<open>\<open>names.join(".")\<close>.\<close>
fun join_dot :: "str list \<Rightarrow> str" where
  "join_dot [] = []"
| "join_dot [s] = s"
| "join_dot (s # t # ss) = s @ lit ''.'' @ join_dot (t # ss)"

definition package_name :: "str \<Rightarrow> str option" where
  "package_name sm =
     (let names = filter (\<lambda>n. n \<noteq> lit ''_root_'' \<and> n \<noteq> lit ''_empty_'')
                    (List.map_filter display_name (takeWhile is_package (enclosing sm)))
      in if names = [] then None else Some (join_dot names))"

definition owner_name :: "str \<Rightarrow> str option" where
  "owner_name sm =
     (case find (\<lambda>s. \<not> is_package s) (rev (enclosing sm)) of None \<Rightarrow> None | Some s \<Rightarrow> display_name s)"

definition enclosing_top_level :: "str \<Rightarrow> str option" where
  "enclosing_top_level sm = find (\<lambda>s. \<not> is_package s \<and> \<not> sym_is_local s) (owner_chain sm)"

section \<open>Reading back an encoded descriptor\<close>

definition enc_descriptor :: "unicode \<Rightarrow> descriptor \<Rightarrow> str" where
  "enc_descriptor U d = (case d of
       DTerm n \<Rightarrow> encode_name U n @ lit ''.''
     | DMethod n dis \<Rightarrow> encode_name U n @ dis @ lit ''.''
     | DType n \<Rightarrow> encode_name U n @ lit ''#''
     | DPackage n \<Rightarrow> encode_name U n @ lit ''/''
     | DParameter n \<Rightarrow> lit ''('' @ encode_name U n @ lit '')''
     | DTypeParameter n \<Rightarrow> lit ''['' @ encode_name U n @ lit '']'')"

text \<open>Names are UTF-8 without backticks; a method disambiguator is parenthesised and has no inner parenthesis;
  an owner is empty or ends in a descriptor character.\<close>
definition name_ok :: "str \<Rightarrow> bool" where
  "name_ok n \<longleftrightarrow> utf8_valid n \<and> backtick \<notin> set (chars n)"

definition descriptor_ok :: "descriptor \<Rightarrow> bool" where
  "descriptor_ok d \<longleftrightarrow> name_ok (descriptor_name d) \<and>
     (case d of DMethod _ dis \<Rightarrow> \<exists>x. dis = lit ''('' @ x @ lit '')'' \<and> utf8_valid x \<and> ch CHR ''('' \<notin> set (chars x) | _ \<Rightarrow> True)"

definition owner_ok :: "str \<Rightarrow> bool" where
  "owner_ok own \<longleftrightarrow> utf8_valid own \<and> (own = [] \<or> is_name_boundary (last (chars own)))"

lemma backtick_valid: "utf8_valid backtick" "chars backtick = [backtick]" "rchar_ok backtick"
  by (simp_all add: backtick_def utf8_valid_ascii chars_ascii rchar_ok_ascii)

lemma chars_backtick: "chars (backtick @ s) = backtick # chars s"
  by (simp add: chars_Cons backtick_valid)

lemma boundary_not_id: "is_name_boundary c \<Longrightarrow> \<not> is_java_id_part U c"
  by (auto simp: is_name_boundary_def is_java_id_part_def is_java_id_start_def ch_def is_alphabetic_def is_numeric_def
      is_ascii_def ascii_upper_def ascii_lower_def ascii_digit_def)

lemma encode_name_cases:
  assumes "name_ok n"
  obtains "encode_name U n = n" and "n \<noteq> []" and "list_all (\<lambda>c. \<not> is_name_boundary c) (chars n)"
  | "encode_name U n = backtick @ n @ backtick"
proof (cases "chars n")
  case Nil
  then show thesis using that(2) by (simp add: encode_name_def)
next
  case (Cons h t)
  show thesis
  proof (cases "is_java_id_start U h \<and> list_all (is_java_id_part U) (chars n)")
    case True
    then have "list_all (\<lambda>c. \<not> is_name_boundary c) (chars n)"
      using boundary_not_id by (auto simp: list_all_iff)
    moreover have "n \<noteq> []" using Cons by auto
    ultimately show thesis using that(1) True Cons by (auto simp: encode_name_def)
  next
    case False
    then show thesis using that(2) Cons by (auto simp: encode_name_def)
  qed
qed

lemma encode_name_valid: "name_ok n \<Longrightarrow> utf8_valid (encode_name U n)"
  by (cases rule: encode_name_cases[of n U]) (auto simp: name_ok_def backtick_valid intro!: utf8_valid_append)

lemma name_start_at:
  assumes "os = [] \<or> is_name_boundary (last os)" and "list_all (\<lambda>c. \<not> is_name_boundary c) e" and "k \<le> length e"
  shows "name_start (os @ e @ rest) (length os + k) = length os"
  using assms(3)
proof (induction k)
  case 0
  show ?case
  proof (cases os rule: rev_cases)
    case (snoc xs x)
    then show ?thesis using assms(1) by (simp add: nth_append)
  qed simp
next
  case (Suc k)
  have "(os @ e @ rest) ! (length os + k) = e ! k" using Suc.prems by (simp add: nth_append)
  moreover have "\<not> is_name_boundary (e ! k)" using assms(2) Suc.prems by (simp add: list_all_length)
  ultimately show ?case using Suc by simp
qed

lemma last_index_of_at:
  assumes "cs ! i = t" and "i < n" and "\<And>j. i < j \<Longrightarrow> j < n \<Longrightarrow> cs ! j \<noteq> t"
  shows "last_index_of cs t n = Some i"
  using assms
proof (induction n)
  case (Suc n)
  then show ?case by (cases "i = n") auto
qed simp

lemma between_middle: "between (xs @ ys @ zs) (length xs) (length xs + length ys) = concat ys"
  by (simp add: between_def)

lemma read_name_backwards_enc:
  assumes "name_ok n" and "os = [] \<or> is_name_boundary (last os)"
  shows "read_name_backwards (os @ chars (encode_name U n) @ rest) (length os + length (chars (encode_name U n))) =
     Some (length os, n)"
  using assms(1)
proof (cases rule: encode_name_cases[where U = U])
  case 1
  then obtain k where len: "length (chars n) = Suc k" by (cases "chars n") auto
  let ?cs = "os @ chars n @ rest"
  have "?cs ! (length os + k) = chars n ! k" using len by (simp add: nth_append)
  then have "?cs ! (length os + k) \<in> set (chars n)" using len by simp
  then have "?cs ! (length os + k) \<noteq> backtick" using assms(1) by (auto simp: name_ok_def)
  moreover have "name_start ?cs (length os + length (chars n)) = length os"
    by (rule name_start_at[OF assms(2) 1(3)]) simp
  moreover have "between ?cs (length os) (length os + length (chars n)) = n"
    using between_middle[of os "chars n" rest] by simp
  ultimately show ?thesis using len 1(1) by (simp del: name_start.simps add: Let_def)
next
  case 2
  let ?cs = "os @ (backtick # chars n @ [backtick]) @ rest"
  have e: "chars (encode_name U n) = backtick # chars n @ [backtick]"
    using assms(1) by (simp add: 2 chars_backtick chars_append backtick_valid name_ok_def)
  have last: "?cs ! (length os + Suc (length (chars n))) = backtick" by (simp add: nth_append)
  have "?cs ! j \<noteq> backtick" if "length os < j" "j < length os + Suc (length (chars n))" for j
  proof -
    obtain k where j: "j = Suc (length os + k)" using \<open>length os < j\<close> less_iff_Suc_add by auto
    then have "?cs ! j = chars n ! k" "k < length (chars n)" using that by (simp_all add: nth_append)
    then show ?thesis using assms(1) by (metis name_ok_def nth_mem)
  qed
  then have idx: "last_index_of ?cs backtick (length os + Suc (length (chars n))) = Some (length os)"
    by (intro last_index_of_at) auto
  have "between ?cs (length os + 1) (length os + Suc (length (chars n))) = n"
    using between_middle[of "os @ [backtick]" "chars n" "[backtick] @ rest"] by simp
  then show ?thesis using e last idx by simp
qed

lemma encode_name_last:
  assumes "name_ok n"
  shows "chars (encode_name U n) \<noteq> []" and "last (chars (encode_name U n)) \<noteq> ch CHR '')''"
proof -
  have "is_name_boundary (ch CHR '')'')" by (simp add: is_name_boundary_def)
  moreover have "ch CHR '')'' \<noteq> backtick" by (simp add: ch_def backtick_def)
  moreover have "chars (backtick @ n @ backtick) = backtick # chars n @ [backtick]"
    using assms by (simp add: chars_backtick chars_append backtick_valid name_ok_def)
  ultimately have "chars (encode_name U n) \<noteq> [] \<and> last (chars (encode_name U n)) \<noteq> ch CHR '')''"
    using last_in_set[of "chars n"]
    by (cases rule: encode_name_cases[OF assms, of U]) (auto simp: list_all_iff, metis chars_eq_Nil last_in_set)
  then show "chars (encode_name U n) \<noteq> []" and "last (chars (encode_name U n)) \<noteq> ch CHR '')''" by auto
qed

text \<open>A symbol that ends in a boundary char is not local, so \<open>split_last\<close> looks at that char.\<close>
lemma split_last_at:
  assumes "chars sm = xs @ [c]" and "is_name_boundary c"
  shows "split_last sm =
     (let cs = xs @ [c]; n = length xs
      in if c = ch CHR ''/''
         then map_option (\<lambda>(start, name). (prefix_of cs start, DPackage name)) (read_name_backwards cs n)
         else if c = ch CHR ''#''
         then map_option (\<lambda>(start, name). (prefix_of cs start, DType name)) (read_name_backwards cs n)
         else if c = ch CHR ''.''
         then (if xs \<noteq> [] \<and> last xs = ch CHR '')''
               then (case last_index_of cs (ch CHR ''('') n of
                       None \<Rightarrow> None
                     | Some opn \<Rightarrow> map_option (\<lambda>(start, name). (prefix_of cs start, DMethod name (between cs opn n)))
                         (read_name_backwards cs opn))
               else map_option (\<lambda>(start, name). (prefix_of cs start, DTerm name)) (read_name_backwards cs n))
         else if c = ch CHR '')''
         then (case read_name_backwards cs n of None \<Rightarrow> None | Some (start, name) \<Rightarrow>
                 if 0 < start \<and> cs ! (start - 1) = ch CHR ''('' then Some (prefix_of cs (start - 1), DParameter name) else None)
         else if c = ch CHR '']''
         then (case read_name_backwards cs n of None \<Rightarrow> None | Some (start, name) \<Rightarrow>
                 if 0 < start \<and> cs ! (start - 1) = ch CHR ''['' then Some (prefix_of cs (start - 1), DTypeParameter name) else None)
         else None)"
proof -
  have "sm \<noteq> []" and "\<not> sym_is_local sm" using assms by (auto simp: sym_is_local_def)
  moreover have "(2 \<le> length (xs @ [c]) \<and> (xs @ [c]) ! (length (xs @ [c]) - 2) = t) = (xs \<noteq> [] \<and> last xs = t)" for t
    by (cases xs rule: rev_cases) (auto simp: nth_append)
  moreover have "(xs @ [c]) ! (length (xs @ [c]) - 1) = c" by simp
  moreover have "length (xs @ [c]) - 1 = length xs" by simp
  ultimately show ?thesis unfolding split_last_def assms(1) Let_def by (simp only: if_False simp_thms)
qed

lemma ch_distinct:
  "ch CHR ''#'' \<noteq> ch CHR ''/''" "ch CHR ''.'' \<noteq> ch CHR ''/''" "ch CHR ''.'' \<noteq> ch CHR ''#''"
  "ch CHR '')'' \<noteq> ch CHR ''/''" "ch CHR '')'' \<noteq> ch CHR ''#''" "ch CHR '')'' \<noteq> ch CHR ''.''"
  "ch CHR '']'' \<noteq> ch CHR ''/''" "ch CHR '']'' \<noteq> ch CHR ''#''" "ch CHR '']'' \<noteq> ch CHR ''.''" "ch CHR '']'' \<noteq> ch CHR '')''"
  by (simp_all add: ch_def)

lemma boundary_ch:
  "is_name_boundary (ch CHR ''/'')" "is_name_boundary (ch CHR ''.'')" "is_name_boundary (ch CHR ''#'')"
  "is_name_boundary (ch CHR ''('')" "is_name_boundary (ch CHR '')'')" "is_name_boundary (ch CHR ''['')" "is_name_boundary (ch CHR '']'')"
  by (simp_all add: is_name_boundary_def)

lemma chars_lit1:
  "chars (lit ''/'') = [ch CHR ''/'']" "chars (lit ''.'') = [ch CHR ''.'']" "chars (lit ''#'') = [ch CHR ''#'']"
  "chars (lit '')'') = [ch CHR '')'']" "chars (lit '']'') = [ch CHR '']'']"
  "chars (lit ''('' @ s) = ch CHR ''('' # chars s" "chars (lit ''['' @ s) = ch CHR ''['' # chars s"
  by (simp_all add: lit_def ch_def chars_ascii)

lemma prefix_of_append [simp]: "prefix_of (chars own @ xs) (length (chars own)) = own"
  by (simp add: prefix_of_def)

lemma split_last_simple:
  assumes "owner_ok own" and "name_ok n"
  shows "split_last (own @ encode_name U n @ lit ''/'') = Some (own, DPackage n)"
    and "split_last (own @ encode_name U n @ lit ''#'') = Some (own, DType n)"
    and "split_last (own @ encode_name U n @ lit ''.'') = Some (own, DTerm n)"
proof -
  let ?xs = "chars own @ chars (encode_name U n)"
  have cs: "chars (own @ encode_name U n @ lit ''/'') = ?xs @ [ch CHR ''/'']"
    "chars (own @ encode_name U n @ lit ''#'') = ?xs @ [ch CHR ''#'']"
    "chars (own @ encode_name U n @ lit ''.'') = ?xs @ [ch CHR ''.'']"
    using assms encode_name_valid[OF assms(2)] by (simp_all add: chars_append owner_ok_def chars_lit1)
  have read: "read_name_backwards (?xs @ rest) (length ?xs) = Some (length (chars own), n)" for rest
    using read_name_backwards_enc[of n "chars own" U rest] assms by (simp add: owner_ok_def)
  have own: "prefix_of (?xs @ rest) (length (chars own)) = own" for rest by (simp add: prefix_of_def)
  have "last ?xs \<noteq> ch CHR '')''" using encode_name_last[OF assms(2), of U] by simp
  then show "split_last (own @ encode_name U n @ lit ''/'') = Some (own, DPackage n)"
    "split_last (own @ encode_name U n @ lit ''#'') = Some (own, DType n)"
    "split_last (own @ encode_name U n @ lit ''.'') = Some (own, DTerm n)"
    by (simp_all only: split_last_at[OF cs(1) boundary_ch(1)] split_last_at[OF cs(2) boundary_ch(3)]
        split_last_at[OF cs(3) boundary_ch(2)] Let_def read option.map split own ch_distinct if_True if_False simp_thms)
qed

lemma split_last_parameter:
  assumes "owner_ok own" and "name_ok n"
  shows "split_last (own @ lit ''('' @ encode_name U n @ lit '')'') = Some (own, DParameter n)"
    and "split_last (own @ lit ''['' @ encode_name U n @ lit '']'') = Some (own, DTypeParameter n)"
proof -
  let ?xs = "\<lambda>b. (chars own @ [b]) @ chars (encode_name U n)"
  have cs: "chars (own @ lit ''('' @ encode_name U n @ lit '')'') = ?xs (ch CHR ''('') @ [ch CHR '')'']"
    "chars (own @ lit ''['' @ encode_name U n @ lit '']'') = ?xs (ch CHR ''['') @ [ch CHR '']'']"
    using assms encode_name_valid[OF assms(2)] by (simp_all add: chars_append owner_ok_def chars_lit1)
  have read: "read_name_backwards (?xs b @ rest) (length (?xs b)) = Some (Suc (length (chars own)), n)"
    if "is_name_boundary b" for b rest
    using read_name_backwards_enc[of n "chars own @ [b]" U rest] assms that by simp
  have own: "prefix_of (?xs b @ rest) (Suc (length (chars own)) - 1) = own" "(?xs b @ rest) ! (Suc (length (chars own)) - 1) = b"
    for b rest by (simp_all add: prefix_of_def nth_append)
  show "split_last (own @ lit ''('' @ encode_name U n @ lit '')'') = Some (own, DParameter n)"
    "split_last (own @ lit ''['' @ encode_name U n @ lit '']'') = Some (own, DTypeParameter n)"
    by (simp_all only: split_last_at[OF cs(1) boundary_ch(5)] split_last_at[OF cs(2) boundary_ch(7)] Let_def
        read[OF boundary_ch(4)] read[OF boundary_ch(6)] option.case split own ch_distinct if_True if_False simp_thms zero_less_Suc)
qed

lemma split_last_method:
  assumes "owner_ok own" and "name_ok n" and "utf8_valid x" and "ch CHR ''('' \<notin> set (chars x)"
  shows "split_last (own @ encode_name U n @ (lit ''('' @ x @ lit '')'') @ lit ''.'') = Some (own, DMethod n (lit ''('' @ x @ lit '')''))"
proof -
  let ?o = "chars own @ chars (encode_name U n)"
  let ?d = "ch CHR ''('' # chars x @ [ch CHR '')'']"
  let ?cs = "(?o @ ?d) @ [ch CHR ''.'']"
  have "utf8_valid (lit '')'')" by (simp add: lit_def utf8_valid_ascii)
  then have "chars (x @ lit '')'' @ lit ''.'') = chars x @ [ch CHR '')'', ch CHR ''.'']"
    using assms(3) by (simp add: chars_append chars_lit1)
  then have cs: "chars (own @ encode_name U n @ (lit ''('' @ x @ lit '')'') @ lit ''.'') = ?cs"
    using assms encode_name_valid[OF assms(2)] by (simp add: chars_append owner_ok_def chars_lit1)
  have "?cs ! j \<noteq> ch CHR ''(''" if "length ?o < j" "j < length (?o @ ?d)" for j
  proof -
    obtain k where j: "j = Suc (length ?o + k)" using \<open>length ?o < j\<close> less_iff_Suc_add by auto
    then have "k < length (chars x @ [ch CHR '')''])" and "?cs ! j = (chars x @ [ch CHR '')'']) ! k"
      using that by (simp_all add: nth_append)
    then have "?cs ! j \<in> set (chars x @ [ch CHR '')''])" using nth_mem by metis
    then show ?thesis using assms(4) by (auto simp: ch_def)
  qed
  then have idx: "last_index_of ?cs (ch CHR ''('') (length (?o @ ?d)) = Some (length ?o)"
    by (intro last_index_of_at) (auto simp: nth_append)
  have dis: "between ?cs (length ?o) (length (?o @ ?d)) = lit ''('' @ x @ lit '')''"
    by (simp add: between_def lit_def ch_def)
  have name: "read_name_backwards ?cs (length ?o) = Some (length (chars own), n)"
    using read_name_backwards_enc[of n "chars own" U "?d @ [ch CHR ''.'']"] assms by (simp add: owner_ok_def)
  have own: "prefix_of ?cs (length (chars own)) = own" by (simp add: prefix_of_def)
  have paren: "?o @ ?d \<noteq> []" "last (?o @ ?d) = ch CHR '')''" by simp_all
  show ?thesis
    by (simp only: split_last_at[OF cs boundary_ch(2)] Let_def idx dis name own paren option.case option.map split
        ch_distinct if_True if_False simp_thms)
qed

text \<open>
  C24: The backward parser of the symbol grammar inverts the printer: for every owner and every
  descriptor (term, method with disambiguator, type, package, parameter, type parameter) whose name needs
  backticks or not, splitting the owner followed by the encoded descriptor gives back exactly that owner and
  that descriptor; and the owner is always a strictly shorter prefix, so following owners outwards ends.
\<close>
theorem split_last_round_trip:
  assumes "owner_ok own" and "descriptor_ok d"
  shows "split_last (own @ enc_descriptor U d) = Some (own, d) \<and> length own < length (own @ enc_descriptor U d)"
proof -
  have "split_last (own @ enc_descriptor U d) = Some (own, d)"
    using assms split_last_simple[OF assms(1)] split_last_parameter[OF assms(1)] split_last_method[OF assms(1)]
    by (cases d) (auto simp: enc_descriptor_def descriptor_ok_def)
  then show ?thesis using split_last_shorter by blast
qed

theorem split_last_round_trip_witness:
  "split_last (lit ''a/B#'' @ enc_descriptor ascii_unicode (DMethod (lit ''x_='') (lit ''(+1)''))) =
     Some (lit ''a/B#'', DMethod (lit ''x_='') (lit ''(+1)''))"
proof -
  have "chars (lit ''a/B#'') = [[97], [47], [66], [35]]" "chars (lit ''x_='') = [[120], [95], [61]]" "chars (lit ''+1'') = [[43], [49]]"
    by (simp_all add: lit_def chars_ascii)
  moreover have "utf8_valid (lit ''a/B#'')" "utf8_valid (lit ''x_='')" "utf8_valid (lit ''+1'')"
    by (simp_all add: lit_def utf8_valid_ascii)
  ultimately have "owner_ok (lit ''a/B#'')" "descriptor_ok (DMethod (lit ''x_='') (lit ''(+1)''))"
    by (auto simp: owner_ok_def descriptor_ok_def name_ok_def is_name_boundary_def ch_def backtick_def
        intro!: exI[of _ "lit ''+1''"] simp: lit_def)
  then show ?thesis using split_last_round_trip by blast
qed

text \<open>The companion of a class symbol is its object symbol and conversely.\<close>
lemma companion_pair:
  assumes "owner_ok own" and "name_ok n"
  shows "companion U (own @ encode_name U n @ lit ''#'') = Some (own @ encode_name U n @ lit ''.'')"
    and "companion U (own @ encode_name U n @ lit ''.'') = Some (own @ encode_name U n @ lit ''#'')"
  using split_last_simple[OF assms, of U] by (simp_all add: companion_def)

end
