(* ===== verification/Sdb_Normalize.thy ===== *)
theory Sdb_Normalize
  imports Sdb_Parser Sdb_Symbols
begin

text \<open>
  Lowering a decoded document to the shared model: \<open>crates/ls-semanticdb/src/normalize.rs\<close>, with the
  carriers of \<open>crates/ls-index-model/src/semantics.rs\<close> and the codes of \<open>model.rs\<close>.
\<close>

record symbol_info =
  sy_key :: symbol_key
  sy_display_name :: str
  sy_owner_name :: "str option"
  sy_package_name :: "str option"
  sy_kind :: sym_kind
  sy_properties :: u32
  sy_overridden_symbols :: "str list"

record occurrence =
  oc_key :: symbol_key
  oc_span :: span
  oc_role :: role
  oc_synthetic :: bool

definition new_occurrence :: "symbol_key \<Rightarrow> span \<Rightarrow> role \<Rightarrow> occurrence" where
  "new_occurrence key sp r = \<lparr>oc_key = key, oc_span = sp, oc_role = r, oc_synthetic = False\<rparr>"

record normalized_document =
  nd_uri :: str
  nd_md5 :: str
  nd_schema_version :: i32
  nd_language :: str
  nd_symbols :: "symbol_info list"
  nd_occurrences :: "occurrence list"

definition language_name :: "i32 \<Rightarrow> str" where
  "language_name c =
     (if c = 1 then lit ''scala'' else if c = 2 then lit ''java'' else if c = 3 then lit ''protobuf'' else lit ''unknown'')"

definition role_of :: "i32 \<Rightarrow> role option" where
  "role_of c = (if c = 1 then Some Reference else if c = 2 then Some Definition else None)"

definition key_of :: "str \<Rightarrow> u64 \<Rightarrow> symbol_key" where
  "key_of sm doc_id = (if sym_is_local sm then symbol_key_local sm doc_id else symbol_key_global sm)"

definition normalize_symbol :: "u64 \<Rightarrow> sdb_symbol_info \<Rightarrow> symbol_info" where
  "normalize_symbol doc_id s =
     \<lparr>sy_key = key_of (si_symbol s) doc_id,
      sy_display_name =
        (if si_display_name s \<noteq> [] then si_display_name s
         else case display_name (si_symbol s) of Some n \<Rightarrow> n | None \<Rightarrow> si_symbol s),
      sy_owner_name = owner_name (si_symbol s), sy_package_name = package_name (si_symbol s),
      sy_kind = from_code (si_kind_code s), sy_properties = si_properties s,
      sy_overridden_symbols = si_overridden_symbols s\<rparr>"

definition normalize_occurrence :: "u64 \<Rightarrow> sdb_occurrence \<Rightarrow> occurrence option" where
  "normalize_occurrence doc_id oc =
     (case (so_range oc, role_of (so_role_code oc)) of
        (Some r, Some role) \<Rightarrow>
          if so_symbol oc \<noteq> []
          then Some (new_occurrence (key_of (so_symbol oc) doc_id)
                 (new_span (sr_start_line r) (sr_start_character r) (sr_end_line r) (sr_end_character r)) role)
          else None
      | _ \<Rightarrow> None)"

definition normalize_document :: "sdb_document \<Rightarrow> u64 \<Rightarrow> normalized_document" where
  "normalize_document d doc_id =
     \<lparr>nd_uri = sdoc_uri d, nd_md5 = sdoc_md5 d, nd_schema_version = sdoc_schema d,
      nd_language = language_name (sdoc_language_code d),
      nd_symbols = map (normalize_symbol doc_id) (sdoc_symbols d),
      nd_occurrences = List.map_filter (normalize_occurrence doc_id) (sdoc_occurrences d)\<rparr>"

definition document_keys :: "normalized_document \<Rightarrow> symbol_key list" where
  "document_keys d = map sy_key (nd_symbols d) @ map oc_key (nd_occurrences d)"

lemma key_of_local: "key_is_local (key_of sm i) \<longleftrightarrow> sym_is_local sm"
  by (simp add: key_of_def key_is_local_def symbol_key_local_def symbol_key_global_def)

lemma normalized_keys: "k \<in> set (document_keys (normalize_document d i)) \<Longrightarrow> \<exists>sm. k = key_of sm i"
  by (auto simp: document_keys_def normalize_document_def normalize_symbol_def normalize_occurrence_def new_occurrence_def
      List.map_filter_def split: option.splits if_splits)

text \<open>Local keys of documents with different ids never meet.\<close>
lemma local_keys_disjoint:
  "k \<in> set (document_keys (normalize_document d i)) \<Longrightarrow> k \<in> set (document_keys (normalize_document d' j)) \<Longrightarrow>
     key_is_local k \<Longrightarrow> i = j"
  by (auto dest!: normalized_keys simp: key_of_def key_is_local_def symbol_key_local_def symbol_key_global_def split: if_splits)

end
