(* ===== verification/Union_Find.thy ===== *)
theory Union_Find
  imports Prelude "HOL-Library.While_Combinator"
begin

text \<open>
  The union-find of \<open>crates/ls-semanticdb/src/groups.rs\<close> (lines 266-315): path compression and union by
  rank on two vectors. The loops of \<open>find\<close> are \<open>while_option\<close>; a loop that would not return and an index
  out of range are both \<open>Panic\<close>, and the lemmas show that neither happens on a forest whose ranks grow
  along the parent edges, which every operation preserves. Ranks are natural numbers: a rank grows by one
  only when two trees merge, so it stays below the number of keys.
\<close>

section \<open>The operations\<close>

record union_find =
  uf_parent :: "nat list"
  uf_rank :: "nat list"

definition uf_new :: "nat \<Rightarrow> union_find" where
  "uf_new n = \<lparr>uf_parent = [0..<n], uf_rank = replicate n 0\<rparr>"

definition root_loop :: "nat list \<Rightarrow> nat \<Rightarrow> nat option" where
  "root_loop p i = while_option (\<lambda>root. root < length p \<and> p ! root \<noteq> root) (\<lambda>root. p ! root) i"

definition compress_loop :: "nat \<Rightarrow> nat list \<Rightarrow> nat \<Rightarrow> (nat list \<times> nat) option" where
  "compress_loop root p i =
     while_option (\<lambda>(p, cur). cur < length p \<and> p ! cur \<noteq> root) (\<lambda>(p, cur). (p[cur := root], p ! cur)) (p, i)"

definition uf_find :: "nat \<Rightarrow> union_find \<Rightarrow> (nat \<times> union_find, 'e) outcome" where
  "uf_find i uf =
     and_then (unwrap (root_loop (uf_parent uf) i)) (\<lambda>root.
       if length (uf_parent uf) \<le> root then Panic
       else and_then (unwrap (compress_loop root (uf_parent uf) i)) (\<lambda>(p, cur).
         if length p \<le> cur then Panic else Ok (root, uf\<lparr>uf_parent := p\<rparr>)))"

definition uf_union :: "nat \<Rightarrow> nat \<Rightarrow> union_find \<Rightarrow> (union_find, 'e) outcome" where
  "uf_union a b uf =
     and_then (uf_find a uf) (\<lambda>(ra, uf1).
     and_then (uf_find b uf1) (\<lambda>(rb, uf2).
       if ra = rb then Ok uf2
       else and_then (index_o (uf_rank uf2) ra) (\<lambda>ka.
            and_then (index_o (uf_rank uf2) rb) (\<lambda>kb.
              if ka < kb then Ok (uf2\<lparr>uf_parent := (uf_parent uf2)[ra := rb]\<rparr>)
              else if kb < ka then Ok (uf2\<lparr>uf_parent := (uf_parent uf2)[rb := ra]\<rparr>)
              else Ok (uf2\<lparr>uf_parent := (uf_parent uf2)[rb := ra], uf_rank := (uf_rank uf2)[ra := ka + 1]\<rparr>)))))"

section \<open>Forests\<close>

definition uf_ok :: "union_find \<Rightarrow> bool" where
  "uf_ok uf \<longleftrightarrow> length (uf_rank uf) = length (uf_parent uf) \<and>
     (\<forall>i < length (uf_parent uf). uf_parent uf ! i < length (uf_parent uf) \<and>
        (uf_parent uf ! i \<noteq> i \<longrightarrow> uf_rank uf ! i < uf_rank uf ! (uf_parent uf ! i)))"

definition uf_size :: "union_find \<Rightarrow> nat" where
  "uf_size uf = length (uf_parent uf)"

text \<open>The representative of an element: where the parent edges lead.\<close>
definition rep :: "union_find \<Rightarrow> nat \<Rightarrow> nat" where
  "rep uf i = the (root_loop (uf_parent uf) i)"

definition same :: "union_find \<Rightarrow> nat \<Rightarrow> nat \<Rightarrow> bool" where
  "same uf i j \<longleftrightarrow> rep uf i = rep uf j"

lemma uf_ok_new: "uf_ok (uf_new n)"
  by (simp add: uf_ok_def uf_new_def)

lemma rank_bound: "i < length rs \<Longrightarrow> rs ! i \<le> sum_list rs" for rs :: "nat list"
  by (simp add: elem_le_sum_list)

lemma while_option_total:
  fixes f :: "'s \<Rightarrow> nat"
  assumes step: "\<And>s. P s \<Longrightarrow> b s \<Longrightarrow> P (c s) \<and> f (c s) < f s" and "P s"
  shows "\<exists>t. while_option b c s = Some t \<and> P t \<and> \<not> b t"
proof -
  obtain t where t: "while_option b c s = Some t"
    using measure_while_option_Some[of P b c f, OF step assms(2)] by blast
  moreover have "P t" using while_option_rule[of P b c, OF _ t assms(2)] step by blast
  ultimately show ?thesis using while_option_stop[OF t] by blast
qed

lemma root_loop_Some:
  assumes "uf_ok uf" and "i < uf_size uf"
  shows "\<exists>r. root_loop (uf_parent uf) i = Some r \<and> r < uf_size uf \<and> uf_parent uf ! r = r"
proof -
  let ?p = "uf_parent uf" and ?R = "uf_rank uf"
  have "\<exists>t. root_loop ?p i = Some t \<and> t < length ?p \<and> \<not> (t < length ?p \<and> ?p ! t \<noteq> t)"
    unfolding root_loop_def
  proof (rule while_option_total[where f = "\<lambda>r. sum_list ?R - ?R ! r"])
    fix s assume "s < length ?p" and "s < length ?p \<and> ?p ! s \<noteq> s"
    then have "?p ! s < length ?p" "?R ! s < ?R ! (?p ! s)" "length ?R = length ?p"
      using assms(1) by (auto simp: uf_ok_def)
    then show "?p ! s < length ?p \<and> sum_list ?R - ?R ! (?p ! s) < sum_list ?R - ?R ! s"
      using rank_bound[of "?p ! s" ?R] by simp
  qed (use assms(2) in \<open>simp add: uf_size_def\<close>)
  then show ?thesis by (auto simp: uf_size_def)
qed

lemma root_loop_unfold: "i < length p \<Longrightarrow> root_loop p i = (if p ! i = i then Some i else root_loop p (p ! i))"
  unfolding root_loop_def by (subst while_option_unfold) simp

lemma rep_facts:
  assumes "uf_ok uf" and "i < uf_size uf"
  shows "root_loop (uf_parent uf) i = Some (rep uf i)" and "rep uf i < uf_size uf"
    and "uf_parent uf ! rep uf i = rep uf i" and "rep uf (uf_parent uf ! i) = rep uf i"
  using root_loop_Some[OF assms] root_loop_unfold[of i "uf_parent uf"] assms(2) by (auto simp: rep_def uf_size_def)

lemma rep_root: "uf_ok uf \<Longrightarrow> r < uf_size uf \<Longrightarrow> uf_parent uf ! r = r \<Longrightarrow> rep uf r = r"
  using root_loop_unfold[of r "uf_parent uf"] by (simp add: rep_def uf_size_def)

text \<open>Induction along the parent edges: ranks grow, so they lead to a root.\<close>
lemma forest_induct [consumes 2, case_names root edge]:
  assumes "uf_ok uf" and "i < uf_size uf"
    and root: "\<And>r. r < uf_size uf \<Longrightarrow> uf_parent uf ! r = r \<Longrightarrow> P r"
    and edge: "\<And>j. j < uf_size uf \<Longrightarrow> uf_parent uf ! j \<noteq> j \<Longrightarrow> P (uf_parent uf ! j) \<Longrightarrow> P j"
  shows "P i"
  using assms(2)
proof (induction "sum_list (uf_rank uf) - uf_rank uf ! i" arbitrary: i rule: less_induct)
  case less
  show ?case
  proof (cases "uf_parent uf ! i = i")
    case False
    then have "uf_parent uf ! i < uf_size uf" "uf_rank uf ! i < uf_rank uf ! (uf_parent uf ! i)"
      "uf_rank uf ! (uf_parent uf ! i) \<le> sum_list (uf_rank uf)"
      using assms(1) less.prems rank_bound[of "uf_parent uf ! i" "uf_rank uf"] by (auto simp: uf_ok_def uf_size_def)
    then have "P (uf_parent uf ! i)" by (intro less.hyps) auto
    then show ?thesis using edge less.prems False by blast
  qed (use root less.prems in blast)
qed

lemma rank_edge: "uf_ok uf \<Longrightarrow> i < uf_size uf \<Longrightarrow> uf_parent uf ! i \<noteq> i \<Longrightarrow> uf_rank uf ! i < uf_rank uf ! (uf_parent uf ! i)"
  by (simp add: uf_ok_def uf_size_def)

lemma rank_less_rep:
  assumes "uf_ok uf" and "i < uf_size uf"
  shows "i \<noteq> rep uf i \<Longrightarrow> uf_rank uf ! i < uf_rank uf ! rep uf i"
  using assms
proof (induction i rule: forest_induct)
  case (edge j)
  then show ?case using rank_edge[OF assms(1) edge(1,2)] rep_facts(4)[OF assms(1) edge(1)] by fastforce
qed (simp add: rep_root[OF assms(1)])

section \<open>Find\<close>

text \<open>Redirecting an edge to the representative keeps the forest and every representative.\<close>
lemma redirect:
  assumes ok: "uf_ok uf" and i: "i < uf_size uf" and r: "rep uf i = r" "i \<noteq> r"
  defines "uf' \<equiv> uf\<lparr>uf_parent := (uf_parent uf)[i := r]\<rparr>"
  shows "uf_ok uf'" and "uf_size uf' = uf_size uf" and "j < uf_size uf \<Longrightarrow> rep uf' j = rep uf j"
proof -
  have rn: "r < uf_size uf" "uf_parent uf ! r = r" using rep_facts[OF ok i] r by auto
  show size: "uf_size uf' = uf_size uf" by (simp add: uf'_def uf_size_def)
  show ok': "uf_ok uf'"
    using ok rn rank_less_rep[OF ok i] r i
    by (auto simp: uf_ok_def uf'_def uf_size_def nth_list_update)
  show "rep uf' j = rep uf j" if "j < uf_size uf"
    using ok that
  proof (induction j rule: forest_induct)
    case (root q)
    have "q \<noteq> i" using r rep_root[OF ok root] by auto
    then have "uf_parent uf' ! q = q" using root r by (auto simp: uf'_def uf_size_def nth_list_update)
    then show ?case using rep_root[OF ok' _ \<open>uf_parent uf' ! q = q\<close>] rep_root[OF ok root] root(1) size by simp
  next
    case (edge j)
    show ?case
    proof (cases "j = i")
      case True
      then have "uf_parent uf' ! j = r" using i by (simp add: uf'_def uf_size_def)
      moreover have "uf_parent uf' ! r = r" using rn r by (simp add: uf'_def uf_size_def)
      ultimately show ?thesis
        using rep_facts(4)[OF ok', of j] rep_root[OF ok', of r] edge(1) rn(1) size r(1) True by simp
    next
      case False
      then have "uf_parent uf' ! j = uf_parent uf ! j" by (simp add: uf'_def)
      then show ?thesis
        using rep_facts(4)[OF ok', of j] rep_facts(4)[OF ok, of j] edge size by simp
    qed
  qed
qed

lemma uf_find_ok:
  assumes ok: "uf_ok uf" and i: "i < uf_size uf"
  obtains uf' where "uf_find i uf = (Ok (rep uf i, uf') :: (nat \<times> union_find, 'e) outcome)" and "uf_ok uf'" and "uf_size uf' = uf_size uf"
    and "uf_rank uf' = uf_rank uf" and "\<And>j. j < uf_size uf \<Longrightarrow> rep uf' j = rep uf j"
proof -
  let ?r = "rep uf i"
  let ?inv = "\<lambda>(p, cur). uf_ok (uf\<lparr>uf_parent := p\<rparr>) \<and> length p = uf_size uf \<and> cur < uf_size uf \<and> rep uf cur = ?r \<and>
      (\<forall>j < uf_size uf. rep (uf\<lparr>uf_parent := p\<rparr>) j = rep uf j)"
  have "\<exists>t. compress_loop ?r (uf_parent uf) i = Some t \<and> ?inv t \<and> \<not> (case t of (p, cur) \<Rightarrow> cur < length p \<and> p ! cur \<noteq> ?r)"
    unfolding compress_loop_def
  proof (rule while_option_total[where f = "\<lambda>(p, cur). sum_list (uf_rank uf) - uf_rank uf ! cur"])
    show "?inv (uf_parent uf, i)" using ok i by (simp add: uf_size_def)
  next
    fix s assume inv: "?inv s" and "case s of (p, cur) \<Rightarrow> cur < length p \<and> p ! cur \<noteq> ?r"
    then obtain p cur where s: "s = (p, cur)" and cur: "cur < length p" "p ! cur \<noteq> ?r" by (cases s) auto
    let ?u = "uf\<lparr>uf_parent := p\<rparr>"
    have u: "uf_ok ?u" "uf_size ?u = uf_size uf" "cur < uf_size ?u" "rep ?u cur = ?r"
      using inv s by (auto simp: uf_size_def)
    have ne: "p ! cur \<noteq> cur" "cur \<noteq> ?r" using cur(2) u rep_root[OF u(1)] rep_facts(3)[OF u(1,3)] by auto
    have "uf_rank uf ! cur < uf_rank uf ! (p ! cur)" "p ! cur < uf_size uf"
      using u ne(1) by (auto simp: uf_ok_def uf_size_def)
    moreover have "uf_rank uf ! (p ! cur) \<le> sum_list (uf_rank uf)"
      using calculation(2) u(1,2) by (intro rank_bound) (simp add: uf_ok_def uf_size_def)
    moreover have "rep ?u (p ! cur) = ?r" using rep_facts(4)[OF u(1,3)] u(4) by simp
    moreover have "uf_ok (uf\<lparr>uf_parent := p[cur := ?r]\<rparr>)"
      "\<forall>j < uf_size uf. rep (uf\<lparr>uf_parent := p[cur := ?r]\<rparr>) j = rep uf j"
      using redirect[OF u(1,3,4) ne(2)] inv s u(2) by auto
    ultimately show "?inv (case s of (p, cur) \<Rightarrow> (p[cur := ?r], p ! cur)) \<and>
        (case (case s of (p, cur) \<Rightarrow> (p[cur := ?r], p ! cur)) of (p, cur) \<Rightarrow> sum_list (uf_rank uf) - uf_rank uf ! cur)
        < (case s of (p, cur) \<Rightarrow> sum_list (uf_rank uf) - uf_rank uf ! cur)"
      using inv s by auto
  qed
  then obtain p cur where loop: "compress_loop ?r (uf_parent uf) i = Some (p, cur)" and inv: "?inv (p, cur)" by fastforce
  have "uf_find i uf = (Ok (?r, uf\<lparr>uf_parent := p\<rparr>) :: (nat \<times> union_find, 'e) outcome)"
    using rep_facts[OF ok i] loop inv by (auto simp: uf_find_def uf_size_def)
  moreover have "uf_ok (uf\<lparr>uf_parent := p\<rparr>)" "uf_size (uf\<lparr>uf_parent := p\<rparr>) = uf_size uf"
    "\<And>j. j < uf_size uf \<Longrightarrow> rep (uf\<lparr>uf_parent := p\<rparr>) j = rep uf j"
    using inv by (auto simp: uf_size_def)
  ultimately show thesis using that by simp
qed

section \<open>Union\<close>

text \<open>Linking two roots: \<open>lo\<close> becomes a child of \<open>hi\<close>, whose rank ends above that of \<open>lo\<close>.\<close>
lemma link_roots:
  assumes ok: "uf_ok uf" and lo: "lo < uf_size uf" "uf_parent uf ! lo = lo" and hi: "hi < uf_size uf" "uf_parent uf ! hi = hi"
    and ne: "lo \<noteq> hi" and rank: "uf_rank uf ! lo < k" "uf_rank uf ! hi \<le> k"
  defines "uf' \<equiv> uf\<lparr>uf_parent := (uf_parent uf)[lo := hi], uf_rank := (uf_rank uf)[hi := k]\<rparr>"
  shows "uf_ok uf'" and "uf_size uf' = uf_size uf"
    and "j < uf_size uf \<Longrightarrow> rep uf' j = (if rep uf j = lo then hi else rep uf j)"
proof -
  have len: "length (uf_rank uf) = uf_size uf" using ok by (simp add: uf_ok_def uf_size_def)
  show size: "uf_size uf' = uf_size uf" by (simp add: uf'_def uf_size_def)
  have edge: "uf_parent uf' ! j < uf_size uf \<and> (uf_parent uf' ! j \<noteq> j \<longrightarrow> uf_rank uf' ! j < uf_rank uf' ! (uf_parent uf' ! j))"
    if j: "j < uf_size uf" for j
  proof (cases "j = lo")
    case True
    then show ?thesis using lo hi ne rank len by (simp add: uf'_def uf_size_def)
  next
    case False
    then have pj: "uf_parent uf' ! j = uf_parent uf ! j" by (simp add: uf'_def)
    have range: "uf_parent uf ! j < uf_size uf" using ok j by (simp add: uf_ok_def uf_size_def)
    have "uf_rank uf' ! j < uf_rank uf' ! (uf_parent uf ! j)" if "uf_parent uf ! j \<noteq> j"
    proof -
      have "j \<noteq> hi" using that hi by auto
      then show ?thesis
        using rank_edge[OF ok j that] rank hi len range by (auto simp: uf'_def nth_list_update)
    qed
    then show ?thesis using pj range by simp
  qed
  show ok': "uf_ok uf'"
    using edge len size unfolding uf_ok_def by (simp add: uf_size_def) (simp add: uf'_def)
  have hi': "rep uf' hi = hi"
    using rep_root[OF ok', of hi] hi size ne by (simp add: uf'_def uf_size_def)
  show "rep uf' j = (if rep uf j = lo then hi else rep uf j)" if "j < uf_size uf"
    using ok that
  proof (induction j rule: forest_induct)
    case (root q)
    show ?case
    proof (cases "q = lo")
      case True
      then have "uf_parent uf' ! q = hi" using lo by (simp add: uf'_def uf_size_def)
      then show ?thesis using rep_facts(4)[OF ok', of q] root size hi' True rep_root[OF ok root] by simp
    next
      case False
      then have "uf_parent uf' ! q = q" using root by (simp add: uf'_def)
      then show ?thesis using rep_root[OF ok', of q] root size rep_root[OF ok root] False by simp
    qed
  next
    case (edge j)
    have "j \<noteq> lo" using edge(2) lo by auto
    then have "uf_parent uf' ! j = uf_parent uf ! j" by (simp add: uf'_def)
    then show ?case
      using rep_facts(4)[OF ok', of j] rep_facts(4)[OF ok, of j] edge size by (simp split: if_splits)
  qed
qed

lemma uf_union_ok:
  assumes ok: "uf_ok uf" and a: "a < uf_size uf" and b: "b < uf_size uf"
  obtains uf' where "uf_union a b uf = (Ok uf' :: (union_find, 'e) outcome)" and "uf_ok uf'" and "uf_size uf' = uf_size uf"
    and "\<And>i j. i < uf_size uf \<Longrightarrow> j < uf_size uf \<Longrightarrow>
       same uf' i j \<longleftrightarrow> same uf i j \<or> (same uf i a \<and> same uf b j) \<or> (same uf i b \<and> same uf a j)"
proof -
  obtain u1 where u1: "uf_find a uf = (Ok (rep uf a, u1) :: (nat \<times> union_find, 'e) outcome)" "uf_ok u1" "uf_size u1 = uf_size uf"
    "uf_rank u1 = uf_rank uf" "\<And>j. j < uf_size uf \<Longrightarrow> rep u1 j = rep uf j" using uf_find_ok[OF ok a] by blast
  obtain u2 where u2: "uf_find b u1 = (Ok (rep u1 b, u2) :: (nat \<times> union_find, 'e) outcome)" "uf_ok u2" "uf_size u2 = uf_size u1"
    "\<And>j. j < uf_size u1 \<Longrightarrow> rep u2 j = rep u1 j" using uf_find_ok[OF u1(2), of b] b u1(3) by (metis (no_types))
  let ?ra = "rep uf a" and ?rb = "rep uf b"
  have rep2: "rep u2 j = rep uf j" if "j < uf_size uf" for j using u1 u2 that by simp
  have rb: "rep u1 b = ?rb" using u1(5) b by simp
  have roots: "?ra < uf_size u2" "uf_parent u2 ! ?ra = ?ra" "?rb < uf_size u2" "uf_parent u2 ! ?rb = ?rb"
    using rep_facts[OF u2(2), of a] rep_facts[OF u2(2), of b] a b u1(3) u2(3) rep2 by auto
  have len: "length (uf_rank u2) = uf_size u2" using u2(2) by (simp add: uf_ok_def uf_size_def)
  let ?ka = "uf_rank u2 ! ?ra" and ?kb = "uf_rank u2 ! ?rb"
  let ?ab = "u2\<lparr>uf_parent := (uf_parent u2)[?ra := ?rb]\<rparr>" and ?ba = "u2\<lparr>uf_parent := (uf_parent u2)[?rb := ?ra]\<rparr>"
  let ?eq = "?ba\<lparr>uf_rank := (uf_rank u2)[?ra := ?ka + 1]\<rparr>"
  let ?uf' = "if ?ra = ?rb then u2 else if ?ka < ?kb then ?ab else if ?kb < ?ka then ?ba else ?eq"
  have res: "uf_union a b uf = (Ok ?uf' :: (union_find, 'e) outcome)"
    using u1(1) u2(1) rb roots len by (auto simp: uf_union_def index_o_def)
  have up: "u2\<lparr>uf_parent := (uf_parent u2)[l := h], uf_rank := (uf_rank u2)[h := uf_rank u2 ! h]\<rparr> = u2\<lparr>uf_parent := (uf_parent u2)[l := h]\<rparr>" for l h
    by simp
  define hi lo where "hi = (if ?ka < ?kb then ?rb else ?ra)" and "lo = (if ?ka < ?kb then ?ra else ?rb)"
  have linked: "uf_ok ?uf' \<and> uf_size ?uf' = uf_size u2 \<and> (\<forall>j < uf_size u2. rep ?uf' j = (if rep u2 j = lo then hi else rep u2 j))"
    if "?ra \<noteq> ?rb"
    using that link_roots[OF u2(2) roots(1-4) that, of ?kb] link_roots[OF u2(2) roots(3,4,1,2) that[symmetric], of ?ka]
      link_roots[OF u2(2) roots(3,4,1,2) that[symmetric], of "?ka + 1"] up[of ?ra ?rb] up[of ?rb ?ra]
    by (auto simp: hi_def lo_def)
  have "uf_ok ?uf'" "uf_size ?uf' = uf_size uf" using linked u1(3) u2(2,3) by (cases "?ra = ?rb"; simp)+
  moreover have "same ?uf' i j \<longleftrightarrow> same uf i j \<or> (same uf i a \<and> same uf b j) \<or> (same uf i b \<and> same uf a j)"
    if "i < uf_size uf" "j < uf_size uf" for i j
  proof (cases "?ra = ?rb")
    case True
    then show ?thesis using rep2 that by (auto simp: same_def)
  next
    case False
    then have "rep ?uf' k = (if rep uf k = lo then hi else rep uf k)" if "k < uf_size uf" for k
      using linked that rep2 u1(3) u2(3) by simp
    then show ?thesis using that False by (auto simp: same_def hi_def lo_def)
  qed
  ultimately show thesis using that res by blast
qed

section \<open>What the grouping relies on\<close>

text \<open>Two elements are linked when a path of listed pairs, in either direction, joins them.\<close>
definition linked :: "(nat \<times> nat) set \<Rightarrow> nat \<Rightarrow> nat \<Rightarrow> bool" where
  "linked E i j \<longleftrightarrow> (i, j) \<in> (E \<union> E\<inverse>)\<^sup>*"

lemma linked_sym: "linked E i j \<Longrightarrow> linked E j i"
  unfolding linked_def by (rule symD[OF sym_rtrancl]) (auto simp: sym_def)

lemma linked_trans: "linked E i j \<Longrightarrow> linked E j k \<Longrightarrow> linked E i k"
  unfolding linked_def by (rule rtrancl_trans)

lemma linked_insert:
  "linked (insert (a, b) E) i j \<longleftrightarrow> linked E i j \<or> (linked E i a \<and> linked E b j) \<or> (linked E i b \<and> linked E a j)"
proof -
  have "insert (a, b) E \<union> (insert (a, b) E)\<inverse> = insert (a, b) (insert (b, a) (E \<union> E\<inverse>))" by auto
  then have "linked (insert (a, b) E) i j \<longleftrightarrow>
      linked E i j \<or> (linked E i b \<and> linked E a j) \<or>
      ((linked E i a \<or> (linked E i b \<and> linked E a a)) \<and> (linked E b j \<or> (linked E b b \<and> linked E a j)))"
    unfolding linked_def by (simp add: rtrancl_insert)
  then show ?thesis using linked_trans linked_sym by blast
qed

text \<open>The interface of a disjoint-set structure: uniting two members returns, keeps the invariant and the
  members, and merges exactly the two classes.\<close>
locale disjoint_sets =
  fixes inv :: "'u \<Rightarrow> bool" and members :: "'u \<Rightarrow> nat" and rel :: "'u \<Rightarrow> nat \<Rightarrow> nat \<Rightarrow> bool"
    and unite :: "nat \<Rightarrow> nat \<Rightarrow> 'u \<Rightarrow> ('u, 'e) outcome"
  assumes unite_merges: "inv u \<Longrightarrow> a < members u \<Longrightarrow> b < members u \<Longrightarrow>
    \<exists>u'. unite a b u = Ok u' \<and> inv u' \<and> members u' = members u \<and>
      (\<forall>i < members u. \<forall>j < members u. rel u' i j \<longleftrightarrow> rel u i j \<or> (rel u i a \<and> rel u b j) \<or> (rel u i b \<and> rel u a j))"
begin

lemma unite_all:
  assumes "inv u" and "\<And>i j. i < members u \<Longrightarrow> j < members u \<Longrightarrow> rel u i j \<longleftrightarrow> linked E i j"
    and "\<And>a b. (a, b) \<in> set ps \<Longrightarrow> a < members u \<and> b < members u"
  shows "\<exists>u'. fold_o (\<lambda>(a, b). unite a b) ps u = Ok u' \<and> inv u' \<and> members u' = members u \<and>
    (\<forall>i < members u. \<forall>j < members u. rel u' i j \<longleftrightarrow> linked (E \<union> set ps) i j)"
  using assms
proof (induction ps arbitrary: u E)
  case (Cons p ps)
  obtain a b where p: "p = (a, b)" by (cases p)
  then have ab: "a < members u" "b < members u" using Cons.prems(3) by auto
  obtain u1 where u1: "unite a b u = Ok u1" "inv u1" "members u1 = members u"
    "\<And>i j. i < members u \<Longrightarrow> j < members u \<Longrightarrow> rel u1 i j \<longleftrightarrow> rel u i j \<or> (rel u i a \<and> rel u b j) \<or> (rel u i b \<and> rel u a j)"
    using unite_merges[OF Cons.prems(1) ab] by blast
  have "rel u1 i j \<longleftrightarrow> linked (insert (a, b) E) i j" if "i < members u1" "j < members u1" for i j
    using u1(3,4) that ab Cons.prems(2) by (simp add: linked_insert)
  moreover have "\<And>x y. (x, y) \<in> set ps \<Longrightarrow> x < members u1 \<and> y < members u1"
    unfolding u1(3) using Cons.prems(3) by (meson list.set_intros(2))
  ultimately show ?case using Cons.IH[OF u1(2), of "insert (a, b) E"] u1 p by simp
qed simp

end

interpretation uf: disjoint_sets uf_ok uf_size same uf_union
proof
  fix u :: union_find and a b
  assume "uf_ok u" "a < uf_size u" "b < uf_size u"
  then obtain u' where "uf_union a b u = (Ok u' :: (union_find, 'b) outcome)" "uf_ok u'" "uf_size u' = uf_size u"
    "\<And>i j. i < uf_size u \<Longrightarrow> j < uf_size u \<Longrightarrow> same u' i j \<longleftrightarrow> same u i j \<or> (same u i a \<and> same u b j) \<or> (same u i b \<and> same u a j)"
    using uf_union_ok by blast
  then show "\<exists>u'. uf_union a b u = (Ok u' :: (union_find, 'b) outcome) \<and> uf_ok u' \<and> uf_size u' = uf_size u \<and>
      (\<forall>i < uf_size u. \<forall>j < uf_size u. same u' i j \<longleftrightarrow> same u i j \<or> (same u i a \<and> same u b j) \<or> (same u i b \<and> same u a j))"
    by blast
qed

lemma uf_new_rel: "uf_size (uf_new n) = n" "i < n \<Longrightarrow> j < n \<Longrightarrow> same (uf_new n) i j \<longleftrightarrow> linked {} i j"
proof -
  show size: "uf_size (uf_new n) = n" by (simp add: uf_size_def uf_new_def)
  have "rep (uf_new n) k = k" if "k < n" for k
    using rep_root[OF uf_ok_new, of k] that size by (simp add: uf_new_def)
  then show "i < n \<Longrightarrow> j < n \<Longrightarrow> same (uf_new n) i j \<longleftrightarrow> linked {} i j" by (simp add: same_def linked_def)
qed

lemma unions_from_new:
  assumes "\<And>a b. (a, b) \<in> set ps \<Longrightarrow> a < n \<and> b < n"
  obtains u where "fold_o (\<lambda>(a, b). uf_union a b) ps (uf_new n) = (Ok u :: (union_find, 'e) outcome)" and "uf_ok u"
    and "uf_size u = n" and "\<And>i j. i < n \<Longrightarrow> j < n \<Longrightarrow> same u i j \<longleftrightarrow> linked (set ps) i j"
proof -
  have "\<exists>u. fold_o (\<lambda>(a, b). uf_union a b) ps (uf_new n) = (Ok u :: (union_find, 'e) outcome) \<and> uf_ok u \<and> uf_size u = uf_size (uf_new n) \<and>
      (\<forall>i < uf_size (uf_new n). \<forall>j < uf_size (uf_new n). same u i j \<longleftrightarrow> linked ({} \<union> set ps) i j)"
    by (rule uf.unite_all[OF uf_ok_new]) (use assms uf_new_rel in auto)
  then show thesis using that uf_new_rel(1)[of n] by auto
qed

text \<open>
  C22: The union-find refines connectivity: starting from singletons, any sequence of unions returns (no
  loop diverges, no index is out of range), and afterwards \<open>find\<close> returns for every two elements the same
  root exactly when a chain of united pairs joins them, path compression and union by rank included.
\<close>
theorem unions_are_components:
  assumes "\<forall>(a, b) \<in> set ps. a < n \<and> b < n"
  shows "\<exists>u. fold_o (\<lambda>(a, b). uf_union a b) ps (uf_new n) = (Ok u :: (union_find, unit) outcome) \<and>
    (\<forall>i < n. \<exists>r u'. uf_find i u = (Ok (r, u') :: (nat \<times> union_find, unit) outcome) \<and>
      (\<forall>j < n. \<exists>r' u''. uf_find j u' = (Ok (r', u'') :: (nat \<times> union_find, unit) outcome) \<and> (r = r' \<longleftrightarrow> linked (set ps) i j)))"
proof -
  obtain u where u: "fold_o (\<lambda>(a, b). uf_union a b) ps (uf_new n) = (Ok u :: (union_find, unit) outcome)" "uf_ok u"
    "uf_size u = n" "\<And>i j. i < n \<Longrightarrow> j < n \<Longrightarrow> same u i j \<longleftrightarrow> linked (set ps) i j"
    using unions_from_new[of ps n] assms by blast
  have "\<exists>r u'. uf_find i u = (Ok (r, u') :: (nat \<times> union_find, unit) outcome) \<and>
      (\<forall>j < n. \<exists>r' u''. uf_find j u' = (Ok (r', u'') :: (nat \<times> union_find, unit) outcome) \<and> (r = r' \<longleftrightarrow> linked (set ps) i j))"
    if i: "i < n" for i
  proof -
    obtain u' where u': "uf_find i u = (Ok (rep u i, u') :: (nat \<times> union_find, unit) outcome)" "uf_ok u'" "uf_size u' = n"
      "\<And>j. j < n \<Longrightarrow> rep u' j = rep u j"
      using uf_find_ok[OF u(2), of i] i u(3) by metis
    have "\<exists>r' u''. uf_find j u' = (Ok (r', u'') :: (nat \<times> union_find, unit) outcome) \<and> (rep u i = r' \<longleftrightarrow> linked (set ps) i j)"
      if j: "j < n" for j
    proof -
      obtain u'' where "uf_find j u' = (Ok (rep u' j, u'') :: (nat \<times> union_find, unit) outcome)"
        using uf_find_ok[OF u'(2), of j] j u'(3) by metis
      then show ?thesis using u'(4)[OF j] u(4)[OF i j] by (auto simp: same_def)
    qed
    then show ?thesis using u'(1) by blast
  qed
  then show ?thesis using u(1) by blast
qed

theorem unions_are_components_witness:
  "\<exists>u. fold_o (\<lambda>(a, b). uf_union a b) [(0, 1), (3, 2), (1, 3)] (uf_new 5) = (Ok u :: (union_find, unit) outcome) \<and>
    (\<forall>i < 5. \<exists>r u'. uf_find i u = (Ok (r, u') :: (nat \<times> union_find, unit) outcome) \<and>
      (\<forall>j < 5. \<exists>r' u''. uf_find j u' = (Ok (r', u'') :: (nat \<times> union_find, unit) outcome) \<and>
         (r = r' \<longleftrightarrow> linked {(0, 1), (3, 2), (1, 3)} i j)))"
  using unions_are_components[of "[(0, 1), (3, 2), (1, 3)]" 5] by simp

end
