(* ===== verification/Alias_Groups.thy ===== *)
theory Alias_Groups
  imports Sdb_Normalize Union_Find "HOL-Library.List_Lexorder" "HOL-Library.Product_Lexorder"
begin

text \<open>
  The exact alias groups of an ingest batch: \<open>build\<close> of \<open>crates/ls-semanticdb/src/groups.rs\<close>. The hash
  sets and maps of the source are lists and maps here; their iteration order does not show, because every
  loop over them feeds a set, a map or the sorted vector of keys.
\<close>

unbundle bit_operations_syntax

section \<open>The operations\<close>

record alias_groups =
  ag_ref_groups :: "symbol_key list list"
  ag_ref_group_index :: "symbol_key \<Rightarrow> nat option"
  ag_rename_groups :: "symbol_key list list"
  ag_rename_group_index :: "symbol_key \<Rightarrow> nat option"
  ag_rename_group_semantic_mask :: "u64 list"

definition ref_group_of :: "alias_groups \<Rightarrow> symbol_key \<Rightarrow> nat option" where
  "ref_group_of g key = ag_ref_group_index g key"

definition rename_group_of :: "alias_groups \<Rightarrow> symbol_key \<Rightarrow> nat option" where
  "rename_group_of g key = ag_rename_group_index g key"

definition ord_val :: "symbol_key \<Rightarrow> int" where
  "ord_val k = (case local_doc k of None \<Rightarrow> -1 | Some d \<Rightarrow> sint d)"

definition key_order :: "symbol_key \<Rightarrow> str \<times> int" where
  "key_order k = (semantic_symbol k, ord_val k)"

definition seen_keys :: "normalized_document list \<Rightarrow> symbol_key list" where
  "seen_keys docs = remdups (concat (map document_keys docs))"

text \<open>First wins: \<open>entry(key).or_insert(info)\<close> over all symbols in order.\<close>
definition info_by_key :: "normalized_document list \<Rightarrow> symbol_key \<Rightarrow> symbol_info option" where
  "info_by_key docs = map_of (map (\<lambda>s. (sy_key s, s)) (concat (map nd_symbols docs)))"

text \<open>A constructor implies its class.\<close>
definition implied_class :: "symbol_key \<Rightarrow> symbol_key list" where
  "implied_class key =
     (if \<not> key_is_local key \<and> is_constructor (semantic_symbol key)
      then (case split_last (semantic_symbol key) of
              Some (own, _) \<Rightarrow> if suffix (lit ''#'') own then [symbol_key_global own] else []
            | None \<Rightarrow> [])
      else [])"

definition sorted_keys :: "normalized_document list \<Rightarrow> symbol_key list" where
  "sorted_keys docs =
     (let key_set = seen_keys docs
      in sort_key key_order (remdups (key_set @ concat (map implied_class key_set))))"

definition index_of :: "symbol_key list \<Rightarrow> symbol_key \<Rightarrow> nat option" where
  "index_of keys = map_of (zip keys [0..<length keys])"

type_synonym 'a group_result = "('a, unit) outcome"

definition union_with_global :: "symbol_key list \<Rightarrow> nat \<Rightarrow> str \<Rightarrow> union_find \<Rightarrow> union_find group_result" where
  "union_with_global keys from to_symbol uf =
     (case index_of keys (symbol_key_global to_symbol) of Some to \<Rightarrow> uf_union from to uf | None \<Rightarrow> Ok uf)"

text \<open>The merge policy: the symbols a global key is united with, in order.\<close>
definition merge_targets :: "unicode \<Rightarrow> symbol_key list \<Rightarrow> symbol_key \<Rightarrow> str list" where
  "merge_targets U keys key =
     (if key_is_local key then []
      else case split_last (semantic_symbol key) of
        Some (own, DMethod name _) \<Rightarrow>
          if name = CONSTRUCTOR_NAME then (if suffix (lit ''#'') own then [own] else [])
          else if name = lit ''apply'' \<or> name = lit ''unapply''
          then (if suffix (lit ''.'') own
                then (case companion U own of
                        Some cls \<Rightarrow> if index_of keys (symbol_key_global cls) \<noteq> None then [cls] else []
                      | None \<Rightarrow> [])
                else [])
          else if is_setter_name name
          then (let base = encode_name U (drop_setter name)
                in [own @ base @ lit ''().'', own @ base @ lit ''.''])
          else []
      | Some (own, DType name) \<Rightarrow> [own @ encode_name U name @ lit ''.'']
      | _ \<Rightarrow> [])"

definition policy_step :: "unicode \<Rightarrow> symbol_key list \<Rightarrow> nat \<times> symbol_key \<Rightarrow> union_find \<Rightarrow> union_find group_result" where
  "policy_step U keys = (\<lambda>(i, key). fold_o (union_with_global keys i) (merge_targets U keys key))"

definition defined_keys :: "normalized_document list \<Rightarrow> symbol_key list" where
  "defined_keys docs = map oc_key (filter (\<lambda>oc. oc_role oc = Definition) (concat (map nd_occurrences docs)))"

text \<open>The owner prefix and the raw descriptor suffix.\<close>
definition descriptor_split :: "str \<Rightarrow> (str \<times> str) option" where
  "descriptor_split sm = map_option (\<lambda>(own, _). (own, concat (drop (length (chars own)) (chars sm)))) (split_last sm)"

definition is_method :: "normalized_document list \<Rightarrow> symbol_key \<Rightarrow> bool" where
  "is_method docs k \<longleftrightarrow> map_option sy_kind (info_by_key docs k) = Some Method"

text \<open>\<open>defined_method_by_descriptor[desc]\<close>: the definition-having methods with that descriptor, in key order.\<close>
definition defined_methods :: "normalized_document list \<Rightarrow> symbol_key list \<Rightarrow> str \<Rightarrow> symbol_key list" where
  "defined_methods docs keys desc =
     filter (\<lambda>k. \<not> key_is_local k \<and> k \<in> set (defined_keys docs) \<and> is_method docs k \<and>
       map_option snd (descriptor_split (semantic_symbol k)) = Some desc) keys"

text \<open>The definition an export forwarder stands for, when it is unique under another owner.\<close>
definition forwarder_of :: "normalized_document list \<Rightarrow> symbol_key list \<Rightarrow> symbol_key \<Rightarrow> symbol_key option" where
  "forwarder_of docs keys key =
     (if key_is_local key \<or> \<not> is_method docs key \<or> key \<in> set (defined_keys docs) then None
      else case descriptor_split (semantic_symbol key) of
        None \<Rightarrow> None
      | Some (own, desc) \<Rightarrow>
          (case remdups_adj (filter (\<lambda>orig. case descriptor_split (semantic_symbol orig) of Some (o', _) \<Rightarrow> o' \<noteq> own | None \<Rightarrow> False)
                  (defined_methods docs keys desc)) of
             [orig] \<Rightarrow> Some orig
           | _ \<Rightarrow> None))"

definition forwarder_step :: "normalized_document list \<Rightarrow> symbol_key list \<Rightarrow> nat \<times> symbol_key \<Rightarrow> union_find \<Rightarrow> union_find group_result" where
  "forwarder_step docs keys = (\<lambda>(i, key) uf.
     case forwarder_of docs keys key of
       None \<Rightarrow> Ok uf
     | Some orig \<Rightarrow> and_then (unwrap (index_of keys orig)) (\<lambda>j. uf_union i j uf))"

definition forwarder_keys :: "normalized_document list \<Rightarrow> symbol_key list \<Rightarrow> symbol_key list" where
  "forwarder_keys docs keys = filter (\<lambda>k. forwarder_of docs keys k \<noteq> None) keys"

text \<open>Assembly: the roots in order of first appearance and the keys of each root.\<close>
type_synonym buckets = "union_find \<times> nat list \<times> (nat \<Rightarrow> symbol_key list option)"

definition bucket_step :: "nat \<times> symbol_key \<Rightarrow> buckets \<Rightarrow> buckets group_result" where
  "bucket_step = (\<lambda>(i, key) (uf, order, buckets).
     and_then (uf_find i uf) (\<lambda>(root, uf').
       let order' = (if buckets root = None then order @ [root] else order);
           old = (case buckets root of Some ks \<Rightarrow> ks | None \<Rightarrow> [])
       in Ok (uf', order', buckets(root \<mapsto> old @ [key]))))"

definition group_index :: "symbol_key list list \<Rightarrow> symbol_key \<Rightarrow> nat option" where
  "group_index groups = fold (\<lambda>(gi, g) m. fold (\<lambda>k m. m(k \<mapsto> gi)) g m) (enumerate 0 groups) Map.empty"

definition group_mask :: "normalized_document list \<Rightarrow> symbol_key list \<Rightarrow> symbol_key list \<Rightarrow> u64" where
  "group_mask docs keys g =
     (let info = info_by_key docs;
          infos = concat (map nd_symbols docs);
          overridden_targets = concat (map (\<lambda>s. if info (sy_key s) = Some s then map symbol_key_global (sy_overridden_symbols s) else []) infos);
          override_flagged = list_ex (\<lambda>k. (case info k of Some i \<Rightarrow> sy_overridden_symbols i \<noteq> [] | None \<Rightarrow> False) \<or> k \<in> set overridden_targets) g;
          forwarded = list_ex (\<lambda>k. k \<in> set (forwarder_keys docs keys)) g;
          opaque = list_ex (\<lambda>k. case info k of Some i \<Rightarrow> sy_properties i AND OPAQUE \<noteq> 0 | None \<Rightarrow> False) g
      in (if override_flagged then OVERRIDE_FAMILY else 0) OR (if forwarded then UNSUPPORTED_SYMBOL_FAMILY else 0) OR
         (if opaque then OPAQUE_TYPE else 0))"

definition build :: "unicode \<Rightarrow> normalized_document list \<Rightarrow> alias_groups group_result" where
  "build U docs =
     (let keys = sorted_keys docs; numbered = enumerate 0 keys
      in and_then (fold_o (policy_step U keys) numbered (uf_new (length keys))) (\<lambda>uf1.
         and_then (fold_o (forwarder_step docs keys) numbered uf1) (\<lambda>uf2.
         and_then (fold_o bucket_step numbered (uf2, [], Map.empty)) (\<lambda>(uf3, order, buckets).
         and_then (map_o (\<lambda>r. unwrap (buckets r)) order) (\<lambda>groups.
           let idx = group_index groups
           in Ok \<lparr>ag_ref_groups = groups, ag_ref_group_index = idx, ag_rename_groups = groups, ag_rename_group_index = idx,
                  ag_rename_group_semantic_mask = map (group_mask docs keys) groups\<rparr>)))))"

section \<open>The unions performed\<close>

text \<open>The merges that the policy and the export forwarders ask for, as a relation between keys.\<close>
definition alias_edges :: "unicode \<Rightarrow> normalized_document list \<Rightarrow> (symbol_key \<times> symbol_key) set" where
  "alias_edges U docs =
     (let keys = sorted_keys docs
      in {(k, k'). k \<in> set keys \<and> k' \<in> set keys \<and>
           (k' \<in> symbol_key_global ` set (merge_targets U keys k) \<or> forwarder_of docs keys k = Some k')})"

lemma distinct_sorted_keys: "distinct (sorted_keys docs)"
  by (simp add: sorted_keys_def Let_def)

lemma index_of_Some: "distinct keys \<Longrightarrow> index_of keys k = Some i \<longleftrightarrow> i < length keys \<and> keys ! i = k"
  by (auto simp: index_of_def map_of_eq_Some_iff in_set_zip)

lemma index_of_None: "index_of keys k = None \<longleftrightarrow> k \<notin> set keys"
  by (simp add: index_of_def map_of_zip_is_None)

lemma and_then_fold_Nil [simp]: "and_then m (fold_o f []) = m"
  by (cases m) auto

definition policy_pairs :: "unicode \<Rightarrow> symbol_key list \<Rightarrow> nat \<times> symbol_key \<Rightarrow> (nat \<times> nat) list" where
  "policy_pairs U keys = (\<lambda>(i, key). concat (map (\<lambda>t. case index_of keys (symbol_key_global t) of Some j \<Rightarrow> [(i, j)] | None \<Rightarrow> [])
     (merge_targets U keys key)))"

definition forwarder_pairs :: "normalized_document list \<Rightarrow> symbol_key list \<Rightarrow> nat \<times> symbol_key \<Rightarrow> (nat \<times> nat) list" where
  "forwarder_pairs docs keys = (\<lambda>(i, key). case forwarder_of docs keys key of None \<Rightarrow> [] | Some orig \<Rightarrow>
     (case index_of keys orig of Some j \<Rightarrow> [(i, j)] | None \<Rightarrow> []))"

lemma fold_o_concat:
  assumes "\<And>x s. x \<in> set xs \<Longrightarrow> f x s = fold_o g (h x) s"
  shows "fold_o f xs s = fold_o g (concat (map h xs)) s"
  using assms
proof (induction xs arbitrary: s)
  case (Cons x xs)
  then have "fold_o f xs = fold_o g (concat (map h xs))" by auto
  then show ?case using Cons.prems[of x s] by (simp add: fold_o_append)
qed simp

lemma policy_step_pairs: "policy_step U keys x s = fold_o (\<lambda>(a, b). uf_union a b) (policy_pairs U keys x) s"
proof -
  obtain i key where x: "x = (i, key)" by (cases x)
  show ?thesis
    unfolding x policy_step_def policy_pairs_def split
    by (rule fold_o_concat) (auto simp: union_with_global_def split: option.splits)
qed

lemma forwarder_of_key: "forwarder_of docs keys key = Some orig \<Longrightarrow> orig \<in> set keys"
proof -
  assume "forwarder_of docs keys key = Some orig"
  then obtain desc P where "remdups_adj (filter P (defined_methods docs keys desc)) = [orig]"
    by (auto simp: forwarder_of_def split: if_splits option.splits list.splits)
  then have "orig \<in> set (remdups_adj (filter P (defined_methods docs keys desc)))" by simp
  then show ?thesis by (simp add: defined_methods_def)
qed

lemma forwarder_step_pairs: "forwarder_step docs keys x s = fold_o (\<lambda>(a, b). uf_union a b) (forwarder_pairs docs keys x) s"
proof -
  obtain i key where x: "x = (i, key)" by (cases x)
  show ?thesis
  proof (cases "forwarder_of docs keys key")
    case None
    then show ?thesis by (simp add: x forwarder_step_def forwarder_pairs_def)
  next
    case (Some orig)
    then obtain j where "index_of keys orig = Some j" using forwarder_of_key index_of_None by fastforce
    then show ?thesis using Some by (simp add: x forwarder_step_def forwarder_pairs_def)
  qed
qed

definition union_pairs :: "unicode \<Rightarrow> normalized_document list \<Rightarrow> (nat \<times> nat) list" where
  "union_pairs U docs = (let keys = sorted_keys docs; numbered = enumerate 0 keys
     in concat (map (policy_pairs U keys) numbered) @ concat (map (forwarder_pairs docs keys) numbered))"

lemma case_pair: "(i, j) \<in> set (case m of None \<Rightarrow> [] | Some j' \<Rightarrow> [(a, j')]) \<longleftrightarrow> i = a \<and> m = Some j"
  by (auto split: option.splits)

lemma union_pairs_edges:
  "(i, j) \<in> set (union_pairs U docs) \<longleftrightarrow> i < length (sorted_keys docs) \<and> j < length (sorted_keys docs) \<and>
     (sorted_keys docs ! i, sorted_keys docs ! j) \<in> alias_edges U docs"
proof -
  let ?keys = "sorted_keys docs"
  note idx = index_of_Some[OF distinct_sorted_keys[of docs]]
  have num: "(i, k) \<in> set (enumerate 0 ?keys) \<longleftrightarrow> i < length ?keys \<and> ?keys ! i = k" for i k
    by (auto simp: in_set_enumerate_eq)
  have policy: "(i, j) \<in> set (policy_pairs U ?keys (a, k)) \<longleftrightarrow>
      i = a \<and> j < length ?keys \<and> ?keys ! j \<in> symbol_key_global ` set (merge_targets U ?keys k)" for a k
  proof -
    have "(i, j) \<in> set (policy_pairs U ?keys (a, k)) \<longleftrightarrow>
        i = a \<and> (\<exists>t \<in> set (merge_targets U ?keys k). index_of ?keys (symbol_key_global t) = Some j)"
      by (auto simp: policy_pairs_def case_pair) metis
    then show ?thesis unfolding idx by auto
  qed
  have forwarder: "(i, j) \<in> set (forwarder_pairs docs ?keys (a, k)) \<longleftrightarrow>
      i = a \<and> j < length ?keys \<and> forwarder_of docs ?keys k = Some (?keys ! j)" for a k
  proof -
    have "(i, j) \<in> set (forwarder_pairs docs ?keys (a, k)) \<longleftrightarrow>
        i = a \<and> (\<exists>orig. forwarder_of docs ?keys k = Some orig \<and> index_of ?keys orig = Some j)"
      by (cases "forwarder_of docs ?keys k") (auto simp: forwarder_pairs_def case_pair)
    then show ?thesis unfolding idx by auto
  qed
  have "(i, j) \<in> set (union_pairs U docs) \<longleftrightarrow>
      (\<exists>a k. (a, k) \<in> set (enumerate 0 ?keys) \<and> (i, j) \<in> set (policy_pairs U ?keys (a, k))) \<or>
      (\<exists>a k. (a, k) \<in> set (enumerate 0 ?keys) \<and> (i, j) \<in> set (forwarder_pairs docs ?keys (a, k)))"
    by (auto simp: union_pairs_def Let_def)
  then show ?thesis unfolding num policy forwarder by (simp add: alias_edges_def Let_def) (blast intro: nth_mem)
qed

lemma linked_keys:
  assumes "i < length (sorted_keys docs)" and "j < length (sorted_keys docs)"
  shows "linked (set (union_pairs U docs)) i j \<longleftrightarrow>
     (sorted_keys docs ! i, sorted_keys docs ! j) \<in> (alias_edges U docs \<union> (alias_edges U docs)\<inverse>)\<^sup>*"
    (is "_ \<longleftrightarrow> _ \<in> ?E\<^sup>*")
proof
  let ?keys = "sorted_keys docs" and ?P = "set (union_pairs U docs)"
  assume "linked ?P i j"
  then have "(i, j) \<in> (?P \<union> ?P\<inverse>)\<^sup>*" by (simp add: linked_def)
  then show "(?keys ! i, ?keys ! j) \<in> ?E\<^sup>*"
    by (induction rule: rtrancl_induct) (auto simp: union_pairs_edges intro: rtrancl_into_rtrancl)
next
  let ?keys = "sorted_keys docs" and ?P = "set (union_pairs U docs)"
  have keys: "(k, k') \<in> ?E \<Longrightarrow> k \<in> set ?keys \<and> k' \<in> set ?keys" for k k' by (auto simp: alias_edges_def Let_def)
  have inj: "a < length ?keys \<Longrightarrow> b < length ?keys \<Longrightarrow> ?keys ! a = ?keys ! b \<longleftrightarrow> a = b" for a b
    using distinct_sorted_keys nth_eq_iff_index_eq by blast
  assume "(?keys ! i, ?keys ! j) \<in> ?E\<^sup>*"
  moreover have "b < length ?keys \<Longrightarrow> ?keys ! b = k \<Longrightarrow> (i, b) \<in> (?P \<union> ?P\<inverse>)\<^sup>*" if "(?keys ! i, k) \<in> ?E\<^sup>*" for k b
    using that
  proof (induction k arbitrary: b rule: rtrancl_induct)
    case base
    then show ?case using inj assms(1) by simp
  next
    case (step k k')
    obtain a where a: "a < length ?keys" "?keys ! a = k" using keys[OF step.hyps(2)] by (metis in_set_conv_nth)
    then have "(a, b) \<in> ?P \<union> ?P\<inverse>" using step by (auto simp: union_pairs_edges)
    then show ?case using step.IH[OF a] by (rule rtrancl_into_rtrancl[rotated])
  qed
  ultimately show "linked ?P i j" using assms(2) by (simp add: linked_def)
qed

section \<open>Assembling the groups\<close>

text \<open>After the first \<open>m\<close> keys: the roots seen, in order, and under each the keys that have it.\<close>
definition buckets_ok :: "symbol_key list \<Rightarrow> (nat \<Rightarrow> nat) \<Rightarrow> nat \<Rightarrow> nat list \<Rightarrow> (nat \<Rightarrow> symbol_key list option) \<Rightarrow> bool" where
  "buckets_ok keys rt m order buckets \<longleftrightarrow> distinct order \<and> set order = rt ` {..<m} \<and>
     (\<forall>r. buckets r = (if r \<in> rt ` {..<m} then Some (map ((!) keys) (filter (\<lambda>i. rt i = r) [0..<m])) else None))"

lemma buckets_ok_step:
  assumes "buckets_ok keys rt m order buckets"
  defines "r \<equiv> rt m"
  defines "old \<equiv> (case buckets r of Some ks \<Rightarrow> ks | None \<Rightarrow> [])"
  shows "buckets_ok keys rt (Suc m) (if buckets r = None then order @ [r] else order) (buckets(r \<mapsto> old @ [keys ! m]))"
proof -
  have b: "buckets q = (if q \<in> rt ` {..<m} then Some (map ((!) keys) (filter (\<lambda>i. rt i = q) [0..<m])) else None)" for q
    using assms(1) by (simp add: buckets_ok_def)
  have old: "old = map ((!) keys) (filter (\<lambda>i. rt i = r) [0..<m])"
  proof (cases "r \<in> rt ` {..<m}")
    case False
    then have "filter (\<lambda>i. rt i = r) [0..<m] = []" by (auto simp: filter_empty_conv)
    then show ?thesis using False by (simp add: old_def b)
  qed (simp add: old_def b)
  have "rt ` {..<Suc m} = insert r (rt ` {..<m})" by (auto simp: r_def less_Suc_eq)
  then show ?thesis
    using assms(1) b old by (auto simp: buckets_ok_def r_def)
qed

lemma bucket_loop:
  assumes "uf_ok u" and "uf_size u = length keys" and "m \<le> length keys"
  shows "\<exists>u' order buckets. fold_o bucket_step (enumerate 0 (take m keys)) (u, [], Map.empty) = Ok (u', order, buckets) \<and>
     uf_ok u' \<and> uf_size u' = uf_size u \<and> (\<forall>j < uf_size u. rep u' j = rep u j) \<and> buckets_ok keys (rep u) m order buckets"
  using assms(3)
proof (induction m)
  case 0
  then show ?case using assms by (simp add: buckets_ok_def)
next
  case (Suc m)
  then obtain u' order buckets where
    loop: "fold_o bucket_step (enumerate 0 (take m keys)) (u, [], Map.empty) = Ok (u', order, buckets)"
    and ok: "uf_ok u'" "uf_size u' = uf_size u" "\<forall>j < uf_size u. rep u' j = rep u j" "buckets_ok keys (rep u) m order buckets"
    by auto
  have m: "m < uf_size u'" using Suc.prems assms(2) ok(2) by simp
  obtain u'' where u'': "uf_find m u' = (Ok (rep u' m, u'') :: (nat \<times> union_find, unit) outcome)" "uf_ok u''"
    "uf_size u'' = uf_size u'" "\<And>j. j < uf_size u' \<Longrightarrow> rep u'' j = rep u' j"
    using uf_find_ok[OF ok(1) m] by blast
  have rm: "rep u' m = rep u m" using ok(2,3) m by simp
  have "enumerate 0 (take (Suc m) keys) = enumerate 0 (take m keys) @ [(m, keys ! m)]"
    using Suc.prems by (simp add: take_Suc_conv_app_nth enumerate_append_eq)
  then show ?case
    using loop u'' ok rm buckets_ok_step[OF ok(4)]
    by (simp add: fold_o_append bucket_step_def Let_def)
qed

lemma fold_update_index: "fold (\<lambda>k m. m(k \<mapsto> gi)) g m k = (if k \<in> set g then Some gi else m k)"
  by (induction g arbitrary: m) auto

lemma group_index_Some:
  assumes "\<And>a b. a < length gs \<Longrightarrow> b < length gs \<Longrightarrow> k \<in> set (gs ! a) \<Longrightarrow> k \<in> set (gs ! b) \<Longrightarrow> a = b"
  shows "group_index gs k = Some gi \<longleftrightarrow> gi < length gs \<and> k \<in> set (gs ! gi)"
  using assms
proof (induction gs rule: rev_induct)
  case Nil
  then show ?case by (simp add: group_index_def)
next
  case (snoc g gs)
  have step: "group_index (gs @ [g]) k = (if k \<in> set g then Some (length gs) else group_index gs k)"
    by (simp add: group_index_def enumerate_append_eq fold_update_index)
  have uniq: "a = b" if "a < Suc (length gs)" "b < Suc (length gs)" "k \<in> set ((gs @ [g]) ! a)" "k \<in> set ((gs @ [g]) ! b)" for a b
    using snoc.prems that by simp
  have IH: "group_index gs k = Some gi \<longleftrightarrow> gi < length gs \<and> k \<in> set (gs ! gi)"
    by (rule snoc.IH) (metis uniq less_SucI nth_append)
  show ?case
  proof (cases "k \<in> set g")
    case True
    then show ?thesis using step uniq[of gi "length gs"] by (auto simp: nth_append)
  next
    case False
    then show ?thesis using step IH by (auto simp: nth_append less_Suc_eq)
  qed
qed

text \<open>The groups that the assembly returns: one per root, in order of first appearance.\<close>
lemma build_groups:
  obtains u order where "uf_ok u" and "uf_size u = length (sorted_keys docs)"
    and "\<And>i j. i < length (sorted_keys docs) \<Longrightarrow> j < length (sorted_keys docs) \<Longrightarrow>
       rep u i = rep u j \<longleftrightarrow> linked (set (union_pairs U docs)) i j"
    and "distinct order" and "set order = rep u ` {..<length (sorted_keys docs)}"
    and "build U docs =
      (let groups = map (\<lambda>r. map ((!) (sorted_keys docs)) (filter (\<lambda>i. rep u i = r) [0..<length (sorted_keys docs)])) order;
           idx = group_index groups
       in Ok \<lparr>ag_ref_groups = groups, ag_ref_group_index = idx, ag_rename_groups = groups, ag_rename_group_index = idx,
              ag_rename_group_semantic_mask = map (group_mask docs (sorted_keys docs)) groups\<rparr>)"
proof -
  let ?keys = "sorted_keys docs"
  let ?n = "length ?keys"
  obtain u where u: "fold_o (\<lambda>(a, b). uf_union a b) (union_pairs U docs) (uf_new ?n) = (Ok u :: (union_find, unit) outcome)"
    "uf_ok u" "uf_size u = ?n" "\<And>i j. i < ?n \<Longrightarrow> j < ?n \<Longrightarrow> same u i j \<longleftrightarrow> linked (set (union_pairs U docs)) i j"
    by (rule unions_from_new[of "union_pairs U docs" ?n]) (auto simp: union_pairs_edges)
  from u(1) obtain u1 where u1: "fold_o (policy_step U ?keys) (enumerate 0 ?keys) (uf_new ?n) = Ok u1"
    "fold_o (forwarder_step docs ?keys) (enumerate 0 ?keys) u1 = Ok u"
    unfolding union_pairs_def Let_def fold_o_append
    using fold_o_concat[of "enumerate 0 ?keys" "policy_step U ?keys", OF policy_step_pairs]
      fold_o_concat[of "enumerate 0 ?keys" "forwarder_step docs ?keys", OF forwarder_step_pairs]
    by (auto simp: and_then_eq_Ok)
  obtain u3 order buckets where
    loop: "fold_o bucket_step (enumerate 0 ?keys) (u, [], Map.empty) = Ok (u3, order, buckets)"
    and ok: "buckets_ok ?keys (rep u) ?n order buckets"
    using bucket_loop[OF u(2,3), of ?n] by auto
  have b: "unwrap (buckets r) = (Ok (map ((!) ?keys) (filter (\<lambda>i. rep u i = r) [0..<?n])) :: (symbol_key list, unit) outcome)"
    if "r \<in> set order" for r
    using ok that by (simp add: buckets_ok_def)
  then have groups: "map_o (\<lambda>r. unwrap (buckets r)) order =
      (Ok (map (\<lambda>r. map ((!) ?keys) (filter (\<lambda>i. rep u i = r) [0..<?n])) order) :: (symbol_key list list, unit) outcome)"
    by (induction order) simp_all
  show thesis
    by (rule that[OF u(2,3)]) (use u(4) ok u1 loop groups in \<open>auto simp: same_def buckets_ok_def build_def Let_def\<close>)
qed

lemma alias_groups_partition:
  "\<exists>g. build U docs = Ok g \<and>
     {k. \<exists>gi. rename_group_of g k = Some gi} = set (sorted_keys docs) \<and>
     {(k, gi). rename_group_of g k = Some gi} = {(k, gi). gi < length (ag_rename_groups g) \<and> k \<in> set (ag_rename_groups g ! gi)} \<and>
     {(k, k'). \<exists>gi. rename_group_of g k = Some gi \<and> rename_group_of g k' = Some gi} =
       (alias_edges U docs \<union> (alias_edges U docs)\<inverse>)\<^sup>* \<inter> set (sorted_keys docs) \<times> set (sorted_keys docs) \<and>
     [] \<notin> set (ag_rename_groups g) \<and> ag_ref_groups g = ag_rename_groups g \<and> ref_group_of g = rename_group_of g"
proof -
  let ?keys = "sorted_keys docs"
  let ?n = "length ?keys"
  obtain u order where u: "uf_ok u" "uf_size u = ?n"
    "\<And>i j. i < ?n \<Longrightarrow> j < ?n \<Longrightarrow> rep u i = rep u j \<longleftrightarrow> linked (set (union_pairs U docs)) i j"
    and order: "distinct order" "set order = rep u ` {..<?n}"
    and build: "build U docs =
      (let groups = map (\<lambda>r. map ((!) ?keys) (filter (\<lambda>i. rep u i = r) [0..<?n])) order; idx = group_index groups
       in Ok \<lparr>ag_ref_groups = groups, ag_ref_group_index = idx, ag_rename_groups = groups, ag_rename_group_index = idx,
              ag_rename_group_semantic_mask = map (group_mask docs ?keys) groups\<rparr>)"
    using build_groups[of docs U] by blast
  define gs where "gs = map (\<lambda>r. map ((!) ?keys) (filter (\<lambda>i. rep u i = r) [0..<?n])) order"
  have mem: "k \<in> set (gs ! a) \<longleftrightarrow> (\<exists>i < ?n. ?keys ! i = k \<and> rep u i = order ! a)" if "a < length order" for k a
    using that by (auto simp: gs_def)
  have inj: "?keys ! i = ?keys ! j \<Longrightarrow> i < ?n \<Longrightarrow> j < ?n \<Longrightarrow> i = j" for i j
    using distinct_sorted_keys nth_eq_iff_index_eq by blast
  have len: "length gs = length order" by (simp add: gs_def)
  have idx: "group_index gs k = Some gi \<longleftrightarrow> gi < length gs \<and> k \<in> set (gs ! gi)" for k gi
    by (rule group_index_Some) (use mem inj order(1) len nth_eq_iff_index_eq in metis)
  have root: "(\<exists>gi < length order. order ! gi = rep u i)" if "i < ?n" for i
  proof -
    have "rep u i \<in> set order" using order(2) that by auto
    then show ?thesis by (simp add: in_set_conv_nth)
  qed
  have found: "group_index gs (?keys ! i) = Some gi \<longleftrightarrow> gi < length order \<and> order ! gi = rep u i" if "i < ?n" for i gi
    using idx mem inj len that by metis
  have covered: "(\<exists>gi. group_index gs k = Some gi) \<longleftrightarrow> k \<in> set ?keys" for k
    using found root idx mem len by (metis in_set_conv_nth)
  have classes: "(\<exists>gi. group_index gs k = Some gi \<and> group_index gs k' = Some gi) \<longleftrightarrow>
      (k, k') \<in> (alias_edges U docs \<union> (alias_edges U docs)\<inverse>)\<^sup>* \<and> k \<in> set ?keys \<and> k' \<in> set ?keys" for k k'
  proof (cases "k \<in> set ?keys \<and> k' \<in> set ?keys")
    case True
    then obtain i j where ij: "i < ?n" "?keys ! i = k" "j < ?n" "?keys ! j = k'" by (metis in_set_conv_nth)
    have "(\<exists>gi. group_index gs k = Some gi \<and> group_index gs k' = Some gi) \<longleftrightarrow> rep u i = rep u j"
      using found[OF ij(1)] found[OF ij(3)] root[OF ij(1)] ij by metis
    also have "\<dots> \<longleftrightarrow> (k, k') \<in> (alias_edges U docs \<union> (alias_edges U docs)\<inverse>)\<^sup>*"
      using u(3)[OF ij(1,3)] linked_keys[OF ij(1,3)] ij by simp
    finally show ?thesis using True by simp
  next
    case False
    then show ?thesis using covered by metis
  qed
  have nonempty: "[] \<notin> set gs"
    using order(2) by (auto simp: gs_def filter_empty_conv) (metis atLeastLessThan_iff le0)
  show ?thesis
    unfolding build
    by (rule exI[of _ "\<lparr>ag_ref_groups = gs, ag_ref_group_index = group_index gs, ag_rename_groups = gs,
            ag_rename_group_index = group_index gs, ag_rename_group_semantic_mask = map (group_mask docs ?keys) gs\<rparr>"])
      (use covered idx classes nonempty in
        \<open>auto simp: Let_def gs_def[symmetric] rename_group_of_def ref_group_of_def fun_eq_iff simp del: split_paired_Ex\<close>)
qed

lemma build_members:
  assumes "build U docs = Ok g"
  shows "distinct (concat (ag_ref_groups g))" and "set (concat (ag_ref_groups g)) = set (sorted_keys docs)"
proof -
  let ?keys = "sorted_keys docs"
  obtain u order where "uf_ok u" and "uf_size u = length ?keys"
    and "\<And>i j. i < length ?keys \<Longrightarrow> j < length ?keys \<Longrightarrow> rep u i = rep u j \<longleftrightarrow> linked (set (union_pairs U docs)) i j"
    and order: "distinct order" "set order = rep u ` {..<length ?keys}"
    and b: "build U docs = (let groups = map (\<lambda>r. map ((!) ?keys) (filter (\<lambda>i. rep u i = r) [0..<length ?keys])) order;
           idx = group_index groups
       in Ok \<lparr>ag_ref_groups = groups, ag_ref_group_index = idx, ag_rename_groups = groups, ag_rename_group_index = idx,
              ag_rename_group_semantic_mask = map (group_mask docs ?keys) groups\<rparr>)"
    by (rule build_groups[of docs U]) (rule that; assumption)
  have groups: "ag_ref_groups g = map (\<lambda>r. map ((!) ?keys) (filter (\<lambda>i. rep u i = r) [0..<length ?keys])) order"
    using assms b by (auto simp: Let_def)
  have inj: "?keys ! i = ?keys ! j \<Longrightarrow> i = j" if "i < length ?keys" "j < length ?keys" for i j
    using that distinct_sorted_keys by (simp add: nth_eq_iff_index_eq)
  have "distinct (concat (map (\<lambda>r. map ((!) ?keys) (filter (\<lambda>i. rep u i = r) [0..<length ?keys])) order))"
    using order(1) by (rule distinct_concat_map) (auto simp: distinct_map intro!: inj_onI dest: inj)
  then show "distinct (concat (ag_ref_groups g))" using order(1) groups by simp
  show "set (concat (ag_ref_groups g)) = set ?keys"
    using order(2) by (auto simp: groups in_set_conv_nth image_iff intro!: bexI)
qed
text \<open>
  C18: Grouping terminates without panicking and is exact: \<open>build\<close> returns groups that partition the keys
  of the batch (the seen keys and the classes their constructors imply), \<open>rename_group_of\<close> finds a key in the
  one group that lists it, and two keys share a group exactly when a chain of merges asked for by the
  policy or by a unique export forwarder joins them; the reference partition is the same.
\<close>
theorem alias_groups_exact:
  "\<exists>g. build U docs = Ok g \<and>
     {k. \<exists>gi. rename_group_of g k = Some gi} = set (sorted_keys docs) \<and>
     {(k, gi). rename_group_of g k = Some gi} = {(k, gi). gi < length (ag_rename_groups g) \<and> k \<in> set (ag_rename_groups g ! gi)} \<and>
     {(k, k'). \<exists>gi. rename_group_of g k = Some gi \<and> rename_group_of g k' = Some gi} =
       (alias_edges U docs \<union> (alias_edges U docs)\<inverse>)\<^sup>* \<inter> set (sorted_keys docs) \<times> set (sorted_keys docs) \<and>
     [] \<notin> set (ag_rename_groups g) \<and> ag_ref_groups g = ag_rename_groups g \<and> ref_group_of g = rename_group_of g"
  by (rule alias_groups_partition)

lemma alias_edges_global: "(k, k') \<in> alias_edges U docs \<Longrightarrow> \<not> key_is_local k \<and> \<not> key_is_local k'"
proof -
  assume e: "(k, k') \<in> alias_edges U docs"
  have "key_is_local (symbol_key_global t) = False" for t by (simp add: key_is_local_def symbol_key_global_def)
  moreover have "\<not> key_is_local k'" if "forwarder_of docs (sorted_keys docs) k = Some k'"
  proof -
    from that obtain desc P where "remdups_adj (filter P (defined_methods docs (sorted_keys docs) desc)) = [k']"
      by (auto simp: forwarder_of_def split: if_splits option.splits list.splits)
    then have "k' \<in> set (remdups_adj (filter P (defined_methods docs (sorted_keys docs) desc)))" by simp
    then show ?thesis by (simp add: defined_methods_def)
  qed
  ultimately show ?thesis
    using e by (auto simp: alias_edges_def Let_def merge_targets_def forwarder_of_def split: if_splits)
qed

text \<open>
  C23: A local symbol is never merged with anything: its rename group is the singleton of its own key, so
  renaming a local can only touch occurrences of that local in its own document.
\<close>
theorem local_symbols_stay_alone:
  assumes "build U docs = Ok g" and "rename_group_of g k = Some gi" and "key_is_local k"
  shows "set (ag_rename_groups g ! gi) = {k}"
proof -
  let ?E = "alias_edges U docs \<union> (alias_edges U docs)\<inverse>"
  obtain g' where g': "build U docs = Ok g'"
    "{(k, gi). rename_group_of g' k = Some gi} = {(k, gi). gi < length (ag_rename_groups g') \<and> k \<in> set (ag_rename_groups g' ! gi)}"
    "{(k, k'). \<exists>gi. rename_group_of g' k = Some gi \<and> rename_group_of g' k' = Some gi} =
       ?E\<^sup>* \<inter> set (sorted_keys docs) \<times> set (sorted_keys docs)"
    using alias_groups_partition[of U docs] by (elim exE conjE) blast
  have "k' = k" if "(k, k') \<in> ?E\<^sup>*" for k'
    using that assms(3) by (induction rule: converse_rtrancl_induct) (auto dest: alias_edges_global)
  moreover have "g' = g" using assms(1) g'(1) by simp
  moreover have "k' \<in> set (ag_rename_groups g' ! gi) \<longleftrightarrow> rename_group_of g' k' = Some gi" if "gi < length (ag_rename_groups g')" for k'
    using g'(2) that by (auto simp: set_eq_iff)
  moreover have "gi < length (ag_rename_groups g') \<and> k \<in> set (ag_rename_groups g' ! gi)"
    using g'(2) assms(2) \<open>g' = g\<close> by (auto simp: set_eq_iff)
  moreover have "(k, k') \<in> ?E\<^sup>*" if "rename_group_of g' k' = Some gi" for k'
    using g'(3) that assms(2) \<open>g' = g\<close> by (auto simp: set_eq_iff)
  ultimately show ?thesis by blast
qed

definition sample_local_doc :: normalized_document where
  "sample_local_doc = \<lparr>nd_uri = lit ''a.scala'', nd_md5 = [], nd_schema_version = 4, nd_language = lit ''scala'', nd_symbols = [],
     nd_occurrences = [new_occurrence (symbol_key_local (lit ''local0'') 4) (new_span 1 0 1 3) Definition,
       new_occurrence (symbol_key_global (lit ''a/B#'')) (new_span 2 0 2 1) Reference]\<rparr>"

theorem local_symbols_stay_alone_witness:
  "\<exists>g gi. build ascii_unicode [sample_local_doc] = Ok g \<and> rename_group_of g (symbol_key_local (lit ''local0'') 4) = Some gi \<and>
     set (ag_rename_groups g ! gi) = {symbol_key_local (lit ''local0'') 4}"
proof -
  obtain g where g: "build ascii_unicode [sample_local_doc] = Ok g"
    "{k. \<exists>gi. rename_group_of g k = Some gi} = set (sorted_keys [sample_local_doc])"
    using alias_groups_partition[of ascii_unicode "[sample_local_doc]"] by (elim exE conjE) blast
  have "symbol_key_local (lit ''local0'') 4 \<in> set (sorted_keys [sample_local_doc])"
    by (simp add: sorted_keys_def Let_def seen_keys_def document_keys_def sample_local_doc_def new_occurrence_def)
  then obtain gi where gi: "rename_group_of g (symbol_key_local (lit ''local0'') 4) = Some gi" using g(2) by blast
  then show ?thesis
    using local_symbols_stay_alone[OF g(1) gi] g(1) by (auto simp: key_is_local_def symbol_key_local_def)
qed

end
