(* ===== verification/Sdb_Profile.thy ===== *)
theory Sdb_Profile
  imports Alias_Groups
begin

text \<open>
  Rename-safety profiles and the assembled batch: \<open>crates/ls-semanticdb/src/profile.rs\<close> and \<open>batch.rs\<close>.
  The five vectors of \<open>build_profiles\<close> are the fields of \<open>profile_acc\<close>; indexing one out of range panics.
\<close>

unbundle bit_operations_syntax

section \<open>The operations\<close>

record doc_facts =
  df_generated :: bool
  df_readonly :: bool
  df_is_dependency_source :: bool

definition doc_editable :: "doc_facts \<Rightarrow> bool" where
  "doc_editable f \<longleftrightarrow> \<not> df_generated f \<and> \<not> df_readonly f \<and> \<not> df_is_dependency_source f"

definition workspace_source :: doc_facts where
  "workspace_source = \<lparr>df_generated = False, df_readonly = False, df_is_dependency_source = False\<rparr>"

record profile_acc =
  pa_has_definition :: "bool list"
  pa_has_generated :: "bool list"
  pa_has_readonly :: "bool list"
  pa_has_dependency :: "bool list"
  pa_editable_count :: "u32 list"
  pa_defined_global_keys :: "symbol_key list"

definition profile_acc_init :: "nat \<Rightarrow> profile_acc" where
  "profile_acc_init n =
     \<lparr>pa_has_definition = replicate n False, pa_has_generated = replicate n False, pa_has_readonly = replicate n False,
      pa_has_dependency = replicate n False, pa_editable_count = replicate n 0, pa_defined_global_keys = []\<rparr>"

text \<open>\<open>if cond { xs[i] = v }\<close> with \<open>v\<close> computed from the old value.\<close>
definition mark :: "bool \<Rightarrow> nat \<Rightarrow> ('a \<Rightarrow> 'a) \<Rightarrow> 'a list \<Rightarrow> 'a list group_result" where
  "mark c i f xs = (if c then (if i < length xs then Ok (xs[i := f (xs ! i)]) else Panic) else Ok xs)"

definition facts_of :: "(str \<Rightarrow> doc_facts option) \<Rightarrow> normalized_document \<Rightarrow> doc_facts" where
  "facts_of doc_facts doc = (case doc_facts (nd_uri doc) of Some f \<Rightarrow> f | None \<Rightarrow> workspace_source)"

definition profile_occurrence :: "alias_groups \<Rightarrow> doc_facts \<Rightarrow> occurrence \<Rightarrow> profile_acc \<Rightarrow> profile_acc group_result" where
  "profile_occurrence groups facts oc acc =
     (let acc1 = (if oc_role oc = Definition \<and> \<not> key_is_local (oc_key oc)
                  then acc\<lparr>pa_defined_global_keys := List.insert (oc_key oc) (pa_defined_global_keys acc)\<rparr> else acc)
      in case ag_rename_group_index groups (oc_key oc) of
           None \<Rightarrow> Ok acc1
         | Some gi \<Rightarrow>
             and_then (mark (oc_role oc = Definition) gi (\<lambda>_. True) (pa_has_definition acc1)) (\<lambda>d.
             and_then (mark (df_generated facts) gi (\<lambda>_. True) (pa_has_generated acc1)) (\<lambda>g.
             and_then (mark (df_readonly facts) gi (\<lambda>_. True) (pa_has_readonly acc1)) (\<lambda>r.
             and_then (mark (df_is_dependency_source facts) gi (\<lambda>_. True) (pa_has_dependency acc1)) (\<lambda>s.
             and_then (mark (doc_editable facts) gi (\<lambda>n. n + 1) (pa_editable_count acc1)) (\<lambda>e.
               Ok (acc1\<lparr>pa_has_definition := d, pa_has_generated := g, pa_has_readonly := r, pa_has_dependency := s,
                     pa_editable_count := e\<rparr>)))))))"

definition profile_document :: "(str \<Rightarrow> doc_facts option) \<Rightarrow> alias_groups \<Rightarrow> normalized_document \<Rightarrow> profile_acc \<Rightarrow> profile_acc group_result" where
  "profile_document doc_facts groups doc = fold_o (profile_occurrence groups (facts_of doc_facts doc)) (nd_occurrences doc)"

definition owner_defined_in_workspace :: "symbol_key list \<Rightarrow> symbol_key list \<Rightarrow> bool" where
  "owner_defined_in_workspace defined grp =
     list_ex (\<lambda>k. \<not> key_is_local k \<and>
       (case split_last (semantic_symbol k) of Some (own, _) \<Rightarrow> symbol_key_global own \<in> set defined | None \<Rightarrow> False)) grp"

definition group_has_companion :: "unicode \<Rightarrow> symbol_key list \<Rightarrow> bool" where
  "group_has_companion U grp =
     list_ex (\<lambda>k. \<not> key_is_local k \<and> suffix (lit ''#'') (semantic_symbol k) \<and>
       (case companion U (semantic_symbol k) of Some c \<Rightarrow> symbol_key_global c \<in> set grp | None \<Rightarrow> False)) grp"

definition group_profile :: "unicode \<Rightarrow> alias_groups \<Rightarrow> profile_acc \<Rightarrow> nat \<times> symbol_key list \<Rightarrow> rename_profile group_result" where
  "group_profile U groups acc = (\<lambda>(gi, grp).
     and_then (index_o (pa_has_definition acc) gi) (\<lambda>has_definition.
     and_then (index_o (ag_rename_group_semantic_mask groups) gi) (\<lambda>semantic_mask.
     and_then (index_o (pa_has_generated acc) gi) (\<lambda>has_generated.
     and_then (index_o (pa_has_readonly acc) gi) (\<lambda>has_readonly.
     and_then (index_o (pa_has_dependency acc) gi) (\<lambda>has_dependency.
     and_then (index_o (pa_editable_count acc) gi) (\<lambda>editable.
       let local = (grp \<noteq> [] \<and> list_all key_is_local grp);
           synthetic_only = (\<not> local \<and> \<not> has_definition \<and> owner_defined_in_workspace (pa_defined_global_keys acc) grp);
           external = (\<not> has_definition \<and> \<not> synthetic_only);
           m1 = (if external then semantic_mask OR EXTERNAL else semantic_mask);
           m2 = (if synthetic_only then m1 OR SYNTHETIC_ONLY else m1);
           m3 = (if has_generated then m2 OR GENERATED_OCCURRENCE else m2);
           m4 = (if has_readonly then m3 OR READONLY_OCCURRENCE else m3);
           m5 = (if has_dependency then m4 OR DEPENDENCY_SOURCE else m4)
       in Ok \<lparr>is_local = local, is_external = external, has_generated_occurrences = has_generated,
            has_readonly_occurrences = has_readonly, has_override_family = (semantic_mask AND OVERRIDE_FAMILY \<noteq> 0),
            has_companion = group_has_companion U grp, editable_occurrence_count = editable, unsafe_reason_mask = m5\<rparr>)))))))"

definition build_profiles ::
  "unicode \<Rightarrow> normalized_document list \<Rightarrow> alias_groups \<Rightarrow> (str \<Rightarrow> doc_facts option) \<Rightarrow> rename_profile list group_result" where
  "build_profiles U docs groups doc_facts =
     and_then (fold_o (profile_document doc_facts groups) docs (profile_acc_init (length (ag_rename_groups groups)))) (\<lambda>acc.
       map_o (group_profile U groups acc) (enumerate 0 (ag_rename_groups groups)))"

record semantic_batch =
  sb_documents :: "normalized_document list"
  sb_groups :: alias_groups
  sb_rename_profiles :: "rename_profile list"

definition assemble_with_facts :: "unicode \<Rightarrow> normalized_document list \<Rightarrow> (str \<Rightarrow> doc_facts option) \<Rightarrow> semantic_batch group_result" where
  "assemble_with_facts U documents doc_facts =
     and_then (build U documents) (\<lambda>groups.
     and_then (build_profiles U documents groups doc_facts) (\<lambda>profiles.
       Ok \<lparr>sb_documents = documents, sb_groups = groups, sb_rename_profiles = profiles\<rparr>))"

definition assemble :: "unicode \<Rightarrow> normalized_document list \<Rightarrow> semantic_batch group_result" where
  "assemble U documents = assemble_with_facts U documents Map.empty"

definition rename_profile_of :: "semantic_batch \<Rightarrow> symbol_key \<Rightarrow> rename_profile option group_result" where
  "rename_profile_of b key =
     (case rename_group_of (sb_groups b) key of
        None \<Rightarrow> Ok None
      | Some gi \<Rightarrow> and_then (index_o (sb_rename_profiles b) gi) (\<lambda>p. Ok (Some p)))"


section \<open>What the profiles say\<close>

text \<open>The occurrences of a batch in loop order, each with the facts of its document.\<close>
definition batch_occurrences :: "(str \<Rightarrow> doc_facts option) \<Rightarrow> normalized_document list \<Rightarrow> (doc_facts \<times> occurrence) list" where
  "batch_occurrences doc_facts docs = concat (map (\<lambda>d. map (Pair (facts_of doc_facts d)) (nd_occurrences d)) docs)"

definition occurrences_of :: "(str \<Rightarrow> doc_facts option) \<Rightarrow> normalized_document list \<Rightarrow> symbol_key list \<Rightarrow> (doc_facts \<times> occurrence) list" where
  "occurrences_of doc_facts docs grp = filter (\<lambda>(f, oc). oc_key oc \<in> set grp) (batch_occurrences doc_facts docs)"

text \<open>The accumulator after a list of occurrences, in closed form.\<close>
definition hits :: "alias_groups \<Rightarrow> (doc_facts \<times> occurrence) list \<Rightarrow> nat \<Rightarrow> (doc_facts \<times> occurrence) list" where
  "hits groups ps gi = filter (\<lambda>(f, oc). ag_rename_group_index groups (oc_key oc) = Some gi) ps"

definition acc_of :: "alias_groups \<Rightarrow> nat \<Rightarrow> (doc_facts \<times> occurrence) list \<Rightarrow> profile_acc" where
  "acc_of groups n ps =
     \<lparr>pa_has_definition = map (\<lambda>gi. list_ex (\<lambda>(f, oc). oc_role oc = Definition) (hits groups ps gi)) [0..<n],
      pa_has_generated = map (\<lambda>gi. list_ex (\<lambda>(f, oc). df_generated f) (hits groups ps gi)) [0..<n],
      pa_has_readonly = map (\<lambda>gi. list_ex (\<lambda>(f, oc). df_readonly f) (hits groups ps gi)) [0..<n],
      pa_has_dependency = map (\<lambda>gi. list_ex (\<lambda>(f, oc). df_is_dependency_source f) (hits groups ps gi)) [0..<n],
      pa_editable_count = map (\<lambda>gi. of_nat (length (filter (\<lambda>(f, oc). doc_editable f) (hits groups ps gi)))) [0..<n],
      pa_defined_global_keys =
        fold (\<lambda>(f, oc) ks. if oc_role oc = Definition \<and> \<not> key_is_local (oc_key oc) then List.insert (oc_key oc) ks else ks) ps []\<rparr>"

lemma mark_map: "gi < n \<Longrightarrow>
  mark c gi f (map h [0..<n]) = Ok (map (\<lambda>i. if c \<and> i = gi then f (h i) else h i) [0..<n])"
  by (auto simp: mark_def intro!: nth_equalityI simp: nth_list_update)

lemma list_ex_append_single: "list_ex P (xs @ ys) \<longleftrightarrow> list_ex P xs \<or> list_ex P ys"
  by (induction xs) auto

lemma hits_snoc: "hits groups (ps @ [(f, oc)]) gi =
  hits groups ps gi @ (if ag_rename_group_index groups (oc_key oc) = Some gi then [(f, oc)] else [])"
  by (simp add: hits_def)

lemma profile_occurrence_acc:
  assumes "\<And>gi. ag_rename_group_index groups (oc_key oc) = Some gi \<Longrightarrow> gi < n"
  shows "profile_occurrence groups f oc (acc_of groups n ps) = Ok (acc_of groups n (ps @ [(f, oc)]))"
proof (cases "ag_rename_group_index groups (oc_key oc)")
  case None
  then show ?thesis by (simp add: profile_occurrence_def acc_of_def hits_snoc Let_def)
next
  case (Some gi)
  then have "gi < n" by (rule assms)
  then show ?thesis
    using Some by (auto simp: profile_occurrence_def acc_of_def hits_snoc Let_def mark_map list_ex_append_single split: if_splits)
qed

lemma profile_loop:
  assumes "\<And>k gi. ag_rename_group_index groups k = Some gi \<Longrightarrow> gi < n"
  shows "fold_o (profile_document doc_facts groups) docs (profile_acc_init n) =
    Ok (acc_of groups n (batch_occurrences doc_facts docs))"
proof -
  let ?f = "\<lambda>(f, oc). profile_occurrence groups f oc"
  have "fold_o (profile_occurrence groups f) ocs s = fold_o ?f (map (Pair f) ocs) s" for f ocs s
    by (induction ocs arbitrary: s) (auto intro: and_then_cong)
  then have "fold_o (profile_document doc_facts groups) docs s = fold_o ?f (batch_occurrences doc_facts docs) s" for s
    unfolding batch_occurrences_def by (intro fold_o_concat) (simp add: profile_document_def)
  moreover have "fold_o ?f qs (acc_of groups n ps) = Ok (acc_of groups n (ps @ qs))" for ps qs
  proof (induction qs arbitrary: ps)
    case (Cons q qs)
    obtain f oc where "q = (f, oc)" by fastforce
    then show ?case using Cons[of "ps @ [q]"] assms by (simp add: profile_occurrence_acc)
  qed simp
  moreover have "profile_acc_init n = acc_of groups n []"
    by (simp add: profile_acc_init_def acc_of_def hits_def map_replicate_const)
  ultimately show ?thesis by (metis append_Nil)
qed


lemma or_zero_iff: "(x :: u64) OR y = 0 \<longleftrightarrow> x = 0 \<and> y = 0"
  by (auto simp: bit_eq_iff bit_or_iff)

lemmas reason_bits = EXTERNAL_def SYNTHETIC_ONLY_def GENERATED_OCCURRENCE_def READONLY_OCCURRENCE_def DEPENDENCY_SOURCE_def

lemma build_masks: "build U docs = Ok g \<Longrightarrow>
  ag_rename_group_semantic_mask g = map (group_mask docs (sorted_keys docs)) (ag_rename_groups g)"
  by (auto simp: build_def Let_def outcome_elims split: prod.splits)

lemma defined_keys_set:
  "set (pa_defined_global_keys (acc_of groups n ps)) = {k. \<not> key_is_local k \<and> (\<exists>f oc. (f, oc) \<in> set ps \<and> oc_role oc = Definition \<and> oc_key oc = k)}"
proof -
  have "set (fold (\<lambda>(f, oc) ks. if oc_role oc = Definition \<and> \<not> key_is_local (oc_key oc) then List.insert (oc_key oc) ks else ks) ps ks) =
    set ks \<union> {k. \<not> key_is_local k \<and> (\<exists>f oc. (f, oc) \<in> set ps \<and> oc_role oc = Definition \<and> oc_key oc = k)}" for ks
    by (induction ps arbitrary: ks) (auto split: if_splits, blast+)
  from this[of "[]"] show ?thesis by (simp add: acc_of_def)
qed

text \<open>A member whose owner has a definition in the batch: a synthesized member of a workspace type.\<close>
definition owned_in_batch :: "(doc_facts \<times> occurrence) list \<Rightarrow> symbol_key list \<Rightarrow> bool" where
  "owned_in_batch ps grp \<longleftrightarrow>
     (\<exists>k \<in> set grp. \<exists>own desc f oc. \<not> key_is_local k \<and> split_last (semantic_symbol k) = Some (own, desc) \<and>
        (f, oc) \<in> set ps \<and> oc_role oc = Definition \<and> oc_key oc = symbol_key_global own)"

lemma owner_defined_in_workspace_iff:
  "owner_defined_in_workspace (pa_defined_global_keys (acc_of groups n ps)) grp \<longleftrightarrow> owned_in_batch ps grp"
proof -
  have global: "\<not> key_is_local (symbol_key_global t)" for t by (simp add: key_is_local_def symbol_key_global_def)
  show ?thesis
    unfolding owner_defined_in_workspace_def owned_in_batch_def list_ex_iff defined_keys_set
    by (rule bex_cong[OF refl]) (auto simp: global split: option.split)
qed

text \<open>
  What a profile promises of its group, from the module's own description. Of \<open>is_external\<close> it states the
  cases the description and the code agree on: a group with a definition is not external, and a group without
  one is, unless it has a member whose owner is defined in the batch (there the code reports the group as
  synthetic instead of external).
\<close>
definition profile_spec ::
  "normalized_document list \<Rightarrow> (doc_facts \<times> occurrence) list \<Rightarrow> (doc_facts \<times> occurrence) list \<Rightarrow> symbol_key list \<Rightarrow> rename_profile \<Rightarrow> bool" where
  "profile_spec docs all_ocs ocs grp p \<longleftrightarrow>
     (let defined = list_ex (\<lambda>(f, oc). oc_role oc = Definition) ocs in
      (is_local p \<longleftrightarrow> list_all key_is_local grp) \<and>
      (defined \<longrightarrow> \<not> is_external p) \<and>
      (is_local p \<or> \<not> owned_in_batch all_ocs grp \<longrightarrow> (is_external p \<longleftrightarrow> \<not> defined)) \<and>
      (has_generated_occurrences p \<longleftrightarrow> list_ex (\<lambda>(f, oc). df_generated f) ocs) \<and>
      (has_readonly_occurrences p \<longleftrightarrow> list_ex (\<lambda>(f, oc). df_readonly f) ocs) \<and>
      (has_override_family p \<longleftrightarrow> group_mask docs (sorted_keys docs) grp AND OVERRIDE_FAMILY \<noteq> 0) \<and>
      editable_occurrence_count p = of_nat (length (filter (\<lambda>(f, oc). doc_editable f) ocs)) \<and>
      (unsafe_reason_mask p = 0 \<longleftrightarrow>
         group_mask docs (sorted_keys docs) grp = 0 \<and> defined \<and> list_all (\<lambda>(f, oc). doc_editable f) ocs))"

lemma group_profile_spec:
  assumes "gi < n" and "ag_rename_group_semantic_mask groups ! gi = group_mask docs (sorted_keys docs) grp"
    and "gi < length (ag_rename_group_semantic_mask groups)" and "grp \<noteq> []"
  shows "\<exists>p. group_profile U groups (acc_of groups n ps) (gi, grp) = Ok p \<and> profile_spec docs ps (hits groups ps gi) grp p"
proof -
  let ?a = "acc_of groups n ps"
  have len: "length (pa_has_definition ?a) = n" "length (pa_has_generated ?a) = n" "length (pa_has_readonly ?a) = n"
    "length (pa_has_dependency ?a) = n" "length (pa_editable_count ?a) = n"
    by (simp_all add: acc_of_def)
  have edit: "list_all (\<lambda>(f, oc). doc_editable f) qs \<longleftrightarrow> \<not> list_ex (\<lambda>(f, oc). df_generated f) qs \<and>
      \<not> list_ex (\<lambda>(f, oc). df_readonly f) qs \<and> \<not> list_ex (\<lambda>(f, oc). df_is_dependency_source f) qs"
    for qs :: "(doc_facts \<times> occurrence) list"
    by (induction qs) (auto simp: doc_editable_def)
  have at: "pa_has_definition ?a ! gi = list_ex (\<lambda>(f, oc). oc_role oc = Definition) (hits groups ps gi)"
    "pa_has_generated ?a ! gi = list_ex (\<lambda>(f, oc). df_generated f) (hits groups ps gi)"
    "pa_has_readonly ?a ! gi = list_ex (\<lambda>(f, oc). df_readonly f) (hits groups ps gi)"
    "pa_has_dependency ?a ! gi = list_ex (\<lambda>(f, oc). df_is_dependency_source f) (hits groups ps gi)"
    "pa_editable_count ?a ! gi = of_nat (length (filter (\<lambda>(f, oc). doc_editable f) (hits groups ps gi)))"
    using assms(1) by (simp_all add: acc_of_def)
  show ?thesis
    using assms
    by (simp add: group_profile_def index_o_def len at Let_def profile_spec_def edit owner_defined_in_workspace_iff
        or_zero_iff reason_bits)
qed

lemma batch_assembled:
  "\<exists>b. assemble_with_facts U docs doc_facts = Ok b \<and> build U docs = Ok (sb_groups b) \<and> sb_documents b = docs \<and>
     list_all2 (\<lambda>grp. profile_spec docs (batch_occurrences doc_facts docs) (occurrences_of doc_facts docs grp) grp)
       (ag_rename_groups (sb_groups b)) (sb_rename_profiles b)"
proof -
  obtain g where g: "build U docs = Ok g"
    "{(k, gi). rename_group_of g k = Some gi} = {(k, gi). gi < length (ag_rename_groups g) \<and> k \<in> set (ag_rename_groups g ! gi)}"
    "[] \<notin> set (ag_rename_groups g)"
    using alias_groups_partition[of U docs] by (elim exE conjE) blast
  let ?gs = "ag_rename_groups g"
  let ?ps = "batch_occurrences doc_facts docs"
  have idx: "ag_rename_group_index g k = Some gi \<longleftrightarrow> gi < length ?gs \<and> k \<in> set (?gs ! gi)" for k gi
    using g(2) by (auto simp: rename_group_of_def set_eq_iff)
  have hit: "hits g ?ps gi = occurrences_of doc_facts docs (?gs ! gi)" if "gi < length ?gs" for gi
    using that by (simp add: hits_def occurrences_of_def idx)
  have loop: "fold_o (profile_document doc_facts g) docs (profile_acc_init (length ?gs)) = (Ok (acc_of g (length ?gs) ?ps) :: (_, unit) outcome)"
    by (rule profile_loop) (simp add: idx)
  have "\<exists>p. group_profile U g (acc_of g (length ?gs) ?ps) (gi, ?gs ! gi) = Ok p \<and>
      profile_spec docs ?ps (occurrences_of doc_facts docs (?gs ! gi)) (?gs ! gi) p" if "gi < length ?gs" for gi
    using group_profile_spec[of gi "length ?gs" g docs "?gs ! gi" U ?ps] that build_masks[OF g(1)] g(3) hit[OF that]
    by (metis length_map nth_map nth_mem)
  then obtain p where p: "\<And>gi. gi < length ?gs \<Longrightarrow> group_profile U g (acc_of g (length ?gs) ?ps) (gi, ?gs ! gi) = Ok (p gi) \<and>
      profile_spec docs ?ps (occurrences_of doc_facts docs (?gs ! gi)) (?gs ! gi) (p gi)"
    by metis
  have "map_o (group_profile U g (acc_of g (length ?gs) ?ps)) (enumerate 0 ?gs) = Ok (map p [0..<length ?gs])"
    using p by (simp add: map_o_Ok nth_enumerate_eq)
  then show ?thesis
    using g(1) loop p by (auto simp: assemble_with_facts_def build_profiles_def list_all2_conv_all_nth)
qed


end
