(* ===== verification/Fuzzy_Rank.thy ===== *)
theory Fuzzy_Rank
  imports Rust_Char "HOL-Library.Sublist"
begin

text \<open>
  The fuzzy ranking of \<open>crates/ls-store/src/search.rs\<close>: \<open>normalize\<close>, \<open>normalized_with_humps\<close>,
  \<open>initials\<close>, \<open>score\<close> and the dynamic program \<open>max_hump_hits\<close>. Scores are 32-bit and wrap; vector
  accesses out of range panic. The program's two rows of cells are shown to compute the best
  embedding of the query in the name.
\<close>

section \<open>The operations\<close>

definition EXACT_BASE :: i32 where "EXACT_BASE = 1000000"
definition PREFIX_BASE :: i32 where "PREFIX_BASE = 100000"
definition SUBSEQ_BASE :: i32 where "SUBSEQ_BASE = 1000"
definition HUMP_BONUS :: i32 where "HUMP_BONUS = 1000"

definition lower1 :: "unicode \<Rightarrow> rchar \<Rightarrow> rchar" where
  "lower1 U c = (case to_lowercase U c of l # _ \<Rightarrow> l | [] \<Rightarrow> c)"

definition normalize_name :: "unicode \<Rightarrow> str \<Rightarrow> str" where
  "normalize_name U s = concat (map (lower1 U) (filter (is_alphanumeric U) (chars s)))"

record hump_state =
  hs_nn :: "rchar list"
  hs_humps :: "bool list"
  hs_prev_alnum :: bool
  hs_prev_upper :: bool
  hs_prev_digit :: bool

definition hump_step :: "unicode \<Rightarrow> rchar \<Rightarrow> hump_state \<Rightarrow> hump_state" where
  "hump_step U c st =
     (if is_alphanumeric U c
      then let upper = is_uppercase U c; digit = is_numeric U c;
               hump = (\<not> hs_prev_alnum st \<or> (upper \<and> \<not> hs_prev_upper st) \<or> (digit \<and> \<not> hs_prev_digit st))
           in \<lparr>hs_nn = hs_nn st @ [lower1 U c], hs_humps = hs_humps st @ [hump], hs_prev_alnum = True,
               hs_prev_upper = upper, hs_prev_digit = digit\<rparr>
      else st\<lparr>hs_prev_alnum := False, hs_prev_upper := False, hs_prev_digit := False\<rparr>)"

definition normalized_with_humps :: "unicode \<Rightarrow> str \<Rightarrow> rchar list \<times> bool list" where
  "normalized_with_humps U s =
     (let st = fold (hump_step U) (chars s)
        \<lparr>hs_nn = [], hs_humps = [], hs_prev_alnum = False, hs_prev_upper = False, hs_prev_digit = False\<rparr>
      in (hs_nn st, hs_humps st))"

definition initials :: "unicode \<Rightarrow> str \<Rightarrow> str" where
  "initials U s = (case normalized_with_humps U s of (nn, humps) \<Rightarrow> concat (map fst (filter snd (zip nn humps))))"

definition NEG :: i32 where "NEG = - 0x20000000"

type_synonym 'a rank_result = "('a, unit) outcome"

definition hump_cell :: "rchar list \<Rightarrow> bool list \<Rightarrow> rchar \<Rightarrow> i32 list \<Rightarrow> nat \<Rightarrow> i32 list \<Rightarrow> i32 list rank_result" where
  "hump_cell nn humps qc nxt j cur =
     and_then (index_o cur (j + 1)) (\<lambda>skip.
     and_then (index_o nn j) (\<lambda>c.
     and_then (if c = qc
               then and_then (index_o nxt (j + 1)) (\<lambda>sub.
                      if NEG <s sub
                      then and_then (index_o humps j) (\<lambda>h.
                             let cand = of_bool h + sub in Ok (if skip <s cand then cand else skip))
                      else Ok skip)
               else Ok skip) (\<lambda>best.
       if j < length cur then Ok (cur[j := best]) else Panic)))"

definition hump_row :: "rchar list \<Rightarrow> bool list \<Rightarrow> rchar \<Rightarrow> i32 list \<Rightarrow> i32 list rank_result" where
  "hump_row nn humps qc nxt =
     fold_o (hump_cell nn humps qc nxt) (rev [0..<length nn]) (replicate (length nn + 1) NEG)"

definition max_hump_hits :: "rchar list \<Rightarrow> rchar list \<Rightarrow> bool list \<Rightarrow> i32 option rank_result" where
  "max_hump_hits nq nn humps =
     and_then (fold_o (hump_row nn humps) (rev nq) (replicate (length nn + 1) 0)) (\<lambda>nxt.
     and_then (index_o nxt 0) (\<lambda>res. Ok (if NEG <s res then Some res else None)))"

definition score :: "unicode \<Rightarrow> str \<Rightarrow> str \<Rightarrow> i32 option rank_result" where
  "score U query name =
     (let nq = chars (normalize_name U query)
      in if nq = [] then Ok None
         else case normalized_with_humps U name of
           (nn, humps) \<Rightarrow>
             if nn = [] then Ok None
             else let len = of_nat (length nn)
                  in if nn = nq then Ok (Some (EXACT_BASE - len))
                     else if length nq \<le> length nn \<and> take (length nq) nn = nq then Ok (Some (PREFIX_BASE - len))
                     else and_then (max_hump_hits nq nn humps) (\<lambda>m.
                            Ok (map_option (\<lambda>hits. SUBSEQ_BASE + hits * HUMP_BONUS - len) m)))"

section \<open>The best embedding\<close>

text \<open>The recursion the table tabulates, over the name's characters paired with their hump flags.\<close>

definition opt_max :: "nat option \<Rightarrow> nat option \<Rightarrow> nat option" where
  "opt_max a b = (case (a, b) of (Some x, Some y) \<Rightarrow> Some (max x y) | (None, _) \<Rightarrow> b | (_, None) \<Rightarrow> a)"

fun best_hits :: "'c list \<Rightarrow> ('c \<times> bool) list \<Rightarrow> nat option" where
  "best_hits [] ns = Some 0"
| "best_hits (q # qs) [] = None"
| "best_hits (q # qs) ((c, h) # ns) =
     opt_max (best_hits (q # qs) ns) (if c = q then map_option ((+) (of_bool h)) (best_hits qs ns) else None)"

text \<open>The hump counts of all embeddings of \<open>qs\<close> as a subsequence of \<open>ns\<close>.\<close>
definition embedding_hits :: "'c list \<Rightarrow> ('c \<times> bool) list \<Rightarrow> nat set" where
  "embedding_hits qs ns = {length (filter snd ms) | ms. subseq ms ns \<and> map fst ms = qs}"

lemma embedding_hitsI: "subseq ms ns \<Longrightarrow> map fst ms = qs \<Longrightarrow> n = length (filter snd ms) \<Longrightarrow> n \<in> embedding_hits qs ns"
  unfolding embedding_hits_def mem_Collect_eq by (intro exI conjI)

lemma embedding_hitsE:
  assumes "n \<in> embedding_hits qs ns"
  obtains ms where "subseq ms ns" "map fst ms = qs" "n = length (filter snd ms)"
  using assms unfolding embedding_hits_def mem_Collect_eq by (elim exE conjE) (rule that)

lemma embedding_hits_Nil [simp]: "embedding_hits [] ns = {0}"
  by (auto intro: embedding_hitsI elim!: embedding_hitsE)

lemma embedding_hits_empty [simp]: "embedding_hits (q # qs) [] = {}"
  by (auto elim!: embedding_hitsE)

lemma embedding_hits_Cons:
  "embedding_hits (q # qs) ((c, h) # ns) =
     embedding_hits (q # qs) ns \<union> (if c = q then (+) (of_bool h) ` embedding_hits qs ns else {})" (is "?l = ?r")
proof (intro set_eqI iffI)
  fix n assume "n \<in> ?l"
  then obtain ms where ms: "subseq ms ((c, h) # ns)" "map fst ms = q # qs" "n = length (filter snd ms)"
    by (rule embedding_hitsE)
  from ms(1) consider "subseq ms ns" | ms' where "ms = (c, h) # ms'" "subseq ms' ns"
    by (cases rule: list_emb.cases) blast+
  then show "n \<in> ?r"
  proof cases
    case 1
    then have "n \<in> embedding_hits (q # qs) ns" using ms(2,3) by (rule embedding_hitsI)
    then show ?thesis by simp
  next
    case 2
    then have "length (filter snd ms') \<in> embedding_hits qs ns" "n = of_bool h + length (filter snd ms')" "c = q"
      using ms(2,3) by (auto intro: embedding_hitsI)
    then show ?thesis by simp
  qed
next
  fix n assume "n \<in> ?r"
  then consider "n \<in> embedding_hits (q # qs) ns" | m where "c = q" "m \<in> embedding_hits qs ns" "n = of_bool h + m"
    by (auto split: if_splits)
  then show "n \<in> ?l"
  proof cases
    case 1
    then show ?thesis by (auto intro: embedding_hitsI elim!: embedding_hitsE)
  next
    case 2
    from 2(2) obtain ms where "subseq ms ns" "map fst ms = qs" "m = length (filter snd ms)" by (rule embedding_hitsE)
    then show ?thesis using 2(1,3) by (intro embedding_hitsI[of "(c, h) # ms"]) auto
  qed
qed

lemma best_hits_None: "best_hits qs ns = None \<longleftrightarrow> embedding_hits qs ns = {}"
  by (induction qs ns rule: best_hits.induct)
    (auto simp: embedding_hits_Cons opt_max_def split: option.splits)

lemma best_hits_Some:
  "best_hits qs ns = Some n \<Longrightarrow> n \<in> embedding_hits qs ns \<and> (\<forall>m \<in> embedding_hits qs ns. m \<le> n)"
proof (induction qs ns arbitrary: n rule: best_hits.induct)
  case (3 q qs c h ns)
  have none: "best_hits qs' ns = None \<Longrightarrow> embedding_hits qs' ns = {}" for qs' :: "'a list"
    by (simp add: best_hits_None)
  show ?case
    using "3.prems" "3.IH"(1) "3.IH"(2) none[of qs] none[of "q # qs"]
    by (cases "best_hits (q # qs) ns"; cases "best_hits qs ns")
      (fastforce simp: embedding_hits_Cons opt_max_def max_def split: if_splits)+
qed auto

lemma best_hits_bound: "best_hits qs ns = Some n \<Longrightarrow> n \<le> length ns"
proof -
  assume "best_hits qs ns = Some n"
  then obtain ms where "subseq ms ns" "n = length (filter snd ms)"
    using best_hits_Some embedding_hitsE by metis
  then show ?thesis using list_emb_length[of "(=)" ms ns] length_filter_le[of snd ms] by linarith
qed


section \<open>The table\<close>

text \<open>How a cell of the table codes an optimum.\<close>
definition cell_of :: "nat option \<Rightarrow> i32" where
  "cell_of r = (case r of None \<Rightarrow> NEG | Some n \<Rightarrow> of_nat n)"

lemma sint_NEG: "sint NEG = - 536870912"
  by (simp add: NEG_def)

lemma sint_cell_of:
  "n < 2 ^ 31 \<Longrightarrow> sint (cell_of (Some n)) = int n" "sint (cell_of None) = - 536870912"
  by (simp_all add: cell_of_def sint_NEG signed_of_nat signed_take_bit_int_eq_self)

text \<open>The row of the query suffix \<open>qs\<close>.\<close>
definition row_of :: "rchar list \<Rightarrow> (rchar \<times> bool) list \<Rightarrow> i32 list" where
  "row_of qs ns = map (\<lambda>j. cell_of (best_hits qs (drop j ns))) [0..<length ns + 1]"

lemma length_row_of [simp]: "length (row_of qs ns) = length ns + 1"
  by (simp add: row_of_def)

lemma row_of_nonempty [simp]: "row_of qs ns \<noteq> []"
  by (simp add: row_of_def del: upt_Suc)

lemma row_of_nth: "j \<le> length ns \<Longrightarrow> row_of qs ns ! j = cell_of (best_hits qs (drop j ns))"
  by (simp add: row_of_def del: upt_Suc)

lemma cell_of_opt_max:
  assumes "\<And>n. a = Some n \<Longrightarrow> n < 2 ^ 31" and "\<And>n. b = Some n \<Longrightarrow> n < 2 ^ 31"
  shows "cell_of (opt_max a b) = (if cell_of a <s cell_of b then cell_of b else cell_of a)"
  using assms sint_cell_of by (cases a; cases b) (auto simp: opt_max_def word_sless_alt max_def)

lemma hump_cell_row:
  assumes "length humps = length nn" and "length nn < 2 ^ 31" and "j < length nn" and "length cur = length nn + 1"
    and "\<And>i. j < i \<Longrightarrow> i \<le> length nn \<Longrightarrow> cur ! i = row_of (qc # qs) (zip nn humps) ! i"
  shows "hump_cell nn humps qc (row_of qs (zip nn humps)) j cur =
    Ok (cur[j := row_of (qc # qs) (zip nn humps) ! j])"
proof -
  let ?ns = "zip nn humps"
  have here: "drop j ?ns = (nn ! j, humps ! j) # drop (Suc j) ?ns" using assms(1,3) by (simp add: Cons_nth_drop_Suc[symmetric])
  have bound: "best_hits ps (drop (Suc j) ?ns) = Some n \<Longrightarrow> n + 1 < 2 ^ 31" for ps n
    using best_hits_bound[of ps "drop (Suc j) ?ns" n] assms(1,2,3) by simp
  let ?skip = "best_hits (qc # qs) (drop (Suc j) ?ns)" and ?sub = "best_hits qs (drop (Suc j) ?ns)"
  have cur: "cur ! Suc j = cell_of ?skip" using assms(1,3,5) by (simp add: row_of_nth)
  have nxt: "row_of qs ?ns ! Suc j = cell_of ?sub" using assms(1,3) by (simp add: row_of_nth)
  have "row_of (qc # qs) ?ns ! j =
      cell_of (opt_max ?skip (if nn ! j = qc then map_option ((+) (of_bool (humps ! j))) ?sub else None))"
    using assms(1,3) by (simp add: row_of_nth here)
  also have "\<dots> = (if nn ! j = qc \<and> NEG <s cell_of ?sub
      then (if cell_of ?skip <s of_bool (humps ! j) + cell_of ?sub then of_bool (humps ! j) + cell_of ?sub else cell_of ?skip)
      else cell_of ?skip)"
  proof (cases "nn ! j = qc")
    case True
    show ?thesis
    proof (cases ?sub)
      case None
      then show ?thesis using True by (simp add: opt_max_def cell_of_def word_sless_alt split: option.splits)
    next
      case (Some n)
      have "NEG <s cell_of ?sub" using Some bound[OF Some] sint_cell_of(1)[of n] by (simp add: word_sless_alt sint_NEG)
      moreover have "of_bool (humps ! j) + cell_of ?sub = cell_of (Some (of_bool (humps ! j) + n))"
        by (simp add: Some cell_of_def)
      moreover have "?skip = Some m \<Longrightarrow> m < 2 ^ 31" for m using bound[of "qc # qs" m] by simp
      moreover have "of_bool (humps ! j) + n < 2 ^ 31" using bound[OF Some] by simp
      ultimately show ?thesis using True Some cell_of_opt_max[of ?skip "Some (of_bool (humps ! j) + n)"] by simp
    qed
  qed (simp add: opt_max_def split: option.splits)
  finally show ?thesis
    using assms(1,3,4) cur nxt by (simp add: hump_cell_def index_o_def Let_def)
qed

lemma hump_row_row:
  assumes "length humps = length nn" and "length nn < 2 ^ 31"
  shows "hump_row nn humps qc (row_of qs (zip nn humps)) = Ok (row_of (qc # qs) (zip nn humps))"
proof -
  let ?r = "row_of (qc # qs) (zip nn humps)" and ?f = "hump_cell nn humps qc (row_of qs (zip nn humps))"
  have last: "?r ! length nn = NEG" using assms(1) by (simp add: row_of_nth cell_of_def)
  have "fold_o ?f (rev [0..<k]) cur = Ok ?r"
    if "k \<le> length nn" "length cur = length nn + 1" "\<forall>i. k \<le> i \<and> i \<le> length nn \<longrightarrow> cur ! i = ?r ! i" for k cur
    using that
  proof (induction k arbitrary: cur)
    case 0
    then show ?case using assms(1) by (auto intro!: nth_equalityI)
  next
    case (Suc k)
    then have "?f k cur = Ok (cur[k := ?r ! k])" using assms by (intro hump_cell_row) auto
    then show ?case using Suc by (auto simp: nth_list_update)
  qed
  moreover have "replicate (length nn + 1) NEG ! i = ?r ! i" if "length nn \<le> i" "i \<le> length nn" for i
    using last le_antisym[OF that] by (simp del: replicate_Suc)
  ultimately show ?thesis unfolding hump_row_def by (metis length_replicate order_refl)
qed

lemma hump_table:
  assumes "length humps = length nn" and "length nn < 2 ^ 31"
  shows "fold_o (hump_row nn humps) (rev nq) (replicate (length nn + 1) 0) = Ok (row_of nq (zip nn humps))"
proof -
  have "replicate (length nn + 1) 0 = row_of [] (zip nn humps)"
    using assms(1) by (simp add: row_of_def cell_of_def map_replicate_const del: upt_Suc)
  then show ?thesis
    using hump_row_row[OF assms] by (induction nq) (simp_all add: fold_o_append)
qed

lemma max_hump_hits_best:
  assumes "length humps = length nn" and "length nn < 2 ^ 31"
  shows "max_hump_hits nq nn humps = Ok (map_option of_nat (best_hits nq (zip nn humps)))"
proof (cases "best_hits nq (zip nn humps)")
  case None
  then show ?thesis
    unfolding max_hump_hits_def hump_table[OF assms] by (simp add: index_o_def row_of_nth cell_of_def word_sless_alt)
next
  case (Some n)
  then have "n < 2 ^ 31" using best_hits_bound[OF Some] assms by simp
  then show ?thesis
    using Some sint_cell_of(1)[of n]
    unfolding max_hump_hits_def hump_table[OF assms]
    by (simp add: index_o_def row_of_nth word_sless_alt sint_NEG) (simp add: cell_of_def)
qed


lemma finite_embedding_hits: "finite (embedding_hits qs ns)"
proof (rule finite_subset)
  show "embedding_hits qs ns \<subseteq> (\<lambda>ms. length (filter snd ms)) ` set (subseqs ns)"
    by (auto elim!: embedding_hitsE simp: set_subseqs_eq)
qed simp

lemma best_hits_Max: "best_hits qs ns = (if embedding_hits qs ns = {} then None else Some (Max (embedding_hits qs ns)))"
proof (cases "best_hits qs ns")
  case None
  then show ?thesis by (simp add: best_hits_None)
next
  case (Some n)
  from best_hits_Some[OF Some] have "Max (embedding_hits qs ns) = n"
    by (intro Max_eqI finite_embedding_hits) auto
  then show ?thesis using Some best_hits_None[of qs ns] by auto
qed

section \<open>Scores\<close>

lemma lower_step:
  "length (hs_humps st) = length (hs_nn st) \<Longrightarrow>
     length (hs_humps (fold (hump_step U) cs st)) = length (hs_nn (fold (hump_step U) cs st)) \<and>
     hs_nn (fold (hump_step U) cs st) = hs_nn st @ map (lower1 U) (filter (is_alphanumeric U) cs)"
  by (induction cs arbitrary: st) (auto simp: hump_step_def Let_def)

lemma normalized_with_humps_parts:
  obtains nn humps where "normalized_with_humps U s = (nn, humps)" "length humps = length nn"
    "nn = map (lower1 U) (filter (is_alphanumeric U) (chars s))"
  using lower_step[of "\<lparr>hs_nn = [], hs_humps = [], hs_prev_alnum = False, hs_prev_upper = False, hs_prev_digit = False\<rparr>" U "chars s"]
  by (simp add: normalized_with_humps_def Let_def)

lemma embedding_hits_subseq:
  assumes "length humps = length nn"
  shows "embedding_hits nq (zip nn humps) \<noteq> {} \<longleftrightarrow> subseq nq nn"
proof
  assume "embedding_hits nq (zip nn humps) \<noteq> {}"
  then obtain ms where "subseq ms (zip nn humps)" "map fst ms = nq" by (auto elim!: embedding_hitsE)
  then show "subseq nq nn" using subseq_map[of ms "zip nn humps" fst] assms by simp
next
  assume "subseq nq nn"
  then obtain N where "nq = nths nn N" by (auto simp: subseq_conv_nths)
  then have "map fst (nths (zip nn humps) N) = nq" using assms by (simp add: nths_map[symmetric])
  moreover have "subseq (nths (zip nn humps) N) (zip nn humps)" by (auto simp: subseq_conv_nths)
  ultimately show "embedding_hits nq (zip nn humps) \<noteq> {}" by (auto dest: embedding_hitsI)
qed

text \<open>
  C25: The two-row dynamic program of the fuzzy ranking returns, for every query and every name of fewer
  than 2^31 characters, the greatest number of query characters that land on camel humps over all
  embeddings of the query as a subsequence of the name, and nothing when there is no embedding; it
  reads no cell out of range.
\<close>
theorem max_hump_hits_optimal:
  assumes "length humps = length nn" and "length nn < 2 ^ 31"
  shows "max_hump_hits nq nn humps =
    Ok (if subseq nq nn
        then Some (of_nat (Max {length (filter snd ms) | ms. subseq ms (zip nn humps) \<and> map fst ms = nq})) else None)"
  using embedding_hits_subseq[OF assms(1), of nq] best_hits_Max[of nq "zip nn humps"]
  by (auto simp: max_hump_hits_best[OF assms] embedding_hits_def[symmetric])

theorem max_hump_hits_optimal_witness:
  "max_hump_hits [ch CHR ''w'', ch CHR ''s''] [ch CHR ''w'', ch CHR ''s'', ch CHR ''s''] [True, False, True] = Ok (Some 2) \<and>
   Max {length (filter snd ms) | ms.
     subseq ms (zip [ch CHR ''w'', ch CHR ''s'', ch CHR ''s''] [True, False, True]) \<and> map fst ms = [ch CHR ''w'', ch CHR ''s'']} = 2"
proof -
  let ?q = "[ch CHR ''w'', ch CHR ''s'']" and ?n = "[ch CHR ''w'', ch CHR ''s'', ch CHR ''s'']" and ?h = "[True, False, True]"
  have v: "max_hump_hits ?q ?n ?h = Ok (Some 2)" by code_simp
  have m: "Max (embedding_hits ?q (zip ?n ?h)) = 2"
    using best_hits_Max[of ?q "zip ?n ?h"] by (simp add: opt_max_def ch_def split: if_splits)
  show ?thesis
    using max_hump_hits_optimal[of ?h ?n ?q] v m by (simp add: embedding_hits_def)
qed

lemma score_candidate:
  assumes "length (chars name) < 2 ^ 31"
  shows "\<exists>r. score U query name = Ok r \<and>
    (r \<noteq> None \<longleftrightarrow> normalize_name U query \<noteq> [] \<and>
       subseq (chars (normalize_name U query)) (map (lower1 U) (filter (is_alphanumeric U) (chars name))))"
proof -
  obtain nn humps where nn: "normalized_with_humps U name = (nn, humps)" "length humps = length nn"
    "nn = map (lower1 U) (filter (is_alphanumeric U) (chars name))"
    by (rule normalized_with_humps_parts)
  let ?nq = "chars (normalize_name U query)"
  have "length nn < 2 ^ 31" using assms length_filter_le[of "is_alphanumeric U" "chars name"] nn(3) by (metis le_less_trans length_map)
  note dp = max_hump_hits_best[OF nn(2) this, of ?nq]
  have "best_hits ?nq (zip nn humps) \<noteq> None \<longleftrightarrow> subseq ?nq nn"
    using embedding_hits_subseq[OF nn(2)] by (simp add: best_hits_None)
  moreover have "take (length ?nq) nn = ?nq \<Longrightarrow> subseq ?nq nn"
    by (metis prefix_imp_subseq take_is_prefix)
  ultimately show ?thesis
    unfolding nn(3)[symmetric] by (auto simp: score_def nn(1) dp Let_def)
qed

lemma score_total: "length (chars name) < 2 ^ 31 \<Longrightarrow> \<exists>r. score U query name = Ok r"
  using score_candidate by blast

text \<open>
  C26: A name is a candidate for a query exactly when the query, lowercased and stripped of everything but
  letters and digits, is a non-empty subsequence of the name so stripped: \<open>score\<close> then returns a
  number and otherwise nothing, and it never panics.
\<close>
theorem score_iff_subsequence:
  assumes "length (chars name) < 2 ^ 31"
  shows "\<exists>r. score U query name = Ok r \<and>
    (r \<noteq> None \<longleftrightarrow> normalize_name U query \<noteq> [] \<and>
       subseq (chars (normalize_name U query)) (map (lower1 U) (filter (is_alphanumeric U) (chars name))))"
  using assms by (rule score_candidate)

theorem score_iff_subsequence_witness:
  "\<exists>r. score ascii_unicode (lit ''wS'') (lit ''workspaceSymbol'') = Ok r \<and> r \<noteq> None"
proof -
  have c: "chars (lit ''workspaceSymbol'') = map (\<lambda>b. [b]) (lit ''workspaceSymbol'')" "chars (lit ''wS'') = map (\<lambda>b. [b]) (lit ''wS'')"
    by (simp_all add: lit_def chars_ascii)
  then have "chars (normalize_name ascii_unicode (lit ''wS'')) = map (\<lambda>b. [b]) (lit ''ws'')"
    by (simp add: normalize_name_def lit_def is_alphanumeric_def is_alphabetic_def is_ascii_def ascii_upper_def ascii_lower_def
        lower1_def to_lowercase_def chars_ascii)
  then show ?thesis
    using score_iff_subsequence[of "lit ''workspaceSymbol''" ascii_unicode "lit ''wS''"] c
    by (auto simp: lit_def is_alphanumeric_def is_alphabetic_def is_ascii_def ascii_upper_def ascii_lower_def
        lower1_def to_lowercase_def)
qed

end
