(* ===== verification/Search.thy ===== *)
theory Search
  imports Fuzzy_Rank Segment_Scan Sample_Segment "HOL-Library.List_Lexorder" "HOL-Library.Product_Lexorder" "HOL-Library.Multiset" "HOL-Library.AList"
begin

text \<open>
  The workspace-symbol index of \<open>crates/ls-store/src/search.rs\<close>: building it from an opened segment and
  the ranked search. A hash set of rows is a list without repetitions and a hash map of candidates a list
  of pairs with distinct rows, both in insertion order, one of the orders a hash table may be traversed in;
  the ranking is shown to be a function of the set of candidates alone (\<open>ranked_hits_scored\<close>). \<open>partition_point\<close> is the standard library's, on
  vectors that \<open>build\<close> has sorted.
\<close>

section \<open>The index\<close>

definition FUZZY_CANDIDATE_CAP :: nat where "FUZZY_CANDIDATE_CAP = 5000"

record workspace_symbol_hit =
  wh_symbol_ord :: u32
  wh_display :: str
  wh_owner :: str
  wh_package_name :: str
  wh_kind :: i32
  wh_def_doc_ord :: i32
  wh_def_target_ord :: i32
  wh_symbol_id :: i64
  wh_doc_id :: i64
  wh_target_id :: i64

record search_row_data =
  rw_symbol_ord :: u32
  rw_display :: str
  rw_owner :: str
  rw_package_name :: str
  rw_kind :: i32
  rw_def_doc_ord :: i32
  rw_def_target_ord :: i32
  rw_symbol_id :: i64
  rw_doc_id :: i64
  rw_target_id :: i64

record search_index =
  ix_rows :: "search_row_data list"
  ix_tokens :: "(str \<times> u32) list"
  ix_norm_sorted :: "(str \<times> u32) list"
  ix_init_sorted :: "(str \<times> u32) list"
  ix_display_set :: "str list"
  ix_last_fuzzy_candidate_count :: nat

definition token_step :: "unicode \<Rightarrow> rchar \<Rightarrow> str list \<times> str \<Rightarrow> str list \<times> str" where
  "token_step U c = (\<lambda>(out, cur).
     if is_alphanumeric U c then (out, cur @ lower1 U c)
     else if cur \<noteq> [] then (out @ [cur], [])
     else (out, cur))"

definition field_tokens :: "unicode \<Rightarrow> str \<Rightarrow> str list" where
  "field_tokens U s =
     (case fold (token_step U) (chars s) ([], []) of (out, cur) \<Rightarrow> if cur \<noteq> [] then out @ [cur] else out)"

text \<open>\<open>slice::partition_point\<close> on a slice whose elements satisfying the predicate come first.\<close>
definition partition_point :: "('a \<Rightarrow> bool) \<Rightarrow> 'a list \<Rightarrow> nat" where
  "partition_point P xs = length (takeWhile P xs)"

fun fill_loop :: "str \<Rightarrow> nat \<Rightarrow> (str \<times> u32) list \<Rightarrow> u32 list \<Rightarrow> u32 list" where
  "fill_loop pre cap [] out = out"
| "fill_loop pre cap ((k, r) # rest) out =
     (if \<not> prefix pre k \<or> cap \<le> length out then out else fill_loop pre cap rest (List.insert r out))"

definition fill_prefix :: "(str \<times> u32) list \<Rightarrow> str \<Rightarrow> nat \<Rightarrow> u32 list \<Rightarrow> u32 list" where
  "fill_prefix srt pre cap out =
     (let start = partition_point (\<lambda>(k, _). k < pre) srt in fill_loop pre cap (drop start srt) out)"

definition resolve_row :: "segment_reader \<Rightarrow> u32 \<Rightarrow> search_row_data seg_result" where
  "resolve_row rd sy =
     and_then (symbol_meta rd (unat sy)) (\<lambda>meta.
     and_then (symbol_view_at rd (unat sy)) (\<lambda>view.
     and_then (if 0 \<le>s sm_def_doc_ord meta \<and> sm_def_doc_ord meta < rd_doc_count rd
               then doc_id_of rd (unat (sm_def_doc_ord meta)) else Ok (- 1)) (\<lambda>doc_id.
     and_then (if 0 \<le>s sv_def_target_ord view \<and> usize_of_i32 (sv_def_target_ord view) < rd_target_count rd
               then target_id_of rd (unat (sv_def_target_ord view)) else Ok (- 1)) (\<lambda>target_id.
       Ok \<lparr>rw_symbol_ord = sy, rw_display = sm_display meta, rw_owner = sm_owner meta,
           rw_package_name = sm_package_name meta, rw_kind = sm_kind meta, rw_def_doc_ord = sm_def_doc_ord meta,
           rw_def_target_ord = sv_def_target_ord view, rw_symbol_id = sv_symbol_id view,
           rw_doc_id = doc_id, rw_target_id = target_id\<rparr>))))"

definition add_row :: "unicode \<Rightarrow> search_row_data \<Rightarrow> search_index \<Rightarrow> search_index" where
  "add_row U r ix =
     (let row = of_nat (length (ix_rows ix));
          toks = concat (map (field_tokens U) [rw_display r, rw_owner r, rw_package_name r]);
          norm = normalize_name U (rw_display r);
          init = initials U (rw_display r)
      in ix\<lparr>ix_tokens := ix_tokens ix @ map (\<lambda>t. (t, row)) toks,
            ix_norm_sorted := (if norm \<noteq> [] then ix_norm_sorted ix @ [(norm, row)] else ix_norm_sorted ix),
            ix_init_sorted := (if init \<noteq> [] then ix_init_sorted ix @ [(init, row)] else ix_init_sorted ix),
            ix_display_set := (if rw_display r \<noteq> [] then List.insert (rw_display r) (ix_display_set ix) else ix_display_set ix),
            ix_rows := ix_rows ix @ [r]\<rparr>)"

definition index_row :: "unicode \<Rightarrow> segment_reader \<Rightarrow> nat \<Rightarrow> search_index \<Rightarrow> search_index seg_result" where
  "index_row U rd i ix =
     and_then (search_row rd i) (\<lambda>(_, sy).
       if sy <s 0 \<or> rd_symbol_count rd \<le> usize_of_i32 sy then Ok ix
       else and_then (resolve_row rd sy) (\<lambda>r. Ok (add_row U r ix)))"

definition empty_index :: search_index where
  "empty_index = \<lparr>ix_rows = [], ix_tokens = [], ix_norm_sorted = [], ix_init_sorted = [], ix_display_set = [],
     ix_last_fuzzy_candidate_count = 0\<rparr>"

definition build_search_index :: "unicode \<Rightarrow> segment_reader \<Rightarrow> search_index seg_result" where
  "build_search_index U rd =
     and_then (search_row_count rd) (\<lambda>n.
     and_then (fold_o (index_row U rd) [0..<nat (sint n)] empty_index) (\<lambda>ix.
       Ok (ix\<lparr>ix_tokens := sort (ix_tokens ix), ix_norm_sorted := sort (ix_norm_sorted ix),
             ix_init_sorted := sort (ix_init_sorted ix)\<rparr>)))"

section \<open>Searching\<close>

definition workspace_symbol_name_exists :: "search_index \<Rightarrow> str \<Rightarrow> bool" where
  "workspace_symbol_name_exists ix name \<longleftrightarrow> name \<noteq> [] \<and> name \<in> set (ix_display_set ix)"

definition hit_of_row :: "search_row_data \<Rightarrow> workspace_symbol_hit" where
  "hit_of_row r =
     \<lparr>wh_symbol_ord = rw_symbol_ord r, wh_display = rw_display r, wh_owner = rw_owner r, wh_package_name = rw_package_name r,
      wh_kind = rw_kind r, wh_def_doc_ord = rw_def_doc_ord r, wh_def_target_ord = rw_def_target_ord r,
      wh_symbol_id = rw_symbol_id r, wh_doc_id = rw_doc_id r, wh_target_id = rw_target_id r\<rparr>"

definition row_at :: "search_index \<Rightarrow> u32 \<Rightarrow> search_row_data rank_result" where
  "row_at ix r = index_o (ix_rows ix) (unat r)"

definition prefix_and :: "search_index \<Rightarrow> str list \<Rightarrow> u32 list" where
  "prefix_and ix qtokens =
     (let per_token = map (\<lambda>t. fill_prefix (ix_tokens ix) t (2 ^ 64 - 1) []) qtokens
      in fold (\<lambda>s acc. filter (\<lambda>r. r \<in> set s) acc) (tl per_token) (hd per_token))"

type_synonym candidates = "(u32 \<times> i32 option) list"

definition add_prefix_candidate :: "unicode \<Rightarrow> search_index \<Rightarrow> str \<Rightarrow> u32 \<Rightarrow> candidates \<Rightarrow> candidates rank_result" where
  "add_prefix_candidate U ix query r cand =
     and_then (row_at ix r) (\<lambda>row. and_then (score U query (rw_display row)) (\<lambda>s. Ok (AList.update r s cand)))"

definition add_fuzzy_candidate :: "unicode \<Rightarrow> search_index \<Rightarrow> str \<Rightarrow> u32 \<Rightarrow> candidates \<Rightarrow> candidates rank_result" where
  "add_fuzzy_candidate U ix query r cand =
     (if map_of cand r \<noteq> None then Ok cand
      else and_then (row_at ix r) (\<lambda>row. and_then (score U query (rw_display row)) (\<lambda>s.
             case s of Some v \<Rightarrow> Ok (AList.update r (Some v) cand) | None \<Rightarrow> Ok cand)))"

definition fuzzy_rows :: "search_index \<Rightarrow> str \<Rightarrow> u32 list" where
  "fuzzy_rows ix tok =
     (let first = hd (chars tok)
      in fill_prefix (ix_init_sorted ix) first FUZZY_CANDIDATE_CAP
           (fill_prefix (ix_norm_sorted ix) first FUZZY_CANDIDATE_CAP []))"

text \<open>The sort key: scored before unscored, higher score first, then the symbol ordinal.\<close>
definition rank_key :: "search_row_data \<Rightarrow> i32 option \<Rightarrow> bool \<times> int \<times> nat" where
  "rank_key row s = (s = None, - sint (case s of Some v \<Rightarrow> v | None \<Rightarrow> 0x80000000), unat (rw_symbol_ord row))"

definition ranked_hits :: "search_index \<Rightarrow> nat \<Rightarrow> candidates \<Rightarrow> workspace_symbol_hit list rank_result" where
  "ranked_hits ix limit cand =
     and_then (map_o (\<lambda>(r, s). and_then (row_at ix r) (\<lambda>row. Ok (rank_key row s, row))) cand) (\<lambda>keyed.
       Ok (map (hit_of_row \<circ> snd) (take limit (sort_key fst keyed))))"

definition workspace_symbol_search ::
  "unicode \<Rightarrow> search_index \<Rightarrow> str \<Rightarrow> nat \<Rightarrow> (workspace_symbol_hit list \<times> search_index) rank_result" where
  "workspace_symbol_search U ix query limit =
     (let ix0 = ix\<lparr>ix_last_fuzzy_candidate_count := 0\<rparr>; qtokens = field_tokens U query
      in if qtokens = [] \<or> limit = 0 then Ok ([], ix0)
         else
           and_then (fold_o (add_prefix_candidate U ix query) (prefix_and ix qtokens) []) (\<lambda>cand.
           and_then (if length qtokens = 1
                     then (let fuzzy = fuzzy_rows ix (hd qtokens)
                           in and_then (fold_o (add_fuzzy_candidate U ix query) fuzzy cand) (\<lambda>cand'.
                                Ok (cand', ix0\<lparr>ix_last_fuzzy_candidate_count := length fuzzy\<rparr>)))
                     else Ok (cand, ix0)) (\<lambda>(cand', ix1).
           and_then (ranked_hits ix limit cand') (\<lambda>hits. Ok (hits, ix1)))))"


section \<open>Prefix ranges of a sorted vector\<close>

lemma prefix_le: "prefix pre k \<Longrightarrow> (pre :: str) \<le> k"
  by (induction pre arbitrary: k) (auto simp: prefix_def)

lemma prefix_range_end: "(pre :: str) \<le> k \<Longrightarrow> \<not> prefix pre k \<Longrightarrow> k \<le> k' \<Longrightarrow> \<not> prefix pre k'"
proof (induction pre arbitrary: k k')
  case (Cons b pre)
  from Cons.prems(1) obtain c k1 where k: "k = c # k1" by (cases k) auto
  then obtain c' k1' where k': "k' = c' # k1'" using Cons.prems(3) by (cases k') auto
  show ?case using Cons k k' by (auto split: if_splits)
qed simp

definition starting :: "str \<Rightarrow> (str \<times> u32) list \<Rightarrow> u32 set" where
  "starting pre xs = {r. \<exists>k. (k, r) \<in> set xs \<and> prefix pre k}"

lemma starting_simps [simp]:
  "starting pre [] = {}" "starting pre ((k, r) # xs) = (if prefix pre k then insert r (starting pre xs) else starting pre xs)"
  "starting pre (xs @ ys) = starting pre xs \<union> starting pre ys"
  by (auto simp: starting_def)

lemma fill_loop_extends: "set out \<subseteq> set (fill_loop pre cap xs out)"
  by (induction pre cap xs out rule: fill_loop.induct) auto

lemma fill_loop_facts:
  assumes "distinct out"
  shows "distinct (fill_loop pre cap xs out)"
    and "set (fill_loop pre cap xs out) \<subseteq> set out \<union> starting pre xs"
    and "length out \<le> cap \<Longrightarrow> length (fill_loop pre cap xs out) \<le> cap"
  using assms by (induction pre cap xs out rule: fill_loop.induct) (auto simp: List.insert_def)

lemma fill_loop_complete:
  assumes "sorted xs" and "\<forall>(k, r) \<in> set xs. pre \<le> k" and "length (fill_loop pre cap xs out) < cap"
  shows "starting pre xs \<subseteq> set (fill_loop pre cap xs out)"
  using assms
proof (induction pre cap xs out rule: fill_loop.induct)
  case (2 pre cap k r rest out)
  show ?case
  proof (cases "prefix pre k")
    case True
    then show ?thesis
      using 2 fill_loop_extends[of "List.insert r out" pre cap rest] by (auto simp: starting_def split: if_splits)
  next
    case False
    have "\<not> prefix pre k'" if "(k', r') \<in> set rest" for k' r'
      using False prefix_range_end[of pre k k'] "2.prems"(1,2) that by (force simp: less_eq_prod_def)
    then show ?thesis using False by (auto simp: starting_def)
  qed
qed (simp add: starting_def)


text \<open>On a sorted vector \<open>fill_prefix\<close> adds rows whose key has the prefix, all of them unless it stops at the cap.\<close>
lemma fill_prefix_facts:
  fixes pre :: str
  assumes "sorted xs" and "distinct out" and "length out \<le> cap"
  defines "res \<equiv> fill_prefix xs pre cap out"
  shows "distinct res" and "length res \<le> cap" and "set out \<subseteq> set res" and "set res \<subseteq> set out \<union> starting pre xs"
    and "length res < cap \<Longrightarrow> set res = set out \<union> starting pre xs"
proof -
  let ?below = "takeWhile (\<lambda>(k, _). k < pre) xs" and ?rest = "dropWhile (\<lambda>(k, _). k < pre) xs"
  have rest: "drop (partition_point (\<lambda>(k, _). k < pre) xs) xs = ?rest"
    by (simp add: partition_point_def dropWhile_eq_drop)
  have low: "starting pre ?below = {}"
    using prefix_le by (force simp: starting_def dest: set_takeWhileD)
  have "sorted (?below @ ?rest)" using assms(1) by simp
  then have sorted: "sorted ?rest" by (simp only: sorted_append)
  have ge: "\<forall>(k, r) \<in> set ?rest. pre \<le> k"
  proof (cases ?rest)
    case (Cons x ys)
    then have "\<not> (case x of (k, _) \<Rightarrow> k < pre)" using hd_dropWhile[of "\<lambda>(k, _). k < pre" xs] by (metis list.distinct(1) list.sel(1))
    then have "pre \<le> fst x" by (simp add: case_prod_beta)
    moreover have "\<forall>y \<in> set ys. fst x \<le> fst y" using sorted Cons by (auto simp: less_eq_prod_def)
    ultimately show ?thesis using Cons by force
  next
    case Nil
    then show ?thesis by (simp only: list.set ball_empty)
  qed
  have start: "starting pre xs = starting pre ?rest"
    using low starting_simps(3)[of pre ?below ?rest] by simp
  show "distinct res" "length res \<le> cap" "set out \<subseteq> set res" "set res \<subseteq> set out \<union> starting pre xs"
    using fill_loop_facts[OF assms(2), where pre = pre and cap = cap and xs = ?rest] assms(3) fill_loop_extends[of out pre cap ?rest]
    by (simp_all add: res_def fill_prefix_def rest start)
  then show "set res = set out \<union> starting pre xs" if "length res < cap"
    using fill_loop_complete[OF sorted ge, of cap out] that by (auto simp: res_def fill_prefix_def rest start)
qed

lemma fill_prefix_all:
  assumes "sorted xs"
  shows "set (fill_prefix xs pre (2 ^ 64 - 1) []) = starting pre xs" and "distinct (fill_prefix xs pre (2 ^ 64 - 1) [])"
proof -
  note facts = fill_prefix_facts[OF assms, of "[]" "2 ^ 64 - 1" pre]
  show dist: "distinct (fill_prefix xs pre (2 ^ 64 - 1) [])" using facts(1) by simp
  have "card (set (fill_prefix xs pre (2 ^ 64 - 1) [])) \<le> card (UNIV :: u32 set)" by (rule card_mono) auto
  then have "length (fill_prefix xs pre (2 ^ 64 - 1) []) \<le> 2 ^ 32" using distinct_card[OF dist] by (simp add: card_word)
  then show "set (fill_prefix xs pre (2 ^ 64 - 1) []) = starting pre xs" using facts(5) by simp
qed

section \<open>The index that \<open>build\<close> makes\<close>

definition row_tokens :: "unicode \<Rightarrow> search_row_data \<Rightarrow> str list" where
  "row_tokens U r = concat (map (field_tokens U) [rw_display r, rw_owner r, rw_package_name r])"

definition name_keys :: "unicode \<Rightarrow> (unicode \<Rightarrow> str \<Rightarrow> str) \<Rightarrow> search_row_data \<Rightarrow> str list" where
  "name_keys U f r = (if f U (rw_display r) \<noteq> [] then [f U (rw_display r)] else [])"

text \<open>The keys of every row, paired with the row's number.\<close>
definition keyed_by :: "(search_row_data \<Rightarrow> str list) \<Rightarrow> search_row_data list \<Rightarrow> (str \<times> u32) list" where
  "keyed_by f rows = concat (map (\<lambda>(i, r). map (\<lambda>t. (t, of_nat i)) (f r)) (enumerate 0 rows))"

lemma keyed_by_snoc: "keyed_by f (rows @ [r]) = keyed_by f rows @ map (\<lambda>t. (t, of_nat (length rows))) (f r)"
  by (simp add: keyed_by_def enumerate_append_eq)

lemma starting_keyed_by:
  "starting pre (keyed_by f rows) = {of_nat i | i. i < length rows \<and> (\<exists>t \<in> set (f (rows ! i)). prefix pre t)}"
  by (force simp: starting_def keyed_by_def in_set_enumerate_eq)

definition contents_ok :: "unicode \<Rightarrow> segment_reader \<Rightarrow> search_index \<Rightarrow> bool" where
  "contents_ok U rd ix \<longleftrightarrow>
     ix_tokens ix = keyed_by (row_tokens U) (ix_rows ix) \<and>
     ix_norm_sorted ix = keyed_by (name_keys U normalize_name) (ix_rows ix) \<and>
     ix_init_sorted ix = keyed_by (name_keys U initials) (ix_rows ix) \<and>
     set (ix_display_set ix) = rw_display ` set (ix_rows ix) - {[]} \<and>
     (\<forall>r \<in> set (ix_rows ix). resolve_row rd (rw_symbol_ord r) = Ok r)"

lemma add_row_ok: "contents_ok U rd ix \<Longrightarrow> resolve_row rd (rw_symbol_ord r) = Ok r \<Longrightarrow> contents_ok U rd (add_row U r ix)"
  by (auto simp: contents_ok_def add_row_def Let_def keyed_by_snoc row_tokens_def name_keys_def)

lemma resolve_row_ord: "resolve_row rd s = Ok r \<Longrightarrow> rw_symbol_ord r = s"
  by (auto simp: resolve_row_def and_then_eq_Ok)

lemma index_row_ok: "contents_ok U rd ix \<Longrightarrow> index_row U rd i ix = Ok ix' \<Longrightarrow> contents_ok U rd ix'"
  by (auto simp: index_row_def and_then_eq_Ok split: if_splits prod.splits intro!: add_row_ok dest: resolve_row_ord)

lemma index_rows_ok: "contents_ok U rd ix \<Longrightarrow> fold_o (index_row U rd) is ix = Ok ix' \<Longrightarrow> contents_ok U rd ix'"
  by (induction "is" arbitrary: ix) (auto simp: and_then_eq_Ok dest: index_row_ok)

text \<open>What a built index holds.\<close>
definition index_ok :: "unicode \<Rightarrow> search_index \<Rightarrow> bool" where
  "index_ok U ix \<longleftrightarrow>
     sorted (ix_tokens ix) \<and> sorted (ix_norm_sorted ix) \<and> sorted (ix_init_sorted ix) \<and>
     mset (ix_tokens ix) = mset (keyed_by (row_tokens U) (ix_rows ix)) \<and>
     mset (ix_norm_sorted ix) = mset (keyed_by (name_keys U normalize_name) (ix_rows ix)) \<and>
     mset (ix_init_sorted ix) = mset (keyed_by (name_keys U initials) (ix_rows ix)) \<and>
     set (ix_display_set ix) = rw_display ` set (ix_rows ix) - {[]} \<and>
     (\<forall>r \<in> set (ix_rows ix). \<forall>r' \<in> set (ix_rows ix). rw_symbol_ord r = rw_symbol_ord r' \<longrightarrow> r = r')"

lemma build_index_ok:
  assumes "build_search_index U rd = Ok ix"
  shows "index_ok U ix"
proof -
  from assms obtain n :: i64 and ix0 where ix0: "fold_o (index_row U rd) [0..<nat (sint n)] empty_index = Ok ix0"
    "ix = ix0\<lparr>ix_tokens := sort (ix_tokens ix0), ix_norm_sorted := sort (ix_norm_sorted ix0), ix_init_sorted := sort (ix_init_sorted ix0)\<rparr>"
    unfolding build_search_index_def and_then_eq_Ok outcome.inject by (elim exE conjE) (rule that, assumption, simp)
  have "contents_ok U rd empty_index" by (simp add: contents_ok_def empty_index_def keyed_by_def)
  then have ok: "contents_ok U rd ix0" using ix0(1) by (rule index_rows_ok)
  then have "r = r'" if "r \<in> set (ix_rows ix0)" "r' \<in> set (ix_rows ix0)" "rw_symbol_ord r = rw_symbol_ord r'" for r r'
    using that by (metis contents_ok_def outcome.inject(1))
  then show ?thesis using ok unfolding ix0(2) index_ok_def contents_ok_def by simp
qed

lemma starting_mset: "mset xs = mset ys \<Longrightarrow> starting pre xs = starting pre ys"
  by (drule mset_eq_setD) (simp add: starting_def)


section \<open>What a search returns\<close>

definition row_score :: "unicode \<Rightarrow> str \<Rightarrow> search_index \<Rightarrow> nat \<Rightarrow> i32 option" where
  "row_score U query ix i = (case score U query (rw_display (ix_rows ix ! i)) of Ok s \<Rightarrow> s | _ \<Rightarrow> None)"

definition row_rank :: "unicode \<Rightarrow> str \<Rightarrow> search_index \<Rightarrow> nat \<Rightarrow> bool \<times> int \<times> nat" where
  "row_rank U query ix i = rank_key (ix_rows ix ! i) (row_score U query ix i)"

text \<open>The rows that match every query token by prefix, and the rows a fuzzy pull may start from.\<close>
definition matching :: "unicode \<Rightarrow> search_index \<Rightarrow> str list \<Rightarrow> nat set" where
  "matching U ix qtokens =
     {i. i < length (ix_rows ix) \<and> (\<forall>t \<in> set qtokens. \<exists>tok \<in> set (row_tokens U (ix_rows ix ! i)). prefix t tok)}"

definition starters :: "unicode \<Rightarrow> search_index \<Rightarrow> str \<Rightarrow> nat set" where
  "starters U ix c =
     {i. i < length (ix_rows ix) \<and>
         (prefix c (normalize_name U (rw_display (ix_rows ix ! i))) \<or> prefix c (initials U (rw_display (ix_rows ix ! i))))}"

definition displays_ok :: "search_index \<Rightarrow> bool" where
  "displays_ok ix \<longleftrightarrow> length (ix_rows ix) < 2 ^ 32 \<and> list_all (\<lambda>r. length (chars (rw_display r)) < 2 ^ 31) (ix_rows ix)"

lemma score_row:
  assumes "displays_ok ix" and "i < length (ix_rows ix)"
  shows "score U query (rw_display (ix_rows ix ! i)) = Ok (row_score U query ix i)"
proof -
  have "length (chars (rw_display (ix_rows ix ! i))) < 2 ^ 31"
    using assms by (simp add: displays_ok_def list_all_length)
  then obtain r where "score U query (rw_display (ix_rows ix ! i)) = Ok r"
    using score_total by blast
  then show ?thesis by (simp add: row_score_def)
qed

lemma unat_row: "i < 2 ^ 32 \<Longrightarrow> unat (of_nat i :: u32) = i"
  by (simp add: unat_of_nat take_bit_nat_eq_self)

lemma row_at_of_nat: "displays_ok ix \<Longrightarrow> i < length (ix_rows ix) \<Longrightarrow> row_at ix (of_nat i) = Ok (ix_rows ix ! i)"
  by (simp add: row_at_def index_o_def displays_ok_def unat_row)

definition scored :: "unicode \<Rightarrow> str \<Rightarrow> search_index \<Rightarrow> nat list \<Rightarrow> candidates" where
  "scored U query ix is = map (\<lambda>i. (of_nat i, row_score U query ix i)) is"

lemma update_new: "r \<notin> fst ` set cand \<Longrightarrow> AList.update r s cand = cand @ [(r, s)]"
  by (induction cand) auto

lemma of_nat_rows_inj:
  "displays_ok ix \<Longrightarrow> i < length (ix_rows ix) \<Longrightarrow> j < length (ix_rows ix) \<Longrightarrow> (of_nat i :: u32) = of_nat j \<longleftrightarrow> i = j"
  by (metis (no_types) displays_ok_def less_trans unat_row)

lemma add_prefix_loop:
  assumes "displays_ok ix" and "distinct (ks @ is)" and "\<forall>i \<in> set (ks @ is). i < length (ix_rows ix)"
  shows "fold_o (add_prefix_candidate U ix query) (map of_nat is) (scored U query ix ks) = Ok (scored U query ix (ks @ is))"
  using assms(2,3)
proof (induction "is" arbitrary: ks)
  case (Cons i "is")
  have "(of_nat i :: u32) \<notin> fst ` set (scored U query ix ks)"
    using Cons.prems of_nat_rows_inj[OF assms(1)] by (auto simp: scored_def)
  then have "add_prefix_candidate U ix query (of_nat i) (scored U query ix ks) = Ok (scored U query ix (ks @ [i]))"
    using Cons.prems by (simp add: add_prefix_candidate_def row_at_of_nat[OF assms(1)] score_row[OF assms(1)] update_new)
      (simp add: scored_def)
  then show ?case using Cons.IH[of "ks @ [i]"] Cons.prems by simp
qed simp

lemma add_fuzzy_loop:
  assumes "displays_ok ix" and "distinct is" and "\<forall>i \<in> set (ks @ is). i < length (ix_rows ix)"
  shows "fold_o (add_fuzzy_candidate U ix query) (map of_nat is) (scored U query ix ks) =
    Ok (scored U query ix (ks @ filter (\<lambda>i. i \<notin> set ks \<and> row_score U query ix i \<noteq> None) is))"
  using assms(2,3)
proof (induction "is" arbitrary: ks)
  case (Cons i "is")
  have mem: "map_of (scored U query ix ks) (of_nat i) = None \<longleftrightarrow> i \<notin> set ks"
    using Cons.prems(2) of_nat_rows_inj[OF assms(1)] by (force simp: scored_def map_of_eq_None_iff)
  show ?case
  proof (cases "i \<notin> set ks \<and> row_score U query ix i \<noteq> None")
    case True
    then have "(of_nat i :: u32) \<notin> fst ` set (scored U query ix ks)" using mem by (simp add: map_of_eq_None_iff)
    then have "add_fuzzy_candidate U ix query (of_nat i) (scored U query ix ks) = Ok (scored U query ix (ks @ [i]))"
      using Cons.prems True mem
      by (auto simp: add_fuzzy_candidate_def row_at_of_nat[OF assms(1)] score_row[OF assms(1)] update_new scored_def)
    moreover have "filter (\<lambda>j. j \<notin> set (ks @ [i]) \<and> row_score U query ix j \<noteq> None) is =
        filter (\<lambda>j. j \<notin> set ks \<and> row_score U query ix j \<noteq> None) is"
      using Cons.prems(1) by (intro filter_cong) auto
    ultimately show ?thesis using Cons.IH[of "ks @ [i]"] Cons.prems True by simp
  next
    case False
    then have "add_fuzzy_candidate U ix query (of_nat i) (scored U query ix ks) = Ok (scored U query ix ks)"
      using Cons.prems mem by (auto simp: add_fuzzy_candidate_def row_at_of_nat[OF assms(1)] score_row[OF assms(1)])
    then show ?thesis using Cons.IH[of ks] Cons.prems False by auto
  qed
qed simp

lemma sort_key_determines:
  assumes "mset (map k xs) = mset (map l ys)" and "\<And>x. x \<in> set xs \<Longrightarrow> f x = g (k x)" and "\<And>y. y \<in> set ys \<Longrightarrow> h y = g (l y)"
  shows "map f (take n (sort_key k xs)) = map h (take n (sort_key l ys))"
proof -
  have "map f (take n (sort_key k xs)) = map g (take n (map k (sort_key k xs)))"
    using assms(2) by (simp add: take_map) (metis in_set_takeD set_sort)
  also have "map k (sort_key k xs) = sort (map k xs)" by (rule properties_for_sort[symmetric]) simp_all
  also have "sort (map k xs) = sort (map l ys)" by (rule properties_for_sort) (simp_all add: assms(1)[unfolded mset_map])
  also have "\<dots> = map l (sort_key l ys)" by (rule properties_for_sort) simp_all
  also have "map g (take n (map l (sort_key l ys))) = map h (take n (sort_key l ys))"
    using assms(3) by (simp add: take_map) (metis in_set_takeD set_sort)
  finally show ?thesis .
qed

text \<open>The ranking depends on the set of candidates only, not on the order a hash table lists them in.\<close>
lemma ranked_hits_scored:
  assumes "displays_ok ix" and "index_ok U ix" and "distinct is" and "\<forall>i \<in> set is. i < length (ix_rows ix)"
  shows "ranked_hits ix limit (scored U query ix is) =
    Ok (map (\<lambda>i. hit_of_row (ix_rows ix ! i)) (take limit (sort_key (row_rank U query ix) (sorted_list_of_set (set is)))))"
proof -
  let ?row = "\<lambda>i. ix_rows ix ! i" and ?rank = "row_rank U query ix"
  have keyed: "map_o (\<lambda>(r, s). and_then (row_at ix r) (\<lambda>row. Ok (rank_key row s, row))) (scored U query ix is) =
      (Ok (map (\<lambda>i. (?rank i, ?row i)) is) :: (_, unit) outcome)"
    using assms(4) by (simp add: map_o_Ok scored_def row_rank_def row_at_of_nat[OF assms(1)])
  define g where "g key = hit_of_row (SOME r. r \<in> set (ix_rows ix) \<and> unat (rw_symbol_ord r) = snd (snd key))" for key :: "bool \<times> int \<times> nat"
  have g: "hit_of_row (?row i) = g (?rank i)" if "i \<in> set is" for i
  proof -
    have "?row i \<in> set (ix_rows ix)" using that assms(4) by simp
    moreover have "snd (snd (?rank i)) = unat (rw_symbol_ord (?row i))" by (simp add: row_rank_def rank_key_def)
    ultimately have "(SOME r. r \<in> set (ix_rows ix) \<and> unat (rw_symbol_ord r) = snd (snd (?rank i))) = ?row i"
      using assms(2) by (intro some_equality) (simp, metis index_ok_def word_unat_eq_iff)
    then show ?thesis by (simp add: g_def)
  qed
  have "mset (map fst (map (\<lambda>i. (?rank i, ?row i)) is)) = mset (map ?rank (sorted_list_of_set (set is)))"
    using set_eq_iff_mset_eq_distinct[of "is" "sorted_list_of_set (set is)"] assms(3) by (simp add: comp_def)
  then have "map (hit_of_row \<circ> snd) (take limit (sort_key fst (map (\<lambda>i. (?rank i, ?row i)) is))) =
      map (\<lambda>i. hit_of_row (?row i)) (take limit (sort_key ?rank (sorted_list_of_set (set is))))"
    by (rule sort_key_determines[where g = g]) (auto simp: g)
  then show ?thesis by (simp add: ranked_hits_def keyed)
qed


lemma rows_as_nats:
  fixes rs :: "u32 list"
  assumes "displays_ok ix" and "set rs = of_nat ` A" and "A \<subseteq> {..<length (ix_rows ix)}" and "distinct rs"
  obtains "is" where "rs = map of_nat is" "distinct is" "set is = A"
proof
  have A: "unat (of_nat i :: u32) = i" if "i \<in> A" for i
    using that assms(1,3) by (intro unat_row) (auto simp: displays_ok_def)
  show "rs = map of_nat (map unat rs)" by (simp add: map_idI)
  show "set (map unat rs) = A" using assms(2) A by (auto simp: image_image)
  show "distinct (map unat rs)" using assms(4) by (simp add: distinct_map inj_on_def word_unat_eq_iff)
qed

lemma prefix_and_set:
  assumes "displays_ok ix" and "index_ok U ix" and "qtokens \<noteq> []"
  shows "set (prefix_and ix qtokens) = of_nat ` matching U ix qtokens" and "distinct (prefix_and ix qtokens)"
proof -
  let ?per = "\<lambda>t. fill_prefix (ix_tokens ix) t (2 ^ 64 - 1) []"
  have sorted: "sorted (ix_tokens ix)" using assms(2) by (simp add: index_ok_def)
  have per: "set (?per t) = {of_nat i | i. i < length (ix_rows ix) \<and> (\<exists>tok \<in> set (row_tokens U (ix_rows ix ! i)). prefix t tok)}" for t
    using fill_prefix_all(1)[OF sorted] starting_mset[of "ix_tokens ix" "keyed_by (row_tokens U) (ix_rows ix)"] assms(2)
    by (simp add: starting_keyed_by index_ok_def)
  have fold: "set (fold (\<lambda>s acc. filter (\<lambda>r. r \<in> set s) acc) ss acc) = {r \<in> set acc. \<forall>s \<in> set ss. r \<in> set s} \<and>
      (distinct acc \<longrightarrow> distinct (fold (\<lambda>s acc. filter (\<lambda>r. r \<in> set s) acc) ss acc))" for ss :: "u32 list list" and acc
    by (induction ss arbitrary: acc) auto
  obtain t ts where q: "qtokens = t # ts" using assms(3) by (cases qtokens) auto
  show "distinct (prefix_and ix qtokens)"
    using fold fill_prefix_all(2)[OF sorted] by (simp add: prefix_and_def q)
  have "set (prefix_and ix qtokens) = {r. \<forall>t \<in> set qtokens. r \<in> set (?per t)}"
    using fold[of "map ?per ts" "?per t"] by (auto simp: prefix_and_def q)
  also have "\<dots> = of_nat ` matching U ix qtokens"
    unfolding per using of_nat_rows_inj[OF assms(1)] by (auto simp: matching_def q) blast+
  finally show "set (prefix_and ix qtokens) = of_nat ` matching U ix qtokens" .
qed

lemma fuzzy_rows_set:
  assumes "displays_ok ix" and "index_ok U ix" and "tok \<noteq> []"
  obtains F where "set (fuzzy_rows ix tok) = of_nat ` F" "distinct (fuzzy_rows ix tok)" "length (fuzzy_rows ix tok) = card F"
    "F \<subseteq> starters U ix (hd (chars tok))" "card F \<le> 5000" "card F < 5000 \<Longrightarrow> F = starters U ix (hd (chars tok))"
proof -
  let ?c = "hd (chars tok)"
  let ?n = "fill_prefix (ix_norm_sorted ix) ?c FUZZY_CANDIDATE_CAP []"
  have "?c \<noteq> []" using assms(3) chars_nonempty[of ?c tok] by (simp add: hd_in_set)
  have name: "starting ?c (keyed_by (name_keys U f) (ix_rows ix)) = of_nat ` {i. i < length (ix_rows ix) \<and> prefix ?c (f U (rw_display (ix_rows ix ! i)))}" for f
    using \<open>?c \<noteq> []\<close> by (auto simp: starting_keyed_by name_keys_def)
  have sorted: "sorted (ix_norm_sorted ix)" "sorted (ix_init_sorted ix)" using assms(2) by (simp_all add: index_ok_def)
  note n = fill_prefix_facts[OF sorted(1), of "[]" FUZZY_CANDIDATE_CAP ?c, simplified]
  note i = fill_prefix_facts[OF sorted(2) n(1) n(2), of ?c]
  have start: "starting ?c (ix_norm_sorted ix) \<union> starting ?c (ix_init_sorted ix) = of_nat ` starters U ix ?c"
    using starting_mset[of "ix_norm_sorted ix" "keyed_by (name_keys U normalize_name) (ix_rows ix)"]
      starting_mset[of "ix_init_sorted ix" "keyed_by (name_keys U initials) (ix_rows ix)"] assms(2)
    by (auto simp: index_ok_def name starters_def)
  have fz: "fuzzy_rows ix tok = fill_prefix (ix_init_sorted ix) ?c FUZZY_CANDIDATE_CAP ?n" by (simp add: fuzzy_rows_def Let_def)
  have sub: "set (fuzzy_rows ix tok) \<subseteq> of_nat ` starters U ix ?c" using n(4) i(4) start unfolding fz by blast
  have full: "set (fuzzy_rows ix tok) = of_nat ` starters U ix ?c" if "length (fuzzy_rows ix tok) < FUZZY_CANDIDATE_CAP"
  proof -
    have "length ?n \<le> length (fuzzy_rows ix tok)"
      using i(1,3) n(1) unfolding fz by (metis card_mono distinct_card finite_set)
    then show ?thesis using n(5) i(5) that start unfolding fz by simp
  qed
  define F where "F = {j \<in> starters U ix ?c. of_nat j \<in> set (fuzzy_rows ix tok)}"
  have inj: "inj_on (of_nat :: nat \<Rightarrow> u32) (starters U ix ?c)"
    using of_nat_rows_inj[OF assms(1)] by (auto simp: inj_on_def starters_def)
  have F: "set (fuzzy_rows ix tok) = of_nat ` F" using sub by (auto simp: F_def)
  have "F \<subseteq> starters U ix ?c" by (auto simp: F_def)
  then have card: "length (fuzzy_rows ix tok) = card F"
    using distinct_card[OF i(1), folded fz] card_image[OF inj_on_subset[OF inj]] F by metis
  show thesis
  proof (rule that[OF F _ card \<open>F \<subseteq> starters U ix ?c\<close>])
    show "distinct (fuzzy_rows ix tok)" using i(1) by (simp add: fz)
    show "card F \<le> 5000" using i(2) card by (simp add: fz FUZZY_CANDIDATE_CAP_def)
    show "F = starters U ix ?c" if "card F < 5000" using full that card by (auto simp: F_def FUZZY_CANDIDATE_CAP_def)
  qed
qed


lemma field_tokens_nonempty: "t \<in> set (field_tokens U s) \<Longrightarrow> t \<noteq> []"
proof -
  have "[] \<notin> set out \<Longrightarrow> [] \<notin> set (fst (fold (token_step U) cs (out, cur)))" for cs out cur
    by (induction cs arbitrary: out cur) (auto simp: token_step_def)
  from this[of "[]" "chars s" "[]"] show "t \<in> set (field_tokens U s) \<Longrightarrow> t \<noteq> []"
    by (cases "fold (token_step U) (chars s) ([], [])") (auto simp: field_tokens_def split: if_splits)
qed

text \<open>
  C27: A workspace-symbol search over a built index never panics and returns exactly the ranking it
  promises: the rows of which every query token is a prefix of some display, owner or package token, and
  for a query of one token also the rows of the fuzzy pull that the query is a subsequence of, ordered by
  score and then symbol ordinal and cut at the limit. The pull holds at most 5000 rows, misses a row with
  the right first character only when it is full, and the ranking is a function of the set of candidates.
\<close>
theorem workspace_symbol_search_exact:
  assumes "build_search_index U rd = Ok ix" and "displays_ok ix" and "field_tokens U query \<noteq> []" and "0 < limit"
  shows "\<exists>F. workspace_symbol_search U ix query limit =
      Ok (map (\<lambda>i. hit_of_row (ix_rows ix ! i))
            (take limit (sort_key (row_rank U query ix)
               (sorted_list_of_set (matching U ix (field_tokens U query) \<union> {i \<in> F. row_score U query ix i \<noteq> None})))),
          ix\<lparr>ix_last_fuzzy_candidate_count := card F\<rparr>) \<and>
    (if length (field_tokens U query) = 1
     then F \<subseteq> starters U ix (hd (chars (hd (field_tokens U query)))) \<and> card F \<le> 5000 \<and>
       (card F < 5000 \<longrightarrow> F = starters U ix (hd (chars (hd (field_tokens U query)))))
     else F = {})"
proof -
  let ?q = "field_tokens U query" and ?M = "matching U ix (field_tokens U query)"
  have ok: "index_ok U ix" using assms(1) by (rule build_index_ok)
  note p = prefix_and_set[OF assms(2) ok assms(3)]
  have "?M \<subseteq> {..<length (ix_rows ix)}" by (auto simp: matching_def)
  with p obtain ms where ms: "prefix_and ix ?q = map of_nat ms" "distinct ms" "set ms = ?M"
    using rows_as_nats[OF assms(2)] by metis
  have loop: "fold_o (add_prefix_candidate U ix query) (prefix_and ix ?q) [] = (Ok (scored U query ix ms) :: (_, unit) outcome)"
    using add_prefix_loop[OF assms(2), of "[]" ms] ms by (simp add: matching_def scored_def)
  have rank: "ranked_hits ix limit (scored U query ix is) = Ok (map (\<lambda>i. hit_of_row (ix_rows ix ! i))
      (take limit (sort_key (row_rank U query ix) (sorted_list_of_set (set is)))))" if "distinct is" "\<forall>i \<in> set is. i < length (ix_rows ix)" for "is"
    using ranked_hits_scored[OF assms(2) ok that] .
  show ?thesis
  proof (cases "length ?q = 1")
    case False
    then show ?thesis
      using loop rank[of ms] ms assms(3,4) by (intro exI[of _ "{}"]) (simp add: workspace_symbol_search_def Let_def matching_def)
  next
    case True
    have "hd ?q \<noteq> []" using assms(3) by (intro field_tokens_nonempty[of _ U query]) simp
    then obtain F where F: "set (fuzzy_rows ix (hd ?q)) = of_nat ` F" "distinct (fuzzy_rows ix (hd ?q))"
      "length (fuzzy_rows ix (hd ?q)) = card F" "F \<subseteq> starters U ix (hd (chars (hd ?q)))" "card F \<le> 5000"
      "card F < 5000 \<Longrightarrow> F = starters U ix (hd (chars (hd ?q)))"
      using fuzzy_rows_set[OF assms(2) ok] by metis
    have rows: "F \<subseteq> {..<length (ix_rows ix)}" using F(4) by (auto simp: starters_def)
    then obtain fs where fs: "fuzzy_rows ix (hd ?q) = map of_nat fs" "distinct fs" "set fs = F"
      using rows_as_nats[OF assms(2) F(1) _ F(2)] by metis
    let ?all = "ms @ filter (\<lambda>i. i \<notin> set ms \<and> row_score U query ix i \<noteq> None) fs"
    have "fold_o (add_fuzzy_candidate U ix query) (fuzzy_rows ix (hd ?q)) (scored U query ix ms) = (Ok (scored U query ix ?all) :: (_, unit) outcome)"
      unfolding fs(1) using ms(3) fs(3) rows by (intro add_fuzzy_loop[OF assms(2) fs(2)]) (auto simp: matching_def)
    moreover have "set ?all = ?M \<union> {i \<in> F. row_score U query ix i \<noteq> None}" using ms(3) fs(3) by auto
    moreover have "ranked_hits ix limit (scored U query ix ?all) = Ok (map (\<lambda>i. hit_of_row (ix_rows ix ! i))
      (take limit (sort_key (row_rank U query ix) (sorted_list_of_set (set ?all)))))"
      using ms fs rows by (intro rank) (auto simp: matching_def)
    ultimately show ?thesis
      using loop F(3,4,5,6) True assms(3,4) by (intro exI[of _ F]) (simp add: workspace_symbol_search_def Let_def)
  qed
qed


section \<open>Opened segments can be indexed\<close>

lemma unwrap_read:
  "off + 4 \<le> length b \<Longrightarrow> \<exists>v. unwrap (read_i32 b off) = (Ok v :: _ seg_result)"
  "off + 4 \<le> length b \<Longrightarrow> \<exists>v. unwrap (read_u32 b off) = (Ok v :: _ seg_result)"
  "off + 8 \<le> length b \<Longrightarrow> \<exists>v. unwrap (read_i64 b off) = (Ok v :: _ seg_result)"
  using i32_codec.read_Some_iff[of b off] u32_codec.read_Some_iff[of b off] i64_codec.read_Some_iff[of b off] by auto

lemma and_then_total: "\<exists>v. m = Ok v \<Longrightarrow> (\<And>v. \<exists>r. k v = Ok r) \<Longrightarrow> \<exists>r. and_then m k = Ok r"
  by auto

lemma Ok_total: "\<exists>r. Ok x = Ok r"
  by blast

lemma row_fits: "i < n \<Longrightarrow> k + w \<le> sz \<Longrightarrow> i * sz + k + w \<le> n * (sz :: nat)"
  by (metis add.assoc add_le_cancel_left le_trans mult_Suc mult_le_mono1 Suc_leI add.commute)

lemma resolve_row_total:
  assumes "sizes_ok rd z" and "unat s < rd_symbol_count rd"
  shows "\<exists>r. resolve_row rd s = Ok r"
proof -
  have len: "length (seg_file rd SYMBOL_META) = 16 + rd_symbol_count rd * 48 + sz_smb z"
    "length (seg_file rd DOC_INDEX) = 24 + unat (rd_doc_count rd) * 48 + sz_ic z * 24 + sz_ub z"
    "24 + rd_symbol_count rd * 32 + rd_target_count rd * 8 \<le> length (seg_file rd SYMBOL_INDEX)"
    using assms(1) by (auto simp: sizes_ok_def)
  have meta: "unat s * 48 + 48 \<le> rd_symbol_count rd * 48" and view: "unat s * 32 + 32 \<le> rd_symbol_count rd * 32"
    using row_fits[OF assms(2), of 0 48 48] row_fits[OF assms(2), of 0 32 32] by simp_all
  have "\<exists>m. symbol_meta rd (unat s) = Ok m"
    unfolding symbol_meta_def Let_def SYMBOL_META_ENTRY_SIZE_def
    by (intro and_then_total unwrap_read Ok_total) (use len(1) meta in simp_all)
  then obtain m where m: "symbol_meta rd (unat s) = Ok m" ..
  have "\<exists>v. symbol_view_at rd (unat s) = Ok v"
    unfolding symbol_view_at_def Let_def symbol_entry_base_def SYMBOL_ENTRY_SIZE_def
    by (intro and_then_total unwrap_read Ok_total) (use len(3) view in simp_all)
  then obtain v where v: "symbol_view_at rd (unat s) = Ok v" ..
  have doc: "\<exists>i. doc_id_of rd (unat d) = Ok i" if "d < rd_doc_count rd" for d
    using unwrap_read(3)[of "24 + unat d * 48 + 8" "seg_file rd DOC_INDEX"] len(2)
      row_fits[of "unat d" "unat (rd_doc_count rd)" 8 8 48] that
    by (simp add: doc_id_of_def doc_entry_base_def DOC_ENTRY_SIZE_def word_less_nat_alt)
  have target: "\<exists>i. target_id_of rd t = Ok i" if "t < rd_target_count rd" for t
    using unwrap_read(3)[of "24 + rd_symbol_count rd * 32 + t * 8" "seg_file rd SYMBOL_INDEX"] len(3) row_fits[OF that, of 0 8 8]
    by (simp add: target_id_of_def SYMBOL_ENTRY_SIZE_def)
  have "unat t = usize_of_i32 t" if "0 \<le>s t" for t :: i32
    using that usize_of_i32_nonneg[of t] unat_eq_nat_sint[of t] by (simp add: word_sle_eq)
  then show ?thesis using m v doc[of "sm_def_doc_ord m"] target[of "unat (sv_def_target_ord v)"] by (auto simp: resolve_row_def)
qed


lemma index_row_total:
  assumes "sizes_ok rd z" and "i < sz_src z"
  shows "\<exists>ix'. index_row U rd i ix = Ok ix'"
proof -
  have len: "length (seg_file rd SEARCH) = 16 + sz_src z * 16 + sz_srb z" using assms(1) by (simp add: sizes_ok_def)
  have "i * 16 + 16 \<le> sz_src z * 16" using row_fits[OF assms(2), of 0 16 16] by simp
  then have "\<exists>p. search_row rd i = Ok p"
    unfolding search_row_def search_row_count_def Let_def
    by (intro and_then_total unwrap_read Ok_total) (use len in simp_all)
  then obtain nm s where row: "search_row rd i = Ok (nm, s)" by (metis surj_pair)
  show ?thesis
  proof (cases "s <s 0 \<or> rd_symbol_count rd \<le> usize_of_i32 s")
    case False
    then have "unat s < rd_symbol_count rd"
      using usize_of_i32_nonneg[of s] unat_eq_nat_sint[of s] by (simp add: word_sless_alt not_less)
    then show ?thesis using resolve_row_total[OF assms(1)] row by (force simp: index_row_def)
  qed (simp add: index_row_def row)
qed

text \<open>
  C28: Every segment that opens can be indexed: the search index is built without a panic and without an
  error, and a name exists in it exactly when a row displays it.
\<close>
theorem opened_segment_is_searchable:
  assumes "open_segment crc dir = Ok rd"
  shows "\<exists>ix. build_search_index U rd = Ok ix \<and>
    (\<forall>name. workspace_symbol_name_exists ix name \<longleftrightarrow> name \<noteq> [] \<and> name \<in> rw_display ` set (ix_rows ix))"
proof -
  from open_segment_opened[OF assms] obtain z where sz: "sizes_ok rd z" by (auto simp: opened_def)
  then obtain n where n: "search_row_count rd = Ok n" "unat n = sz_src z" by (auto simp: search_row_count_def sizes_ok_def)
  have "nat (sint n) \<le> sz_src z" using n(2) unat_eq_nat_sint[of n] by (cases "0 \<le> sint n") auto
  then have "\<exists>ix. fold_o (index_row U rd) [0..<nat (sint n)] empty_index = Ok ix"
    by (intro fold_o_total index_row_total[OF sz]) simp
  then have "\<exists>ix. build_search_index U rd = Ok ix" using n(1) by (auto simp: build_search_index_def)
  then show ?thesis using build_index_ok by (fastforce simp: workspace_symbol_name_exists_def index_ok_def)
qed

theorem opened_segment_is_searchable_witness:
  "\<exists>ix. build_search_index ascii_unicode sample_reader = Ok ix \<and> \<not> workspace_symbol_name_exists ix []"
  using opened_segment_is_searchable[OF sample_opens, of ascii_unicode] by auto

text \<open>The sample segment with a display name and one search row.\<close>
definition search_reader :: segment_reader where
  "search_reader = sample_reader\<lparr>rd_files := sample_files[
     SYMBOL_META := [1, 0, 0, 0, 0, 0, 0, 0, 2, 0, 0, 0, 0, 0, 0, 0, 0, 0, 0, 0, 2, 0, 0, 0, 0, 0, 0, 0, 0, 0, 0, 0,
       0, 0, 0, 0, 0, 0, 0, 0, 0, 0, 0, 0, 0, 0, 0, 0, 0, 0, 0, 0, 0, 0, 0, 0, 0, 0, 0, 0, 0, 0, 0, 0, 65, 98],
     SEARCH := [1, 0, 0, 0, 0, 0, 0, 0, 2, 0, 0, 0, 0, 0, 0, 0, 0, 0, 0, 0, 2, 0, 0, 0, 0, 0, 0, 0, 0, 0, 0, 0, 97, 98]]\<rparr>"

definition search_sample :: search_index where
  "search_sample = \<lparr>ix_rows = [\<lparr>rw_symbol_ord = 0, rw_display = lit ''Ab'', rw_owner = [], rw_package_name = [], rw_kind = 0,
       rw_def_doc_ord = 0, rw_def_target_ord = 0, rw_symbol_id = 3, rw_doc_id = 7, rw_target_id = 5\<rparr>],
     ix_tokens = [(lit ''ab'', 0)], ix_norm_sorted = [(lit ''ab'', 0)], ix_init_sorted = [(lit ''a'', 0)],
     ix_display_set = [lit ''Ab''], ix_last_fuzzy_candidate_count = 0\<rparr>"

lemma search_sample_built: "build_search_index ascii_unicode search_reader = Ok search_sample"
  by code_simp

lemma search_sample_tokens: "field_tokens ascii_unicode (lit ''A'') = [lit ''a'']"
  by code_simp

lemma search_sample_ok: "displays_ok search_sample"
  by (simp add: displays_ok_def search_sample_def lit_def chars_ascii)

theorem workspace_symbol_search_exact_witness:
  "\<exists>F. workspace_symbol_search ascii_unicode search_sample (lit ''A'') 10 =
      Ok (map (\<lambda>i. hit_of_row (ix_rows search_sample ! i))
            (take 10 (sort_key (row_rank ascii_unicode (lit ''A'') search_sample)
               (sorted_list_of_set (matching ascii_unicode search_sample [lit ''a''] \<union>
                  {i \<in> F. row_score ascii_unicode (lit ''A'') search_sample i \<noteq> None})))),
          search_sample\<lparr>ix_last_fuzzy_candidate_count := card F\<rparr>) \<and> card F \<le> 5000"
  using workspace_symbol_search_exact[OF search_sample_built search_sample_ok, of "lit ''A''" 10]
  by (simp add: search_sample_tokens) blast

end
