(* ===== verification/Pc_Codec.thy ===== *)
theory Pc_Codec
  imports Index_Model Wire Utf8 "HOL-Library.Sublist"
begin

text \<open>
  The flat codec of the presentation-compiler boundary, \<open>crates/ls-pc-abi/src/codec.rs\<close>: a \<open>Writer\<close> that
  appends fixed-width fields to a body and strings to a blob, a bounds-checked \<open>Reader\<close>, and the
  envelope. The locale \<open>abi_codec\<close> states what a pair of a writing and a reading routine promises; the
  codec's own routines and every payload are instances of it, and the rules at the end let a payload's
  law follow from those of its fields in the order in which they are written.
\<close>

text \<open>Which writes append, which reads are safe, and how to read one written field and go on.\<close>
named_theorems abi_appends and abi_safe and abi_step

section \<open>The writer\<close>

definition ABI_MAGIC :: u32 where "ABI_MAGIC = 0x4241504c"

datatype abi_error = AbiError str

type_synonym 'a abi_result = "('a, abi_error) outcome"

definition abi_len :: "nat \<Rightarrow> u32 abi_result" where
  "abi_len n = (if n < 2 ^ 32 then Ok (of_nat n) else Err (AbiError (lit ''length exceeds the u32 ABI limit'')))"

record pc_writer =
  pw_body :: "byte list"
  pw_blob :: "byte list"
  pw_overflow :: bool

definition writer_new :: pc_writer where
  "writer_new = \<lparr>pw_body = [], pw_blob = [], pw_overflow = False\<rparr>"

definition w_u32 :: "u32 \<Rightarrow> pc_writer \<Rightarrow> pc_writer" where
  "w_u32 v w = w\<lparr>pw_body := pw_body w @ put_u32 v\<rparr>"

definition w_narrow :: "nat \<Rightarrow> pc_writer \<Rightarrow> u32 \<times> pc_writer" where
  "w_narrow n w = (case abi_len n of Ok v \<Rightarrow> (v, w) | _ \<Rightarrow> (0, w\<lparr>pw_overflow := True\<rparr>))"

definition w_count :: "nat \<Rightarrow> pc_writer \<Rightarrow> pc_writer" where
  "w_count n w = (case w_narrow n w of (c, w') \<Rightarrow> w_u32 c w')"

definition w_i32 :: "i32 \<Rightarrow> pc_writer \<Rightarrow> pc_writer" where
  "w_i32 v = w_u32 v"

definition w_bool32 :: "bool \<Rightarrow> pc_writer \<Rightarrow> pc_writer" where
  "w_bool32 v = w_u32 (of_bool v)"

definition intern :: "byte list \<Rightarrow> pc_writer \<Rightarrow> (u32 \<times> u32) \<times> pc_writer" where
  "intern bytes w =
     (case w_narrow (length (pw_blob w)) w of (off, w1) \<Rightarrow>
      case w_narrow (length bytes) (w1\<lparr>pw_blob := pw_blob w1 @ bytes\<rparr>) of (len, w2) \<Rightarrow> ((off, len), w2))"

definition w_bytes :: "byte list \<Rightarrow> pc_writer \<Rightarrow> pc_writer" where
  "w_bytes bytes w = (case intern bytes w of ((off, len), w') \<Rightarrow> w_u32 len (w_u32 off w'))"

definition w_str :: "str \<Rightarrow> pc_writer \<Rightarrow> pc_writer" where
  "w_str s = w_bytes s"

text \<open>Writes in the order of the statements.\<close>
definition run_writes :: "(pc_writer \<Rightarrow> pc_writer) list \<Rightarrow> pc_writer \<Rightarrow> pc_writer" where
  "run_writes ws w = fold (\<lambda>f w. f w) ws w"

definition w_opt_bytes :: "byte list option \<Rightarrow> pc_writer \<Rightarrow> pc_writer" where
  "w_opt_bytes b = (case b of Some v \<Rightarrow> run_writes [w_u32 1, w_bytes v] | None \<Rightarrow> run_writes [w_u32 0, w_u32 0, w_u32 0])"

definition w_opt_str :: "str option \<Rightarrow> pc_writer \<Rightarrow> pc_writer" where
  "w_opt_str s = (case s of Some v \<Rightarrow> run_writes [w_u32 1, w_str v] | None \<Rightarrow> run_writes [w_u32 0, w_u32 0, w_u32 0])"

definition w_opt_i32 :: "i32 option \<Rightarrow> pc_writer \<Rightarrow> pc_writer" where
  "w_opt_i32 v = (case v of Some x \<Rightarrow> run_writes [w_u32 1, w_i32 x] | None \<Rightarrow> run_writes [w_u32 0, w_i32 0])"

definition w_opt_bool :: "bool option \<Rightarrow> pc_writer \<Rightarrow> pc_writer" where
  "w_opt_bool v = (case v of Some x \<Rightarrow> run_writes [w_u32 1, w_bool32 x] | None \<Rightarrow> run_writes [w_u32 0, w_u32 0])"

definition w_range :: "u32 \<Rightarrow> u32 \<Rightarrow> u32 \<Rightarrow> u32 \<Rightarrow> pc_writer \<Rightarrow> pc_writer" where
  "w_range sl sc el ec = run_writes [w_u32 sl, w_u32 sc, w_u32 el, w_u32 ec]"

definition w_finish :: "u32 \<Rightarrow> pc_writer \<Rightarrow> byte list abi_result" where
  "w_finish kind w =
     (if pw_overflow w then Err (AbiError (lit ''payload blob offset, field length, or count exceeds the u32 ABI limit''))
      else and_then (abi_len (length (pw_body w))) (\<lambda>body_len.
           and_then (abi_len (length (pw_blob w))) (\<lambda>blob_len.
             Ok (put_u32 ABI_MAGIC @ put_u32 kind @ put_u32 body_len @ put_u32 blob_len @ pw_body w @ pw_blob w))))"

section \<open>The reader\<close>

record pc_reader =
  cr_body :: "byte list"
  cr_blob :: "byte list"
  cr_pos :: nat

definition checked_add :: "nat \<Rightarrow> nat \<Rightarrow> nat option" where
  "checked_add a b = (if a + b < 2 ^ 64 then Some (a + b) else None)"

definition hex_digit :: "nat \<Rightarrow> byte" where
  "hex_digit d = (if d < 10 then of_nat (48 + d) else of_nat (87 + d))"

definition hex08 :: "u32 \<Rightarrow> str" where
  "hex08 v = map (\<lambda>i. hex_digit (unat v div 16 ^ i mod 16)) (rev [0..<8])"

definition reader_new :: "byte list \<Rightarrow> u32 \<Rightarrow> pc_reader abi_result" where
  "reader_new buf expected_kind =
     (if length buf < 16 then Err (AbiError (lit ''buffer shorter than the 16-byte envelope''))
      else and_then (unwrap (read_u32 buf 0)) (\<lambda>magic.
        if magic \<noteq> ABI_MAGIC then Err (AbiError (lit ''bad magic 0x'' @ hex08 magic))
        else and_then (unwrap (read_u32 buf 4)) (\<lambda>kind.
          if kind \<noteq> expected_kind
          then Err (AbiError (lit ''payload kind '' @ decimal (unat kind) @ lit '' != expected '' @ decimal (unat expected_kind)))
          else and_then (unwrap (read_u32 buf 8)) (\<lambda>body_len.
               and_then (unwrap (read_u32 buf 12)) (\<lambda>blob_len.
               and_then (ok_or (Option.bind (checked_add 16 (unat body_len)) (\<lambda>n. checked_add n (unat blob_len)))
                           (AbiError (lit ''length overflow''))) (\<lambda>total.
                 if total \<noteq> length buf
                 then Err (AbiError (lit ''declared length '' @ decimal total @ lit '' != actual '' @ decimal (length buf)))
                 else and_then (slice_o buf 16 (unat body_len)) (\<lambda>body.
                      and_then (slice_o buf (16 + unat body_len) (length buf - (16 + unat body_len))) (\<lambda>blob.
                        Ok \<lparr>cr_body = body, cr_blob = blob, cr_pos = 0\<rparr>))))))))"

definition r_take :: "nat \<Rightarrow> pc_reader \<Rightarrow> (byte list \<times> pc_reader) abi_result" where
  "r_take n r =
     and_then (ok_or (checked_add (cr_pos r) n) (AbiError (lit ''body cursor overflow''))) (\<lambda>e.
       if length (cr_body r) < e then Err (AbiError (lit ''body underrun''))
       else and_then (slice_o (cr_body r) (cr_pos r) (e - cr_pos r)) (\<lambda>s. Ok (s, r\<lparr>cr_pos := e\<rparr>)))"

definition r_u32 :: "pc_reader \<Rightarrow> (u32 \<times> pc_reader) abi_result" where
  "r_u32 r = and_then (r_take 4 r) (\<lambda>(b, r'). and_then (unwrap (read_u32 b 0)) (\<lambda>v. Ok (v, r')))"

definition r_i32 :: "pc_reader \<Rightarrow> (i32 \<times> pc_reader) abi_result" where
  "r_i32 r = and_then (r_u32 r) (\<lambda>(v, r'). Ok (v, r'))"

definition r_bool32 :: "pc_reader \<Rightarrow> (bool \<times> pc_reader) abi_result" where
  "r_bool32 r = and_then (r_u32 r) (\<lambda>(v, r'). Ok (v \<noteq> 0, r'))"

definition r_count :: "pc_reader \<Rightarrow> (nat \<times> pc_reader) abi_result" where
  "r_count r =
     and_then (r_u32 r) (\<lambda>(v, r').
       if length (cr_body r') < cr_pos r' then Panic
       else let remaining = length (cr_body r') - cr_pos r'
            in if remaining div 4 < unat v
               then Err (AbiError (lit ''list count '' @ decimal (unat v) @ lit '' exceeds the remaining body''))
               else Ok (unat v, r'))"

definition blob_slice :: "u32 \<Rightarrow> u32 \<Rightarrow> pc_reader \<Rightarrow> byte list abi_result" where
  "blob_slice off len r =
     and_then (ok_or (checked_add (unat off) (unat len)) (AbiError (lit ''blob slice overflow''))) (\<lambda>e.
       if length (cr_blob r) < e then Err (AbiError (lit ''blob slice out of range''))
       else slice_o (cr_blob r) (unat off) (e - unat off))"

definition r_str :: "pc_reader \<Rightarrow> (str \<times> pc_reader) abi_result" where
  "r_str r =
     and_then (r_u32 r) (\<lambda>(off, r1). and_then (r_u32 r1) (\<lambda>(len, r2).
     and_then (blob_slice off len r2) (\<lambda>bytes.
     and_then (ok_or (from_utf8 bytes) (AbiError (lit ''blob string is not valid UTF-8''))) (\<lambda>s. Ok (s, r2)))))"

definition r_opt_str :: "pc_reader \<Rightarrow> (str option \<times> pc_reader) abi_result" where
  "r_opt_str r =
     and_then (r_u32 r) (\<lambda>(present, r0). and_then (r_u32 r0) (\<lambda>(off, r1). and_then (r_u32 r1) (\<lambda>(len, r2).
     if present = 0 then Ok (None, r2)
     else and_then (blob_slice off len r2) (\<lambda>bytes.
          and_then (ok_or (from_utf8 bytes) (AbiError (lit ''optional blob string is not valid UTF-8''))) (\<lambda>s. Ok (Some s, r2))))))"

definition r_opt_bytes :: "pc_reader \<Rightarrow> (byte list option \<times> pc_reader) abi_result" where
  "r_opt_bytes r =
     and_then (r_u32 r) (\<lambda>(present, r0). and_then (r_u32 r0) (\<lambda>(off, r1). and_then (r_u32 r1) (\<lambda>(len, r2).
     if present = 0 then Ok (None, r2)
     else and_then (blob_slice off len r2) (\<lambda>bytes. Ok (Some bytes, r2)))))"

definition r_opt_i32 :: "pc_reader \<Rightarrow> (i32 option \<times> pc_reader) abi_result" where
  "r_opt_i32 r =
     and_then (r_u32 r) (\<lambda>(present, r1). and_then (r_i32 r1) (\<lambda>(v, r2). Ok (if present = 0 then None else Some v, r2)))"

definition r_opt_bool :: "pc_reader \<Rightarrow> (bool option \<times> pc_reader) abi_result" where
  "r_opt_bool r =
     and_then (r_u32 r) (\<lambda>(present, r1). and_then (r_bool32 r1) (\<lambda>(v, r2). Ok (if present = 0 then None else Some v, r2)))"

definition r_range :: "pc_reader \<Rightarrow> ((u32 \<times> u32 \<times> u32 \<times> u32) \<times> pc_reader) abi_result" where
  "r_range r =
     and_then (r_u32 r) (\<lambda>(sl, r1). and_then (r_u32 r1) (\<lambda>(sc, r2). and_then (r_u32 r2) (\<lambda>(el, r3).
     and_then (r_u32 r3) (\<lambda>(ec, r4). Ok ((sl, sc, el, ec), r4)))))"

definition r_finish :: "pc_reader \<Rightarrow> unit abi_result" where
  "r_finish r =
     (if cr_pos r \<noteq> length (cr_body r)
      then (if length (cr_body r) < cr_pos r then Panic
            else Err (AbiError (decimal (length (cr_body r) - cr_pos r) @ lit '' trailing body bytes'')))
      else Ok ())"

text \<open>The loops and the tagged options that the payloads write out: a count and the elements, \<open>1\<close> and the
  value or \<open>0\<close>.\<close>

definition w_list :: "('a \<Rightarrow> pc_writer \<Rightarrow> pc_writer) \<Rightarrow> 'a list \<Rightarrow> pc_writer \<Rightarrow> pc_writer" where
  "w_list wr xs = run_writes (w_count (length xs) # map wr xs)"

primrec r_times :: "(pc_reader \<Rightarrow> ('a \<times> pc_reader) abi_result) \<Rightarrow> nat \<Rightarrow> pc_reader \<Rightarrow> ('a list \<times> pc_reader) abi_result" where
  "r_times rd 0 r = Ok ([], r)"
| "r_times rd (Suc n) r = and_then (rd r) (\<lambda>(x, r'). and_then (r_times rd n r') (\<lambda>(xs, r''). Ok (x # xs, r'')))"

definition r_list :: "(pc_reader \<Rightarrow> ('a \<times> pc_reader) abi_result) \<Rightarrow> pc_reader \<Rightarrow> ('a list \<times> pc_reader) abi_result" where
  "r_list rd r = and_then (r_count r) (\<lambda>(n, r'). r_times rd n r')"

definition w_option :: "('a \<Rightarrow> pc_writer \<Rightarrow> pc_writer) \<Rightarrow> 'a option \<Rightarrow> pc_writer \<Rightarrow> pc_writer" where
  "w_option wr v = (case v of Some x \<Rightarrow> run_writes [w_u32 1, wr x] | None \<Rightarrow> w_u32 0)"

definition r_option :: "(pc_reader \<Rightarrow> ('a \<times> pc_reader) abi_result) \<Rightarrow> pc_reader \<Rightarrow> ('a option \<times> pc_reader) abi_result" where
  "r_option rd r =
     and_then (r_u32 r) (\<lambda>(present, r'). if present \<noteq> 0 then and_then (rd r') (\<lambda>(v, r''). Ok (Some v, r'')) else Ok (None, r'))"

section \<open>What a codec promises\<close>

text \<open>\<open>writer_ext w f\<close>: the writer \<open>f\<close> is \<open>w\<close> after further writes; \<open>writer_fits f\<close>: \<open>finish\<close> accepts it;
  \<open>reader_at f w\<close>: a reader of the finished \<open>f\<close> at the place where \<open>w\<close> had ended.\<close>

definition writer_ext :: "pc_writer \<Rightarrow> pc_writer \<Rightarrow> bool" where
  "writer_ext w f \<longleftrightarrow> prefix (pw_body w) (pw_body f) \<and> prefix (pw_blob w) (pw_blob f) \<and> (pw_overflow w \<longrightarrow> pw_overflow f)"

definition writer_fits :: "pc_writer \<Rightarrow> bool" where
  "writer_fits f \<longleftrightarrow> \<not> pw_overflow f \<and> length (pw_body f) < 2 ^ 32 \<and> length (pw_blob f) < 2 ^ 32"

definition reader_at :: "pc_writer \<Rightarrow> pc_writer \<Rightarrow> pc_reader" where
  "reader_at f w = \<lparr>cr_body = pw_body f, cr_blob = pw_blob f, cr_pos = length (pw_body w)\<rparr>"

definition reader_in_body :: "pc_reader \<Rightarrow> bool" where
  "reader_in_body r \<longleftrightarrow> cr_pos r \<le> length (cr_body r)"

text \<open>A write only appends, at least one 4-byte field; a read stays in the body and never panics.\<close>

definition appends :: "(pc_writer \<Rightarrow> pc_writer) \<Rightarrow> bool" where
  "appends g \<longleftrightarrow> (\<forall>w. writer_ext w (g w) \<and> length (pw_body w) + 4 \<le> length (pw_body (g w)))"

definition reads_safely :: "(pc_reader \<Rightarrow> ('a \<times> pc_reader) abi_result) \<Rightarrow> bool" where
  "reads_safely rd \<longleftrightarrow>
     (\<forall>r. reader_in_body r \<longrightarrow> rd r \<noteq> Panic \<and> (\<forall>v r'. rd r = Ok (v, r') \<longrightarrow> reader_in_body r'))"

definition reads_back :: "(pc_writer \<Rightarrow> pc_writer) \<Rightarrow> (pc_reader \<Rightarrow> ('a \<times> pc_reader) abi_result) \<Rightarrow> 'a \<Rightarrow> bool" where
  "reads_back g rd v \<longleftrightarrow>
     (\<forall>w f. writer_ext (g w) f \<longrightarrow> writer_fits f \<longrightarrow> rd (reader_at f w) = Ok (v, reader_at f (g w)))"

locale abi_codec =
  fixes wr :: "'v \<Rightarrow> pc_writer \<Rightarrow> pc_writer" and rd :: "pc_reader \<Rightarrow> ('v \<times> pc_reader) abi_result" and ok :: "'v \<Rightarrow> bool"
  assumes wr_appends: "appends (wr v)"
    and rd_safe: "reads_safely rd"
    and rd_back: "ok v \<Longrightarrow> reads_back (wr v) rd v"

text \<open>A whole payload: one value between the envelope and the end of the body.\<close>

definition encode_payload :: "u32 \<Rightarrow> (pc_writer \<Rightarrow> pc_writer) \<Rightarrow> byte list abi_result" where
  "encode_payload kind g = w_finish kind (g writer_new)"

definition decode_payload :: "u32 \<Rightarrow> (pc_reader \<Rightarrow> ('v \<times> pc_reader) abi_result) \<Rightarrow> byte list \<Rightarrow> 'v abi_result" where
  "decode_payload kind rd buf =
     and_then (reader_new buf kind) (\<lambda>r. and_then (rd r) (\<lambda>(v, r'). and_then (r_finish r') (\<lambda>_. Ok v)))"

lemma writer_ext_refl [simp]: "writer_ext w w"
  by (simp add: writer_ext_def)

lemma writer_ext_trans: "writer_ext a b \<Longrightarrow> writer_ext b c \<Longrightarrow> writer_ext a c"
  by (auto simp: writer_ext_def intro: prefix_order.trans)

lemma run_writes_simps [simp]: "run_writes [] w = w" "run_writes (g # gs) w = run_writes gs (g w)"
  by (simp_all add: run_writes_def)

lemma run_writes_ext: "list_all appends gs \<Longrightarrow> writer_ext w (run_writes gs w)"
  by (induction gs arbitrary: w) (auto simp: appends_def intro: writer_ext_trans)

lemma run_writes_appends: "list_all appends gs \<Longrightarrow> gs \<noteq> [] \<Longrightarrow> appends (run_writes gs)"
proof (cases gs)
  case (Cons g gs')
  assume ok: "list_all appends gs"
  then have g: "appends g" and gs': "list_all appends gs'" using Cons by simp_all
  have "writer_ext (g w) (run_writes gs' (g w))" for w by (rule run_writes_ext[OF gs'])
  then show ?thesis
    using g Cons unfolding appends_def
    by (auto intro: writer_ext_trans) (metis (no_types) add_le_mono1 le_trans prefix_length_le writer_ext_def)
qed simp

text \<open>Sequences of reads against sequences of writes.\<close>

definition decodes :: "(pc_writer \<Rightarrow> pc_writer) list \<Rightarrow> (pc_reader \<Rightarrow> ('a \<times> pc_reader) abi_result) \<Rightarrow> 'a \<Rightarrow> bool" where
  "decodes gs rd v \<longleftrightarrow> list_all appends gs \<and> reads_back (run_writes gs) rd v"

lemma decodes_Nil: "decodes [] (\<lambda>r. Ok (v, r)) v"
  by (simp add: decodes_def reads_back_def)

lemma decodes_step:
  assumes "appends g" and "reads_back g rd a" and "decodes gs (k a) v"
  shows "decodes (g # gs) (\<lambda>r. and_then (rd r) (\<lambda>(x, r'). k x r')) v"
proof -
  have "and_then (rd (reader_at f w)) (\<lambda>(x, r'). k x r') = Ok (v, reader_at f (run_writes gs (g w)))"
    if ext: "writer_ext (run_writes gs (g w)) f" and fits: "writer_fits f" for w f
  proof -
    have "writer_ext (g w) f" using run_writes_ext ext assms(3) writer_ext_trans unfolding decodes_def by blast
    then have "rd (reader_at f w) = Ok (a, reader_at f (g w))" using assms(2) fits by (simp add: reads_back_def)
    moreover have "k a (reader_at f (g w)) = Ok (v, reader_at f (run_writes gs (g w)))"
      using assms(3) ext fits by (simp add: decodes_def reads_back_def)
    ultimately show ?thesis by simp
  qed
  then show ?thesis using assms(1,3) by (simp add: decodes_def reads_back_def)
qed

lemma decodes_reads_back: "decodes gs rd v \<Longrightarrow> reads_back (run_writes gs) rd v"
  by (simp add: decodes_def)

lemma safe_Ok: "reads_safely (\<lambda>r. Ok (v, r))"
  by (simp add: reads_safely_def)

lemma safe_Err: "reads_safely (\<lambda>r. Err e)"
  by (simp add: reads_safely_def)

lemma safe_step:
  assumes "reads_safely rd" and "\<And>a. reads_safely (k a)"
  shows "reads_safely (\<lambda>r. and_then (rd r) (\<lambda>(x, r'). k x r'))"
proof -
  have "and_then (rd r) (\<lambda>(x, r'). k x r') \<noteq> Panic \<and>
      (\<forall>v r''. and_then (rd r) (\<lambda>(x, r'). k x r') = Ok (v, r'') \<longrightarrow> reader_in_body r'')" if "reader_in_body r" for r
  proof (cases "rd r")
    case (Ok p)
    obtain a r' where "p = (a, r')" by (cases p)
    moreover from this have "reader_in_body r'" using assms(1) that Ok by (simp add: reads_safely_def)
    ultimately show ?thesis using assms(2)[of a] Ok by (simp add: reads_safely_def)
  qed (use assms(1) that in \<open>auto simp: reads_safely_def\<close>)
  then show ?thesis by (simp add: reads_safely_def)
qed

lemma safe_if: "reads_safely a \<Longrightarrow> reads_safely b \<Longrightarrow> reads_safely (\<lambda>r. if c then a r else b r)"
  by (cases c) simp_all


section \<open>The codec's own fields\<close>

lemma appends_u32: "appends (w_u32 v)"
  by (simp add: appends_def writer_ext_def w_u32_def)

lemma safe_u32: "reads_safely r_u32"
proof -
  have "r_u32 r \<noteq> Panic \<and> (\<forall>v r'. r_u32 r = Ok (v, r') \<longrightarrow> reader_in_body r')" if "reader_in_body r" for r
    using that u32_codec.read_None_iff[of "take 4 (drop (cr_pos r) (cr_body r))" 0]
    by (auto simp: r_u32_def r_take_def checked_add_def slice_o_def reader_in_body_def outcome_elims and_then_eq_Panic
        split: if_splits)
  then show ?thesis by (simp add: reads_safely_def)
qed

lemma back_u32: "reads_back (w_u32 v) r_u32 v"
proof -
  have "r_u32 (reader_at f w) = Ok (v, reader_at f (w_u32 v w))" if ext: "writer_ext (w_u32 v w) f" and fits: "writer_fits f" for w f
  proof -
    obtain t where t: "pw_body f = pw_body w @ put_u32 v @ t"
      using ext by (auto simp: writer_ext_def w_u32_def prefix_def)
    have "length (pw_body w) + 4 < 2 ^ 64" using fits t by (simp add: writer_fits_def)
    then show ?thesis
      by (simp add: r_u32_def r_take_def reader_at_def t checked_add_def slice_o_def w_u32_def u32_codec.read_put)
  qed
  then show ?thesis by (simp add: reads_back_def)
qed

interpretation u32_field: abi_codec w_u32 r_u32 "\<lambda>_. True"
  by unfold_locales (simp_all add: appends_u32 safe_u32 back_u32)

text \<open>A field whose value is computed from the word read.\<close>
lemma decodes_map:
  assumes "reads_back g rd a" and "h a = b"
  shows "reads_back g (\<lambda>r. and_then (rd r) (\<lambda>(x, r'). Ok (h x, r'))) b"
  using assms by (simp add: reads_back_def)

lemma back_i32: "reads_back (w_i32 v) r_i32 v"
  using decodes_map[OF back_u32, of "\<lambda>x. x" v v] by (simp add: w_i32_def r_i32_def[abs_def])

lemma back_bool32: "reads_back (w_bool32 v) r_bool32 v"
  using decodes_map[OF back_u32, of "\<lambda>x. x \<noteq> 0" "of_bool v" v] by (simp add: w_bool32_def r_bool32_def[abs_def])

lemma safe_i32: "reads_safely r_i32"
  unfolding r_i32_def[abs_def] by (intro safe_step safe_u32 safe_Ok)

lemma safe_bool32: "reads_safely r_bool32"
  unfolding r_bool32_def[abs_def] by (intro safe_step safe_u32 safe_Ok)

interpretation i32_field: abi_codec w_i32 r_i32 "\<lambda>_. True"
  by unfold_locales (simp_all add: w_i32_def appends_u32 safe_i32 back_i32[unfolded w_i32_def])

interpretation bool32_field: abi_codec w_bool32 r_bool32 "\<lambda>_. True"
  by unfold_locales (simp_all add: w_bool32_def appends_u32 safe_bool32 back_bool32[unfolded w_bool32_def])

section \<open>Blobs\<close>

lemma intern_facts:
  assumes "intern bytes w = ((off, len), w')"
  shows "pw_body w' = pw_body w" and "pw_blob w' = pw_blob w @ bytes" and "pw_overflow w \<Longrightarrow> pw_overflow w'"
    and "\<not> pw_overflow w' \<Longrightarrow> unat off = length (pw_blob w) \<and> unat len = length bytes"
  using assms by (auto simp: intern_def w_narrow_def abi_len_def unat_of_nat take_bit_nat_eq_self split: if_splits)

lemma appends_bytes: "appends (w_bytes b)"
  by (auto simp: appends_def writer_ext_def w_bytes_def w_u32_def dest: intern_facts split: prod.splits)

lemma blob_slice_ok: "blob_slice off len r \<noteq> Panic"
  by (auto simp: blob_slice_def checked_add_def slice_o_def and_then_eq_Panic)

text \<open>The \<open>offset, len\<close> pair that \<open>w_bytes\<close> leaves in the body leads to the interned bytes.\<close>
lemma bytes_ref_back:
  assumes "writer_ext (w_bytes b w) f" and "writer_fits f"
  shows "\<exists>off len r. r_u32 (reader_at f w) = Ok (off, r) \<and> r_u32 r = Ok (len, reader_at f (w_bytes b w)) \<and>
    blob_slice off len (reader_at f (w_bytes b w)) = Ok b"
proof -
  obtain off len w' where i: "intern b w = ((off, len), w')" by (metis prod.exhaust)
  note facts = intern_facts[OF i]
  have wb: "w_bytes b w = w_u32 len (w_u32 off w')" by (simp add: w_bytes_def i)
  have "writer_ext (w_u32 off w') f"
    using assms(1) appends_u32[of len] unfolding wb appends_def by (meson writer_ext_trans)
  then have r1: "r_u32 (reader_at f w) = Ok (off, reader_at f (w_u32 off w'))"
    using back_u32[of off] assms(2) facts(1) unfolding reads_back_def by (metis reader_at_def)
  have r2: "r_u32 (reader_at f (w_u32 off w')) = Ok (len, reader_at f (w_bytes b w))"
    using back_u32[of len] assms unfolding reads_back_def wb by simp
  have "\<not> pw_overflow w'" using assms unfolding wb by (auto simp: writer_ext_def writer_fits_def w_u32_def)
  then have ol: "unat off = length (pw_blob w)" "unat len = length b" using facts(4) by simp_all
  obtain t where t: "pw_blob f = pw_blob w @ b @ t"
    using assms(1) facts(2) unfolding wb by (auto simp: writer_ext_def w_u32_def prefix_def)
  have "length (pw_blob w) + length b < 2 ^ 64" using assms(2) t by (simp add: writer_fits_def)
  then have "blob_slice off len (reader_at f (w_bytes b w)) = Ok b"
    by (simp add: blob_slice_def reader_at_def ol t checked_add_def slice_o_def)
  with r1 r2 show ?thesis by blast
qed


lemma back_blob:
  assumes "\<And>r. k b r = Ok (v, r)"
  shows "reads_back (w_bytes b) (\<lambda>r. and_then (r_u32 r) (\<lambda>(off, r1). and_then (r_u32 r1) (\<lambda>(len, r2).
    and_then (blob_slice off len r2) (\<lambda>bytes. k bytes r2)))) v"
  unfolding reads_back_def
proof (intro allI impI)
  fix w f assume "writer_ext (w_bytes b w) f" "writer_fits f"
  from bytes_ref_back[OF this] obtain off len r where
    "r_u32 (reader_at f w) = Ok (off, r)" "r_u32 r = Ok (len, reader_at f (w_bytes b w))"
    "blob_slice off len (reader_at f (w_bytes b w)) = Ok b" by blast
  then show "and_then (r_u32 (reader_at f w)) (\<lambda>(off, r1). and_then (r_u32 r1) (\<lambda>(len, r2).
    and_then (blob_slice off len r2) (\<lambda>bytes. k bytes r2))) = Ok (v, reader_at f (w_bytes b w))" by (simp add: assms)
qed

lemma safe_pure: "(\<And>r. m r \<noteq> Panic) \<Longrightarrow> (\<And>x. reads_safely (k x)) \<Longrightarrow> reads_safely (\<lambda>r. and_then (m r) (\<lambda>x. k x r))"
  by (auto simp: reads_safely_def and_then_eq_Ok and_then_eq_Panic)

lemmas safe_rules = safe_step safe_if safe_pure safe_Ok safe_Err safe_u32 safe_i32 safe_bool32 blob_slice_ok ok_or_neq_Panic

lemma safe_str: "reads_safely r_str"
  unfolding r_str_def[abs_def] by (intro safe_rules)

lemma safe_opt_str: "reads_safely r_opt_str"
  unfolding r_opt_str_def[abs_def] by (intro safe_rules)

lemma safe_opt_bytes: "reads_safely r_opt_bytes"
  unfolding r_opt_bytes_def[abs_def] by (intro safe_rules)

lemma safe_opt_i32: "reads_safely r_opt_i32"
  unfolding r_opt_i32_def[abs_def] by (intro safe_rules)

lemma safe_opt_bool: "reads_safely r_opt_bool"
  unfolding r_opt_bool_def[abs_def] by (intro safe_rules)

lemma back_str: "utf8_valid s \<Longrightarrow> reads_back (w_str s) r_str s"
  unfolding r_str_def[abs_def] w_str_def by (rule back_blob) (simp add: from_utf8_def)

lemma appends_str: "appends (w_str s)"
  by (simp add: w_str_def appends_bytes)

interpretation str_field: abi_codec w_str r_str utf8_valid
  by unfold_locales (simp_all add: safe_str back_str appends_str)

section \<open>Optional fields\<close>

lemma decodes_last: "appends g \<Longrightarrow> reads_back g rd v \<Longrightarrow> decodes [g] rd v"
  by (simp add: decodes_def reads_back_def)

lemma decodes_single: "decodes [g] rd v \<Longrightarrow> reads_back g rd v"
  by (simp add: decodes_def reads_back_def)

lemmas always_ok [simp] = option.pred_True list.pred_True

lemma decodes_u32: "decodes gs (k a) v \<Longrightarrow> decodes (w_u32 a # gs) (\<lambda>r. and_then (r_u32 r) (\<lambda>(x, r'). k x r')) v"
  by (rule decodes_step[OF appends_u32 back_u32])

lemmas appends_rules = run_writes_appends appends_u32 appends_bytes appends_str u32_field.wr_appends i32_field.wr_appends bool32_field.wr_appends

lemma appends_opt_str: "appends (w_opt_str v)"
  by (cases v) (auto simp: w_opt_str_def intro!: appends_rules)

lemma appends_opt_bytes: "appends (w_opt_bytes v)"
  by (cases v) (auto simp: w_opt_bytes_def intro!: appends_rules)

lemma appends_opt_i32: "appends (w_opt_i32 v)"
  by (cases v) (auto simp: w_opt_i32_def intro!: appends_rules)

lemma appends_opt_bool: "appends (w_opt_bool v)"
  by (cases v) (auto simp: w_opt_bool_def intro!: appends_rules)

lemma back_opt_blob:
  assumes "\<And>r. k b r = Ok (v, r)"
  shows "reads_back (run_writes [w_u32 1, w_bytes b]) (\<lambda>r. and_then (r_u32 r) (\<lambda>(present, r0). and_then (r_u32 r0) (\<lambda>(off, r1).
    and_then (r_u32 r1) (\<lambda>(len, r2). if present = 0 then Ok (none, r2) else and_then (blob_slice off len r2) (\<lambda>bytes. k bytes r2))))) v"
  by (intro decodes_reads_back decodes_u32 decodes_last appends_bytes) (simp add: back_blob assms)

lemma back_no_blob:
  "reads_back (run_writes [w_u32 0, w_u32 0, w_u32 0]) (\<lambda>r. and_then (r_u32 r) (\<lambda>(present, r0). and_then (r_u32 r0) (\<lambda>(off, r1).
    and_then (r_u32 r1) (\<lambda>(len, r2). if present = 0 then Ok (v, r2) else k off len r2)))) v"
  by (intro decodes_reads_back decodes_u32) (simp add: decodes_Nil)

lemma back_opt_str: "pred_option utf8_valid v \<Longrightarrow> reads_back (w_opt_str v) r_opt_str v"
  unfolding r_opt_str_def[abs_def] w_opt_str_def
  by (cases v) (auto simp: w_str_def from_utf8_def back_no_blob simp del: run_writes_simps intro!: back_opt_blob)

lemma back_opt_bytes: "reads_back (w_opt_bytes v) r_opt_bytes v"
  unfolding r_opt_bytes_def[abs_def] w_opt_bytes_def
  by (cases v) (auto simp: back_no_blob simp del: run_writes_simps intro!: back_opt_blob)

lemma back_opt_i32: "reads_back (w_opt_i32 v) r_opt_i32 v"
  unfolding r_opt_i32_def[abs_def] w_opt_i32_def
  by (cases v) (auto simp del: run_writes_simps intro!: decodes_reads_back decodes_u32 decodes_step[OF i32_field.wr_appends back_i32] decodes_Nil)

lemma back_opt_bool: "reads_back (w_opt_bool v) r_opt_bool v"
proof (cases v)
  case None
  have "decodes [w_u32 0, w_bool32 False] r_opt_bool None"
    unfolding r_opt_bool_def[abs_def]
    by (intro decodes_u32 decodes_step[OF bool32_field.wr_appends back_bool32]) (simp add: decodes_Nil)
  from decodes_reads_back[OF this] show ?thesis by (simp add: None w_opt_bool_def w_bool32_def del: run_writes_simps)
next
  case (Some x)
  then show ?thesis
    unfolding r_opt_bool_def[abs_def] w_opt_bool_def
    by (auto simp del: run_writes_simps intro!: decodes_reads_back decodes_u32 decodes_step[OF bool32_field.wr_appends back_bool32] decodes_Nil)
qed

interpretation opt_str_field: abi_codec w_opt_str r_opt_str "pred_option utf8_valid"
  by unfold_locales (simp_all add: safe_opt_str back_opt_str appends_opt_str)

interpretation opt_bytes_field: abi_codec w_opt_bytes r_opt_bytes "\<lambda>_. True"
  by unfold_locales (simp_all add: safe_opt_bytes back_opt_bytes appends_opt_bytes)

interpretation opt_i32_field: abi_codec w_opt_i32 r_opt_i32 "\<lambda>_. True"
  by unfold_locales (simp_all add: safe_opt_i32 back_opt_i32 appends_opt_i32)

interpretation opt_bool_field: abi_codec w_opt_bool r_opt_bool "\<lambda>_. True"
  by unfold_locales (simp_all add: safe_opt_bool back_opt_bool appends_opt_bool)


section \<open>Lists and options of any codec\<close>

lemma r_count_safe: "reads_safely r_count"
proof -
  have "r_count r \<noteq> Panic \<and> (\<forall>v r'. r_count r = Ok (v, r') \<longrightarrow> reader_in_body r')" if "reader_in_body r" for r
    using safe_u32 that unfolding reads_safely_def r_count_def
    by (auto simp: and_then_eq_Ok and_then_eq_Panic Let_def reader_in_body_def split: if_splits)
  then show ?thesis by (simp add: reads_safely_def)
qed

lemma count_fits:
  assumes "writer_ext (w_count n w) f" and "writer_fits f"
  shows "w_count n w = w_u32 (of_nat n) w \<and> unat (of_nat n :: u32) = n"
  using assms
  by (auto simp: w_count_def w_narrow_def abi_len_def writer_ext_def writer_fits_def w_u32_def unat_of_nat take_bit_nat_eq_self
      split: if_splits)

lemma appends_count: "appends (w_count n)"
  using appends_u32 by (auto simp: appends_def w_count_def w_narrow_def abi_len_def writer_ext_def w_u32_def)

lemma run_writes_length: "list_all appends gs \<Longrightarrow> length (pw_body w) + 4 * length gs \<le> length (pw_body (run_writes gs w))"
proof (induction gs arbitrary: w)
  case (Cons g gs)
  then have "length (pw_body w) + 4 \<le> length (pw_body (g w))" by (simp add: appends_def)
  then show ?case using Cons.IH[of "g w"] Cons.prems by simp
qed simp

context abi_codec
begin

lemma times_safe: "reads_safely (r_times rd n)"
proof (induction n)
  case (Suc n)
  show ?case unfolding r_times.simps[abs_def] by (intro safe_step rd_safe Suc safe_Ok)
qed (simp add: reads_safely_def)

lemma times_back: "list_all ok xs \<Longrightarrow> decodes (map wr xs) (r_times rd (length xs)) xs"
proof (induction xs)
  case (Cons x xs)
  have "decodes (map wr xs @ []) (\<lambda>r. and_then (r_times rd (length xs) r) (\<lambda>(ys, r'). Ok (x # ys, r'))) (x # xs)"
    using Cons decodes_map[OF decodes_reads_back, of "map wr xs" "r_times rd (length xs)" xs "(#) x"] by (simp add: decodes_def)
  then show ?case
    using Cons.prems unfolding list.map list.size r_times.simps[abs_def] add_0_right add_Suc_right
    by (intro decodes_step[OF wr_appends rd_back]) simp_all
qed (simp add: decodes_def reads_back_def)

lemma list_back:
  assumes "list_all ok xs"
  shows "reads_back (w_list wr xs) (r_list rd) xs"
  unfolding reads_back_def
proof (intro allI impI)
  fix w f assume ext: "writer_ext (w_list wr xs w) f" and fits: "writer_fits f"
  let ?n = "length xs" and ?w = "w_count (length xs) w"
  have all: "list_all appends (map wr xs)" by (simp add: list_all_iff wr_appends)
  have "writer_ext ?w f" using ext run_writes_ext[OF all, of ?w] by (auto simp: w_list_def intro: writer_ext_trans)
  from count_fits[OF this fits] have cnt: "?w = w_u32 (of_nat ?n) w" "unat (of_nat ?n :: u32) = ?n" by simp_all
  then have read: "r_u32 (reader_at f w) = Ok (of_nat ?n, reader_at f ?w)"
    using back_u32[of "of_nat ?n"] \<open>writer_ext ?w f\<close> fits by (simp add: reads_back_def)
  have "length (pw_body ?w) + 4 * ?n \<le> length (pw_body (w_list wr xs w))"
    using run_writes_length[OF all, of ?w] by (simp add: w_list_def)
  also have "\<dots> \<le> length (pw_body f)" using ext by (simp add: writer_ext_def prefix_length_le)
  finally have room: "length (pw_body ?w) + 4 * ?n \<le> length (pw_body f)" .
  then have "?n \<le> (length (pw_body f) - length (pw_body ?w)) div 4" by (simp add: less_eq_div_iff_mult_less_eq)
  then have "r_count (reader_at f w) = Ok (?n, reader_at f ?w)"
    using room unfolding r_count_def read by (simp add: cnt(2) Let_def) (simp add: reader_at_def)
  then show "r_list rd (reader_at f w) = Ok (xs, reader_at f (w_list wr xs w))"
    using times_back[OF assms] ext fits by (simp add: r_list_def decodes_def reads_back_def w_list_def)
qed

lemma list_codec: "abi_codec (w_list wr) (r_list rd) (list_all ok)"
proof
  show "appends (w_list wr xs)" for xs
    unfolding w_list_def by (rule run_writes_appends) (simp_all add: list_all_iff wr_appends appends_count)
  show "reads_safely (r_list rd)"
    unfolding r_list_def[abs_def] by (intro safe_step r_count_safe times_safe)
qed (rule list_back)

lemma option_codec: "abi_codec (w_option wr) (r_option rd) (pred_option ok)"
proof
  show "appends (w_option wr v)" for v
    by (cases v) (auto simp: w_option_def intro!: appends_rules wr_appends)
  show "reads_safely (r_option rd)"
    unfolding r_option_def[abs_def] by (intro safe_rules rd_safe)
  show "reads_back (w_option wr v) (r_option rd) v" if "pred_option ok v" for v
  proof (cases v)
    case None
    have "decodes [w_u32 0] (r_option rd) None"
      unfolding r_option_def[abs_def] by (rule decodes_u32) (simp add: decodes_Nil)
    from decodes_reads_back[OF this] show ?thesis by (simp add: None w_option_def reads_back_def)
  next
    case (Some x)
    then have "ok x" using that by simp
    then have "decodes [w_u32 1, wr x] (r_option rd) (Some x)"
      unfolding r_option_def[abs_def]
      by (intro decodes_u32 decodes_last wr_appends) (simp, rule decodes_map[OF rd_back], simp_all)
    from decodes_reads_back[OF this] show ?thesis by (simp add: Some w_option_def del: run_writes_simps)
  qed
qed

end

lemma abi_decodes_done: "x = v \<Longrightarrow> decodes [] (\<lambda>r. Ok (x, r)) v"
  by (simp add: decodes_Nil)

text \<open>A routine that writes its fields one after the other and reads them in the same order.\<close>
lemma abi_codecI:
  assumes "\<And>v. wr v = run_writes (ws v)" and "\<And>v. ws v \<noteq> []" and "\<And>v. list_all appends (ws v)"
    and "reads_safely rd" and "\<And>v. ok v \<Longrightarrow> decodes (ws v) rd v"
  shows "abi_codec wr rd ok"
  by unfold_locales (use assms in \<open>auto simp: run_writes_appends decodes_reads_back\<close>)

section \<open>Whole payloads\<close>

lemma w_finish_Ok:
  "w_finish kind w = Ok buf \<longleftrightarrow> writer_fits w \<and>
     buf = put_u32 ABI_MAGIC @ put_u32 kind @ put_u32 (of_nat (length (pw_body w))) @ put_u32 (of_nat (length (pw_blob w))) @
       pw_body w @ pw_blob w"
  by (auto simp: w_finish_def abi_len_def writer_fits_def)

lemma w_finish_no_panic: "w_finish kind w \<noteq> Panic"
  by (simp add: w_finish_def abi_len_def)

lemma envelope_words:
  "read_u32 (put_u32 a @ put_u32 b @ put_u32 c @ put_u32 d @ t) 0 = Some a"
  "read_u32 (put_u32 a @ put_u32 b @ put_u32 c @ put_u32 d @ t) 4 = Some b"
  "read_u32 (put_u32 a @ put_u32 b @ put_u32 c @ put_u32 d @ t) 8 = Some c"
  "read_u32 (put_u32 a @ put_u32 b @ put_u32 c @ put_u32 d @ t) 12 = Some d"
  using u32_codec.read_here[of 0 "[]" a] u32_codec.read_here[of 4 "put_u32 a" b]
    u32_codec.read_here[of 8 "put_u32 a @ put_u32 b" c] u32_codec.read_here[of 12 "put_u32 a @ put_u32 b @ put_u32 c" d]
  by simp_all

lemma reader_new_finished:
  assumes "w_finish kind w = Ok buf"
  shows "reader_new buf kind' = (if kind = kind' then Ok (reader_at w writer_new)
    else Err (AbiError (lit ''payload kind '' @ decimal (unat kind) @ lit '' != expected '' @ decimal (unat kind'))))"
proof -
  from assms have fits: "writer_fits w" and buf: "buf = put_u32 ABI_MAGIC @ put_u32 kind @ put_u32 (of_nat (length (pw_body w))) @
      put_u32 (of_nat (length (pw_blob w))) @ pw_body w @ pw_blob w"
    by (simp_all add: w_finish_Ok)
  have lens: "unat (of_nat (length (pw_body w)) :: u32) = length (pw_body w)" "unat (of_nat (length (pw_blob w)) :: u32) = length (pw_blob w)"
    using fits by (simp_all add: writer_fits_def unat_of_nat take_bit_nat_eq_self)
  show ?thesis
    using fits unfolding buf
    by (simp add: reader_new_def envelope_words lens checked_add_def writer_fits_def slice_o_def reader_at_def writer_new_def)
qed

lemma reader_new_safe: "reader_new buf kind \<noteq> Panic"
  using u32_codec.read_None_iff[of buf]
  by (auto simp: reader_new_def and_then_eq_Panic and_then_eq_Ok unwrap_eq_Panic checked_add_def slice_o_def split: if_splits)

lemma reader_new_in_body: "reader_new buf kind = Ok r \<Longrightarrow> reader_in_body r"
  by (auto simp: reader_new_def and_then_eq_Ok reader_in_body_def split: if_splits)

context abi_codec
begin

lemmas codec_facts [abi_appends] =
  wr_appends abi_codec.wr_appends[OF list_codec] abi_codec.wr_appends[OF option_codec]
  abi_codec.wr_appends[OF abi_codec.option_codec[OF list_codec]] abi_codec.wr_appends[OF abi_codec.list_codec[OF list_codec]]

lemmas codec_reads [abi_safe] =
  rd_safe abi_codec.rd_safe[OF list_codec] abi_codec.rd_safe[OF option_codec]
  abi_codec.rd_safe[OF abi_codec.option_codec[OF list_codec]] abi_codec.rd_safe[OF abi_codec.list_codec[OF list_codec]]

lemma field_step:
  "ok a \<Longrightarrow> decodes gs (k a) v \<Longrightarrow> decodes (wr a # gs) (\<lambda>r. and_then (rd r) (\<lambda>(x, r'). k x r')) v"
  by (rule decodes_step[OF wr_appends rd_back])

end

context abi_codec
begin

lemmas codec_steps [abi_step] =
  field_step abi_codec.field_step[OF list_codec] abi_codec.field_step[OF option_codec]
  abi_codec.field_step[OF abi_codec.option_codec[OF list_codec]] abi_codec.field_step[OF abi_codec.list_codec[OF list_codec]]

lemma round_trip:
  assumes "ok v" and "encode_payload kind (wr v) = Ok buf"
  shows "decode_payload kind rd buf = Ok v"
proof -
  let ?f = "wr v writer_new"
  have "writer_fits ?f" using assms(2) by (simp add: encode_payload_def w_finish_Ok)
  then have "rd (reader_at ?f writer_new) = Ok (v, reader_at ?f ?f)"
    using rd_back[OF assms(1)] by (simp add: reads_back_def)
  then show ?thesis
    using reader_new_finished[OF assms(2)[unfolded encode_payload_def], of kind]
    by (simp add: decode_payload_def r_finish_def reader_at_def)
qed

lemma wrong_kind:
  assumes "encode_payload kind (wr v) = Ok buf" and "kind' \<noteq> kind"
  shows "\<exists>e. decode_payload kind' rd' buf = Err e"
  using reader_new_finished[OF assms(1)[unfolded encode_payload_def], of kind'] assms(2) by (simp add: decode_payload_def)

lemma decode_safe: "decode_payload kind rd buf \<noteq> Panic"
  using rd_safe reader_new_in_body[of buf kind] reader_new_safe[of buf kind] unfolding decode_payload_def reads_safely_def
  by (auto simp: and_then_eq_Panic and_then_eq_Ok r_finish_def reader_in_body_def split: if_splits)

end

end
