(* ===== verification/Pc_Payloads.thy ===== *)
theory Pc_Payloads
  imports Pc_Codec
begin

text \<open>
  The payloads of the presentation-compiler boundary, \<open>crates/ls-pc-abi/src/payloads.rs\<close>, part one: the
  shared value types, the completion carriers and hover. Every struct is a record, every enum a datatype;
  \<open>write\<close> lists the fields in the order of the source and \<open>read\<close> reads them back in that order. Each pair
  is an instance of \<open>abi_codec\<close>; the \<open>ok\<close> predicates only say that the strings of a value are UTF-8, which
  Rust's \<open>String\<close> guarantees. A struct whose fields are written inline by its container has its own pair here.
\<close>

section \<open>Kinds and helpers\<close>

definition KIND_TARGET_CONFIG :: u32 where "KIND_TARGET_CONFIG = 1"
definition KIND_DID_OPEN :: u32 where "KIND_DID_OPEN = 2"
definition KIND_DID_CHANGE :: u32 where "KIND_DID_CHANGE = 3"
definition KIND_POSITION :: u32 where "KIND_POSITION = 4"
definition KIND_RESOLVE_PARAMS :: u32 where "KIND_RESOLVE_PARAMS = 5"
definition KIND_COMPLETION_LIST :: u32 where "KIND_COMPLETION_LIST = 6"
definition KIND_COMPLETION_ITEM :: u32 where "KIND_COMPLETION_ITEM = 7"
definition KIND_HOVER :: u32 where "KIND_HOVER = 8"
definition KIND_SIGNATURE_HELP :: u32 where "KIND_SIGNATURE_HELP = 9"
definition KIND_DEFINITION :: u32 where "KIND_DEFINITION = 10"
definition KIND_PREPARE_RENAME :: u32 where "KIND_PREPARE_RENAME = 11"
definition KIND_PLUGIN_STATUS :: u32 where "KIND_PLUGIN_STATUS = 12"
definition KIND_LOCATIONS :: u32 where "KIND_LOCATIONS = 13"
definition KIND_METHOD_HITS :: u32 where "KIND_METHOD_HITS = 14"
definition KIND_INLAY_HINT_PARAMS :: u32 where "KIND_INLAY_HINT_PARAMS = 15"
definition KIND_INLAY_HINTS :: u32 where "KIND_INLAY_HINTS = 16"
definition KIND_URI_PARAMS :: u32 where "KIND_URI_PARAMS = 17"
definition KIND_SEMANTIC_TOKENS :: u32 where "KIND_SEMANTIC_TOKENS = 18"
definition KIND_SELECTION_RANGE_PARAMS :: u32 where "KIND_SELECTION_RANGE_PARAMS = 19"
definition KIND_SELECTION_RANGES :: u32 where "KIND_SELECTION_RANGES = 20"
definition KIND_CODE_ACTION_PARAMS :: u32 where "KIND_CODE_ACTION_PARAMS = 21"
definition KIND_CODE_ACTION_EDITS :: u32 where "KIND_CODE_ACTION_EDITS = 22"
definition KIND_AUTO_IMPORT_PARAMS :: u32 where "KIND_AUTO_IMPORT_PARAMS = 23"
definition KIND_AUTO_IMPORTS :: u32 where "KIND_AUTO_IMPORTS = 24"
definition KIND_PC_DIAGNOSTICS :: u32 where "KIND_PC_DIAGNOSTICS = 25"
definition KIND_FOLDING_RANGES :: u32 where "KIND_FOLDING_RANGES = 26"
definition KIND_TOPLEVELS :: u32 where "KIND_TOPLEVELS = 27"

definition bad_tag :: "str \<Rightarrow> u32 \<Rightarrow> abi_error" where
  "bad_tag what tag = AbiError (lit ''invalid '' @ what @ lit '' variant tag '' @ decimal (unat tag))"

abbreviation write_str_list :: "str list \<Rightarrow> pc_writer \<Rightarrow> pc_writer" where
  "write_str_list \<equiv> w_list w_str"

abbreviation read_str_list :: "pc_reader \<Rightarrow> (str list \<times> pc_reader) abi_result" where
  "read_str_list \<equiv> r_list r_str"

section \<open>Shared value types\<close>

record rng =
  rg_start_line :: u32
  rg_start_character :: u32
  rg_end_line :: u32
  rg_end_character :: u32

definition write_rng :: "rng \<Rightarrow> pc_writer \<Rightarrow> pc_writer" where
  "write_rng v = w_range (rg_start_line v) (rg_start_character v) (rg_end_line v) (rg_end_character v)"

definition read_rng :: "pc_reader \<Rightarrow> (rng \<times> pc_reader) abi_result" where
  "read_rng r =
     and_then (r_range r) (\<lambda>((sl, sc, el, ec), r').
       Ok (\<lparr>rg_start_line = sl, rg_start_character = sc, rg_end_line = el, rg_end_character = ec\<rparr>, r'))"

lemma write_rng_fields:
  "write_rng v = run_writes [w_u32 (rg_start_line v), w_u32 (rg_start_character v), w_u32 (rg_end_line v), w_u32 (rg_end_character v)]"
  by (simp add: write_rng_def w_range_def)

lemma read_rng_fields:
  "read_rng = (\<lambda>r. and_then (r_u32 r) (\<lambda>(sl, r1). and_then (r_u32 r1) (\<lambda>(sc, r2). and_then (r_u32 r2) (\<lambda>(el, r3).
     and_then (r_u32 r3) (\<lambda>(ec, r4). Ok (\<lparr>rg_start_line = sl, rg_start_character = sc, rg_end_line = el, rg_end_character = ec\<rparr>, r4))))))"
  by (simp add: read_rng_def r_range_def and_then_assoc fun_eq_iff split_def)

interpretation rng: abi_codec write_rng read_rng "\<lambda>_. True"
  unfolding read_rng_fields
  by (rule abi_codecI[OF write_rng_fields]; (intro safe_rules abi_safe abi_step abi_decodes_done rng.equality)?; simp add: abi_appends)

text \<open>A fixed-shape optional: the flag and the words of a default value when absent.\<close>

definition w_fixed_opt :: "('a \<Rightarrow> pc_writer \<Rightarrow> pc_writer) \<Rightarrow> 'a \<Rightarrow> 'a option \<Rightarrow> pc_writer \<Rightarrow> pc_writer" where
  "w_fixed_opt wr dflt v = (case v of Some x \<Rightarrow> run_writes [w_u32 1, wr x] | None \<Rightarrow> run_writes [w_u32 0, wr dflt])"

definition r_fixed_opt :: "(pc_reader \<Rightarrow> ('a \<times> pc_reader) abi_result) \<Rightarrow> pc_reader \<Rightarrow> ('a option \<times> pc_reader) abi_result" where
  "r_fixed_opt rd r =
     and_then (r_u32 r) (\<lambda>(present, r1). and_then (rd r1) (\<lambda>(v, r2). Ok (if present = 0 then None else Some v, r2)))"

context abi_codec
begin

lemma fixed_opt_codec:
  assumes "\<And>v. ok v"
  shows "abi_codec (w_fixed_opt wr d) (r_fixed_opt rd) (\<lambda>_. True)"
proof (unfold_locales, goal_cases)
  case (1 v)
  show ?case by (cases v) (auto simp: w_fixed_opt_def intro!: run_writes_appends wr_appends appends_u32)
next
  case 2
  show ?case unfolding r_fixed_opt_def[abs_def] by (intro safe_rules rd_safe)
next
  case (3 v)
  have "decodes [w_u32 (case v of Some _ \<Rightarrow> 1 | None \<Rightarrow> 0), wr (case v of Some x \<Rightarrow> x | None \<Rightarrow> d)] (r_fixed_opt rd) v"
    unfolding r_fixed_opt_def[abs_def] by (intro decodes_u32 decodes_step[OF wr_appends rd_back] assms abi_decodes_done) (simp split: option.split)
  from decodes_reads_back[OF this] show ?case by (cases v) (simp_all add: w_fixed_opt_def del: run_writes_simps)
qed

end

definition write_opt_rng :: "rng option \<Rightarrow> pc_writer \<Rightarrow> pc_writer" where
  "write_opt_rng = w_fixed_opt write_rng \<lparr>rg_start_line = 0, rg_start_character = 0, rg_end_line = 0, rg_end_character = 0\<rparr>"

definition read_opt_rng :: "pc_reader \<Rightarrow> (rng option \<times> pc_reader) abi_result" where
  "read_opt_rng = r_fixed_opt read_rng"

interpretation opt_rng: abi_codec write_opt_rng read_opt_rng "\<lambda>_. True"
  unfolding write_opt_rng_def read_opt_rng_def by (rule rng.fixed_opt_codec) simp

record lsp_pos =
  lp_line :: u32
  lp_character :: u32

definition write_lsp_pos :: "lsp_pos \<Rightarrow> pc_writer \<Rightarrow> pc_writer" where
  "write_lsp_pos v = run_writes [w_u32 (lp_line v), w_u32 (lp_character v)]"

definition read_lsp_pos :: "pc_reader \<Rightarrow> (lsp_pos \<times> pc_reader) abi_result" where
  "read_lsp_pos r0 =
     and_then (r_u32 r0) (\<lambda>(line_v, r1).
     and_then (r_u32 r1) (\<lambda>(character_v, r2).
       Ok (\<lparr>lp_line = line_v, lp_character = character_v\<rparr>, r2)))"

interpretation lsp_pos: abi_codec write_lsp_pos read_lsp_pos "\<lambda>_. True"
  unfolding read_lsp_pos_def[abs_def]
  by (rule abi_codecI[OF write_lsp_pos_def]; (intro safe_rules abi_safe abi_step abi_decodes_done lsp_pos.equality)?; simp add: abi_appends)

definition write_opt_pos :: "lsp_pos option \<Rightarrow> pc_writer \<Rightarrow> pc_writer" where
  "write_opt_pos = w_fixed_opt write_lsp_pos \<lparr>lp_line = 0, lp_character = 0\<rparr>"

definition read_opt_pos :: "pc_reader \<Rightarrow> (lsp_pos option \<times> pc_reader) abi_result" where
  "read_opt_pos = r_fixed_opt read_lsp_pos"

interpretation opt_pos: abi_codec write_opt_pos read_opt_pos "\<lambda>_. True"
  unfolding write_opt_pos_def read_opt_pos_def by (rule lsp_pos.fixed_opt_codec) simp

record text_edit =
  te_range :: rng
  te_new_text :: str

definition write_text_edit :: "text_edit \<Rightarrow> pc_writer \<Rightarrow> pc_writer" where
  "write_text_edit v = run_writes [write_rng (te_range v), w_str (te_new_text v)]"

definition read_text_edit :: "pc_reader \<Rightarrow> (text_edit \<times> pc_reader) abi_result" where
  "read_text_edit r0 =
     and_then (read_rng r0) (\<lambda>(range_v, r1).
     and_then (r_str r1) (\<lambda>(new_text, r2).
       Ok (\<lparr>te_range = range_v, te_new_text = new_text\<rparr>, r2)))"

definition ok_text_edit :: "text_edit \<Rightarrow> bool" where
  "ok_text_edit v \<longleftrightarrow> utf8_valid (te_new_text v)"

interpretation text_edit: abi_codec write_text_edit read_text_edit ok_text_edit
  unfolding read_text_edit_def[abs_def] ok_text_edit_def[abs_def]
  by (rule abi_codecI[OF write_text_edit_def]; (intro safe_rules abi_safe abi_step abi_decodes_done text_edit.equality)?; simp add: abi_appends)

record insert_replace_edit =
  ir_new_text :: str
  ir_insert :: rng
  ir_replace :: rng

definition write_insert_replace_edit :: "insert_replace_edit \<Rightarrow> pc_writer \<Rightarrow> pc_writer" where
  "write_insert_replace_edit v = run_writes [w_str (ir_new_text v), write_rng (ir_insert v), write_rng (ir_replace v)]"

definition read_insert_replace_edit :: "pc_reader \<Rightarrow> (insert_replace_edit \<times> pc_reader) abi_result" where
  "read_insert_replace_edit r0 =
     and_then (r_str r0) (\<lambda>(new_text, r1).
     and_then (read_rng r1) (\<lambda>(insert, r2).
     and_then (read_rng r2) (\<lambda>(replace, r3).
       Ok (\<lparr>ir_new_text = new_text, ir_insert = insert, ir_replace = replace\<rparr>, r3))))"

definition ok_insert_replace_edit :: "insert_replace_edit \<Rightarrow> bool" where
  "ok_insert_replace_edit v \<longleftrightarrow> utf8_valid (ir_new_text v)"

interpretation insert_replace_edit: abi_codec write_insert_replace_edit read_insert_replace_edit ok_insert_replace_edit
  unfolding read_insert_replace_edit_def[abs_def] ok_insert_replace_edit_def[abs_def]
  by (rule abi_codecI[OF write_insert_replace_edit_def]; (intro safe_rules abi_safe abi_step abi_decodes_done insert_replace_edit.equality)?; simp add: abi_appends)

datatype completion_edit = CEPlain text_edit | CEInsertReplace insert_replace_edit

definition write_completion_edit :: "completion_edit \<Rightarrow> pc_writer \<Rightarrow> pc_writer" where
  "write_completion_edit v =
     (case v of
        CEPlain edit \<Rightarrow> run_writes [w_u32 0, write_text_edit edit]
      | CEInsertReplace ed \<Rightarrow> run_writes [w_u32 1, write_insert_replace_edit ed])"

definition read_completion_edit :: "pc_reader \<Rightarrow> (completion_edit \<times> pc_reader) abi_result" where
  "read_completion_edit r =
     and_then (r_u32 r) (\<lambda>(tag, r0).
       if tag = 0 then and_then (read_text_edit r0) (\<lambda>(edit, r1). Ok (CEPlain edit, r1))
       else if tag = 1 then and_then (read_insert_replace_edit r0) (\<lambda>(ed, r1). Ok (CEInsertReplace ed, r1))
       else Err (bad_tag (lit ''completion edit'') tag))"

definition ok_completion_edit :: "completion_edit \<Rightarrow> bool" where
  "ok_completion_edit v = (case v of CEPlain edit \<Rightarrow> ok_text_edit edit | CEInsertReplace ed \<Rightarrow> ok_insert_replace_edit ed)"

interpretation completion_edit: abi_codec write_completion_edit read_completion_edit ok_completion_edit
proof (unfold_locales, goal_cases)
  case (1 v)
  show ?case by (auto simp: write_completion_edit_def abi_appends intro!: run_writes_appends split: completion_edit.split)
next
  case 2
  show ?case unfolding read_completion_edit_def[abs_def] by (intro safe_rules abi_safe)
next
  case (3 v)
  have "decodes [w_u32 0, write_text_edit edit] read_completion_edit (CEPlain edit)" if "ok_text_edit edit" for edit
    unfolding read_completion_edit_def[abs_def] by (rule decodes_u32) (simp, intro abi_step abi_decodes_done that; simp)
  note d_ceplain = this[THEN decodes_reads_back]
  have "decodes [w_u32 1, write_insert_replace_edit ed] read_completion_edit (CEInsertReplace ed)" if "ok_insert_replace_edit ed" for ed
    unfolding read_completion_edit_def[abs_def] by (rule decodes_u32) (simp, intro abi_step abi_decodes_done that; simp)
  note d_ceinsertreplace = this[THEN decodes_reads_back]
  from 3 show ?case
    by (cases v) (auto simp: write_completion_edit_def ok_completion_edit_def simp del: run_writes_simps intro: d_ceplain d_ceinsertreplace split: completion_edit.splits)
qed

record markup_content =
  mc_kind :: str
  mc_value :: str

definition write_markup_content :: "markup_content \<Rightarrow> pc_writer \<Rightarrow> pc_writer" where
  "write_markup_content v = run_writes [w_str (mc_kind v), w_str (mc_value v)]"

definition read_markup_content :: "pc_reader \<Rightarrow> (markup_content \<times> pc_reader) abi_result" where
  "read_markup_content r0 =
     and_then (r_str r0) (\<lambda>(kind_v, r1).
     and_then (r_str r1) (\<lambda>(value_v, r2).
       Ok (\<lparr>mc_kind = kind_v, mc_value = value_v\<rparr>, r2)))"

definition ok_markup_content :: "markup_content \<Rightarrow> bool" where
  "ok_markup_content v \<longleftrightarrow> utf8_valid (mc_kind v) \<and> utf8_valid (mc_value v)"

interpretation markup_content: abi_codec write_markup_content read_markup_content ok_markup_content
  unfolding read_markup_content_def[abs_def] ok_markup_content_def[abs_def]
  by (rule abi_codecI[OF write_markup_content_def]; (intro safe_rules abi_safe abi_step abi_decodes_done markup_content.equality)?; simp add: abi_appends)

datatype documentation = DocPlain str | DocMarkup markup_content

definition write_opt_documentation :: "documentation option \<Rightarrow> pc_writer \<Rightarrow> pc_writer" where
  "write_opt_documentation v =
     (case v of
        None \<Rightarrow> w_u32 0
      | Some (DocPlain s) \<Rightarrow> run_writes [w_u32 1, w_str s]
      | Some (DocMarkup m) \<Rightarrow> run_writes [w_u32 2, write_markup_content m])"

definition read_opt_documentation :: "pc_reader \<Rightarrow> ((documentation option) \<times> pc_reader) abi_result" where
  "read_opt_documentation r =
     and_then (r_u32 r) (\<lambda>(tag, r0).
       if tag = 0 then Ok (None, r0)
       else if tag = 1 then and_then (r_str r0) (\<lambda>(s, r1). Ok (Some (DocPlain s), r1))
       else if tag = 2 then and_then (read_markup_content r0) (\<lambda>(m, r1). Ok (Some (DocMarkup m), r1))
       else Err (bad_tag (lit ''documentation'') tag))"

definition ok_documentation :: "documentation \<Rightarrow> bool" where
  "ok_documentation v = (case v of DocPlain s \<Rightarrow> utf8_valid s | DocMarkup m \<Rightarrow> ok_markup_content m)"

interpretation opt_documentation: abi_codec write_opt_documentation read_opt_documentation "pred_option ok_documentation"
proof (unfold_locales, goal_cases)
  case (1 v)
  show ?case by (auto simp: write_opt_documentation_def abi_appends intro!: run_writes_appends split: documentation.split option.split)
next
  case 2
  show ?case unfolding read_opt_documentation_def[abs_def] by (intro safe_rules abi_safe)
next
  case (3 v)
  have "decodes [w_u32 0] read_opt_documentation None"
    unfolding read_opt_documentation_def[abs_def] by (rule decodes_u32) (simp add: abi_decodes_done)
  note d_none = this[THEN decodes_single]
  have "decodes [w_u32 1, w_str s] read_opt_documentation (Some (DocPlain s))" if "utf8_valid s" for s
    unfolding read_opt_documentation_def[abs_def] by (rule decodes_u32) (simp, intro abi_step abi_decodes_done that; simp)
  note d_docplain = this[THEN decodes_reads_back]
  have "decodes [w_u32 2, write_markup_content m] read_opt_documentation (Some (DocMarkup m))" if "ok_markup_content m" for m
    unfolding read_opt_documentation_def[abs_def] by (rule decodes_u32) (simp, intro abi_step abi_decodes_done that; simp)
  note d_docmarkup = this[THEN decodes_reads_back]
  from 3 show ?case
    by (cases v) (auto simp: write_opt_documentation_def ok_documentation_def simp del: run_writes_simps intro: d_none d_docplain d_docmarkup split: documentation.splits)
qed

record location =
  lc_uri :: str
  lc_range :: rng
  lc_origin :: u32

definition write_location :: "location \<Rightarrow> pc_writer \<Rightarrow> pc_writer" where
  "write_location v = run_writes [w_str (lc_uri v), write_rng (lc_range v), w_u32 (lc_origin v)]"

definition read_location :: "pc_reader \<Rightarrow> (location \<times> pc_reader) abi_result" where
  "read_location r0 =
     and_then (r_str r0) (\<lambda>(uri, r1).
     and_then (read_rng r1) (\<lambda>(range_v, r2).
     and_then (r_u32 r2) (\<lambda>(origin, r3).
       Ok (\<lparr>lc_uri = uri, lc_range = range_v, lc_origin = origin\<rparr>, r3))))"

definition ok_location :: "location \<Rightarrow> bool" where
  "ok_location v \<longleftrightarrow> utf8_valid (lc_uri v)"

interpretation location: abi_codec write_location read_location ok_location
  unfolding read_location_def[abs_def] ok_location_def[abs_def]
  by (rule abi_codecI[OF write_location_def]; (intro safe_rules abi_safe abi_step abi_decodes_done location.equality)?; simp add: abi_appends)

section \<open>Completion\<close>

record label_details =
  ld_detail :: "str option"
  ld_description :: "str option"

definition write_label_details :: "label_details \<Rightarrow> pc_writer \<Rightarrow> pc_writer" where
  "write_label_details v = run_writes [w_opt_str (ld_detail v), w_opt_str (ld_description v)]"

definition read_label_details :: "pc_reader \<Rightarrow> (label_details \<times> pc_reader) abi_result" where
  "read_label_details r0 =
     and_then (r_opt_str r0) (\<lambda>(detail_v, r1).
     and_then (r_opt_str r1) (\<lambda>(description_v, r2).
       Ok (\<lparr>ld_detail = detail_v, ld_description = description_v\<rparr>, r2)))"

definition ok_label_details :: "label_details \<Rightarrow> bool" where
  "ok_label_details v \<longleftrightarrow> pred_option utf8_valid (ld_detail v) \<and> pred_option utf8_valid (ld_description v)"

interpretation label_details: abi_codec write_label_details read_label_details ok_label_details
  unfolding read_label_details_def[abs_def] ok_label_details_def[abs_def]
  by (rule abi_codecI[OF write_label_details_def]; (intro safe_rules abi_safe abi_step abi_decodes_done label_details.equality)?; simp add: abi_appends)

record command =
  cm_title :: str
  cm_tooltip :: "str option"
  cm_command :: str
  cm_arguments :: "byte list option"

definition write_command :: "command \<Rightarrow> pc_writer \<Rightarrow> pc_writer" where
  "write_command v = run_writes [w_str (cm_title v), w_opt_str (cm_tooltip v), w_str (cm_command v), w_opt_bytes (cm_arguments v)]"

definition read_command :: "pc_reader \<Rightarrow> (command \<times> pc_reader) abi_result" where
  "read_command r0 =
     and_then (r_str r0) (\<lambda>(title_v, r1).
     and_then (r_opt_str r1) (\<lambda>(tooltip, r2).
     and_then (r_str r2) (\<lambda>(command_v, r3).
     and_then (r_opt_bytes r3) (\<lambda>(arguments, r4).
       Ok (\<lparr>cm_title = title_v, cm_tooltip = tooltip, cm_command = command_v, cm_arguments = arguments\<rparr>, r4)))))"

definition ok_command :: "command \<Rightarrow> bool" where
  "ok_command v \<longleftrightarrow> utf8_valid (cm_title v) \<and> pred_option utf8_valid (cm_tooltip v) \<and> utf8_valid (cm_command v)"

interpretation command: abi_codec write_command read_command ok_command
  unfolding read_command_def[abs_def] ok_command_def[abs_def]
  by (rule abi_codecI[OF write_command_def]; (intro safe_rules abi_safe abi_step abi_decodes_done command.equality)?; simp add: abi_appends)

record completion_item =
  ci_label :: str
  ci_label_details :: "label_details option"
  ci_kind :: "i32 option"
  ci_tags :: "i32 list option"
  ci_detail :: "str option"
  ci_documentation :: "documentation option"
  ci_deprecated :: "bool option"
  ci_preselect :: "bool option"
  ci_sort_text :: "str option"
  ci_filter_text :: "str option"
  ci_insert_text :: "str option"
  ci_insert_text_format :: "i32 option"
  ci_insert_text_mode :: "i32 option"
  ci_text_edit :: "completion_edit option"
  ci_text_edit_text :: "str option"
  ci_additional_text_edits :: "text_edit list option"
  ci_commit_characters :: "str list option"
  ci_command :: "command option"
  ci_data :: "byte list option"

definition write_completion_item :: "completion_item \<Rightarrow> pc_writer \<Rightarrow> pc_writer" where
  "write_completion_item v = run_writes [w_str (ci_label v), w_option write_label_details (ci_label_details v), w_opt_i32 (ci_kind v),
     w_option (w_list w_i32) (ci_tags v), w_opt_str (ci_detail v), write_opt_documentation (ci_documentation v),
     w_opt_bool (ci_deprecated v), w_opt_bool (ci_preselect v), w_opt_str (ci_sort_text v),
     w_opt_str (ci_filter_text v), w_opt_str (ci_insert_text v), w_opt_i32 (ci_insert_text_format v),
     w_opt_i32 (ci_insert_text_mode v), w_option write_completion_edit (ci_text_edit v),
     w_opt_str (ci_text_edit_text v), w_option (w_list write_text_edit) (ci_additional_text_edits v),
     w_option (w_list w_str) (ci_commit_characters v), w_option write_command (ci_command v), w_opt_bytes (ci_data v)]"

definition read_completion_item :: "pc_reader \<Rightarrow> (completion_item \<times> pc_reader) abi_result" where
  "read_completion_item r0 =
     and_then (r_str r0) (\<lambda>(label_v, r1).
     and_then (r_option read_label_details r1) (\<lambda>(label_details, r2).
     and_then (r_opt_i32 r2) (\<lambda>(kind_v, r3).
     and_then (r_option (r_list r_i32) r3) (\<lambda>(tags, r4).
     and_then (r_opt_str r4) (\<lambda>(detail_v, r5).
     and_then (read_opt_documentation r5) (\<lambda>(documentation, r6).
     and_then (r_opt_bool r6) (\<lambda>(deprecated, r7).
     and_then (r_opt_bool r7) (\<lambda>(preselect, r8).
     and_then (r_opt_str r8) (\<lambda>(sort_text, r9).
     and_then (r_opt_str r9) (\<lambda>(filter_text, r10).
     and_then (r_opt_str r10) (\<lambda>(insert_text, r11).
     and_then (r_opt_i32 r11) (\<lambda>(insert_text_format, r12).
     and_then (r_opt_i32 r12) (\<lambda>(insert_text_mode, r13).
     and_then (r_option read_completion_edit r13) (\<lambda>(text_edit, r14).
     and_then (r_opt_str r14) (\<lambda>(text_edit_text, r15).
     and_then (r_option (r_list read_text_edit) r15) (\<lambda>(additional_text_edits, r16).
     and_then (r_option (r_list r_str) r16) (\<lambda>(commit_characters, r17).
     and_then (r_option read_command r17) (\<lambda>(command_v, r18).
     and_then (r_opt_bytes r18) (\<lambda>(data_v, r19).
       Ok (\<lparr>ci_label = label_v, ci_label_details = label_details, ci_kind = kind_v, ci_tags = tags, ci_detail = detail_v,
         ci_documentation = documentation, ci_deprecated = deprecated, ci_preselect = preselect,
         ci_sort_text = sort_text, ci_filter_text = filter_text, ci_insert_text = insert_text,
         ci_insert_text_format = insert_text_format, ci_insert_text_mode = insert_text_mode,
         ci_text_edit = text_edit, ci_text_edit_text = text_edit_text,
         ci_additional_text_edits = additional_text_edits, ci_commit_characters = commit_characters,
         ci_command = command_v, ci_data = data_v\<rparr>, r19))))))))))))))))))))"

definition ok_completion_item :: "completion_item \<Rightarrow> bool" where
  "ok_completion_item v \<longleftrightarrow> utf8_valid (ci_label v) \<and> pred_option ok_label_details (ci_label_details v) \<and> pred_option utf8_valid (ci_detail v)
     \<and> pred_option ok_documentation (ci_documentation v) \<and> pred_option utf8_valid (ci_sort_text v) \<and> pred_option
     utf8_valid (ci_filter_text v) \<and> pred_option utf8_valid (ci_insert_text v) \<and> pred_option ok_completion_edit
     (ci_text_edit v) \<and> pred_option utf8_valid (ci_text_edit_text v) \<and> pred_option (list_all ok_text_edit)
     (ci_additional_text_edits v) \<and> pred_option (list_all utf8_valid) (ci_commit_characters v) \<and> pred_option
     ok_command (ci_command v)"

interpretation completion_item: abi_codec write_completion_item read_completion_item ok_completion_item
  unfolding read_completion_item_def[abs_def] ok_completion_item_def[abs_def]
  by (rule abi_codecI[OF write_completion_item_def]; (intro safe_rules abi_safe abi_step abi_decodes_done completion_item.equality)?; simp add: abi_appends)

definition encode_completion_item :: "completion_item \<Rightarrow> byte list abi_result" where
  "encode_completion_item v = encode_payload KIND_COMPLETION_ITEM (write_completion_item v)"

definition decode_completion_item :: "byte list \<Rightarrow> completion_item abi_result" where
  "decode_completion_item buf = decode_payload KIND_COMPLETION_ITEM (read_completion_item) buf"

datatype edit_range = ERRange rng | ERInsertReplace rng rng

definition write_opt_edit_range :: "edit_range option \<Rightarrow> pc_writer \<Rightarrow> pc_writer" where
  "write_opt_edit_range v =
     (case v of
        None \<Rightarrow> w_u32 0
      | Some (ERRange rg) \<Rightarrow> run_writes [w_u32 1, write_rng rg]
      | Some (ERInsertReplace ins rep) \<Rightarrow> run_writes [w_u32 2, write_rng ins, write_rng rep])"

definition read_opt_edit_range :: "pc_reader \<Rightarrow> ((edit_range option) \<times> pc_reader) abi_result" where
  "read_opt_edit_range r =
     and_then (r_u32 r) (\<lambda>(tag, r0).
       if tag = 0 then Ok (None, r0)
       else if tag = 1 then and_then (read_rng r0) (\<lambda>(rg, r1). Ok (Some (ERRange rg), r1))
       else if tag = 2 then and_then (read_rng r0) (\<lambda>(ins, r1). and_then (read_rng r1) (\<lambda>(rep, r2). Ok (Some (ERInsertReplace ins rep), r2)))
       else Err (bad_tag (lit ''edit range'') tag))"

definition ok_edit_range :: "edit_range \<Rightarrow> bool" where
  "ok_edit_range v = (case v of ERRange _ \<Rightarrow> True | ERInsertReplace _ _ \<Rightarrow> True)"

interpretation opt_edit_range: abi_codec write_opt_edit_range read_opt_edit_range "pred_option ok_edit_range"
proof (unfold_locales, goal_cases)
  case (1 v)
  show ?case by (auto simp: write_opt_edit_range_def abi_appends intro!: run_writes_appends split: edit_range.split option.split)
next
  case 2
  show ?case unfolding read_opt_edit_range_def[abs_def] by (intro safe_rules abi_safe)
next
  case (3 v)
  have "decodes [w_u32 0] read_opt_edit_range None"
    unfolding read_opt_edit_range_def[abs_def] by (rule decodes_u32) (simp add: abi_decodes_done)
  note d_none = this[THEN decodes_single]
  have "decodes [w_u32 1, write_rng rg] read_opt_edit_range (Some (ERRange rg))" for rg
    unfolding read_opt_edit_range_def[abs_def] by (rule decodes_u32) (simp, intro abi_step abi_decodes_done; simp)
  note d_errange = this[THEN decodes_reads_back]
  have "decodes [w_u32 2, write_rng ins, write_rng rep] read_opt_edit_range (Some (ERInsertReplace ins rep))" for ins rep
    unfolding read_opt_edit_range_def[abs_def] by (rule decodes_u32) (simp, intro abi_step abi_decodes_done; simp)
  note d_erinsertreplace = this[THEN decodes_reads_back]
  from 3 show ?case
    by (cases v) (auto simp: write_opt_edit_range_def ok_edit_range_def simp del: run_writes_simps intro: d_none d_errange d_erinsertreplace split: edit_range.splits)
qed

record completion_item_defaults =
  cd_commit_characters :: "str list option"
  cd_edit_range :: "edit_range option"
  cd_insert_text_format :: "i32 option"
  cd_insert_text_mode :: "i32 option"
  cd_data :: "byte list option"

definition write_completion_item_defaults :: "completion_item_defaults \<Rightarrow> pc_writer \<Rightarrow> pc_writer" where
  "write_completion_item_defaults v = run_writes [w_option (w_list w_str) (cd_commit_characters v), write_opt_edit_range (cd_edit_range v),
     w_opt_i32 (cd_insert_text_format v), w_opt_i32 (cd_insert_text_mode v), w_opt_bytes (cd_data v)]"

definition read_completion_item_defaults :: "pc_reader \<Rightarrow> (completion_item_defaults \<times> pc_reader) abi_result" where
  "read_completion_item_defaults r0 =
     and_then (r_option (r_list r_str) r0) (\<lambda>(commit_characters, r1).
     and_then (read_opt_edit_range r1) (\<lambda>(edit_range, r2).
     and_then (r_opt_i32 r2) (\<lambda>(insert_text_format, r3).
     and_then (r_opt_i32 r3) (\<lambda>(insert_text_mode, r4).
     and_then (r_opt_bytes r4) (\<lambda>(data_v, r5).
       Ok (\<lparr>cd_commit_characters = commit_characters, cd_edit_range = edit_range, cd_insert_text_format = insert_text_format,
         cd_insert_text_mode = insert_text_mode, cd_data = data_v\<rparr>, r5))))))"

definition ok_completion_item_defaults :: "completion_item_defaults \<Rightarrow> bool" where
  "ok_completion_item_defaults v \<longleftrightarrow> pred_option (list_all utf8_valid) (cd_commit_characters v) \<and> pred_option ok_edit_range (cd_edit_range v)"

interpretation completion_item_defaults: abi_codec write_completion_item_defaults read_completion_item_defaults ok_completion_item_defaults
  unfolding read_completion_item_defaults_def[abs_def] ok_completion_item_defaults_def[abs_def]
  by (rule abi_codecI[OF write_completion_item_defaults_def]; (intro safe_rules abi_safe abi_step abi_decodes_done completion_item_defaults.equality)?; simp add: abi_appends)

record completion_apply_kind =
  ak_commit_characters :: "i32 option"
  ak_data :: "i32 option"

definition write_completion_apply_kind :: "completion_apply_kind \<Rightarrow> pc_writer \<Rightarrow> pc_writer" where
  "write_completion_apply_kind v = run_writes [w_opt_i32 (ak_commit_characters v), w_opt_i32 (ak_data v)]"

definition read_completion_apply_kind :: "pc_reader \<Rightarrow> (completion_apply_kind \<times> pc_reader) abi_result" where
  "read_completion_apply_kind r0 =
     and_then (r_opt_i32 r0) (\<lambda>(commit_characters, r1).
     and_then (r_opt_i32 r1) (\<lambda>(data_v, r2).
       Ok (\<lparr>ak_commit_characters = commit_characters, ak_data = data_v\<rparr>, r2)))"

interpretation completion_apply_kind: abi_codec write_completion_apply_kind read_completion_apply_kind "\<lambda>_. True"
  unfolding read_completion_apply_kind_def[abs_def]
  by (rule abi_codecI[OF write_completion_apply_kind_def]; (intro safe_rules abi_safe abi_step abi_decodes_done completion_apply_kind.equality)?; simp add: abi_appends)

record completion_list =
  cl_is_incomplete :: bool
  cl_item_defaults :: "completion_item_defaults option"
  cl_apply_kind :: "completion_apply_kind option"
  cl_items :: "completion_item list"

definition write_completion_list :: "completion_list \<Rightarrow> pc_writer \<Rightarrow> pc_writer" where
  "write_completion_list v = run_writes [w_bool32 (cl_is_incomplete v), w_option write_completion_item_defaults (cl_item_defaults v),
     w_option write_completion_apply_kind (cl_apply_kind v), w_list write_completion_item (cl_items v)]"

definition read_completion_list :: "pc_reader \<Rightarrow> (completion_list \<times> pc_reader) abi_result" where
  "read_completion_list r0 =
     and_then (r_bool32 r0) (\<lambda>(is_incomplete, r1).
     and_then (r_option read_completion_item_defaults r1) (\<lambda>(item_defaults, r2).
     and_then (r_option read_completion_apply_kind r2) (\<lambda>(apply_kind, r3).
     and_then (r_list read_completion_item r3) (\<lambda>(items_v, r4).
       Ok (\<lparr>cl_is_incomplete = is_incomplete, cl_item_defaults = item_defaults, cl_apply_kind = apply_kind, cl_items = items_v\<rparr>, r4)))))"

definition ok_completion_list :: "completion_list \<Rightarrow> bool" where
  "ok_completion_list v \<longleftrightarrow> pred_option ok_completion_item_defaults (cl_item_defaults v) \<and> list_all ok_completion_item (cl_items v)"

interpretation completion_list: abi_codec write_completion_list read_completion_list ok_completion_list
  unfolding read_completion_list_def[abs_def] ok_completion_list_def[abs_def]
  by (rule abi_codecI[OF write_completion_list_def]; (intro safe_rules abi_safe abi_step abi_decodes_done completion_list.equality)?; simp add: abi_appends)

definition encode_completion_list :: "completion_list \<Rightarrow> byte list abi_result" where
  "encode_completion_list v = encode_payload KIND_COMPLETION_LIST (write_completion_list v)"

definition decode_completion_list :: "byte list \<Rightarrow> completion_list abi_result" where
  "decode_completion_list buf = decode_payload KIND_COMPLETION_LIST (read_completion_list) buf"

section \<open>Hover\<close>

datatype marked_string_item = MSPlain str | MSMarked str str

definition write_marked_string_item :: "marked_string_item \<Rightarrow> pc_writer \<Rightarrow> pc_writer" where
  "write_marked_string_item v =
     (case v of
        MSPlain s \<Rightarrow> run_writes [w_u32 0, w_str s]
      | MSMarked lang val \<Rightarrow> run_writes [w_u32 1, w_str lang, w_str val])"

definition read_marked_string_item :: "pc_reader \<Rightarrow> (marked_string_item \<times> pc_reader) abi_result" where
  "read_marked_string_item r =
     and_then (r_u32 r) (\<lambda>(tag, r0).
       if tag = 0 then and_then (r_str r0) (\<lambda>(s, r1). Ok (MSPlain s, r1))
       else if tag = 1 then and_then (r_str r0) (\<lambda>(lang, r1). and_then (r_str r1) (\<lambda>(val, r2). Ok (MSMarked lang val, r2)))
       else Err (bad_tag (lit ''marked string'') tag))"

definition ok_marked_string_item :: "marked_string_item \<Rightarrow> bool" where
  "ok_marked_string_item v = (case v of MSPlain s \<Rightarrow> utf8_valid s | MSMarked lang val \<Rightarrow> utf8_valid lang \<and> utf8_valid val)"

interpretation marked_string_item: abi_codec write_marked_string_item read_marked_string_item ok_marked_string_item
proof (unfold_locales, goal_cases)
  case (1 v)
  show ?case by (auto simp: write_marked_string_item_def abi_appends intro!: run_writes_appends split: marked_string_item.split)
next
  case 2
  show ?case unfolding read_marked_string_item_def[abs_def] by (intro safe_rules abi_safe)
next
  case (3 v)
  have "decodes [w_u32 0, w_str s] read_marked_string_item (MSPlain s)" if "utf8_valid s" for s
    unfolding read_marked_string_item_def[abs_def] by (rule decodes_u32) (simp, intro abi_step abi_decodes_done that; simp)
  note d_msplain = this[THEN decodes_reads_back]
  have "decodes [w_u32 1, w_str lang, w_str val] read_marked_string_item (MSMarked lang val)" if "utf8_valid lang" "utf8_valid val" for lang val
    unfolding read_marked_string_item_def[abs_def] by (rule decodes_u32) (simp, intro abi_step abi_decodes_done that; simp)
  note d_msmarked = this[THEN decodes_reads_back]
  from 3 show ?case
    by (cases v) (auto simp: write_marked_string_item_def ok_marked_string_item_def simp del: run_writes_simps intro: d_msplain d_msmarked split: marked_string_item.splits)
qed

datatype hover_contents = HCMarkup markup_content | HCMarked "marked_string_item list"

definition write_hover_contents :: "hover_contents \<Rightarrow> pc_writer \<Rightarrow> pc_writer" where
  "write_hover_contents v =
     (case v of
        HCMarkup m \<Rightarrow> run_writes [w_u32 0, write_markup_content m]
      | HCMarked ms \<Rightarrow> run_writes [w_u32 1, w_list write_marked_string_item ms])"

definition read_hover_contents :: "pc_reader \<Rightarrow> (hover_contents \<times> pc_reader) abi_result" where
  "read_hover_contents r =
     and_then (r_u32 r) (\<lambda>(tag, r0).
       if tag = 0 then and_then (read_markup_content r0) (\<lambda>(m, r1). Ok (HCMarkup m, r1))
       else if tag = 1 then and_then (r_list read_marked_string_item r0) (\<lambda>(ms, r1). Ok (HCMarked ms, r1))
       else Err (bad_tag (lit ''hover contents'') tag))"

definition ok_hover_contents :: "hover_contents \<Rightarrow> bool" where
  "ok_hover_contents v = (case v of HCMarkup m \<Rightarrow> ok_markup_content m | HCMarked ms \<Rightarrow> list_all ok_marked_string_item ms)"

interpretation hover_contents: abi_codec write_hover_contents read_hover_contents ok_hover_contents
proof (unfold_locales, goal_cases)
  case (1 v)
  show ?case by (auto simp: write_hover_contents_def abi_appends intro!: run_writes_appends split: hover_contents.split)
next
  case 2
  show ?case unfolding read_hover_contents_def[abs_def] by (intro safe_rules abi_safe)
next
  case (3 v)
  have "decodes [w_u32 0, write_markup_content m] read_hover_contents (HCMarkup m)" if "ok_markup_content m" for m
    unfolding read_hover_contents_def[abs_def] by (rule decodes_u32) (simp, intro abi_step abi_decodes_done that; simp)
  note d_hcmarkup = this[THEN decodes_reads_back]
  have "decodes [w_u32 1, w_list write_marked_string_item ms] read_hover_contents (HCMarked ms)" if "list_all ok_marked_string_item ms" for ms
    unfolding read_hover_contents_def[abs_def] by (rule decodes_u32) (simp, intro abi_step abi_decodes_done that; simp)
  note d_hcmarked = this[THEN decodes_reads_back]
  from 3 show ?case
    by (cases v) (auto simp: write_hover_contents_def ok_hover_contents_def simp del: run_writes_simps intro: d_hcmarkup d_hcmarked split: hover_contents.splits)
qed

record hover =
  hv_contents :: hover_contents
  hv_range :: "rng option"

definition write_hover :: "hover \<Rightarrow> pc_writer \<Rightarrow> pc_writer" where
  "write_hover v = run_writes [write_hover_contents (hv_contents v), write_opt_rng (hv_range v)]"

definition read_hover :: "pc_reader \<Rightarrow> (hover \<times> pc_reader) abi_result" where
  "read_hover r0 =
     and_then (read_hover_contents r0) (\<lambda>(contents, r1).
     and_then (read_opt_rng r1) (\<lambda>(range_v, r2).
       Ok (\<lparr>hv_contents = contents, hv_range = range_v\<rparr>, r2)))"

definition ok_hover :: "hover \<Rightarrow> bool" where
  "ok_hover v \<longleftrightarrow> ok_hover_contents (hv_contents v)"

interpretation hover: abi_codec write_hover read_hover ok_hover
  unfolding read_hover_def[abs_def] ok_hover_def[abs_def]
  by (rule abi_codecI[OF write_hover_def]; (intro safe_rules abi_safe abi_step abi_decodes_done hover.equality)?; simp add: abi_appends)

interpretation hover_result_codec: abi_codec "w_option write_hover" "r_option read_hover" "pred_option ok_hover"
  by (rule hover.option_codec)

definition encode_hover_result :: "hover option \<Rightarrow> byte list abi_result" where
  "encode_hover_result v = encode_payload KIND_HOVER (w_option write_hover v)"

definition decode_hover_result :: "byte list \<Rightarrow> (hover option) abi_result" where
  "decode_hover_result buf = decode_payload KIND_HOVER (r_option read_hover) buf"

section \<open>Requests\<close>

record target_config =
  tc_bsp_id :: str
  tc_scala_version :: str
  tc_classpath :: "str list"
  tc_scalac_options :: "str list"
  tc_source_dirs :: "str list"

definition write_target_config :: "target_config \<Rightarrow> pc_writer \<Rightarrow> pc_writer" where
  "write_target_config v = run_writes [w_str (tc_bsp_id v), w_str (tc_scala_version v), w_list w_str (tc_classpath v), w_list w_str (tc_scalac_options v),
     w_list w_str (tc_source_dirs v)]"

definition read_target_config :: "pc_reader \<Rightarrow> (target_config \<times> pc_reader) abi_result" where
  "read_target_config r0 =
     and_then (r_str r0) (\<lambda>(bsp_id, r1).
     and_then (r_str r1) (\<lambda>(scala_version, r2).
     and_then (r_list r_str r2) (\<lambda>(classpath, r3).
     and_then (r_list r_str r3) (\<lambda>(scalac_options, r4).
     and_then (r_list r_str r4) (\<lambda>(source_dirs, r5).
       Ok (\<lparr>tc_bsp_id = bsp_id, tc_scala_version = scala_version, tc_classpath = classpath, tc_scalac_options = scalac_options,
         tc_source_dirs = source_dirs\<rparr>, r5))))))"

definition ok_target_config :: "target_config \<Rightarrow> bool" where
  "ok_target_config v \<longleftrightarrow> utf8_valid (tc_bsp_id v) \<and> utf8_valid (tc_scala_version v) \<and> list_all utf8_valid (tc_classpath v) \<and> list_all
     utf8_valid (tc_scalac_options v) \<and> list_all utf8_valid (tc_source_dirs v)"

interpretation target_config: abi_codec write_target_config read_target_config ok_target_config
  unfolding read_target_config_def[abs_def] ok_target_config_def[abs_def]
  by (rule abi_codecI[OF write_target_config_def]; (intro safe_rules abi_safe abi_step abi_decodes_done target_config.equality)?; simp add: abi_appends)

definition encode_target_config :: "target_config \<Rightarrow> byte list abi_result" where
  "encode_target_config v = encode_payload KIND_TARGET_CONFIG (write_target_config v)"

definition decode_target_config :: "byte list \<Rightarrow> target_config abi_result" where
  "decode_target_config buf = decode_payload KIND_TARGET_CONFIG (read_target_config) buf"

record did_open_params =
  dop_target_id :: str
  dop_uri :: str
  dop_text :: str

definition write_did_open_params :: "did_open_params \<Rightarrow> pc_writer \<Rightarrow> pc_writer" where
  "write_did_open_params v = run_writes [w_str (dop_target_id v), w_str (dop_uri v), w_str (dop_text v)]"

definition read_did_open_params :: "pc_reader \<Rightarrow> (did_open_params \<times> pc_reader) abi_result" where
  "read_did_open_params r0 =
     and_then (r_str r0) (\<lambda>(target_id, r1).
     and_then (r_str r1) (\<lambda>(uri, r2).
     and_then (r_str r2) (\<lambda>(text_v, r3).
       Ok (\<lparr>dop_target_id = target_id, dop_uri = uri, dop_text = text_v\<rparr>, r3))))"

definition ok_did_open_params :: "did_open_params \<Rightarrow> bool" where
  "ok_did_open_params v \<longleftrightarrow> utf8_valid (dop_target_id v) \<and> utf8_valid (dop_uri v) \<and> utf8_valid (dop_text v)"

interpretation did_open_params: abi_codec write_did_open_params read_did_open_params ok_did_open_params
  unfolding read_did_open_params_def[abs_def] ok_did_open_params_def[abs_def]
  by (rule abi_codecI[OF write_did_open_params_def]; (intro safe_rules abi_safe abi_step abi_decodes_done did_open_params.equality)?; simp add: abi_appends)

definition encode_did_open_params :: "did_open_params \<Rightarrow> byte list abi_result" where
  "encode_did_open_params v = encode_payload KIND_DID_OPEN (write_did_open_params v)"

definition decode_did_open_params :: "byte list \<Rightarrow> did_open_params abi_result" where
  "decode_did_open_params buf = decode_payload KIND_DID_OPEN (read_did_open_params) buf"

record did_change_params =
  dcp_uri :: str
  dcp_text :: str

definition write_did_change_params :: "did_change_params \<Rightarrow> pc_writer \<Rightarrow> pc_writer" where
  "write_did_change_params v = run_writes [w_str (dcp_uri v), w_str (dcp_text v)]"

definition read_did_change_params :: "pc_reader \<Rightarrow> (did_change_params \<times> pc_reader) abi_result" where
  "read_did_change_params r0 =
     and_then (r_str r0) (\<lambda>(uri, r1).
     and_then (r_str r1) (\<lambda>(text_v, r2).
       Ok (\<lparr>dcp_uri = uri, dcp_text = text_v\<rparr>, r2)))"

definition ok_did_change_params :: "did_change_params \<Rightarrow> bool" where
  "ok_did_change_params v \<longleftrightarrow> utf8_valid (dcp_uri v) \<and> utf8_valid (dcp_text v)"

interpretation did_change_params: abi_codec write_did_change_params read_did_change_params ok_did_change_params
  unfolding read_did_change_params_def[abs_def] ok_did_change_params_def[abs_def]
  by (rule abi_codecI[OF write_did_change_params_def]; (intro safe_rules abi_safe abi_step abi_decodes_done did_change_params.equality)?; simp add: abi_appends)

definition encode_did_change_params :: "did_change_params \<Rightarrow> byte list abi_result" where
  "encode_did_change_params v = encode_payload KIND_DID_CHANGE (write_did_change_params v)"

definition decode_did_change_params :: "byte list \<Rightarrow> did_change_params abi_result" where
  "decode_did_change_params buf = decode_payload KIND_DID_CHANGE (read_did_change_params) buf"

record position_params =
  pp_uri :: str
  pp_line :: u32
  pp_character :: u32

definition write_position_params :: "position_params \<Rightarrow> pc_writer \<Rightarrow> pc_writer" where
  "write_position_params v = run_writes [w_str (pp_uri v), w_u32 (pp_line v), w_u32 (pp_character v)]"

definition read_position_params :: "pc_reader \<Rightarrow> (position_params \<times> pc_reader) abi_result" where
  "read_position_params r0 =
     and_then (r_str r0) (\<lambda>(uri, r1).
     and_then (r_u32 r1) (\<lambda>(line_v, r2).
     and_then (r_u32 r2) (\<lambda>(character_v, r3).
       Ok (\<lparr>pp_uri = uri, pp_line = line_v, pp_character = character_v\<rparr>, r3))))"

definition ok_position_params :: "position_params \<Rightarrow> bool" where
  "ok_position_params v \<longleftrightarrow> utf8_valid (pp_uri v)"

interpretation position_params: abi_codec write_position_params read_position_params ok_position_params
  unfolding read_position_params_def[abs_def] ok_position_params_def[abs_def]
  by (rule abi_codecI[OF write_position_params_def]; (intro safe_rules abi_safe abi_step abi_decodes_done position_params.equality)?; simp add: abi_appends)

definition encode_position_params :: "position_params \<Rightarrow> byte list abi_result" where
  "encode_position_params v = encode_payload KIND_POSITION (write_position_params v)"

definition decode_position_params :: "byte list \<Rightarrow> position_params abi_result" where
  "decode_position_params buf = decode_payload KIND_POSITION (read_position_params) buf"

record resolve_params =
  rp_target_id :: str
  rp_symbol :: str
  rp_item :: completion_item

definition write_resolve_params :: "resolve_params \<Rightarrow> pc_writer \<Rightarrow> pc_writer" where
  "write_resolve_params v = run_writes [w_str (rp_target_id v), w_str (rp_symbol v), write_completion_item (rp_item v)]"

definition read_resolve_params :: "pc_reader \<Rightarrow> (resolve_params \<times> pc_reader) abi_result" where
  "read_resolve_params r0 =
     and_then (r_str r0) (\<lambda>(target_id, r1).
     and_then (r_str r1) (\<lambda>(symbol_v, r2).
     and_then (read_completion_item r2) (\<lambda>(item_v, r3).
       Ok (\<lparr>rp_target_id = target_id, rp_symbol = symbol_v, rp_item = item_v\<rparr>, r3))))"

definition ok_resolve_params :: "resolve_params \<Rightarrow> bool" where
  "ok_resolve_params v \<longleftrightarrow> utf8_valid (rp_target_id v) \<and> utf8_valid (rp_symbol v) \<and> ok_completion_item (rp_item v)"

interpretation resolve_params: abi_codec write_resolve_params read_resolve_params ok_resolve_params
  unfolding read_resolve_params_def[abs_def] ok_resolve_params_def[abs_def]
  by (rule abi_codecI[OF write_resolve_params_def]; (intro safe_rules abi_safe abi_step abi_decodes_done resolve_params.equality)?; simp add: abi_appends)

definition encode_resolve_params :: "resolve_params \<Rightarrow> byte list abi_result" where
  "encode_resolve_params v = encode_payload KIND_RESOLVE_PARAMS (write_resolve_params v)"

definition decode_resolve_params :: "byte list \<Rightarrow> resolve_params abi_result" where
  "decode_resolve_params buf = decode_payload KIND_RESOLVE_PARAMS (read_resolve_params) buf"

end
