(* ===== verification/Pc_Queries.thy ===== *)
theory Pc_Queries
  imports Pc_Payloads
begin

text \<open>
  The payloads of the presentation-compiler boundary, part two: signature help, definitions, plugin status
  and the payload-query operations of \<open>crates/ls-pc-abi/src/payloads.rs\<close>, in the manner of \<open>Pc_Payloads\<close>.
  The closing theorems are about all payloads of the boundary.
\<close>

section \<open>Signature help\<close>

datatype parameter_label = PLStr str | PLOffsets u32 u32

definition write_parameter_label :: "parameter_label \<Rightarrow> pc_writer \<Rightarrow> pc_writer" where
  "write_parameter_label v =
     (case v of
        PLStr s \<Rightarrow> run_writes [w_u32 0, w_str s]
      | PLOffsets lo hi \<Rightarrow> run_writes [w_u32 1, w_u32 lo, w_u32 hi])"

definition read_parameter_label :: "pc_reader \<Rightarrow> (parameter_label \<times> pc_reader) abi_result" where
  "read_parameter_label r =
     and_then (r_u32 r) (\<lambda>(tag, r0).
       if tag = 0 then and_then (r_str r0) (\<lambda>(s, r1). Ok (PLStr s, r1))
       else if tag = 1 then and_then (r_u32 r0) (\<lambda>(lo, r1). and_then (r_u32 r1) (\<lambda>(hi, r2). Ok (PLOffsets lo hi, r2)))
       else Err (bad_tag (lit ''parameter label'') tag))"

definition ok_parameter_label :: "parameter_label \<Rightarrow> bool" where
  "ok_parameter_label v = (case v of PLStr s \<Rightarrow> utf8_valid s | PLOffsets _ _ \<Rightarrow> True)"

interpretation parameter_label: abi_codec write_parameter_label read_parameter_label ok_parameter_label
proof (unfold_locales, goal_cases)
  case (1 v)
  show ?case by (auto simp: write_parameter_label_def abi_appends intro!: run_writes_appends split: parameter_label.split)
next
  case 2
  show ?case unfolding read_parameter_label_def[abs_def] by (intro safe_rules abi_safe)
next
  case (3 v)
  have "decodes [w_u32 0, w_str s] read_parameter_label (PLStr s)" if "utf8_valid s" for s
    unfolding read_parameter_label_def[abs_def] by (rule decodes_u32) (simp, intro abi_step abi_decodes_done that; simp)
  note d_plstr = this[THEN decodes_reads_back]
  have "decodes [w_u32 1, w_u32 lo, w_u32 hi] read_parameter_label (PLOffsets lo hi)" for lo hi
    unfolding read_parameter_label_def[abs_def] by (rule decodes_u32) (simp, intro abi_step abi_decodes_done; simp)
  note d_ploffsets = this[THEN decodes_reads_back]
  from 3 show ?case
    by (cases v) (auto simp: write_parameter_label_def ok_parameter_label_def simp del: run_writes_simps intro: d_plstr d_ploffsets split: parameter_label.splits)
qed

record parameter_info =
  pi_label :: parameter_label
  pi_documentation :: "documentation option"

definition write_parameter_info :: "parameter_info \<Rightarrow> pc_writer \<Rightarrow> pc_writer" where
  "write_parameter_info v = run_writes [write_parameter_label (pi_label v), write_opt_documentation (pi_documentation v)]"

definition read_parameter_info :: "pc_reader \<Rightarrow> (parameter_info \<times> pc_reader) abi_result" where
  "read_parameter_info r0 =
     and_then (read_parameter_label r0) (\<lambda>(label_v, r1).
     and_then (read_opt_documentation r1) (\<lambda>(documentation, r2).
       Ok (\<lparr>pi_label = label_v, pi_documentation = documentation\<rparr>, r2)))"

definition ok_parameter_info :: "parameter_info \<Rightarrow> bool" where
  "ok_parameter_info v \<longleftrightarrow> ok_parameter_label (pi_label v) \<and> pred_option ok_documentation (pi_documentation v)"

interpretation parameter_info: abi_codec write_parameter_info read_parameter_info ok_parameter_info
  unfolding read_parameter_info_def[abs_def] ok_parameter_info_def[abs_def]
  by (rule abi_codecI[OF write_parameter_info_def]; (intro safe_rules abi_safe abi_step abi_decodes_done parameter_info.equality)?; simp add: abi_appends)

record signature_info =
  sg_label :: str
  sg_documentation :: "documentation option"
  sg_parameters :: "parameter_info list option"
  sg_active_parameter :: "i32 option"

definition write_signature_info :: "signature_info \<Rightarrow> pc_writer \<Rightarrow> pc_writer" where
  "write_signature_info v = run_writes [w_str (sg_label v), write_opt_documentation (sg_documentation v),
     w_option (w_list write_parameter_info) (sg_parameters v), w_opt_i32 (sg_active_parameter v)]"

definition read_signature_info :: "pc_reader \<Rightarrow> (signature_info \<times> pc_reader) abi_result" where
  "read_signature_info r0 =
     and_then (r_str r0) (\<lambda>(label_v, r1).
     and_then (read_opt_documentation r1) (\<lambda>(documentation, r2).
     and_then (r_option (r_list read_parameter_info) r2) (\<lambda>(parameters, r3).
     and_then (r_opt_i32 r3) (\<lambda>(active_parameter, r4).
       Ok (\<lparr>sg_label = label_v, sg_documentation = documentation, sg_parameters = parameters,
         sg_active_parameter = active_parameter\<rparr>, r4)))))"

definition ok_signature_info :: "signature_info \<Rightarrow> bool" where
  "ok_signature_info v \<longleftrightarrow> utf8_valid (sg_label v) \<and> pred_option ok_documentation (sg_documentation v) \<and> pred_option (list_all
     ok_parameter_info) (sg_parameters v)"

interpretation signature_info: abi_codec write_signature_info read_signature_info ok_signature_info
  unfolding read_signature_info_def[abs_def] ok_signature_info_def[abs_def]
  by (rule abi_codecI[OF write_signature_info_def]; (intro safe_rules abi_safe abi_step abi_decodes_done signature_info.equality)?; simp add: abi_appends)

record signature_help =
  sh_signatures :: "signature_info list"
  sh_active_signature :: "i32 option"
  sh_active_parameter :: "i32 option"

definition write_signature_help :: "signature_help \<Rightarrow> pc_writer \<Rightarrow> pc_writer" where
  "write_signature_help v = run_writes [w_list write_signature_info (sh_signatures v), w_opt_i32 (sh_active_signature v), w_opt_i32 (sh_active_parameter v)]"

definition read_signature_help :: "pc_reader \<Rightarrow> (signature_help \<times> pc_reader) abi_result" where
  "read_signature_help r0 =
     and_then (r_list read_signature_info r0) (\<lambda>(signatures_v, r1).
     and_then (r_opt_i32 r1) (\<lambda>(active_signature, r2).
     and_then (r_opt_i32 r2) (\<lambda>(active_parameter, r3).
       Ok (\<lparr>sh_signatures = signatures_v, sh_active_signature = active_signature, sh_active_parameter = active_parameter\<rparr>, r3))))"

definition ok_signature_help :: "signature_help \<Rightarrow> bool" where
  "ok_signature_help v \<longleftrightarrow> list_all ok_signature_info (sh_signatures v)"

interpretation signature_help: abi_codec write_signature_help read_signature_help ok_signature_help
  unfolding read_signature_help_def[abs_def] ok_signature_help_def[abs_def]
  by (rule abi_codecI[OF write_signature_help_def]; (intro safe_rules abi_safe abi_step abi_decodes_done signature_help.equality)?; simp add: abi_appends)

definition encode_signature_help :: "signature_help \<Rightarrow> byte list abi_result" where
  "encode_signature_help v = encode_payload KIND_SIGNATURE_HELP (write_signature_help v)"

definition decode_signature_help :: "byte list \<Rightarrow> signature_help abi_result" where
  "decode_signature_help buf = decode_payload KIND_SIGNATURE_HELP (read_signature_help) buf"

section \<open>Definitions and locations\<close>

record definition_result =
  dr_symbol :: str
  dr_locations :: "location list"

definition write_definition_result :: "definition_result \<Rightarrow> pc_writer \<Rightarrow> pc_writer" where
  "write_definition_result v = run_writes [w_str (dr_symbol v), w_list write_location (dr_locations v)]"

definition read_definition_result :: "pc_reader \<Rightarrow> (definition_result \<times> pc_reader) abi_result" where
  "read_definition_result r0 =
     and_then (r_str r0) (\<lambda>(symbol_v, r1).
     and_then (r_list read_location r1) (\<lambda>(locations_v, r2).
       Ok (\<lparr>dr_symbol = symbol_v, dr_locations = locations_v\<rparr>, r2)))"

definition ok_definition_result :: "definition_result \<Rightarrow> bool" where
  "ok_definition_result v \<longleftrightarrow> utf8_valid (dr_symbol v) \<and> list_all ok_location (dr_locations v)"

interpretation definition_result: abi_codec write_definition_result read_definition_result ok_definition_result
  unfolding read_definition_result_def[abs_def] ok_definition_result_def[abs_def]
  by (rule abi_codecI[OF write_definition_result_def]; (intro safe_rules abi_safe abi_step abi_decodes_done definition_result.equality)?; simp add: abi_appends)

definition encode_definition_result :: "definition_result \<Rightarrow> byte list abi_result" where
  "encode_definition_result v = encode_payload KIND_DEFINITION (write_definition_result v)"

definition decode_definition_result :: "byte list \<Rightarrow> definition_result abi_result" where
  "decode_definition_result buf = decode_payload KIND_DEFINITION (read_definition_result) buf"

record locations_result =
  lr_locations :: "location list"

definition write_locations_result :: "locations_result \<Rightarrow> pc_writer \<Rightarrow> pc_writer" where
  "write_locations_result v = run_writes [w_list write_location (lr_locations v)]"

definition read_locations_result :: "pc_reader \<Rightarrow> (locations_result \<times> pc_reader) abi_result" where
  "read_locations_result r0 =
     and_then (r_list read_location r0) (\<lambda>(locations_v, r1).
       Ok (\<lparr>lr_locations = locations_v\<rparr>, r1))"

definition ok_locations_result :: "locations_result \<Rightarrow> bool" where
  "ok_locations_result v \<longleftrightarrow> list_all ok_location (lr_locations v)"

interpretation locations_result: abi_codec write_locations_result read_locations_result ok_locations_result
  unfolding read_locations_result_def[abs_def] ok_locations_result_def[abs_def]
  by (rule abi_codecI[OF write_locations_result_def]; (intro safe_rules abi_safe abi_step abi_decodes_done locations_result.equality)?; simp add: abi_appends)

definition encode_locations_result :: "locations_result \<Rightarrow> byte list abi_result" where
  "encode_locations_result v = encode_payload KIND_LOCATIONS (write_locations_result v)"

definition decode_locations_result :: "byte list \<Rightarrow> locations_result abi_result" where
  "decode_locations_result buf = decode_payload KIND_LOCATIONS (read_locations_result) buf"

record method_hit =
  mh_uri :: str
  mh_symbol :: str
  mh_kind :: i32
  mh_range :: rng

definition write_method_hit :: "method_hit \<Rightarrow> pc_writer \<Rightarrow> pc_writer" where
  "write_method_hit v = run_writes [w_str (mh_uri v), w_str (mh_symbol v), w_i32 (mh_kind v), write_rng (mh_range v)]"

definition read_method_hit :: "pc_reader \<Rightarrow> (method_hit \<times> pc_reader) abi_result" where
  "read_method_hit r0 =
     and_then (r_str r0) (\<lambda>(uri, r1).
     and_then (r_str r1) (\<lambda>(symbol_v, r2).
     and_then (r_i32 r2) (\<lambda>(kind_v, r3).
     and_then (read_rng r3) (\<lambda>(range_v, r4).
       Ok (\<lparr>mh_uri = uri, mh_symbol = symbol_v, mh_kind = kind_v, mh_range = range_v\<rparr>, r4)))))"

definition ok_method_hit :: "method_hit \<Rightarrow> bool" where
  "ok_method_hit v \<longleftrightarrow> utf8_valid (mh_uri v) \<and> utf8_valid (mh_symbol v)"

interpretation method_hit: abi_codec write_method_hit read_method_hit ok_method_hit
  unfolding read_method_hit_def[abs_def] ok_method_hit_def[abs_def]
  by (rule abi_codecI[OF write_method_hit_def]; (intro safe_rules abi_safe abi_step abi_decodes_done method_hit.equality)?; simp add: abi_appends)

record method_hits_result =
  mr_hits :: "method_hit list"

definition write_method_hits_result :: "method_hits_result \<Rightarrow> pc_writer \<Rightarrow> pc_writer" where
  "write_method_hits_result v = run_writes [w_list write_method_hit (mr_hits v)]"

definition read_method_hits_result :: "pc_reader \<Rightarrow> (method_hits_result \<times> pc_reader) abi_result" where
  "read_method_hits_result r0 =
     and_then (r_list read_method_hit r0) (\<lambda>(hits_v, r1).
       Ok (\<lparr>mr_hits = hits_v\<rparr>, r1))"

definition ok_method_hits_result :: "method_hits_result \<Rightarrow> bool" where
  "ok_method_hits_result v \<longleftrightarrow> list_all ok_method_hit (mr_hits v)"

interpretation method_hits_result: abi_codec write_method_hits_result read_method_hits_result ok_method_hits_result
  unfolding read_method_hits_result_def[abs_def] ok_method_hits_result_def[abs_def]
  by (rule abi_codecI[OF write_method_hits_result_def]; (intro safe_rules abi_safe abi_step abi_decodes_done method_hits_result.equality)?; simp add: abi_appends)

definition encode_method_hits_result :: "method_hits_result \<Rightarrow> byte list abi_result" where
  "encode_method_hits_result v = encode_payload KIND_METHOD_HITS (write_method_hits_result v)"

definition decode_method_hits_result :: "byte list \<Rightarrow> method_hits_result abi_result" where
  "decode_method_hits_result buf = decode_payload KIND_METHOD_HITS (read_method_hits_result) buf"

definition encode_prepare_rename_result :: "rng option \<Rightarrow> byte list abi_result" where
  "encode_prepare_rename_result v = encode_payload KIND_PREPARE_RENAME (write_opt_rng v)"

definition decode_prepare_rename_result :: "byte list \<Rightarrow> (rng option) abi_result" where
  "decode_prepare_rename_result buf = decode_payload KIND_PREPARE_RENAME (read_opt_rng) buf"

section \<open>Plugin status\<close>

record compiler_plugin =
  cp_jars :: "str list"
  cp_options :: "str list"
  cp_loaded :: bool
  cp_detail :: str

definition write_compiler_plugin :: "compiler_plugin \<Rightarrow> pc_writer \<Rightarrow> pc_writer" where
  "write_compiler_plugin v = run_writes [w_list w_str (cp_jars v), w_list w_str (cp_options v), w_bool32 (cp_loaded v), w_str (cp_detail v)]"

definition read_compiler_plugin :: "pc_reader \<Rightarrow> (compiler_plugin \<times> pc_reader) abi_result" where
  "read_compiler_plugin r0 =
     and_then (r_list r_str r0) (\<lambda>(jars, r1).
     and_then (r_list r_str r1) (\<lambda>(options_v, r2).
     and_then (r_bool32 r2) (\<lambda>(loaded_v, r3).
     and_then (r_str r3) (\<lambda>(detail_v, r4).
       Ok (\<lparr>cp_jars = jars, cp_options = options_v, cp_loaded = loaded_v, cp_detail = detail_v\<rparr>, r4)))))"

definition ok_compiler_plugin :: "compiler_plugin \<Rightarrow> bool" where
  "ok_compiler_plugin v \<longleftrightarrow> list_all utf8_valid (cp_jars v) \<and> list_all utf8_valid (cp_options v) \<and> utf8_valid (cp_detail v)"

interpretation compiler_plugin: abi_codec write_compiler_plugin read_compiler_plugin ok_compiler_plugin
  unfolding read_compiler_plugin_def[abs_def] ok_compiler_plugin_def[abs_def]
  by (rule abi_codecI[OF write_compiler_plugin_def]; (intro safe_rules abi_safe abi_step abi_decodes_done compiler_plugin.equality)?; simp add: abi_appends)

record service_plugin =
  sp_id :: str
  sp_source :: str
  sp_enabled :: bool
  sp_self_test_ok :: bool
  sp_self_test_detail :: str

definition write_service_plugin :: "service_plugin \<Rightarrow> pc_writer \<Rightarrow> pc_writer" where
  "write_service_plugin v = run_writes [w_str (sp_id v), w_str (sp_source v), w_bool32 (sp_enabled v), w_bool32 (sp_self_test_ok v),
     w_str (sp_self_test_detail v)]"

definition read_service_plugin :: "pc_reader \<Rightarrow> (service_plugin \<times> pc_reader) abi_result" where
  "read_service_plugin r0 =
     and_then (r_str r0) (\<lambda>(id_v, r1).
     and_then (r_str r1) (\<lambda>(source_v, r2).
     and_then (r_bool32 r2) (\<lambda>(enabled_v, r3).
     and_then (r_bool32 r3) (\<lambda>(self_test_ok, r4).
     and_then (r_str r4) (\<lambda>(self_test_detail, r5).
       Ok (\<lparr>sp_id = id_v, sp_source = source_v, sp_enabled = enabled_v, sp_self_test_ok = self_test_ok,
         sp_self_test_detail = self_test_detail\<rparr>, r5))))))"

definition ok_service_plugin :: "service_plugin \<Rightarrow> bool" where
  "ok_service_plugin v \<longleftrightarrow> utf8_valid (sp_id v) \<and> utf8_valid (sp_source v) \<and> utf8_valid (sp_self_test_detail v)"

interpretation service_plugin: abi_codec write_service_plugin read_service_plugin ok_service_plugin
  unfolding read_service_plugin_def[abs_def] ok_service_plugin_def[abs_def]
  by (rule abi_codecI[OF write_service_plugin_def]; (intro safe_rules abi_safe abi_step abi_decodes_done service_plugin.equality)?; simp add: abi_appends)

record disabled_plugin =
  dp_id :: str
  dp_reason :: str

definition write_disabled_plugin :: "disabled_plugin \<Rightarrow> pc_writer \<Rightarrow> pc_writer" where
  "write_disabled_plugin v = run_writes [w_str (dp_id v), w_str (dp_reason v)]"

definition read_disabled_plugin :: "pc_reader \<Rightarrow> (disabled_plugin \<times> pc_reader) abi_result" where
  "read_disabled_plugin r0 =
     and_then (r_str r0) (\<lambda>(id_v, r1).
     and_then (r_str r1) (\<lambda>(reason_v, r2).
       Ok (\<lparr>dp_id = id_v, dp_reason = reason_v\<rparr>, r2)))"

definition ok_disabled_plugin :: "disabled_plugin \<Rightarrow> bool" where
  "ok_disabled_plugin v \<longleftrightarrow> utf8_valid (dp_id v) \<and> utf8_valid (dp_reason v)"

interpretation disabled_plugin: abi_codec write_disabled_plugin read_disabled_plugin ok_disabled_plugin
  unfolding read_disabled_plugin_def[abs_def] ok_disabled_plugin_def[abs_def]
  by (rule abi_codecI[OF write_disabled_plugin_def]; (intro safe_rules abi_safe abi_step abi_decodes_done disabled_plugin.equality)?; simp add: abi_appends)

record plugin_status =
  ps_compiler_plugins :: "compiler_plugin list"
  ps_service_plugins :: "service_plugin list"
  ps_disabled :: "disabled_plugin list"

definition write_plugin_status :: "plugin_status \<Rightarrow> pc_writer \<Rightarrow> pc_writer" where
  "write_plugin_status v = run_writes [w_list write_compiler_plugin (ps_compiler_plugins v), w_list write_service_plugin (ps_service_plugins v),
     w_list write_disabled_plugin (ps_disabled v)]"

definition read_plugin_status :: "pc_reader \<Rightarrow> (plugin_status \<times> pc_reader) abi_result" where
  "read_plugin_status r0 =
     and_then (r_list read_compiler_plugin r0) (\<lambda>(compiler_plugins, r1).
     and_then (r_list read_service_plugin r1) (\<lambda>(service_plugins, r2).
     and_then (r_list read_disabled_plugin r2) (\<lambda>(disabled, r3).
       Ok (\<lparr>ps_compiler_plugins = compiler_plugins, ps_service_plugins = service_plugins, ps_disabled = disabled\<rparr>, r3))))"

definition ok_plugin_status :: "plugin_status \<Rightarrow> bool" where
  "ok_plugin_status v \<longleftrightarrow> list_all ok_compiler_plugin (ps_compiler_plugins v) \<and> list_all ok_service_plugin (ps_service_plugins v) \<and> list_all
     ok_disabled_plugin (ps_disabled v)"

interpretation plugin_status: abi_codec write_plugin_status read_plugin_status ok_plugin_status
  unfolding read_plugin_status_def[abs_def] ok_plugin_status_def[abs_def]
  by (rule abi_codecI[OF write_plugin_status_def]; (intro safe_rules abi_safe abi_step abi_decodes_done plugin_status.equality)?; simp add: abi_appends)

definition encode_plugin_status :: "plugin_status \<Rightarrow> byte list abi_result" where
  "encode_plugin_status v = encode_payload KIND_PLUGIN_STATUS (write_plugin_status v)"

definition decode_plugin_status :: "byte list \<Rightarrow> plugin_status abi_result" where
  "decode_plugin_status buf = decode_payload KIND_PLUGIN_STATUS (read_plugin_status) buf"

section \<open>Inlay hints\<close>

record inlay_hint_params =
  ihp_uri :: str
  ihp_range :: rng
  ihp_flags :: u32

definition write_inlay_hint_params :: "inlay_hint_params \<Rightarrow> pc_writer \<Rightarrow> pc_writer" where
  "write_inlay_hint_params v = run_writes [w_str (ihp_uri v), write_rng (ihp_range v), w_u32 (ihp_flags v)]"

definition read_inlay_hint_params :: "pc_reader \<Rightarrow> (inlay_hint_params \<times> pc_reader) abi_result" where
  "read_inlay_hint_params r0 =
     and_then (r_str r0) (\<lambda>(uri, r1).
     and_then (read_rng r1) (\<lambda>(range_v, r2).
     and_then (r_u32 r2) (\<lambda>(flags, r3).
       Ok (\<lparr>ihp_uri = uri, ihp_range = range_v, ihp_flags = flags\<rparr>, r3))))"

definition ok_inlay_hint_params :: "inlay_hint_params \<Rightarrow> bool" where
  "ok_inlay_hint_params v \<longleftrightarrow> utf8_valid (ihp_uri v)"

interpretation inlay_hint_params: abi_codec write_inlay_hint_params read_inlay_hint_params ok_inlay_hint_params
  unfolding read_inlay_hint_params_def[abs_def] ok_inlay_hint_params_def[abs_def]
  by (rule abi_codecI[OF write_inlay_hint_params_def]; (intro safe_rules abi_safe abi_step abi_decodes_done inlay_hint_params.equality)?; simp add: abi_appends)

definition encode_inlay_hint_params :: "inlay_hint_params \<Rightarrow> byte list abi_result" where
  "encode_inlay_hint_params v = encode_payload KIND_INLAY_HINT_PARAMS (write_inlay_hint_params v)"

definition decode_inlay_hint_params :: "byte list \<Rightarrow> inlay_hint_params abi_result" where
  "decode_inlay_hint_params buf = decode_payload KIND_INLAY_HINT_PARAMS (read_inlay_hint_params) buf"

record label_location =
  ll_uri :: str
  ll_range :: rng

definition write_label_location :: "label_location \<Rightarrow> pc_writer \<Rightarrow> pc_writer" where
  "write_label_location v = run_writes [w_str (ll_uri v), write_rng (ll_range v)]"

definition read_label_location :: "pc_reader \<Rightarrow> (label_location \<times> pc_reader) abi_result" where
  "read_label_location r0 =
     and_then (r_str r0) (\<lambda>(uri, r1).
     and_then (read_rng r1) (\<lambda>(range_v, r2).
       Ok (\<lparr>ll_uri = uri, ll_range = range_v\<rparr>, r2)))"

definition ok_label_location :: "label_location \<Rightarrow> bool" where
  "ok_label_location v \<longleftrightarrow> utf8_valid (ll_uri v)"

interpretation label_location: abi_codec write_label_location read_label_location ok_label_location
  unfolding read_label_location_def[abs_def] ok_label_location_def[abs_def]
  by (rule abi_codecI[OF write_label_location_def]; (intro safe_rules abi_safe abi_step abi_decodes_done label_location.equality)?; simp add: abi_appends)

record inlay_label_part =
  il_text :: str
  il_location :: "label_location option"
  il_tooltip :: "str option"

definition write_inlay_label_part :: "inlay_label_part \<Rightarrow> pc_writer \<Rightarrow> pc_writer" where
  "write_inlay_label_part v = run_writes [w_str (il_text v), w_option write_label_location (il_location v), w_opt_str (il_tooltip v)]"

definition read_inlay_label_part :: "pc_reader \<Rightarrow> (inlay_label_part \<times> pc_reader) abi_result" where
  "read_inlay_label_part r0 =
     and_then (r_str r0) (\<lambda>(text_v, r1).
     and_then (r_option read_label_location r1) (\<lambda>(location_v, r2).
     and_then (r_opt_str r2) (\<lambda>(tooltip, r3).
       Ok (\<lparr>il_text = text_v, il_location = location_v, il_tooltip = tooltip\<rparr>, r3))))"

definition ok_inlay_label_part :: "inlay_label_part \<Rightarrow> bool" where
  "ok_inlay_label_part v \<longleftrightarrow> utf8_valid (il_text v) \<and> pred_option ok_label_location (il_location v) \<and> pred_option utf8_valid (il_tooltip v)"

interpretation inlay_label_part: abi_codec write_inlay_label_part read_inlay_label_part ok_inlay_label_part
  unfolding read_inlay_label_part_def[abs_def] ok_inlay_label_part_def[abs_def]
  by (rule abi_codecI[OF write_inlay_label_part_def]; (intro safe_rules abi_safe abi_step abi_decodes_done inlay_label_part.equality)?; simp add: abi_appends)

record inlay_hint =
  ih_position :: lsp_pos
  ih_label_parts :: "inlay_label_part list"
  ih_kind :: i32
  ih_padding_left :: bool
  ih_padding_right :: bool
  ih_text_edits :: "text_edit list option"
  ih_data :: "byte list option"

definition write_inlay_hint :: "inlay_hint \<Rightarrow> pc_writer \<Rightarrow> pc_writer" where
  "write_inlay_hint v = run_writes [write_lsp_pos (ih_position v), w_list write_inlay_label_part (ih_label_parts v), w_i32 (ih_kind v),
     w_bool32 (ih_padding_left v), w_bool32 (ih_padding_right v),
     w_option (w_list write_text_edit) (ih_text_edits v), w_opt_bytes (ih_data v)]"

definition read_inlay_hint :: "pc_reader \<Rightarrow> (inlay_hint \<times> pc_reader) abi_result" where
  "read_inlay_hint r0 =
     and_then (read_lsp_pos r0) (\<lambda>(position_v, r1).
     and_then (r_list read_inlay_label_part r1) (\<lambda>(label_parts, r2).
     and_then (r_i32 r2) (\<lambda>(kind_v, r3).
     and_then (r_bool32 r3) (\<lambda>(padding_left, r4).
     and_then (r_bool32 r4) (\<lambda>(padding_right, r5).
     and_then (r_option (r_list read_text_edit) r5) (\<lambda>(text_edits, r6).
     and_then (r_opt_bytes r6) (\<lambda>(data_v, r7).
       Ok (\<lparr>ih_position = position_v, ih_label_parts = label_parts, ih_kind = kind_v, ih_padding_left = padding_left,
         ih_padding_right = padding_right, ih_text_edits = text_edits, ih_data = data_v\<rparr>, r7))))))))"

definition ok_inlay_hint :: "inlay_hint \<Rightarrow> bool" where
  "ok_inlay_hint v \<longleftrightarrow> list_all ok_inlay_label_part (ih_label_parts v) \<and> pred_option (list_all ok_text_edit) (ih_text_edits v)"

interpretation inlay_hint: abi_codec write_inlay_hint read_inlay_hint ok_inlay_hint
  unfolding read_inlay_hint_def[abs_def] ok_inlay_hint_def[abs_def]
  by (rule abi_codecI[OF write_inlay_hint_def]; (intro safe_rules abi_safe abi_step abi_decodes_done inlay_hint.equality)?; simp add: abi_appends)

record inlay_hints_result =
  ihr_hints :: "inlay_hint list"

definition write_inlay_hints_result :: "inlay_hints_result \<Rightarrow> pc_writer \<Rightarrow> pc_writer" where
  "write_inlay_hints_result v = run_writes [w_list write_inlay_hint (ihr_hints v)]"

definition read_inlay_hints_result :: "pc_reader \<Rightarrow> (inlay_hints_result \<times> pc_reader) abi_result" where
  "read_inlay_hints_result r0 =
     and_then (r_list read_inlay_hint r0) (\<lambda>(hints, r1).
       Ok (\<lparr>ihr_hints = hints\<rparr>, r1))"

definition ok_inlay_hints_result :: "inlay_hints_result \<Rightarrow> bool" where
  "ok_inlay_hints_result v \<longleftrightarrow> list_all ok_inlay_hint (ihr_hints v)"

interpretation inlay_hints_result: abi_codec write_inlay_hints_result read_inlay_hints_result ok_inlay_hints_result
  unfolding read_inlay_hints_result_def[abs_def] ok_inlay_hints_result_def[abs_def]
  by (rule abi_codecI[OF write_inlay_hints_result_def]; (intro safe_rules abi_safe abi_step abi_decodes_done inlay_hints_result.equality)?; simp add: abi_appends)

definition encode_inlay_hints_result :: "inlay_hints_result \<Rightarrow> byte list abi_result" where
  "encode_inlay_hints_result v = encode_payload KIND_INLAY_HINTS (write_inlay_hints_result v)"

definition decode_inlay_hints_result :: "byte list \<Rightarrow> inlay_hints_result abi_result" where
  "decode_inlay_hints_result buf = decode_payload KIND_INLAY_HINTS (read_inlay_hints_result) buf"

section \<open>Semantic tokens, selection and folding ranges\<close>

record uri_params =
  up_uri :: str

definition write_uri_params :: "uri_params \<Rightarrow> pc_writer \<Rightarrow> pc_writer" where
  "write_uri_params v = run_writes [w_str (up_uri v)]"

definition read_uri_params :: "pc_reader \<Rightarrow> (uri_params \<times> pc_reader) abi_result" where
  "read_uri_params r0 =
     and_then (r_str r0) (\<lambda>(uri, r1).
       Ok (\<lparr>up_uri = uri\<rparr>, r1))"

definition ok_uri_params :: "uri_params \<Rightarrow> bool" where
  "ok_uri_params v \<longleftrightarrow> utf8_valid (up_uri v)"

interpretation uri_params: abi_codec write_uri_params read_uri_params ok_uri_params
  unfolding read_uri_params_def[abs_def] ok_uri_params_def[abs_def]
  by (rule abi_codecI[OF write_uri_params_def]; (intro safe_rules abi_safe abi_step abi_decodes_done uri_params.equality)?; simp add: abi_appends)

definition encode_uri_params :: "uri_params \<Rightarrow> byte list abi_result" where
  "encode_uri_params v = encode_payload KIND_URI_PARAMS (write_uri_params v)"

definition decode_uri_params :: "byte list \<Rightarrow> uri_params abi_result" where
  "decode_uri_params buf = decode_payload KIND_URI_PARAMS (read_uri_params) buf"

record semantic_node =
  sn_start :: u32
  sn_end :: u32
  sn_token_type :: i32
  sn_token_modifier :: i32

definition write_semantic_node :: "semantic_node \<Rightarrow> pc_writer \<Rightarrow> pc_writer" where
  "write_semantic_node v = run_writes [w_u32 (sn_start v), w_u32 (sn_end v), w_i32 (sn_token_type v), w_i32 (sn_token_modifier v)]"

definition read_semantic_node :: "pc_reader \<Rightarrow> (semantic_node \<times> pc_reader) abi_result" where
  "read_semantic_node r0 =
     and_then (r_u32 r0) (\<lambda>(start_v, r1).
     and_then (r_u32 r1) (\<lambda>(end_v, r2).
     and_then (r_i32 r2) (\<lambda>(token_type, r3).
     and_then (r_i32 r3) (\<lambda>(token_modifier, r4).
       Ok (\<lparr>sn_start = start_v, sn_end = end_v, sn_token_type = token_type, sn_token_modifier = token_modifier\<rparr>, r4)))))"

interpretation semantic_node: abi_codec write_semantic_node read_semantic_node "\<lambda>_. True"
  unfolding read_semantic_node_def[abs_def]
  by (rule abi_codecI[OF write_semantic_node_def]; (intro safe_rules abi_safe abi_step abi_decodes_done semantic_node.equality)?; simp add: abi_appends)

record semantic_tokens_result =
  sr_nodes :: "semantic_node list"

definition write_semantic_tokens_result :: "semantic_tokens_result \<Rightarrow> pc_writer \<Rightarrow> pc_writer" where
  "write_semantic_tokens_result v = run_writes [w_list write_semantic_node (sr_nodes v)]"

definition read_semantic_tokens_result :: "pc_reader \<Rightarrow> (semantic_tokens_result \<times> pc_reader) abi_result" where
  "read_semantic_tokens_result r0 =
     and_then (r_list read_semantic_node r0) (\<lambda>(nodes, r1).
       Ok (\<lparr>sr_nodes = nodes\<rparr>, r1))"

interpretation semantic_tokens_result: abi_codec write_semantic_tokens_result read_semantic_tokens_result "\<lambda>_. True"
  unfolding read_semantic_tokens_result_def[abs_def]
  by (rule abi_codecI[OF write_semantic_tokens_result_def]; (intro safe_rules abi_safe abi_step abi_decodes_done semantic_tokens_result.equality)?; simp add: abi_appends)

definition encode_semantic_tokens_result :: "semantic_tokens_result \<Rightarrow> byte list abi_result" where
  "encode_semantic_tokens_result v = encode_payload KIND_SEMANTIC_TOKENS (write_semantic_tokens_result v)"

definition decode_semantic_tokens_result :: "byte list \<Rightarrow> semantic_tokens_result abi_result" where
  "decode_semantic_tokens_result buf = decode_payload KIND_SEMANTIC_TOKENS (read_semantic_tokens_result) buf"

record selection_range_params =
  srp_uri :: str
  srp_positions :: "lsp_pos list"

definition write_selection_range_params :: "selection_range_params \<Rightarrow> pc_writer \<Rightarrow> pc_writer" where
  "write_selection_range_params v = run_writes [w_str (srp_uri v), w_list write_lsp_pos (srp_positions v)]"

definition read_selection_range_params :: "pc_reader \<Rightarrow> (selection_range_params \<times> pc_reader) abi_result" where
  "read_selection_range_params r0 =
     and_then (r_str r0) (\<lambda>(uri, r1).
     and_then (r_list read_lsp_pos r1) (\<lambda>(positions, r2).
       Ok (\<lparr>srp_uri = uri, srp_positions = positions\<rparr>, r2)))"

definition ok_selection_range_params :: "selection_range_params \<Rightarrow> bool" where
  "ok_selection_range_params v \<longleftrightarrow> utf8_valid (srp_uri v)"

interpretation selection_range_params: abi_codec write_selection_range_params read_selection_range_params ok_selection_range_params
  unfolding read_selection_range_params_def[abs_def] ok_selection_range_params_def[abs_def]
  by (rule abi_codecI[OF write_selection_range_params_def]; (intro safe_rules abi_safe abi_step abi_decodes_done selection_range_params.equality)?; simp add: abi_appends)

definition encode_selection_range_params :: "selection_range_params \<Rightarrow> byte list abi_result" where
  "encode_selection_range_params v = encode_payload KIND_SELECTION_RANGE_PARAMS (write_selection_range_params v)"

definition decode_selection_range_params :: "byte list \<Rightarrow> selection_range_params abi_result" where
  "decode_selection_range_params buf = decode_payload KIND_SELECTION_RANGE_PARAMS (read_selection_range_params) buf"

record selection_ranges_result =
  srr_chains :: "(rng list) list"

definition write_selection_ranges_result :: "selection_ranges_result \<Rightarrow> pc_writer \<Rightarrow> pc_writer" where
  "write_selection_ranges_result v = run_writes [w_list (w_list write_rng) (srr_chains v)]"

definition read_selection_ranges_result :: "pc_reader \<Rightarrow> (selection_ranges_result \<times> pc_reader) abi_result" where
  "read_selection_ranges_result r0 =
     and_then (r_list (r_list read_rng) r0) (\<lambda>(chains, r1).
       Ok (\<lparr>srr_chains = chains\<rparr>, r1))"

interpretation selection_ranges_result: abi_codec write_selection_ranges_result read_selection_ranges_result "\<lambda>_. True"
  unfolding read_selection_ranges_result_def[abs_def]
  by (rule abi_codecI[OF write_selection_ranges_result_def]; (intro safe_rules abi_safe abi_step abi_decodes_done selection_ranges_result.equality)?; simp add: abi_appends)

definition encode_selection_ranges_result :: "selection_ranges_result \<Rightarrow> byte list abi_result" where
  "encode_selection_ranges_result v = encode_payload KIND_SELECTION_RANGES (write_selection_ranges_result v)"

definition decode_selection_ranges_result :: "byte list \<Rightarrow> selection_ranges_result abi_result" where
  "decode_selection_ranges_result buf = decode_payload KIND_SELECTION_RANGES (read_selection_ranges_result) buf"

record folding_range =
  fr_range :: rng
  fr_kind :: i32

definition write_folding_range :: "folding_range \<Rightarrow> pc_writer \<Rightarrow> pc_writer" where
  "write_folding_range v = run_writes [write_rng (fr_range v), w_i32 (fr_kind v)]"

definition read_folding_range :: "pc_reader \<Rightarrow> (folding_range \<times> pc_reader) abi_result" where
  "read_folding_range r0 =
     and_then (read_rng r0) (\<lambda>(range_v, r1).
     and_then (r_i32 r1) (\<lambda>(kind_v, r2).
       Ok (\<lparr>fr_range = range_v, fr_kind = kind_v\<rparr>, r2)))"

interpretation folding_range: abi_codec write_folding_range read_folding_range "\<lambda>_. True"
  unfolding read_folding_range_def[abs_def]
  by (rule abi_codecI[OF write_folding_range_def]; (intro safe_rules abi_safe abi_step abi_decodes_done folding_range.equality)?; simp add: abi_appends)

record folding_ranges_result =
  frr_ranges :: "folding_range list"

definition write_folding_ranges_result :: "folding_ranges_result \<Rightarrow> pc_writer \<Rightarrow> pc_writer" where
  "write_folding_ranges_result v = run_writes [w_list write_folding_range (frr_ranges v)]"

definition read_folding_ranges_result :: "pc_reader \<Rightarrow> (folding_ranges_result \<times> pc_reader) abi_result" where
  "read_folding_ranges_result r0 =
     and_then (r_list read_folding_range r0) (\<lambda>(ranges, r1).
       Ok (\<lparr>frr_ranges = ranges\<rparr>, r1))"

interpretation folding_ranges_result: abi_codec write_folding_ranges_result read_folding_ranges_result "\<lambda>_. True"
  unfolding read_folding_ranges_result_def[abs_def]
  by (rule abi_codecI[OF write_folding_ranges_result_def]; (intro safe_rules abi_safe abi_step abi_decodes_done folding_ranges_result.equality)?; simp add: abi_appends)

definition encode_folding_ranges_result :: "folding_ranges_result \<Rightarrow> byte list abi_result" where
  "encode_folding_ranges_result v = encode_payload KIND_FOLDING_RANGES (write_folding_ranges_result v)"

definition decode_folding_ranges_result :: "byte list \<Rightarrow> folding_ranges_result abi_result" where
  "decode_folding_ranges_result buf = decode_payload KIND_FOLDING_RANGES (read_folding_ranges_result) buf"

section \<open>Code actions, imports, diagnostics\<close>

record code_action_params =
  cap_uri :: str
  cap_action :: i32
  cap_position :: lsp_pos
  cap_extraction_end :: "lsp_pos option"
  cap_arg_indices :: "i32 list option"

definition write_code_action_params :: "code_action_params \<Rightarrow> pc_writer \<Rightarrow> pc_writer" where
  "write_code_action_params v = run_writes [w_str (cap_uri v), w_i32 (cap_action v), write_lsp_pos (cap_position v), write_opt_pos (cap_extraction_end v),
     w_option (w_list w_i32) (cap_arg_indices v)]"

definition read_code_action_params :: "pc_reader \<Rightarrow> (code_action_params \<times> pc_reader) abi_result" where
  "read_code_action_params r0 =
     and_then (r_str r0) (\<lambda>(uri, r1).
     and_then (r_i32 r1) (\<lambda>(action_v, r2).
     and_then (read_lsp_pos r2) (\<lambda>(position_v, r3).
     and_then (read_opt_pos r3) (\<lambda>(extraction_end, r4).
     and_then (r_option (r_list r_i32) r4) (\<lambda>(arg_indices, r5).
       Ok (\<lparr>cap_uri = uri, cap_action = action_v, cap_position = position_v, cap_extraction_end = extraction_end,
         cap_arg_indices = arg_indices\<rparr>, r5))))))"

definition ok_code_action_params :: "code_action_params \<Rightarrow> bool" where
  "ok_code_action_params v \<longleftrightarrow> utf8_valid (cap_uri v)"

interpretation code_action_params: abi_codec write_code_action_params read_code_action_params ok_code_action_params
  unfolding read_code_action_params_def[abs_def] ok_code_action_params_def[abs_def]
  by (rule abi_codecI[OF write_code_action_params_def]; (intro safe_rules abi_safe abi_step abi_decodes_done code_action_params.equality)?; simp add: abi_appends)

definition encode_code_action_params :: "code_action_params \<Rightarrow> byte list abi_result" where
  "encode_code_action_params v = encode_payload KIND_CODE_ACTION_PARAMS (write_code_action_params v)"

definition decode_code_action_params :: "byte list \<Rightarrow> code_action_params abi_result" where
  "decode_code_action_params buf = decode_payload KIND_CODE_ACTION_PARAMS (read_code_action_params) buf"

record code_action_result =
  car_edits :: "text_edit list"
  car_refusal :: "str option"

definition write_code_action_result :: "code_action_result \<Rightarrow> pc_writer \<Rightarrow> pc_writer" where
  "write_code_action_result v = run_writes [w_list write_text_edit (car_edits v), w_opt_str (car_refusal v)]"

definition read_code_action_result :: "pc_reader \<Rightarrow> (code_action_result \<times> pc_reader) abi_result" where
  "read_code_action_result r0 =
     and_then (r_list read_text_edit r0) (\<lambda>(edits, r1).
     and_then (r_opt_str r1) (\<lambda>(refusal, r2).
       Ok (\<lparr>car_edits = edits, car_refusal = refusal\<rparr>, r2)))"

definition ok_code_action_result :: "code_action_result \<Rightarrow> bool" where
  "ok_code_action_result v \<longleftrightarrow> list_all ok_text_edit (car_edits v) \<and> pred_option utf8_valid (car_refusal v)"

interpretation code_action_result: abi_codec write_code_action_result read_code_action_result ok_code_action_result
  unfolding read_code_action_result_def[abs_def] ok_code_action_result_def[abs_def]
  by (rule abi_codecI[OF write_code_action_result_def]; (intro safe_rules abi_safe abi_step abi_decodes_done code_action_result.equality)?; simp add: abi_appends)

definition encode_code_action_result :: "code_action_result \<Rightarrow> byte list abi_result" where
  "encode_code_action_result v = encode_payload KIND_CODE_ACTION_EDITS (write_code_action_result v)"

definition decode_code_action_result :: "byte list \<Rightarrow> code_action_result abi_result" where
  "decode_code_action_result buf = decode_payload KIND_CODE_ACTION_EDITS (read_code_action_result) buf"

record auto_import_params =
  aip_uri :: str
  aip_position :: lsp_pos
  aip_name :: str
  aip_is_extension :: bool

definition write_auto_import_params :: "auto_import_params \<Rightarrow> pc_writer \<Rightarrow> pc_writer" where
  "write_auto_import_params v = run_writes [w_str (aip_uri v), write_lsp_pos (aip_position v), w_str (aip_name v), w_bool32 (aip_is_extension v)]"

definition read_auto_import_params :: "pc_reader \<Rightarrow> (auto_import_params \<times> pc_reader) abi_result" where
  "read_auto_import_params r0 =
     and_then (r_str r0) (\<lambda>(uri, r1).
     and_then (read_lsp_pos r1) (\<lambda>(position_v, r2).
     and_then (r_str r2) (\<lambda>(name_v, r3).
     and_then (r_bool32 r3) (\<lambda>(is_extension, r4).
       Ok (\<lparr>aip_uri = uri, aip_position = position_v, aip_name = name_v, aip_is_extension = is_extension\<rparr>, r4)))))"

definition ok_auto_import_params :: "auto_import_params \<Rightarrow> bool" where
  "ok_auto_import_params v \<longleftrightarrow> utf8_valid (aip_uri v) \<and> utf8_valid (aip_name v)"

interpretation auto_import_params: abi_codec write_auto_import_params read_auto_import_params ok_auto_import_params
  unfolding read_auto_import_params_def[abs_def] ok_auto_import_params_def[abs_def]
  by (rule abi_codecI[OF write_auto_import_params_def]; (intro safe_rules abi_safe abi_step abi_decodes_done auto_import_params.equality)?; simp add: abi_appends)

definition encode_auto_import_params :: "auto_import_params \<Rightarrow> byte list abi_result" where
  "encode_auto_import_params v = encode_payload KIND_AUTO_IMPORT_PARAMS (write_auto_import_params v)"

definition decode_auto_import_params :: "byte list \<Rightarrow> auto_import_params abi_result" where
  "decode_auto_import_params buf = decode_payload KIND_AUTO_IMPORT_PARAMS (read_auto_import_params) buf"

record auto_import =
  ai_package_name :: str
  ai_edits :: "text_edit list"
  ai_symbol :: "str option"

definition write_auto_import :: "auto_import \<Rightarrow> pc_writer \<Rightarrow> pc_writer" where
  "write_auto_import v = run_writes [w_str (ai_package_name v), w_list write_text_edit (ai_edits v), w_opt_str (ai_symbol v)]"

definition read_auto_import :: "pc_reader \<Rightarrow> (auto_import \<times> pc_reader) abi_result" where
  "read_auto_import r0 =
     and_then (r_str r0) (\<lambda>(package_name, r1).
     and_then (r_list read_text_edit r1) (\<lambda>(edits, r2).
     and_then (r_opt_str r2) (\<lambda>(symbol_v, r3).
       Ok (\<lparr>ai_package_name = package_name, ai_edits = edits, ai_symbol = symbol_v\<rparr>, r3))))"

definition ok_auto_import :: "auto_import \<Rightarrow> bool" where
  "ok_auto_import v \<longleftrightarrow> utf8_valid (ai_package_name v) \<and> list_all ok_text_edit (ai_edits v) \<and> pred_option utf8_valid (ai_symbol v)"

interpretation auto_import: abi_codec write_auto_import read_auto_import ok_auto_import
  unfolding read_auto_import_def[abs_def] ok_auto_import_def[abs_def]
  by (rule abi_codecI[OF write_auto_import_def]; (intro safe_rules abi_safe abi_step abi_decodes_done auto_import.equality)?; simp add: abi_appends)

record auto_imports_result =
  air_imports :: "auto_import list"

definition write_auto_imports_result :: "auto_imports_result \<Rightarrow> pc_writer \<Rightarrow> pc_writer" where
  "write_auto_imports_result v = run_writes [w_list write_auto_import (air_imports v)]"

definition read_auto_imports_result :: "pc_reader \<Rightarrow> (auto_imports_result \<times> pc_reader) abi_result" where
  "read_auto_imports_result r0 =
     and_then (r_list read_auto_import r0) (\<lambda>(imports, r1).
       Ok (\<lparr>air_imports = imports\<rparr>, r1))"

definition ok_auto_imports_result :: "auto_imports_result \<Rightarrow> bool" where
  "ok_auto_imports_result v \<longleftrightarrow> list_all ok_auto_import (air_imports v)"

interpretation auto_imports_result: abi_codec write_auto_imports_result read_auto_imports_result ok_auto_imports_result
  unfolding read_auto_imports_result_def[abs_def] ok_auto_imports_result_def[abs_def]
  by (rule abi_codecI[OF write_auto_imports_result_def]; (intro safe_rules abi_safe abi_step abi_decodes_done auto_imports_result.equality)?; simp add: abi_appends)

definition encode_auto_imports_result :: "auto_imports_result \<Rightarrow> byte list abi_result" where
  "encode_auto_imports_result v = encode_payload KIND_AUTO_IMPORTS (write_auto_imports_result v)"

definition decode_auto_imports_result :: "byte list \<Rightarrow> auto_imports_result abi_result" where
  "decode_auto_imports_result buf = decode_payload KIND_AUTO_IMPORTS (read_auto_imports_result) buf"

record pc_diagnostic =
  pd_range :: rng
  pd_severity :: i32
  pd_code :: str
  pd_message :: str

definition write_pc_diagnostic :: "pc_diagnostic \<Rightarrow> pc_writer \<Rightarrow> pc_writer" where
  "write_pc_diagnostic v = run_writes [write_rng (pd_range v), w_i32 (pd_severity v), w_str (pd_code v), w_str (pd_message v)]"

definition read_pc_diagnostic :: "pc_reader \<Rightarrow> (pc_diagnostic \<times> pc_reader) abi_result" where
  "read_pc_diagnostic r0 =
     and_then (read_rng r0) (\<lambda>(range_v, r1).
     and_then (r_i32 r1) (\<lambda>(severity, r2).
     and_then (r_str r2) (\<lambda>(code_v, r3).
     and_then (r_str r3) (\<lambda>(message_v, r4).
       Ok (\<lparr>pd_range = range_v, pd_severity = severity, pd_code = code_v, pd_message = message_v\<rparr>, r4)))))"

definition ok_pc_diagnostic :: "pc_diagnostic \<Rightarrow> bool" where
  "ok_pc_diagnostic v \<longleftrightarrow> utf8_valid (pd_code v) \<and> utf8_valid (pd_message v)"

interpretation pc_diagnostic: abi_codec write_pc_diagnostic read_pc_diagnostic ok_pc_diagnostic
  unfolding read_pc_diagnostic_def[abs_def] ok_pc_diagnostic_def[abs_def]
  by (rule abi_codecI[OF write_pc_diagnostic_def]; (intro safe_rules abi_safe abi_step abi_decodes_done pc_diagnostic.equality)?; simp add: abi_appends)

record pc_diagnostics_result =
  pdr_diagnostics :: "pc_diagnostic list"

definition write_pc_diagnostics_result :: "pc_diagnostics_result \<Rightarrow> pc_writer \<Rightarrow> pc_writer" where
  "write_pc_diagnostics_result v = run_writes [w_list write_pc_diagnostic (pdr_diagnostics v)]"

definition read_pc_diagnostics_result :: "pc_reader \<Rightarrow> (pc_diagnostics_result \<times> pc_reader) abi_result" where
  "read_pc_diagnostics_result r0 =
     and_then (r_list read_pc_diagnostic r0) (\<lambda>(diagnostics, r1).
       Ok (\<lparr>pdr_diagnostics = diagnostics\<rparr>, r1))"

definition ok_pc_diagnostics_result :: "pc_diagnostics_result \<Rightarrow> bool" where
  "ok_pc_diagnostics_result v \<longleftrightarrow> list_all ok_pc_diagnostic (pdr_diagnostics v)"

interpretation pc_diagnostics_result: abi_codec write_pc_diagnostics_result read_pc_diagnostics_result ok_pc_diagnostics_result
  unfolding read_pc_diagnostics_result_def[abs_def] ok_pc_diagnostics_result_def[abs_def]
  by (rule abi_codecI[OF write_pc_diagnostics_result_def]; (intro safe_rules abi_safe abi_step abi_decodes_done pc_diagnostics_result.equality)?; simp add: abi_appends)

definition encode_pc_diagnostics_result :: "pc_diagnostics_result \<Rightarrow> byte list abi_result" where
  "encode_pc_diagnostics_result v = encode_payload KIND_PC_DIAGNOSTICS (write_pc_diagnostics_result v)"

definition decode_pc_diagnostics_result :: "byte list \<Rightarrow> pc_diagnostics_result abi_result" where
  "decode_pc_diagnostics_result buf = decode_payload KIND_PC_DIAGNOSTICS (read_pc_diagnostics_result) buf"

record toplevels_result =
  tl_symbols :: "str list"

definition write_toplevels_result :: "toplevels_result \<Rightarrow> pc_writer \<Rightarrow> pc_writer" where
  "write_toplevels_result v = run_writes [w_list w_str (tl_symbols v)]"

definition read_toplevels_result :: "pc_reader \<Rightarrow> (toplevels_result \<times> pc_reader) abi_result" where
  "read_toplevels_result r0 =
     and_then (r_list r_str r0) (\<lambda>(symbols_v, r1).
       Ok (\<lparr>tl_symbols = symbols_v\<rparr>, r1))"

definition ok_toplevels_result :: "toplevels_result \<Rightarrow> bool" where
  "ok_toplevels_result v \<longleftrightarrow> list_all utf8_valid (tl_symbols v)"

interpretation toplevels_result: abi_codec write_toplevels_result read_toplevels_result ok_toplevels_result
  unfolding read_toplevels_result_def[abs_def] ok_toplevels_result_def[abs_def]
  by (rule abi_codecI[OF write_toplevels_result_def]; (intro safe_rules abi_safe abi_step abi_decodes_done toplevels_result.equality)?; simp add: abi_appends)

definition encode_toplevels_result :: "toplevels_result \<Rightarrow> byte list abi_result" where
  "encode_toplevels_result v = encode_payload KIND_TOPLEVELS (write_toplevels_result v)"

definition decode_toplevels_result :: "byte list \<Rightarrow> toplevels_result abi_result" where
  "decode_toplevels_result buf = decode_payload KIND_TOPLEVELS (read_toplevels_result) buf"

section \<open>All payloads\<close>

definition lossless :: "('v \<Rightarrow> bool) \<Rightarrow> ('v \<Rightarrow> byte list abi_result) \<Rightarrow> (byte list \<Rightarrow> 'v abi_result) \<Rightarrow> bool" where
  "lossless ok enc dec \<longleftrightarrow> (\<forall>v buf. ok v \<longrightarrow> enc v = Ok buf \<longrightarrow> dec buf = Ok v)"

definition never_panics :: "(byte list \<Rightarrow> 'v abi_result) \<Rightarrow> bool" where
  "never_panics dec \<longleftrightarrow> (\<forall>buf. dec buf \<noteq> Panic)"

context abi_codec
begin

lemma lossless_payload:
  "(\<And>v. enc v = encode_payload kind (wr v)) \<Longrightarrow> (\<And>buf. dec buf = decode_payload kind rd buf) \<Longrightarrow> lossless ok enc dec"
  unfolding lossless_def by (auto intro: round_trip)

lemma safe_payload: "(\<And>buf. dec buf = decode_payload kind rd buf) \<Longrightarrow> never_panics dec"
  by (simp add: never_panics_def decode_safe)

end

text \<open>
  C29: Every payload that crosses the boundary survives it: whatever value with UTF-8 strings is encoded,
  decoding the buffer returns that value, absent fields, empty strings and empty lists kept apart.
\<close>
theorem payloads_lossless:
  "lossless ok_completion_item encode_completion_item decode_completion_item \<and>
   lossless ok_completion_list encode_completion_list decode_completion_list \<and>
   lossless (pred_option ok_hover) encode_hover_result decode_hover_result \<and>
   lossless ok_target_config encode_target_config decode_target_config \<and>
   lossless ok_did_open_params encode_did_open_params decode_did_open_params \<and>
   lossless ok_did_change_params encode_did_change_params decode_did_change_params \<and>
   lossless ok_position_params encode_position_params decode_position_params \<and>
   lossless ok_resolve_params encode_resolve_params decode_resolve_params \<and>
   lossless ok_signature_help encode_signature_help decode_signature_help \<and>
   lossless ok_definition_result encode_definition_result decode_definition_result \<and>
   lossless ok_locations_result encode_locations_result decode_locations_result \<and>
   lossless ok_method_hits_result encode_method_hits_result decode_method_hits_result \<and>
   lossless (\<lambda>_. True) encode_prepare_rename_result decode_prepare_rename_result \<and>
   lossless ok_plugin_status encode_plugin_status decode_plugin_status \<and>
   lossless ok_inlay_hint_params encode_inlay_hint_params decode_inlay_hint_params \<and>
   lossless ok_inlay_hints_result encode_inlay_hints_result decode_inlay_hints_result \<and>
   lossless ok_uri_params encode_uri_params decode_uri_params \<and>
   lossless (\<lambda>_. True) encode_semantic_tokens_result decode_semantic_tokens_result \<and>
   lossless ok_selection_range_params encode_selection_range_params decode_selection_range_params \<and>
   lossless (\<lambda>_. True) encode_selection_ranges_result decode_selection_ranges_result \<and>
   lossless (\<lambda>_. True) encode_folding_ranges_result decode_folding_ranges_result \<and>
   lossless ok_code_action_params encode_code_action_params decode_code_action_params \<and>
   lossless ok_code_action_result encode_code_action_result decode_code_action_result \<and>
   lossless ok_auto_import_params encode_auto_import_params decode_auto_import_params \<and>
   lossless ok_auto_imports_result encode_auto_imports_result decode_auto_imports_result \<and>
   lossless ok_pc_diagnostics_result encode_pc_diagnostics_result decode_pc_diagnostics_result \<and>
   lossless ok_toplevels_result encode_toplevels_result decode_toplevels_result"
  by (intro conjI
    completion_item.lossless_payload[OF encode_completion_item_def decode_completion_item_def]
    completion_list.lossless_payload[OF encode_completion_list_def decode_completion_list_def]
    hover_result_codec.lossless_payload[OF encode_hover_result_def decode_hover_result_def]
    target_config.lossless_payload[OF encode_target_config_def decode_target_config_def]
    did_open_params.lossless_payload[OF encode_did_open_params_def decode_did_open_params_def]
    did_change_params.lossless_payload[OF encode_did_change_params_def decode_did_change_params_def]
    position_params.lossless_payload[OF encode_position_params_def decode_position_params_def]
    resolve_params.lossless_payload[OF encode_resolve_params_def decode_resolve_params_def]
    signature_help.lossless_payload[OF encode_signature_help_def decode_signature_help_def]
    definition_result.lossless_payload[OF encode_definition_result_def decode_definition_result_def]
    locations_result.lossless_payload[OF encode_locations_result_def decode_locations_result_def]
    method_hits_result.lossless_payload[OF encode_method_hits_result_def decode_method_hits_result_def]
    opt_rng.lossless_payload[OF encode_prepare_rename_result_def decode_prepare_rename_result_def]
    plugin_status.lossless_payload[OF encode_plugin_status_def decode_plugin_status_def]
    inlay_hint_params.lossless_payload[OF encode_inlay_hint_params_def decode_inlay_hint_params_def]
    inlay_hints_result.lossless_payload[OF encode_inlay_hints_result_def decode_inlay_hints_result_def]
    uri_params.lossless_payload[OF encode_uri_params_def decode_uri_params_def]
    semantic_tokens_result.lossless_payload[OF encode_semantic_tokens_result_def decode_semantic_tokens_result_def]
    selection_range_params.lossless_payload[OF encode_selection_range_params_def decode_selection_range_params_def]
    selection_ranges_result.lossless_payload[OF encode_selection_ranges_result_def decode_selection_ranges_result_def]
    folding_ranges_result.lossless_payload[OF encode_folding_ranges_result_def decode_folding_ranges_result_def]
    code_action_params.lossless_payload[OF encode_code_action_params_def decode_code_action_params_def]
    code_action_result.lossless_payload[OF encode_code_action_result_def decode_code_action_result_def]
    auto_import_params.lossless_payload[OF encode_auto_import_params_def decode_auto_import_params_def]
    auto_imports_result.lossless_payload[OF encode_auto_imports_result_def decode_auto_imports_result_def]
    pc_diagnostics_result.lossless_payload[OF encode_pc_diagnostics_result_def decode_pc_diagnostics_result_def]
    toplevels_result.lossless_payload[OF encode_toplevels_result_def decode_toplevels_result_def])

text \<open>
  C30: No buffer, truncated, forged or random, makes a decoder of the boundary panic: it returns a value or
  a typed error.
\<close>
theorem decoders_never_panic:
  "never_panics decode_completion_item \<and>
   never_panics decode_completion_list \<and>
   never_panics decode_hover_result \<and>
   never_panics decode_target_config \<and>
   never_panics decode_did_open_params \<and>
   never_panics decode_did_change_params \<and>
   never_panics decode_position_params \<and>
   never_panics decode_resolve_params \<and>
   never_panics decode_signature_help \<and>
   never_panics decode_definition_result \<and>
   never_panics decode_locations_result \<and>
   never_panics decode_method_hits_result \<and>
   never_panics decode_prepare_rename_result \<and>
   never_panics decode_plugin_status \<and>
   never_panics decode_inlay_hint_params \<and>
   never_panics decode_inlay_hints_result \<and>
   never_panics decode_uri_params \<and>
   never_panics decode_semantic_tokens_result \<and>
   never_panics decode_selection_range_params \<and>
   never_panics decode_selection_ranges_result \<and>
   never_panics decode_folding_ranges_result \<and>
   never_panics decode_code_action_params \<and>
   never_panics decode_code_action_result \<and>
   never_panics decode_auto_import_params \<and>
   never_panics decode_auto_imports_result \<and>
   never_panics decode_pc_diagnostics_result \<and>
   never_panics decode_toplevels_result"
  by (intro conjI
    completion_item.safe_payload[OF decode_completion_item_def]
    completion_list.safe_payload[OF decode_completion_list_def]
    hover_result_codec.safe_payload[OF decode_hover_result_def]
    target_config.safe_payload[OF decode_target_config_def]
    did_open_params.safe_payload[OF decode_did_open_params_def]
    did_change_params.safe_payload[OF decode_did_change_params_def]
    position_params.safe_payload[OF decode_position_params_def]
    resolve_params.safe_payload[OF decode_resolve_params_def]
    signature_help.safe_payload[OF decode_signature_help_def]
    definition_result.safe_payload[OF decode_definition_result_def]
    locations_result.safe_payload[OF decode_locations_result_def]
    method_hits_result.safe_payload[OF decode_method_hits_result_def]
    opt_rng.safe_payload[OF decode_prepare_rename_result_def]
    plugin_status.safe_payload[OF decode_plugin_status_def]
    inlay_hint_params.safe_payload[OF decode_inlay_hint_params_def]
    inlay_hints_result.safe_payload[OF decode_inlay_hints_result_def]
    uri_params.safe_payload[OF decode_uri_params_def]
    semantic_tokens_result.safe_payload[OF decode_semantic_tokens_result_def]
    selection_range_params.safe_payload[OF decode_selection_range_params_def]
    selection_ranges_result.safe_payload[OF decode_selection_ranges_result_def]
    folding_ranges_result.safe_payload[OF decode_folding_ranges_result_def]
    code_action_params.safe_payload[OF decode_code_action_params_def]
    code_action_result.safe_payload[OF decode_code_action_result_def]
    auto_import_params.safe_payload[OF decode_auto_import_params_def]
    auto_imports_result.safe_payload[OF decode_auto_imports_result_def]
    pc_diagnostics_result.safe_payload[OF decode_pc_diagnostics_result_def]
    toplevels_result.safe_payload[OF decode_toplevels_result_def])

lemmas kind_defs =
  KIND_TARGET_CONFIG_def KIND_DID_OPEN_def KIND_DID_CHANGE_def KIND_POSITION_def KIND_RESOLVE_PARAMS_def
  KIND_COMPLETION_LIST_def KIND_COMPLETION_ITEM_def KIND_HOVER_def KIND_SIGNATURE_HELP_def KIND_DEFINITION_def
  KIND_PREPARE_RENAME_def KIND_PLUGIN_STATUS_def KIND_LOCATIONS_def KIND_METHOD_HITS_def KIND_INLAY_HINT_PARAMS_def
  KIND_INLAY_HINTS_def KIND_URI_PARAMS_def KIND_SEMANTIC_TOKENS_def KIND_SELECTION_RANGE_PARAMS_def
  KIND_SELECTION_RANGES_def KIND_CODE_ACTION_PARAMS_def KIND_CODE_ACTION_EDITS_def KIND_AUTO_IMPORT_PARAMS_def
  KIND_AUTO_IMPORTS_def KIND_PC_DIAGNOSTICS_def KIND_FOLDING_RANGES_def KIND_TOPLEVELS_def

lemmas encode_defs =
  encode_completion_item_def encode_completion_list_def encode_hover_result_def encode_target_config_def
  encode_did_open_params_def encode_did_change_params_def encode_position_params_def encode_resolve_params_def
  encode_signature_help_def encode_definition_result_def encode_locations_result_def
  encode_method_hits_result_def encode_prepare_rename_result_def encode_plugin_status_def
  encode_inlay_hint_params_def encode_inlay_hints_result_def encode_uri_params_def
  encode_semantic_tokens_result_def encode_selection_range_params_def encode_selection_ranges_result_def
  encode_folding_ranges_result_def encode_code_action_params_def encode_code_action_result_def
  encode_auto_import_params_def encode_auto_imports_result_def encode_pc_diagnostics_result_def
  encode_toplevels_result_def

lemmas decode_defs =
  decode_completion_item_def decode_completion_list_def decode_hover_result_def decode_target_config_def
  decode_did_open_params_def decode_did_change_params_def decode_position_params_def decode_resolve_params_def
  decode_signature_help_def decode_definition_result_def decode_locations_result_def
  decode_method_hits_result_def decode_prepare_rename_result_def decode_plugin_status_def
  decode_inlay_hint_params_def decode_inlay_hints_result_def decode_uri_params_def
  decode_semantic_tokens_result_def decode_selection_range_params_def decode_selection_ranges_result_def
  decode_folding_ranges_result_def decode_code_action_params_def decode_code_action_result_def
  decode_auto_import_params_def decode_auto_imports_result_def decode_pc_diagnostics_result_def
  decode_toplevels_result_def

text \<open>The buffers each encoder can emit, the kind error of each decoder, and the kinds, in one order of the payloads.\<close>
definition emits :: "('v \<Rightarrow> byte list abi_result) \<Rightarrow> byte list \<Rightarrow> bool" where
  "emits enc buf \<longleftrightarrow> (\<exists>v. enc v = Ok buf)"

definition refuses_kind :: "(byte list \<Rightarrow> 'v abi_result) \<Rightarrow> byte list \<Rightarrow> bool" where
  "refuses_kind dec buf \<longleftrightarrow>
     (\<exists>(k :: u32) k'. k \<noteq> k' \<and> dec buf = Err (AbiError (lit ''payload kind '' @ decimal (unat k) @ lit '' != expected '' @ decimal (unat k'))))"

definition payload_emitters :: "(byte list \<Rightarrow> bool) list" where
  "payload_emitters =
    [emits encode_completion_item, emits encode_completion_list, emits encode_hover_result,
     emits encode_target_config, emits encode_did_open_params, emits encode_did_change_params,
     emits encode_position_params, emits encode_resolve_params, emits encode_signature_help,
     emits encode_definition_result, emits encode_locations_result, emits encode_method_hits_result,
     emits encode_prepare_rename_result, emits encode_plugin_status, emits encode_inlay_hint_params,
     emits encode_inlay_hints_result, emits encode_uri_params, emits encode_semantic_tokens_result,
     emits encode_selection_range_params, emits encode_selection_ranges_result, emits encode_folding_ranges_result,
     emits encode_code_action_params, emits encode_code_action_result, emits encode_auto_import_params,
     emits encode_auto_imports_result, emits encode_pc_diagnostics_result, emits encode_toplevels_result]"

definition payload_refusers :: "(byte list \<Rightarrow> bool) list" where
  "payload_refusers =
    [refuses_kind decode_completion_item, refuses_kind decode_completion_list, refuses_kind decode_hover_result,
     refuses_kind decode_target_config, refuses_kind decode_did_open_params, refuses_kind decode_did_change_params,
     refuses_kind decode_position_params, refuses_kind decode_resolve_params, refuses_kind decode_signature_help,
     refuses_kind decode_definition_result, refuses_kind decode_locations_result,
     refuses_kind decode_method_hits_result, refuses_kind decode_prepare_rename_result,
     refuses_kind decode_plugin_status, refuses_kind decode_inlay_hint_params,
     refuses_kind decode_inlay_hints_result, refuses_kind decode_uri_params,
     refuses_kind decode_semantic_tokens_result, refuses_kind decode_selection_range_params,
     refuses_kind decode_selection_ranges_result, refuses_kind decode_folding_ranges_result,
     refuses_kind decode_code_action_params, refuses_kind decode_code_action_result,
     refuses_kind decode_auto_import_params, refuses_kind decode_auto_imports_result,
     refuses_kind decode_pc_diagnostics_result, refuses_kind decode_toplevels_result]"

definition payload_kinds :: "u32 list" where
  "payload_kinds =
    [KIND_COMPLETION_ITEM, KIND_COMPLETION_LIST, KIND_HOVER, KIND_TARGET_CONFIG, KIND_DID_OPEN, KIND_DID_CHANGE,
     KIND_POSITION, KIND_RESOLVE_PARAMS, KIND_SIGNATURE_HELP, KIND_DEFINITION, KIND_LOCATIONS, KIND_METHOD_HITS,
     KIND_PREPARE_RENAME, KIND_PLUGIN_STATUS, KIND_INLAY_HINT_PARAMS, KIND_INLAY_HINTS, KIND_URI_PARAMS,
     KIND_SEMANTIC_TOKENS, KIND_SELECTION_RANGE_PARAMS, KIND_SELECTION_RANGES, KIND_FOLDING_RANGES,
     KIND_CODE_ACTION_PARAMS, KIND_CODE_ACTION_EDITS, KIND_AUTO_IMPORT_PARAMS, KIND_AUTO_IMPORTS,
     KIND_PC_DIAGNOSTICS, KIND_TOPLEVELS]"

lemma payload_kinds_distinct: "distinct payload_kinds" "length payload_kinds = 27"
  by (simp_all add: payload_kinds_def kind_defs)

lemma emitters_carry_kinds: "list_all2 (\<lambda>em k. \<forall>buf. em buf \<longrightarrow> (\<exists>g. encode_payload k g = Ok buf)) payload_emitters payload_kinds"
  unfolding payload_emitters_def payload_kinds_def list_all2_Cons list.rel_inject emits_def encode_defs
  by (intro conjI list.rel_intros) blast+

lemma wrong_kind_refused: "\<forall>buf k' g. encode_payload k' g = Ok buf \<and> k' \<noteq> k \<longrightarrow> refuses_kind (decode_payload k rd) buf"
  using reader_new_finished by (fastforce simp: refuses_kind_def encode_payload_def decode_payload_def)

lemma refusers_check_kinds:
  "list_all2 (\<lambda>re k. \<forall>buf k' g. encode_payload k' g = Ok buf \<and> k' \<noteq> k \<longrightarrow> re buf) payload_refusers payload_kinds"
  unfolding payload_refusers_def payload_kinds_def decode_defs[abs_def] by (intro list.rel_intros wrong_kind_refused)

text \<open>
  C31: The kind in the envelope keeps the payloads apart. A buffer that any of the twenty-seven encoders emits is
  refused by the decoder of each of the other twenty-six payloads with the error that names the two kinds.
\<close>
theorem payload_kinds_are_checked:
  "length payload_emitters = 27 \<and> length payload_refusers = 27 \<and>
   (\<forall>i j buf. i < 27 \<longrightarrow> j < 27 \<longrightarrow> i \<noteq> j \<longrightarrow> (payload_emitters ! i) buf \<longrightarrow> (payload_refusers ! j) buf)"
proof -
  have "(payload_refusers ! j) buf" if ij: "i < 27" "j < 27" "i \<noteq> j" and em: "(payload_emitters ! i) buf" for i j buf
  proof -
    obtain g where "encode_payload (payload_kinds ! i) g = Ok buf"
      using list_all2_nthD2[OF emitters_carry_kinds] ij(1) em payload_kinds_distinct(2) by metis
    moreover have "payload_kinds ! i \<noteq> payload_kinds ! j"
      using ij payload_kinds_distinct by (simp add: nth_eq_iff_index_eq)
    ultimately show ?thesis
      using list_all2_nthD2[OF refusers_check_kinds] ij(2) payload_kinds_distinct(2) by metis
  qed
  then show ?thesis
    using list_all2_lengthD[OF emitters_carry_kinds] list_all2_lengthD[OF refusers_check_kinds] payload_kinds_distinct(2) by simp
qed

definition sample_did_change :: did_change_params where
  "sample_did_change = \<lparr>dcp_uri = lit ''a'', dcp_text = []\<rparr>"

lemma sample_did_change_encodes: "\<exists>buf. encode_did_change_params sample_did_change = Ok buf"
  by (simp add: encode_did_change_params_def encode_payload_def w_finish_Ok write_did_change_params_def sample_did_change_def w_str_def
      w_bytes_def intern_def w_narrow_def abi_len_def w_u32_def writer_new_def writer_fits_def lit_def)

theorem payloads_lossless_witness:
  "\<exists>buf. encode_did_change_params sample_did_change = Ok buf \<and> decode_did_change_params buf = Ok sample_did_change"
  using payloads_lossless sample_did_change_encodes
  by (auto simp: lossless_def ok_did_change_params_def sample_did_change_def lit_def utf8_valid_ascii)

theorem payload_kinds_are_checked_witness:
  "\<exists>buf. encode_did_change_params sample_did_change = Ok buf \<and> refuses_kind decode_uri_params buf"
proof -
  from sample_did_change_encodes obtain buf where buf: "encode_did_change_params sample_did_change = Ok buf" ..
  have "payload_emitters ! 5 = emits encode_did_change_params" "payload_refusers ! 16 = refuses_kind decode_uri_params"
    by (simp_all add: payload_emitters_def payload_refusers_def)
  then have "refuses_kind decode_uri_params buf"
    using payload_kinds_are_checked[THEN conjunct2, THEN conjunct2, rule_format, of 5 16 buf] buf by (auto simp: emits_def)
  with buf show ?thesis by blast
qed

end
