(* ===== verification/Build_Scheduler.thy ===== *)
theory Build_Scheduler
  imports Index_Model "HOL-Library.List_Lexorder"
begin

text \<open>
  The debounced background build scheduler, \<open>crates/ls-server/src/build_scheduler.rs\<close>: producers call
  \<open>schedule\<close>, one worker thread waits, debounces, compiles, reingests and counts. The two sides share one
  record behind a mutex, so a critical section is one step; the worker's program point says where it
  waits or which unlocked call it is about to make, and every interleaving of producers, clock and worker
  is a trace of the step relation. There a wait on the condition variable is a turn that changes nothing. A second
  relation adds the condition variable itself: the worker sleeps in a wait until a notification, its timeout or a
  spurious wake-up, and every trace with sleeping is a trace of the first relation.

  The compiler is the \<open>CompileService\<close> the caller passes in: each turn takes its verdict as an argument.
  \<open>reingest_current\<close> reports nothing that the scheduler looks at, so the turn that calls it is an event.
\<close>

section \<open>State\<close>

text \<open>An \<open>Instant\<close>, counted in clock ticks from the start of the process.\<close>
type_synonym instant = nat

record shared =
  bs_scheduled :: bool
  bs_due_at :: "instant option"
  bs_shutting_down :: bool
  bs_pending_targets :: "str set"
  bs_pending_compile :: bool
  bs_pending_reindex :: bool
  bs_runs_completed :: u64
  bs_reingests_attempted :: u64

definition shared_new :: shared where
  "shared_new = \<lparr>bs_scheduled = False, bs_due_at = None, bs_shutting_down = False, bs_pending_targets = {},
     bs_pending_compile = False, bs_pending_reindex = False, bs_runs_completed = 0, bs_reingests_attempted = 0\<rparr>"

datatype compile_outcome = Compile_Ok | Compile_Failed

text \<open>Where the worker thread is: waiting for a run to be scheduled, in the debounce loop, holding the
  intents of a run it has begun, past the compile, or gone.\<close>
datatype worker =
    Waiting
  | Debouncing
  | Compiling "str list" bool bool
  | Ingesting bool
  | Counting bool
  | Exited

record world =
  w_shared :: shared
  w_worker :: worker
  w_clock :: instant

section \<open>Operations\<close>

text \<open>\<open>schedule\<close>: one critical section at time \<open>now\<close>.\<close>
definition schedule :: "nat \<Rightarrow> instant \<Rightarrow> str list \<Rightarrow> bool \<Rightarrow> shared \<Rightarrow> shared" where
  "schedule debounce now targets compile_first s =
     (if bs_shutting_down s then s
      else let s1 = (if compile_first
                     then s\<lparr>bs_pending_targets := bs_pending_targets s \<union> set targets, bs_pending_compile := True\<rparr>
                     else s\<lparr>bs_pending_reindex := True\<rparr>)
           in if \<not> bs_scheduled s1
              then s1\<lparr>bs_scheduled := True, bs_due_at := Some (now + debounce)\<rparr>
              else s1)"

definition schedule_reindex :: "nat \<Rightarrow> instant \<Rightarrow> shared \<Rightarrow> shared" where
  "schedule_reindex debounce now = schedule debounce now [] False"

text \<open>The locked half of \<open>drop\<close>; the other half joins the worker.\<close>
definition drop_scheduler :: "shared \<Rightarrow> shared" where
  "drop_scheduler s = s\<lparr>bs_shutting_down := True\<rparr>"

text \<open>What a turn of the worker shows: nothing, a run taken up, a compile call, a reingest, the end of a
  run, or the end of the thread.\<close>
datatype event =
    Scheduled "str list" bool
  | Ticked nat
  | Dropped
  | Slept
  | Began "str list" bool bool
  | Compiled "str list" compile_outcome
  | Skipped_Compile
  | Reingested
  | Skipped_Reingest
  | Counted
  | Ended

fun worker_event :: "event \<Rightarrow> bool" where
  "worker_event (Scheduled _ _) = False"
| "worker_event (Ticked _) = False"
| "worker_event Dropped = False"
| "worker_event _ = True"

text \<open>The debounce loop, once round: the wait ends only when the clock is past the due time
  (\<open>checked_duration_since\<close> is \<open>None\<close>); a missing due time reads as now. Past it, the run takes all intents
  and clears them in the same critical section.\<close>
definition debounce_turn :: "instant \<Rightarrow> shared \<Rightarrow> event \<times> shared \<times> worker" where
  "debounce_turn now s =
     (if bs_shutting_down s then (Ended, s, Exited)
      else let due = (case bs_due_at s of Some d \<Rightarrow> d | None \<Rightarrow> now)
           in if now \<le> due then (Slept, s, Debouncing)
              else let targets = sorted_list_of_set (bs_pending_targets s);
                       compile = bs_pending_compile s;
                       reindex = bs_pending_reindex s
                   in (Began targets compile reindex,
                       s\<lparr>bs_pending_targets := {}, bs_pending_compile := False, bs_pending_reindex := False,
                         bs_scheduled := False, bs_due_at := None\<rparr>,
                       Compiling targets compile reindex))"

text \<open>One turn of the worker: up to the next wait or unlocked call. Waiting for a run and entering the
  debounce loop is one critical section.\<close>
fun worker_turn :: "compile_outcome \<Rightarrow> instant \<Rightarrow> worker \<Rightarrow> shared \<Rightarrow> event \<times> shared \<times> worker" where
  "worker_turn verdict now Waiting s =
     (if bs_shutting_down s then (Ended, s, Exited)
      else if \<not> bs_scheduled s then (Slept, s, Waiting)
      else debounce_turn now s)"
| "worker_turn verdict now Debouncing s = debounce_turn now s"
| "worker_turn verdict now (Compiling targets compile reindex) s =
     (if compile \<and> targets \<noteq> []
      then (Compiled targets verdict, s, Ingesting (verdict = Compile_Ok \<or> reindex))
      else (Skipped_Compile, s, Ingesting True))"
| "worker_turn verdict now (Ingesting should_reingest) s =
     (if should_reingest then (Reingested, s, Counting True) else (Skipped_Reingest, s, Counting False))"
| "worker_turn verdict now (Counting should_reingest) s =
     (Counted,
      s\<lparr>bs_runs_completed := bs_runs_completed s + 1,
        bs_reingests_attempted := (if should_reingest then bs_reingests_attempted s + 1 else bs_reingests_attempted s)\<rparr>,
      Waiting)"
| "worker_turn verdict now Exited s = (Ended, s, Exited)"

definition world_new :: world where
  "world_new = \<lparr>w_shared = shared_new, w_worker = Waiting, w_clock = 0\<rparr>"

text \<open>One step of the whole: a producer, the clock, the owner dropping the scheduler, or the worker.\<close>
inductive step :: "nat \<Rightarrow> world \<Rightarrow> event \<Rightarrow> world \<Rightarrow> bool" for debounce where
  scheduled: "step debounce w (Scheduled ts cf) (w\<lparr>w_shared := schedule debounce (w_clock w) ts cf (w_shared w)\<rparr>)"
| ticked: "step debounce w (Ticked n) (w\<lparr>w_clock := w_clock w + n\<rparr>)"
| dropped: "step debounce w Dropped (w\<lparr>w_shared := drop_scheduler (w_shared w)\<rparr>)"
| worked: "\<lbrakk>w_worker w \<noteq> Exited; worker_turn verdict (w_clock w) (w_worker w) (w_shared w) = (e, s', k)\<rbrakk> \<Longrightarrow>
     step debounce w e (w\<lparr>w_shared := s', w_worker := k\<rparr>)"

inductive steps :: "nat \<Rightarrow> world \<Rightarrow> event list \<Rightarrow> world \<Rightarrow> bool" for debounce where
  refl: "steps debounce w [] w"
| snoc: "steps debounce w es w' \<Longrightarrow> step debounce w' e w'' \<Longrightarrow> steps debounce w (es @ [e]) w''"

inductive_cases stepE: "step debounce w e w'"
inductive_cases steps_NilE: "steps debounce w [] w'"
inductive_cases steps_snocE: "steps debounce w (es @ [e]) w'"

lemmas turn_defs = debounce_turn_def schedule_def drop_scheduler_def Let_def

section \<open>Traces\<close>

lemma steps_append: "steps debounce w (es @ fs) w'' \<longleftrightarrow> (\<exists>w'. steps debounce w es w' \<and> steps debounce w' fs w'')"
proof (induction fs arbitrary: w'' rule: rev_induct)
  case Nil
  show ?case by (auto elim: steps_NilE intro: steps.refl)
next
  case (snoc f fs)
  have "steps debounce w (es @ fs @ [f]) w'' \<longleftrightarrow> (\<exists>v. steps debounce w (es @ fs) v \<and> step debounce v f w'')"
    by (metis append.assoc steps.snoc steps_snocE)
  also have "\<dots> \<longleftrightarrow> (\<exists>w'. steps debounce w es w' \<and> (\<exists>v. steps debounce w' fs v \<and> step debounce v f w''))"
    using snoc by blast
  also have "\<dots> \<longleftrightarrow> (\<exists>w'. steps debounce w es w' \<and> steps debounce w' (fs @ [f]) w'')"
    by (metis steps.snoc steps_snocE)
  finally show ?case .
qed

lemma steps_single [simp]: "steps debounce w [e] w' \<longleftrightarrow> step debounce w e w'"
  by (metis append_Nil steps.refl steps.snoc steps_NilE steps_snocE)

lemma steps_Cons: "steps debounce w (e # es) w'' \<longleftrightarrow> (\<exists>w'. step debounce w e w' \<and> steps debounce w' es w'')"
  using steps_append[of debounce w "[e]" es w''] by simp

text \<open>Which events are the worker's, read off its turn.\<close>
lemma worker_turn_event:
  "worker_turn verdict now k s = (e, s', k') \<Longrightarrow> worker_event e"
  by (cases "(verdict, now, k, s)" rule: worker_turn.cases)
     (auto simp: turn_defs split: if_splits option.splits)

lemma step_clock: "step debounce w e w' \<Longrightarrow> w_clock w \<le> w_clock w'"
  by (auto elim: stepE)

lemma worker_turn_shutting_down:
  "worker_turn verdict now k s = (e, s', k') \<Longrightarrow> bs_shutting_down s' = bs_shutting_down s"
  by (cases "(verdict, now, k, s)" rule: worker_turn.cases)
     (auto simp: turn_defs split: if_splits option.splits)

lemma step_shutting_down:
  "step debounce w e w' \<Longrightarrow> bs_shutting_down (w_shared w') \<longleftrightarrow> bs_shutting_down (w_shared w) \<or> e = Dropped"
  by (elim stepE) (auto simp: turn_defs dest: worker_turn_shutting_down worker_turn_event split: if_splits)

section \<open>Obligations\<close>

text \<open>An obligation is owed until an event pays it; nothing else may cancel it. A ranked one is moreover
  paid by the worker's own turns: past the deadline each turn lowers the rank, and nobody else raises it.\<close>

locale obligation =
  fixes debounce :: nat and owed :: "world \<Rightarrow> bool" and paid :: "event \<Rightarrow> bool"
  assumes kept: "\<lbrakk>step debounce w e w'; owed w; \<not> paid e\<rbrakk> \<Longrightarrow> owed w'"
begin

lemma never_lost:
  "steps debounce w es w' \<Longrightarrow> owed w \<Longrightarrow> owed w' \<or> (\<exists>e \<in> set es. paid e)"
  by (induction rule: steps.induct) (auto intro: kept)

end

locale ranked_obligation = obligation +
  fixes deadline :: instant and rank :: "world \<Rightarrow> nat"
  assumes ranked: "\<lbrakk>step debounce w e w'; owed w; \<not> paid e; \<not> bs_shutting_down (w_shared w);
      deadline < w_clock w\<rbrakk> \<Longrightarrow> rank w' + (if worker_event e then 1 else 0) \<le> rank w"
begin

lemma unpaid_rank:
  "\<lbrakk>steps debounce w es w'; owed w; deadline < w_clock w; \<not> bs_shutting_down (w_shared w);
    Dropped \<notin> set es; \<forall>e \<in> set es. \<not> paid e\<rbrakk> \<Longrightarrow>
   owed w' \<and> deadline < w_clock w' \<and> \<not> bs_shutting_down (w_shared w') \<and>
   rank w' + length (filter worker_event es) \<le> rank w"
proof (induction rule: steps.induct)
  case (snoc w es w' e w'')
  then have IH: "owed w'" "deadline < w_clock w'" "\<not> bs_shutting_down (w_shared w')"
    "rank w' + length (filter worker_event es) \<le> rank w" and e: "e \<noteq> Dropped" "\<not> paid e" by auto
  have "\<not> bs_shutting_down (w_shared w'')" using step_shutting_down[OF snoc.hyps(2)] IH(3) e(1) by simp
  then show ?case
    using IH e kept[OF snoc.hyps(2)] ranked[OF snoc.hyps(2)] step_clock[OF snoc.hyps(2)]
    by (cases "worker_event e") auto
qed simp

lemma eventually_paid:
  "\<lbrakk>steps debounce w es w'; owed w; deadline < w_clock w; \<not> bs_shutting_down (w_shared w);
    Dropped \<notin> set es; rank w < length (filter worker_event es)\<rbrakk> \<Longrightarrow> \<exists>e \<in> set es. paid e"
  using unpaid_rank[of w es w'] by force

end

section \<open>Compile targets and heals as obligations\<close>

text \<open>A run is pending and due by \<open>deadline\<close>.\<close>
definition due_by :: "instant \<Rightarrow> shared \<Rightarrow> bool" where
  "due_by deadline s \<longleftrightarrow> bs_scheduled s \<and> (\<exists>d \<le> deadline. bs_due_at s = Some d)"

definition target_in_flight :: "str \<Rightarrow> world \<Rightarrow> bool" where
  "target_in_flight t w \<longleftrightarrow> (\<exists>ts r. w_worker w = Compiling ts True r \<and> t \<in> set ts)"

definition owed_target :: "instant \<Rightarrow> str \<Rightarrow> world \<Rightarrow> bool" where
  "owed_target deadline t w \<longleftrightarrow> target_in_flight t w \<or>
     (let s = w_shared w in t \<in> bs_pending_targets s \<and> finite (bs_pending_targets s) \<and> bs_pending_compile s \<and> due_by deadline s)"

fun compiles :: "str \<Rightarrow> event \<Rightarrow> bool" where
  "compiles t (Compiled ts v) = (t \<in> set ts)"
| "compiles t _ = False"

text \<open>The number of turns before the worker takes up the next run.\<close>
fun turns_left :: "worker \<Rightarrow> nat" where
  "turns_left (Compiling _ _ _) = 3"
| "turns_left (Ingesting _) = 2"
| "turns_left (Counting _) = 1"
| "turns_left _ = 0"

definition target_rank :: "str \<Rightarrow> world \<Rightarrow> nat" where
  "target_rank t w = (if target_in_flight t w then 0 else turns_left (w_worker w) + 1)"

interpretation target: ranked_obligation debounce "owed_target deadline t" "compiles t" deadline "target_rank t"
  for debounce deadline t
proof unfold_locales
  fix w e w' assume st: "step debounce w e w'" and ow: "owed_target deadline t w" and np: "\<not> compiles t e"
  from st show "owed_target deadline t w'"
  proof (cases rule: step.cases)
    case (worked verdict s' k)
    then show ?thesis using ow np
      by (cases "w_worker w")
         (auto simp: owed_target_def target_in_flight_def due_by_def turn_defs split: if_splits option.splits)
  qed (use ow in \<open>auto simp: owed_target_def target_in_flight_def due_by_def turn_defs\<close>)
next
  fix w e w' assume st: "step debounce w e w'" and ow: "owed_target deadline t w" and np: "\<not> compiles t e"
    and up: "\<not> bs_shutting_down (w_shared w)" and dl: "deadline < w_clock w"
  from st show "target_rank t w' + (if worker_event e then 1 else 0) \<le> target_rank t w"
  proof (cases rule: step.cases)
    case (worked verdict s' k)
    then show ?thesis using ow np up dl
      by (cases "w_worker w")
         (auto simp: target_rank_def owed_target_def target_in_flight_def due_by_def turn_defs split: if_splits option.splits)
  qed (auto simp: target_rank_def target_in_flight_def)
qed

text \<open>A reingest that has not started yet serves a heal, whichever run it belongs to.\<close>
definition heal_in_flight :: "world \<Rightarrow> bool" where
  "heal_in_flight w \<longleftrightarrow> (\<exists>ts c. w_worker w = Compiling ts c True) \<or> w_worker w = Ingesting True"

definition owed_heal :: "instant \<Rightarrow> world \<Rightarrow> bool" where
  "owed_heal deadline w \<longleftrightarrow> heal_in_flight w \<or> bs_pending_reindex (w_shared w) \<and> due_by deadline (w_shared w)"

definition heal_rank :: "world \<Rightarrow> nat" where
  "heal_rank w = (case w_worker w of Ingesting True \<Rightarrow> 0 | Compiling _ _ True \<Rightarrow> 1 | k \<Rightarrow> turns_left k + 2)"

interpretation heal: ranked_obligation debounce "owed_heal deadline" "\<lambda>e. e = Reingested" deadline heal_rank
  for debounce deadline
proof unfold_locales
  fix w e w' assume st: "step debounce w e w'" and ow: "owed_heal deadline w" and np: "e \<noteq> Reingested"
  from st show "owed_heal deadline w'"
  proof (cases rule: step.cases)
    case (worked verdict s' k)
    then show ?thesis using ow np
      by (cases "w_worker w")
         (auto simp: owed_heal_def heal_in_flight_def due_by_def turn_defs split: if_splits option.splits)
  qed (use ow in \<open>auto simp: owed_heal_def heal_in_flight_def due_by_def turn_defs\<close>)
next
  fix w e w' assume st: "step debounce w e w'" and ow: "owed_heal deadline w" and np: "e \<noteq> Reingested"
    and up: "\<not> bs_shutting_down (w_shared w)" and dl: "deadline < w_clock w"
  from st show "heal_rank w' + (if worker_event e then 1 else 0) \<le> heal_rank w"
  proof (cases rule: step.cases)
    case (worked verdict s' k)
    then show ?thesis using ow np up dl
      by (cases "w_worker w")
         (auto simp: heal_rank_def owed_heal_def heal_in_flight_def due_by_def turn_defs split: if_splits option.splits bool.splits)
  qed (auto simp: heal_rank_def)
qed

section \<open>Reachable states\<close>

text \<open>A run is scheduled exactly while an intent is pending, it has a due time at most one debounce ahead,
  and only a compile intent comes with targets.\<close>
definition shared_ok :: "nat \<Rightarrow> instant \<Rightarrow> shared \<Rightarrow> bool" where
  "shared_ok debounce now s \<longleftrightarrow>
     finite (bs_pending_targets s) \<and> (bs_pending_targets s \<noteq> {} \<longrightarrow> bs_pending_compile s) \<and>
     (bs_scheduled s \<longleftrightarrow> bs_pending_compile s \<or> bs_pending_reindex s) \<and>
     (bs_scheduled s \<longleftrightarrow> bs_due_at s \<noteq> None) \<and> (\<forall>d. bs_due_at s = Some d \<longrightarrow> d \<le> now + debounce)"

lemma step_ok:
  assumes "step debounce w e w'" and "shared_ok debounce (w_clock w) (w_shared w)"
  shows "shared_ok debounce (w_clock w') (w_shared w')"
  using assms(1)
proof (cases rule: step.cases)
  case (worked verdict s' k)
  then show ?thesis using assms(2)
    by (cases "w_worker w") (auto simp: shared_ok_def turn_defs split: if_splits option.splits)
next
  case (scheduled ts cf)
  show ?thesis using assms(2) unfolding scheduled(2)
    by (cases "bs_due_at (w_shared w)") (auto simp: shared_ok_def turn_defs)
next
  case (ticked n)
  show ?thesis using assms(2) unfolding ticked(2) by (auto simp: shared_ok_def)
qed (use assms(2) in \<open>auto simp: shared_ok_def turn_defs\<close>)

lemma reachable_ok: "steps debounce world_new es w \<Longrightarrow> shared_ok debounce (w_clock w) (w_shared w)"
proof (induction es arbitrary: w rule: rev_induct)
  case Nil
  then show ?case by (auto elim!: steps_NilE simp: shared_ok_def world_new_def shared_new_def)
qed (auto elim!: steps_snocE intro: step_ok)

lemma steps_shutting_down:
  "steps debounce w es w' \<Longrightarrow> bs_shutting_down (w_shared w') \<longleftrightarrow> bs_shutting_down (w_shared w) \<or> Dropped \<in> set es"
  by (induction rule: steps.induct) (auto simp: step_shutting_down)

lemma reachable_running: "steps debounce world_new es w \<Longrightarrow> Dropped \<notin> set es \<Longrightarrow> \<not> bs_shutting_down (w_shared w)"
  using steps_shutting_down[of debounce world_new es w] by (simp add: world_new_def shared_new_def)

text \<open>What a schedule owes, right after it.\<close>
lemma schedule_owes:
  assumes "step debounce w (Scheduled ts cf) w'" and "shared_ok debounce (w_clock w) (w_shared w)"
    and "\<not> bs_shutting_down (w_shared w)"
  shows "w_clock w' = w_clock w"
    and "cf \<Longrightarrow> t \<in> set ts \<Longrightarrow> owed_target (w_clock w + debounce) t w'"
    and "\<not> cf \<Longrightarrow> owed_heal (w_clock w + debounce) w'"
proof -
  have w': "w' = w\<lparr>w_shared := schedule debounce (w_clock w) ts cf (w_shared w)\<rparr>"
    using assms(1) by (cases rule: step.cases) (auto dest: worker_turn_event)
  then show "w_clock w' = w_clock w" by simp
  show "owed_target (w_clock w + debounce) t w'" if "cf" "t \<in> set ts"
    using assms(2,3) that unfolding w' owed_target_def due_by_def
    by (cases "bs_due_at (w_shared w)") (auto simp: shared_ok_def turn_defs)
  show "owed_heal (w_clock w + debounce) w'" if "\<not> cf"
    using assms(2,3) that unfolding w' owed_heal_def due_by_def
    by (cases "bs_due_at (w_shared w)") (auto simp: shared_ok_def turn_defs)
qed

text \<open>Time, as the clock events of a trace tell it.\<close>
fun ticks :: "event list \<Rightarrow> nat" where
  "ticks [] = 0"
| "ticks (Ticked n # es) = n + ticks es"
| "ticks (_ # es) = ticks es"

lemma ticks_append [simp]: "ticks (es @ fs) = ticks es + ticks fs"
  by (induction es rule: ticks.induct) auto

lemma step_ticks: "step debounce w e w' \<Longrightarrow> w_clock w' = w_clock w + ticks [e]"
  by (elim stepE) (auto dest!: worker_turn_event elim: worker_event.elims)

lemma steps_ticks: "steps debounce w es w' \<Longrightarrow> w_clock w' = w_clock w + ticks es"
  by (induction rule: steps.induct) (auto dest: step_ticks)

text \<open>The whole thread winds down once the scheduler is dropped.\<close>
fun exit_rank :: "worker \<Rightarrow> nat" where
  "exit_rank Exited = 0"
| "exit_rank k = turns_left k + 1"

lemma shutdown_step:
  assumes "step debounce w e w'" and "bs_shutting_down (w_shared w)"
  shows "(\<forall>ts c r. e \<noteq> Began ts c r) \<and>
    exit_rank (w_worker w') + (if worker_event e then 1 else 0) \<le> exit_rank (w_worker w)"
  using assms(1)
proof (cases rule: step.cases)
  case (worked verdict s' k)
  then show ?thesis using assms(2)
    by (cases "w_worker w") (auto simp: turn_defs split: if_splits option.splits)
qed auto

lemma shutdown_steps:
  "steps debounce w es w' \<Longrightarrow> bs_shutting_down (w_shared w) \<Longrightarrow>
   (\<forall>ts c r. Began ts c r \<notin> set es) \<and>
   exit_rank (w_worker w') + length (filter worker_event es) \<le> exit_rank (w_worker w)"
proof (induction rule: steps.induct)
  case (snoc w es w' e w'')
  then show ?case
    using shutdown_step[OF snoc.hyps(2)] steps_shutting_down[OF snoc.hyps(1)] by (cases "worker_event e") auto
qed simp

lemma exit_rank_le: "exit_rank k \<le> 4"
  by (cases k) auto

section \<open>The condition variable\<close>

text \<open>
  Whether the worker runs or sleeps. \<open>Parked\<close> is \<open>Condvar::wait\<close>, which only a notification ends, and
  \<open>Timed t\<close> is \<open>Condvar::wait_timeout\<close>, which also ends once the clock has reached \<open>t\<close>; both may
  also end spuriously. The worker takes a turn only while it is awake.
\<close>
datatype sleep = Awake | Parked | Timed instant

definition notify_all :: "sleep \<Rightarrow> sleep" where
  "notify_all sl = Awake"

text \<open>\<open>schedule\<close> and \<open>drop\<close> with their notifications: a schedule notifies when it arms the run, a drop always.\<close>
definition schedule_cv :: "nat \<Rightarrow> instant \<Rightarrow> str list \<Rightarrow> bool \<Rightarrow> shared \<times> sleep \<Rightarrow> shared \<times> sleep" where
  "schedule_cv debounce now targets compile_first = (\<lambda>(s, sl).
     (schedule debounce now targets compile_first s,
      if bs_shutting_down s then sl else if \<not> bs_scheduled s then notify_all sl else sl))"

definition drop_cv :: "shared \<times> sleep \<Rightarrow> shared \<times> sleep" where
  "drop_cv = (\<lambda>(s, sl). (drop_scheduler s, notify_all sl))"

text \<open>A turn that ends in a wait puts the worker to sleep: without a limit while no run is scheduled, until the
  due time in the debounce loop.\<close>
definition sleep_after :: "instant \<Rightarrow> event \<Rightarrow> shared \<Rightarrow> worker \<Rightarrow> sleep" where
  "sleep_after now e s k =
     (if e = Slept
      then (if k = Waiting then Parked else Timed (case bs_due_at s of Some d \<Rightarrow> d | None \<Rightarrow> now))
      else Awake)"

inductive cstep :: "nat \<Rightarrow> world \<times> sleep \<Rightarrow> event option \<Rightarrow> world \<times> sleep \<Rightarrow> bool" for debounce where
  c_scheduled: "schedule_cv debounce (w_clock w) ts cf (w_shared w, sl) = (s', sl') \<Longrightarrow>
     cstep debounce (w, sl) (Some (Scheduled ts cf)) (w\<lparr>w_shared := s'\<rparr>, sl')"
| c_ticked: "cstep debounce (w, sl) (Some (Ticked n)) (w\<lparr>w_clock := w_clock w + n\<rparr>, sl)"
| c_dropped: "drop_cv (w_shared w, sl) = (s', sl') \<Longrightarrow>
     cstep debounce (w, sl) (Some Dropped) (w\<lparr>w_shared := s'\<rparr>, sl')"
| c_worked: "\<lbrakk>w_worker w \<noteq> Exited; worker_turn verdict (w_clock w) (w_worker w) (w_shared w) = (e, s', k)\<rbrakk> \<Longrightarrow>
     cstep debounce (w, Awake) (Some e) (w\<lparr>w_shared := s', w_worker := k\<rparr>, sleep_after (w_clock w) e s' k)"
| c_timeout: "t \<le> w_clock w \<Longrightarrow> cstep debounce (w, Timed t) None (w, Awake)"
| c_spurious: "cstep debounce (w, sl) None (w, Awake)"

inductive csteps :: "nat \<Rightarrow> world \<times> sleep \<Rightarrow> event option list \<Rightarrow> world \<times> sleep \<Rightarrow> bool" for debounce where
  c_refl: "csteps debounce c [] c"
| c_snoc: "csteps debounce c es c' \<Longrightarrow> cstep debounce c' e c'' \<Longrightarrow> csteps debounce c (es @ [e]) c''"

inductive_cases cstepE: "cstep debounce c e c'"
inductive_cases csteps_NilE: "csteps debounce c [] c'"
inductive_cases csteps_snocE: "csteps debounce c (es @ [e]) c'"

lemmas cv_defs = schedule_cv_def drop_cv_def sleep_after_def notify_all_def

text \<open>Every run with sleeping is a run of the scheduler, so whatever holds of all traces holds of these.\<close>
lemma cstep_step:
  "cstep debounce (w, sl) e (w', sl') \<Longrightarrow> (case e of None \<Rightarrow> w' = w | Some ev \<Rightarrow> step debounce w ev w')"
  by (elim cstepE) (auto simp: cv_defs intro: step.intros)

lemma map_filter_append: "List.map_filter f (xs @ ys) = List.map_filter f xs @ List.map_filter f ys"
  by (simp add: List.map_filter_def)

lemma csteps_steps:
  "csteps debounce c es c' \<Longrightarrow> steps debounce (fst c) (List.map_filter id es) (fst c')"
proof (induction rule: csteps.induct)
  case (c_snoc c es c' e c'')
  then show ?case
    using cstep_step[of debounce "fst c'" "snd c'" e "fst c''" "snd c''"]
    by (cases e) (auto simp: map_filter_append List.map_filter_def intro: steps.snoc)
qed (simp add: steps.refl List.map_filter_def)

lemma csteps_append: "csteps debounce c (es @ fs) c'' \<longleftrightarrow> (\<exists>c'. csteps debounce c es c' \<and> csteps debounce c' fs c'')"
proof (induction fs arbitrary: c'' rule: rev_induct)
  case Nil
  show ?case by (simp only: append_Nil2) (metis csteps_NilE csteps.c_refl)
next
  case (snoc f fs)
  have "csteps debounce c (es @ fs @ [f]) c'' \<longleftrightarrow> (\<exists>v. csteps debounce c (es @ fs) v \<and> cstep debounce v f c'')"
    by (metis append.assoc csteps.c_snoc csteps_snocE)
  then show ?case using snoc by (metis csteps.c_snoc csteps_snocE)
qed

text \<open>Asleep without a limit only when there is nothing to do, and with one only until the due time.\<close>
definition sleep_ok :: "world \<Rightarrow> sleep \<Rightarrow> bool" where
  "sleep_ok w sl \<longleftrightarrow>
     (case sl of
        Awake \<Rightarrow> True
      | Parked \<Rightarrow> \<not> bs_shutting_down (w_shared w) \<and> \<not> bs_scheduled (w_shared w) \<and> w_worker w = Waiting
      | Timed t \<Rightarrow> \<not> bs_shutting_down (w_shared w) \<and> bs_due_at (w_shared w) = Some t \<and> w_worker w = Debouncing)"

text \<open>The debounce loop is entered with a run scheduled, and only the worker unschedules it.\<close>
definition armed_ok :: "world \<Rightarrow> bool" where
  "armed_ok w \<longleftrightarrow> (bs_scheduled (w_shared w) \<longleftrightarrow> bs_due_at (w_shared w) \<noteq> None) \<and> (w_worker w = Debouncing \<longrightarrow> bs_scheduled (w_shared w))"

lemma cstep_sleep_ok:
  assumes "cstep debounce (w, sl) e (w', sl')" and "armed_ok w" and "sleep_ok w sl"
  shows "armed_ok w' \<and> sleep_ok w' sl'"
  using assms(1)
proof (cases rule: cstep.cases)
  case (c_worked verdict e s' k)
  then show ?thesis
    using assms(2) by (cases "w_worker w") (auto simp: armed_ok_def sleep_ok_def cv_defs turn_defs split: if_splits option.splits)
qed (use assms(2,3) in \<open>auto simp: armed_ok_def sleep_ok_def cv_defs turn_defs split: sleep.splits if_splits\<close>)

lemma csteps_sleep_ok: "csteps debounce c es c' \<Longrightarrow> armed_ok (fst c) \<Longrightarrow> sleep_ok (fst c) (snd c) \<Longrightarrow>
  armed_ok (fst c') \<and> sleep_ok (fst c') (snd c')"
  by (induction rule: csteps.induct) (auto dest: cstep_sleep_ok[rotated])

lemma reachable_sleep_ok: "csteps debounce (world_new, Awake) es (w, sl) \<Longrightarrow> sleep_ok w sl"
  using csteps_sleep_ok[of debounce "(world_new, Awake)" es "(w, sl)"]
  by (simp add: armed_ok_def sleep_ok_def world_new_def shared_new_def)

lemma awake_worker_can_step:
  assumes "w_worker w \<noteq> Exited"
  shows "\<exists>e c. cstep debounce (w, Awake) (Some e) c \<and> worker_event e"
proof -
  obtain e s' k where t: "worker_turn Compile_Ok (w_clock w) (w_worker w) (w_shared w) = (e, s', k)"
    by (cases "worker_turn Compile_Ok (w_clock w) (w_worker w) (w_shared w)") auto
  show ?thesis using cstep.c_worked[OF assms t] worker_turn_event[OF t] by blast
qed

section \<open>Properties\<close>

text \<open>C32: no intent is lost. After a schedule, whatever producers, clock, worker, compiler and shutdown do,
  each of its targets is pending, taken by the run in progress, or has since been handed to the compiler;
  and a heal is pending, about to be served by the run in progress, or a reingest has happened since, also
  when the compile it was coalesced with failed.\<close>
theorem no_intent_lost:
  assumes "steps debounce world_new (es @ Scheduled ts cf # fs) w" and "Dropped \<notin> set es"
  shows "if cf then \<forall>t \<in> set ts. t \<in> bs_pending_targets (w_shared w) \<or> target_in_flight t w \<or> (\<exists>e \<in> set fs. compiles t e)
         else bs_pending_reindex (w_shared w) \<or> heal_in_flight w \<or> Reingested \<in> set fs"
proof -
  obtain u v where u: "steps debounce world_new es u" and sch: "step debounce u (Scheduled ts cf) v"
    and fs: "steps debounce v fs w"
    using assms(1) by (auto simp: steps_append steps_Cons)
  note owes = schedule_owes[OF sch reachable_ok[OF u] reachable_running[OF u assms(2)]]
  have "t \<in> bs_pending_targets (w_shared w) \<or> target_in_flight t w \<or> (\<exists>e \<in> set fs. compiles t e)" if "cf" "t \<in> set ts" for t
    using target.never_lost[OF fs owes(2)[OF that]] by (auto simp: owed_target_def Let_def)
  moreover have "bs_pending_reindex (w_shared w) \<or> heal_in_flight w \<or> Reingested \<in> set fs" if "\<not> cf"
    using heal.never_lost[OF fs owes(3)[OF that]] by (auto simp: owed_heal_def)
  ultimately show ?thesis by simp
qed

text \<open>C33: scheduled work gets done. Once more than the debounce has passed after a schedule and the worker
  has then had six turns, all its targets have been compiled, or its reingest has run; other schedules and
  failing compiles cannot delay it.\<close>
theorem scheduled_work_is_done:
  assumes "steps debounce world_new (es @ Scheduled ts cf # fs @ gs) w"
    and "Dropped \<notin> set (es @ fs @ gs)" and "debounce < ticks fs" and "6 \<le> length (filter worker_event gs)"
  shows "if cf then \<forall>t \<in> set ts. \<exists>e \<in> set (fs @ gs). compiles t e else Reingested \<in> set (fs @ gs)"
proof -
  obtain u v x where u: "steps debounce world_new es u" and sch: "step debounce u (Scheduled ts cf) v"
    and fs: "steps debounce v fs x" and gs: "steps debounce x gs w"
    using assms(1) by (auto simp: steps_append steps_Cons)
  have nd: "Dropped \<notin> set es" "Dropped \<notin> set gs" using assms(2) by auto
  note run = reachable_running[OF u nd(1)]
  note owes = schedule_owes[OF sch reachable_ok[OF u] run]
  have late: "w_clock u + debounce < w_clock x" using steps_ticks[OF fs] owes(1) assms(3) by simp
  have xrun: "\<not> bs_shutting_down (w_shared x)"
    using steps_shutting_down[OF fs] step_shutting_down[OF sch] run assms(2) by auto
  have "turns_left (w_worker x) \<le> 3" by (cases "w_worker x") auto
  then have ranks: "target_rank t x < 6" "heal_rank x < 6" for t
    by (auto simp: target_rank_def heal_rank_def split: worker.splits bool.splits)
  have "\<exists>e \<in> set (fs @ gs). compiles t e" if "cf" "t \<in> set ts" for t
    using target.never_lost[OF fs owes(2)[OF that]]
      target.eventually_paid[OF gs _ late xrun nd(2)] ranks(1)[of t] assms(4) by fastforce
  moreover have "Reingested \<in> set (fs @ gs)" if "\<not> cf"
    using heal.never_lost[OF fs owes(3)[OF that]]
      heal.eventually_paid[OF gs _ late xrun nd(2)] ranks(2) assms(4) by fastforce
  ultimately show ?thesis by simp
qed

text \<open>C34: no wake-up is lost, and dropping the scheduler ends the worker. Whatever producers, clock, spurious
  wake-ups and worker do, the worker sleeps without a limit only while nothing is scheduled and the scheduler is not
  dropped, and with a limit only up to the due time of the scheduled run. Once the scheduler is dropped the worker
  is awake, takes at most four more turns, begins no run, and until it has exited it can take its next turn, so
  the join returns.\<close>
theorem no_wakeup_lost:
  assumes "csteps debounce (world_new, Awake) es (w, sl)"
  shows "(sl = Parked \<longrightarrow> \<not> bs_scheduled (w_shared w) \<and> \<not> bs_shutting_down (w_shared w)) \<and>
    (sl = Timed t \<longrightarrow> bs_due_at (w_shared w) = Some t \<and> \<not> bs_shutting_down (w_shared w)) \<and>
    (es = fs @ Some Dropped # gs \<longrightarrow>
       sl = Awake \<and> length (filter worker_event (List.map_filter id gs)) \<le> 4 \<and> (\<forall>ts c r. Some (Began ts c r) \<notin> set gs) \<and>
       (w_worker w \<noteq> Exited \<longrightarrow> (\<exists>e c. cstep debounce (w, sl) (Some e) c \<and> worker_event e)))"
proof -
  have ok: "sleep_ok w sl" using assms by (rule reachable_sleep_ok)
  have "sl = Awake \<and> length (filter worker_event (List.map_filter id gs)) \<le> 4 \<and> (\<forall>ts c r. Some (Began ts c r) \<notin> set gs) \<and>
      (w_worker w \<noteq> Exited \<longrightarrow> (\<exists>e c. cstep debounce (w, sl) (Some e) c \<and> worker_event e))"
    if es: "es = fs @ Some Dropped # gs"
  proof -
    obtain c where drp: "csteps debounce (world_new, Awake) (fs @ [Some Dropped]) c" and gs: "csteps debounce c gs (w, sl)"
      using assms csteps_append[of debounce "(world_new, Awake)" "fs @ [Some Dropped]" gs] es by auto
    have "Dropped \<in> set (List.map_filter id (fs @ [Some Dropped]))" by (simp add: List.map_filter_def)
    then have down: "bs_shutting_down (w_shared (fst c))" using steps_shutting_down[OF csteps_steps[OF drp]] by blast
    note tr = csteps_steps[OF gs]
    have "sl = Awake" using ok steps_shutting_down[OF tr] down by (auto simp: sleep_ok_def split: sleep.splits)
    moreover have "length (filter worker_event (List.map_filter id gs)) \<le> 4"
      using shutdown_steps[OF tr down] exit_rank_le[of "w_worker (fst c)"] by linarith
    moreover have "Some (Began ts cc r) \<notin> set gs" for ts cc r
      using shutdown_steps[OF tr down] by (force simp: List.map_filter_def)
    ultimately show ?thesis using awake_worker_can_step[of w debounce] by blast
  qed
  then show ?thesis using ok by (auto simp: sleep_ok_def)
qed

section \<open>A run of the scheduler\<close>

text \<open>Driving the steps by hand, to build concrete traces.\<close>

datatype action = Do_Schedule "str list" bool | Do_Tick nat | Do_Drop | Do_Work compile_outcome

fun act :: "nat \<Rightarrow> action \<Rightarrow> world \<Rightarrow> event \<times> world" where
  "act debounce (Do_Schedule ts cf) w = (Scheduled ts cf, w\<lparr>w_shared := schedule debounce (w_clock w) ts cf (w_shared w)\<rparr>)"
| "act debounce (Do_Tick n) w = (Ticked n, w\<lparr>w_clock := w_clock w + n\<rparr>)"
| "act debounce Do_Drop w = (Dropped, w\<lparr>w_shared := drop_scheduler (w_shared w)\<rparr>)"
| "act debounce (Do_Work verdict) w =
     (let (e, s', k) = worker_turn verdict (w_clock w) (w_worker w) (w_shared w)
      in (e, w\<lparr>w_shared := s', w_worker := k\<rparr>))"

fun acts :: "nat \<Rightarrow> action list \<Rightarrow> world \<Rightarrow> (event list \<times> world) option" where
  "acts debounce [] w = Some ([], w)"
| "acts debounce (a # as) w =
     (if w_worker w = Exited then None
      else let (e, w') = act debounce a w
           in case acts debounce as w' of None \<Rightarrow> None | Some (es, w'') \<Rightarrow> Some (e # es, w''))"

lemma act_step: "w_worker w \<noteq> Exited \<Longrightarrow> act debounce a w = (e, w') \<Longrightarrow> step debounce w e w'"
  by (cases a) (auto intro: step.intros split: prod.splits)

lemma acts_steps: "acts debounce as w = Some (es, w') \<Longrightarrow> steps debounce w es w'"
proof (induction as arbitrary: w es)
  case (Cons a as)
  then show ?case
    using act_step[of w debounce a] by (force simp: steps_Cons Let_def split: if_splits option.splits prod.splits)
qed (simp add: steps.refl)

text \<open>A save whose compile fails, a heal in the same window, and the run that serves both.\<close>
definition busy_actions :: "action list" where
  "busy_actions = [Do_Schedule [lit ''b'', lit ''a''] True, Do_Schedule [] False, Do_Tick 4, Do_Work Compile_Failed,
     Do_Work Compile_Failed, Do_Work Compile_Failed, Do_Work Compile_Failed, Do_Work Compile_Failed, Do_Work Compile_Failed]"

definition busy_events :: "event list" where
  "busy_events = [Began [lit ''a'', lit ''b''] True True,
     Compiled [lit ''a'', lit ''b''] Compile_Failed, Reingested, Counted, Slept, Slept]"

definition busy_world :: world where
  "busy_world = \<lparr>w_shared = shared_new\<lparr>bs_runs_completed := 1, bs_reingests_attempted := 1\<rparr>, w_worker = Waiting, w_clock = 4\<rparr>"

lemma busy_targets: "sorted_list_of_set {lit ''b'', lit ''a''} = [lit ''a'', lit ''b'']"
  by (simp add: lit_def)

lemma busy_acts:
  "acts 3 busy_actions world_new =
     Some ([Scheduled [lit ''b'', lit ''a''] True, Scheduled [] False, Ticked 4] @ busy_events, busy_world)"
  by (simp add: busy_actions_def busy_events_def busy_world_def world_new_def shared_new_def turn_defs busy_targets)

theorem no_intent_lost_witness:
  "Dropped \<notin> set ([Scheduled [lit ''b'', lit ''a''] True] :: event list) \<and> \<not> bs_pending_reindex (w_shared busy_world) \<and>
   \<not> heal_in_flight busy_world \<and> Reingested \<in> set ([Ticked 4] @ busy_events)"
proof -
  have "\<not> bs_pending_reindex (w_shared busy_world)" "w_worker busy_world = Waiting"
    by (simp_all add: busy_world_def shared_new_def)
  then show ?thesis
    using no_intent_lost[of 3 "[Scheduled [lit ''b'', lit ''a''] True]" "[]" False "[Ticked 4] @ busy_events" busy_world]
      acts_steps[OF busy_acts] by (simp add: heal_in_flight_def)
qed

theorem scheduled_work_is_done_witness:
  "(3 :: nat) < ticks [Scheduled [] False, Ticked 4] \<and> 6 \<le> length (filter worker_event busy_events) \<and>
   (\<exists>e \<in> set ([Scheduled [] False, Ticked 4] @ busy_events). compiles (lit ''a'') e)"
  using scheduled_work_is_done[of 3 "[]" "[lit ''b'', lit ''a'']" True "[Scheduled [] False, Ticked 4]" busy_events busy_world]
    acts_steps[OF busy_acts] by (simp add: busy_events_def)

text \<open>The worker goes to sleep, the scheduler is dropped, and the worker ends.\<close>
definition parked_world :: world where
  "parked_world = \<lparr>w_shared = shared_new, w_worker = Waiting, w_clock = 0\<rparr>"

definition ended_world :: world where
  "ended_world = \<lparr>w_shared = shared_new\<lparr>bs_shutting_down := True\<rparr>, w_worker = Exited, w_clock = 0\<rparr>"

lemma sleep_run: "csteps 3 (world_new, Awake) ([Some Slept] @ Some Dropped # [Some Ended]) (ended_world, Awake)"
proof -
  have 1: "cstep 3 (world_new, Awake) (Some Slept) (parked_world, Parked)"
    using c_worked[of world_new Compile_Ok Slept shared_new Waiting 3]
    by (simp add: world_new_def parked_world_def shared_new_def sleep_after_def)
  have 2: "cstep 3 (parked_world, Parked) (Some Dropped) (parked_world\<lparr>w_shared := drop_scheduler shared_new\<rparr>, Awake)"
    by (rule c_dropped) (simp add: parked_world_def drop_cv_def notify_all_def)
  have 3: "cstep 3 (parked_world\<lparr>w_shared := drop_scheduler shared_new\<rparr>, Awake) (Some Ended) (ended_world, Awake)"
    using c_worked[of "parked_world\<lparr>w_shared := drop_scheduler shared_new\<rparr>" Compile_Ok Ended "drop_scheduler shared_new" Exited 3]
    by (simp add: parked_world_def ended_world_def drop_scheduler_def sleep_after_def)
  show ?thesis using c_snoc[OF c_snoc[OF c_snoc[OF c_refl 1] 2] 3] by simp
qed

theorem no_wakeup_lost_witness:
  "(\<exists>sl. csteps 3 (world_new, Awake) ([Some Slept] @ Some Dropped # [Some Ended]) (ended_world, sl) \<and> sl = Awake) \<and>
   length (filter worker_event (List.map_filter id [Some Ended])) \<le> 4"
  using no_wakeup_lost[OF sleep_run, where fs = "[Some Slept]" and gs = "[Some Ended]"] sleep_run by blast

end
