(* ===== verification/Pc_Supervisor.thy ===== *)
theory Pc_Supervisor
  imports Pc_Payloads
begin

text \<open>
  The supervision of the presentation compiler, \<open>crates/ls-jvm\<close>: the replay mirror (\<open>mirror.rs\<close>), the
  dispatch generations (\<open>dispatch.rs\<close>) and the request watchdog with its recovery ladder (\<open>watchdog.rs\<close>).

  The lanes are the trait \<open>PcBackend\<close>; a backend is a record of its operations on a state, which also
  carries the clock that \<open>wait_lane_idle\<close> reads and the sleep it makes between two looks at the lane. What
  the wait needs of them is \<open>clock_advances\<close>: an \<open>Instant\<close> never goes back, and a millisecond's sleep takes at
  least a tick of the clock.
\<close>

section \<open>The replay mirror\<close>

record open_buffer =
  ob_target_id :: str
  ob_uri :: str
  ob_text :: str

record replay_plan =
  rp_targets :: "(str \<times> target_config) list"
  rp_buffers :: "open_buffer list"

record target_mirror =
  tm_targets :: "(str \<times> target_config) list"
  tm_buffers :: "open_buffer list"

definition mirror_new :: target_mirror where
  "mirror_new = \<lparr>tm_targets = [], tm_buffers = []\<rparr>"

text \<open>\<open>iter_mut().find(p)\<close>: update the first element that satisfies \<open>p\<close>, if there is one.\<close>
fun update_first :: "('a \<Rightarrow> bool) \<Rightarrow> ('a \<Rightarrow> 'a) \<Rightarrow> 'a list \<Rightarrow> 'a list option" where
  "update_first p f [] = None"
| "update_first p f (x # xs) = (if p x then Some (f x # xs) else map_option ((#) x) (update_first p f xs))"

definition mirror_register_target :: "str \<Rightarrow> target_config \<Rightarrow> target_mirror \<Rightarrow> target_mirror" where
  "mirror_register_target tid config m =
     (case update_first (\<lambda>(existing, _). existing = tid) (\<lambda>(existing, _). (existing, config)) (tm_targets m) of
        Some ts \<Rightarrow> m\<lparr>tm_targets := ts\<rparr>
      | None \<Rightarrow> m\<lparr>tm_targets := tm_targets m @ [(tid, config)]\<rparr>)"

definition mirror_did_open :: "str \<Rightarrow> str \<Rightarrow> str \<Rightarrow> target_mirror \<Rightarrow> target_mirror" where
  "mirror_did_open target_id uri txt m =
     (case update_first (\<lambda>b. ob_uri b = uri) (\<lambda>b. b\<lparr>ob_target_id := target_id, ob_text := txt\<rparr>) (tm_buffers m) of
        Some bs \<Rightarrow> m\<lparr>tm_buffers := bs\<rparr>
      | None \<Rightarrow> m\<lparr>tm_buffers := tm_buffers m @ [\<lparr>ob_target_id = target_id, ob_uri = uri, ob_text = txt\<rparr>]\<rparr>)"

definition mirror_did_change :: "str \<Rightarrow> str \<Rightarrow> target_mirror \<Rightarrow> target_mirror" where
  "mirror_did_change uri txt m =
     (case update_first (\<lambda>b. ob_uri b = uri) (\<lambda>b. b\<lparr>ob_text := txt\<rparr>) (tm_buffers m) of
        Some bs \<Rightarrow> m\<lparr>tm_buffers := bs\<rparr>
      | None \<Rightarrow> m)"

definition mirror_did_close :: "str \<Rightarrow> target_mirror \<Rightarrow> target_mirror" where
  "mirror_did_close uri m = m\<lparr>tm_buffers := filter (\<lambda>b. ob_uri b \<noteq> uri) (tm_buffers m)\<rparr>"

definition mirror_replay_plan :: "target_mirror \<Rightarrow> replay_plan" where
  "mirror_replay_plan m = \<lparr>rp_targets = tm_targets m, rp_buffers = tm_buffers m\<rparr>"

section \<open>Dispatch generations\<close>

datatype advance_result = Spawned u32 | Fatal

record generation_state =
  gs_current :: u32
  gs_abandoned :: u32
  gs_max_abandoned :: u32

definition generations_new :: "u32 \<Rightarrow> generation_state" where
  "generations_new m = \<lparr>gs_current = 0, gs_abandoned = 0, gs_max_abandoned = m\<rparr>"

definition gs_advance :: "generation_state \<Rightarrow> advance_result \<times> generation_state" where
  "gs_advance g =
     (if gs_max_abandoned g \<le> gs_abandoned g then (Fatal, g)
      else let g' = g\<lparr>gs_abandoned := gs_abandoned g + 1, gs_current := gs_current g + 1\<rparr>
           in (Spawned (gs_current g'), g'))"

section \<open>Requests and the backend\<close>

datatype query_kind = Q_Completion | Q_Hover | Q_SignatureHelp | Q_Definition | Q_TypeDefinition | Q_PrepareRename

datatype payload_query_kind =
    PQ_InlayHints | PQ_SemanticTokens | PQ_SelectionRange | PQ_CodeAction | PQ_AutoImports
  | PQ_PcDiagnostics | PQ_FoldingRange

datatype pc_request =
    RegisterTarget str target_config
  | DidOpen str str str
  | DidChange str str
  | DidClose str
  | PcQuery query_kind str u32 u32
  | PayloadQuery payload_query_kind "byte list"
  | PcResolve str str "byte list"

datatype dispatch_outcome = Done "byte list" | Status i32 | Wedged

datatype pc_error = RequestTimeout | Backend i32

record 'b pc_backend =
  pb_dispatch :: "pc_request \<Rightarrow> nat \<Rightarrow> 'b \<Rightarrow> dispatch_outcome \<times> 'b"
  pb_restart_instances :: "'b \<Rightarrow> i32 \<times> 'b"
  pb_lane_idle :: "'b \<Rightarrow> bool \<times> 'b"
  pb_spawn_generation :: "u32 \<Rightarrow> replay_plan \<Rightarrow> 'b \<Rightarrow> i32 \<times> 'b"
  pb_now :: "'b \<Rightarrow> nat"
  pb_sleep :: "'b \<Rightarrow> 'b"

definition clock_advances :: "'b pc_backend \<Rightarrow> bool" where
  "clock_advances B \<longleftrightarrow> (\<forall>b. pb_now B b \<le> pb_now B (snd (pb_lane_idle B b))) \<and> (\<forall>b. pb_now B b < pb_now B (pb_sleep B b))"

section \<open>The supervisor\<close>

record 'b supervisor =
  sv_backend :: 'b
  sv_mirror :: target_mirror
  sv_generations :: generation_state
  sv_request_deadline :: nat
  sv_cancel_grace :: nat
  sv_fatal :: bool

definition supervisor_new :: "'b \<Rightarrow> u32 \<Rightarrow> nat \<Rightarrow> nat \<Rightarrow> 'b supervisor" where
  "supervisor_new b max_abandoned request_deadline cancel_grace =
     \<lparr>sv_backend = b, sv_mirror = mirror_new, sv_generations = generations_new max_abandoned,
      sv_request_deadline = request_deadline, sv_cancel_grace = cancel_grace, sv_fatal = False\<rparr>"

fun observe :: "pc_request \<Rightarrow> target_mirror \<Rightarrow> target_mirror" where
  "observe (RegisterTarget tid config) m = mirror_register_target tid config m"
| "observe (DidOpen target_id uri txt) m = mirror_did_open target_id uri txt m"
| "observe (DidChange uri txt) m = mirror_did_change uri txt m"
| "observe (DidClose uri) m = mirror_did_close uri m"
| "observe (PcQuery _ _ _ _) m = m"
| "observe (PayloadQuery _ _) m = m"
| "observe (PcResolve _ _ _) m = m"

text \<open>The loop of \<open>wait_lane_idle\<close>; \<open>None\<close> would be a wait that never ends.\<close>
partial_function (option) lane_loop :: "'b pc_backend \<Rightarrow> nat \<Rightarrow> 'b \<Rightarrow> (bool \<times> 'b) option" where
  "lane_loop B deadline b =
     (let (idle, b1) = pb_lane_idle B b
      in if idle then Some (True, b1)
         else if deadline \<le> pb_now B b1 then Some (False, b1)
         else lane_loop B deadline (pb_sleep B b1))"

definition wait_lane_idle :: "'b pc_backend \<Rightarrow> nat \<Rightarrow> 'b \<Rightarrow> (bool \<times> 'b) option" where
  "wait_lane_idle B cancel_grace b = lane_loop B (pb_now B b + cancel_grace) b"

definition supervisor_recover :: "'b pc_backend \<Rightarrow> 'b supervisor \<Rightarrow> 'b supervisor option" where
  "supervisor_recover B sv =
     (let (restart_status, b1) = pb_restart_instances B (sv_backend sv); sv1 = sv\<lparr>sv_backend := b1\<rparr>
      in if restart_status \<noteq> 0 then Some (sv1\<lparr>sv_fatal := True\<rparr>)
         else case wait_lane_idle B (sv_cancel_grace sv1) b1 of
             None \<Rightarrow> None
           | Some (True, b2) \<Rightarrow> Some (sv1\<lparr>sv_backend := b2\<rparr>)
           | Some (False, b2) \<Rightarrow>
               (case gs_advance (sv_generations sv1) of
                  (Spawned generation, g) \<Rightarrow>
                    (let plan = mirror_replay_plan (sv_mirror sv1);
                         (spawn_status, b3) = pb_spawn_generation B generation plan b2;
                         sv2 = sv1\<lparr>sv_backend := b3, sv_generations := g\<rparr>
                     in Some (if spawn_status \<noteq> 0 then sv2\<lparr>sv_fatal := True\<rparr> else sv2))
                | (Fatal, g) \<Rightarrow> Some (sv1\<lparr>sv_backend := b2, sv_generations := g, sv_fatal := True\<rparr>)))"

text \<open>\<open>request\<close>: the lifecycle effect is mirrored on success and on a wedge, never on an error status.\<close>
definition request :: "'b pc_backend \<Rightarrow> pc_request \<Rightarrow> 'b supervisor \<Rightarrow> ((byte list, pc_error) outcome \<times> 'b supervisor) option" where
  "request B req sv =
     (case pb_dispatch B req (sv_request_deadline sv) (sv_backend sv) of
        (Done reply, b) \<Rightarrow> Some (Ok reply, sv\<lparr>sv_backend := b, sv_mirror := observe req (sv_mirror sv)\<rparr>)
      | (Status st, b) \<Rightarrow> Some (Err (Backend st), sv\<lparr>sv_backend := b\<rparr>)
      | (Wedged, b) \<Rightarrow>
          map_option (Pair (Err RequestTimeout)) (supervisor_recover B (sv\<lparr>sv_backend := b, sv_mirror := observe req (sv_mirror sv)\<rparr>)))"

fun requests :: "'b pc_backend \<Rightarrow> pc_request list \<Rightarrow> 'b supervisor \<Rightarrow> ((byte list, pc_error) outcome list \<times> 'b supervisor) option" where
  "requests B [] sv = Some ([], sv)"
| "requests B (r # rs) sv =
     (case request B r sv of None \<Rightarrow> None
      | Some (res, sv1) \<Rightarrow> map_option (\<lambda>(ress, sv2). (res # ress, sv2)) (requests B rs sv1))"

section \<open>What the mirror stands for\<close>

text \<open>The state of a presentation-compiler instance, as the editor's notifications define it.\<close>
record pc_view =
  pv_targets :: "str \<rightharpoonup> target_config"
  pv_buffers :: "str \<rightharpoonup> str \<times> str"

definition empty_view :: pc_view where
  "empty_view = \<lparr>pv_targets = Map.empty, pv_buffers = Map.empty\<rparr>"

fun apply_request :: "pc_request \<Rightarrow> pc_view \<Rightarrow> pc_view" where
  "apply_request (RegisterTarget tid config) v = v\<lparr>pv_targets := (pv_targets v)(tid \<mapsto> config)\<rparr>"
| "apply_request (DidOpen target_id uri txt) v = v\<lparr>pv_buffers := (pv_buffers v)(uri \<mapsto> (target_id, txt))\<rparr>"
| "apply_request (DidChange uri txt) v =
     (case pv_buffers v uri of None \<Rightarrow> v | Some (target_id, _) \<Rightarrow> v\<lparr>pv_buffers := (pv_buffers v)(uri \<mapsto> (target_id, txt))\<rparr>)"
| "apply_request (DidClose uri) v = v\<lparr>pv_buffers := (pv_buffers v)(uri := None)\<rparr>"
| "apply_request _ v = v"

definition buffer_entry :: "open_buffer \<Rightarrow> str \<times> str \<times> str" where
  "buffer_entry b = (ob_uri b, ob_target_id b, ob_text b)"

text \<open>Replaying a plan registers the targets and then opens the buffers, in list order.\<close>
definition replay :: "replay_plan \<Rightarrow> pc_view \<Rightarrow> pc_view" where
  "replay p v = fold (\<lambda>b. apply_request (DidOpen (ob_target_id b) (ob_uri b) (ob_text b))) (rp_buffers p)
     (fold (\<lambda>(tid, config). apply_request (RegisterTarget tid config)) (rp_targets p) v)"

definition mirror_ok :: "target_mirror \<Rightarrow> bool" where
  "mirror_ok m \<longleftrightarrow> distinct (map fst (tm_targets m)) \<and> distinct (map ob_uri (tm_buffers m))"

definition mirror_view :: "target_mirror \<Rightarrow> pc_view" where
  "mirror_view m = \<lparr>pv_targets = map_of (tm_targets m), pv_buffers = map_of (map buffer_entry (tm_buffers m))\<rparr>"

lemma fst_buffer_entry [simp]: "fst \<circ> buffer_entry = ob_uri"
  by (auto simp: buffer_entry_def)

lemma buffer_entry_sel [simp]:
  "fst (buffer_entry b) = ob_uri b" "snd (buffer_entry b) = (ob_target_id b, ob_text b)"
  by (simp_all add: buffer_entry_def)

text \<open>An update in place of the entry with a given key is an update of the map, and keeps the keys.\<close>
lemma update_first_map_of:
  assumes "\<And>x. p x \<longleftrightarrow> fst (g x) = k" and "\<And>x. fst (g (f x)) = fst (g x)"
  shows "case update_first p f xs of
      None \<Rightarrow> k \<notin> fst ` g ` set xs
    | Some ys \<Rightarrow> map (fst \<circ> g) ys = map (fst \<circ> g) xs \<and>
        (\<exists>x \<in> set xs. p x \<and> map_of (map g xs) k = Some (snd (g x)) \<and> map_of (map g ys) = (map_of (map g xs))(k \<mapsto> snd (g (f x))))"
proof (induction xs)
  case (Cons x xs)
  have split: "map_of (g z # zs) = (map_of zs)(fst (g z) \<mapsto> snd (g z))" for z and zs
    by (cases "g z") simp
  show ?case
  proof (cases "p x \<or> update_first p f xs = None")
    case True
    then show ?thesis using Cons assms[of x] by (auto simp: split split: option.splits)
  next
    case False
    then obtain ys where ys: "update_first p f xs = Some ys" and "fst (g x) \<noteq> k" using assms(1) by auto
    with Cons False show ?thesis by (auto simp: split fun_upd_twist[of "fst (g x)" k])
  qed
qed simp

lemma register_ok:
  assumes "mirror_ok m"
  shows "mirror_ok (mirror_register_target tid config m) \<and>
    mirror_view (mirror_register_target tid config m) = apply_request (RegisterTarget tid config) (mirror_view m)"
  using update_first_map_of[of "\<lambda>(existing, _). existing = tid" "\<lambda>x. x" tid "\<lambda>(existing, _). (existing, config)" "tm_targets m"] assms
  by (auto simp: mirror_register_target_def mirror_ok_def mirror_view_def comp_def map_of_snoc simp del: map_of_append
      split: option.splits; force)

lemma open_ok:
  assumes "mirror_ok m"
  shows "mirror_ok (mirror_did_open target_id uri txt m) \<and>
    mirror_view (mirror_did_open target_id uri txt m) = apply_request (DidOpen target_id uri txt) (mirror_view m)"
  using update_first_map_of[of "\<lambda>b. ob_uri b = uri" buffer_entry uri "\<lambda>b. b\<lparr>ob_target_id := target_id, ob_text := txt\<rparr>" "tm_buffers m"] assms
  by (auto simp: mirror_did_open_def mirror_ok_def mirror_view_def buffer_entry_def comp_def image_image map_of_snoc
      simp del: map_of_append split: option.splits)

lemma change_ok:
  assumes "mirror_ok m"
  shows "mirror_ok (mirror_did_change uri txt m) \<and>
    mirror_view (mirror_did_change uri txt m) = apply_request (DidChange uri txt) (mirror_view m)"
proof (cases "update_first (\<lambda>b. ob_uri b = uri) (\<lambda>b. b\<lparr>ob_text := txt\<rparr>) (tm_buffers m)")
  case None
  then have "map_of (map buffer_entry (tm_buffers m)) uri = None"
    using update_first_map_of[of "\<lambda>b. ob_uri b = uri" buffer_entry uri "\<lambda>b. b\<lparr>ob_text := txt\<rparr>" "tm_buffers m"]
    by (auto simp: buffer_entry_def map_of_eq_None_iff)
  with None show ?thesis using assms by (simp add: mirror_did_change_def mirror_view_def)
next
  case (Some bs)
  have "map ob_uri bs = map ob_uri (tm_buffers m) \<and> (\<exists>b \<in> set (tm_buffers m). ob_uri b = uri \<and>
      map_of (map buffer_entry (tm_buffers m)) uri = Some (ob_target_id b, ob_text b) \<and>
      map_of (map buffer_entry bs) = (map_of (map buffer_entry (tm_buffers m)))(uri \<mapsto> (ob_target_id b, txt)))"
    using update_first_map_of[of "\<lambda>b. ob_uri b = uri" buffer_entry uri "\<lambda>b. b\<lparr>ob_text := txt\<rparr>" "tm_buffers m"] Some by simp
  then obtain b :: open_buffer where "map ob_uri bs = map ob_uri (tm_buffers m)"
    "map_of (map buffer_entry (tm_buffers m)) uri = Some (ob_target_id b, ob_text b)"
    "map_of (map buffer_entry bs) = (map_of (map buffer_entry (tm_buffers m)))(uri \<mapsto> (ob_target_id b, txt))"
    by blast
  with Some show ?thesis using assms by (simp add: mirror_did_change_def mirror_view_def mirror_ok_def)
qed

lemma close_ok:
  assumes "mirror_ok m"
  shows "mirror_ok (mirror_did_close uri m) \<and>
    mirror_view (mirror_did_close uri m) = apply_request (DidClose uri) (mirror_view m)"
proof -
  have "map_of (map buffer_entry (filter (\<lambda>b. ob_uri b \<noteq> uri) bs)) = (map_of (map buffer_entry bs))(uri := None)" for bs
    by (induction bs) (auto simp: buffer_entry_def fun_upd_twist)
  then show ?thesis using assms
    by (simp add: mirror_did_close_def mirror_ok_def mirror_view_def distinct_map_filter)
qed

text \<open>The mirror implements the notifications.\<close>
lemma observe_refines:
  "mirror_ok m \<Longrightarrow> mirror_ok (observe r m) \<and> mirror_view (observe r m) = apply_request r (mirror_view m)"
  by (cases r) (simp_all add: register_ok open_ok change_ok close_ok)

lemma replay_targets:
  "fold (\<lambda>(tid, config). apply_request (RegisterTarget tid config)) ts v = v\<lparr>pv_targets := pv_targets v ++ map_of (rev ts)\<rparr>"
  by (induction ts arbitrary: v) auto

lemma replay_buffers:
  "fold (\<lambda>b. apply_request (DidOpen (ob_target_id b) (ob_uri b) (ob_text b))) bs v =
   v\<lparr>pv_buffers := pv_buffers v ++ map_of (map buffer_entry (rev bs))\<rparr>"
  by (induction bs arbitrary: v) (auto simp: buffer_entry_def)

lemma replay_plan_view: "mirror_ok m \<Longrightarrow> replay (mirror_replay_plan m) empty_view = mirror_view m"
  by (simp add: replay_def replay_targets replay_buffers mirror_replay_plan_def mirror_view_def mirror_ok_def
      empty_view_def map_of_rev_distinct flip: rev_map)

section \<open>The wait and the ladder\<close>

lemma lane_loop_ends:
  assumes "clock_advances B"
  shows "\<exists>idle b'. lane_loop B deadline b = Some (idle, b') \<and> (idle \<longrightarrow> (\<exists>b1. pb_lane_idle B b1 = (True, b')))"
proof (induction "deadline - pb_now B b" arbitrary: b rule: less_induct)
  case less
  obtain idle b1 where li: "pb_lane_idle B b = (idle, b1)" using surj_pair[of "pb_lane_idle B b"] by blast
  have "pb_now B b \<le> pb_now B (snd (pb_lane_idle B b))" and "pb_now B b1 < pb_now B (pb_sleep B b1)"
    using assms by (simp_all add: clock_advances_def)
  then have clock: "pb_now B b \<le> pb_now B b1" "pb_now B b1 < pb_now B (pb_sleep B b1)" using li by simp_all
  have unfold: "lane_loop B deadline b =
      (if idle then Some (True, b1) else if deadline \<le> pb_now B b1 then Some (False, b1) else lane_loop B deadline (pb_sleep B b1))"
    by (subst lane_loop.simps) (simp add: li)
  consider "idle" | "\<not> idle" "deadline \<le> pb_now B b1" | "\<not> idle" "pb_now B b1 < deadline" by linarith
  then show ?case
  proof cases
    case 3
    then have "deadline - pb_now B (pb_sleep B b1) < deadline - pb_now B b" using clock by linarith
    from less[OF this] show ?thesis using 3 by (simp add: unfold)
  qed (use li in \<open>auto simp: unfold\<close>)
qed

definition generations_ok :: "generation_state \<Rightarrow> bool" where
  "generations_ok g \<longleftrightarrow> gs_current g = gs_abandoned g \<and> gs_abandoned g \<le> gs_max_abandoned g"

lemma gs_advance_cases:
  assumes "generations_ok g"
  shows "gs_advance g = (Fatal, g) \<or> (\<exists>g'. gs_advance g = (Spawned (gs_current g'), g') \<and> generations_ok g' \<and>
    unat (gs_current g') = unat (gs_current g) + 1 \<and> gs_max_abandoned g' = gs_max_abandoned g)"
proof (cases "gs_max_abandoned g \<le> gs_abandoned g")
  case True
  then show ?thesis by (simp add: gs_advance_def)
next
  case False
  then have lt: "unat (gs_abandoned g) < unat (gs_max_abandoned g)" by (simp add: word_le_nat_alt)
  moreover have "unat (gs_max_abandoned g) < 2 ^ 32" using unsigned_less[of "gs_max_abandoned g"] by simp
  ultimately have step: "unat (gs_abandoned g + 1) = unat (gs_abandoned g) + 1"
    by (simp add: unat_word_ariths)
  then have "gs_abandoned g + 1 \<le> gs_max_abandoned g" using lt by (simp add: word_le_nat_alt)
  with step False assms show ?thesis by (simp add: gs_advance_def generations_ok_def Let_def)
qed

text \<open>Where the ladder can end: the island is given up, the lane is idle again in the same generation, or
  a fresh generation runs with the mirrored state replayed into it.\<close>
definition recovered :: "'b pc_backend \<Rightarrow> 'b supervisor \<Rightarrow> 'b supervisor \<Rightarrow> bool" where
  "recovered B sv sv' \<longleftrightarrow>
     sv_fatal sv' \<or>
     sv_generations sv' = sv_generations sv \<and> (\<exists>b. pb_lane_idle B b = (True, sv_backend sv')) \<or>
     unat (gs_current (sv_generations sv')) = unat (gs_current (sv_generations sv)) + 1 \<and>
     (\<exists>b. pb_spawn_generation B (gs_current (sv_generations sv')) (mirror_replay_plan (sv_mirror sv')) b = (0, sv_backend sv'))"

lemma recover_total:
  assumes "clock_advances B" and "generations_ok (sv_generations sv)"
  shows "\<exists>sv'. supervisor_recover B sv = Some sv' \<and> recovered B sv sv' \<and> sv_mirror sv' = sv_mirror sv \<and>
    generations_ok (sv_generations sv') \<and> gs_max_abandoned (sv_generations sv') = gs_max_abandoned (sv_generations sv) \<and>
    (sv_fatal sv \<longrightarrow> sv_fatal sv')"
proof -
  obtain rs b1 where restart: "pb_restart_instances B (sv_backend sv) = (rs, b1)" using surj_pair[of "pb_restart_instances B (sv_backend sv)"] by blast
  obtain idle b2 where wait: "wait_lane_idle B (sv_cancel_grace sv) b1 = Some (idle, b2)"
    and idle: "idle \<Longrightarrow> \<exists>b. pb_lane_idle B b = (True, b2)"
    using lane_loop_ends[OF assms(1)] unfolding wait_lane_idle_def by blast
  consider "rs \<noteq> 0" | "rs = 0" "idle" | "rs = 0" "\<not> idle" by blast
  then show ?thesis
  proof cases
    case 1
    then show ?thesis using assms(2) by (simp add: supervisor_recover_def restart recovered_def)
  next
    case 2
    then show ?thesis using assms(2) wait idle by (auto simp: supervisor_recover_def restart recovered_def)
  next
    case 3
    from gs_advance_cases[OF assms(2)] consider "gs_advance (sv_generations sv) = (Fatal, sv_generations sv)"
      | g' where "gs_advance (sv_generations sv) = (Spawned (gs_current g'), g')" "generations_ok g'"
        "unat (gs_current g') = unat (gs_current (sv_generations sv)) + 1"
        "gs_max_abandoned g' = gs_max_abandoned (sv_generations sv)" by blast
    then show ?thesis
    proof cases
      case 1
      then show ?thesis using assms(2) wait 3 by (simp add: supervisor_recover_def restart recovered_def)
    next
      case (2 g')
      obtain st b3 where "pb_spawn_generation B (gs_current g') (mirror_replay_plan (sv_mirror sv)) b2 = (st, b3)"
        using surj_pair[of "pb_spawn_generation B (gs_current g') (mirror_replay_plan (sv_mirror sv)) b2"] by blast
      then show ?thesis using 2 wait 3 assms(2) by (cases "st = 0") (auto simp: supervisor_recover_def restart recovered_def Let_def)
    qed
  qed
qed

definition supervisor_ok :: "'b supervisor \<Rightarrow> bool" where
  "supervisor_ok sv \<longleftrightarrow> mirror_ok (sv_mirror sv) \<and> generations_ok (sv_generations sv)"

lemma supervisor_new_ok: "supervisor_ok (supervisor_new b m dl grace)"
  by (simp add: supervisor_ok_def supervisor_new_def mirror_ok_def mirror_new_def generations_ok_def generations_new_def)

text \<open>Whether a request reached the instance: all but those answered with an error status.\<close>
fun accepted :: "(byte list, pc_error) outcome \<Rightarrow> bool" where
  "accepted (Err (Backend _)) = False"
| "accepted _ = True"

lemma request_total:
  assumes "clock_advances B" and "supervisor_ok sv"
  obtains res sv' where "request B r sv = Some (res, sv')" "supervisor_ok sv'"
    "mirror_view (sv_mirror sv') = (if accepted res then apply_request r (mirror_view (sv_mirror sv)) else mirror_view (sv_mirror sv))"
    "gs_max_abandoned (sv_generations sv') = gs_max_abandoned (sv_generations sv)"
proof -
  obtain oc b where d: "pb_dispatch B r (sv_request_deadline sv) (sv_backend sv) = (oc, b)" using surj_pair[of "pb_dispatch B r (sv_request_deadline sv) (sv_backend sv)"] by blast
  have ok: "mirror_ok (sv_mirror sv)" "generations_ok (sv_generations sv)" using assms(2) by (auto simp: supervisor_ok_def)
  show thesis
  proof (cases oc)
    case Wedged
    obtain sv' where "supervisor_recover B (sv\<lparr>sv_backend := b, sv_mirror := observe r (sv_mirror sv)\<rparr>) = Some sv'"
      "sv_mirror sv' = observe r (sv_mirror sv)" "generations_ok (sv_generations sv')"
      "gs_max_abandoned (sv_generations sv') = gs_max_abandoned (sv_generations sv)"
      using recover_total[OF assms(1), of "sv\<lparr>sv_backend := b, sv_mirror := observe r (sv_mirror sv)\<rparr>"] ok(2) by auto
    then show thesis using Wedged d observe_refines[OF ok(1)]
      by (intro that[of "Err RequestTimeout" sv']) (simp_all add: request_def supervisor_ok_def)
  next
    case (Done reply)
    show thesis using Done d ok observe_refines[OF ok(1)]
      by (intro that[of "Ok reply" "sv\<lparr>sv_backend := b, sv_mirror := observe r (sv_mirror sv)\<rparr>"])
         (simp_all add: request_def supervisor_ok_def)
  next
    case (Status st)
    show thesis using Status d ok
      by (intro that[of "Err (Backend st)" "sv\<lparr>sv_backend := b\<rparr>"]) (simp_all add: request_def supervisor_ok_def)
  qed
qed

text \<open>The notifications that reached the instance, in order.\<close>
definition reached :: "pc_request list \<Rightarrow> (byte list, pc_error) outcome list \<Rightarrow> pc_request list" where
  "reached rs ress = map fst (filter (accepted \<circ> snd) (zip rs ress))"

lemma requests_total:
  assumes "clock_advances B"
  shows "supervisor_ok sv \<Longrightarrow> \<exists>ress sv'. requests B rs sv = Some (ress, sv') \<and> length ress = length rs \<and> supervisor_ok sv' \<and>
    mirror_view (sv_mirror sv') = fold apply_request (reached rs ress) (mirror_view (sv_mirror sv)) \<and>
    gs_max_abandoned (sv_generations sv') = gs_max_abandoned (sv_generations sv)"
proof (induction rs arbitrary: sv)
  case (Cons r rs)
  obtain res sv1 where r: "request B r sv = Some (res, sv1)" and ok: "supervisor_ok sv1"
    and view: "mirror_view (sv_mirror sv1) = (if accepted res then apply_request r (mirror_view (sv_mirror sv)) else mirror_view (sv_mirror sv))"
    and cap: "gs_max_abandoned (sv_generations sv1) = gs_max_abandoned (sv_generations sv)"
    using request_total[OF assms Cons.prems] by metis
  from Cons.IH[OF ok] obtain ress sv2 where "requests B rs sv1 = Some (ress, sv2)" "length ress = length rs" "supervisor_ok sv2"
    "mirror_view (sv_mirror sv2) = fold apply_request (reached rs ress) (mirror_view (sv_mirror sv1))"
    "gs_max_abandoned (sv_generations sv2) = gs_max_abandoned (sv_generations sv1)" by blast
  with r view cap show ?case by (simp add: reached_def)
qed (simp add: reached_def)

section \<open>Properties\<close>

text \<open>C35: every request is answered, and a fresh generation can be rebuilt from the mirror. Whatever the
  backend does, a sequence of requests gets one answer each; the replay plan then rebuilds, from nothing,
  exactly the state that the accepted and the timed-out notifications define, and the generation number
  counts the abandoned ones and stays within the cap.\<close>
theorem replay_rebuilds_state:
  assumes "clock_advances B"
  shows "\<exists>ress sv. requests B rs (supervisor_new b max_abandoned deadline grace) = Some (ress, sv) \<and>
    length ress = length rs \<and>
    replay (mirror_replay_plan (sv_mirror sv)) empty_view = fold apply_request (reached rs ress) empty_view \<and>
    gs_current (sv_generations sv) = gs_abandoned (sv_generations sv) \<and>
    gs_abandoned (sv_generations sv) \<le> max_abandoned"
proof -
  let ?sv0 = "supervisor_new b max_abandoned deadline grace"
  have "mirror_view (sv_mirror ?sv0) = empty_view" "gs_max_abandoned (sv_generations ?sv0) = max_abandoned"
    by (simp_all add: supervisor_new_def mirror_new_def mirror_view_def empty_view_def generations_new_def)
  with requests_total[OF assms supervisor_new_ok, of rs b max_abandoned deadline grace] show ?thesis
    by (fastforce simp: supervisor_ok_def generations_ok_def replay_plan_view)
qed

text \<open>C36: a wedged request returns and recovers. After any history, a request that overruns its deadline is
  answered with a timeout, its notification mirrored, and then the island is marked fatal, or the lane is
  idle again in the same generation, or the next generation has been spawned with the mirror's plan.\<close>
theorem wedged_request_recovers:
  assumes "clock_advances B"
    and "requests B rs (supervisor_new b max_abandoned deadline grace) = Some (ress, sv)"
    and "pb_dispatch B req (sv_request_deadline sv) (sv_backend sv) = (Wedged, b')"
  shows "\<exists>sv'. request B req sv = Some (Err RequestTimeout, sv') \<and> recovered B sv sv' \<and>
    mirror_view (sv_mirror sv') = apply_request req (mirror_view (sv_mirror sv)) \<and> (sv_fatal sv \<longrightarrow> sv_fatal sv')"
proof -
  let ?sv1 = "sv\<lparr>sv_backend := b', sv_mirror := observe req (sv_mirror sv)\<rparr>"
  have ok: "mirror_ok (sv_mirror sv)" "generations_ok (sv_generations sv)"
    using requests_total[OF assms(1) supervisor_new_ok, of rs b max_abandoned deadline grace] assms(2)
    by (auto simp: supervisor_ok_def)
  have "recovered B ?sv1 = recovered B sv" by (simp add: recovered_def fun_eq_iff)
  with recover_total[OF assms(1), of ?sv1] ok(2) obtain sv' where
    "supervisor_recover B ?sv1 = Some sv'" "recovered B sv sv'" "sv_mirror sv' = observe req (sv_mirror sv)" "sv_fatal sv \<longrightarrow> sv_fatal sv'"
    by auto
  then show ?thesis using observe_refines[OF ok(1)] assms(3) by (simp add: request_def)
qed

section \<open>A backend that wedges\<close>

text \<open>Its state is the clock and the number of requests left before it wedges; it never becomes idle.\<close>
definition stuck_backend :: "(nat \<times> nat) pc_backend" where
  "stuck_backend = \<lparr>
     pb_dispatch = (\<lambda>_ _ (now, left). if left = 0 then (Wedged, (now, 0)) else (Done [], (now, left - 1))),
     pb_restart_instances = (\<lambda>b. (0, b)), pb_lane_idle = (\<lambda>b. (False, b)), pb_spawn_generation = (\<lambda>_ _ b. (0, b)),
     pb_now = fst, pb_sleep = (\<lambda>(now, left). (now + 1, left))\<rparr>"

lemma stuck_clock: "clock_advances stuck_backend"
  by (auto simp: clock_advances_def stuck_backend_def)

definition sample_rs :: "pc_request list" where
  "sample_rs = [DidOpen (lit ''a'') (lit ''u'') (lit ''x''), DidChange (lit ''u'') (lit ''y'')]"

theorem replay_rebuilds_state_witness:
  "clock_advances stuck_backend \<and> (\<exists>ress sv. requests stuck_backend sample_rs (supervisor_new (0, 2) 4 50 5) = Some (ress, sv) \<and>
    replay (mirror_replay_plan (sv_mirror sv)) empty_view = fold apply_request (reached sample_rs ress) empty_view)"
  using replay_rebuilds_state[OF stuck_clock, of sample_rs "(0, 2)" 4 50 5] stuck_clock by blast

theorem wedged_request_recovers_witness:
  "\<exists>ress sv sv'. requests stuck_backend sample_rs (supervisor_new (0, 2) 4 50 5) = Some (ress, sv) \<and>
     request stuck_backend (DidClose (lit ''u'')) sv = Some (Err RequestTimeout, sv') \<and> recovered stuck_backend sv sv' \<and>
     pv_buffers (mirror_view (sv_mirror sv')) (lit ''u'') = None"
proof -
  obtain ress sv where run: "requests stuck_backend sample_rs (supervisor_new (0, 2) 4 50 5) = Some (ress, sv)"
    and left: "sv_backend sv = (0, 0)"
    by (auto simp: sample_rs_def request_def stuck_backend_def supervisor_new_def)
  have "pb_dispatch stuck_backend (DidClose (lit ''u'')) (sv_request_deadline sv) (sv_backend sv) = (Wedged, (0, 0))"
    by (simp add: stuck_backend_def left)
  from wedged_request_recovers[OF stuck_clock run this] run show ?thesis by fastforce
qed

end
