(* ===== verification/Md5.thy ===== *)
theory Md5
  imports Wire Sdb_Normalize
begin

text \<open>
  The digest and the freshness check of \<open>crates/ls-semanticdb/src/md5.rs\<close>. The tables and the four words of
  state are those of the source; a chunk is its list of bytes, and every table index is in range because the
  round number is.
\<close>

unbundle bit_operations_syntax

section \<open>The digest\<close>

definition md5_S :: "nat list" where
  "md5_S = concat (map (\<lambda>r. concat (replicate 4 r)) [[7, 12, 17, 22], [5, 9, 14, 20], [4, 11, 16, 23], [6, 10, 15, 21]])"

definition md5_K :: "u32 list" where
  "md5_K =
    [0xd76aa478, 0xe8c7b756, 0x242070db, 0xc1bdceee, 0xf57c0faf, 0x4787c62a, 0xa8304613,
     0xfd469501, 0x698098d8, 0x8b44f7af, 0xffff5bb1, 0x895cd7be, 0x6b901122, 0xfd987193,
     0xa679438e, 0x49b40821, 0xf61e2562, 0xc040b340, 0x265e5a51, 0xe9b6c7aa, 0xd62f105d,
     0x02441453, 0xd8a1e681, 0xe7d3fbc8, 0x21e1cde6, 0xc33707d6, 0xf4d50d87, 0x455a14ed,
     0xa9e3e905, 0xfcefa3f8, 0x676f02d9, 0x8d2a4c8a, 0xfffa3942, 0x8771f681, 0x6d9d6122,
     0xfde5380c, 0xa4beea44, 0x4bdecfa9, 0xf6bb4b60, 0xbebfbc70, 0x289b7ec6, 0xeaa127fa,
     0xd4ef3085, 0x04881d05, 0xd9d4d039, 0xe6db99e5, 0x1fa27cf8, 0xc4ac5665, 0xf4292244,
     0x432aff97, 0xab9423a7, 0xfc93a039, 0x655b59c3, 0x8f0ccc92, 0xffeff47d, 0x85845dd1,
     0x6fa87e4f, 0xfe2ce6e0, 0xa3014314, 0x4e0811a1, 0xf7537e82, 0xbd3af235, 0x2ad7d2bb,
     0xeb86d391]"

type_synonym md5_state = "u32 \<times> u32 \<times> u32 \<times> u32"

definition md5_init :: md5_state where
  "md5_init = (0x67452301, 0xefcdab89, 0x98badcfe, 0x10325476)"

text \<open>\<open>while data.len() % 64 != 56 { data.push(0) }\<close>\<close>
function pad_zeros :: "byte list \<Rightarrow> byte list" where
  "pad_zeros d = (if length d mod 64 = 56 then d else pad_zeros (d @ [0]))"
  by pat_completeness auto
termination
  by (relation "measure (\<lambda>d. let r = length d mod 64 in if r \<le> 56 then 56 - r else 120 - r)")
     (auto simp: mod_Suc Let_def)

declare pad_zeros.simps [simp del]

definition md5_padded :: "byte list \<Rightarrow> byte list" where
  "md5_padded msg = pad_zeros (msg @ [0x80]) @ le_bytes 8 (word_of_nat (length msg) * 8 :: u64)"

fun chunks_exact :: "nat \<Rightarrow> 'a list \<Rightarrow> 'a list list" where
  "chunks_exact n xs = (if n = 0 \<or> length xs < n then [] else take n xs # chunks_exact n (drop n xs))"

declare chunks_exact.simps [simp del]

definition md5_round :: "u32 list \<Rightarrow> nat \<Rightarrow> md5_state \<Rightarrow> md5_state" where
  "md5_round m i = (\<lambda>(a, b, c, d).
     let (f, g) = (if i < 16 then ((b AND c) OR (NOT b AND d), i)
                   else if i < 32 then ((d AND b) OR (NOT d AND c), (5 * i + 1) mod 16)
                   else if i < 48 then (b XOR c XOR d, (3 * i + 5) mod 16)
                   else (c XOR (b OR NOT d), (7 * i) mod 16));
         f' = f + a + md5_K ! i + m ! g
     in (d, b + word_rotl (md5_S ! i) f', b, c))"

definition md5_chunk :: "byte list \<Rightarrow> md5_state \<Rightarrow> md5_state" where
  "md5_chunk chunk = (\<lambda>(a0, b0, c0, d0).
     let m = map from_le (chunks_exact 4 chunk);
         (a, b, c, d) = fold (md5_round m) [0..<64] (a0, b0, c0, d0)
     in (a0 + a, b0 + b, c0 + c, d0 + d))"

definition md5_digest :: "byte list \<Rightarrow> byte list" where
  "md5_digest msg =
     (let (a, b, c, d) = fold md5_chunk (chunks_exact 64 (md5_padded msg)) md5_init
      in le_bytes 4 a @ le_bytes 4 b @ le_bytes 4 c @ le_bytes 4 d)"

definition HEX_UPPER :: "byte list" where
  "HEX_UPPER = lit ''0123456789ABCDEF''"

definition compute_hex :: "str \<Rightarrow> str" where
  "compute_hex txt =
     concat (map (\<lambda>b. [HEX_UPPER ! unat (drop_bit 4 b), HEX_UPPER ! unat (b AND 0xf)]) (md5_digest txt))"

section \<open>Freshness\<close>

datatype freshness_check = Fresh | MissingMd5 | Stale str str

fun is_fresh :: "freshness_check \<Rightarrow> bool" where
  "is_fresh Fresh = True"
| "is_fresh _ = False"

definition to_ascii_lowercase :: "byte \<Rightarrow> byte" where
  "to_ascii_lowercase b = (if 0x41 \<le> b \<and> b \<le> 0x5A then b OR 0x20 else b)"

definition eq_ignore_ascii_case :: "str \<Rightarrow> str \<Rightarrow> bool" where
  "eq_ignore_ascii_case s t \<longleftrightarrow> map to_ascii_lowercase s = map to_ascii_lowercase t"

definition validate_md5 :: "str \<Rightarrow> str \<Rightarrow> freshness_check" where
  "validate_md5 source_text document_md5 =
     (if document_md5 = [] then MissingMd5
      else let actual = compute_hex source_text
           in if eq_ignore_ascii_case actual document_md5 then Fresh else Stale document_md5 actual)"

definition validate_doc :: "str \<Rightarrow> sdb_document \<Rightarrow> freshness_check" where
  "validate_doc source_text doc = validate_md5 source_text (sdoc_md5 doc)"

definition validate_normalized :: "str \<Rightarrow> normalized_document \<Rightarrow> freshness_check" where
  "validate_normalized source_text doc = validate_md5 source_text (nd_md5 doc)"

section \<open>Shape\<close>

text \<open>The padded message is whole chunks, so \<open>chunks_exact\<close> drops nothing, and a round reads inside the tables.\<close>

lemma pad_zeros_length: "length (pad_zeros d) mod 64 = 56 \<and> prefix d (pad_zeros d)"
proof (induction d rule: pad_zeros.induct)
  case (1 d)
  show ?case
  proof (cases "length d mod 64 = 56")
    case True
    then show ?thesis by (simp add: pad_zeros.simps[of d])
  next
    case False
    with 1 show ?thesis by (auto simp: pad_zeros.simps[of d] prefix_def)
  qed
qed

lemma length_md5_padded: "length (md5_padded msg) mod 64 = 0" and md5_padded_prefix: "prefix msg (md5_padded msg)"
proof -
  let ?p = "pad_zeros (msg @ [0x80])"
  have "(length ?p + 8) mod 64 = (length ?p mod 64 + 8) mod 64" by (rule mod_add_left_eq[symmetric])
  also have "\<dots> = 0" using pad_zeros_length[of "msg @ [0x80]"] by simp
  finally show "length (md5_padded msg) mod 64 = 0" by (simp add: md5_padded_def)
  have "prefix (msg @ [0x80]) ?p" using pad_zeros_length by blast
  then show "prefix msg (md5_padded msg)" unfolding md5_padded_def by (auto simp: prefix_def)
qed

lemma chunks_exact_whole:
  assumes "0 < n"
  shows "length xs = k * n \<Longrightarrow>
    concat (chunks_exact n xs) = xs \<and> length (chunks_exact n xs) = k \<and> (\<forall>c \<in> set (chunks_exact n xs). length c = n)"
proof (induction k arbitrary: xs)
  case 0
  then have "chunks_exact n xs = []" using assms by (subst chunks_exact.simps) simp
  with 0 show ?case by simp
next
  case (Suc k)
  have "chunks_exact n xs = take n xs # chunks_exact n (drop n xs)"
    using Suc.prems assms by (subst chunks_exact.simps) simp
  moreover have "length (drop n xs) = k * n" "length (take n xs) = n" using Suc.prems by simp_all
  ultimately show ?case using Suc.IH[of "drop n xs"] by (metis append_take_drop_id concat.simps(2) length_Cons set_ConsD)
qed

lemma md5_tables: "length md5_S = 64" "length md5_K = 64"
  by (simp_all add: md5_S_def md5_K_def eval_nat_numeral)

lemma length_compute_hex: "length (compute_hex txt) = 32"
proof -
  have "length (md5_digest txt) = 16" by (simp add: md5_digest_def split: prod.split)
  moreover have "length (concat (map (\<lambda>b. [f b, g b]) bs)) = 2 * length bs" for f g :: "byte \<Rightarrow> byte" and bs
    by (induction bs) auto
  ultimately show ?thesis by (simp add: compute_hex_def)
qed

lemma compute_hex_ascii: "b \<in> set (compute_hex txt) \<Longrightarrow> b < 128"
proof -
  have "HEX_UPPER ! n < 128" if "n < 16" for n
  proof -
    have "length HEX_UPPER = 16" "list_all (\<lambda>b. b < 128) HEX_UPPER" by code_simp+
    then show ?thesis using that by (simp add: list_all_length)
  qed
  moreover have "unat (drop_bit 4 x) < 16" "unat (x AND 0xF) < 16" for x :: byte
  proof -
    have "unat x < 16 * 16" using unsigned_less[of x, where ?'a = nat] by simp
    then show "unat (drop_bit 4 x) < 16"
      by (simp add: drop_bit_eq_div unat_div less_mult_imp_div_less)
    have "x AND 0xF \<le> 0xF" by (rule word_and_le1)
    then show "unat (x AND 0xF) < 16" by (simp add: word_le_nat_alt)
  qed
  moreover assume "b \<in> set (compute_hex txt)"
  ultimately show ?thesis by (auto simp: compute_hex_def)
qed

end
