(* ===== verification/Locator.thy ===== *)
theory Locator
  imports Uri Proto_Wire "HOL-Library.List_Lexorder"
begin

text \<open>
  The file lookup of \<open>crates/ls-semanticdb/src/locator.rs\<close>: the files below a target root, and the map between
  a source-relative path and its \<open>.semanticdb\<close> file. The file system is a record of what the code asks of
  it: the files a recursive walk lists, whether a path is a file, what it holds, and the working directory.
  A path is its bytes, and comparing paths compares their components.
\<close>

section \<open>Paths and the file system\<close>

record file_system =
  fs_walk :: "str \<Rightarrow> str list"
  fs_is_file :: "str \<Rightarrow> bool"
  fs_read :: "str \<Rightarrow> byte list option"
  fs_current_dir :: str

text \<open>\<open>Path::join\<close>: an absolute path replaces the base.\<close>
definition path_join :: "str \<Rightarrow> str \<Rightarrow> str" where
  "path_join base rel =
     (if take 1 rel = [47] then rel
      else if base = [] \<or> last base = 47 then base @ rel
      else base @ 47 # rel)"

definition read_to_string :: "file_system \<Rightarrow> str \<Rightarrow> str option" where
  "read_to_string fs p = Option.bind (fs_read fs p) from_utf8"

text \<open>\<open>Path::starts_with\<close> and \<open>Path::strip_prefix\<close> work on whole components.\<close>
definition path_starts_with :: "str \<Rightarrow> str \<Rightarrow> bool" where
  "path_starts_with p base \<longleftrightarrow> prefix (components base) (components p)"

definition path_strip_prefix :: "str \<Rightarrow> str \<Rightarrow> str option" where
  "path_strip_prefix p base =
     (if path_starts_with p base then Some (render (drop (length (components base)) (components p))) else None)"

definition absolutize :: "file_system \<Rightarrow> str \<Rightarrow> str" where
  "absolutize fs p = (if take 1 p = [47] then p else path_join (fs_current_dir fs) p)"

definition lexical_step :: "component \<Rightarrow> component list \<Rightarrow> component list" where
  "lexical_step c out =
     (case c of
        CurDir \<Rightarrow> out
      | ParentDir \<Rightarrow> (if out \<noteq> [] \<and> (case last out of Normal _ \<Rightarrow> True | _ \<Rightarrow> False) then pop out else push out ParentDir)
      | _ \<Rightarrow> push out c)"

definition lexical_normalize :: "str \<Rightarrow> str" where
  "lexical_normalize p = render (fold lexical_step (components p) [])"

section \<open>The locator\<close>

definition SEMANTICDB_SUFFIX :: str where
  "SEMANTICDB_SUFFIX = lit ''.semanticdb''"

definition semanticdb_root_of :: "str \<Rightarrow> str" where
  "semanticdb_root_of targetroot = path_join (path_join targetroot (lit ''META-INF'')) (lit ''semanticdb'')"

text \<open>\<open>list_semanticdb_files\<close>: the walk lists the files below the root, nothing when it is not a directory.\<close>
definition list_semanticdb_files :: "file_system \<Rightarrow> str \<Rightarrow> str list" where
  "list_semanticdb_files fs targetroot =
     sort_key from_utf8_lossy
       (filter (\<lambda>p. fs_is_file fs p \<and> utf8_valid (last (split_on 47 p)) \<and> suffix SEMANTICDB_SUFFIX (last (split_on 47 p)))
         (fs_walk fs (semanticdb_root_of targetroot)))"

definition semanticdb_file_for :: "str \<Rightarrow> str \<Rightarrow> str sdb_result" where
  "semanticdb_file_for targetroot source_relative_path =
     (if source_relative_path = [] \<or> take 1 source_relative_path = [47]
      then Err (InvalidPath (lit ''source path must be relative: '' @ source_relative_path))
      else let resolved = lexical_normalize (path_join (semanticdb_root_of targetroot) (source_relative_path @ SEMANTICDB_SUFFIX));
               root = lexical_normalize (semanticdb_root_of targetroot)
           in if \<not> path_starts_with resolved root
              then Err (InvalidPath (lit ''source path escapes the semanticdb root: '' @ source_relative_path))
              else Ok resolved)"

definition source_relative_path_for :: "file_system \<Rightarrow> str \<Rightarrow> str \<Rightarrow> str option" where
  "source_relative_path_for fs targetroot semanticdb_file =
     (let abs = lexical_normalize (absolutize fs semanticdb_file);
          root = lexical_normalize (absolutize fs (semanticdb_root_of targetroot))
      in if \<not> path_starts_with abs root \<or> components abs = components root then None
         else case path_strip_prefix abs root of
             None \<Rightarrow> None
           | Some rel \<Rightarrow>
               let rel_str = from_utf8_lossy rel
               in if suffix SEMANTICDB_SUFFIX rel_str \<and> length SEMANTICDB_SUFFIX < length rel_str
                  then Some (take (length rel_str - length SEMANTICDB_SUFFIX) rel_str) else None)"

text \<open>The lookup never reports an error other than an invalid path, and never panics.\<close>
lemma semanticdb_file_for_total:
  "(\<exists>p. semanticdb_file_for root rel = Ok p) \<or> (\<exists>m. semanticdb_file_for root rel = Err (InvalidPath m))"
  by (auto simp: semanticdb_file_for_def Let_def)

end
