(* ===== verification/Engine_Targets.thy ===== *)
theory Engine_Targets
  imports Sdb_Profile
begin

text \<open>
  The workspace description of \<open>crates/ls-engine/src/targets.rs\<close>: the build targets in order, the index by
  id, the reverse dependency edges, and the breadth-first closures that bound which targets can reference a
  symbol and which a source can see. Paths are their bytes. A hash map is a map, a hash set a set; the only
  order the program observes is that of the target list and of the sorted dependents.
\<close>

section \<open>Operations\<close>

record target_spec =
  ts_bsp_id :: str
  ts_semanticdb_root :: str
  ts_sourceroot :: str
  ts_direct_deps :: "str list"
  ts_scala_version :: str
  ts_content_hash :: i64
  ts_options_hash :: i64
  ts_doc_facts :: "str \<Rightarrow> doc_facts"

definition target_spec_new :: "str \<Rightarrow> str \<Rightarrow> str \<Rightarrow> target_spec" where
  "target_spec_new bsp_id semanticdb_root sourceroot =
     \<lparr>ts_bsp_id = bsp_id, ts_semanticdb_root = semanticdb_root, ts_sourceroot = sourceroot, ts_direct_deps = [],
      ts_scala_version = lit ''3'', ts_content_hash = 0, ts_options_hash = 0, ts_doc_facts = (\<lambda>_. workspace_source)\<rparr>"

definition with_deps :: "str list \<Rightarrow> target_spec \<Rightarrow> target_spec" where
  "with_deps deps t = t\<lparr>ts_direct_deps := deps\<rparr>"

definition with_doc_facts :: "(str \<Rightarrow> doc_facts) \<Rightarrow> target_spec \<Rightarrow> target_spec" where
  "with_doc_facts f t = t\<lparr>ts_doc_facts := f\<rparr>"

record workspace_targets =
  ws_targets :: "target_spec list"
  ws_by_id :: "str \<rightharpoonup> nat"
  ws_reverse_edges :: "str \<rightharpoonup> str list"

text \<open>\<open>by_id\<close>, with the assertion that no id occurs twice.\<close>
definition index_targets :: "target_spec list \<Rightarrow> (str \<rightharpoonup> nat, 'e) outcome" where
  "index_targets ts =
     fold_o (\<lambda>(i, t) m. if m (ts_bsp_id t) = None then Ok (m(ts_bsp_id t \<mapsto> i)) else Panic) (enumerate 0 ts) Map.empty"

text \<open>\<open>entry(k).or_default()\<close> and \<open>get(k).unwrap_or_default()\<close> of a map to vectors.\<close>
definition or_default :: "('k \<rightharpoonup> 'v list) \<Rightarrow> 'k \<Rightarrow> 'v list" where
  "or_default m k = (case m k of Some v \<Rightarrow> v | None \<Rightarrow> [])"

text \<open>The dependencies of one target: each is entered once, and only when it is a target itself.\<close>
definition add_dependency :: "(str \<rightharpoonup> nat) \<Rightarrow> str \<Rightarrow> str \<Rightarrow> str set \<times> (str \<rightharpoonup> str list) \<Rightarrow> str set \<times> (str \<rightharpoonup> str list)" where
  "add_dependency by_id bsp_id dep = (\<lambda>(seen, acc).
     if dep \<in> seen then (seen, acc)
     else if by_id dep \<noteq> None
     then (insert dep seen, acc(dep \<mapsto> or_default acc dep @ [bsp_id]))
     else (insert dep seen, acc))"

definition add_target :: "(str \<rightharpoonup> nat) \<Rightarrow> target_spec \<Rightarrow> (str \<rightharpoonup> str list) \<Rightarrow> (str \<rightharpoonup> str list)" where
  "add_target by_id t acc = snd (fold (add_dependency by_id (ts_bsp_id t)) (ts_direct_deps t) ({}, acc))"

definition workspace_targets_new :: "target_spec list \<Rightarrow> (workspace_targets, 'e) outcome" where
  "workspace_targets_new ts =
     and_then (index_targets ts) (\<lambda>by_id.
       let acc = fold (add_target by_id) ts Map.empty
       in Ok \<lparr>ws_targets = ts, ws_by_id = by_id, ws_reverse_edges = map_option sort \<circ> acc\<rparr>)"

definition workspace_targets_empty :: "(workspace_targets, 'e) outcome" where
  "workspace_targets_empty = workspace_targets_new []"

definition spec_of :: "workspace_targets \<Rightarrow> str \<Rightarrow> target_spec option" where
  "spec_of ws bsp_id = map_option (\<lambda>i. ws_targets ws ! i) (ws_by_id ws bsp_id)"

definition dependents_of :: "workspace_targets \<Rightarrow> str \<Rightarrow> str list" where
  "dependents_of ws bsp_id = or_default (ws_reverse_edges ws) bsp_id"

text \<open>\<open>for nxt in next(&cur)\<close>: what is seen for the first time goes to the back of the queue.\<close>
definition visit :: "str \<Rightarrow> str set \<times> str list \<Rightarrow> str set \<times> str list" where
  "visit nxt = (\<lambda>(seen, queue). if nxt \<in> seen then (seen, queue) else (insert nxt seen, queue @ [nxt]))"

partial_function (option) closure_loop :: "(str \<Rightarrow> str list) \<Rightarrow> str set \<times> str list \<Rightarrow> str set option" where
  "closure_loop succs st =
     (case st of (seen, []) \<Rightarrow> Some seen
      | (seen, cur # queue) \<Rightarrow> closure_loop succs (fold visit (succs cur) (seen, queue)))"

definition closure :: "workspace_targets \<Rightarrow> str \<Rightarrow> (str \<Rightarrow> str list) \<Rightarrow> str set option" where
  "closure ws bsp_id succs =
     (if ws_by_id ws bsp_id = None then Some {} else closure_loop succs ({bsp_id}, [bsp_id]))"

definition reverse_dependency_closure :: "workspace_targets \<Rightarrow> str \<Rightarrow> str set option" where
  "reverse_dependency_closure ws bsp_id = closure ws bsp_id (dependents_of ws)"

definition known_deps :: "workspace_targets \<Rightarrow> str \<Rightarrow> str list" where
  "known_deps ws bsp_id =
     (case spec_of ws bsp_id of Some t \<Rightarrow> filter (\<lambda>d. ws_by_id ws d \<noteq> None) (ts_direct_deps t) | None \<Rightarrow> [])"

definition forward_dependency_closure :: "workspace_targets \<Rightarrow> str \<Rightarrow> str set option" where
  "forward_dependency_closure ws bsp_id = closure ws bsp_id (known_deps ws)"

definition facts_for :: "workspace_targets \<Rightarrow> str \<Rightarrow> str \<Rightarrow> doc_facts" where
  "facts_for ws bsp_id uri = (case spec_of ws bsp_id of Some t \<Rightarrow> ts_doc_facts t uri | None \<Rightarrow> workspace_source)"

section \<open>The breadth-first search\<close>

abbreviation succ_rel :: "(str \<Rightarrow> str list) \<Rightarrow> (str \<times> str) set" where
  "succ_rel succs \<equiv> {(a, b). b \<in> set (succs a)}"

lemma visit_simp: "visit n (seen, queue) = (if n \<in> seen then (seen, queue) else (insert n seen, queue @ [n]))"
  by (simp add: visit_def)

lemma fold_visit:
  assumes "fold visit ns (seen, queue) = (seen', queue')"
  shows "seen' = seen \<union> set ns" and "set queue' = set queue \<union> (set ns - seen)"
    and "seen' = seen \<Longrightarrow> queue' = queue"
proof -
  have "fold visit ns (seen, queue) = (seen', queue') \<Longrightarrow>
      seen' = seen \<union> set ns \<and> set queue' = set queue \<union> (set ns - seen) \<and> (seen' = seen \<longrightarrow> queue' = queue)" for ns
  proof (induction ns arbitrary: seen queue)
    case (Cons n ns)
    show ?case
    proof (cases "n \<in> seen")
      case True
      then show ?thesis using Cons by (auto simp: visit_simp)
    next
      case False
      then have "fold visit ns (insert n seen, queue @ [n]) = (seen', queue')" using Cons.prems by (simp add: visit_simp)
      from Cons.IH[OF this] False show ?thesis by auto
    qed
  qed simp
  with assms show "seen' = seen \<union> set ns" "set queue' = set queue \<union> (set ns - seen)" "seen' = seen \<Longrightarrow> queue' = queue"
    by blast+
qed

text \<open>Seen ids are reachable, waiting ids are seen, and the successors of what is done are seen.\<close>
definition search_inv :: "(str \<Rightarrow> str list) \<Rightarrow> str \<Rightarrow> str set \<Rightarrow> str list \<Rightarrow> bool" where
  "search_inv succs b seen queue \<longleftrightarrow>
     b \<in> seen \<and> seen \<subseteq> (succ_rel succs)\<^sup>* `` {b} \<and> set queue \<subseteq> seen \<and> (\<forall>x \<in> seen - set queue. set (succs x) \<subseteq> seen)"

lemma search_inv_step:
  assumes "search_inv succs b seen (cur # queue)" and "fold visit (succs cur) (seen, queue) = (seen', queue')"
  shows "search_inv succs b seen' queue'"
proof -
  have "cur \<in> (succ_rel succs)\<^sup>* `` {b}" using assms(1) by (auto simp: search_inv_def)
  then have "set (succs cur) \<subseteq> (succ_rel succs)\<^sup>* `` {b}" by (auto intro: rtrancl_into_rtrancl)
  then show ?thesis
    using assms(1) fold_visit(1,2)[OF assms(2)] unfolding search_inv_def by auto
qed

lemma search_inv_done:
  assumes "search_inv succs b seen []"
  shows "seen = (succ_rel succs)\<^sup>* `` {b}"
proof -
  have "x \<in> seen" if "(b, x) \<in> (succ_rel succs)\<^sup>*" for x
    using that by (induction rule: rtrancl_induct) (use assms in \<open>auto simp: search_inv_def\<close>)
  then show ?thesis using assms by (auto simp: search_inv_def)
qed

lemma closure_loop_correct:
  assumes "finite ((succ_rel succs)\<^sup>* `` {b})"
  shows "search_inv succs b seen queue \<Longrightarrow> closure_loop succs (seen, queue) = Some ((succ_rel succs)\<^sup>* `` {b})"
proof (induction "(card ((succ_rel succs)\<^sup>* `` {b} - seen), length queue)" arbitrary: seen queue
    rule: wf_induct_rule[OF wf_lex_prod[OF wf_less_than wf_less_than]])
  case less: (1 seen queue)
  show ?case
  proof (cases queue)
    case Nil
    then show ?thesis using search_inv_done less.prems by (subst closure_loop.simps) simp
  next
    case (Cons cur rest)
    obtain seen' queue' where fv: "fold visit (succs cur) (seen, rest) = (seen', queue')" by fastforce
    note inv = search_inv_step[OF less.prems[unfolded Cons] fv]
    have "seen \<subseteq> seen'" "seen' \<subseteq> (succ_rel succs)\<^sup>* `` {b}"
      using fold_visit(1)[OF fv] inv by (auto simp: search_inv_def)
    then have "((card ((succ_rel succs)\<^sup>* `` {b} - seen'), length queue'), (card ((succ_rel succs)\<^sup>* `` {b} - seen), length queue))
        \<in> less_than <*lex*> less_than"
      using fold_visit(3)[OF fv] assms Cons by (cases "seen' = seen") (auto intro!: psubset_card_mono)
    from less.hyps[OF this inv] show ?thesis using fv Cons by (subst closure_loop.simps) simp
  qed
qed

lemma closure_exact:
  assumes "finite V" and "b \<in> V" and "\<And>x. x \<in> V \<Longrightarrow> set (succs x) \<subseteq> V" and "ws_by_id ws b \<noteq> None"
  shows "closure ws b succs = Some ((succ_rel succs)\<^sup>* `` {b})"
proof -
  have "x \<in> V" if "(b, x) \<in> (succ_rel succs)\<^sup>*" for x
    using that by (induction rule: rtrancl_induct) (use assms(2,3) in auto)
  then have "finite ((succ_rel succs)\<^sup>* `` {b})" using finite_subset[OF _ assms(1)] by blast
  from closure_loop_correct[OF this] show ?thesis using assms(4) by (auto simp: closure_def search_inv_def)
qed

section \<open>The dependency graph\<close>

text \<open>Target \<open>a\<close> depends directly on target \<open>d\<close> of the same workspace.\<close>
definition depends :: "target_spec list \<Rightarrow> (str \<times> str) set" where
  "depends ts = {(ts_bsp_id t, d) | t d. t \<in> set ts \<and> d \<in> set (ts_direct_deps t) \<and> d \<in> ts_bsp_id ` set ts}"

lemma index_targets_from:
  "fold_o (\<lambda>(i, t) m. if m (ts_bsp_id t) = None then Ok (m(ts_bsp_id t \<mapsto> i)) else Panic) (enumerate n ts) m =
   (if distinct (map ts_bsp_id ts) \<and> (\<forall>t \<in> set ts. m (ts_bsp_id t) = None)
    then Ok (m ++ map_of (zip (map ts_bsp_id ts) [n..<n + length ts])) else Panic)"
proof (induction ts arbitrary: n m)
  case (Cons t ts)
  let ?rest = "map_of (zip (map ts_bsp_id ts) [Suc n..<Suc n + length ts])"
  have upt: "[n..<n + length (t # ts)] = n # [Suc n..<Suc n + length ts]"
    using upt_conv_Cons[of n "n + length (t # ts)"] by simp
  have upd: "m(ts_bsp_id t \<mapsto> n) ++ ?rest = m ++ ?rest(ts_bsp_id t \<mapsto> n)" if "ts_bsp_id t \<notin> ts_bsp_id ` set ts"
    using that by (subst map_add_upd_left) (simp_all add: dom_map_of_zip)
  show ?case
  proof (cases "m (ts_bsp_id t) = None \<and> ts_bsp_id t \<notin> ts_bsp_id ` set ts")
    case True
    then have "(\<forall>x \<in> set ts. (m(ts_bsp_id t \<mapsto> n)) (ts_bsp_id x) = None) \<longleftrightarrow> (\<forall>x \<in> set ts. m (ts_bsp_id x) = None)"
      by (auto simp: image_iff)
    with True upd show ?thesis unfolding upt by (simp add: Cons.IH del: upt_Suc fun_upd_apply)
  next
    case False
    then show ?thesis by (auto simp: Cons.IH)
  qed
qed simp

lemma index_targets_eq:
  "index_targets ts =
   (if distinct (map ts_bsp_id ts) then Ok (map_of (zip (map ts_bsp_id ts) [0..<length ts])) else Panic)"
  unfolding index_targets_def index_targets_from by simp

lemma index_targets_Some:
  assumes "index_targets ts = Ok by_id"
  shows "by_id b = None \<longleftrightarrow> b \<notin> ts_bsp_id ` set ts"
    and "by_id b = Some i \<Longrightarrow> i < length ts \<and> ts_bsp_id (ts ! i) = b"
proof -
  have m: "by_id = map_of (zip (map ts_bsp_id ts) [0..<length ts])"
    using assms by (simp add: index_targets_eq split: if_splits)
  show "by_id b = None \<longleftrightarrow> b \<notin> ts_bsp_id ` set ts"
    by (simp add: m map_of_zip_is_None)
  show "by_id b = Some i \<Longrightarrow> i < length ts \<and> ts_bsp_id (ts ! i) = b"
    unfolding m by (drule map_of_SomeD) (auto simp: in_set_zip)
qed

lemma or_default_simps [simp]:
  "or_default Map.empty k = []" "or_default (m(j \<mapsto> v)) k = (if k = j then v else or_default m k)"
  "set (or_default (map_option sort \<circ> m) k) = set (or_default m k)"
  by (simp_all add: or_default_def split: option.splits)

lemma add_dependency_simp: "add_dependency by_id b dep (seen, acc) =
  (insert dep seen, if dep \<notin> seen \<and> by_id dep \<noteq> None then acc(dep \<mapsto> or_default acc dep @ [b]) else acc)"
  by (auto simp: add_dependency_def)

lemma fold_add_dependency:
  "set (or_default (snd (fold (add_dependency by_id b) deps (seen, acc))) d) =
   set (or_default acc d) \<union> (if d \<in> set deps - seen \<and> by_id d \<noteq> None then {b} else {})"
  by (induction deps arbitrary: seen acc) (auto simp: add_dependency_simp)

lemma fold_add_target:
  "set (or_default (fold (add_target by_id) ts acc) d) =
   set (or_default acc d) \<union> {ts_bsp_id t | t. t \<in> set ts \<and> d \<in> set (ts_direct_deps t) \<and> by_id d \<noteq> None}"
  by (induction ts arbitrary: acc) (auto simp: add_target_def fold_add_dependency)

lemma workspace_edges:
  assumes "workspace_targets_new ts = (Ok ws :: (_, 'e) outcome)"
  shows "distinct (map ts_bsp_id ts)" and "ws_by_id ws b \<noteq> None \<longleftrightarrow> b \<in> ts_bsp_id ` set ts"
    and "succ_rel (dependents_of ws) = (depends ts)\<inverse>" and "succ_rel (known_deps ws) = depends ts"
proof -
  from assms obtain by_id where ix: "index_targets ts = (Ok by_id :: (_, 'e) outcome)"
    and ws: "ws = \<lparr>ws_targets = ts, ws_by_id = by_id, ws_reverse_edges = map_option sort \<circ> fold (add_target by_id) ts Map.empty\<rparr>"
    by (auto simp: workspace_targets_new_def and_then_eq_Ok Let_def)
  show distinct: "distinct (map ts_bsp_id ts)" using ix by (simp add: index_targets_eq split: if_splits)
  note known = index_targets_Some[OF ix]
  show "ws_by_id ws b \<noteq> None \<longleftrightarrow> b \<in> ts_bsp_id ` set ts" using known(1)[of b] by (auto simp: ws)
  have "set (dependents_of ws d) = set (or_default (fold (add_target by_id) ts Map.empty) d)" for d
    by (simp add: dependents_of_def ws)
  then show "succ_rel (dependents_of ws) = (depends ts)\<inverse>"
    by (auto simp: fold_add_target depends_def known(1))
  have "d \<in> set (known_deps ws a) \<longleftrightarrow> (a, d) \<in> depends ts" for a d
  proof (cases "by_id a")
    case None
    then show ?thesis using known(1)[of a] by (auto simp: known_deps_def spec_of_def ws depends_def)
  next
    case (Some i)
    note at = known(2)[OF Some]
    have "t = ts ! i" if "t \<in> set ts" "ts_bsp_id t = a" for t
      using at that distinct by (metis distinct_map in_set_conv_nth inj_onD nth_mem)
    then show ?thesis using at known(1)[of d] Some
      by (auto simp: known_deps_def spec_of_def ws depends_def)
  qed
  then show "succ_rel (known_deps ws) = depends ts" by auto
qed

lemma workspace_closures:
  assumes ok: "workspace_targets_new ts = (Ok ws :: (_, 'e) outcome)"
  shows "reverse_dependency_closure ws b = Some {t \<in> ts_bsp_id ` set ts. b \<in> ts_bsp_id ` set ts \<and> (t, b) \<in> (depends ts)\<^sup>*}"
    and "forward_dependency_closure ws b = Some {t \<in> ts_bsp_id ` set ts. b \<in> ts_bsp_id ` set ts \<and> (b, t) \<in> (depends ts)\<^sup>*}"
proof -
  note edges = workspace_edges[OF ok]
  let ?V = "ts_bsp_id ` set ts"
  have inV: "depends ts \<subseteq> ?V \<times> ?V" by (auto simp: depends_def)
  have star: "a \<in> ?V \<longleftrightarrow> t \<in> ?V" if "(a, t) \<in> (depends ts)\<^sup>*" for a t
    using that by (induction rule: rtrancl_induct) (use inV in auto)
  have succs: "x \<in> ?V \<Longrightarrow> set (dependents_of ws x) \<subseteq> ?V" "x \<in> ?V \<Longrightarrow> set (known_deps ws x) \<subseteq> ?V" for x
    using edges(3,4) inV by blast+
  have "reverse_dependency_closure ws b = Some {t \<in> ?V. b \<in> ?V \<and> (t, b) \<in> (depends ts)\<^sup>*} \<and>
      forward_dependency_closure ws b = Some {t \<in> ?V. b \<in> ?V \<and> (b, t) \<in> (depends ts)\<^sup>*}"
  proof (cases "b \<in> ?V")
    case True
    note ex = closure_exact[of ?V b, OF _ True _ edges(2)[THEN iffD2, OF True]]
    show ?thesis using True star
      by (auto simp: reverse_dependency_closure_def forward_dependency_closure_def ex[OF _ succs(1)] ex[OF _ succs(2)]
          edges(3,4) rtrancl_converse)
  next
    case False
    then show ?thesis using edges(2)[of b] by (auto simp: reverse_dependency_closure_def forward_dependency_closure_def closure_def)
  qed
  then show "reverse_dependency_closure ws b = Some {t \<in> ?V. b \<in> ?V \<and> (t, b) \<in> (depends ts)\<^sup>*}"
    and "forward_dependency_closure ws b = Some {t \<in> ?V. b \<in> ?V \<and> (b, t) \<in> (depends ts)\<^sup>*}" by blast+
qed

text \<open>C37: the closures are the reachable targets. A workspace is rejected exactly when an id occurs twice;
  otherwise both searches end, on cyclic graphs too, and return exactly the targets that transitively
  depend on the given one, respectively those it transitively depends on, itself included, and nothing for
  an unknown id.\<close>
theorem target_closures_exact:
  "case workspace_targets_new ts :: (_, unit) outcome of
     Ok ws \<Rightarrow> distinct (map ts_bsp_id ts) \<and>
       reverse_dependency_closure ws b = Some {t \<in> ts_bsp_id ` set ts. b \<in> ts_bsp_id ` set ts \<and> (t, b) \<in> (depends ts)\<^sup>*} \<and>
       forward_dependency_closure ws b = Some {t \<in> ts_bsp_id ` set ts. b \<in> ts_bsp_id ` set ts \<and> (b, t) \<in> (depends ts)\<^sup>*}
   | Err _ \<Rightarrow> False
   | Panic \<Rightarrow> \<not> distinct (map ts_bsp_id ts)"
proof (cases "workspace_targets_new ts :: (_, unit) outcome")
  case (Ok ws)
  then show ?thesis using workspace_edges(1)[OF Ok] workspace_closures[OF Ok] by simp
next
  case (Err e)
  then show ?thesis by (simp add: workspace_targets_new_def index_targets_eq Let_def split: if_splits)
next
  case Panic
  then show ?thesis by (simp add: workspace_targets_new_def index_targets_eq Let_def split: if_splits)
qed

end
