(* ===== verification/Engine_Codec.thy ===== *)
theory Engine_Codec
  imports Sdb_Symbols Wire "HOL-Library.List_Lexorder"
begin

text \<open>
  The persistent names and counters of the engine: stable ids (\<open>crates/ls-engine/src/hash.rs\<close>), the
  one-string encoding of symbol keys (\<open>symbol_encoding.rs\<close>) and the per-document ingest state that is
  carried from one generation to the next (\<open>state.rs\<close>).
\<close>

unbundle bit_operations_syntax

section \<open>Stable hashes\<close>

definition FNV_OFFSET :: u64 where "FNV_OFFSET = 0xcbf29ce484222325"
definition FNV_PRIME :: u64 where "FNV_PRIME = 0x00000100000001b3"

definition fnv_mix :: "u64 \<Rightarrow> u64 \<Rightarrow> u64" where
  "fnv_mix h b = (h XOR (b AND 0xff)) * FNV_PRIME"

definition fnv1a_64 :: "byte list \<Rightarrow> u64" where
  "fnv1a_64 bytes = fold (\<lambda>b h. fnv_mix h (ucast b)) bytes FNV_OFFSET"

definition doc_id_for :: "str \<Rightarrow> u64" where
  "doc_id_for uri = drop_bit 1 (fnv1a_64 uri)"

definition target_id_for :: "str \<Rightarrow> i64" where
  "target_id_for bsp_id = drop_bit 1 (fnv1a_64 bsp_id)"

definition symbol_id_for :: "symbol_key \<Rightarrow> i64" where
  "symbol_id_for key =
     (let h = fnv1a_64 (semantic_symbol key);
          h' = (case local_doc key of
                  Some v \<Rightarrow> fst (fold (\<lambda>_ (h, v). (fnv_mix h v, drop_bit 8 v)) [0..<8] (h, v))
                | None \<Rightarrow> h)
      in drop_bit 1 h')"

section \<open>Symbol keys as strings\<close>

definition SEP :: byte where "SEP = of_char CHR ''@''"

definition encode_key :: "symbol_key \<Rightarrow> str" where
  "encode_key key =
     (case local_doc key of
        Some doc \<Rightarrow> semantic_symbol key @ SEP # decimal (unat doc)
      | None \<Rightarrow> semantic_symbol key)"

definition encode_symbol :: "str \<Rightarrow> u64 option \<Rightarrow> str" where
  "encode_symbol sm local_doc_id =
     (case local_doc_id of
        Some i \<Rightarrow> if sym_is_local sm then sm @ SEP # decimal (unat i) else sm
      | None \<Rightarrow> sm)"

text \<open>\<open>parse::<u64>()\<close>: an optional plus sign, at least one digit, nothing else, no overflow.\<close>
definition is_digit :: "byte \<Rightarrow> bool" where
  "is_digit b \<longleftrightarrow> 48 \<le> b \<and> b \<le> 57"

definition digits_value :: "str \<Rightarrow> nat" where
  "digits_value ds = foldl (\<lambda>n d. 10 * n + unat (d - 48)) 0 ds"

definition parse_u64 :: "str \<Rightarrow> u64 option" where
  "parse_u64 s =
     (let ds = (if s \<noteq> [] \<and> hd s = of_char CHR ''+'' then tl s else s)
      in if ds \<noteq> [] \<and> list_all is_digit ds \<and> digits_value ds < 2 ^ 64 then Some (word_of_nat (digits_value ds)) else None)"

definition decode_symbol :: "str \<Rightarrow> str \<times> u64 option" where
  "decode_symbol encoded =
     (if prefix (lit ''local'') encoded
      then (case find_byte SEP encoded of
              Some at \<Rightarrow> if 0 < at
                then (case parse_u64 (drop (at + 1) encoded) of
                        Some doc_id \<Rightarrow> (take at encoded, Some doc_id)
                      | None \<Rightarrow> (encoded, None))
                else (encoded, None)
            | None \<Rightarrow> (encoded, None))
      else (encoded, None))"

definition to_key :: "str \<Rightarrow> symbol_key" where
  "to_key encoded =
     (case decode_symbol encoded of
        (raw, Some i) \<Rightarrow> symbol_key_local raw i
      | (raw, None) \<Rightarrow> symbol_key_global raw)"

section \<open>Ingest state\<close>

record doc_state =
  ds_epoch :: i32
  ds_md5 :: str

text \<open>A \<open>BTreeMap\<close>: a map that iterates in key order.\<close>
type_synonym ingest_state = "str \<rightharpoonup> doc_state"

definition INGEST_MAGIC :: u32 where "INGEST_MAGIC = 0x4c535354"

definition put_str :: "str \<Rightarrow> byte list" where
  "put_str s = put_u32 (word_of_nat (length s)) @ s"

definition put_doc :: "str \<times> doc_state \<Rightarrow> byte list" where
  "put_doc = (\<lambda>(uri, st). put_str uri @ put_i32 (ds_epoch st) @ put_str (ds_md5 st))"

definition state_entries :: "ingest_state \<Rightarrow> (str \<times> doc_state) list" where
  "state_entries m = map (\<lambda>k. (k, the (m k))) (sorted_list_of_set (dom m))"

definition state_encode :: "ingest_state \<Rightarrow> byte list" where
  "state_encode m =
     put_u32 INGEST_MAGIC @ put_u32 (word_of_nat (card (dom m))) @ concat (map put_doc (state_entries m))"

text \<open>The cursor: a read returns \<open>None\<close> at the end of the bytes and moves on otherwise.\<close>
definition cur_take :: "nat \<Rightarrow> byte list \<Rightarrow> nat \<Rightarrow> (byte list \<times> nat) option" where
  "cur_take n bytes at = (if length bytes < at + n then None else Some (take n (drop at bytes), at + n))"

definition cur_u32 :: "byte list \<Rightarrow> nat \<Rightarrow> (u32 \<times> nat) option" where
  "cur_u32 bytes at = map_option (\<lambda>(b, at'). (from_le b, at')) (cur_take 4 bytes at)"

definition cur_i32 :: "byte list \<Rightarrow> nat \<Rightarrow> (i32 \<times> nat) option" where
  "cur_i32 bytes at = cur_u32 bytes at"

definition cur_str :: "byte list \<Rightarrow> nat \<Rightarrow> (str \<times> nat) option" where
  "cur_str bytes at =
     Option.bind (cur_u32 bytes at) (\<lambda>(len, at1).
     Option.bind (cur_take (unat len) bytes at1) (\<lambda>(b, at2).
       map_option (\<lambda>s. (s, at2)) (from_utf8 b)))"

definition cur_doc :: "byte list \<Rightarrow> nat \<Rightarrow> ((str \<times> doc_state) \<times> nat) option" where
  "cur_doc bytes at =
     Option.bind (cur_str bytes at) (\<lambda>(uri, at1).
     Option.bind (cur_i32 bytes at1) (\<lambda>(epoch, at2).
     Option.bind (cur_str bytes at2) (\<lambda>(md5, at3).
       Some ((uri, \<lparr>ds_epoch = epoch, ds_md5 = md5\<rparr>), at3))))"

fun decode_docs :: "nat \<Rightarrow> byte list \<Rightarrow> nat \<Rightarrow> ingest_state \<Rightarrow> ingest_state" where
  "decode_docs 0 bytes at m = m"
| "decode_docs (Suc n) bytes at m =
     (case cur_doc bytes at of
        None \<Rightarrow> m
      | Some ((uri, st), at') \<Rightarrow> decode_docs n bytes at' (m(uri \<mapsto> st)))"

definition state_decode :: "byte list \<Rightarrow> ingest_state" where
  "state_decode bytes =
     (case cur_u32 bytes 0 of
        None \<Rightarrow> Map.empty
      | Some (magic, at1) \<Rightarrow>
          if magic \<noteq> INGEST_MAGIC then Map.empty
          else case cur_u32 bytes at1 of
              None \<Rightarrow> Map.empty
            | Some (n, at2) \<Rightarrow> decode_docs (unat n) bytes at2 Map.empty)"

section \<open>Keys round-trip\<close>

lemma decimal_is_number: "list_all is_digit (decimal n) \<and> decimal n \<noteq> [] \<and> digits_value (decimal n) = n"
proof (induction n rule: decimal.induct)
  case (1 n)
  have digit: "is_digit (word_of_nat (48 + d)) \<and> unat ((word_of_nat (48 + d) :: byte) - 48) = d" if "d < 10" for d :: nat
  proof -
    have "unat (word_of_nat (48 + d) :: byte) = 48 + d" unfolding unat_of_nat using that by simp
    moreover have "(word_of_nat (48 + d) :: byte) - 48 = word_of_nat d" by simp
    moreover have "unat (word_of_nat d :: byte) = d" using that by (simp add: unat_of_nat)
    ultimately show ?thesis using that by (simp add: is_digit_def word_le_nat_alt)
  qed
  show ?case
  proof (cases "n < 10")
    case True
    with digit show ?thesis by (subst (1 2 3) decimal.simps) (simp add: digits_value_def)
  next
    case False
    note IH = 1[OF False]
    have "n mod 10 < 10" by simp
    note d = digit[OF this]
    show ?thesis using False IH d by (subst (1 2 3) decimal.simps) (simp add: digits_value_def)
  qed
qed

lemma parse_decimal: "parse_u64 (decimal (unat d)) = Some d"
proof -
  have "is_digit (hd (decimal (unat d)))"
    using decimal_is_number[of "unat d"] by (cases "decimal (unat d)") auto
  then have "hd (decimal (unat d)) \<noteq> of_char CHR ''+''" by (auto simp: is_digit_def)
  moreover have "unat d < 2 ^ 64" using unsigned_less[of d] by simp
  ultimately show ?thesis using decimal_is_number[of "unat d"] by (simp add: parse_u64_def)
qed

text \<open>What SemanticDB guarantees of the keys: a local symbol is \<open>local\<close> and more without the separator, a
  global one ends in descriptor punctuation, so not in a digit.\<close>
definition key_ok :: "symbol_key \<Rightarrow> bool" where
  "key_ok k \<longleftrightarrow>
     (case local_doc k of
        Some _ \<Rightarrow> prefix (lit ''local'') (semantic_symbol k) \<and> SEP \<notin> set (semantic_symbol k)
      | None \<Rightarrow> semantic_symbol k = [] \<or> \<not> is_digit (last (semantic_symbol k)))"

lemma find_byte_append: "c \<notin> set xs \<Longrightarrow> find_byte c (xs @ c # ys) = Some (length xs)"
  by (induction xs) auto

lemma parse_u64_last: "parse_u64 s = Some v \<Longrightarrow> is_digit (last s)"
  by (cases s) (auto simp: parse_u64_def Let_def list_all_iff split: if_splits)

lemma to_key_encode:
  assumes "key_ok k"
  shows "to_key (encode_key k) = k"
proof (cases "local_doc k")
  case (Some d)
  then have loc: "prefix (lit ''local'') (semantic_symbol k)" "SEP \<notin> set (semantic_symbol k)"
    using assms by (auto simp: key_ok_def)
  moreover from loc(1) have "semantic_symbol k \<noteq> []" by (auto simp: lit_def)
  moreover have "prefix (lit ''local'') (encode_key k)" using loc(1) Some by (auto simp: encode_key_def)
  ultimately show ?thesis using Some
    by (auto simp: to_key_def decode_symbol_def encode_key_def find_byte_append parse_decimal symbol_key_local_def)
next
  case None
  have "parse_u64 (drop (Suc i) (semantic_symbol k)) = None" for i
  proof (rule ccontr)
    assume "parse_u64 (drop (Suc i) (semantic_symbol k)) \<noteq> None"
    then obtain v where v: "parse_u64 (drop (Suc i) (semantic_symbol k)) = Some v" by blast
    then have "drop (Suc i) (semantic_symbol k) \<noteq> []" by (auto simp: parse_u64_def Let_def)
    then show False using parse_u64_last[OF v] assms None by (auto simp: key_ok_def)
  qed
  then have "decode_symbol (semantic_symbol k) = (semantic_symbol k, None)"
    by (simp add: decode_symbol_def split: option.split)
  then show ?thesis using None by (simp add: to_key_def encode_key_def symbol_key_global_def)
qed

text \<open>Symbol keys survive their encoding as dictionary strings, so distinct keys have distinct entries.\<close>
theorem symbol_key_round_trip:
  assumes "key_ok k"
  shows "to_key (encode_key k) = k"
  using assms by (rule to_key_encode)

theorem symbol_key_round_trip_witness:
  "key_ok (symbol_key_local (lit ''local12'') 42) \<and> to_key (lit ''local12@42'') = symbol_key_local (lit ''local12'') 42"
proof -
  have ok: "key_ok (symbol_key_local (lit ''local12'') 42)"
    by (simp add: key_ok_def symbol_key_local_def lit_def SEP_def prefix_def)
  have "encode_key (symbol_key_local (lit ''local12'') 42) = lit ''local12@42''"
    by (simp add: encode_key_def symbol_key_local_def lit_def SEP_def decimal.simps)
  with symbol_key_round_trip[OF ok] ok show ?thesis by simp
qed

section \<open>The ingest state\<close>

text \<open>Reading more bytes never changes what was read.\<close>
definition stable :: "(byte list \<Rightarrow> nat \<Rightarrow> ('a \<times> nat) option) \<Rightarrow> bool" where
  "stable f \<longleftrightarrow> (\<forall>p q i r. f p i = Some r \<longrightarrow> f (p @ q) i = Some r)"

lemma stable_bind:
  assumes "stable f" and "\<And>x. stable (g x)"
  shows "stable (\<lambda>b i. Option.bind (f b i) (\<lambda>(x, j). g x b j))"
  unfolding stable_def
proof (intro allI impI)
  fix p q :: "byte list" and i r
  assume "Option.bind (f p i) (\<lambda>(x, j). g x p j) = Some r"
  then obtain x j where "f p i = Some (x, j)" "g x p j = Some r" by (auto simp: bind_eq_Some_conv)
  then have "f (p @ q) i = Some (x, j)" "g x (p @ q) j = Some r" using assms unfolding stable_def by blast+
  then show "Option.bind (f (p @ q) i) (\<lambda>(x, j). g x (p @ q) j) = Some r" by simp
qed

lemma stable_take: "stable (cur_take n)"
  by (auto simp: stable_def cur_take_def split: if_splits)

lemma stable_done: "stable (\<lambda>b i. map_option (\<lambda>s. (s, i)) x)"
  by (simp add: stable_def)

lemma stable_Some: "stable (\<lambda>b i. Some (x, i))"
  by (simp add: stable_def)

lemma stable_u32: "stable cur_u32"
  using stable_take[of 4] unfolding stable_def cur_u32_def by auto

lemma stable_str: "stable cur_str"
  unfolding cur_str_def[abs_def] by (intro stable_bind stable_u32 stable_take stable_done)

lemma stable_doc: "stable cur_doc"
  unfolding cur_doc_def[abs_def] cur_i32_def by (intro stable_bind stable_u32 stable_str stable_Some)

lemma cur_doc_mono: "cur_doc p i = Some r \<Longrightarrow> cur_doc (p @ q) i = Some r"
  using stable_doc unfolding stable_def by blast

lemma cur_u32_here: "cur_u32 (pre @ put_u32 v @ post) (length pre) = Some (v, length pre + 4)"
  by (simp add: cur_u32_def cur_take_def put_u32_def from_le_le_bytes)

lemma cur_i32_here: "cur_i32 (pre @ put_i32 v @ post) (length pre) = Some (v, length pre + 4)"
  using cur_u32_here by (simp add: cur_i32_def put_u32_i32)

definition str_ok :: "str \<Rightarrow> bool" where
  "str_ok s \<longleftrightarrow> utf8_valid s \<and> length s < 2 ^ 32"

lemma cur_str_here:
  assumes "str_ok s"
  shows "cur_str (pre @ put_str s @ post) (length pre) = Some (s, length pre + length (put_str s))"
proof -
  have "unat (word_of_nat (length s) :: u32) = length s" using assms by (simp add: str_ok_def unat_of_nat)
  then show ?thesis
    using assms cur_u32_here[of pre "word_of_nat (length s)" "s @ post"]
    by (simp add: cur_str_def put_str_def cur_take_def str_ok_def from_utf8_def)
qed

definition entry_ok :: "str \<times> doc_state \<Rightarrow> bool" where
  "entry_ok e \<longleftrightarrow> str_ok (fst e) \<and> str_ok (ds_md5 (snd e))"

lemma cur_doc_here:
  assumes "entry_ok e"
  shows "cur_doc (pre @ put_doc e @ post) (length pre) = Some (e, length pre + length (put_doc e))"
proof -
  obtain uri st where e: "e = (uri, st)" by (cases e)
  show ?thesis
    using assms cur_str_here[of uri pre "put_i32 (ds_epoch st) @ put_str (ds_md5 st) @ post"]
      cur_i32_here[of "pre @ put_str uri" "ds_epoch st" "put_str (ds_md5 st) @ post"]
      cur_str_here[of "ds_md5 st" "pre @ put_str uri @ put_i32 (ds_epoch st)" post]
    by (simp add: cur_doc_def put_doc_def e entry_ok_def add.assoc)
qed

lemma cur_doc_bound: "cur_doc bytes i = Some (e, j) \<Longrightarrow> j \<le> length bytes"
  by (auto simp: cur_doc_def cur_str_def cur_take_def bind_eq_Some_conv split: if_splits)

text \<open>Decoding whatever is left of an encoded list of entries: a prefix of them.\<close>
lemma decode_docs_prefix:
  assumes "\<forall>e \<in> set es. entry_ok e" and "prefix bytes (pre @ concat (map put_doc es))" and "length pre \<le> length bytes"
  shows "\<exists>k. decode_docs (length es) bytes (length pre) m = m ++ map_of (rev (take k es)) \<and>
    (bytes = pre @ concat (map put_doc es) \<longrightarrow> k = length es)"
  using assms
proof (induction es arbitrary: pre m)
  case (Cons e es)
  obtain q where q: "pre @ concat (map put_doc (e # es)) = bytes @ q" using Cons.prems(2) by (auto simp: prefix_def)
  have here: "cur_doc (bytes @ q) (length pre) = Some (e, length (pre @ put_doc e))"
    using cur_doc_here[of e pre "concat (map put_doc es)"] Cons.prems(1) by (simp flip: q)
  show ?case
  proof (cases "cur_doc bytes (length pre)")
    case None
    then have "bytes \<noteq> pre @ concat (map put_doc (e # es))" using here q by auto
    with None show ?thesis by (intro exI[of _ 0]) simp
  next
    case (Some r)
    with cur_doc_mono[OF Some, of q] here have r: "cur_doc bytes (length pre) = Some (e, length (pre @ put_doc e))" by simp
    obtain uri st where e: "e = (uri, st)" by (cases e)
    have "length (pre @ put_doc e) \<le> length bytes" using cur_doc_bound[OF r] .
    moreover have "\<forall>x \<in> set es. entry_ok x" "prefix bytes ((pre @ put_doc e) @ concat (map put_doc es))"
      using Cons.prems(1,2) by simp_all
    ultimately obtain k where
      "decode_docs (length es) bytes (length (pre @ put_doc e)) (m(uri \<mapsto> st)) = m(uri \<mapsto> st) ++ map_of (rev (take k es))"
      "bytes = (pre @ put_doc e) @ concat (map put_doc es) \<longrightarrow> k = length es" using Cons.IH by blast
    then show ?thesis using r e by (intro exI[of _ "Suc k"]) simp
  qed
qed simp

definition state_ok :: "ingest_state \<Rightarrow> bool" where
  "state_ok m \<longleftrightarrow> finite (dom m) \<and> card (dom m) < 2 ^ 32 \<and> (\<forall>e \<in> set (state_entries m). entry_ok e)"

lemma map_of_state_entries: "finite (dom m) \<Longrightarrow> map_of (state_entries m) = m"
  by (auto simp: state_entries_def map_of_map_restrict restrict_map_def dom_def fun_eq_iff)

lemma map_of_rev_take:
  assumes "distinct (map fst es)"
  shows "map_of (rev (take k es)) \<subseteq>\<^sub>m map_of es"
proof -
  have "map_of (rev (take k es)) x = Some y \<Longrightarrow> (x, y) \<in> set es" for x y
    by (auto dest!: map_of_SomeD dest: in_set_takeD)
  then show ?thesis using assms by (fastforce simp: map_le_def dom_def)
qed

lemma state_decode_encode:
  assumes "state_ok m"
  shows "state_decode (state_encode m) = m \<and> (\<forall>n. state_decode (take n (state_encode m)) \<subseteq>\<^sub>m m)"
proof -
  let ?es = "state_entries m" and ?hdr = "put_u32 INGEST_MAGIC @ put_u32 (word_of_nat (card (dom m)))"
  have fin: "finite (dom m)" and es: "\<forall>e \<in> set ?es. entry_ok e" and "card (dom m) < 2 ^ 32"
    using assms by (auto simp: state_ok_def)
  then have cnt: "unat (word_of_nat (card (dom m)) :: u32) = length ?es"
    by (simp add: state_entries_def unat_of_nat)
  have dist: "distinct (map fst ?es)" by (simp add: state_entries_def comp_def)
  have "\<exists>k. state_decode b = map_of (rev (take k ?es)) \<and> (b = state_encode m \<longrightarrow> k = length ?es)"
    if b: "prefix b (state_encode m)" for b
  proof -
    obtain q where q: "state_encode m = b @ q" using b by (auto simp: prefix_def)
    have magic: "cur_u32 (b @ q) 0 = Some (INGEST_MAGIC, 4)"
      using cur_u32_here[of "[]" INGEST_MAGIC] by (simp add: state_encode_def flip: q)
    have count: "cur_u32 (b @ q) 4 = Some (word_of_nat (card (dom m)), 8)"
      using cur_u32_here[of "put_u32 INGEST_MAGIC"] by (simp add: state_encode_def flip: q)
    have st: "cur_u32 b i = Some r \<Longrightarrow> cur_u32 (b @ q) i = Some r" for i r
      using stable_u32 unfolding stable_def by blast
    consider "cur_u32 b 0 = None \<or> cur_u32 b 4 = None" | "cur_u32 b 0 \<noteq> None" "cur_u32 b 4 \<noteq> None" by blast
    then show ?thesis
    proof cases
      case 1
      then have "state_decode b = Map.empty"
        using st[of 0] magic by (auto simp: state_decode_def split: option.splits)
      moreover have "b \<noteq> state_encode m" using 1 q magic count by auto
      ultimately show ?thesis by (intro exI[of _ 0]) simp
    next
      case 2
      then have "cur_u32 b 0 = Some (INGEST_MAGIC, 4)" "cur_u32 b 4 = Some (word_of_nat (card (dom m)), 8)"
        using st[of 0] st[of 4] magic count by force+
      then have "state_decode b = decode_docs (length ?es) b (length ?hdr) Map.empty" "length ?hdr \<le> length b"
        by (auto simp: state_decode_def cnt cur_u32_def cur_take_def split: if_splits)
      then show ?thesis
        using decode_docs_prefix[OF es, of b ?hdr Map.empty] b by (simp add: state_encode_def)
    qed
  qed
  note part = this
  have "state_decode (state_encode m) = m"
    using part[of "state_encode m"] map_of_rev_distinct[OF dist] map_of_state_entries[OF fin] by auto
  moreover have "state_decode (take n (state_encode m)) \<subseteq>\<^sub>m m" for n
    using part[OF take_is_prefix, of n] map_of_rev_take[OF dist] map_of_state_entries[OF fin] by metis
  ultimately show ?thesis by blast
qed

text \<open>C38: the ingest state survives its encoding, and a truncated one decodes to a part of it. Whatever a
  cut leaves of the bytes, no document gets an epoch or digest that was not recorded for it.\<close>
theorem ingest_state_round_trip:
  assumes "state_ok m"
  shows "state_decode (state_encode m) = m \<and> (\<forall>n. state_decode (take n (state_encode m)) \<subseteq>\<^sub>m m)"
  using assms by (rule state_decode_encode)

definition sample_state :: ingest_state where
  "sample_state = [lit ''b.scala'' \<mapsto> \<lparr>ds_epoch = 2, ds_md5 = lit ''FF''\<rparr>]"

theorem ingest_state_round_trip_witness:
  "state_ok sample_state \<and> state_decode (state_encode sample_state) = sample_state \<and>
   state_decode (take 10 (state_encode sample_state)) \<subseteq>\<^sub>m sample_state"
proof -
  have "state_ok sample_state"
    by (simp add: state_ok_def state_entries_def sample_state_def entry_ok_def str_ok_def utf8_valid_ascii lit_def)
  with ingest_state_round_trip[OF this] show ?thesis by blast
qed

end
