(* ===== verification/Engine_Ingest.thy ===== *)
theory Engine_Ingest
  imports Md5 Locator Engine_Targets Engine_Codec Segment_Writer Fuzzy_Rank Sdb_Profile
begin

text \<open>
  The full-generation ingest, \<open>crates/ls-engine/src/ingest.rs\<close>: reading every target's SemanticDB files,
  electing the primary document of each uri, and materialising the batch as the data of one segment.

  A hash map is a map; the vector of keys is sorted
  before use, so the order in which a map lists its keys does not show. Postings are indexed vectors, and an
  index out of range or a missing key is a panic. The ingest hands the data, the encoded state and the
  counters of its report to \<open>publish\<close> (\<open>Store\<close>).
\<close>

unbundle bit_operations_syntax

section \<open>Reading files\<close>

definition parse_file :: "file_system \<Rightarrow> str \<Rightarrow> sdb_documents sdb_result" where
  "parse_file fs p = (case fs_read fs p of Some bytes \<Rightarrow> parse_text_documents bytes | None \<Rightarrow> Err (Io []))"

section \<open>Collecting the documents\<close>

record primary_doc =
  pd_uri :: str
  pd_doc_id :: u64
  pd_epoch :: i32
  pd_target_ord :: nat
  pd_facts :: doc_facts
  pd_sdb :: sdb_document
  pd_source_text :: str

record collected =
  co_primaries :: "primary_doc list"
  co_primary_index :: "str \<rightharpoonup> nat"
  co_shared_count :: nat
  co_stale_uris :: "str list"
  co_skipped_uris :: "str list"
  co_parse_errors :: "(str \<times> semanticdb_error) list"
  co_new_state :: ingest_state

definition collected_empty :: collected where
  "collected_empty = \<lparr>co_primaries = [], co_primary_index = Map.empty, co_shared_count = 0, co_stale_uris = [],
     co_skipped_uris = [], co_parse_errors = [], co_new_state = Map.empty\<rparr>"

text \<open>The epoch of a document: kept while its digest is unchanged, bumped when it changes.\<close>
definition next_epoch :: "ingest_state \<Rightarrow> str \<Rightarrow> str \<Rightarrow> i32" where
  "next_epoch prev uri md5 =
     (case prev uri of
        Some p \<Rightarrow> if ds_md5 p = md5 then ds_epoch p else ds_epoch p + 1
      | None \<Rightarrow> 1)"

definition collect_document :: "file_system \<Rightarrow> ingest_state \<Rightarrow> nat \<Rightarrow> target_spec \<Rightarrow> sdb_document \<Rightarrow> collected \<Rightarrow> collected" where
  "collect_document fs prev target_ord spec sdb c =
     (let uri = sdoc_uri sdb; source_path = path_join (ts_sourceroot spec) uri
      in if \<not> fs_is_file fs source_path then c\<lparr>co_skipped_uris := co_skipped_uris c @ [uri]\<rparr>
         else case read_to_string fs source_path of
             None \<Rightarrow> c\<lparr>co_skipped_uris := co_skipped_uris c @ [uri]\<rparr>
           | Some source_text \<Rightarrow>
               let c1 = (if is_fresh (validate_doc source_text sdb) then c else c\<lparr>co_stale_uris := co_stale_uris c @ [uri]\<rparr>);
                   facts = ts_doc_facts spec uri
               in if co_primary_index c1 uri \<noteq> None then c1\<lparr>co_shared_count := co_shared_count c1 + 1\<rparr>
                  else let epoch = next_epoch prev uri (sdoc_md5 sdb)
                       in c1\<lparr>co_new_state := (co_new_state c1)(uri \<mapsto> \<lparr>ds_epoch = epoch, ds_md5 = sdoc_md5 sdb\<rparr>),
                             co_primary_index := (co_primary_index c1)(uri \<mapsto> length (co_primaries c1)),
                             co_primaries := co_primaries c1 @
                               [\<lparr>pd_uri = uri, pd_doc_id = doc_id_for uri, pd_epoch = epoch, pd_target_ord = target_ord,
                                 pd_facts = facts, pd_sdb = sdb, pd_source_text = source_text\<rparr>]\<rparr>)"

definition collect_file :: "file_system \<Rightarrow> ingest_state \<Rightarrow> nat \<Rightarrow> target_spec \<Rightarrow> str \<Rightarrow> collected \<Rightarrow> (collected, unit) outcome" where
  "collect_file fs prev target_ord spec file_path c =
     (case parse_file fs file_path of
        Ok documents \<Rightarrow> Ok (fold (collect_document fs prev target_ord spec) documents c)
      | Err e \<Rightarrow> Ok (c\<lparr>co_parse_errors := co_parse_errors c @ [(file_path, e)]\<rparr>)
      | Panic \<Rightarrow> Panic)"

definition collect :: "file_system \<Rightarrow> ingest_state \<Rightarrow> target_spec list \<Rightarrow> (collected, unit) outcome" where
  "collect fs prev specs =
     fold_o (\<lambda>(target_ord, spec). fold_o (collect_file fs prev target_ord spec) (list_semanticdb_files fs (ts_semanticdb_root spec)))
       (enumerate 0 specs) collected_empty"

section \<open>Materialising the batch\<close>

definition occ_flags_for :: "occurrence \<Rightarrow> doc_facts \<Rightarrow> i32" where
  "occ_flags_for oc facts =
     (if oc_role oc = Definition then DEFINITION else 0) OR (if doc_editable facts then EDITABLE else 0) OR
     (if df_generated facts then GENERATED else 0) OR (if df_readonly facts then READONLY else 0) OR
     (if oc_synthetic oc then SYNTHETIC else 0)"

fun workspace_symbol_kind :: "sym_kind \<Rightarrow> bool" where
  "workspace_symbol_kind SymClass = True"
| "workspace_symbol_kind Trait = True"
| "workspace_symbol_kind Interface = True"
| "workspace_symbol_kind Object = True"
| "workspace_symbol_kind PackageObject = True"
| "workspace_symbol_kind Method = True"
| "workspace_symbol_kind Macro = True"
| "workspace_symbol_kind SymType = True"
| "workspace_symbol_kind Field = True"
| "workspace_symbol_kind _ = False"

fun split_inclusive :: "byte \<Rightarrow> str \<Rightarrow> str list" where
  "split_inclusive c [] = []"
| "split_inclusive c (b # bs) =
     (if b = c then [b] # split_inclusive c bs
      else case split_inclusive c bs of [] \<Rightarrow> [[b]] | l # ls \<Rightarrow> (b # l) # ls)"

definition token_at :: "str list \<Rightarrow> span \<Rightarrow> str option" where
  "token_at lines sp =
     (let sl = unat (start_line sp)
      in if length lines \<le> sl then None
         else let cs = chars (lines ! sl); sc = unat (start_char sp); ec = unat (end_char sp)
              in if length cs < ec \<or> ec < sc then None
                 else let raw_chars = take (ec - sc) (drop sc cs); raw = concat raw_chars
                      in Some (if 2 \<le> length raw_chars \<and> prefix backtick raw \<and> suffix backtick raw
                               then take (length raw - 2) (drop 1 raw) else raw))"

definition expected_token :: "unicode \<Rightarrow> (symbol_key \<rightharpoonup> str) \<Rightarrow> semantic_batch \<Rightarrow> symbol_key \<Rightarrow> str option" where
  "expected_token U display_name_of batch key =
     (if key_is_local key then display_name_of key
      else case split_last (semantic_symbol key) of
          Some (own, DMethod name _) \<Rightarrow>
            if name = CONSTRUCTOR_NAME then display_name own
            else if is_setter_name name then Some (drop_setter name)
            else if name = lit ''apply'' \<or> name = lit ''unapply''
            then (case companion U own of
                    Some cls \<Rightarrow>
                      if rename_group_of (sb_groups batch) (symbol_key_global cls) = rename_group_of (sb_groups batch) key
                      then display_name own else Some name
                  | None \<Rightarrow> Some name)
            else Some name
        | _ \<Rightarrow> (case display_name_of key of Some n \<Rightarrow> Some n | None \<Rightarrow> display_name (semantic_symbol key)))"

definition rename_token_matches :: "unicode \<Rightarrow> (symbol_key \<rightharpoonup> str) \<Rightarrow> semantic_batch \<Rightarrow> str list \<Rightarrow> occurrence \<Rightarrow> bool" where
  "rename_token_matches U display_name_of batch lines oc \<longleftrightarrow>
     start_line (oc_span oc) = end_line (oc_span oc) \<and>
     (case token_at lines (oc_span oc) of
        None \<Rightarrow> False
      | Some token \<Rightarrow>
          (case expected_token U display_name_of batch (oc_key oc) of Some expected \<Rightarrow> token = expected | None \<Rightarrow> True))"

text \<open>First wins: \<open>entry(key).or_insert(..)\<close> over a list of bindings.\<close>
abbreviation first_of :: "('k \<times> 'v) list \<Rightarrow> 'k \<rightharpoonup> 'v" where
  "first_of \<equiv> map_of"

definition display_names :: "normalized_document list \<Rightarrow> symbol_key \<rightharpoonup> str" where
  "display_names ds = first_of (map (\<lambda>s. (sy_key s, sy_display_name s)) (concat (map nd_symbols ds)))"

definition definitions_by_key :: "normalized_document list \<Rightarrow> symbol_key \<rightharpoonup> nat \<times> span" where
  "definitions_by_key ds =
     first_of (concat (map (\<lambda>(doc_ord, d). map (\<lambda>oc. (oc_key oc, (doc_ord, oc_span oc)))
       (filter (\<lambda>oc. oc_role oc = Definition) (nd_occurrences d))) (enumerate 0 ds)))"

text \<open>The symbol universe: the keys of the reference group index, sorted.\<close>
definition universe :: "alias_groups \<Rightarrow> symbol_key list" where
  "universe g = sort_key key_order (concat (ag_ref_groups g))"

record postings =
  po_doc :: "doc_occ list list"
  po_ref :: "group_occ list list"
  po_def :: "group_occ list list"
  po_rename :: "group_occ list list"
  po_def_target :: "symbol_key \<rightharpoonup> i32"

text \<open>\<open>xs[i].push(x)\<close>\<close>
definition push_at :: "nat \<Rightarrow> 'a \<Rightarrow> 'a list list \<Rightarrow> ('a list list, unit) outcome" where
  "push_at i x xs = (if i < length xs then Ok (xs[i := xs ! i @ [x]]) else Panic)"

definition group_occ_of :: "nat \<Rightarrow> primary_doc \<Rightarrow> occurrence \<Rightarrow> group_occ" where
  "group_occ_of doc_ord p oc =
     \<lparr>go_doc_ord = i32_of_usize doc_ord, go_doc_epoch = pd_epoch p, go_target_ord = i32_of_usize (pd_target_ord p),
      go_span = oc_span oc, go_flags = occ_flags_for oc (pd_facts p)\<rparr>"

definition place_occurrence ::
  "unicode \<Rightarrow> semantic_batch \<Rightarrow> (symbol_key \<rightharpoonup> nat) \<Rightarrow> (symbol_key \<rightharpoonup> str) \<Rightarrow> nat \<Rightarrow> primary_doc \<Rightarrow> str list \<Rightarrow>
   occurrence \<Rightarrow> postings \<Rightarrow> (postings, unit) outcome" where
  "place_occurrence U batch caller_ord_of display_name_of doc_ord p lines oc po =
     (let flags = occ_flags_for oc (pd_facts p); key = oc_key oc; group_occ = group_occ_of doc_ord p oc
      in and_then (unwrap (caller_ord_of key)) (\<lambda>caller.
         and_then (push_at doc_ord \<lparr>do_symbol_ord = i32_of_usize caller, do_span = oc_span oc, do_flags = flags\<rparr> (po_doc po)) (\<lambda>doc_occs.
         and_then (unwrap (ag_ref_group_index (sb_groups batch) key)) (\<lambda>g.
         and_then (if oc_role oc = Definition
                   then and_then (push_at g group_occ (po_def po)) (\<lambda>ds.
                     Ok (po\<lparr>po_doc := doc_occs, po_def := ds,
                         po_def_target := (case po_def_target po key of
                            None \<Rightarrow> (po_def_target po)(key \<mapsto> i32_of_usize (pd_target_ord p)) | Some _ \<Rightarrow> po_def_target po)\<rparr>))
                   else and_then (push_at g group_occ (po_ref po)) (\<lambda>rs. Ok (po\<lparr>po_doc := doc_occs, po_ref := rs\<rparr>))) (\<lambda>po1.
         if doc_editable (pd_facts p) \<and> \<not> oc_synthetic oc \<and> rename_token_matches U display_name_of batch lines oc
         then and_then (unwrap (ag_rename_group_index (sb_groups batch) key)) (\<lambda>rg.
              and_then (push_at rg (group_occ\<lparr>go_flags := flags OR EDITABLE\<rparr>) (po_rename po1)) (\<lambda>ns.
                Ok (po1\<lparr>po_rename := ns\<rparr>)))
         else Ok po1)))))"

definition place_document ::
  "unicode \<Rightarrow> semantic_batch \<Rightarrow> (symbol_key \<rightharpoonup> nat) \<Rightarrow> (symbol_key \<rightharpoonup> str) \<Rightarrow> nat \<times> primary_doc \<times> normalized_document \<Rightarrow>
   postings \<Rightarrow> (postings, unit) outcome" where
  "place_document U batch caller_ord_of display_name_of = (\<lambda>(doc_ord, p, d).
     fold_o (place_occurrence U batch caller_ord_of display_name_of doc_ord p (split_inclusive 10 (pd_source_text p))) (nd_occurrences d))"

definition stored_profile_of :: "group_occ list list \<Rightarrow> nat \<times> rename_profile \<Rightarrow> (stored_profile, unit) outcome" where
  "stored_profile_of rename_postings = (\<lambda>(rg, prof).
     and_then (index_o rename_postings rg) (\<lambda>ps.
       Ok \<lparr>sp_is_local = is_local prof, sp_is_external = is_external prof,
           sp_has_generated = has_generated_occurrences prof, sp_has_readonly = has_readonly_occurrences prof,
           sp_has_override_family = has_override_family prof, sp_has_companion = has_companion prof,
           sp_editable_occurrence_count = i32_of_usize (length ps), sp_unsafe_reason_mask = unsafe_reason_mask prof\<rparr>))"

definition segment_symbol_of :: "alias_groups \<Rightarrow> (symbol_key \<rightharpoonup> i32) \<Rightarrow> symbol_key \<Rightarrow> (segment_symbol, unit) outcome" where
  "segment_symbol_of g def_target_of k =
     and_then (unwrap (ag_ref_group_index g k)) (\<lambda>ref_group.
     and_then (unwrap (ag_rename_group_index g k)) (\<lambda>rename_group.
       Ok \<lparr>ss_semantic_symbol = encode_key k, ss_symbol_id = symbol_id_for k, ss_ref_group_ord = i32_of_usize ref_group,
           ss_rename_group_ord = i32_of_usize rename_group,
           ss_def_target_ord = (case def_target_of k of Some t \<Rightarrow> t | None \<Rightarrow> -1)\<rparr>))"

definition symbol_meta_of :: "(symbol_key \<rightharpoonup> symbol_info) \<Rightarrow> (symbol_key \<rightharpoonup> nat \<times> span) \<Rightarrow> symbol_key \<Rightarrow> symbol_meta_data" where
  "symbol_meta_of infos defs k =
     (let info = infos k; def = defs k
      in \<lparr>sm_display = (case info of Some i \<Rightarrow> sy_display_name i | None \<Rightarrow> []),
          sm_owner = (case Option.bind info sy_owner_name of Some n \<Rightarrow> n | None \<Rightarrow> []),
          sm_package_name = (case Option.bind info sy_package_name of Some n \<Rightarrow> n | None \<Rightarrow> []),
          sm_kind = (case info of Some i \<Rightarrow> code (sy_kind i) | None \<Rightarrow> 0),
          sm_properties = (case info of Some i \<Rightarrow> sy_properties i | None \<Rightarrow> 0),
          sm_def_packed_start = (case def of Some (_, s) \<Rightarrow> pack (start_line s) (start_char s) | None \<Rightarrow> -1),
          sm_def_packed_end = (case def of Some (_, s) \<Rightarrow> pack (end_line s) (end_char s) | None \<Rightarrow> -1),
          sm_def_doc_ord = (case def of Some (d, _) \<Rightarrow> i32_of_usize d | None \<Rightarrow> -1)\<rparr>)"

definition search_row_of ::
  "unicode \<Rightarrow> (symbol_key \<rightharpoonup> symbol_info) \<Rightarrow> (symbol_key \<rightharpoonup> nat \<times> span) \<Rightarrow> nat \<times> symbol_key \<Rightarrow> search_row_data option" where
  "search_row_of U infos defs = (\<lambda>(i, k).
     if key_is_local k then None
     else case infos k of
         None \<Rightarrow> None
       | Some info \<Rightarrow>
           if defs k = None \<or> \<not> workspace_symbol_kind (sy_kind info) then None
           else Some \<lparr>sr_normalized_name = normalize_name U (sy_display_name info), sr_symbol_ord = i32_of_usize i\<rparr>)"

definition target_meta_of :: "target_spec \<Rightarrow> target_meta_data" where
  "target_meta_of t =
     \<lparr>tm_bsp_id = ts_bsp_id t, tm_scala_version = ts_scala_version t, tm_sourceroot = from_utf8_lossy (ts_sourceroot t),
      tm_semanticdb_root = from_utf8_lossy (ts_semanticdb_root t), tm_content_hash = ts_content_hash t,
      tm_options_hash = ts_options_hash t\<rparr>"

definition segment_doc_of :: "primary_doc \<Rightarrow> segment_doc" where
  "segment_doc_of p =
     \<lparr>sd_uri = pd_uri p, sd_doc_id = pd_doc_id p, sd_epoch = pd_epoch p, sd_target_ord = i32_of_usize (pd_target_ord p),
      sd_generated = df_generated (pd_facts p), sd_readonly = df_readonly (pd_facts p)\<rparr>"

definition normalized_of :: "primary_doc list \<Rightarrow> normalized_document list" where
  "normalized_of = map (\<lambda>p. normalize_document (pd_sdb p) (pd_doc_id p))"

text \<open>The batch of a list of primaries.\<close>
definition batch_of :: "unicode \<Rightarrow> primary_doc list \<Rightarrow> (semantic_batch, unit) outcome" where
  "batch_of U primaries =
     assemble_with_facts U (normalized_of primaries)
       (map_of (rev (map (\<lambda>p. (pd_uri p, pd_facts p)) primaries)))"

definition postings_empty :: "nat \<Rightarrow> semantic_batch \<Rightarrow> postings" where
  "postings_empty n batch =
     \<lparr>po_doc = replicate n [], po_ref = replicate (length (ag_ref_groups (sb_groups batch))) [],
      po_def = replicate (length (ag_ref_groups (sb_groups batch))) [],
      po_rename = replicate (length (ag_rename_groups (sb_groups batch))) [], po_def_target = Map.empty\<rparr>"

definition materialize :: "unicode \<Rightarrow> target_spec list \<Rightarrow> primary_doc list \<Rightarrow> semantic_batch \<Rightarrow> (segment_data, unit) outcome" where
  "materialize U specs primaries batch =
     (let keys = universe (sb_groups batch); caller_ord_of = index_of keys; ds = sb_documents batch;
          infos = info_by_key ds; defs = definitions_by_key ds
      in and_then (fold_o (place_document U batch caller_ord_of (display_names ds)) (enumerate 0 (zip primaries ds))
             (postings_empty (length primaries) batch)) (\<lambda>po.
         and_then (map_o (stored_profile_of (po_rename po)) (enumerate 0 (sb_rename_profiles batch))) (\<lambda>profiles.
         and_then (map_o (segment_symbol_of (sb_groups batch) (po_def_target po)) keys) (\<lambda>segment_symbols.
           Ok \<lparr>docs = map segment_doc_of primaries, targets = map (target_id_for \<circ> ts_bsp_id) specs, symbols = segment_symbols,
               ref_occurrences = po_ref po, def_occurrences = po_def po, rename_occurrences = po_rename po,
               rename_profiles = profiles, doc_occurrences = po_doc po, target_metas = map target_meta_of specs,
               symbol_metas = map (symbol_meta_of infos defs) keys,
               search_rows = sort_key (\<lambda>r. (sr_normalized_name r, sint (sr_symbol_ord r)))
                 (List.map_filter (search_row_of U infos defs) (enumerate 0 keys))\<rparr>))))"

record ingest_report =
  ir_docs_indexed :: nat
  ir_docs_shared :: nat
  ir_symbol_count :: nat
  ir_ref_group_count :: nat
  ir_rename_group_count :: nat
  ir_stale_uris :: "str list"
  ir_skipped_uris :: "str list"
  ir_parse_errors :: "(str \<times> semanticdb_error) list"

text \<open>\<open>ingest\<close> up to the call of \<open>publish\<close>: the segment data, the encoded state and the report.\<close>
definition ingest_data ::
  "unicode \<Rightarrow> file_system \<Rightarrow> ingest_state \<Rightarrow> target_spec list \<Rightarrow> (segment_data \<times> byte list \<times> ingest_report, unit) outcome" where
  "ingest_data U fs prev specs =
     and_then (collect fs prev specs) (\<lambda>c.
     and_then (batch_of U (co_primaries c)) (\<lambda>batch.
     and_then (materialize U specs (co_primaries c) batch) (\<lambda>d.
       Ok (d, state_encode (co_new_state c),
           \<lparr>ir_docs_indexed = length (co_primaries c), ir_docs_shared = co_shared_count c,
            ir_symbol_count = length (universe (sb_groups batch)), ir_ref_group_count = length (ag_ref_groups (sb_groups batch)),
            ir_rename_group_count = length (ag_rename_groups (sb_groups batch)), ir_stale_uris = co_stale_uris c,
            ir_skipped_uris = co_skipped_uris c, ir_parse_errors = co_parse_errors c\<rparr>))))"

section \<open>The postings in closed form\<close>

type_synonym placement = "nat \<times> primary_doc \<times> occurrence"

text \<open>Every occurrence of the batch with the ordinal and the primary of its document, in order.\<close>
definition placed :: "primary_doc list \<Rightarrow> normalized_document list \<Rightarrow> placement list" where
  "placed primaries ds =
     concat (map (\<lambda>(doc_ord, p, d). map (\<lambda>oc. (doc_ord, p, oc)) (nd_occurrences d)) (enumerate 0 (zip primaries ds)))"

definition in_group :: "(symbol_key \<rightharpoonup> nat) \<Rightarrow> nat \<Rightarrow> placement \<Rightarrow> bool" where
  "in_group idx g = (\<lambda>(_, _, oc). idx (oc_key oc) = Some g)"

definition is_definition :: "placement \<Rightarrow> bool" where
  "is_definition = (\<lambda>(_, _, oc). oc_role oc = Definition)"

text \<open>What a rename may rewrite: an explicit token of an editable document that spells the symbol's name.\<close>
definition renameable :: "unicode \<Rightarrow> semantic_batch \<Rightarrow> placement \<Rightarrow> bool" where
  "renameable U batch = (\<lambda>(_, p, oc). doc_editable (pd_facts p) \<and> \<not> oc_synthetic oc \<and>
     rename_token_matches U (display_names (sb_documents batch)) batch (split_inclusive 10 (pd_source_text p)) oc)"

definition posting :: "placement \<Rightarrow> group_occ" where
  "posting = (\<lambda>(doc_ord, p, oc). group_occ_of doc_ord p oc)"

definition doc_posting :: "(symbol_key \<rightharpoonup> nat) \<Rightarrow> placement \<Rightarrow> doc_occ" where
  "doc_posting caller_ord_of = (\<lambda>(doc_ord, p, oc).
     \<lparr>do_symbol_ord = i32_of_usize (the (caller_ord_of (oc_key oc))), do_span = oc_span oc, do_flags = occ_flags_for oc (pd_facts p)\<rparr>)"

definition postings_of :: "unicode \<Rightarrow> semantic_batch \<Rightarrow> (symbol_key \<rightharpoonup> nat) \<Rightarrow> nat \<Rightarrow> placement list \<Rightarrow> postings" where
  "postings_of U batch caller_ord_of n xs =
     (let idx = ag_ref_group_index (sb_groups batch); ridx = ag_rename_group_index (sb_groups batch);
          gs = [0..<length (ag_ref_groups (sb_groups batch))]; rgs = [0..<length (ag_rename_groups (sb_groups batch))]
      in \<lparr>po_doc = map (\<lambda>i. map (doc_posting caller_ord_of) (filter (\<lambda>x. fst x = i) xs)) [0..<n],
          po_ref = map (\<lambda>g. map posting (filter (\<lambda>x. \<not> is_definition x \<and> in_group idx g x) xs)) gs,
          po_def = map (\<lambda>g. map posting (filter (\<lambda>x. is_definition x \<and> in_group idx g x) xs)) gs,
          po_rename = map (\<lambda>g. map posting (filter (\<lambda>x. renameable U batch x \<and> in_group ridx g x) xs)) rgs,
          po_def_target = map_of (map (\<lambda>(_, p, oc). (oc_key oc, i32_of_usize (pd_target_ord p))) (filter is_definition xs))\<rparr>)"

lemma push_at_map:
  "i < n \<Longrightarrow> push_at i x (map f [0..<n]) = Ok (map (\<lambda>j. if j = i then f j @ [x] else f j) [0..<n])"
  by (auto simp: push_at_def intro!: nth_equalityI)

lemma map_of_push: "map_of (xs @ [(k, v)]) = (case map_of xs k of None \<Rightarrow> (map_of xs)(k \<mapsto> v) | Some _ \<Rightarrow> map_of xs)"
  by (auto simp: map_add_def fun_eq_iff split: option.split)

text \<open>Placing marks an editable document's occurrence as editable already.\<close>
lemma editable_flag: "doc_editable (pd_facts p) \<Longrightarrow>
  (group_occ_of i p oc)\<lparr>go_flags := occ_flags_for oc (pd_facts p) OR EDITABLE\<rparr> = group_occ_of i p oc"
  by (simp add: group_occ_of_def occ_flags_for_def bit_simps or.assoc or.commute or.left_commute)

definition group_at :: "alias_groups \<Rightarrow> symbol_key \<Rightarrow> nat \<Rightarrow> bool" where
  "group_at g k gi \<longleftrightarrow> ag_ref_group_index g k = Some gi \<and> ag_rename_group_index g k = Some gi \<and>
     gi < length (ag_ref_groups g) \<and> gi < length (ag_rename_groups g)"

lemma place_occurrence_postings:
  assumes "caller_ord_of (oc_key oc) = Some c" and "i < n" and g: "group_at (sb_groups batch) (oc_key oc) gi"
  shows "place_occurrence U batch caller_ord_of (display_names (sb_documents batch)) i p (split_inclusive 10 (pd_source_text p)) oc
      (postings_of U batch caller_ord_of n xs) = Ok (postings_of U batch caller_ord_of n (xs @ [(i, p, oc)]))"
  using assms
  by (auto simp: place_occurrence_def postings_of_def Let_def push_at_map group_at_def is_definition_def in_group_def
      renameable_def posting_def doc_posting_def editable_flag map_of_push simp del: map_of_append cong: option.case_cong)

lemma place_loop:
  assumes "\<And>i p oc. (i, p, oc) \<in> set xs \<Longrightarrow> i < n \<and> caller_ord_of (oc_key oc) \<noteq> None \<and> (\<exists>gi. group_at (sb_groups batch) (oc_key oc) gi)"
  shows "fold_o (\<lambda>(i, p, oc). place_occurrence U batch caller_ord_of (display_names (sb_documents batch)) i p
        (split_inclusive 10 (pd_source_text p)) oc) xs (postings_of U batch caller_ord_of n ys) =
      Ok (postings_of U batch caller_ord_of n (ys @ xs))"
  using assms
proof (induction xs arbitrary: ys)
  case (Cons x xs)
  obtain i p oc where x: "x = (i, p, oc)" by (cases x)
  with Cons.prems[of i p oc] obtain c gi where "i < n" "caller_ord_of (oc_key oc) = Some c" "group_at (sb_groups batch) (oc_key oc) gi"
    by auto
  moreover have "fold_o (\<lambda>(i, p, oc). place_occurrence U batch caller_ord_of (display_names (sb_documents batch)) i p
        (split_inclusive 10 (pd_source_text p)) oc) xs (postings_of U batch caller_ord_of n (ys @ [x])) =
      Ok (postings_of U batch caller_ord_of n (ys @ x # xs))"
    using Cons.IH[of "ys @ [x]"] Cons.prems by (simp only: append_assoc append_Cons append_Nil) (meson list.set_intros(2))
  ultimately show ?case using x by (simp add: place_occurrence_postings)
qed simp

lemma postings_empty_of: "postings_empty n batch = postings_of U batch caller_ord_of n []"
  by (simp add: postings_empty_def postings_of_def Let_def map_replicate_const)

lemma place_documents:
  assumes "\<And>i p oc. (i, p, oc) \<in> set (placed ps ds) \<Longrightarrow> i < n \<and> caller_ord_of (oc_key oc) \<noteq> None \<and> (\<exists>gi. group_at (sb_groups batch) (oc_key oc) gi)"
  shows "fold_o (place_document U batch caller_ord_of (display_names (sb_documents batch))) (enumerate 0 (zip ps ds)) (postings_empty n batch) =
      Ok (postings_of U batch caller_ord_of n (placed ps ds))"
proof -
  let ?f = "\<lambda>(i, p, oc). place_occurrence U batch caller_ord_of (display_names (sb_documents batch)) i p (split_inclusive 10 (pd_source_text p)) oc"
  have flat: "fold_o g (map h zs) s = fold_o (\<lambda>z. g (h z)) zs s"
    for g :: "nat \<times> primary_doc \<times> occurrence \<Rightarrow> postings \<Rightarrow> (postings, unit) outcome" and h zs s
    by (induction zs arbitrary: s) (simp_all cong: and_then_cong)
  have "fold_o (place_document U batch caller_ord_of (display_names (sb_documents batch))) (enumerate 0 (zip ps ds)) s =
      fold_o ?f (placed ps ds) s" for s
    unfolding placed_def by (rule fold_o_concat) (auto simp: place_document_def flat)
  then show ?thesis
    using place_loop[where ys = "[]", OF assms] by (simp add: postings_empty_of[of n batch U caller_ord_of])
qed

lemma batch_of_groups:
  assumes "batch_of U ps = Ok batch"
  shows "sb_documents batch = normalized_of ps"
    and "build U (sb_documents batch) = Ok (sb_groups batch)"
    and "length (sb_rename_profiles batch) = length (ag_rename_groups (sb_groups batch))"
  using batch_assembled[of U "normalized_of ps" "map_of (rev (map (\<lambda>p. (pd_uri p, pd_facts p)) ps))"] assms
  by (auto simp: batch_of_def dest: list_all2_lengthD)

lemma batch_of_total: "\<exists>batch. batch_of U ps = Ok batch"
  using batch_assembled unfolding batch_of_def by blast

lemma group_at_iff:
  assumes "build U ds = Ok g"
  shows "group_at g k gi \<longleftrightarrow> gi < length (ag_ref_groups g) \<and> k \<in> set (ag_ref_groups g ! gi)"
    and "ag_ref_groups g = ag_rename_groups g" and "ag_ref_group_index g = ag_rename_group_index g"
    and "(\<exists>gi. group_at g k gi) \<longleftrightarrow> k \<in> set (sorted_keys ds)"
    and "ag_ref_group_index g k = Some gi \<longleftrightarrow> group_at g k gi"
proof -
  have part: "{k. \<exists>gi. rename_group_of g k = Some gi} = set (sorted_keys ds)"
    "{(k, gi). rename_group_of g k = Some gi} = {(k, gi). gi < length (ag_rename_groups g) \<and> k \<in> set (ag_rename_groups g ! gi)}"
    "ag_ref_groups g = ag_rename_groups g" "ref_group_of g = rename_group_of g"
    using alias_groups_partition[of U ds] assms by auto
  show "ag_ref_groups g = ag_rename_groups g" by fact
  show idx: "ag_ref_group_index g = ag_rename_group_index g"
    using part(4) by (auto simp: fun_eq_iff ref_group_of_def rename_group_of_def)
  have mem: "ag_rename_group_index g k = Some gi \<longleftrightarrow> gi < length (ag_rename_groups g) \<and> k \<in> set (ag_rename_groups g ! gi)" for k gi
    using part(2) by (auto simp: set_eq_iff rename_group_of_def)
  show "group_at g k gi \<longleftrightarrow> gi < length (ag_ref_groups g) \<and> k \<in> set (ag_ref_groups g ! gi)"
    by (auto simp: group_at_def idx mem part(3))
  show "ag_ref_group_index g k = Some gi \<longleftrightarrow> group_at g k gi"
    by (auto simp: group_at_def idx mem part(3))
  show "(\<exists>gi. group_at g k gi) \<longleftrightarrow> k \<in> set (sorted_keys ds)"
    using part(1) by (auto simp: group_at_def idx mem part(3) set_eq_iff rename_group_of_def)
qed

lemma universe_keys: "build U ds = Ok g \<Longrightarrow> set (universe g) = set (sorted_keys ds) \<and> distinct (universe g)"
  using build_members[of U ds g] by (simp add: universe_def)

lemma placed_member: "(i, p, oc) \<in> set (placed ps ds) \<longleftrightarrow> i < length ps \<and> i < length ds \<and> p = ps ! i \<and> oc \<in> set (nd_occurrences (ds ! i))"
  by (auto simp: placed_def in_set_enumerate_eq in_set_zip image_iff)

lemma occurrence_key_seen: "d \<in> set ds \<Longrightarrow> oc \<in> set (nd_occurrences d) \<Longrightarrow> oc_key oc \<in> set (sorted_keys ds)"
  by (auto simp: sorted_keys_def Let_def seen_keys_def document_keys_def)

lemma index_of_total: "k \<in> set keys \<Longrightarrow> index_of keys k \<noteq> None"
  by (simp add: index_of_None)

lemma collect_total: "\<exists>c. collect fs prev specs = Ok c"
proof -
  have "\<exists>c'. collect_file fs prev i spec p c = Ok c'" for i spec p c
    using parse_total by (auto simp: collect_file_def parse_file_def split: outcome.split option.split)
  then show ?thesis
    unfolding collect_def by (intro fold_o_total) (auto intro: fold_o_total)
qed

text \<open>The data of a batch, every posting list in closed form.\<close>
lemma materialize_closed:
  assumes "batch_of U ps = Ok batch"
  defines "keys \<equiv> universe (sb_groups batch)"
  defines "po \<equiv> postings_of U batch (index_of keys) (length ps) (placed ps (sb_documents batch))"
  obtains d where "materialize U specs ps batch = Ok d"
    and "docs d = map segment_doc_of ps" and "targets d = map (target_id_for \<circ> ts_bsp_id) specs"
    and "target_metas d = map target_meta_of specs"
    and "ref_occurrences d = po_ref po" and "def_occurrences d = po_def po" and "rename_occurrences d = po_rename po"
    and "doc_occurrences d = po_doc po"
    and "length (rename_profiles d) = length (po_rename po)"
    and "\<And>g. g < length (po_rename po) \<Longrightarrow> stored_profile_of (po_rename po) (g, sb_rename_profiles batch ! g) = Ok (rename_profiles d ! g)"
    and "length (symbols d) = length keys"
    and "\<And>i. i < length keys \<Longrightarrow> segment_symbol_of (sb_groups batch) (po_def_target po) (keys ! i) = Ok (symbols d ! i)"
    and "symbol_metas d = map (symbol_meta_of (info_by_key (sb_documents batch)) (definitions_by_key (sb_documents batch))) keys"
    and "mset (search_rows d) = mset (List.map_filter (search_row_of U (info_by_key (sb_documents batch)) (definitions_by_key (sb_documents batch))) (enumerate 0 keys))"
    and "sorted (map (\<lambda>r. (sr_normalized_name r, sint (sr_symbol_ord r))) (search_rows d))"
proof -
  note b = batch_of_groups[OF assms(1)]
  let ?ds = "sb_documents batch"
  have place: "fold_o (place_document U batch (index_of keys) (display_names ?ds)) (enumerate 0 (zip ps ?ds)) (postings_empty (length ps) batch) = Ok po"
    unfolding po_def
  proof (rule place_documents)
    fix i p oc assume "(i, p, oc) \<in> set (placed ps ?ds)"
    then have i: "i < length ps" "?ds ! i \<in> set ?ds" "oc \<in> set (nd_occurrences (?ds ! i))" by (simp_all add: placed_member)
    then have "oc_key oc \<in> set (sorted_keys ?ds)" by (simp add: occurrence_key_seen)
    then show "i < length ps \<and> index_of keys (oc_key oc) \<noteq> None \<and> (\<exists>gi. group_at (sb_groups batch) (oc_key oc) gi)"
      using i(1) universe_keys[OF b(2)] by (simp add: index_of_total group_at_iff(4)[OF b(2)] keys_def)
  qed
  have n: "length (po_rename po) = length (sb_rename_profiles batch)" by (simp add: po_def postings_of_def Let_def b(3))
  have prof: "\<exists>sp. stored_profile_of (po_rename po) (g, sb_rename_profiles batch ! g) = Ok sp" if "g < length (po_rename po)" for g
    using that by (simp add: stored_profile_of_def index_o_def)
  then obtain spf where spf: "\<And>g. g < length (po_rename po) \<Longrightarrow> stored_profile_of (po_rename po) (g, sb_rename_profiles batch ! g) = Ok (spf g)"
    by metis
  have profs: "map_o (stored_profile_of (po_rename po)) (enumerate 0 (sb_rename_profiles batch)) = Ok (map spf [0..<length (po_rename po)])"
    using spf by (simp add: map_o_Ok nth_enumerate_eq n)
  have "\<exists>s. segment_symbol_of (sb_groups batch) (po_def_target po) k = Ok s" if k: "k \<in> set keys" for k
  proof -
    obtain gi where "group_at (sb_groups batch) k gi" using k universe_keys[OF b(2)] group_at_iff(4)[OF b(2)] by (auto simp: keys_def)
    then show ?thesis by (simp add: segment_symbol_of_def group_at_def)
  qed
  then obtain sg where sg: "\<And>k. k \<in> set keys \<Longrightarrow> segment_symbol_of (sb_groups batch) (po_def_target po) k = Ok (sg k)" by metis
  then have syms: "map_o (segment_symbol_of (sb_groups batch) (po_def_target po)) keys = Ok (map sg keys)" by (simp add: map_o_map_Ok)
  have "\<exists>d. materialize U specs ps batch = Ok d \<and> docs d = map segment_doc_of ps \<and> targets d = map (target_id_for \<circ> ts_bsp_id) specs \<and>
      target_metas d = map target_meta_of specs \<and> ref_occurrences d = po_ref po \<and> def_occurrences d = po_def po \<and>
      rename_occurrences d = po_rename po \<and> doc_occurrences d = po_doc po \<and> rename_profiles d = map spf [0..<length (po_rename po)] \<and>
      symbols d = map sg keys \<and>
      symbol_metas d = map (symbol_meta_of (info_by_key ?ds) (definitions_by_key ?ds)) keys \<and>
      search_rows d = sort_key (\<lambda>r. (sr_normalized_name r, sint (sr_symbol_ord r)))
        (List.map_filter (search_row_of U (info_by_key ?ds) (definitions_by_key ?ds)) (enumerate 0 keys))"
    using place profs syms by (simp add: materialize_def Let_def keys_def)
  then obtain d where d: "materialize U specs ps batch = Ok d" "docs d = map segment_doc_of ps"
      "targets d = map (target_id_for \<circ> ts_bsp_id) specs" "target_metas d = map target_meta_of specs"
      "ref_occurrences d = po_ref po" "def_occurrences d = po_def po" "rename_occurrences d = po_rename po" "doc_occurrences d = po_doc po"
      "rename_profiles d = map spf [0..<length (po_rename po)]" "symbols d = map sg keys"
      "symbol_metas d = map (symbol_meta_of (info_by_key ?ds) (definitions_by_key ?ds)) keys"
      "search_rows d = sort_key (\<lambda>r. (sr_normalized_name r, sint (sr_symbol_ord r)))
        (List.map_filter (search_row_of U (info_by_key ?ds) (definitions_by_key ?ds)) (enumerate 0 keys))"
    by (elim exE conjE) (rule that)
  show thesis
    by (rule that[of d]) (simp_all add: d spf sg)
qed

definition occurs_in :: "symbol_key list \<Rightarrow> placement \<Rightarrow> bool" where
  "occurs_in grp = (\<lambda>(_, _, oc). oc_key oc \<in> set grp)"

lemma postings_by_group:
  assumes "build U ds = Ok (sb_groups batch)"
  defines "gs \<equiv> ag_ref_groups (sb_groups batch)"
  shows "po_ref (postings_of U batch cl n xs) = map (\<lambda>grp. map posting (filter (\<lambda>x. \<not> is_definition x \<and> occurs_in grp x) xs)) gs"
    and "po_def (postings_of U batch cl n xs) = map (\<lambda>grp. map posting (filter (\<lambda>x. is_definition x \<and> occurs_in grp x) xs)) gs"
    and "po_rename (postings_of U batch cl n xs) = map (\<lambda>grp. map posting (filter (\<lambda>x. renameable U batch x \<and> occurs_in grp x) xs)) gs"
proof -
  have "in_group (ag_ref_group_index (sb_groups batch)) g x \<longleftrightarrow> occurs_in (gs ! g) x" if "g < length gs" for g x
    using that group_at_iff(1,5)[OF assms(1)] by (auto simp: in_group_def occurs_in_def gs_def)
  then have swap: "map (\<lambda>g. map posting (filter (\<lambda>x. P x \<and> in_group (ag_ref_group_index (sb_groups batch)) g x) xs)) [0..<length gs] =
      map (\<lambda>grp. map posting (filter (\<lambda>x. P x \<and> occurs_in grp x) xs)) gs" for P
    by (intro nth_equalityI) (auto intro!: arg_cong[where f = "map posting"] filter_cong)
  note same = group_at_iff(2,3)[OF assms(1), symmetric]
  show "po_ref (postings_of U batch cl n xs) = map (\<lambda>grp. map posting (filter (\<lambda>x. \<not> is_definition x \<and> occurs_in grp x) xs)) gs"
    and "po_def (postings_of U batch cl n xs) = map (\<lambda>grp. map posting (filter (\<lambda>x. is_definition x \<and> occurs_in grp x) xs)) gs"
    and "po_rename (postings_of U batch cl n xs) = map (\<lambda>grp. map posting (filter (\<lambda>x. renameable U batch x \<and> occurs_in grp x) xs)) gs"
    using swap[of "\<lambda>x. \<not> is_definition x"] swap[of is_definition] swap[of "renameable U batch"]
    by (simp_all add: postings_of_def Let_def same flip: gs_def)
qed

lemma profiles_aligned:
  assumes "length sps = length ns" and "length ns = length profs"
    and "\<And>g. g < length ns \<Longrightarrow> stored_profile_of ns (g, profs ! g) = Ok (sps ! g)"
  shows "map (\<lambda>sp. (sp_unsafe_reason_mask sp, sp_editable_occurrence_count sp)) sps =
    zip (map unsafe_reason_mask profs) (map (i32_of_usize \<circ> length) ns)"
proof (rule nth_equalityI)
  show "length (map (\<lambda>sp. (sp_unsafe_reason_mask sp, sp_editable_occurrence_count sp)) sps) =
    length (zip (map unsafe_reason_mask profs) (map (i32_of_usize \<circ> length) ns))" using assms(1,2) by simp
next
  fix g assume "g < length (map (\<lambda>sp. (sp_unsafe_reason_mask sp, sp_editable_occurrence_count sp)) sps)"
  then have "g < length ns" using assms(1) by simp
  then show "map (\<lambda>sp. (sp_unsafe_reason_mask sp, sp_editable_occurrence_count sp)) sps ! g =
    zip (map unsafe_reason_mask profs) (map (i32_of_usize \<circ> length) ns) ! g"
    using assms(1,2) assms(3)[of g, symmetric] by (auto simp: stored_profile_of_def index_o_def and_then_eq_Ok)
qed

text \<open>
  C9: Ingest is total and its postings are exact. Whatever the target roots hold, collecting, grouping and
  materialising never panic, and the segment data lists, for every alias group and in document order, exactly
  the reference occurrences, the definition occurrences and the renameable occurrences (an explicit token of
  an editable document that spells the symbol's name) whose symbol belongs to the group, each with its
  document, epoch, target, span and flags; for every document exactly its occurrences; and in every rename
  profile the unsafe mask of the batch with the number of postings its group really has.
\<close>
theorem ingest_postings_exact:
  "\<exists>c batch d state report. collect fs prev specs = Ok c \<and> batch_of U (co_primaries c) = Ok batch \<and>
     ingest_data U fs prev specs = Ok (d, state, report) \<and>
     (let xs = placed (co_primaries c) (sb_documents batch); gs = ag_ref_groups (sb_groups batch)
      in ref_occurrences d = map (\<lambda>grp. map posting (filter (\<lambda>x. \<not> is_definition x \<and> occurs_in grp x) xs)) gs \<and>
         def_occurrences d = map (\<lambda>grp. map posting (filter (\<lambda>x. is_definition x \<and> occurs_in grp x) xs)) gs \<and>
         rename_occurrences d = map (\<lambda>grp. map posting (filter (\<lambda>x. renameable U batch x \<and> occurs_in grp x) xs)) gs \<and>
         doc_occurrences d = map (\<lambda>i. map (doc_posting (index_of (universe (sb_groups batch)))) (filter (\<lambda>x. fst x = i) xs))
           [0..<length (co_primaries c)] \<and>
         map (\<lambda>sp. (sp_unsafe_reason_mask sp, sp_editable_occurrence_count sp)) (rename_profiles d) =
           zip (map unsafe_reason_mask (sb_rename_profiles batch)) (map (i32_of_usize \<circ> length) (rename_occurrences d)))"
proof -
  obtain c where c: "collect fs prev specs = Ok c" using collect_total by blast
  obtain batch where b: "batch_of U (co_primaries c) = Ok batch" using batch_of_total by blast
  let ?xs = "placed (co_primaries c) (sb_documents batch)" and ?keys = "universe (sb_groups batch)"
  let ?po = "postings_of U batch (index_of ?keys) (length (co_primaries c)) ?xs"
  obtain d where d: "materialize U specs (co_primaries c) batch = Ok d"
    "ref_occurrences d = po_ref ?po" "def_occurrences d = po_def ?po" "rename_occurrences d = po_rename ?po" "doc_occurrences d = po_doc ?po"
    "length (rename_profiles d) = length (po_rename ?po)"
    "\<And>g. g < length (po_rename ?po) \<Longrightarrow> stored_profile_of (po_rename ?po) (g, sb_rename_profiles batch ! g) = Ok (rename_profiles d ! g)"
    by (rule materialize_closed[OF b, of specs]) (rule that; assumption)
  note groups = postings_by_group[OF batch_of_groups(2)[OF b], of "index_of ?keys" "length (co_primaries c)" ?xs]
  have "length (po_rename ?po) = length (sb_rename_profiles batch)"
    using batch_of_groups(3)[OF b] group_at_iff(2)[OF batch_of_groups(2)[OF b]] groups(3) by simp
  note profs = profiles_aligned[OF d(6) this d(7)]
  show ?thesis
    using c b d(1-5) groups profs by (intro exI[of _ c] exI[of _ batch] exI[of _ d]) (simp add: ingest_data_def Let_def postings_of_def)
qed

end
