(* ===== verification/Ingest_Writable.thy ===== *)
theory Ingest_Writable
  imports Engine_Ingest
begin

text \<open>
  The interface between the ingest (\<open>crates/ls-engine/src/ingest.rs\<close>) and the segment writer
  (\<open>crates/ls-store/src/writer.rs\<close>): the data that \<open>Engine_Ingest\<close> materialises passes the checks of
  \<open>Segment_Writer.validate\<close>.
\<close>

lemma collect_document_targets:
  "\<forall>p \<in> set (co_primaries c). pd_target_ord p < n \<Longrightarrow> i < n \<Longrightarrow>
   \<forall>p \<in> set (co_primaries (collect_document fs prev i spec sdb c)). pd_target_ord p < n"
  by (auto simp: collect_document_def Let_def split: option.split)

lemma collect_targets:
  assumes "collect fs prev specs = Ok c"
  shows "\<forall>p \<in> set (co_primaries c). pd_target_ord p < length specs"
proof -
  let ?P = "\<lambda>c. \<forall>p \<in> set (co_primaries c). pd_target_ord p < length specs"
  have document: "?P (fold (collect_document fs prev i spec) sdbs c)" if "?P c" "i < length specs" for i spec sdbs c
    using that by (induction sdbs arbitrary: c) (auto dest: collect_document_targets)
  have file_step: "?P c'" if "collect_file fs prev i spec p c = Ok c'" "?P c" "i < length specs" for i spec p c c'
    using that document by (auto simp: collect_file_def split: outcome.splits)
  show ?thesis
    using assms[unfolded collect_def]
  proof (rule fold_o_inv[where P = ?P])
    fix x t t' assume mem: "x \<in> set (enumerate 0 specs)" and t: "?P t"
      and step: "(case x of (target_ord, spec) \<Rightarrow> fold_o (collect_file fs prev target_ord spec) (list_semanticdb_files fs (ts_semanticdb_root spec))) t = Ok t'"
    obtain i spec where x: "x = (i, spec)" by (rule prod.exhaust)
    with mem have i: "i < length specs" by (auto simp: in_set_enumerate_eq)
    show "?P t'"
      by (rule fold_o_inv[where P = ?P, OF step[unfolded x prod.case] t]) (use file_step i in blast)
  qed (simp add: collected_empty_def)
qed

lemma sint_of_nat_small: "n < 2 ^ 31 \<Longrightarrow> sint (word_of_nat n :: i32) = int n"
  by (simp add: sint_eq_int_iff unat_of_nat) (simp add: signed_of_nat signed_take_bit_int_eq_self)

lemma i32_ord: "n < m \<Longrightarrow> m < 2 ^ 31 \<Longrightarrow> ord_in (i32_of_usize n) m"
  by (simp add: ord_in_def i32_of_usize_def usize_of_i32_nonneg sint_of_nat_small)

lemma no_adjacent_duplicate: "distinct xs \<Longrightarrow> \<not> has_adjacent_duplicate xs"
  by (auto simp: has_adjacent_duplicate_def list_ex_iff in_set_zip nth_tl nth_eq_iff_index_eq)

lemma distinct_symbols_sort:
  assumes "distinct (map ss_semantic_symbol (symbols d))"
  shows "\<exists>ixs. sort_symbol_indices d = Ok ixs"
proof -
  let ?f = "\<lambda>i. ss_semantic_symbol (symbols d ! i)"
  have "map ?f [0..<length (symbols d)] = map ss_semantic_symbol (symbols d)" by (rule nth_equalityI) simp_all
  then have "mset (map ?f (sort_key ?f [0..<length (symbols d)])) = mset (map ss_semantic_symbol (symbols d))"
    unfolding mset_map mset_sort by (simp only: flip: mset_map)
  then have "distinct (map ?f (sort_key ?f [0..<length (symbols d)]))"
    using assms by (metis mset_eq_imp_distinct_iff)
  then show ?thesis by (auto simp: sort_symbol_indices_def Let_def dest: no_adjacent_duplicate)
qed

text \<open>Every posting of the batch is one the writer accepts.\<close>
lemma posting_valid:
  assumes "x \<in> set (placed ps ds)" and "length ps < 2 ^ 31" and "n < 2 ^ 31"
    and "\<forall>p \<in> set ps. pd_target_ord p < n" and "\<forall>d \<in> set ds. \<forall>oc \<in> set (nd_occurrences d). span_ok (oc_span oc)"
  shows "validate_group_occ (length ps) n (posting x) = Ok ()"
proof -
  obtain i p oc where x: "x = (i, p, oc)" by (cases x)
  with assms show ?thesis
    by (auto simp: posting_def group_occ_of_def validate_group_occ_def seq_checks_def require_def placed_member i32_ord)
qed

lemma doc_posting_valid:
  assumes "x \<in> set (placed ps ds)" and "set (sorted_keys ds) \<subseteq> set keys" and "distinct keys" and "length keys < 2 ^ 31"
    and "\<forall>d \<in> set ds. \<forall>oc \<in> set (nd_occurrences d). span_ok (oc_span oc)"
  shows "ord_in (do_symbol_ord (doc_posting (index_of keys) x)) (length keys) \<and> span_ok (do_span (doc_posting (index_of keys) x))"
proof -
  obtain i p oc where x: "x = (i, p, oc)" by (cases x)
  then have oc: "ds ! i \<in> set ds" "oc \<in> set (nd_occurrences (ds ! i))" using assms(1) by (simp_all add: placed_member)
  then have "oc_key oc \<in> set keys" using occurrence_key_seen assms(2) by blast
  then obtain j where "index_of keys (oc_key oc) = Some j" "j < length keys"
    using index_of_total index_of_Some[OF assms(3)] by blast
  then show ?thesis using x oc assms(4,5) by (simp add: doc_posting_def i32_ord)
qed

lemma search_row_valid:
  "r \<in> set (List.map_filter (search_row_of U infos defs) (enumerate 0 keys)) \<Longrightarrow> length keys < 2 ^ 31 \<Longrightarrow> ord_in (sr_symbol_ord r) (length keys)"
  by (auto simp: search_row_of_def List.map_filter_def in_set_enumerate_eq i32_ord split: if_splits option.splits)

lemma symbol_meta_valid:
  "length ds < 2 ^ 31 \<Longrightarrow> ord_opt (sm_def_doc_ord (symbol_meta_of infos (definitions_by_key ds) k)) (length ds)"
  by (auto simp: symbol_meta_of_def ord_opt_def Let_def definitions_by_key_def in_set_enumerate_eq i32_ord
      dest!: map_of_SomeD split: option.split)

lemma segment_symbol_valid:
  assumes "segment_symbol_of g (po_def_target (postings_of U batch cl n (placed ps ds))) k = Ok s" and "build U ds' = Ok g"
    and "length (ag_ref_groups g) < 2 ^ 31" and "\<forall>p \<in> set ps. pd_target_ord p < m" and "m < 2 ^ 31"
  shows "ss_semantic_symbol s = encode_key k" and "ord_opt (ss_ref_group_ord s) (length (ag_ref_groups g))"
    and "ord_opt (ss_rename_group_ord s) (length (ag_ref_groups g))" and "ord_opt (ss_def_target_ord s) m"
proof -
  let ?t = "po_def_target (postings_of U batch cl n (placed ps ds))"
  obtain gi where gi: "ag_ref_group_index g k = Some gi"
    and s: "s = \<lparr>ss_semantic_symbol = encode_key k, ss_symbol_id = symbol_id_for k, ss_ref_group_ord = i32_of_usize gi,
       ss_rename_group_ord = i32_of_usize gi, ss_def_target_ord = (case ?t k of Some t \<Rightarrow> t | None \<Rightarrow> -1)\<rparr>"
    using assms(1) group_at_iff(3)[OF assms(2)] by (auto simp: segment_symbol_of_def and_then_eq_Ok unwrap_eq_Ok)
  have "gi < length (ag_ref_groups g)" using gi group_at_iff(1,5)[OF assms(2)] by blast
  then show "ss_semantic_symbol s = encode_key k" and "ord_opt (ss_ref_group_ord s) (length (ag_ref_groups g))"
    and "ord_opt (ss_rename_group_ord s) (length (ag_ref_groups g))"
    using assms(3) by (simp_all add: s ord_opt_def i32_ord)
  have "ord_in t m" if "?t k = Some t" for t
    using that assms(4,5) by (auto simp: postings_of_def Let_def placed_member i32_ord dest!: map_of_SomeD)
  then show "ord_opt (ss_def_target_ord s) m" by (auto simp: s ord_opt_def split: option.split)
qed

lemma group_count:
  assumes "build U ds = Ok g"
  shows "length (ag_ref_groups g) \<le> length (universe g)" and "length (universe g) = length (sorted_keys ds)"
proof -
  have "length gs \<le> length (concat gs)" if "[] \<notin> set gs" for gs :: "symbol_key list list"
    using that by (induction gs) (auto simp: Suc_le_eq add_strict_increasing)
  moreover have "[] \<notin> set (ag_ref_groups g)" using alias_groups_partition[of U ds] assms by auto
  ultimately show "length (ag_ref_groups g) \<le> length (universe g)" by (simp add: universe_def)
  show "length (universe g) = length (sorted_keys ds)"
    using universe_keys[OF assms] distinct_sorted_keys[of ds] distinct_card by metis
qed

lemma encode_key_distinct:
  assumes "distinct keys" and "\<forall>k \<in> set keys. key_ok k"
  shows "distinct (map encode_key keys)"
  using assms by (auto simp: distinct_map intro!: inj_onI) (metis to_key_encode)

lemma postings_valid:
  fixes U batch cl
  assumes "length ps < 2 ^ 31" and "n < 2 ^ 31" and "\<forall>p \<in> set ps. pd_target_ord p < n"
    and "\<forall>d \<in> set ds. \<forall>oc \<in> set (nd_occurrences d). span_ok (oc_span oc)"
  defines "po \<equiv> postings_of U batch cl (length ps) (placed ps ds)"
  shows "for_each (\<lambda>groups. for_each (\<lambda>grp. for_each (validate_group_occ (length ps) n) grp) groups) [po_ref po, po_def po, po_rename po] = Ok ()"
  using posting_valid[OF _ assms(1-4)] by (auto simp: for_each_Ok po_def postings_of_def Let_def simp del: for_each.simps)

text \<open>The data of a batch passes the writer's validation.\<close>
lemma materialized_valid:
  assumes "batch_of U ps = Ok batch" and "materialize U specs ps batch = Ok d"
    and sizes: "length specs < 2 ^ 31" "length ps < 2 ^ 31" "length (sorted_keys (normalized_of ps)) < 2 ^ 31"
    and ps: "\<forall>p \<in> set ps. pd_uri p \<noteq> []" "\<forall>p \<in> set ps. pd_target_ord p < length specs"
    and spans: "\<forall>nd \<in> set (normalized_of ps). \<forall>oc \<in> set (nd_occurrences nd). span_ok (oc_span oc)"
    and keys: "\<forall>k \<in> set (sorted_keys (normalized_of ps)). key_ok k"
  shows "validate d = Ok () \<and> (\<exists>ixs. sort_symbol_indices d = Ok ixs)"
proof -
  let ?g = "sb_groups batch" and ?ds = "sb_documents batch"
  let ?keys = "universe ?g"
  let ?po = "postings_of U batch (index_of ?keys) (length ps) (placed ps ?ds)"
  note b = batch_of_groups[OF assms(1)]
  have ds: "length ?ds = length ps" by (simp add: b(1) normalized_of_def)
  have spans': "\<forall>nd \<in> set ?ds. \<forall>oc \<in> set (nd_occurrences nd). span_ok (oc_span oc)" using spans b(1) by simp
  note u = universe_keys[OF b(2)]
  have n: "length ?keys < 2 ^ 31" "length (ag_ref_groups ?g) < 2 ^ 31"
    using group_count[OF b(2)] sizes(3) b(1) by simp_all
  obtain d' where d': "materialize U specs ps batch = Ok d'" and d: "docs d' = map segment_doc_of ps"
    "targets d' = map (target_id_for \<circ> ts_bsp_id) specs" "target_metas d' = map target_meta_of specs"
    "ref_occurrences d' = po_ref ?po" "def_occurrences d' = po_def ?po" "rename_occurrences d' = po_rename ?po"
    "doc_occurrences d' = po_doc ?po" "length (rename_profiles d') = length (po_rename ?po)" "length (symbols d') = length ?keys"
    "\<And>i. i < length ?keys \<Longrightarrow> segment_symbol_of ?g (po_def_target ?po) (?keys ! i) = Ok (symbols d' ! i)"
    "symbol_metas d' = map (symbol_meta_of (info_by_key ?ds) (definitions_by_key ?ds)) ?keys"
    "mset (search_rows d') = mset (List.map_filter (search_row_of U (info_by_key ?ds) (definitions_by_key ?ds)) (enumerate 0 ?keys))"
    by (rule materialize_closed[OF assms(1), of specs]) (rule that; assumption)
  have dd: "d' = d" using d' assms(2) by simp
  note d = d[unfolded dd]
  note sym_ok = segment_symbol_valid[OF d(10) b(2) n(2) ps(2) sizes(1)]
  have len: "length (po_ref ?po) = length (ag_ref_groups ?g)" "length (po_def ?po) = length (ag_ref_groups ?g)"
    "length (po_rename ?po) = length (ag_ref_groups ?g)" "length (po_doc ?po) = length ps"
    using group_at_iff(2)[OF b(2)] by (simp_all add: postings_of_def Let_def)
  have "\<forall>doc \<in> set (docs d). sd_uri doc \<noteq> [] \<and> ord_in (sd_target_ord doc) (length specs)"
    using ps sizes(1) by (auto simp: d(1) segment_doc_of_def i32_ord)
  moreover have "\<forall>occs \<in> set (po_doc ?po). \<forall>oc \<in> set occs. ord_in (do_symbol_ord oc) (length ?keys) \<and> span_ok (do_span oc)"
    using doc_posting_valid[of _ ps ?ds ?keys] u n(1) spans' by (auto simp: postings_of_def Let_def)
  moreover have "\<forall>s \<in> set (symbols d). ord_opt (ss_ref_group_ord s) (length (ag_ref_groups ?g)) \<and>
      ord_opt (ss_rename_group_ord s) (length (ag_ref_groups ?g)) \<and> ord_opt (ss_def_target_ord s) (length specs)"
    using sym_ok d(9) by (auto simp: in_set_conv_nth)
  moreover have "\<forall>row \<in> set (search_rows d). ord_in (sr_symbol_ord row) (length ?keys)"
    using search_row_valid[OF _ n(1)] mset_eq_setD[OF d(12)] by blast
  moreover have "\<forall>m \<in> set (symbol_metas d). ord_opt (sm_def_doc_ord m) (length ps)"
    using symbol_meta_valid[of ?ds] ds sizes(2) by (auto simp: d(11))
  ultimately have "validate d = Ok ()"
    using postings_valid[OF sizes(2,1) ps(2) spans', of U batch "index_of ?keys"]
    by (simp add: validate_def seq_checks_def for_each_Ok require_def Let_def d(1-9) len del: for_each.simps) (simp add: d(11))
  moreover have "map ss_semantic_symbol (symbols d) = map encode_key ?keys"
    using d(9) sym_ok(1) by (intro nth_equalityI) simp_all
  then have "\<exists>ixs. sort_symbol_indices d = Ok ixs"
    using encode_key_distinct[of ?keys] u keys b(1) by (intro distinct_symbols_sort) simp
  ultimately show ?thesis by blast
qed


definition sample_fs :: file_system where
  "sample_fs = \<lparr>fs_walk = (\<lambda>_. [lit ''/o/META-INF/semanticdb/a/B.scala.semanticdb'']),
     fs_is_file = (\<lambda>p. p \<in> {lit ''/o/META-INF/semanticdb/a/B.scala.semanticdb'', lit ''/w/a/B.scala''}),
     fs_read = (\<lambda>p. if p = lit ''/w/a/B.scala'' then Some (lit ''class B'')
       else Some sample_file), fs_current_dir = [47]\<rparr>"

definition sample_spec :: target_spec where
  "sample_spec = target_spec_new (lit ''t'') (lit ''/o'') (lit ''/w'')"

definition sample_primary :: primary_doc where
  "sample_primary = \<lparr>pd_uri = lit ''a/B.scala'', pd_doc_id = doc_id_for (lit ''a/B.scala''), pd_epoch = 1, pd_target_ord = 0,
     pd_facts = workspace_source, pd_sdb = sample_document, pd_source_text = lit ''class B''\<rparr>"

lemma sample_listing: "list_semanticdb_files sample_fs (lit ''/o'') = [lit ''/o/META-INF/semanticdb/a/B.scala.semanticdb'']"
proof -
  have "last (split_on 47 (lit ''/o/META-INF/semanticdb/a/B.scala.semanticdb'')) = lit ''B.scala.semanticdb''"
    by (simp add: lit_def)
  then show ?thesis
    by (simp add: list_semanticdb_files_def sample_fs_def SEMANTICDB_SUFFIX_def utf8_valid_ascii suffix_def lit_def)
qed

lemma sample_collect: "\<exists>c. collect sample_fs Map.empty [sample_spec] = Ok c \<and> co_primaries c = [sample_primary]"
proof -
  let ?p = "lit ''/o/META-INF/semanticdb/a/B.scala.semanticdb''"
  have join: "path_join (lit ''/w'') (lit ''a/B.scala'') = lit ''/w/a/B.scala''" by (simp add: path_join_def lit_def)
  have source: "fs_is_file sample_fs (lit ''/w/a/B.scala'')" "read_to_string sample_fs (lit ''/w/a/B.scala'') = Some (lit ''class B'')"
    by (simp_all add: sample_fs_def read_to_string_def from_utf8_def utf8_valid_ascii lit_def)
  have "fs_read sample_fs ?p = Some sample_file"
    by (simp add: sample_fs_def lit_def)
  then have "parse_file sample_fs ?p = Ok [sample_document]" by (simp only: parse_file_def option.case sample_file_parses)
  then show ?thesis
    by (simp add: collect_def sample_spec_def target_spec_new_def sample_listing collect_file_def collect_document_def join source
        sample_document_def Let_def collected_empty_def next_epoch_def sample_primary_def)
qed

lemma sample_normalized:
  "normalized_of [sample_primary] = [normalize_document sample_document (doc_id_for (lit ''a/B.scala''))]"
  "sorted_keys [normalize_document sample_document i] = [symbol_key_global (lit ''a/B#'')]"
proof -
  have "\<not> sym_is_local (lit ''a/B#'')" by (simp add: sym_is_local_def lit_def prefix_def)
  then have key: "key_of (lit ''a/B#'') i = symbol_key_global (lit ''a/B#'')" by (simp add: key_of_def)
  have nonempty: "lit ''a/B#'' \<noteq> []" by (simp add: lit_def)
  have "\<not> is_constructor (lit ''a/B#'')" by code_simp
  then have "implied_class (symbol_key_global (lit ''a/B#'')) = []"
    by (simp add: implied_class_def symbol_key_global_def)
  then show "sorted_keys [normalize_document sample_document i] = [symbol_key_global (lit ''a/B#'')]"
    by (simp add: sorted_keys_def seen_keys_def document_keys_def normalize_document_def sample_document_def sample_symbol_info_def
        sample_occurrence_def normalize_symbol_def normalize_occurrence_def sample_range_def role_of_def new_occurrence_def
        List.map_filter_def key nonempty)
  show "normalized_of [sample_primary] = [normalize_document sample_document (doc_id_for (lit ''a/B.scala''))]"
    by (simp add: normalized_of_def sample_primary_def)
qed


end
