(* ===== verification/Engine_Query.thy ===== *)
theory Engine_Query
  imports Ingest_Writable Sample_Store Search Segment_Lookup
begin

text \<open>
  The query orchestrator of \<open>crates/ls-engine/src/orchestrator.rs\<close> and its overlay interface
  (\<open>overlay.rs\<close>): the three ways a position is resolved to a symbol (overlay, snapshot, raw SemanticDB file)
  with the write-through that heals the index, the freshness check, target pruning, and the index lookups the
  presentation compiler asks for.

  The orchestrator is a record of the store, the overlay, the write-through mode and the workspace; its
  operations return the orchestrator they leave behind, because resolving a position may ingest. What they
  take from outside is the record \<open>query_env\<close>: the character classes, the file system, the checksum, the manifest
  encoder and the clock. The mutexes make each ingest one step; the label of the thread that last wrote
  through is left out. A reader accessor of an opened segment has no error of its own, so its result enters
  the query as a value or a panic.
\<close>

section \<open>Errors and searches\<close>

type_synonym 'a ls_result = "('a, ls_error) outcome"

fun read_seg :: "'a seg_result \<Rightarrow> ('a, 'e) outcome" where
  "read_seg (Ok x) = Ok x"
| "read_seg _ = Panic"

text \<open>\<open>Iterator::find\<close> with a predicate that may panic.\<close>
fun find_o :: "('a \<Rightarrow> (bool, 'e) outcome) \<Rightarrow> 'a list \<Rightarrow> ('a option, 'e) outcome" where
  "find_o p [] = Ok None"
| "find_o p (x # xs) = and_then (p x) (\<lambda>b. if b then Ok (Some x) else find_o p xs)"

section \<open>The state\<close>

record query_env =
  w_unicode :: unicode
  w_fs :: file_system
  w_crc :: "byte list \<Rightarrow> u32"
  w_to_json :: "manifest \<Rightarrow> byte list"
  w_now_ms :: i64

record overlay_hit =
  ovh_semantic_symbol :: str
  ovh_span :: span
  ovh_role :: role
  ovh_pc_only :: bool

record dirty_buffer_overlay =
  ov_is_dirty :: "str \<Rightarrow> bool"
  ov_symbol_at :: "str \<Rightarrow> u32 \<Rightarrow> u32 \<Rightarrow> overlay_hit option"
  ov_occurrences_of :: "str \<Rightarrow> loc list option"
  ov_contributes_occurrences :: bool

definition noop_overlay :: dirty_buffer_overlay where
  "noop_overlay = \<lparr>ov_is_dirty = (\<lambda>_. False), ov_symbol_at = (\<lambda>_ _ _. None), ov_occurrences_of = (\<lambda>_. None),
     ov_contributes_occurrences = False\<rparr>"

record query_orchestrator =
  or_store :: store
  or_overlay :: dirty_buffer_overlay
  or_sync_write_through :: bool
  or_workspace :: "workspace_targets option"

definition orchestrator_new :: "store \<Rightarrow> dirty_buffer_overlay \<Rightarrow> bool \<Rightarrow> query_orchestrator" where
  "orchestrator_new st overlay sync = \<lparr>or_store = st, or_overlay = overlay, or_sync_write_through = sync, or_workspace = None\<rparr>"

definition with_defaults :: "store \<Rightarrow> query_orchestrator" where
  "with_defaults st = orchestrator_new st noop_overlay True"

datatype resolution_source = SourceSnapshot | SourceRawSemanticdb | SourceOverlay

record cursor_symbol =
  cs_uri :: str
  cs_semantic_symbol :: str
  cs_local_doc_id :: "u64 option"
  cs_span :: span
  cs_role :: role
  cs_source :: resolution_source
  cs_needs_reindex :: bool
  cs_pc_only :: bool

definition encoded_symbol :: "cursor_symbol \<Rightarrow> str" where
  "encoded_symbol c = encode_symbol (cs_semantic_symbol c) (cs_local_doc_id c)"

abbreviation current_snapshot :: "query_orchestrator \<Rightarrow> snapshot option" where
  "current_snapshot orch \<equiv> st_current (or_store orch)"

section \<open>Ingest\<close>

text \<open>\<open>ingest::ingest\<close>: the previous state comes from the current snapshot, the data goes to \<open>publish\<close>.\<close>
definition ingest :: "query_env \<Rightarrow> workspace_targets \<Rightarrow> store \<Rightarrow> store \<times> (ingest_report \<times> snapshot) store_result" where
  "ingest W ws st =
     (let prev = (case st_current st of Some snap \<Rightarrow> state_decode (ws_payload (sn_state snap)) | None \<Rightarrow> Map.empty)
      in case ingest_data (w_unicode W) (w_fs W) prev (ws_targets ws) of
           Ok (d, payload, report) \<Rightarrow>
             (case publish (w_crc W) (w_to_json W) d payload (w_now_ms W) st of
                (st', Ok snap) \<Rightarrow> (run_janitor st', Ok (report, snap))
              | (st', Err e) \<Rightarrow> (st', Err e)
              | (st', Panic) \<Rightarrow> (st', Panic))
         | _ \<Rightarrow> (st, Panic))"

text \<open>The snapshot an ingest returns is dropped when the caller returns.\<close>
definition orch_ingest :: "query_env \<Rightarrow> workspace_targets \<Rightarrow> query_orchestrator \<Rightarrow> query_orchestrator \<times> ingest_report store_result" where
  "orch_ingest W ws orch =
     (case ingest W ws (or_store orch) of
        (st, Ok (report, snap)) \<Rightarrow> (orch\<lparr>or_store := release (sn_generation snap) st, or_workspace := Some ws\<rparr>, Ok report)
      | (st, Err e) \<Rightarrow> (orch\<lparr>or_store := st\<rparr>, Err e)
      | (st, Panic) \<Rightarrow> (orch\<lparr>or_store := st\<rparr>, Panic))"

definition reingest_current :: "query_env \<Rightarrow> query_orchestrator \<Rightarrow> query_orchestrator \<times> ingest_report store_result option" where
  "reingest_current W orch =
     (case or_workspace orch of
        None \<Rightarrow> (orch, None)
      | Some ws \<Rightarrow>
          if ws_targets ws = [] then (orch, None)
          else (case ingest W ws (or_store orch) of
                  (st, Ok (report, snap)) \<Rightarrow> (orch\<lparr>or_store := release (sn_generation snap) st\<rparr>, Some (Ok report))
                | (st, Err e) \<Rightarrow> (orch\<lparr>or_store := st\<rparr>, Some (Err e))
                | (st, Panic) \<Rightarrow> (orch\<lparr>or_store := st\<rparr>, Some Panic)))"

text \<open>Whether the raw path healed the index; a failed ingest does not reach the caller.\<close>
definition write_through_raw_path :: "query_env \<Rightarrow> query_orchestrator \<Rightarrow> query_orchestrator \<times> (bool, 'e) outcome" where
  "write_through_raw_path W orch =
     (if \<not> or_sync_write_through orch then (orch, Ok False)
      else case or_workspace orch of
          None \<Rightarrow> (orch, Ok False)
        | Some ws \<Rightarrow>
            (case ingest W ws (or_store orch) of
               (st, Ok (report, snap)) \<Rightarrow> (orch\<lparr>or_store := release (sn_generation snap) st\<rparr>, Ok True)
             | (st, Err e) \<Rightarrow> (orch\<lparr>or_store := st\<rparr>, Ok False)
             | (st, Panic) \<Rightarrow> (orch\<lparr>or_store := st\<rparr>, Panic)))"

section \<open>Sources and freshness\<close>

definition doc_ord_of :: "segment_reader \<Rightarrow> str \<Rightarrow> (nat option, 'e) outcome" where
  "doc_ord_of rd uri = find_o (\<lambda>d. and_then (read_seg (uri_of rd d)) (\<lambda>u. Ok (u = uri))) [0..<unat (rd_doc_count rd)]"

definition has_active_document :: "query_orchestrator \<Rightarrow> str \<Rightarrow> (bool, 'e) outcome" where
  "has_active_document orch sdb_uri =
     (case current_snapshot orch of
        None \<Rightarrow> Ok False
      | Some snap \<Rightarrow> and_then (doc_ord_of (sn_segment snap) sdb_uri) (\<lambda>d. Ok (d \<noteq> None)))"

text \<open>The SemanticDB file of a uri below one target root, when it exists.\<close>
definition existing_file :: "file_system \<Rightarrow> str \<Rightarrow> target_spec \<Rightarrow> str option" where
  "existing_file fs uri spec =
     (case semanticdb_file_for (ts_semanticdb_root spec) uri of
        Ok file_path \<Rightarrow> if fs_is_file fs file_path then Some file_path else None
      | _ \<Rightarrow> None)"

definition primary_spec_of :: "file_system \<Rightarrow> query_orchestrator \<Rightarrow> str \<Rightarrow> target_spec option" where
  "primary_spec_of fs orch uri =
     Option.bind (or_workspace orch) (\<lambda>ws. find (\<lambda>spec. existing_file fs uri spec \<noteq> None) (ws_targets ws))"

definition primary_bsp_of :: "file_system \<Rightarrow> query_orchestrator \<Rightarrow> str \<Rightarrow> str option" where
  "primary_bsp_of fs orch uri = map_option ts_bsp_id (primary_spec_of fs orch uri)"

definition source_target_of :: "file_system \<Rightarrow> query_orchestrator \<Rightarrow> str \<Rightarrow> target_spec option" where
  "source_target_of fs orch uri =
     Option.bind (or_workspace orch) (\<lambda>ws. find (\<lambda>spec. fs_is_file fs (path_join (ts_sourceroot spec) uri)) (ws_targets ws))"

definition semanticdb_files_for :: "file_system \<Rightarrow> query_orchestrator \<Rightarrow> str \<Rightarrow> str list" where
  "semanticdb_files_for fs orch uri =
     (case or_workspace orch of None \<Rightarrow> [] | Some ws \<Rightarrow> List.map_filter (existing_file fs uri) (ws_targets ws))"

definition absolute_source_path :: "file_system \<Rightarrow> query_orchestrator \<Rightarrow> str \<Rightarrow> str option" where
  "absolute_source_path fs orch uri = map_option (\<lambda>s. path_join (ts_sourceroot s) uri) (primary_spec_of fs orch uri)"

definition source_text_of :: "file_system \<Rightarrow> query_orchestrator \<Rightarrow> str \<Rightarrow> str option" where
  "source_text_of fs orch uri =
     Option.bind (absolute_source_path fs orch uri) (\<lambda>p. if fs_is_file fs p then read_to_string fs p else None)"

definition ingested_md5 :: "snapshot \<Rightarrow> str \<Rightarrow> str option" where
  "ingested_md5 snap uri = map_option ds_md5 (state_decode (ws_payload (sn_state snap)) uri)"

definition source_is_fresh :: "file_system \<Rightarrow> query_orchestrator \<Rightarrow> snapshot \<Rightarrow> str \<Rightarrow> bool" where
  "source_is_fresh fs orch snap uri =
     (case ingested_md5 snap uri of
        None \<Rightarrow> False
      | Some md5v \<Rightarrow>
          (case source_text_of fs orch uri of Some txt \<Rightarrow> is_fresh (validate_md5 txt md5v) | None \<Rightarrow> False))"

definition source_is_fresh_uri :: "file_system \<Rightarrow> query_orchestrator \<Rightarrow> str \<Rightarrow> bool" where
  "source_is_fresh_uri fs orch uri =
     (case current_snapshot orch of Some snap \<Rightarrow> source_is_fresh fs orch snap uri | None \<Rightarrow> False)"

section \<open>Symbol at cursor\<close>

definition occ_consider :: "u32 \<Rightarrow> occurrence \<Rightarrow> occurrence option \<times> u32 \<times> u32 \<Rightarrow> occurrence option \<times> u32 \<times> u32" where
  "occ_consider q oc = (\<lambda>(best, best_size, best_start).
     let ps = pack (start_line (oc_span oc)) (start_char (oc_span oc));
         pe = pack (end_line (oc_span oc)) (end_char (oc_span oc))
     in if ps \<le> q \<and> q \<le> pe \<and> (pe - ps < best_size \<or> (pe - ps = best_size \<and> ps < best_start))
        then (Some oc, pe - ps, ps) else (best, best_size, best_start))"

definition occurrence_at :: "occurrence list \<Rightarrow> u32 \<Rightarrow> u32 \<Rightarrow> occurrence option" where
  "occurrence_at occurrences ln cl = fst (fold (occ_consider (pack ln cl)) occurrences (None, - 1, - 1))"

definition raw_normalized_doc :: "query_env \<Rightarrow> query_orchestrator \<Rightarrow> str \<Rightarrow> normalized_document ls_result" where
  "raw_normalized_doc W orch uri =
     (case primary_spec_of (w_fs W) orch uri of
        None \<Rightarrow> Err (if source_target_of (w_fs W) orch uri \<noteq> None then NoSemanticdb uri else NotIndexed uri)
      | Some spec \<Rightarrow>
          and_then (map_err (\<lambda>_. StaleIndex uri) (semanticdb_file_for (ts_semanticdb_root spec) uri)) (\<lambda>file_path.
          and_then (map_err (\<lambda>_. StaleIndex uri) (parse_file (w_fs W) file_path)) (\<lambda>documents.
          and_then (ok_or (find (\<lambda>d. sdoc_uri d = uri) documents) (StaleIndex uri)) (\<lambda>sdb.
          and_then (ok_or (source_text_of (w_fs W) orch uri) (StaleIndex uri)) (\<lambda>txt.
            if \<not> is_fresh (validate_doc txt sdb) then Err (StaleIndex uri)
            else Ok (normalize_document sdb (doc_id_for uri)))))))"

definition raw_semanticdb_cursor :: "query_env \<Rightarrow> query_orchestrator \<Rightarrow> str \<Rightarrow> u32 \<Rightarrow> u32 \<Rightarrow> cursor_symbol ls_result" where
  "raw_semanticdb_cursor W orch uri ln cl =
     and_then (raw_normalized_doc W orch uri) (\<lambda>doc.
       case occurrence_at (nd_occurrences doc) ln cl of
         Some oc \<Rightarrow>
           Ok \<lparr>cs_uri = uri, cs_semantic_symbol = semantic_symbol (oc_key oc), cs_local_doc_id = local_doc (oc_key oc),
               cs_span = oc_span oc, cs_role = oc_role oc, cs_source = SourceRawSemanticdb, cs_needs_reindex = True,
               cs_pc_only = False\<rparr>
       | None \<Rightarrow> Err (NoSymbolAtCursor uri ln cl))"

definition raw_doc_occurrences :: "query_env \<Rightarrow> query_orchestrator \<Rightarrow> str \<Rightarrow> str \<Rightarrow> (span \<times> role) list ls_result" where
  "raw_doc_occurrences W orch uri sm =
     (case raw_normalized_doc W orch uri of
        Ok doc \<Rightarrow> Ok (map (\<lambda>oc. (oc_span oc, oc_role oc)) (filter (\<lambda>oc. semantic_symbol (oc_key oc) = sm) (nd_occurrences doc)))
      | Err _ \<Rightarrow> Ok []
      | Panic \<Rightarrow> Panic)"

definition snapshot_cursor :: "query_env \<Rightarrow> query_orchestrator \<Rightarrow> snapshot \<Rightarrow> str \<Rightarrow> u32 \<Rightarrow> u32 \<Rightarrow> cursor_symbol option ls_result" where
  "snapshot_cursor W orch snap uri ln cl =
     and_then (doc_ord_of (sn_segment snap) uri) (\<lambda>found.
       case found of
         None \<Rightarrow> Ok None
       | Some doc_ord \<Rightarrow>
           if \<not> source_is_fresh (w_fs W) orch snap uri then Ok None
           else and_then (read_seg (symbol_at (sn_segment snap) (word_of_nat doc_ord) ln cl)) (\<lambda>hit.
             case hit of
               None \<Rightarrow> Err (NoSymbolAtCursor uri ln cl)
             | Some h \<Rightarrow>
                 and_then (read_seg (semantic_symbol_of (sn_segment snap) (unat (oh_symbol_ord h)))) (\<lambda>encoded.
                   let (raw, local_doc_id) = decode_symbol encoded
                   in Ok (Some \<lparr>cs_uri = uri, cs_semantic_symbol = raw, cs_local_doc_id = local_doc_id, cs_span = oh_span h,
                        cs_role = oh_role h, cs_source = SourceSnapshot, cs_needs_reindex = False, cs_pc_only = False\<rparr>))))"

definition overlay_cursor :: "str \<Rightarrow> overlay_hit \<Rightarrow> cursor_symbol" where
  "overlay_cursor uri hit =
     \<lparr>cs_uri = uri, cs_semantic_symbol = ovh_semantic_symbol hit, cs_local_doc_id = None, cs_span = ovh_span hit,
      cs_role = ovh_role hit, cs_source = SourceOverlay, cs_needs_reindex = False, cs_pc_only = ovh_pc_only hit\<rparr>"

definition symbol_at_cursor ::
  "query_env \<Rightarrow> str \<Rightarrow> u32 \<Rightarrow> u32 \<Rightarrow> query_orchestrator \<Rightarrow> query_orchestrator \<times> cursor_symbol ls_result" where
  "symbol_at_cursor W uri ln cl orch =
     (if ov_is_dirty (or_overlay orch) uri
      then (orch, case ov_symbol_at (or_overlay orch) uri ln cl of
                    Some hit \<Rightarrow> Ok (overlay_cursor uri hit)
                  | None \<Rightarrow> Err (StaleIndex uri))
      else case (case current_snapshot orch of
                   Some snap \<Rightarrow> snapshot_cursor W orch snap uri ln cl
                 | None \<Rightarrow> Ok None) of
          Ok (Some hit) \<Rightarrow> (orch, Ok hit)
        | Ok None \<Rightarrow>
            (case raw_semanticdb_cursor W orch uri ln cl of
               Ok cursor \<Rightarrow>
                 (case write_through_raw_path W orch of
                    (orch', healed) \<Rightarrow> (orch', and_then healed (\<lambda>b. Ok (if b then cursor\<lparr>cs_needs_reindex := False\<rparr> else cursor))))
             | Err e \<Rightarrow> (orch, Err e)
             | Panic \<Rightarrow> (orch, Panic))
        | Err e \<Rightarrow> (orch, Err e)
        | Panic \<Rightarrow> (orch, Panic))"

section \<open>Target pruning\<close>

text \<open>The id of a target is entered at its ordinal, a later one replacing an earlier one.\<close>
definition bsp_to_ord :: "segment_reader \<Rightarrow> (str \<rightharpoonup> nat, 'e) outcome" where
  "bsp_to_ord rd =
     and_then (map_o (\<lambda>ord. read_seg (target_meta rd ord)) [0..<rd_target_count rd]) (\<lambda>metas.
       Ok (map_of (rev (zip (map tm_bsp_id metas) [0..<rd_target_count rd]))))"

text \<open>The closure always ends (\<open>Engine_Targets\<close>); its order is lost in the sort.\<close>
definition allowed_targets_for :: "query_orchestrator \<Rightarrow> segment_reader \<Rightarrow> nat \<Rightarrow> (target_bitset, 'e) outcome" where
  "allowed_targets_for orch rd sym_ord =
     (let target_count = word_of_nat (rd_target_count rd) :: u32
      in and_then (case all_set target_count of Ok a \<Rightarrow> Ok a | _ \<Rightarrow> Panic) (\<lambda>everything.
         and_then (read_seg (symbol_view_at rd sym_ord)) (\<lambda>v.
         if sint (sv_def_target_ord v) < 0 then Ok everything
         else let def_ord = unat (sv_def_target_ord v)
              in and_then (read_seg (target_meta rd def_ord)) (\<lambda>meta.
                 case or_workspace orch of
                   None \<Rightarrow> Ok everything
                 | Some ws \<Rightarrow>
                     and_then (unwrap (reverse_dependency_closure ws (tm_bsp_id meta))) (\<lambda>closed.
                     if closed = {} then Ok everything
                     else and_then (bsp_to_ord rd) (\<lambda>to_ord.
                       let ords = sort (remdups (filter (\<lambda>ord. \<exists>b \<in> closed. to_ord b = Some ord) [0..<rd_target_count rd] @ [def_ord]))
                       in case of_ords target_count (map word_of_nat ords) of Ok a \<Rightarrow> Ok a | _ \<Rightarrow> Panic))))))"

definition definition_bsp_of :: "segment_reader \<Rightarrow> nat \<Rightarrow> (str option, 'e) outcome" where
  "definition_bsp_of rd sym_ord =
     and_then (read_seg (symbol_view_at rd sym_ord)) (\<lambda>v.
       if sint (sv_def_target_ord v) < 0 then Ok None
       else and_then (read_seg (target_meta rd (unat (sv_def_target_ord v)))) (\<lambda>m. Ok (Some (tm_bsp_id m))))"

end
