(* ===== verification/Engine_References.thy ===== *)
theory Engine_References
  imports Engine_Query
begin

text \<open>
  Workspace references (\<open>crates/ls-engine/src/references.rs\<close>) and document highlights (\<open>highlight.rs\<close>) over
  the postings of a snapshot.
\<close>

section \<open>References\<close>

record reference_hit =
  rh_loc :: loc
  rh_role :: role
  rh_from_overlay :: bool

record references_result =
  rr_hits :: "reference_hit list"
  rr_needs_reindex :: bool

definition locations :: "references_result \<Rightarrow> loc list" where
  "locations r = map rh_loc (rr_hits r)"

definition unpack_span :: "i32 \<Rightarrow> i32 \<Rightarrow> span" where
  "unpack_span ps pe = new_span (unpack_line ps) (unpack_char ps) (unpack_line pe) (unpack_char pe)"

definition record_to_hit :: "segment_reader \<Rightarrow> group_rec \<Rightarrow> (reference_hit, 'e) outcome" where
  "record_to_hit rd rec =
     and_then (read_seg (uri_of rd (unat (gr_doc_ord rec)))) (\<lambda>uri.
       Ok \<lparr>rh_loc = \<lparr>loc_uri = uri, loc_span = unpack_span (gr_packed_start rec) (gr_packed_end rec)\<rparr>,
           rh_role = (if has (gr_flags rec) DEFINITION then Definition else Reference), rh_from_overlay = False\<rparr>)"

text \<open>The closure passed to the scans: the allowed set is enforced for definitions too.\<close>
definition hit_sink :: "segment_reader \<Rightarrow> target_bitset \<Rightarrow> group_rec \<Rightarrow> reference_hit list \<Rightarrow> (reference_hit list, 'e) outcome" where
  "hit_sink rd allowed rec out =
     (if contains_ord allowed (gr_target_ord rec) then and_then (record_to_hit rd rec) (\<lambda>h. Ok (out @ [h])) else Ok out)"

definition raw_fallback :: "query_env \<Rightarrow> query_orchestrator \<Rightarrow> cursor_symbol \<Rightarrow> bool \<Rightarrow> reference_hit list ls_result" where
  "raw_fallback W orch cursor include_declaration =
     and_then (raw_doc_occurrences W orch (cs_uri cursor) (cs_semantic_symbol cursor)) (\<lambda>occs.
       Ok (map (\<lambda>(sp, r). \<lparr>rh_loc = \<lparr>loc_uri = cs_uri cursor, loc_span = sp\<rparr>, rh_role = r, rh_from_overlay = False\<rparr>)
         (filter (\<lambda>(_, r). include_declaration \<or> r = Reference) occs)))"

definition snapshot_hits :: "query_env \<Rightarrow> query_orchestrator \<Rightarrow> segment_reader \<Rightarrow> cursor_symbol \<Rightarrow> bool \<Rightarrow> reference_hit list ls_result" where
  "snapshot_hits W orch rd cursor include_declaration =
     and_then (read_seg (find_symbol_ord rd (encoded_symbol cursor))) (\<lambda>found.
       case found of
         None \<Rightarrow>
           if cs_source cursor = SourceRawSemanticdb then raw_fallback W orch cursor include_declaration
           else Err (StaleIndex (cs_uri cursor))
       | Some ord \<Rightarrow>
           and_then (read_seg (symbol_view_at rd ord)) (\<lambda>v.
           if sint (sv_ref_group_ord v) < 0 then Ok []
           else and_then (allowed_targets_for orch rd ord) (\<lambda>allowed.
                and_then (read_seg (scan_ref_group rd (unat (sv_ref_group_ord v)) (Some allowed))) (\<lambda>refs.
                and_then (fold_o (hit_sink rd allowed) refs []) (\<lambda>out.
                if include_declaration
                then and_then (read_seg (scan_def_group rd (unat (sv_ref_group_ord v)))) (\<lambda>defs. fold_o (hit_sink rd allowed) defs out)
                else Ok out)))))"

definition same_group_symbol :: "segment_reader \<Rightarrow> i32 \<Rightarrow> nat \<Rightarrow> str list \<Rightarrow> (str list, 'e) outcome" where
  "same_group_symbol rd g ord out =
     and_then (read_seg (symbol_view_at rd ord)) (\<lambda>v.
       if sv_ref_group_ord v = g
       then and_then (read_seg (semantic_symbol_of rd ord)) (\<lambda>sm. Ok (out @ [fst (decode_symbol sm)]))
       else Ok out)"

text \<open>\<open>dedupe_preserve\<close>: the first of equal strings stays.\<close>
fun dedupe_by :: "('a \<Rightarrow> 'k) \<Rightarrow> 'k set \<Rightarrow> 'a list \<Rightarrow> 'a list" where
  "dedupe_by f seen [] = []"
| "dedupe_by f seen (x # xs) = (if f x \<in> seen then dedupe_by f seen xs else x # dedupe_by f (insert (f x) seen) xs)"

definition overlay_group_symbols :: "query_orchestrator \<Rightarrow> cursor_symbol \<Rightarrow> (str list, 'e) outcome" where
  "overlay_group_symbols orch cursor =
     (let out = [cs_semantic_symbol cursor]
      in and_then (case current_snapshot orch of
           None \<Rightarrow> Ok out
         | Some snap \<Rightarrow>
             let rd = sn_segment snap
             in and_then (read_seg (find_symbol_ord rd (encoded_symbol cursor))) (\<lambda>found.
                case found of
                  None \<Rightarrow> Ok out
                | Some ord \<Rightarrow>
                    and_then (read_seg (symbol_view_at rd ord)) (\<lambda>v.
                      if sint (sv_ref_group_ord v) < 0 then Ok out
                      else fold_o (same_group_symbol rd (sv_ref_group_ord v)) [0..<rd_symbol_count rd] out)))
         (\<lambda>syms. Ok (dedupe_by id {} syms)))"

text \<open>Overlay locations are taken once per span.\<close>
definition overlay_hits :: "query_orchestrator \<Rightarrow> cursor_symbol \<Rightarrow> (reference_hit list, 'e) outcome" where
  "overlay_hits orch cursor =
     (if \<not> ov_contributes_occurrences (or_overlay orch) then Ok []
      else and_then (overlay_group_symbols orch cursor) (\<lambda>syms.
        Ok (map (\<lambda>l. \<lparr>rh_loc = l, rh_role = Reference, rh_from_overlay = True\<rparr>)
          (dedupe_by loc_span {} (concat (map (\<lambda>s. case ov_occurrences_of (or_overlay orch) s of Some ls \<Rightarrow> ls | None \<Rightarrow> []) syms))))))"

definition span_key :: "span \<Rightarrow> u32 \<times> u32 \<times> u32 \<times> u32" where
  "span_key s = (start_line s, start_char s, end_line s, end_char s)"

definition loc_key :: "loc \<Rightarrow> str \<times> u32 \<times> u32 \<times> u32 \<times> u32" where
  "loc_key l = (loc_uri l, span_key (loc_span l))"

definition dedupe_and_sort_hits :: "reference_hit list \<Rightarrow> reference_hit list" where
  "dedupe_and_sort_hits hs0 = sort_key (loc_key \<circ> rh_loc) (dedupe_by (\<lambda>h. (loc_uri (rh_loc h), loc_span (rh_loc h))) {} hs0)"

definition references ::
  "query_env \<Rightarrow> str \<Rightarrow> u32 \<Rightarrow> u32 \<Rightarrow> bool \<Rightarrow> query_orchestrator \<Rightarrow> query_orchestrator \<times> references_result ls_result" where
  "references W uri ln cl include_declaration orch0 =
     (case symbol_at_cursor W uri ln cl orch0 of
        (orch, found) \<Rightarrow>
          (orch, and_then found (\<lambda>cursor.
             if cs_pc_only cursor then Err PcOnlySymbol
             else and_then
               (case current_snapshot orch of
                  Some snap \<Rightarrow> snapshot_hits W orch (sn_segment snap) cursor include_declaration
                | None \<Rightarrow>
                    if cs_source cursor = SourceRawSemanticdb then raw_fallback W orch cursor include_declaration
                    else Err (NotIndexed uri)) (\<lambda>index_hits.
               and_then (overlay_hits orch cursor) (\<lambda>ovs.
                 Ok \<lparr>rr_hits = dedupe_and_sort_hits (index_hits @ ovs), rr_needs_reindex = cs_needs_reindex cursor\<rparr>)))))"

section \<open>Highlights\<close>

datatype highlight_kind = Read | Write

record doc_highlight =
  dh_span :: span
  dh_kind :: highlight_kind

fun kind_of :: "role \<Rightarrow> highlight_kind" where
  "kind_of Definition = Write"
| "kind_of Reference = Read"

definition record_to_highlight :: "group_rec \<Rightarrow> doc_highlight" where
  "record_to_highlight rec =
     \<lparr>dh_span = unpack_span (gr_packed_start rec) (gr_packed_end rec),
      dh_kind = (if has (gr_flags rec) DEFINITION then Write else Read)\<rparr>"

definition snapshot_highlights :: "segment_reader \<Rightarrow> cursor_symbol \<Rightarrow> (doc_highlight list option, 'e) outcome" where
  "snapshot_highlights rd cursor =
     and_then (doc_ord_of rd (cs_uri cursor)) (\<lambda>doc.
     case doc of
       None \<Rightarrow> Ok None
     | Some doc_ord \<Rightarrow>
         and_then (read_seg (find_symbol_ord rd (encoded_symbol cursor))) (\<lambda>found.
         case found of
           None \<Rightarrow> Ok None
         | Some ord \<Rightarrow>
             and_then (read_seg (symbol_view_at rd ord)) (\<lambda>v.
             if sint (sv_ref_group_ord v) < 0 then Ok (Some [])
             else and_then (read_seg (scan_ref_group rd (unat (sv_ref_group_ord v)) None)) (\<lambda>refs.
                  and_then (read_seg (scan_def_group rd (unat (sv_ref_group_ord v)))) (\<lambda>defs.
                    Ok (Some (map record_to_highlight (filter (\<lambda>rec. unat (gr_doc_ord rec) = doc_ord) (refs @ defs)))))))))"

definition dedupe_and_sort_highlights :: "doc_highlight list \<Rightarrow> doc_highlight list" where
  "dedupe_and_sort_highlights hs0 = sort_key (span_key \<circ> dh_span) (dedupe_by id {} hs0)"

definition highlights :: "query_env \<Rightarrow> str \<Rightarrow> u32 \<Rightarrow> u32 \<Rightarrow> query_orchestrator \<Rightarrow> query_orchestrator \<times> doc_highlight list ls_result" where
  "highlights W uri ln cl orch0 =
     (case symbol_at_cursor W uri ln cl orch0 of
        (orch, found) \<Rightarrow>
          (orch, and_then found (\<lambda>cursor.
             if cs_pc_only cursor then Err PcOnlySymbol
             else and_then (case current_snapshot orch of None \<Rightarrow> Ok None | Some snap \<Rightarrow> snapshot_highlights (sn_segment snap) cursor) (\<lambda>hs0.
               and_then (case hs0 of
                   Some hs \<Rightarrow> Ok hs
                 | None \<Rightarrow>
                     if cs_source cursor = SourceRawSemanticdb
                     then and_then (raw_doc_occurrences W orch (cs_uri cursor) (cs_semantic_symbol cursor)) (\<lambda>occs.
                       Ok (map (\<lambda>(sp, r). \<lparr>dh_span = sp, dh_kind = kind_of r\<rparr>) occs))
                     else Err (NotIndexed uri)) (\<lambda>hs. Ok (dedupe_and_sort_highlights hs))))))"

end
