(* ===== verification/Engine_Rename.thy ===== *)
theory Engine_Rename
  imports Engine_References
begin

text \<open>
  Rename: the validation of the new name (\<open>crates/ls-engine/src/identifiers.rs\<close>) and the pipeline of
  \<open>rename.rs\<close>: checks on the current state, a compile of the affected targets, a fresh ingest, resolution on
  the fresh snapshot, the unsafe-reason gate, the editable postings, the agreement of the targets that share
  an edited source, and a last freshness check.

  The compile service is a parameter: it takes the file system and the target ids, says whether the build
  succeeded and returns the file system it leaves. The edits of a plan, a \<open>BTreeMap\<close>, are an association
  list sorted by uri.
\<close>

section \<open>Identifiers\<close>

definition KEYWORDS :: "str list" where
  "KEYWORDS = map lit
     [''abstract'', ''case'', ''catch'', ''class'', ''def'', ''do'', ''else'', ''enum'', ''export'', ''extends'', ''false'',
      ''final'', ''finally'', ''for'', ''given'', ''if'', ''implicit'', ''import'', ''lazy'', ''match'', ''new'', ''null'',
      ''object'', ''override'', ''package'', ''private'', ''protected'', ''return'', ''sealed'', ''super'', ''then'', ''throw'',
      ''trait'', ''true'', ''try'', ''type'', ''val'', ''var'', ''while'', ''with'', ''yield'', ''_'', '':'', ''='', ''<-'', ''=>'',
      ''<:'', ''>:'', ''#'', ''@'', ''=>>'', ''?=>'']"

definition is_keyword :: "str \<Rightarrow> bool" where
  "is_keyword name \<longleftrightarrow> name \<in> set KEYWORDS"

definition is_op_char :: "rchar \<Rightarrow> bool" where
  "is_op_char c \<longleftrightarrow> c \<in> set (map (\<lambda>x. lit [x]) (''!#%&*+-/:<=>?@'' @ [CHR 0x5C] @ ''^|~''))"

definition is_id_start :: "unicode \<Rightarrow> rchar \<Rightarrow> bool" where
  "is_id_start U c \<longleftrightarrow> c = lit ''_'' \<or> c = lit ''$'' \<or> is_alphabetic U c"

definition is_id_part :: "unicode \<Rightarrow> rchar \<Rightarrow> bool" where
  "is_id_part U c \<longleftrightarrow> c = lit ''$'' \<or> c = lit ''_'' \<or> is_alphanumeric U c"

text \<open>\<open>str::rfind\<close> of an ASCII character.\<close>
fun rfind_byte :: "byte \<Rightarrow> str \<Rightarrow> nat option" where
  "rfind_byte b [] = None"
| "rfind_byte b (x # xs) =
     (case rfind_byte b xs of Some i \<Rightarrow> Some (Suc i) | None \<Rightarrow> if x = b then Some 0 else None)"

definition is_plain_identifier :: "unicode \<Rightarrow> str \<Rightarrow> bool" where
  "is_plain_identifier U name =
     (if name = [] then False
      else if list_all is_op_char (chars name) then True
      else if \<not> is_id_start U (hd (chars name)) then False
      else let (alnum, op) =
             (case rfind_byte 0x5F name of
                Some u \<Rightarrow>
                  if u < length name - 1 \<and> list_all is_op_char (chars (drop (u + 1) name)) \<and>
                     list_all (is_id_part U) (chars (take (u + 1) name))
                  then (take (u + 1) name, drop (u + 1) name) else (name, [])
              | None \<Rightarrow> (name, []))
           in list_all (is_id_part U) (chars alnum) \<and> (op = [] \<or> list_all is_op_char (chars op)))"

definition encode_identifier :: "unicode \<Rightarrow> str \<Rightarrow> (str, str) outcome" where
  "encode_identifier U name =
     (if name = [] then Err (lit ''new name must not be empty'')
      else if list_ex (\<lambda>c. c = backtick \<or> c = [10] \<or> c = [13]) (chars name)
      then Err ([39] @ name @ [39] @ lit '' is not a valid Scala identifier'')
      else if is_plain_identifier U name \<and> \<not> is_keyword name then Ok name
      else Ok (backtick @ name @ backtick))"

section \<open>Queries that leave a state\<close>

type_synonym 'a query = "query_orchestrator \<Rightarrow> query_orchestrator \<times> 'a ls_result"

definition q_lift :: "(query_orchestrator \<Rightarrow> 'a ls_result) \<Rightarrow> 'a query" where
  "q_lift f orch = (orch, f orch)"

definition q_bind :: "'a query \<Rightarrow> ('a \<Rightarrow> 'b query) \<Rightarrow> 'b query" where
  "q_bind m f orch =
     (case m orch of (orch', Ok x) \<Rightarrow> f x orch' | (orch', Err e) \<Rightarrow> (orch', Err e) | (orch', Panic) \<Rightarrow> (orch', Panic))"

section \<open>The pipeline\<close>

type_synonym compile_service = "file_system \<Rightarrow> str list \<Rightarrow> bool \<times> file_system"

record text_edit_span =
  te_span :: span
  te_new_text :: str

record workspace_edit_plan =
  ep_edits :: "(str \<times> text_edit_span list) list"
  ep_occurrence_count :: nat

definition explain_str :: "u64 \<Rightarrow> str list" where
  "explain_str m = map lit (explain m)"

definition require_editable_cursor_doc :: "file_system \<Rightarrow> query_orchestrator \<Rightarrow> str \<Rightarrow> unit ls_result" where
  "require_editable_cursor_doc fs orch uri =
     (case or_workspace orch of
        None \<Rightarrow> Ok ()
      | Some ws \<Rightarrow>
          (case primary_bsp_of fs orch uri of
             None \<Rightarrow> Ok ()
           | Some bsp \<Rightarrow>
               let facts = facts_for ws bsp uri
               in if doc_editable facts then Ok ()
                  else Err (RenameRejected (explain_str
                    ((if df_generated facts then GENERATED_OCCURRENCE else 0) OR
                     (if df_readonly facts then READONLY_OCCURRENCE else 0) OR
                     (if df_is_dependency_source facts then DEPENDENCY_SOURCE else 0))))))"

definition prepare_rename :: "query_env \<Rightarrow> str \<Rightarrow> u32 \<Rightarrow> u32 \<Rightarrow> span query" where
  "prepare_rename W uri ln cl orch =
     (if ov_is_dirty (or_overlay orch) uri
      then (orch, case ov_symbol_at (or_overlay orch) uri ln cl of
                    Some hit \<Rightarrow> if ovh_pc_only hit then Err PcOnlySymbol else Ok (ovh_span hit)
                  | None \<Rightarrow> Err (StaleIndex uri))
      else q_bind (symbol_at_cursor W uri ln cl) (\<lambda>cursor.
           q_lift (\<lambda>orch'. and_then (require_editable_cursor_doc (w_fs W) orch' uri) (\<lambda>_. Ok (cs_span cursor)))) orch)"

definition current_definition_bsp :: "query_orchestrator \<Rightarrow> cursor_symbol \<Rightarrow> (str option, 'e) outcome" where
  "current_definition_bsp orch cursor =
     (case current_snapshot orch of
        None \<Rightarrow> Ok None
      | Some snap \<Rightarrow>
          and_then (read_seg (find_symbol_ord (sn_segment snap) (encoded_symbol cursor))) (\<lambda>found.
            case found of None \<Rightarrow> Ok None | Some ord \<Rightarrow> definition_bsp_of (sn_segment snap) ord))"

text \<open>The defining target and the targets to compile.\<close>
definition rename_domain :: "query_env \<Rightarrow> workspace_targets \<Rightarrow> cursor_symbol \<Rightarrow> str \<Rightarrow> query_orchestrator \<Rightarrow> (str option \<times> str list) ls_result" where
  "rename_domain W ws pre uri orch =
     and_then (current_definition_bsp orch pre) (\<lambda>found.
       let def_bsp = (case found of Some b \<Rightarrow> Some b | None \<Rightarrow> primary_bsp_of (w_fs W) orch uri)
       in case def_bsp of
            Some b \<Rightarrow> and_then (unwrap (reverse_dependency_closure ws b)) (\<lambda>closed. Ok (def_bsp, sorted_list_of_set closed))
          | None \<Rightarrow> Ok (None, map ts_bsp_id (ws_targets ws)))"

definition raw_edit :: "segment_reader \<Rightarrow> group_rec \<Rightarrow> (str \<times> span \<times> i32, 'e) outcome" where
  "raw_edit rd rec =
     and_then (read_seg (uri_of rd (unat (gr_doc_ord rec)))) (\<lambda>uri.
       Ok (uri, unpack_span (gr_packed_start rec) (gr_packed_end rec), gr_flags rec))"

definition collect_edits :: "segment_reader \<Rightarrow> cursor_symbol \<Rightarrow> (str \<times> span \<times> i32) list ls_result" where
  "collect_edits rd cursor =
     and_then (read_seg (find_symbol_ord rd (encoded_symbol cursor))) (\<lambda>found.
     and_then (ok_or found (StaleIndex (cs_uri cursor))) (\<lambda>ord.
     and_then (read_seg (symbol_view_at rd ord)) (\<lambda>v.
     if sint (sv_rename_group_ord v) < 0 then Err (RenameRejected [lit ''symbol has no rename group''])
     else let grp = unat (sv_rename_group_ord v)
          in and_then (read_seg (rename_profile_at rd grp)) (\<lambda>profile.
             if sp_unsafe_reason_mask profile \<noteq> 0 then Err (RenameRejected (explain_str (sp_unsafe_reason_mask profile)))
             else and_then (read_seg (scan_rename_group rd grp)) (\<lambda>recs. map_o (raw_edit rd) recs)))))"

definition edits_by_uri :: "(str \<times> span \<times> i32) list \<Rightarrow> (str \<times> span list) list" where
  "edits_by_uri raw_edits =
     map (\<lambda>u. (u, remdups_adj (sort_key span_key (map (fst \<circ> snd) (filter (\<lambda>e. fst e = u) raw_edits)))))
       (sort (remdups (map fst raw_edits)))"

definition note_symbol :: "span list \<Rightarrow> sdb_occurrence \<Rightarrow> (span \<rightharpoonup> str set) \<Rightarrow> (span \<rightharpoonup> str set)" where
  "note_symbol wanted oc acc =
     (if so_role_code oc \<noteq> 1 \<and> so_role_code oc \<noteq> 2 then acc
      else case so_range oc of
          None \<Rightarrow> acc
        | Some r \<Rightarrow>
            let sp = new_span (sr_start_line r) (sr_start_character r) (sr_end_line r) (sr_end_character r)
            in if sp \<in> set wanted
               then acc(sp \<mapsto> insert (so_symbol oc) (case acc sp of Some s \<Rightarrow> s | None \<Rightarrow> {})) else acc)"

definition symbols_at_spans :: "file_system \<Rightarrow> str \<Rightarrow> str \<Rightarrow> span list \<Rightarrow> (span \<rightharpoonup> str set, 'e) outcome" where
  "symbols_at_spans fs file_path uri spans =
     (case parse_file fs file_path of
        Ok documents \<Rightarrow>
          Ok (case find (\<lambda>d. sdoc_uri d = uri) documents of
                None \<Rightarrow> Map.empty
              | Some doc \<Rightarrow> fold (note_symbol spans) (sdoc_occurrences doc) Map.empty)
      | Err _ \<Rightarrow> Ok Map.empty
      | Panic \<Rightarrow> Panic)"

definition check_shared_source_consistency :: "query_env \<Rightarrow> query_orchestrator \<Rightarrow> str \<Rightarrow> span list \<Rightarrow> unit ls_result" where
  "check_shared_source_consistency W orch uri spans =
     (let files = semanticdb_files_for (w_fs W) orch uri
      in if length files \<le> 1 then Ok ()
         else and_then (map_o (\<lambda>f. symbols_at_spans (w_fs W) f uri spans) files) (\<lambda>per_target.
           let reference = hd per_target;
               disagree = list_ex (\<lambda>m. list_ex (\<lambda>s. m s \<noteq> reference s) spans) per_target;
               empty_ref = list_ex (\<lambda>s. case reference s of None \<Rightarrow> True | Some syms \<Rightarrow> syms = {}) spans
           in if disagree \<or> empty_ref then Err (RenameRejected (explain_str SHARED_SOURCE_DISAGREEMENT)) else Ok ()))"

definition check_still_fresh :: "query_env \<Rightarrow> query_orchestrator \<Rightarrow> str \<Rightarrow> unit ls_result" where
  "check_still_fresh W orch u =
     (if primary_spec_of (w_fs W) orch u = None then Err (NotIndexed u)
      else if \<not> source_is_fresh_uri (w_fs W) orch u then Err (StaleIndex u) else Ok ())"

definition plan_of :: "str \<Rightarrow> (str \<times> span list) list \<Rightarrow> workspace_edit_plan" where
  "plan_of new_text by_uri =
     \<lparr>ep_edits = map (\<lambda>(u, spans). (u, map (\<lambda>s. \<lparr>te_span = s, te_new_text = new_text\<rparr>) spans)) by_uri,
      ep_occurrence_count = sum_list (map (length \<circ> snd) by_uri)\<rparr>"

text \<open>From the resolution on the fresh snapshot to the plan.\<close>
definition plan_edits :: "query_env \<Rightarrow> str \<Rightarrow> cursor_symbol \<Rightarrow> str \<Rightarrow> query_orchestrator \<Rightarrow> workspace_edit_plan ls_result" where
  "plan_edits W uri cursor new_text orch =
     (if cs_source cursor \<noteq> SourceSnapshot then Err (StaleIndex uri)
      else case current_snapshot orch of
          None \<Rightarrow> Err (NotIndexed uri)
        | Some snap \<Rightarrow>
            and_then (collect_edits (sn_segment snap) cursor) (\<lambda>raw_edits.
            if raw_edits = [] then Err (RenameRejected [lit ''rename found no editable occurrences''])
            else if list_all (\<lambda>(_, _, flags). has flags SYNTHETIC) raw_edits then Err (RenameRejected (explain_str SYNTHETIC_ONLY))
            else let by_uri = edits_by_uri raw_edits
                 in and_then (for_each (\<lambda>(u, spans). check_shared_source_consistency W orch u spans) by_uri) (\<lambda>_.
                    and_then (for_each (\<lambda>(u, _). check_still_fresh W orch u) by_uri) (\<lambda>_.
                      Ok (plan_of new_text by_uri)))))"

fun join_comma :: "str list \<Rightarrow> str" where
  "join_comma [] = []"
| "join_comma [s] = s"
| "join_comma (s # t # ts) = s @ lit '', '' @ join_comma (t # ts)"

definition rename_checked :: "query_env \<Rightarrow> compile_service \<Rightarrow> workspace_targets \<Rightarrow> str \<Rightarrow> u32 \<Rightarrow> u32 \<Rightarrow> str \<Rightarrow> workspace_edit_plan query" where
  "rename_checked W compile ws uri ln cl new_text =
     q_bind (symbol_at_cursor W uri ln cl) (\<lambda>pre.
     q_bind (q_lift (\<lambda>orch. if cs_pc_only pre then Err PcOnlySymbol else require_editable_cursor_doc (w_fs W) orch uri)) (\<lambda>_.
     q_bind (q_lift (rename_domain W ws pre uri)) (\<lambda>(def_bsp, domain).
       case compile (w_fs W) domain of
         (False, _) \<Rightarrow> q_lift (\<lambda>_. Err (CompileFailed (case def_bsp of Some b \<Rightarrow> b | None \<Rightarrow> join_comma domain)))
       | (True, fs') \<Rightarrow>
           let W' = W\<lparr>w_fs := fs'\<rparr>
           in q_bind (\<lambda>orch. case orch_ingest W' ws orch of (orch', r) \<Rightarrow> (orch', map_err (\<lambda>_. StaleIndex uri) r)) (\<lambda>_.
              q_bind (symbol_at_cursor W' uri ln cl) (\<lambda>cursor.
                q_lift (plan_edits W' uri cursor new_text))))))"

definition rename :: "query_env \<Rightarrow> compile_service \<Rightarrow> str \<Rightarrow> u32 \<Rightarrow> u32 \<Rightarrow> str \<Rightarrow> workspace_edit_plan query" where
  "rename W compile uri ln cl new_name orch =
     (case or_workspace orch of
        None \<Rightarrow> (orch, Err (NotIndexed uri))
      | Some ws \<Rightarrow>
          if ov_is_dirty (or_overlay orch) uri
          then (orch, Err (case ov_symbol_at (or_overlay orch) uri ln cl of
                  Some hit \<Rightarrow> if ovh_pc_only hit then PcOnlySymbol
                    else RenameRejected [uri @ lit '' has unsaved changes; save the file before renaming'']
                | None \<Rightarrow> RenameRejected [uri @ lit '' has unsaved changes; save the file before renaming'']))
          else case encode_identifier (w_unicode W) new_name of
              Ok new_text \<Rightarrow> rename_checked W compile ws uri ln cl new_text orch
            | Err msg \<Rightarrow> (orch, Err (RenameRejected [msg]))
            | Panic \<Rightarrow> (orch, Panic))"

end
