(* ===== verification/Segment_Source.thy ===== *)
theory Segment_Source
  imports Search Segment_Lookup
begin

text \<open>
  The contract between an opened segment and the queries that read it, as a locale: every accessor is total
  on ordinals in range, the ordinals a row carries are in range, and a scan is the filter of the group's
  records. The interpretation shows that \<open>SegmentReader::open\<close> establishes it, so a query never meets the
  panics of an accessor.
\<close>

section \<open>The records of a group\<close>

text \<open>All records of a group, read one by one.\<close>
definition group_records :: "segment_reader \<Rightarrow> nat \<Rightarrow> nat \<Rightarrow> nat \<Rightarrow> group_rec list seg_result" where
  "group_records rd gi idx g =
     and_then (group_index_view_at (seg_file rd gi) g) (\<lambda>e.
       map_o (\<lambda>k. group_record (seg_file rd idx) (sint (gv_offset e) + int k)) [0..<nat (sint (gv_count e))])"

text \<open>A record whose document and target exist.\<close>
definition rec_in_range :: "segment_reader \<Rightarrow> group_rec \<Rightarrow> bool" where
  "rec_in_range rd rec \<longleftrightarrow>
     unat (gr_doc_ord rec) < unat (rd_doc_count rd) \<and> unat (gr_target_ord rec) < rd_target_count rd"

lemma usize_unat: "0 \<le> sint (v :: i32) \<Longrightarrow> usize_of_i32 v = unat v"
  by (simp add: usize_of_i32_nonneg unat_eq_nat_sint)

lemma rec_ok_in_range: "rec_ok rd rec \<Longrightarrow> rec_in_range rd rec"
  by (auto simp: rec_ok_def rec_in_range_def usize_unat)

text \<open>An optional ordinal.\<close>
definition ord_below :: "i32 \<Rightarrow> nat \<Rightarrow> bool" where
  "ord_below v n \<longleftrightarrow> sint v < 0 \<or> unat v < n"

lemma check_ord_opt_below: "check_ord_opt v n d = Ok u \<Longrightarrow> ord_below v n"
  by (auto simp: check_ord_opt_def ord_below_def usize_unat split: if_splits)

section \<open>The contract\<close>

locale segment_source =
  fixes readable :: "segment_reader \<Rightarrow> bool"
  assumes find_total: "readable rd \<Longrightarrow>
      \<exists>found. find_symbol_ord rd needle = Ok found \<and> (case found of Some i \<Rightarrow> i < rd_symbol_count rd | None \<Rightarrow> True)"
    and symbol_total: "readable rd \<Longrightarrow> i < rd_symbol_count rd \<Longrightarrow> \<exists>s. semantic_symbol_of rd i = Ok s"
    and view_total: "readable rd \<Longrightarrow> i < rd_symbol_count rd \<Longrightarrow>
      \<exists>v. symbol_view_at rd i = Ok v \<and> ord_below (sv_ref_group_ord v) (unat (rd_ref_group_count rd)) \<and>
        ord_below (sv_rename_group_ord v) (unat (rd_rename_group_count rd)) \<and> ord_below (sv_def_target_ord v) (rd_target_count rd)"
    and uri_total: "readable rd \<Longrightarrow> d < unat (rd_doc_count rd) \<Longrightarrow> \<exists>u. uri_of rd d = Ok u"
    and target_total: "readable rd \<Longrightarrow> t < rd_target_count rd \<Longrightarrow> \<exists>m. target_meta rd t = Ok m"
    and profile_total: "readable rd \<Longrightarrow> g < unat (rd_rename_group_count rd) \<Longrightarrow> \<exists>p. rename_profile_at rd g = Ok p"
    and refs_exact: "readable rd \<Longrightarrow> g < unat (rd_ref_group_count rd) \<Longrightarrow>
      \<exists>recs. group_records rd REF_GROUP_INDEX REF_POSTINGS g = Ok recs \<and> list_all (rec_in_range rd) recs \<and>
        (\<forall>allowed. pred_option bitset_ok allowed \<longrightarrow> scan_ref_group rd g allowed = Ok (filter (kept rd allowed False) recs))"
    and defs_exact: "readable rd \<Longrightarrow> g < unat (rd_ref_group_count rd) \<Longrightarrow>
      \<exists>recs. group_records rd DEF_GROUP_INDEX DEF_POSTINGS g = Ok recs \<and> list_all (rec_in_range rd) recs \<and>
        scan_def_group rd g = Ok (filter (kept rd None False) recs)"
    and renames_exact: "readable rd \<Longrightarrow> g < unat (rd_rename_group_count rd) \<Longrightarrow>
      \<exists>recs. group_records rd RENAME_GROUP_INDEX RENAME_POSTINGS g = Ok recs \<and> list_all (rec_in_range rd) recs \<and>
        scan_rename_group rd g = Ok (filter (kept rd None True) recs)"

section \<open>Opened segments keep it\<close>

abbreviation is_opened :: "segment_reader \<Rightarrow> bool" where
  "is_opened rd \<equiv> \<exists>crc dir. open_segment crc dir = Ok rd"

lemma opened_find:
  assumes "is_opened rd"
  shows "\<exists>found. find_symbol_ord rd needle = Ok found \<and> (case found of Some i \<Rightarrow> i < rd_symbol_count rd | None \<Rightarrow> True)"
proof -
  from assms obtain crc dir where "open_segment crc dir = Ok rd" by blast
  then obtain z rd1 where rd1: "deep_validate rd1 z = Ok ()" "rd = rd1\<lparr>rd_doc_epochs := rd_doc_epochs rd\<rparr>"
    by (rule open_segment_deep)
  then obtain syms where "dict_ok rd1 syms"
    using validate_symbol_dict_Ok by (auto simp: deep_validate_def Let_def and_then_eq_Ok)
  then have dict: "dict_ok rd syms" by (subst rd1(2)) (simp add: dict_ok_def)
  have "\<forall>i. length syms \<le> i \<and> i < length syms \<longrightarrow> needle < syms ! i" by auto
  from find_symbol_loop_eq[OF dict order_refl _ this, of 0] dict show ?thesis
    by (auto simp: find_symbol_ord_def dict_ok_def split: option.splits)
qed

lemma opened_symbol:
  assumes "is_opened rd" and "i < rd_symbol_count rd"
  shows "\<exists>s. semantic_symbol_of rd i = Ok s"
    and "\<exists>v. symbol_view_at rd i = Ok v \<and> ord_below (sv_ref_group_ord v) (unat (rd_ref_group_count rd)) \<and>
        ord_below (sv_rename_group_ord v) (unat (rd_rename_group_count rd)) \<and> ord_below (sv_def_target_ord v) (rd_target_count rd)"
proof -
  from assms(1) obtain crc dir where "open_segment crc dir = Ok rd" by blast
  then obtain z rd1 where rd1: "deep_validate rd1 z = Ok ()" "sizes_ok rd1 z" "rd = rd1\<lparr>rd_doc_epochs := rd_doc_epochs rd\<rparr>"
    by (rule open_segment_deep)
  have same: "seg_file rd j = seg_file rd1 j" "rd_symbol_count rd = rd_symbol_count rd1" "rd_target_count rd = rd_target_count rd1"
    "rd_ref_group_count rd = rd_ref_group_count rd1" "rd_rename_group_count rd = rd_rename_group_count rd1" for j
    by (subst rd1(3), simp)+
  from rd1(1) obtain st where "fold_o (validate_symbol_entry rd1 (sz_sym_blob z)) [0..<rd_symbol_count rd1] None = Ok st"
    by (auto simp: deep_validate_def validate_symbol_dict_def Let_def and_then_eq_Ok)
  from fold_o_each[OF this, of i] assms(2) obtain t t' where entry: "validate_symbol_entry rd1 (sz_sym_blob z) i t = Ok t'"
    by (auto simp: same)
  from validate_symbol_entry_Ok[OF this] obtain s where "symbol_bytes rd1 i = Ok s" by blast
  then have "symbol_bytes rd i = Ok s" by (simp add: symbol_bytes_def sym_blob_start_def same)
  then show "\<exists>s. semantic_symbol_of rd i = Ok s" by (simp add: semantic_symbol_of_def)
  let ?f = "seg_file rd SYMBOL_INDEX"
  from entry obtain rg rn dt where reads: "read_i32 ?f (24 + i * 32 + 16) = Some rg" "read_i32 ?f (24 + i * 32 + 20) = Some rn"
    "read_i32 ?f (24 + i * 32 + 24) = Some dt" and "ord_below rg (unat (rd_ref_group_count rd))"
    "ord_below rn (unat (rd_rename_group_count rd))" "ord_below dt (rd_target_count rd)"
    unfolding validate_symbol_entry_def Let_def
    by (auto simp: and_then_eq_Ok req_Ok same dest!: check_ord_opt_below split: option.splits)
  moreover have "\<exists>sid. unwrap (read_i64 ?f (24 + i * 32 + 8)) = (Ok sid :: _ seg_result)"
    using rd1(2) row_fits[OF assms(2), of 8 8 32] by (intro unwrap_read) (auto simp: sizes_ok_def same)
  ultimately show "\<exists>v. symbol_view_at rd i = Ok v \<and> ord_below (sv_ref_group_ord v) (unat (rd_ref_group_count rd)) \<and>
      ord_below (sv_rename_group_ord v) (unat (rd_rename_group_count rd)) \<and> ord_below (sv_def_target_ord v) (rd_target_count rd)"
    by (auto simp: symbol_view_at_def Let_def symbol_entry_base_def SYMBOL_ENTRY_SIZE_def)
qed

lemma opened_uri:
  assumes "is_opened rd" and "d < unat (rd_doc_count rd)"
  shows "\<exists>u. uri_of rd d = Ok u"
proof -
  from assms(1) obtain crc dir where "open_segment crc dir = Ok rd" by blast
  then obtain z rd1 where rd1: "deep_validate rd1 z = Ok ()" "sizes_ok rd1 z" "rd = rd1\<lparr>rd_doc_epochs := rd_doc_epochs rd\<rparr>"
    by (rule open_segment_deep)
  have same: "seg_file rd j = seg_file rd1 j" "rd_doc_count rd = rd_doc_count rd1" for j by (subst rd1(3), simp)+
  let ?f = "seg_file rd DOC_INDEX"
  from rd1(2) obtain v where v: "read_i64 ?f 8 = Some v" "unat v = sz_ic z" and dc: "sz_dc z = unat (rd_doc_count rd)"
    by (auto simp: sizes_ok_def same)
  from rd1(1) obtain st where "fold_o (validate_doc_entry rd1 (sz_dc z) (sz_ic z) (sz_ub z) (sz_doc_recs z)) [0..<sz_dc z] (0, 0) = Ok st"
    by (auto simp: deep_validate_def validate_doc_index_def Let_def and_then_eq_Ok)
  from fold_o_each[OF this, of d] assms(2) dc obtain t t' where
    "validate_doc_entry rd1 (sz_dc z) (sz_ic z) (sz_ub z) (sz_doc_recs z) d t = Ok t'" by auto
  then obtain off len s where "read_i32 ?f (24 + d * 48) = Some off" "read_i32 ?f (24 + d * 48 + 4) = Some len"
    "get_slice ?f (24 + sz_dc z * 48 + sz_ic z * 24 + usize_of_i32 off) (usize_of_i32 len) = Some s"
    unfolding validate_doc_entry_def Let_def by (auto simp: and_then_eq_Ok check_Ok same split: prod.splits)
  then show ?thesis using v dc
    by (simp add: uri_of_def Let_def uri_blob_start_def interval_count_total_def doc_entry_base_def DOC_ENTRY_SIZE_def
        INTERVAL_ENTRY_SIZE_def usize_of_i64_def get_slice_slice_o)
qed

lemma opened_rows:
  assumes "is_opened rd"
  shows "t < rd_target_count rd \<Longrightarrow> \<exists>m. target_meta rd t = Ok m"
    and "g < unat (rd_rename_group_count rd) \<Longrightarrow> \<exists>p. rename_profile_at rd g = Ok p"
proof -
  from assms obtain z where "opened rd z" using open_segment_opened by blast
  then have sz: "sizes_ok rd z" by (simp add: opened_def)
  show "\<exists>m. target_meta rd t = Ok m" if "t < rd_target_count rd"
    unfolding target_meta_def Let_def TARGET_META_ENTRY_SIZE_def
    by (intro and_then_total unwrap_read Ok_total) (use sz row_fits[OF that, of 0 48 48] in \<open>auto simp: sizes_ok_def\<close>)
  show "\<exists>p. rename_profile_at rd g = Ok p" if "g < unat (rd_rename_group_count rd)"
    unfolding rename_profile_at_def Let_def GROUP_INDEX_ENTRY_SIZE_def RENAME_PROFILE_ENTRY_SIZE_def
    by (intro and_then_total unwrap_read Ok_total) (use sz row_fits[OF that, of 0 16 16] in \<open>auto simp: sizes_ok_def\<close>)
qed

lemma scanned_group:
  assumes grp: "group_ok rd gi idx n g" and scan: "scannable rd idx n"
  shows "\<exists>e recs. group_index_view_at (seg_file rd gi) g = Ok e \<and> group_records rd gi idx g = Ok recs \<and> list_all (rec_in_range rd) recs \<and>
     (\<forall>allowed. pred_option bitset_ok allowed \<longrightarrow> scan_group rd idx e allowed ed = Ok (filter (kept rd allowed ed) recs))"
proof -
  from grp obtain e acc cnt where e: "group_index_view_at (seg_file rd gi) g = Ok e"
    "sint (gv_offset e) = int acc" "sint (gv_count e) = int cnt" "acc + cnt \<le> n"
    by (auto simp: group_ok_def)
  have ok: "columns_ok (seg_file rd idx) 6 n" "\<forall>r < n. rec_ok rd (rec_at (seg_file rd idx) n r)"
    using scan by (auto simp: scannable_def postings_ok_def)
  let ?recs = "map (\<lambda>k. rec_at (seg_file rd idx) n (acc + k)) [0..<cnt]"
  have read: "map_o (\<lambda>k. group_record (seg_file rd idx) (int acc + int k)) [0..<cnt] = Ok ?recs"
    by (rule map_o_map_Ok) (use e(4) group_record_eq[OF ok(1)] in \<open>simp flip: of_nat_add\<close>)
  have "scan_group rd idx e allowed ed = Ok (filter (kept rd allowed ed) ?recs)" if "pred_option bitset_ok allowed" for allowed
    using scan_group_eq[OF grp scan, of allowed ed] that e read by (cases allowed) (auto simp: e(1))
  then show ?thesis using e read ok(2)
    by (intro exI[of _ e] exI[of _ ?recs]) (auto simp: group_records_def list_all_iff intro!: rec_ok_in_range)
qed

interpretation opened_segment: segment_source is_opened
proof (unfold_locales, goal_cases)
  case (1 rd needle)
  then show ?case by (rule opened_find)
next
  case (2 rd i)
  then show ?case by (rule opened_symbol(1))
next
  case (3 rd i)
  then show ?case by (rule opened_symbol(2))
next
  case (4 rd d)
  then show ?case by (rule opened_uri)
next
  case (5 rd t)
  then show ?case by (rule opened_rows(1))
next
  case (6 rd g)
  then show ?case by (rule opened_rows(2))
next
  case (7 rd g)
  then obtain z where "opened rd z" using open_segment_opened by blast
  then show ?case using 7 scanned_group[of rd REF_GROUP_INDEX REF_POSTINGS "sz_ref_recs z" g False]
    by (fastforce simp: opened_def scan_ref_group_def ref_group_def)
next
  case (8 rd g)
  then obtain z where "opened rd z" using open_segment_opened by blast
  then show ?case using 8 scanned_group[of rd DEF_GROUP_INDEX DEF_POSTINGS "sz_def_recs z" g False]
    by (fastforce simp: opened_def scan_def_group_def def_group_def)
next
  case (9 rd g)
  then obtain z where "opened rd z" using open_segment_opened by blast
  then show ?case using 9 scanned_group[of rd RENAME_GROUP_INDEX RENAME_POSTINGS "sz_rename_recs z" g True]
    by (fastforce simp: opened_def scan_rename_group_def rename_group_def)
qed

end
