(* ===== verification/Sample_Rename.thy ===== *)
theory Sample_Rename
  imports Sample_Segment
begin

text \<open>
  A second concrete segment: the one of \<open>Sample_Segment\<close> with its occurrence editable and listed in the
  symbol's rename group, so that a rename has something to edit. The files are what the writer emits for that input.
\<close>

definition edit_files :: "byte list list" where
  "edit_files =
     [[76, 83, 80, 71, 1, 0, 0, 0, 1, 0, 0, 0, 0, 0, 0, 0, 2, 0, 0, 0, 0, 0, 0, 0, 1, 0, 0, 0, 0, 0, 0, 0,
       1, 0, 0, 0, 0, 0, 0, 0, 1, 0, 0, 0, 0, 0, 0, 0, 3, 0, 0, 0, 0, 0, 0, 0, 56, 0, 0, 0, 0, 0, 0, 0],
      [1, 0, 0, 0, 0, 0, 0, 0, 0, 0, 0, 0, 0, 0, 0, 0, 1, 0, 0, 0, 0, 0, 0, 0],
      [1, 0, 0, 0, 0, 0, 0, 0, 0, 0, 0, 0, 0, 0, 0, 0, 0, 0, 0, 0, 255, 255, 255, 255],
      [1, 0, 0, 0, 0, 0, 0, 0, 0, 0, 0, 0, 0, 0, 0, 0, 1, 0, 0, 0, 1, 0, 0, 0, 0, 0, 0, 0, 1, 0, 0, 0, 0,
       0, 0, 0, 0, 0, 0, 0],
      [1, 0, 0, 0, 0, 0, 0, 0, 1, 0, 0, 0, 0, 0, 0, 0, 1, 0, 0, 0, 0, 0, 0, 0, 0, 0, 0, 0, 1, 0, 0, 0, 7,
       0, 0, 0, 0, 0, 0, 0, 1, 0, 0, 0, 0, 0, 0, 0, 0, 0, 0, 0, 0, 0, 0, 0, 0, 0, 0, 0, 0, 0, 0, 0, 1, 0,
       0, 0, 1, 0, 0, 0, 1, 0, 0, 0, 1, 0, 0, 0, 0, 0, 0, 0, 0, 0, 0, 0, 1, 0, 0, 0, 0, 0, 0, 0, 97],
      [1, 0, 0, 0, 0, 0, 0, 0, 1, 0, 0, 0, 0, 0, 0, 0, 2, 0, 0, 0, 0, 0, 0, 0, 0, 0, 0, 0, 2, 0, 0, 0, 3,
       0, 0, 0, 0, 0, 0, 0, 0, 0, 0, 0, 0, 0, 0, 0, 0, 0, 0, 0, 0, 0, 0, 0, 5, 0, 0, 0, 0, 0, 0, 0, 65, 35],
      [1, 0, 0, 0, 0, 0, 0, 0, 0, 0, 0, 0, 1, 0, 0, 0, 0, 0, 0, 0, 2, 16, 0, 0, 3, 16, 0, 0, 2, 0, 0, 0],
      [0, 0, 0, 0, 0, 0, 0, 0],
      [1, 0, 0, 0, 0, 0, 0, 0, 0, 0, 0, 0, 1, 0, 0, 0, 0, 0, 0, 0, 2, 16, 0, 0, 3, 16, 0, 0, 2, 0, 0, 0],
      [1, 0, 0, 0, 0, 0, 0, 0, 0, 0, 0, 0, 2, 16, 0, 0, 3, 16, 0, 0, 2, 0, 0, 0],
      [2, 0, 0, 0, 0, 0, 0, 0, 1, 0, 0, 0, 0, 1, 0, 0, 0, 0, 0, 0, 0, 0, 0, 0, 1, 0, 0, 0, 1, 0, 0, 0, 1,
       0, 0, 0, 0, 0, 0, 0, 0, 0, 0, 0, 0, 0, 0, 0, 1, 0, 0, 0, 1, 0, 0, 0, 1, 0, 0, 0, 0, 0, 0, 0, 0, 0,
       0, 0, 0, 0, 0, 0, 1, 0, 0, 0, 1, 0, 0, 0, 1, 0, 0, 0, 0, 0, 0, 0, 0, 0, 0, 0, 0, 0, 0, 0, 1, 0, 0,
       0, 1, 0, 0, 0, 1, 0, 0, 0, 0, 0, 0, 0],
      [1, 0, 0, 0, 0, 0, 0, 0, 0, 0, 0, 0, 0, 0, 0, 0, 0, 0, 0, 0, 0, 0, 0, 0, 0, 0, 0, 0, 0, 0, 0, 0, 0,
       0, 0, 0, 0, 0, 0, 0, 0, 0, 0, 0, 0, 0, 0, 0, 0, 0, 0, 0, 0, 0, 0, 0, 0, 0, 0, 0, 0, 0, 0, 0],
      [1, 0, 0, 0, 0, 0, 0, 0, 0, 0, 0, 0, 0, 0, 0, 0, 0, 0, 0, 0, 0, 0, 0, 0, 0, 0, 0, 0, 0, 0, 0, 0, 0,
       0, 0, 0, 0, 0, 0, 0, 0, 0, 0, 0, 0, 0, 0, 0, 0, 0, 0, 0, 0, 0, 0, 0, 0, 0, 0, 0, 0, 0, 0, 0],
      [0, 0, 0, 0, 0, 0, 0, 0, 0, 0, 0, 0, 0, 0, 0, 0]]"

definition edit_checksums :: "byte list" where
  "edit_checksums =
      [14, 0, 0, 0, 0, 0, 0, 0, 10, 0, 0, 0, 104, 101, 97, 100, 101, 114, 46, 98, 105, 110, 64, 0, 0, 0,
       0, 0, 0, 0, 19, 0, 0, 0, 114, 101, 102, 45, 103, 114, 111, 117, 112, 45, 105, 110, 100, 101, 120,
       46, 98, 105, 110, 24, 0, 0, 0, 0, 0, 0, 0, 26, 0, 0, 0, 100, 101, 102, 105, 110, 105, 116, 105, 111,
       110, 45, 103, 114, 111, 117, 112, 45, 105, 110, 100, 101, 120, 46, 98, 105, 110, 24, 0, 0, 0, 0, 0,
       0, 0, 22, 0, 0, 0, 114, 101, 110, 97, 109, 101, 45, 103, 114, 111, 117, 112, 45, 105, 110, 100, 101,
       120, 46, 98, 105, 110, 40, 0, 0, 0, 0, 0, 0, 0, 13, 0, 0, 0, 100, 111, 99, 45, 105, 110, 100, 101,
       120, 46, 98, 105, 110, 97, 0, 0, 0, 0, 0, 0, 0, 16, 0, 0, 0, 115, 121, 109, 98, 111, 108, 45, 105,
       110, 100, 101, 120, 46, 98, 105, 110, 66, 0, 0, 0, 0, 0, 0, 0, 16, 0, 0, 0, 114, 101, 102, 45, 112,
       111, 115, 116, 105, 110, 103, 115, 46, 98, 105, 110, 32, 0, 0, 0, 0, 0, 0, 0, 23, 0, 0, 0, 100, 101,
       102, 105, 110, 105, 116, 105, 111, 110, 45, 112, 111, 115, 116, 105, 110, 103, 115, 46, 98, 105,
       110, 8, 0, 0, 0, 0, 0, 0, 0, 19, 0, 0, 0, 114, 101, 110, 97, 109, 101, 45, 112, 111, 115, 116, 105,
       110, 103, 115, 46, 98, 105, 110, 32, 0, 0, 0, 0, 0, 0, 0, 16, 0, 0, 0, 100, 111, 99, 45, 112, 111,
       115, 116, 105, 110, 103, 115, 46, 98, 105, 110, 24, 0, 0, 0, 0, 0, 0, 0, 15, 0, 0, 0, 98, 108, 111,
       99, 107, 45, 105, 110, 100, 101, 120, 46, 98, 105, 110, 112, 0, 0, 0, 0, 0, 0, 0, 15, 0, 0, 0, 116,
       97, 114, 103, 101, 116, 45, 109, 101, 116, 97, 46, 98, 105, 110, 64, 0, 0, 0, 0, 0, 0, 0, 15, 0, 0,
       0, 115, 121, 109, 98, 111, 108, 45, 109, 101, 116, 97, 46, 98, 105, 110, 64, 0, 0, 0, 0, 0, 0, 0,
       10, 0, 0, 0, 115, 101, 97, 114, 99, 104, 46, 98, 105, 110, 16, 0, 0, 0, 0, 0, 0, 0]"

definition edit_dir :: "string \<Rightarrow> mapped" where
  "edit_dir name =
     (if name = CHECKSUMS_FILE then Contents edit_checksums
      else case map_of (zip CHECKSUMMED_FILES edit_files) name of Some f \<Rightarrow> Contents f | None \<Rightarrow> NotFound)"

definition edit_unchecked :: segment_reader where
  "edit_unchecked =
     \<lparr>rd_files = edit_files, rd_segment_id = 1, rd_created_at_ms = 2, rd_ref_group_count = 1,
      rd_rename_group_count = 1, rd_doc_count = 1, rd_occurrence_count = 3, rd_symbol_count = 0,
      rd_target_count = 0, rd_words = 0, rd_doc_epochs = []\<rparr>"

definition edit_reader :: segment_reader where
  "edit_reader = edit_unchecked\<lparr>rd_symbol_count := 1, rd_target_count := 1, rd_words := 1, rd_doc_epochs := [1]\<rparr>"

lemma edit_mapped: "map_o (map_file edit_dir) CHECKSUMMED_FILES = Ok edit_files"
  by code_simp

lemma edit_checksums_mapped: "map_file edit_dir CHECKSUMS_FILE = Ok edit_checksums"
  by (simp add: map_file_def edit_dir_def)

lemma edit_checksums_match: "verify_checksums sample_crc edit_checksums edit_files = Ok ()"
  by code_simp

lemma edit_validates: "validate_structure edit_unchecked = Ok edit_reader"
  by code_simp

lemma edit_header:
  "index_o edit_files HEADER = (Ok (hd edit_files) :: byte list seg_result)" "length (hd edit_files) = HEADER_SIZE"
  "read_u32 (hd edit_files) 0 = Some MAGIC" "read_u16 (hd edit_files) 4 = Some VERSION"
  "read_u16 (hd edit_files) 6 = Some 0"
  "read_u64 (hd edit_files) HEADER_CHECKSUM_OFFSET =
     Some (ucast (sample_crc (take HEADER_CHECKSUM_OFFSET (hd edit_files))))"
  "read_u64 (hd edit_files) 8 = Some 1" "read_i64 (hd edit_files) 16 = Some 2"
  "header_count (hd edit_files) 24 ''ref_group_count'' = Ok 1"
  "header_count (hd edit_files) 32 ''rename_group_count'' = Ok 1"
  "header_count (hd edit_files) 40 ''doc_count'' = Ok 1" "read_u64 (hd edit_files) 48 = Some 3"
  by code_simp+

lemma edit_opens: "open_segment sample_crc edit_dir = Ok edit_reader"
  by (simp add: open_segment_def edit_mapped edit_checksums_mapped edit_header edit_checksums_match
      edit_validates flip: edit_unchecked_def)

end
