(* ===== verification/Engine_Guarantees.thy ===== *)
theory Engine_Guarantees
  imports Engine_Rename Segment_Source Sample_Rename
begin

text \<open>
  What a query over an opened segment answers. The lemmas are proved once over the contract of
  \<open>Segment_Source\<close>; the properties take them through its interpretation on opened segments. References are
  exactly the current records of the group in the targets that can see the definition; a rename plan edits
  exactly the editable current records of a safe rename group.
\<close>

section \<open>Reading values\<close>

definition uri_at :: "segment_reader \<Rightarrow> nat \<Rightarrow> str" where
  "uri_at rd d = (case uri_of rd d of Ok u \<Rightarrow> u | _ \<Rightarrow> [])"

definition bsp_at :: "segment_reader \<Rightarrow> nat \<Rightarrow> str" where
  "bsp_at rd t = (case target_meta rd t of Ok m \<Rightarrow> tm_bsp_id m | _ \<Rightarrow> [])"

text \<open>The hit of a record, and whether the record is of its document's current epoch.\<close>
definition hit_of_record :: "segment_reader \<Rightarrow> group_rec \<Rightarrow> reference_hit" where
  "hit_of_record rd rec =
     \<lparr>rh_loc = \<lparr>loc_uri = uri_at rd (unat (gr_doc_ord rec)), loc_span = unpack_span (gr_packed_start rec) (gr_packed_end rec)\<rparr>,
      rh_role = (if has (gr_flags rec) DEFINITION then Definition else Reference), rh_from_overlay = False\<rparr>"

definition current_record :: "segment_reader \<Rightarrow> group_rec \<Rightarrow> bool" where
  "current_record rd rec \<longleftrightarrow> kept rd None False rec"

section \<open>The targets that can see a definition\<close>

text \<open>The workspace is the value of \<open>WorkspaceTargets::new\<close>.\<close>
definition workspace_ok :: "query_orchestrator \<Rightarrow> bool" where
  "workspace_ok orch \<longleftrightarrow>
     (case or_workspace orch of None \<Rightarrow> True | Some ws \<Rightarrow> workspace_targets_new (ws_targets ws) = (Ok ws :: (_, unit) outcome))"

text \<open>All targets when the defining one is unknown to the segment or to the workspace, else the defining target
  and the targets of its transitive dependents; of two targets with one id the later one counts.\<close>
definition reference_domain :: "query_orchestrator \<Rightarrow> segment_reader \<Rightarrow> symbol_view \<Rightarrow> nat set" where
  "reference_domain orch rd v =
     (let everything = {..<rd_target_count rd}; def_ord = unat (sv_def_target_ord v)
      in if sint (sv_def_target_ord v) < 0 then everything
         else case or_workspace orch of
             None \<Rightarrow> everything
           | Some ws \<Rightarrow>
               if bsp_at rd def_ord \<notin> ts_bsp_id ` set (ws_targets ws) then everything
               else insert def_ord {t \<in> everything. (bsp_at rd t, bsp_at rd def_ord) \<in> (depends (ws_targets ws))\<^sup>* \<and>
                      (\<forall>u \<in> everything. t < u \<longrightarrow> bsp_at rd u \<noteq> bsp_at rd t)})"

lemma depends_ids: "(a, b) \<in> (depends ts)\<^sup>* \<Longrightarrow> b \<in> ts_bsp_id ` set ts \<Longrightarrow> a \<in> ts_bsp_id ` set ts"
  by (induction rule: converse_rtrancl_induct) (auto simp: depends_def)

lemma map_of_rev_last:
  "map_of (rev (zip (map f [0..<n]) [0..<n])) b = Some t \<longleftrightarrow> t < n \<and> f t = b \<and> (\<forall>u < n. t < u \<longrightarrow> f u \<noteq> b)"
proof (induction n)
  case (Suc n)
  then show ?case by (auto simp: less_Suc_eq)
qed simp

context segment_source
begin

lemma uri_ok: "readable rd \<Longrightarrow> d < unat (rd_doc_count rd) \<Longrightarrow> uri_of rd d = Ok (uri_at rd d)"
  using uri_total by (fastforce simp: uri_at_def)

lemma bsp_ok: "readable rd \<Longrightarrow> t < rd_target_count rd \<Longrightarrow> \<exists>m. target_meta rd t = Ok m \<and> tm_bsp_id m = bsp_at rd t"
  using target_total by (fastforce simp: bsp_at_def)

lemma bsp_to_ord_ok:
  assumes "readable rd"
  shows "\<exists>m. bsp_to_ord rd = (Ok m :: (_, 'e) outcome) \<and>
    (\<forall>b t. m b = Some t \<longleftrightarrow> t < rd_target_count rd \<and> bsp_at rd t = b \<and> (\<forall>u < rd_target_count rd. t < u \<longrightarrow> bsp_at rd u \<noteq> b))"
proof -
  obtain meta where meta: "\<And>t. t < rd_target_count rd \<Longrightarrow> target_meta rd t = Ok (meta t) \<and> tm_bsp_id (meta t) = bsp_at rd t"
    using bsp_ok[OF assms] by metis
  have "map_o (\<lambda>ord. read_seg (target_meta rd ord)) [0..<rd_target_count rd] = (Ok (map meta [0..<rd_target_count rd]) :: (_, 'e) outcome)"
    by (rule map_o_map_Ok) (use meta in auto)
  moreover have "map tm_bsp_id (map meta [0..<rd_target_count rd]) = map (bsp_at rd) [0..<rd_target_count rd]"
    using meta by auto
  ultimately have "bsp_to_ord rd = (Ok (map_of (rev (zip (map (bsp_at rd) [0..<rd_target_count rd]) [0..<rd_target_count rd]))) :: (_, 'e) outcome)"
    by (simp only: bsp_to_ord_def and_then.simps)
  then show ?thesis by (simp add: map_of_rev_last)
qed

lemma all_set_ok:
  assumes "n < 2 ^ 32"
  shows "\<exists>a. all_set (word_of_nat n :: u32) = Ok a \<and> bitset_ok a \<and> (\<forall>t. contains_ord a t \<longleftrightarrow> unat t < n)"
proof -
  have n: "unat (word_of_nat n :: u32) = n" using assms by (simp add: unat_of_nat)
  have "\<forall>ord \<in> set (map word_of_nat [0..<unat (word_of_nat n :: u32)]). ord < (word_of_nat n :: u32)"
    using assms by (auto simp: n word_less_nat_alt unat_of_nat)
  then obtain a where "all_set (word_of_nat n :: u32) = Ok a" "bitset_ok a" "members a = unat ` set (map (word_of_nat :: nat \<Rightarrow> u32) [0..<n])"
    unfolding all_set_def n by (rule of_ords_members)
  moreover have "unat ` set (map (word_of_nat :: nat \<Rightarrow> u32) [0..<n]) = {..<n}"
    using assms by (force simp: unat_of_nat image_iff)
  ultimately show ?thesis by (auto simp: contains_ord_members)
qed

lemma of_ords_ok:
  assumes "n < 2 ^ 32" and "\<And>t. t \<in> set ts \<Longrightarrow> t < n"
  shows "\<exists>a. of_ords (word_of_nat n :: u32) (map word_of_nat ts) = Ok a \<and> bitset_ok a \<and> (\<forall>t. contains_ord a t \<longleftrightarrow> unat t \<in> set ts)"
proof -
  have small: "unat (word_of_nat t :: u32) = t" if "t \<in> set ts" for t
    using assms(1) assms(2)[OF that] by (simp add: unat_of_nat)
  have "\<forall>ord \<in> set (map word_of_nat ts). ord < (word_of_nat n :: u32)"
    using assms by (auto simp: word_less_nat_alt unat_of_nat intro: le_less_trans[OF mod_less_eq_dividend])
  then obtain a where "of_ords (word_of_nat n :: u32) (map word_of_nat ts) = Ok a" "bitset_ok a"
    "members a = unat ` set (map (word_of_nat :: nat \<Rightarrow> u32) ts)" by (rule of_ords_members)
  moreover have "unat ` set (map (word_of_nat :: nat \<Rightarrow> u32) ts) = set ts" using small by (auto simp: image_iff)
  ultimately show ?thesis by (auto simp: contains_ord_members)
qed

lemma allowed_exact:
  assumes rd: "readable rd" "rd_target_count rd < 2 ^ 32" and ws: "workspace_ok orch"
    and view: "symbol_view_at rd ord = Ok v" "ord_below (sv_def_target_ord v) (rd_target_count rd)"
  shows "\<exists>a. allowed_targets_for orch rd ord = (Ok a :: (_, 'e) outcome) \<and> bitset_ok a \<and>
    (\<forall>t. contains_ord a t \<longleftrightarrow> unat t \<in> reference_domain orch rd v)"
proof -
  from all_set_ok[OF rd(2)] obtain everything where every: "all_set (word_of_nat (rd_target_count rd)) = Ok everything" "bitset_ok everything"
    "\<forall>t. contains_ord everything t \<longleftrightarrow> unat t < rd_target_count rd" by blast
  let ?def = "unat (sv_def_target_ord v)"
  show ?thesis
  proof (cases "sint (sv_def_target_ord v) < 0 \<or> or_workspace orch = None")
    case True
    then show ?thesis using every view bsp_ok[OF rd(1), of ?def]
      by (cases "sint (sv_def_target_ord v) < 0") (auto simp: allowed_targets_for_def Let_def reference_domain_def ord_below_def)
  next
    case False
    then obtain w where w: "or_workspace orch = Some w" "workspace_targets_new (ws_targets w) = (Ok w :: (_, unit) outcome)"
      and nn: "0 \<le> sint (sv_def_target_ord v)" "?def < rd_target_count rd"
      using ws view(2) by (auto simp: workspace_ok_def ord_below_def)
    obtain m where m: "target_meta rd ?def = Ok m" "tm_bsp_id m = bsp_at rd ?def" using bsp_ok[OF rd(1) nn(2)] by blast
    let ?ids = "ts_bsp_id ` set (ws_targets w)" and ?R = "(depends (ws_targets w))\<^sup>*"
    let ?C = "{t \<in> ?ids. bsp_at rd ?def \<in> ?ids \<and> (t, bsp_at rd ?def) \<in> ?R}"
    have closed: "reverse_dependency_closure w (bsp_at rd ?def) = Some ?C" using workspace_closures(1)[OF w(2)] .
    show ?thesis
    proof (cases "bsp_at rd ?def \<in> ?ids")
      case unknown: False
      then have "?C = {}" by blast
      then show ?thesis using every view nn m w closed unknown
        by (auto simp: allowed_targets_for_def Let_def reference_domain_def)
    next
      case True
      then have "?C \<noteq> {}" by blast
      obtain to_ord where to_ord: "bsp_to_ord rd = (Ok to_ord :: (_, 'e) outcome)"
        "\<And>b t. to_ord b = Some t \<longleftrightarrow> t < rd_target_count rd \<and> bsp_at rd t = b \<and> (\<forall>u < rd_target_count rd. t < u \<longrightarrow> bsp_at rd u \<noteq> b)"
        using bsp_to_ord_ok[OF rd(1)] by blast
      let ?ords = "sort (remdups (filter (\<lambda>o'. \<exists>b \<in> ?C. to_ord b = Some o') [0..<rd_target_count rd] @ [?def]))"
      have domain: "set ?ords = reference_domain orch rd v"
        using True nn w depends_ids[OF _ True] by (auto simp: reference_domain_def Let_def to_ord(2))
      have "\<And>t. t \<in> set ?ords \<Longrightarrow> t < rd_target_count rd" using nn(2) by auto
      from of_ords_ok[OF rd(2) this] obtain a where
        "of_ords (word_of_nat (rd_target_count rd)) (map word_of_nat ?ords) = Ok a" "bitset_ok a" "\<forall>t. contains_ord a t \<longleftrightarrow> unat t \<in> set ?ords"
        by blast
      then show ?thesis using every view nn m w closed \<open>?C \<noteq> {}\<close> to_ord(1) domain
        by (auto simp: allowed_targets_for_def Let_def)
    qed
  qed
qed

subsection \<open>References\<close>

lemma hit_sink_loop:
  assumes "readable rd" and "list_all (rec_in_range rd) recs"
  shows "fold_o (hit_sink rd allowed) recs out =
    (Ok (out @ map (hit_of_record rd) (filter (\<lambda>rec. contains_ord allowed (gr_target_ord rec)) recs)) :: (_, 'e) outcome)"
  using assms(2)
proof (induction recs arbitrary: out)
  case (Cons rec recs)
  have "uri_of rd (unat (gr_doc_ord rec)) = Ok (uri_at rd (unat (gr_doc_ord rec)))"
    using Cons.prems by (intro uri_ok[OF assms(1)]) (simp add: rec_in_range_def)
  then show ?case using Cons by (simp add: hit_sink_def record_to_hit_def hit_of_record_def)
qed simp

lemma snapshot_hits_exact:
  assumes rd: "readable rd" "rd_target_count rd < 2 ^ 32" and ws: "workspace_ok orch"
  shows "case find_symbol_ord rd (encoded_symbol cursor) of
      Ok (Some ord) \<Rightarrow>
        (case symbol_view_at rd ord of
           Ok v \<Rightarrow>
             if sint (sv_ref_group_ord v) < 0 then snapshot_hits W orch rd cursor decl = Ok []
             else (case (group_records rd REF_GROUP_INDEX REF_POSTINGS (unat (sv_ref_group_ord v)),
                         group_records rd DEF_GROUP_INDEX DEF_POSTINGS (unat (sv_ref_group_ord v))) of
                     (Ok refs, Ok defs) \<Rightarrow>
                       snapshot_hits W orch rd cursor decl =
                         Ok (map (hit_of_record rd) (filter (\<lambda>rec. current_record rd rec \<and>
                               unat (gr_target_ord rec) \<in> reference_domain orch rd v) (refs @ (if decl then defs else []))))
                   | _ \<Rightarrow> False)
         | _ \<Rightarrow> False)
    | Ok None \<Rightarrow>
        snapshot_hits W orch rd cursor decl =
          (if cs_source cursor = SourceRawSemanticdb then raw_fallback W orch cursor decl else Err (StaleIndex (cs_uri cursor)))
    | _ \<Rightarrow> False"
proof -
  obtain found where found: "find_symbol_ord rd (encoded_symbol cursor) = Ok found"
    "case found of Some i \<Rightarrow> i < rd_symbol_count rd | None \<Rightarrow> True" using find_total[OF rd(1)] by blast
  show ?thesis
  proof (cases found)
    case None
    then show ?thesis using found by (simp add: snapshot_hits_def)
  next
    case (Some ord)
    then obtain v where v: "symbol_view_at rd ord = Ok v" "ord_below (sv_ref_group_ord v) (unat (rd_ref_group_count rd))"
      "ord_below (sv_def_target_ord v) (rd_target_count rd)" using view_total[OF rd(1)] found(2) by fastforce
    show ?thesis
    proof (cases "sint (sv_ref_group_ord v) < 0")
      case True
      then show ?thesis using found Some v by (simp add: snapshot_hits_def)
    next
      case False
      let ?g = "unat (sv_ref_group_ord v)"
      have g: "?g < unat (rd_ref_group_count rd)" using False v(2) by (simp add: ord_below_def)
      obtain a where a: "allowed_targets_for orch rd ord = (Ok a :: (_, ls_error) outcome)" "bitset_ok a"
        "\<And>t. contains_ord a t \<longleftrightarrow> unat t \<in> reference_domain orch rd v" using allowed_exact[OF rd ws v(1,3)] by blast
      obtain refs where refs: "group_records rd REF_GROUP_INDEX REF_POSTINGS ?g = Ok refs" "list_all (rec_in_range rd) refs"
        "scan_ref_group rd ?g (Some a) = Ok (filter (kept rd (Some a) False) refs)" using refs_exact[OF rd(1) g] a(2) by force
      obtain defs where defs: "group_records rd DEF_GROUP_INDEX DEF_POSTINGS ?g = Ok defs" "list_all (rec_in_range rd) defs"
        "scan_def_group rd ?g = Ok (filter (kept rd None False) defs)" using defs_exact[OF rd(1) g] by blast
      have loops: "fold_o (hit_sink rd a) (filter P recs) out =
          (Ok (out @ map (hit_of_record rd) (filter (\<lambda>rec. P rec \<and> contains_ord a (gr_target_ord rec)) recs)) :: (_, ls_error) outcome)"
        if "list_all (rec_in_range rd) recs" for P recs out
        using hit_sink_loop[OF rd(1), of "filter P recs" a out] that by (simp add: list_all_iff conj_commute)
      show ?thesis using False found Some v a(1) refs defs
        by (simp add: snapshot_hits_def loops a(3) current_record_def kept_def conj_commute conj_left_commute)
    qed
  qed
qed

end

subsection \<open>Sorting and deduplication\<close>

lemma dedupe_by_set: "f ` set (dedupe_by f seen xs) = f ` set xs - seen"
  by (induction xs arbitrary: seen) auto

lemma dedupe_by_distinct: "distinct (map f (dedupe_by f seen xs))"
proof (induction xs arbitrary: seen)
  case (Cons x xs)
  have "f x \<notin> set (map f (dedupe_by f (insert (f x) seen) xs))" using dedupe_by_set[of f "insert (f x) seen" xs] by auto
  then show ?case using Cons by simp
qed simp

lemma sorted_hits:
  "sorted (map (loc_key \<circ> rh_loc) (dedupe_and_sort_hits hs))"
  "distinct (map rh_loc (dedupe_and_sort_hits hs))"
  "rh_loc ` set (dedupe_and_sort_hits hs) = rh_loc ` set hs"
proof -
  let ?f = "\<lambda>h. (loc_uri (rh_loc h), loc_span (rh_loc h))"
  have inj: "inj (\<lambda>l :: loc. (loc_uri l, loc_span l))" by (rule injI) (simp add: loc.equality)
  have eq: "?f = (\<lambda>l :: loc. (loc_uri l, loc_span l)) \<circ> rh_loc" by auto
  show "sorted (map (loc_key \<circ> rh_loc) (dedupe_and_sort_hits hs))" unfolding dedupe_and_sort_hits_def by (rule sorted_sort_key)
  have "distinct (map ?f (dedupe_by ?f {} hs))" by (rule dedupe_by_distinct)
  then have "distinct (map rh_loc (dedupe_by ?f {} hs))" using inj
    unfolding eq by (simp add: distinct_map inj_on_def comp_def) 
  then show "distinct (map rh_loc (dedupe_and_sort_hits hs))"
    unfolding dedupe_and_sort_hits_def by (simp add: distinct_map)
  have "?f ` set (dedupe_by ?f {} hs) = ?f ` set hs" using dedupe_by_set[of ?f "{}" hs] by simp
  then have "rh_loc ` set (dedupe_by ?f {} hs) = rh_loc ` set hs" using inj
    unfolding eq image_comp[symmetric] by (simp add: inj_image_eq_iff)
  then show "rh_loc ` set (dedupe_and_sort_hits hs) = rh_loc ` set hs" by (simp add: dedupe_and_sort_hits_def)
qed

text \<open>
  C5: references over an opened segment are exact. The lookup never panics; a symbol the dictionary holds is
  answered with exactly the current-epoch records of its reference group (its definitions too, when the
  declaration is asked for) whose target is the defining one or transitively depends on it, or any target when the
  defining one is unknown; one it does not hold is answered from the raw file or reported stale. The list
  shown is sorted by location, has every location once and loses none.
\<close>

theorem references_exact:
  assumes "open_segment crc dir = Ok rd" and "rd_target_count rd < 2 ^ 32" and "workspace_ok orch"
  shows "(case find_symbol_ord rd (encoded_symbol cursor) of
      Ok (Some ord) \<Rightarrow>
        (case symbol_view_at rd ord of
           Ok v \<Rightarrow>
             if sint (sv_ref_group_ord v) < 0 then snapshot_hits W orch rd cursor decl = Ok []
             else (case (group_records rd REF_GROUP_INDEX REF_POSTINGS (unat (sv_ref_group_ord v)),
                         group_records rd DEF_GROUP_INDEX DEF_POSTINGS (unat (sv_ref_group_ord v))) of
                     (Ok refs, Ok defs) \<Rightarrow>
                       snapshot_hits W orch rd cursor decl =
                         Ok (map (hit_of_record rd) (filter (\<lambda>rec. current_record rd rec \<and>
                               unat (gr_target_ord rec) \<in> reference_domain orch rd v) (refs @ (if decl then defs else []))))
                   | _ \<Rightarrow> False)
         | _ \<Rightarrow> False)
    | Ok None \<Rightarrow>
        snapshot_hits W orch rd cursor decl =
          (if cs_source cursor = SourceRawSemanticdb then raw_fallback W orch cursor decl else Err (StaleIndex (cs_uri cursor)))
    | _ \<Rightarrow> False) \<and>
   sorted (map (loc_key \<circ> rh_loc) (dedupe_and_sort_hits hs)) \<and> distinct (map rh_loc (dedupe_and_sort_hits hs)) \<and>
   rh_loc ` set (dedupe_and_sort_hits hs) = rh_loc ` set hs"
proof (rule conjI[OF opened_segment.snapshot_hits_exact])
  show "\<exists>crc dir. open_segment crc dir = Ok rd" using assms(1) by blast
qed (use assms(2,3) sorted_hits in auto)

definition sample_orchestrator :: query_orchestrator where
  "sample_orchestrator = with_defaults sample_store"

definition sample_cursor :: cursor_symbol where
  "sample_cursor =
     \<lparr>cs_uri = lit ''a'', cs_semantic_symbol = lit ''A#'', cs_local_doc_id = None, cs_span = new_span 1 2 1 3, cs_role = Reference,
      cs_source = SourceSnapshot, cs_needs_reindex = False, cs_pc_only = False\<rparr>"

lemma sample_lookups:
  "find_symbol_ord sample_reader (encoded_symbol sample_cursor) = Ok (Some 0)"
  "symbol_view_at sample_reader 0 = Ok \<lparr>sv_symbol_id = 3, sv_ref_group_ord = 0, sv_rename_group_ord = 0, sv_def_target_ord = 0\<rparr>"
  "uri_of sample_reader 0 = Ok (lit ''a'')"
  by code_simp+

lemma sample_records:
  "group_records sample_reader REF_GROUP_INDEX REF_POSTINGS 0 =
     Ok [\<lparr>gr_doc_ord = 0, gr_doc_epoch = 1, gr_target_ord = 0, gr_packed_start = 0x1002, gr_packed_end = 0x1003, gr_flags = 0\<rparr>]"
  "group_records sample_reader DEF_GROUP_INDEX DEF_POSTINGS 0 = Ok []"
  by code_simp+

lemma sample_orchestrator_workspace: "or_workspace sample_orchestrator = None"
  by (simp add: sample_orchestrator_def with_defaults_def orchestrator_new_def)

lemma sample_orchestrator_ok: "workspace_ok sample_orchestrator"
  by (simp add: workspace_ok_def sample_orchestrator_workspace)

lemma sample_span: "unpack_span 0x1002 0x1003 = new_span 1 2 1 3"
  by code_simp

lemma sample_hit:
  "hit_of_record sample_reader \<lparr>gr_doc_ord = 0, gr_doc_epoch = 1, gr_target_ord = 0, gr_packed_start = 0x1002, gr_packed_end = 0x1003, gr_flags = 0\<rparr> =
     \<lparr>rh_loc = \<lparr>loc_uri = lit ''a'', loc_span = new_span 1 2 1 3\<rparr>, rh_role = Reference, rh_from_overlay = False\<rparr>"
  by (simp add: hit_of_record_def uri_at_def sample_lookups sample_span has_def)

lemma sample_reader_shape: "rd_target_count sample_reader = 1" "rd_doc_epochs sample_reader = [1]"
  by (simp_all add: sample_reader_def)

theorem references_exact_witness:
  "\<forall>W. snapshot_hits W sample_orchestrator sample_reader sample_cursor True =
     Ok [\<lparr>rh_loc = \<lparr>loc_uri = lit ''a'', loc_span = new_span 1 2 1 3\<rparr>, rh_role = Reference, rh_from_overlay = False\<rparr>]"
proof
  fix W
  show "snapshot_hits W sample_orchestrator sample_reader sample_cursor True =
     Ok [\<lparr>rh_loc = \<lparr>loc_uri = lit ''a'', loc_span = new_span 1 2 1 3\<rparr>, rh_role = Reference, rh_from_overlay = False\<rparr>]"
    using references_exact[OF sample_opens _ sample_orchestrator_ok, where W = W and cursor = sample_cursor and decl = True and hs = "[]"]
    by (simp add: sample_lookups sample_records sample_hit sample_reader_shape current_record_def kept_def reference_domain_def
        sample_orchestrator_workspace usize_of_i32_def del: One_nat_def)
qed

text \<open>Overlay hits are told apart by their span alone: of two documents with a hit at the same span one is lost.\<close>
lemma overlay_hits_one_per_span:
  assumes "overlay_hits orch cursor = (Ok hs :: (_, 'e) outcome)"
  shows "distinct (map (loc_span \<circ> rh_loc) hs)"
  using assms dedupe_by_distinct[of loc_span "{}"]
  by (auto simp: overlay_hits_def and_then_eq_Ok o_def split: if_splits)

text \<open>A defining target that the workspace does not know leaves nothing to compile before the rename.\<close>
lemma rename_domain_unknown_target:
  assumes "workspace_targets_new ts = (Ok ws :: (_, unit) outcome)" and "b \<notin> ts_bsp_id ` set ts"
    and "current_definition_bsp orch pre = (Ok (Some b) :: (_, ls_error) outcome)"
  shows "rename_domain W ws pre uri orch = Ok (Some b, [])"
  using workspace_closures(1)[OF assms(1), of b] assms(2,3) by (simp add: rename_domain_def)

section \<open>Rename plans\<close>

definition edit_of_record :: "segment_reader \<Rightarrow> group_rec \<Rightarrow> str \<times> span \<times> i32" where
  "edit_of_record rd rec = (uri_at rd (unat (gr_doc_ord rec)), unpack_span (gr_packed_start rec) (gr_packed_end rec), gr_flags rec)"

text \<open>The editable records of the current epoch, as edits.\<close>
definition editable_edits :: "segment_reader \<Rightarrow> group_rec list \<Rightarrow> (str \<times> span \<times> i32) list" where
  "editable_edits rd recs = map (edit_of_record rd) (filter (\<lambda>rec. current_record rd rec \<and> has (gr_flags rec) EDITABLE) recs)"

text \<open>The rename group a symbol belongs to, when it is safe: its records.\<close>
definition safe_group :: "segment_reader \<Rightarrow> str \<Rightarrow> group_rec list \<Rightarrow> bool" where
  "safe_group rd encoded recs \<longleftrightarrow>
     (\<exists>ord v p. find_symbol_ord rd encoded = Ok (Some ord) \<and> symbol_view_at rd ord = Ok v \<and> 0 \<le> sint (sv_rename_group_ord v) \<and>
        rename_profile_at rd (unat (sv_rename_group_ord v)) = Ok p \<and> sp_unsafe_reason_mask p = 0 \<and>
        group_records rd RENAME_GROUP_INDEX RENAME_POSTINGS (unat (sv_rename_group_ord v)) = Ok recs)"

context segment_source
begin

lemma raw_edits_ok:
  assumes "readable rd" and "list_all (rec_in_range rd) recs"
  shows "map_o (raw_edit rd) recs = (Ok (map (edit_of_record rd) recs) :: (_, 'e) outcome)"
  by (rule map_o_map_Ok) (use assms uri_ok in \<open>auto simp: raw_edit_def edit_of_record_def list_all_iff rec_in_range_def\<close>)

lemma collect_edits_exact:
  assumes rd: "readable rd"
  shows "collect_edits rd cursor = Ok edits \<longleftrightarrow> (\<exists>recs. safe_group rd (encoded_symbol cursor) recs \<and> edits = editable_edits rd recs)"
    and "collect_edits rd cursor \<noteq> Panic"
proof -
  obtain found where found: "find_symbol_ord rd (encoded_symbol cursor) = Ok found"
    "case found of Some i \<Rightarrow> i < rd_symbol_count rd | None \<Rightarrow> True" using find_total[OF rd] by blast
  have "(collect_edits rd cursor = Ok edits \<longleftrightarrow> (\<exists>recs. safe_group rd (encoded_symbol cursor) recs \<and> edits = editable_edits rd recs)) \<and>
      collect_edits rd cursor \<noteq> Panic"
  proof (cases found)
    case None
    then show ?thesis using found by (simp add: collect_edits_def safe_group_def)
  next
    case (Some ord)
    then obtain v where v: "symbol_view_at rd ord = Ok v" "ord_below (sv_rename_group_ord v) (unat (rd_rename_group_count rd))"
      using view_total[OF rd] found(2) by fastforce
    show ?thesis
    proof (cases "sint (sv_rename_group_ord v) < 0")
      case True
      then show ?thesis using found Some v by (simp add: collect_edits_def safe_group_def)
    next
      case False
      let ?g = "unat (sv_rename_group_ord v)"
      have g: "?g < unat (rd_rename_group_count rd)" using False v(2) by (simp add: ord_below_def)
      obtain p where p: "rename_profile_at rd ?g = Ok p" using profile_total[OF rd g] by blast
      obtain recs where recs: "group_records rd RENAME_GROUP_INDEX RENAME_POSTINGS ?g = Ok recs" "list_all (rec_in_range rd) recs"
        "scan_rename_group rd ?g = Ok (filter (kept rd None True) recs)" using renames_exact[OF rd g] by blast
      have "map_o (raw_edit rd) (filter (kept rd None True) recs) = (Ok (editable_edits rd recs) :: (_, ls_error) outcome)"
        using raw_edits_ok[OF rd, of "filter (kept rd None True) recs"] recs(2)
        by (simp add: editable_edits_def current_record_def kept_def[abs_def] list_all_iff)
      then show ?thesis using found Some v False p recs by (auto simp: collect_edits_def safe_group_def)
    qed
  qed
  then show "collect_edits rd cursor = Ok edits \<longleftrightarrow> (\<exists>recs. safe_group rd (encoded_symbol cursor) recs \<and> edits = editable_edits rd recs)"
    and "collect_edits rd cursor \<noteq> Panic" by blast+
qed

end

subsection \<open>The edits of a plan\<close>

lemma span_key_inj: "inj (span_key :: span \<Rightarrow> _)"
  by (rule injI) (simp add: span_key_def span.equality)

lemma remdups_adj_sorted_key: "inj f \<Longrightarrow> sorted (map f xs) \<Longrightarrow> sorted_wrt (<) (map f (remdups_adj xs))"
proof (induction xs rule: remdups_adj.induct)
  case (3 x y xs)
  then have "f x \<le> f y" "x \<noteq> y \<Longrightarrow> f x \<noteq> f y" by (auto dest: injD)
  with 3 show ?case by (fastforce dest: order.strict_trans2)
qed auto

abbreviation spans_in :: "(str \<times> span \<times> i32) list \<Rightarrow> str \<Rightarrow> span list" where
  "spans_in edits u \<equiv> remdups_adj (sort_key span_key (map (fst \<circ> snd) (filter (\<lambda>e. fst e = u) edits)))"

lemma edits_by_uri_spans:
  "(u, spans) \<in> set (edits_by_uri edits) \<longleftrightarrow> spans = spans_in edits u \<and> u \<in> fst ` set edits"
  by (auto simp: edits_by_uri_def)

lemma set_spans_in: "set (spans_in edits u) = {s. \<exists>f. (u, s, f) \<in> set edits}"
  by (force simp: remdups_adj_set)

lemma edits_by_uri_facts:
  "sorted_wrt (<) (map fst (edits_by_uri edits))"
  "list_all (\<lambda>(u, spans). spans \<noteq> [] \<and> sorted_wrt (<) (map span_key spans)) (edits_by_uri edits)"
  "{(u, s). \<exists>spans. (u, spans) \<in> set (edits_by_uri edits) \<and> s \<in> set spans} = (\<lambda>(u, s, f). (u, s)) ` set edits"
proof -
  have "map fst (edits_by_uri edits) = sort (remdups (map fst edits))" by (simp add: edits_by_uri_def o_def)
  then show "sorted_wrt (<) (map fst (edits_by_uri edits))" by (simp add: strict_sorted_iff)
  have "spans_in edits u \<noteq> [] \<and> sorted_wrt (<) (map span_key (spans_in edits u))" if "u \<in> fst ` set edits" for u
  proof
    from that obtain s f where "(u, s, f) \<in> set edits" by force
    then have "s \<in> set (spans_in edits u)" unfolding set_spans_in by blast
    then show "spans_in edits u \<noteq> []" by force
  qed (rule remdups_adj_sorted_key[OF span_key_inj sorted_sort_key])
  then show "list_all (\<lambda>(u, spans). spans \<noteq> [] \<and> sorted_wrt (<) (map span_key spans)) (edits_by_uri edits)"
    unfolding list_all_iff case_prod_beta by (metis edits_by_uri_spans prod.collapse)
  show "{(u, s). \<exists>spans. (u, spans) \<in> set (edits_by_uri edits) \<and> s \<in> set spans} = (\<lambda>(u, s, f). (u, s)) ` set edits"
    unfolding edits_by_uri_spans by (force simp: remdups_adj_set)
qed

lemma shared_check_no_panic: "check_shared_source_consistency W orch u spans \<noteq> Panic"
proof -
  have "symbols_at_spans fs f u spans \<noteq> (Panic :: (_, ls_error) outcome)" for fs f
    using parse_total by (auto simp: symbols_at_spans_def parse_file_def split: outcome.split option.split)
  then have "map_o (\<lambda>f. symbols_at_spans (w_fs W) f u spans) files \<noteq> (Panic :: (_, ls_error) outcome)" for files
    by (intro map_o_neq_Panic)
  then show ?thesis by (auto simp: check_shared_source_consistency_def Let_def and_then_eq_Panic)
qed

text \<open>What every document of a plan passed right before the plan is returned.\<close>
definition checked_document :: "query_env \<Rightarrow> query_orchestrator \<Rightarrow> str \<times> span list \<Rightarrow> bool" where
  "checked_document W orch = (\<lambda>(u, spans).
     check_shared_source_consistency W orch u spans = Ok () \<and> primary_spec_of (w_fs W) orch u \<noteq> None \<and>
     source_is_fresh_uri (w_fs W) orch u)"

lemma check_still_fresh_iff:
  "check_still_fresh W orch u = Ok () \<longleftrightarrow> primary_spec_of (w_fs W) orch u \<noteq> None \<and> source_is_fresh_uri (w_fs W) orch u"
  "check_still_fresh W orch u \<noteq> Panic"
  by (auto simp: check_still_fresh_def)

lemma checks_iff:
  "and_then (for_each (\<lambda>(u, spans). check_shared_source_consistency W orch u spans) by_uri) (\<lambda>_.
     and_then (for_each (\<lambda>(u, _). check_still_fresh W orch u) by_uri) (\<lambda>_. Ok r)) = Ok plan \<longleftrightarrow>
   plan = r \<and> list_all (checked_document W orch) by_uri"
  by (auto simp: and_then_eq_Ok for_each_Ok check_still_fresh_iff checked_document_def list_all_iff split: prod.splits)

lemma checks_no_panic:
  "and_then (for_each (\<lambda>(u, spans). check_shared_source_consistency W orch u spans) by_uri) (\<lambda>_.
     and_then (for_each (\<lambda>(u, _). check_still_fresh W orch u) by_uri) (\<lambda>_. Ok r)) \<noteq> Panic"
  by (intro no_panicI) (auto simp: shared_check_no_panic check_still_fresh_iff split: prod.splits)

text \<open>
  C6: a rename plan over an opened segment edits exactly what it may. A plan is returned if and only if the
  cursor was resolved on the snapshot, the symbol's rename group has no unsafe reason, some editable
  current-epoch record of the group is not synthetic, and every document to edit is owned by a target,
  fresh, and seen alike by all targets that compile it; the plan is then the one of those records. Its uris
  and the spans of a uri are strictly ascending, no uri is without an edit, the edits are exactly the records'
  locations, every edit carries the new text, and the count is their number. The planner never panics.
\<close>

theorem rename_plan_exact:
  assumes "current_snapshot orch = Some snap" and "open_segment crc dir = Ok (sn_segment snap)"
  shows "(plan_edits W uri cursor new_text orch = Ok plan \<longleftrightarrow>
      cs_source cursor = SourceSnapshot \<and>
      (\<exists>recs. safe_group (sn_segment snap) (encoded_symbol cursor) recs \<and>
         list_ex (\<lambda>(_, _, flags). \<not> has flags SYNTHETIC) (editable_edits (sn_segment snap) recs) \<and>
         list_all (checked_document W orch) (edits_by_uri (editable_edits (sn_segment snap) recs)) \<and>
         plan = plan_of new_text (edits_by_uri (editable_edits (sn_segment snap) recs)))) \<and>
    plan_edits W uri cursor new_text orch \<noteq> Panic \<and>
    sorted_wrt (<) (map fst (edits_by_uri edits)) \<and>
    list_all (\<lambda>(u, spans). spans \<noteq> [] \<and> sorted_wrt (<) (map span_key spans)) (edits_by_uri edits) \<and>
    {(u, s). \<exists>spans. (u, spans) \<in> set (edits_by_uri edits) \<and> s \<in> set spans} = (\<lambda>(u, s, f). (u, s)) ` set edits \<and>
    map (\<lambda>(u, es). (u, map te_span es)) (ep_edits (plan_of new_text (edits_by_uri edits))) = edits_by_uri edits \<and>
    list_all (\<lambda>(u, es). list_all (\<lambda>e. te_new_text e = new_text) es) (ep_edits (plan_of new_text (edits_by_uri edits))) \<and>
    ep_occurrence_count (plan_of new_text (edits_by_uri edits)) =
      sum_list (map (length \<circ> snd) (ep_edits (plan_of new_text (edits_by_uri edits))))"
proof -
  have opened: "\<exists>crc dir. open_segment crc dir = Ok (sn_segment snap)" using assms(2) by blast
  note collect = opened_segment.collect_edits_exact[OF opened, of cursor]
  have plan: "plan_edits W uri cursor new_text orch = Ok plan \<longleftrightarrow>
      cs_source cursor = SourceSnapshot \<and>
      (\<exists>recs. safe_group (sn_segment snap) (encoded_symbol cursor) recs \<and>
         list_ex (\<lambda>(_, _, flags). \<not> has flags SYNTHETIC) (editable_edits (sn_segment snap) recs) \<and>
         list_all (checked_document W orch) (edits_by_uri (editable_edits (sn_segment snap) recs)) \<and>
         plan = plan_of new_text (edits_by_uri (editable_edits (sn_segment snap) recs)))"
  proof -
    have step: "(if edits = [] then Err e1 else if list_all (\<lambda>(_, _, flags). has flags SYNTHETIC) edits then Err e2
        else let by_uri = edits_by_uri edits
          in and_then (for_each (\<lambda>(u, spans). check_shared_source_consistency W orch u spans) by_uri) (\<lambda>_.
             and_then (for_each (\<lambda>(u, _). check_still_fresh W orch u) by_uri) (\<lambda>_. Ok (plan_of new_text by_uri)))) = Ok plan \<longleftrightarrow>
        list_ex (\<lambda>(_, _, flags). \<not> has flags SYNTHETIC) edits \<and> list_all (checked_document W orch) (edits_by_uri edits) \<and>
        plan = plan_of new_text (edits_by_uri edits)" for edits e1 e2
      unfolding Let_def checks_iff if_distrib[of "\<lambda>x. x = Ok plan"] by (auto simp: list_all_iff list_ex_iff)
    show ?thesis
      using assms(1) unfolding plan_edits_def by (simp add: and_then_eq_Ok[of "collect_edits _ _"] step collect(1)) blast
  qed
  moreover have "plan_edits W uri cursor new_text orch \<noteq> Panic"
    using assms(1) collect(2) checks_no_panic by (auto simp: plan_edits_def Let_def and_then_eq_Panic)
  moreover have "map (\<lambda>(u, es). (u, map te_span es)) (ep_edits (plan_of new_text (edits_by_uri edits))) = edits_by_uri edits"
    by (simp add: plan_of_def o_def case_prod_beta)
  moreover have "list_all (\<lambda>(u, es). list_all (\<lambda>e. te_new_text e = new_text) es) (ep_edits (plan_of new_text (edits_by_uri edits)))"
    by (auto simp: plan_of_def list_all_iff)
  moreover have "ep_occurrence_count (plan_of new_text (edits_by_uri edits)) =
      sum_list (map (length \<circ> snd) (ep_edits (plan_of new_text (edits_by_uri edits))))"
    by (simp add: plan_of_def o_def case_prod_beta)
  ultimately show ?thesis using edits_by_uri_facts by blast
qed

lemma sample_current: "current_snapshot sample_orchestrator = Some sample_snapshot" "sn_segment sample_snapshot = sample_reader"
  by (simp_all add: sample_orchestrator_def with_defaults_def orchestrator_new_def sample_store_def sample_snapshot_def)

lemma sample_rename_records: "group_records sample_reader RENAME_GROUP_INDEX RENAME_POSTINGS 0 = Ok []"
  by code_simp

section \<open>A rename that finds something to edit\<close>

definition edit_state :: ingest_state where
  "edit_state = [lit ''a'' \<mapsto> \<lparr>ds_epoch = 1, ds_md5 = compute_hex (lit ''x'')\<rparr>]"

definition edit_snapshot :: snapshot where
  "edit_snapshot =
     sample_snapshot\<lparr>sn_segment := edit_reader, sn_state := \<lparr>ws_generation = 1, ws_payload = state_encode edit_state\<rparr>\<rparr>"

definition edit_env :: query_env where
  "edit_env =
     \<lparr>w_unicode = ascii_unicode,
      w_fs = \<lparr>fs_walk = (\<lambda>_. []), fs_is_file = (\<lambda>_. True), fs_read = (\<lambda>_. Some (lit ''x'')), fs_current_dir = [47]\<rparr>,
      w_crc = sample_crc, w_to_json = sample_to_json, w_now_ms = 2\<rparr>"

definition edit_orchestrator :: query_orchestrator where
  "edit_orchestrator =
     (with_defaults (sample_store\<lparr>st_current := Some edit_snapshot\<rparr>))
       \<lparr>or_workspace := Some \<lparr>ws_targets = [sample_spec], ws_by_id = [lit ''t'' \<mapsto> 0], ws_reverse_edges = Map.empty\<rparr>\<rparr>"

definition edit_record :: group_rec where
  "edit_record =
     \<lparr>gr_doc_ord = 0, gr_doc_epoch = 1, gr_target_ord = 0, gr_packed_start = 0x1002, gr_packed_end = 0x1003, gr_flags = EDITABLE\<rparr>"

lemma edit_lookups:
  "find_symbol_ord edit_reader (encoded_symbol sample_cursor) = Ok (Some 0)"
  "symbol_view_at edit_reader 0 = Ok \<lparr>sv_symbol_id = 3, sv_ref_group_ord = 0, sv_rename_group_ord = 0, sv_def_target_ord = 0\<rparr>"
  "uri_of edit_reader 0 = Ok (lit ''a'')"
  "rename_profile_at edit_reader 0 = Ok \<lparr>sp_is_local = False, sp_is_external = False, sp_has_generated = False,
     sp_has_readonly = False, sp_has_override_family = False, sp_has_companion = False,
     sp_editable_occurrence_count = 1, sp_unsafe_reason_mask = 0\<rparr>"
  "group_records edit_reader RENAME_GROUP_INDEX RENAME_POSTINGS 0 = Ok [edit_record]"
  by code_simp+

lemma edit_safe: "safe_group edit_reader (encoded_symbol sample_cursor) [edit_record]"
  by (simp add: safe_group_def edit_lookups)

lemma edit_edits: "editable_edits edit_reader [edit_record] = [(lit ''a'', new_span 1 2 1 3, EDITABLE)]"
proof -
  have "unpack_span 0x1002 0x1003 = new_span 1 2 1 3" "has EDITABLE EDITABLE" by code_simp+
  moreover have "rd_doc_epochs edit_reader = [1]" by (simp add: edit_reader_def)
  ultimately show ?thesis
    by (simp add: editable_edits_def edit_of_record_def uri_at_def edit_lookups edit_record_def current_record_def kept_def usize_of_i32_def)
qed

lemma edit_current:
  "current_snapshot edit_orchestrator = Some edit_snapshot" "sn_segment edit_snapshot = edit_reader"
  by (simp_all add: edit_orchestrator_def with_defaults_def orchestrator_new_def edit_snapshot_def)

lemma edit_fresh: "checked_document edit_env edit_orchestrator (lit ''a'', spans)"
proof -
  have sdb: "semanticdb_file_for (ts_semanticdb_root sample_spec) (lit ''a'') = Ok (lit ''/o/META-INF/semanticdb/a.semanticdb'')"
    by code_simp
  have ex: "existing_file (w_fs edit_env) (lit ''a'') sample_spec = Some (lit ''/o/META-INF/semanticdb/a.semanticdb'')"
    by (simp add: existing_file_def sdb edit_env_def)
  have ws: "or_workspace edit_orchestrator = Some \<lparr>ws_targets = [sample_spec], ws_by_id = [lit ''t'' \<mapsto> 0], ws_reverse_edges = Map.empty\<rparr>"
    by (simp add: edit_orchestrator_def)
  have "utf8_valid (compute_hex (lit ''x''))" by (rule utf8_valid_ascii) (use compute_hex_ascii in blast)
  then have "state_ok edit_state"
    by (simp add: state_ok_def state_entries_def edit_state_def entry_ok_def str_ok_def utf8_valid_ascii length_compute_hex lit_def)
  then have "state_decode (state_encode edit_state) = edit_state" using state_decode_encode by blast
  then have md5: "ingested_md5 edit_snapshot (lit ''a'') = Some (compute_hex (lit ''x''))"
    by (simp add: ingested_md5_def edit_snapshot_def edit_state_def)
  have src: "source_text_of (w_fs edit_env) edit_orchestrator (lit ''a'') = Some (lit ''x'')"
    by (simp add: source_text_of_def absolute_source_path_def primary_spec_of_def ws ex)
      (simp add: edit_env_def read_to_string_def from_utf8_def utf8_valid_ascii lit_def)
  have "compute_hex (lit ''x'') \<noteq> []" using length_compute_hex[of "lit ''x''"] by auto
  then have "source_is_fresh (w_fs edit_env) edit_orchestrator edit_snapshot (lit ''a'')"
    using md5 src by (simp add: source_is_fresh_def validate_md5_def Let_def eq_ignore_ascii_case_def)
  then have fresh: "source_is_fresh_uri (w_fs edit_env) edit_orchestrator (lit ''a'')"
    using edit_current by (simp add: source_is_fresh_uri_def)
  have "semanticdb_files_for (w_fs edit_env) edit_orchestrator (lit ''a'') = [lit ''/o/META-INF/semanticdb/a.semanticdb'']"
    by (simp add: semanticdb_files_for_def ws List.map_filter_def ex)
  then show ?thesis
    using fresh by (simp add: checked_document_def check_shared_source_consistency_def primary_spec_of_def ws ex)
qed

text \<open>On a segment whose rename group has one editable occurrence in a fresh document, the plan is that edit; on the
  sample segment, whose group has none, there is no plan.\<close>
theorem rename_plan_exact_witness:
  "plan_edits edit_env (lit ''a'') sample_cursor (lit ''B'') edit_orchestrator =
     Ok \<lparr>ep_edits = [(lit ''a'', [\<lparr>te_span = new_span 1 2 1 3, te_new_text = lit ''B''\<rparr>])], ep_occurrence_count = 1\<rparr> \<and>
   (\<forall>W plan. plan_edits W (lit ''a'') sample_cursor (lit ''B'') sample_orchestrator \<noteq> Ok plan)"
proof (intro conjI allI)
  have by_uri: "edits_by_uri [(lit ''a'', new_span 1 2 1 3, EDITABLE)] = [(lit ''a'', [new_span 1 2 1 3])]"
    by (simp add: edits_by_uri_def)
  have "\<not> has EDITABLE SYNTHETIC" by code_simp
  then show "plan_edits edit_env (lit ''a'') sample_cursor (lit ''B'') edit_orchestrator =
     Ok \<lparr>ep_edits = [(lit ''a'', [\<lparr>te_span = new_span 1 2 1 3, te_new_text = lit ''B''\<rparr>])], ep_occurrence_count = 1\<rparr>"
    using edit_opens edit_safe edit_fresh
    by (intro rename_plan_exact[OF edit_current(1), of sample_crc edit_dir, THEN conjunct1, THEN iffD2])
      (auto simp: edit_current(2) sample_cursor_def edit_edits by_uri plan_of_def intro!: exI[of _ "[edit_record]"])
next
  fix W plan
  have "\<not> list_ex P (editable_edits sample_reader recs)" if "safe_group sample_reader (encoded_symbol sample_cursor) recs" for P recs
    using that by (auto simp: safe_group_def sample_lookups sample_rename_records editable_edits_def)
  then show "plan_edits W (lit ''a'') sample_cursor (lit ''B'') sample_orchestrator \<noteq> Ok plan"
    using rename_plan_exact[OF sample_current(1), of sample_crc sample_dir W "lit ''a''" sample_cursor "lit ''B''" plan "[]"] sample_opens
    by (auto simp: sample_current(2))
qed

end
