(* ===== verification/Engine_Symbols.thy ===== *)
theory Engine_Symbols
  imports Engine_References
begin

text \<open>
  The index lookups of \<open>crates/ls-engine/src/orchestrator.rs\<close> behind workspace symbols, the symbol search of
  the presentation compiler (definitions, methods, toplevels) and implementations.
\<close>

section \<open>Visibility\<close>

text \<open>The forward closure of the target that owns a buffer: the target recorded for an indexed document, else
  the target with the deepest sourceroot above it, the last of equals (\<open>max_by_key\<close>).\<close>
definition owner_by_document :: "segment_reader \<Rightarrow> str \<Rightarrow> str list \<Rightarrow> (str option, 'e) outcome" where
  "owner_by_document rd path roots =
     fold_o (\<lambda>root found.
       case found of
         Some b \<Rightarrow> Ok (Some b)
       | None \<Rightarrow>
           (case path_strip_prefix path root of
              None \<Rightarrow> Ok None
            | Some rel0 \<Rightarrow>
                let rel = map (\<lambda>b. if b = 0x5C then 47 else b) (from_utf8_lossy rel0)
                in and_then (doc_ord_of rd rel) (\<lambda>doc.
                   case doc of
                     None \<Rightarrow> Ok None
                   | Some d \<Rightarrow>
                       and_then (read_seg (target_ord_of_doc rd d)) (\<lambda>t.
                         if sint t < 0 then Ok None
                         else and_then (read_seg (target_meta rd (unat t))) (\<lambda>m. Ok (Some (tm_bsp_id m)))))))
       roots None"

fun last_max :: "('a \<Rightarrow> nat) \<Rightarrow> 'a list \<Rightarrow> 'a option" where
  "last_max f [] = None"
| "last_max f (x # xs) = (case last_max f xs of None \<Rightarrow> Some x | Some y \<Rightarrow> if f x > f y then Some x else Some y)"

definition deepest_owner :: "workspace_targets \<Rightarrow> str \<Rightarrow> target_spec option" where
  "deepest_owner ws path =
     last_max (\<lambda>t. length (components (normalize (ts_sourceroot t))))
       (filter (\<lambda>t. path_starts_with path (normalize (ts_sourceroot t))) (ws_targets ws))"

definition requesting_forward_closure :: "query_orchestrator \<Rightarrow> str \<Rightarrow> (str set option, 'e) outcome" where
  "requesting_forward_closure orch from_uri =
     (case or_workspace orch of
        None \<Rightarrow> Ok None
      | Some ws \<Rightarrow>
          (case uri_to_path from_uri of
             Ok p \<Rightarrow>
               let path = normalize p
               in and_then (case current_snapshot orch of
                      None \<Rightarrow> Ok None
                    | Some snap \<Rightarrow>
                        owner_by_document (sn_segment snap) path (sort (remdups (map (normalize \<circ> ts_sourceroot) (ws_targets ws))))) (\<lambda>exact.
                  case exact of
                    Some b \<Rightarrow> and_then (unwrap (forward_dependency_closure ws b)) (\<lambda>c. Ok (Some c))
                  | None \<Rightarrow>
                      (case deepest_owner ws path of
                         None \<Rightarrow> Ok None
                       | Some t \<Rightarrow> and_then (unwrap (forward_dependency_closure ws (ts_bsp_id t))) (\<lambda>c. Ok (Some c))))
           | Err _ \<Rightarrow> Ok None
           | Panic \<Rightarrow> Panic))"

section \<open>Definitions\<close>

text \<open>Whether a definition record defines exactly this symbol in a visible target, with the target's entry.\<close>
definition exact_definition ::
  "segment_reader \<Rightarrow> str set option \<Rightarrow> nat \<Rightarrow> group_rec \<Rightarrow> (target_meta_data option, 'e) outcome" where
  "exact_definition rd allowed ord rec =
     (if sint (gr_target_ord rec) < 0 then Ok None
      else and_then (read_seg (symbol_at rd (gr_doc_ord rec) (unpack_line (gr_packed_start rec)) (unpack_char (gr_packed_start rec)))) (\<lambda>hit.
        if map_option oh_symbol_ord hit \<noteq> Some (i32_of_usize ord) then Ok None
        else and_then (read_seg (target_meta rd (unat (gr_target_ord rec)))) (\<lambda>m.
          if (case allowed of Some ids \<Rightarrow> tm_bsp_id m \<in> ids | None \<Rightarrow> True) then Ok (Some m) else Ok None)))"

definition file_location :: "segment_reader \<Rightarrow> target_meta_data \<Rightarrow> nat \<Rightarrow> (str, 'e) outcome" where
  "file_location rd m doc_ord =
     and_then (read_seg (uri_of rd doc_ord)) (\<lambda>uri. Ok (path_to_uri (normalize (path_join (tm_sourceroot m) uri))))"

definition definition_sink :: "segment_reader \<Rightarrow> str set option \<Rightarrow> nat \<Rightarrow> group_rec \<Rightarrow> loc list \<Rightarrow> (loc list, 'e) outcome" where
  "definition_sink rd allowed ord rec out =
     and_then (exact_definition rd allowed ord rec) (\<lambda>found.
       case found of
         None \<Rightarrow> Ok out
       | Some m \<Rightarrow>
           and_then (file_location rd m (unat (gr_doc_ord rec))) (\<lambda>uri.
             Ok (out @ [\<lparr>loc_uri = uri, loc_span = unpack_span (gr_packed_start rec) (gr_packed_end rec)\<rparr>])))"

definition dedupe_and_sort_locs :: "loc list \<Rightarrow> loc list" where
  "dedupe_and_sort_locs locs = remdups_adj (sort_key loc_key locs)"

definition symbol_definition :: "query_orchestrator \<Rightarrow> str \<Rightarrow> str \<Rightarrow> (loc list, 'e) outcome" where
  "symbol_definition orch sm from_uri =
     (if sm = [] then Ok []
      else case current_snapshot orch of
          None \<Rightarrow> Ok []
        | Some snap \<Rightarrow>
            let rd = sn_segment snap
            in and_then (read_seg (find_symbol_ord rd (encode_symbol sm None))) (\<lambda>found.
               case found of
                 None \<Rightarrow> Ok []
               | Some ord \<Rightarrow>
                   and_then (read_seg (symbol_view_at rd ord)) (\<lambda>v.
                   if sint (sv_ref_group_ord v) < 0 then Ok []
                   else and_then (requesting_forward_closure orch from_uri) (\<lambda>allowed.
                        and_then (read_seg (scan_def_group rd (unat (sv_ref_group_ord v)))) (\<lambda>recs.
                        and_then (fold_o (definition_sink rd allowed ord) recs []) (\<lambda>out.
                          Ok (dedupe_and_sort_locs out)))))))"

section \<open>Toplevels\<close>

definition best_definition :: "segment_reader \<Rightarrow> str set option \<Rightarrow> nat \<Rightarrow> group_rec \<Rightarrow> (u32 \<times> u32) option \<Rightarrow> ((u32 \<times> u32) option, 'e) outcome" where
  "best_definition rd allowed ord rec best =
     and_then (exact_definition rd allowed ord rec) (\<lambda>found.
       let candidate = (gr_target_ord rec, gr_doc_ord rec)
       in Ok (if found = None then best else case best of None \<Rightarrow> Some candidate | Some b \<Rightarrow> if candidate < b then Some candidate else best))"

definition toplevel_sink :: "segment_reader \<Rightarrow> doc_rec \<Rightarrow> str list \<Rightarrow> (str list, 'e) outcome" where
  "toplevel_sink rd rec out =
     (if \<not> has (dc_flags rec) DEFINITION then Ok out
      else and_then (read_seg (semantic_symbol_of rd (unat (dc_symbol_ord rec)))) (\<lambda>encoded.
        let (raw, local_doc_id) = decode_symbol encoded
        in if local_doc_id \<noteq> None \<or> enclosing_top_level raw \<noteq> Some raw \<or> raw \<in> set out then Ok out else Ok (out @ [raw])))"

definition definition_source_toplevels :: "query_orchestrator \<Rightarrow> str \<Rightarrow> str \<Rightarrow> (str list, 'e) outcome" where
  "definition_source_toplevels orch sm source_uri =
     (if sm = [] then Ok []
      else case current_snapshot orch of
          None \<Rightarrow> Ok []
        | Some snap \<Rightarrow>
            let rd = sn_segment snap
            in and_then (read_seg (find_symbol_ord rd (encode_symbol sm None))) (\<lambda>found.
               case found of
                 None \<Rightarrow> Ok []
               | Some ord \<Rightarrow>
                   and_then (read_seg (symbol_view_at rd ord)) (\<lambda>v.
                   if sint (sv_ref_group_ord v) < 0 then Ok []
                   else and_then (requesting_forward_closure orch source_uri) (\<lambda>allowed.
                        and_then (read_seg (scan_def_group rd (unat (sv_ref_group_ord v)))) (\<lambda>recs.
                        and_then (fold_o (best_definition rd allowed ord) recs None) (\<lambda>best.
                          case best of
                            None \<Rightarrow> Ok []
                          | Some (_, doc_ord) \<Rightarrow>
                              and_then (read_seg (scan_doc rd (unat doc_ord) False)) (\<lambda>drecs. fold_o (toplevel_sink rd) drecs [])))))))"

section \<open>Methods by name\<close>

text \<open>\<open>fuzzy_matches_name\<close>: the two positions, and the last positions where an uppercase character aligned.
  The loop ends: a backtrack restarts behind the last aligned character of the name, and the next one is
  aligned behind that.\<close>
definition anchor :: "unicode \<Rightarrow> rchar \<Rightarrow> nat \<Rightarrow> nat option \<Rightarrow> nat option" where
  "anchor U c i before = (if is_uppercase U c then Some i else before)"

function fuzzy_loop :: "unicode \<Rightarrow> rchar list \<Rightarrow> rchar list \<Rightarrow> nat \<Rightarrow> nat option \<Rightarrow> nat \<Rightarrow> nat option \<Rightarrow> bool" where
  "fuzzy_loop U q s qa ql sa sl =
     (if length q \<le> qa then True
      else if length s \<le> sa then False
      else if q ! qa = s ! sa
      then fuzzy_loop U q s (qa + 1) (anchor U (q ! qa) qa ql) (sa + 1) (anchor U (s ! sa) sa sl)
      else if is_lowercase U (q ! qa)
      then (case (ql, sl) of
              (Some qanchor, Some sanchor) \<Rightarrow> fuzzy_loop U q s qanchor None (sanchor + 1) None
            | _ \<Rightarrow> False)
      else fuzzy_loop U q s qa ql (sa + 1) sl)"
  by pat_completeness auto
termination
  by (relation "measures
      [\<lambda>(U, q, s, qa, ql, sa, sl). case sl of Some k \<Rightarrow> if sa \<le> k then 1 else 0 | None \<Rightarrow> 0,
       \<lambda>(U, q, s, qa, ql, sa, sl). case sl of Some k \<Rightarrow> 2 * (length s - k) | None \<Rightarrow> 2 * (length s - sa) + 1,
       \<lambda>(U, q, s, qa, ql, sa, sl). length s - sa]")
    (auto simp: anchor_def split: option.splits)

declare fuzzy_loop.simps [simp del]

definition fuzzy_matches_name :: "unicode \<Rightarrow> str \<Rightarrow> str \<Rightarrow> bool" where
  "fuzzy_matches_name U query name \<longleftrightarrow> query = [] \<or> fuzzy_loop U (chars query) (chars name) 0 None 0 None"

record engine_method_hit =
  mh_uri :: str
  mh_symbol :: str
  mh_kind :: i32
  mh_span :: span

definition method_sink :: "segment_reader \<Rightarrow> str set option \<Rightarrow> nat \<Rightarrow> str \<Rightarrow> i32 \<Rightarrow> group_rec \<Rightarrow> engine_method_hit list \<Rightarrow> (engine_method_hit list, 'e) outcome" where
  "method_sink rd allowed ord raw kind rec out =
     and_then (exact_definition rd allowed ord rec) (\<lambda>found.
       case found of
         None \<Rightarrow> Ok out
       | Some m \<Rightarrow>
           and_then (file_location rd m (unat (gr_doc_ord rec))) (\<lambda>uri.
             Ok (out @ [\<lparr>mh_uri = uri, mh_symbol = raw, mh_kind = kind, mh_span = unpack_span (gr_packed_start rec) (gr_packed_end rec)\<rparr>])))"

definition method_candidate :: "unicode \<Rightarrow> segment_reader \<Rightarrow> str set option \<Rightarrow> str \<Rightarrow> nat \<Rightarrow> engine_method_hit list \<Rightarrow> (engine_method_hit list, 'e) outcome" where
  "method_candidate U rd allowed query ord out =
     and_then (read_seg (semantic_symbol_of rd ord)) (\<lambda>encoded.
       let (raw, local_doc_id) = decode_symbol encoded
       in if local_doc_id \<noteq> None then Ok out
          else case descriptor_of raw of
              Some (DMethod display _) \<Rightarrow>
                if \<not> fuzzy_matches_name U query display then Ok out
                else and_then (read_seg (symbol_view_at rd ord)) (\<lambda>v.
                     if sint (sv_ref_group_ord v) < 0 then Ok out
                     else and_then (read_seg (symbol_meta rd ord)) (\<lambda>m.
                          and_then (read_seg (scan_def_group rd (unat (sv_ref_group_ord v)))) (\<lambda>recs.
                            fold_o (method_sink rd allowed ord raw (if sm_kind m \<noteq> 0 then sm_kind m else 3)) recs out)))
            | _ \<Rightarrow> Ok out)"

definition method_key :: "engine_method_hit \<Rightarrow> str \<times> str \<times> u32 \<times> u32 \<times> u32 \<times> u32" where
  "method_key h = (mh_symbol h, mh_uri h, span_key (mh_span h))"

text \<open>\<open>dedup_by\<close>: of neighbours with the same key the first stays.\<close>
fun dedup_by_key :: "('a \<Rightarrow> 'k) \<Rightarrow> 'a list \<Rightarrow> 'a list" where
  "dedup_by_key f [] = []"
| "dedup_by_key f [x] = [x]"
| "dedup_by_key f (x # y # ys) = (if f x = f y then dedup_by_key f (x # ys) else x # dedup_by_key f (y # ys))"

definition dedupe_and_sort_method_hits :: "engine_method_hit list \<Rightarrow> engine_method_hit list" where
  "dedupe_and_sort_method_hits hs = dedup_by_key method_key (sort_key method_key hs)"

definition search_methods :: "unicode \<Rightarrow> query_orchestrator \<Rightarrow> str \<Rightarrow> str \<Rightarrow> (engine_method_hit list, 'e) outcome" where
  "search_methods U orch query bsp_target_id =
     (case current_snapshot orch of
        None \<Rightarrow> Ok []
      | Some snap \<Rightarrow>
          let rd = sn_segment snap
          in and_then (if bsp_target_id = [] then Ok None
               else case or_workspace orch of
                   None \<Rightarrow> Ok None
                 | Some ws \<Rightarrow> and_then (unwrap (forward_dependency_closure ws bsp_target_id)) (\<lambda>c. Ok (if c = {} then None else Some c))) (\<lambda>allowed.
             and_then (fold_o (method_candidate U rd allowed query) [0..<rd_symbol_count rd] []) (\<lambda>out.
               Ok (dedupe_and_sort_method_hits out))))"

section \<open>Workspace symbols\<close>

record workspace_symbol_entry =
  we_display :: str
  we_kind :: sym_kind
  we_container :: "str option"
  we_location :: loc

text \<open>A result of the reader or of the ranking without its error type, which it never uses.\<close>
fun as_value :: "('a, 'f) outcome \<Rightarrow> ('a, 'e) outcome" where
  "as_value (Ok x) = Ok x"
| "as_value _ = Panic"

definition workspace_symbol :: "unicode \<Rightarrow> query_orchestrator \<Rightarrow> str \<Rightarrow> nat \<Rightarrow> (workspace_symbol_hit list, 'e) outcome" where
  "workspace_symbol U orch query limit =
     (case current_snapshot orch of
        None \<Rightarrow> Ok []
      | Some snap \<Rightarrow>
          and_then (read_seg (build_search_index U (sn_segment snap))) (\<lambda>ix.
          and_then (as_value (workspace_symbol_search U ix query limit)) (\<lambda>(hs, _). Ok hs)))"

definition orch_symbol_name_exists :: "unicode \<Rightarrow> query_orchestrator \<Rightarrow> str \<Rightarrow> (bool, 'e) outcome" where
  "orch_symbol_name_exists U orch name =
     (case current_snapshot orch of
        None \<Rightarrow> Ok False
      | Some snap \<Rightarrow> and_then (read_seg (build_search_index U (sn_segment snap))) (\<lambda>ix. Ok (workspace_symbol_name_exists ix name)))"

definition workspace_symbol_entry_of :: "segment_reader \<Rightarrow> workspace_symbol_hit \<Rightarrow> (workspace_symbol_entry option, 'e) outcome" where
  "workspace_symbol_entry_of rd hit =
     (if sint (wh_def_doc_ord hit) < 0 \<or> sint (wh_def_target_ord hit) < 0 then Ok None
      else let doc_ord = unat (wh_def_doc_ord hit); target_ord = unat (wh_def_target_ord hit)
           in if unat (rd_doc_count rd) \<le> doc_ord \<or> rd_target_count rd \<le> target_ord \<or> rd_symbol_count rd \<le> unat (wh_symbol_ord hit)
              then Ok None
              else and_then (read_seg (symbol_meta rd (unat (wh_symbol_ord hit)))) (\<lambda>m.
                   and_then (read_seg (target_meta rd target_ord)) (\<lambda>t.
                   and_then (file_location rd t doc_ord) (\<lambda>uri.
                     Ok (Some \<lparr>we_display = wh_display hit, we_kind = from_code (wh_kind hit),
                       we_container = (if wh_owner hit \<noteq> [] then Some (wh_owner hit)
                         else if wh_package_name hit \<noteq> [] then Some (wh_package_name hit) else None),
                       we_location = \<lparr>loc_uri = uri, loc_span = unpack_span (sm_def_packed_start m) (sm_def_packed_end m)\<rparr>\<rparr>)))))"

definition workspace_symbols :: "unicode \<Rightarrow> query_orchestrator \<Rightarrow> str \<Rightarrow> nat \<Rightarrow> (workspace_symbol_entry list, 'e) outcome" where
  "workspace_symbols U orch query limit =
     (case current_snapshot orch of
        None \<Rightarrow> Ok []
      | Some snap \<Rightarrow>
          and_then (workspace_symbol U orch query limit) (\<lambda>hs.
          and_then (map_o (workspace_symbol_entry_of (sn_segment snap)) hs) (\<lambda>es. Ok (List.map_filter (\<lambda>e. e) es))))"

section \<open>Implementations\<close>

definition group_has_override_family :: "segment_reader \<Rightarrow> nat \<Rightarrow> (bool, 'e) outcome" where
  "group_has_override_family rd sym_ord =
     and_then (read_seg (symbol_view_at rd sym_ord)) (\<lambda>v.
       if sint (sv_rename_group_ord v) < 0 then Ok False
       else and_then (read_seg (rename_profile_at rd (unat (sv_rename_group_ord v)))) (\<lambda>p. Ok (sp_has_override_family p)))"

definition raw_sdb_document_of :: "file_system \<Rightarrow> segment_reader \<Rightarrow> nat \<Rightarrow> (sdb_document option, 'e) outcome" where
  "raw_sdb_document_of fs rd doc_ord =
     and_then (read_seg (uri_of rd doc_ord)) (\<lambda>uri.
     and_then (read_seg (target_ord_of_doc rd doc_ord)) (\<lambda>t.
     if sint t < 0 then Ok None
     else and_then (read_seg (target_meta rd (unat t))) (\<lambda>m.
       case semanticdb_file_for (tm_semanticdb_root m) uri of
         Ok file_path \<Rightarrow>
           (case parse_file fs file_path of
              Ok documents \<Rightarrow> Ok (find (\<lambda>d. sdoc_uri d = uri) documents)
            | Err _ \<Rightarrow> Ok None
            | Panic \<Rightarrow> Panic)
       | _ \<Rightarrow> Ok None)))"

text \<open>A same-name method of an override-flagged group, with its defining document.\<close>
definition override_candidate :: "segment_reader \<Rightarrow> nat \<Rightarrow> str \<Rightarrow> nat \<Rightarrow> ((nat \<times> nat \<times> str) option, 'e) outcome" where
  "override_candidate rd ord method_name cand =
     (if cand = ord then Ok None
      else and_then (read_seg (semantic_symbol_of rd cand)) (\<lambda>encoded.
        let (raw, local_doc_id) = decode_symbol encoded
        in if local_doc_id \<noteq> None \<or> (case descriptor_of raw of Some (DMethod name _) \<Rightarrow> name \<noteq> method_name | _ \<Rightarrow> True) then Ok None
           else and_then (group_has_override_family rd cand) (\<lambda>flagged.
             if \<not> flagged then Ok None
             else and_then (read_seg (symbol_meta rd cand)) (\<lambda>m.
               if sint (sm_def_doc_ord m) < 0 then Ok None else Ok (Some (unat (sm_def_doc_ord m), cand, raw))))))"

definition implementation_sink :: "segment_reader \<Rightarrow> str set option \<Rightarrow> nat \<Rightarrow> group_rec \<Rightarrow> loc list \<Rightarrow> (loc list, 'e) outcome" where
  "implementation_sink rd allowed cand rec out =
     and_then (exact_definition rd allowed cand rec) (\<lambda>found.
       if found = None then Ok out
       else and_then (read_seg (uri_of rd (unat (gr_doc_ord rec)))) (\<lambda>uri.
         Ok (out @ [\<lparr>loc_uri = uri, loc_span = unpack_span (gr_packed_start rec) (gr_packed_end rec)\<rparr>])))"

definition overrides :: "sdb_document \<Rightarrow> str \<Rightarrow> str \<Rightarrow> bool" where
  "overrides sdb raw sm =
     (case find (\<lambda>s. si_symbol s = raw) (sdoc_symbols sdb) of Some s \<Rightarrow> sm \<in> set (si_overridden_symbols s) | None \<Rightarrow> False)"

text \<open>The source groups the candidates by document, so that a file is read once; the order is lost in the final
  sort.\<close>
definition implementation_step ::
  "file_system \<Rightarrow> segment_reader \<Rightarrow> str set option \<Rightarrow> str \<Rightarrow> nat \<times> nat \<times> str \<Rightarrow> loc list \<Rightarrow> (loc list, 'e) outcome" where
  "implementation_step fs rd allowed sm = (\<lambda>(doc_ord, cand, raw) out.
     and_then (raw_sdb_document_of fs rd doc_ord) (\<lambda>found.
       case found of
         None \<Rightarrow> Ok out
       | Some sdb \<Rightarrow>
           if \<not> overrides sdb raw sm then Ok out
           else and_then (read_seg (symbol_view_at rd cand)) (\<lambda>v.
             if sint (sv_ref_group_ord v) < 0 then Ok out
             else and_then (read_seg (scan_def_group rd (unat (sv_ref_group_ord v)))) (\<lambda>recs.
               fold_o (implementation_sink rd allowed cand) recs out))))"

definition implementations :: "query_env \<Rightarrow> str \<Rightarrow> u32 \<Rightarrow> u32 \<Rightarrow> query_orchestrator \<Rightarrow> query_orchestrator \<times> loc list ls_result" where
  "implementations W uri ln cl orch0 =
     (case symbol_at_cursor W uri ln cl orch0 of
        (orch, found) \<Rightarrow>
          (orch, and_then found (\<lambda>cursor.
             if cs_pc_only cursor then Err PcOnlySymbol
             else if cs_local_doc_id cursor \<noteq> None then Ok []
             else case current_snapshot orch of
                 None \<Rightarrow> Err (NotIndexed uri)
               | Some snap \<Rightarrow>
                   let rd = sn_segment snap
                   in case descriptor_of (cs_semantic_symbol cursor) of
                        Some (DMethod method_name _) \<Rightarrow>
                          if method_name = CONSTRUCTOR_NAME then Ok []
                          else and_then (read_seg (find_symbol_ord rd (encode_symbol (cs_semantic_symbol cursor) None))) (\<lambda>ordo.
                            case ordo of
                              None \<Rightarrow> Ok []
                            | Some ord \<Rightarrow>
                                and_then (group_has_override_family rd ord) (\<lambda>flagged.
                                if \<not> flagged then Ok []
                                else and_then (case absolute_source_path (w_fs W) orch uri of
                                         None \<Rightarrow> Ok None
                                       | Some p \<Rightarrow> requesting_forward_closure orch (path_to_uri (normalize p))) (\<lambda>allowed.
                                     and_then (map_o (override_candidate rd ord method_name) [0..<rd_symbol_count rd]) (\<lambda>cands.
                                     and_then (fold_o (implementation_step (w_fs W) rd allowed (cs_semantic_symbol cursor))
                                         (List.map_filter (\<lambda>c. c) cands) []) (\<lambda>out. Ok (dedupe_and_sort_locs out))))))
                      | _ \<Rightarrow> Ok [])))"

end
