(* ===== verification/Engine_Outline.thy ===== *)
theory Engine_Outline
  imports Engine_Symbols
begin

text \<open>
  The document outline of \<open>crates/ls-engine/src/orchestrator.rs\<close>: the definitions of a document become nodes of
  an arena, each below the nearest enclosing symbol that has a node, and the arena is turned into a forest by
  moving every entry into its parent, last node first. The theorem shows that the moves build the forest a
  plain recursion over the child lists describes, and that it shows every node once.
\<close>

section \<open>The arena\<close>

datatype doc_symbol_entry = DocSymbolEntry (de_name: str) (de_kind: sym_kind) (de_span: span) (de_children: "doc_symbol_entry list")

record outline_node =
  on_entry :: doc_symbol_entry
  on_children :: "nat list"

record outline =
  ou_nodes :: "outline_node list"
  ou_node_of :: "str \<rightharpoonup> nat"
  ou_roots :: "nat list"

definition outline_empty :: outline where
  "outline_empty = \<lparr>ou_nodes = [], ou_node_of = Map.empty, ou_roots = []\<rparr>"

text \<open>The symbols an outline shows: global terms, types and methods, without constructors and setters.\<close>
definition outline_descriptor :: "str \<Rightarrow> descriptor option" where
  "outline_descriptor raw =
     (case descriptor_of raw of
        Some (DTerm n) \<Rightarrow> Some (DTerm n)
      | Some (DType n) \<Rightarrow> Some (DType n)
      | Some (DMethod n d) \<Rightarrow> if n = CONSTRUCTOR_NAME \<or> is_setter raw then None else Some (DMethod n d)
      | _ \<Rightarrow> None)"

fun find_map :: "('a \<Rightarrow> 'b option) \<Rightarrow> 'a list \<Rightarrow> 'b option" where
  "find_map f [] = None"
| "find_map f (x # xs) = (case f x of Some y \<Rightarrow> Some y | None \<Rightarrow> find_map f xs)"

text \<open>The nearest enclosing symbol that has a node, or whose companion has one.\<close>
definition outline_parent :: "unicode \<Rightarrow> (str \<rightharpoonup> nat) \<Rightarrow> str \<Rightarrow> nat option" where
  "outline_parent U node_of raw =
     find_map (\<lambda>ancestor. case node_of ancestor of
         Some i \<Rightarrow> Some i
       | None \<Rightarrow> Option.bind (companion U ancestor) node_of) (rev (enclosing raw))"

definition add_node :: "str \<Rightarrow> doc_symbol_entry \<Rightarrow> nat option \<Rightarrow> outline \<Rightarrow> (outline, 'e) outcome" where
  "add_node raw entry parent ou =
     (let idx = length (ou_nodes ou); nodes = ou_nodes ou @ [\<lparr>on_entry = entry, on_children = []\<rparr>]
      in case parent of
           Some p \<Rightarrow>
             if p < length nodes
             then Ok (ou\<lparr>ou_nodes := nodes[p := (nodes ! p)\<lparr>on_children := on_children (nodes ! p) @ [idx]\<rparr>],
                        ou_node_of := (ou_node_of ou)(raw \<mapsto> idx)\<rparr>)
             else Panic
         | None \<Rightarrow> Ok (ou\<lparr>ou_nodes := nodes, ou_node_of := (ou_node_of ou)(raw \<mapsto> idx), ou_roots := ou_roots ou @ [idx]\<rparr>))"

definition outline_entry :: "segment_reader \<Rightarrow> doc_rec \<Rightarrow> descriptor \<Rightarrow> (doc_symbol_entry, 'e) outcome" where
  "outline_entry rd rec d =
     and_then (read_seg (symbol_meta rd (unat (dc_symbol_ord rec)))) (\<lambda>m.
       Ok (DocSymbolEntry (if sm_display m = [] then descriptor_name d else sm_display m) (from_code (sm_kind m))
             (unpack_span (dc_packed_start rec) (dc_packed_end rec)) []))"

definition outline_sink :: "unicode \<Rightarrow> segment_reader \<Rightarrow> doc_rec \<Rightarrow> outline \<Rightarrow> (outline, 'e) outcome" where
  "outline_sink U rd rec ou =
     (if \<not> has (dc_flags rec) DEFINITION then Ok ou
      else and_then (read_seg (semantic_symbol_of rd (unat (dc_symbol_ord rec)))) (\<lambda>encoded.
        let (raw, local_doc_id) = decode_symbol encoded
        in if local_doc_id \<noteq> None then Ok ou
           else case outline_descriptor raw of
               None \<Rightarrow> Ok ou
             | Some d \<Rightarrow>
                 if ou_node_of ou raw \<noteq> None then Ok ou
                 else and_then (outline_entry rd rec d) (\<lambda>entry. add_node raw entry (outline_parent U (ou_node_of ou) raw) ou)))"

definition placeholder :: doc_symbol_entry where
  "placeholder = DocSymbolEntry [] UnknownKind (new_span 0 0 0 0) []"

fun push_child :: "doc_symbol_entry \<Rightarrow> doc_symbol_entry \<Rightarrow> doc_symbol_entry" where
  "push_child (DocSymbolEntry n k s cs) c = DocSymbolEntry n k s (cs @ [c])"

text \<open>\<open>std::mem::replace(&mut nodes[c].entry, placeholder)\<close>\<close>
definition take_entry :: "nat \<Rightarrow> outline_node list \<Rightarrow> (doc_symbol_entry \<times> outline_node list, 'e) outcome" where
  "take_entry c nodes =
     (if c < length nodes then Ok (on_entry (nodes ! c), nodes[c := (nodes ! c)\<lparr>on_entry := placeholder\<rparr>]) else Panic)"

definition adopt :: "nat \<Rightarrow> nat \<Rightarrow> outline_node list \<Rightarrow> (outline_node list, 'e) outcome" where
  "adopt i c nodes =
     and_then (take_entry c nodes) (\<lambda>(child, ns).
       if i < length ns then Ok (ns[i := (ns ! i)\<lparr>on_entry := push_child (on_entry (ns ! i)) child\<rparr>]) else Panic)"

definition complete_node :: "nat \<Rightarrow> outline_node list \<Rightarrow> (outline_node list, 'e) outcome" where
  "complete_node i nodes =
     and_then (index_o nodes i) (\<lambda>nd. fold_o (adopt i) (on_children nd) (nodes[i := nd\<lparr>on_children := []\<rparr>]))"

definition take_root :: "nat \<Rightarrow> doc_symbol_entry list \<times> outline_node list \<Rightarrow> (doc_symbol_entry list \<times> outline_node list, 'e) outcome" where
  "take_root r = (\<lambda>(out, nodes). and_then (take_entry r nodes) (\<lambda>(e, ns). Ok (out @ [e], ns)))"

definition materialize_outline :: "outline \<Rightarrow> (doc_symbol_entry list, 'e) outcome" where
  "materialize_outline ou =
     and_then (fold_o complete_node (rev [0..<length (ou_nodes ou)]) (ou_nodes ou)) (\<lambda>nodes.
     and_then (fold_o take_root (ou_roots ou) ([], nodes)) (\<lambda>(out, _). Ok out))"

definition document_symbols :: "unicode \<Rightarrow> query_orchestrator \<Rightarrow> str \<Rightarrow> (doc_symbol_entry list, 'e) outcome" where
  "document_symbols U orch uri =
     (case current_snapshot orch of
        None \<Rightarrow> Ok []
      | Some snap \<Rightarrow>
          let rd = sn_segment snap
          in and_then (doc_ord_of rd uri) (\<lambda>found.
             case found of
               None \<Rightarrow> Ok []
             | Some doc_ord \<Rightarrow>
                 and_then (read_seg (scan_doc rd doc_ord False)) (\<lambda>recs.
                 and_then (fold_o (outline_sink U rd) recs outline_empty) materialize_outline)))"


section \<open>The forest\<close>

text \<open>The forest as a recursion over the child lists, which only point forward.\<close>
function outline_tree :: "outline_node list \<Rightarrow> nat \<Rightarrow> doc_symbol_entry" where
  "outline_tree ns i =
     DocSymbolEntry (de_name (on_entry (ns ! i))) (de_kind (on_entry (ns ! i))) (de_span (on_entry (ns ! i)))
       (map (outline_tree ns) (filter (\<lambda>c. i < c \<and> c < length ns) (on_children (ns ! i))))"
  by pat_completeness auto
termination by (relation "measure (\<lambda>(ns, i). length ns - i)") auto

declare outline_tree.simps [simp del]

definition outline_forest :: "outline \<Rightarrow> doc_symbol_entry list" where
  "outline_forest ou = map (outline_tree (ou_nodes ou)) (ou_roots ou)"

text \<open>What an entry shows of itself, and of itself and everything below it.\<close>
definition entry_label :: "doc_symbol_entry \<Rightarrow> str \<times> sym_kind \<times> span" where
  "entry_label e = (de_name e, de_kind e, de_span e)"

primrec entry_labels :: "doc_symbol_entry \<Rightarrow> (str \<times> sym_kind \<times> span) list" where
  "entry_labels (DocSymbolEntry n k s cs) = (n, k, s) # concat (map entry_labels cs)"

text \<open>The invariant of the arena: a node is a root or the child of one node, a child comes after its parent,
  and no entry has children yet.\<close>
definition arena_ok :: "outline \<Rightarrow> bool" where
  "arena_ok ou \<longleftrightarrow>
     mset (ou_roots ou @ concat (map on_children (ou_nodes ou))) = mset [0..<length (ou_nodes ou)] \<and>
     (\<forall>i < length (ou_nodes ou). list_all (\<lambda>c. i < c) (on_children (ou_nodes ou ! i)) \<and> de_children (on_entry (ou_nodes ou ! i)) = []) \<and>
     (\<forall>i \<in> ran (ou_node_of ou). i < length (ou_nodes ou))"

lemma arena_ok_empty: "arena_ok outline_empty"
  by (simp add: arena_ok_def outline_empty_def)

lemma add_child_mset:
  assumes "p < length ns"
  shows "mset (concat (map on_children (ns[p := (ns ! p)\<lparr>on_children := on_children (ns ! p) @ [c]\<rparr>]))) =
     add_mset c (mset (concat (map on_children ns)))"
  using assms by (induction ns arbitrary: p) (auto simp: nth_Cons split: nat.splits)

lemma add_node_ok:
  assumes "arena_ok ou" and "de_children entry = []" and "\<And>p. parent = Some p \<Longrightarrow> p < length (ou_nodes ou)"
  shows "\<exists>ou'. add_node raw entry parent ou = Ok ou' \<and> arena_ok ou'"
proof (cases parent)
  case None
  then show ?thesis using assms(1,2)
    by (auto simp: add_node_def arena_ok_def ran_def nth_append less_Suc_eq Let_def simp del: mset_upt)
next
  case (Some p)
  with assms(3) have p: "p < length (ou_nodes ou)" by simp
  let ?ns = "ou_nodes ou @ [\<lparr>on_entry = entry, on_children = []\<rparr>]" and ?n = "length (ou_nodes ou)"
  let ?ns' = "?ns[p := (?ns ! p)\<lparr>on_children := on_children (?ns ! p) @ [?n]\<rparr>]"
  have "mset (concat (map on_children ?ns')) = add_mset ?n (mset (concat (map on_children ?ns)))"
    using p by (intro add_child_mset) simp
  then have "mset (ou_roots ou @ concat (map on_children ?ns')) = mset [0..<length ?ns']"
    using assms(1) by (simp add: arena_ok_def del: mset_upt)
  moreover have "\<forall>i < length ?ns'. list_all (\<lambda>c. i < c) (on_children (?ns' ! i)) \<and> de_children (on_entry (?ns' ! i)) = []"
    using assms(1,2) p by (auto simp: arena_ok_def nth_append nth_list_update less_Suc_eq)
  ultimately show ?thesis using assms(1) p Some
    unfolding arena_ok_def by (auto simp: add_node_def ran_def Let_def less_Suc_eq simp del: mset_upt)
qed

lemma find_map_Some: "find_map f xs = Some y \<Longrightarrow> \<exists>x \<in> set xs. f x = Some y"
  by (induction xs) (auto split: option.splits)

lemma outline_parent_range: "outline_parent U node_of raw = Some p \<Longrightarrow> p \<in> ran node_of"
  by (auto simp: outline_parent_def ran_def bind_eq_Some_conv dest!: find_map_Some split: option.splits)

lemma outline_sink_ok:
  assumes "arena_ok ou" and "outline_sink U rd rec ou = (Ok ou' :: (outline, 'e) outcome)"
  shows "arena_ok ou'"
proof (cases "ou' = ou")
  case False
  with assms(2) obtain raw d entry where "outline_entry rd rec d = (Ok entry :: (_, 'e) outcome)"
    and add: "add_node raw entry (outline_parent U (ou_node_of ou) raw) ou = (Ok ou' :: (_, 'e) outcome)"
    by (auto simp: outline_sink_def and_then_eq_Ok Let_def case_prod_unfold split: if_splits option.splits)
  then have "de_children entry = []" by (auto simp: outline_entry_def and_then_eq_Ok)
  moreover have "\<And>p. outline_parent U (ou_node_of ou) raw = Some p \<Longrightarrow> p < length (ou_nodes ou)"
    using assms(1) outline_parent_range by (auto simp: arena_ok_def)
  ultimately obtain ou2 where "add_node raw entry (outline_parent U (ou_node_of ou) raw) ou = (Ok ou2 :: (_, 'e) outcome)" "arena_ok ou2"
    using add_node_ok[OF assms(1)] by metis
  with add show ?thesis by simp
qed (use assms in simp)

subsection \<open>Moving the entries\<close>

lemma arena_ok_children:
  assumes "arena_ok ou" and "i < length (ou_nodes ou)" and "c \<in> set (on_children (ou_nodes ou ! i))"
  shows "i < c \<and> c < length (ou_nodes ou)"
proof
  show "i < c" using assms by (auto simp: arena_ok_def list_all_iff)
  have "c \<in> set (ou_roots ou @ concat (map on_children (ou_nodes ou)))" using assms(2,3) by (force simp: in_set_conv_nth)
  then have "c \<in> set [0..<length (ou_nodes ou)]" using assms(1) unfolding arena_ok_def by (metis set_mset_mset)
  then show "c < length (ou_nodes ou)" by simp
qed

lemma outline_tree_unfold:
  assumes "arena_ok ou" and "i < length (ou_nodes ou)"
  shows "outline_tree (ou_nodes ou) i =
     DocSymbolEntry (de_name (on_entry (ou_nodes ou ! i))) (de_kind (on_entry (ou_nodes ou ! i)))
       (de_span (on_entry (ou_nodes ou ! i))) (map (outline_tree (ou_nodes ou)) (on_children (ou_nodes ou ! i)))"
proof -
  have "filter (\<lambda>c. i < c \<and> c < length (ou_nodes ou)) (on_children (ou_nodes ou ! i)) = on_children (ou_nodes ou ! i)"
    using arena_ok_children[OF assms] by (simp add: filter_id_conv)
  then show ?thesis by (simp add: outline_tree.simps[of _ i])
qed

lemma arena_ok_distinct:
  assumes "arena_ok ou"
  shows "distinct (ou_roots ou @ concat (map on_children (ou_nodes ou)))"
proof -
  have "distinct [0..<length (ou_nodes ou)]" by simp
  then show ?thesis using assms unfolding arena_ok_def by (metis mset_eq_imp_distinct_iff)
qed

text \<open>A loop of \<open>adopt\<close> moves the entries of the children below the entry of the parent.\<close>
lemma push_children: "fold (\<lambda>c e. push_child e c) cs (DocSymbolEntry n k s xs) = DocSymbolEntry n k s (xs @ cs)"
  by (induction cs arbitrary: xs) auto

definition moved :: "nat \<Rightarrow> nat list \<Rightarrow> outline_node list \<Rightarrow> outline_node list" where
  "moved i cs ns = map (\<lambda>j.
     if j = i then (ns ! i)\<lparr>on_entry := fold (\<lambda>c e. push_child e (on_entry (ns ! c))) cs (on_entry (ns ! i))\<rparr>
     else if j \<in> set cs then (ns ! j)\<lparr>on_entry := placeholder\<rparr> else ns ! j) [0..<length ns]"

lemma adopt_all:
  assumes "distinct cs" and "i < length ns" and "\<And>c. c \<in> set cs \<Longrightarrow> c < length ns \<and> c \<noteq> i"
  shows "fold_o (adopt i) cs ns = (Ok (moved i cs ns) :: (_, 'e) outcome)"
  using assms
proof (induction cs arbitrary: ns)
  case Nil
  then show ?case by (auto simp: moved_def intro: nth_equalityI)
next
  case (Cons c cs)
  let ?ns = "(ns[c := (ns ! c)\<lparr>on_entry := placeholder\<rparr>])[i := (ns ! i)\<lparr>on_entry := push_child (on_entry (ns ! i)) (on_entry (ns ! c))\<rparr>]"
  have c: "c < length ns" "c \<noteq> i" using Cons.prems(3) by auto
  then have "adopt i c ns = (Ok ?ns :: (_, 'e) outcome)" using Cons.prems(2) by (simp add: adopt_def take_entry_def)
  moreover have "fold_o (adopt i) cs ?ns = (Ok (moved i cs ?ns) :: (_, 'e) outcome)" using Cons.prems by (intro Cons.IH) auto
  moreover have "moved i cs ?ns = moved i (c # cs) ns"
  proof -
    have "fold (\<lambda>c e. push_child e (on_entry (?ns ! c))) cs x = fold (\<lambda>c e. push_child e (on_entry (ns ! c))) cs x" for x
      using Cons.prems by (intro fold_cong) (auto simp: nth_list_update)
    then show ?thesis using c Cons.prems(1,2) by (auto simp: moved_def nth_list_update intro!: nth_equalityI)
  qed
  ultimately show ?case by simp
qed

text \<open>The arena after the nodes from \<open>k\<close> on are complete.\<close>
definition completed :: "outline_node list \<Rightarrow> nat \<Rightarrow> outline_node list" where
  "completed ns k = map (\<lambda>j.
     if j < k then ns ! j
     else \<lparr>on_entry = (if \<exists>p. k \<le> p \<and> p < length ns \<and> j \<in> set (on_children (ns ! p)) then placeholder else outline_tree ns j),
           on_children = []\<rparr>) [0..<length ns]"

lemma children_disjoint:
  assumes "arena_ok ou" and "p < length (ou_nodes ou)" and "q < length (ou_nodes ou)" and "p \<noteq> q"
  shows "set (on_children (ou_nodes ou ! p)) \<inter> set (on_children (ou_nodes ou ! q)) = {}"
proof -
  have *: "distinct (concat (map f xs)) \<Longrightarrow> i < j \<Longrightarrow> j < length xs \<Longrightarrow> set (f (xs ! i)) \<inter> set (f (xs ! j)) = {}"
    for f :: "outline_node \<Rightarrow> nat list" and xs i j
  proof (induction xs arbitrary: i j)
    case (Cons x xs)
    then show ?case by (cases i; cases j) (fastforce simp: in_set_conv_nth)+
  qed simp
  have "distinct (concat (map on_children (ou_nodes ou)))" using arena_ok_distinct[OF assms(1)] by simp
  from *[OF this, of p q] *[OF this, of q p] assms(2-4) show ?thesis by (cases "p < q") auto
qed

lemma complete_node_step:
  assumes "arena_ok ou" and "k < length (ou_nodes ou)"
  shows "complete_node k (completed (ou_nodes ou) (Suc k)) = (Ok (completed (ou_nodes ou) k) :: (_, 'e) outcome)"
proof -
  let ?ns = "ou_nodes ou"
  let ?cs = "on_children (?ns ! k)" and ?st = "(completed ?ns (Suc k))[k := (?ns ! k)\<lparr>on_children := []\<rparr>]"
  have cs: "k < c \<and> c < length ?ns" if "c \<in> set ?cs" for c using arena_ok_children[OF assms that] .
  have dist: "distinct ?cs"
    using arena_ok_distinct[OF assms(1)] assms(2) by (auto simp: distinct_concat_iff)
  have once: "\<not> (Suc k \<le> p \<and> p < length ?ns \<and> c \<in> set (on_children (?ns ! p)))" if "c \<in> set ?cs" for c p
    using children_disjoint[OF assms, of p] that by auto
  have free: "on_entry (?st ! c) = outline_tree ?ns c" if c: "c \<in> set ?cs" for c
    using cs[OF c] once[OF c] by (auto simp: completed_def nth_list_update)
  have tree: "fold (\<lambda>c e. push_child e (on_entry (?st ! c))) ?cs (on_entry (?st ! k)) = outline_tree ?ns k"
  proof -
    have "fold (\<lambda>c e. push_child e (on_entry (?st ! c))) ?cs x = fold (\<lambda>c e. push_child e c) (map (outline_tree ?ns) ?cs) x" for x
      using free by (simp add: fold_map o_def cong: fold_cong)
    moreover have "on_entry (?st ! k) = DocSymbolEntry (de_name (on_entry (?ns ! k))) (de_kind (on_entry (?ns ! k))) (de_span (on_entry (?ns ! k))) []"
      using assms by (cases "on_entry (?ns ! k)") (auto simp: completed_def arena_ok_def)
    ultimately show ?thesis by (simp add: push_children outline_tree_unfold[OF assms])
  qed
  have "fold_o (adopt k) ?cs ?st = (Ok (moved k ?cs ?st) :: (_, 'e) outcome)"
    using dist cs assms(2) by (intro adopt_all) (auto simp: completed_def)
  moreover have "moved k ?cs ?st = completed ?ns k"
  proof (rule nth_equalityI)
    fix j assume "j < length (moved k ?cs ?st)"
    then have j: "j < length ?ns" by (simp add: moved_def completed_def)
    have here: "\<not> (\<exists>p \<ge> k. p < length ?ns \<and> k \<in> set (on_children (?ns ! p)))"
      using arena_ok_children[OF assms(1), of _ k] by (meson leD)
    consider "j = k" | "j \<in> set ?cs" "j \<noteq> k" | "j \<notin> set ?cs" "j \<noteq> k" by blast
    then show "moved k ?cs ?st ! j = completed ?ns k ! j"
    proof cases
      case 1
      have "(?ns ! k)\<lparr>on_children := [], on_entry := x\<rparr> = \<lparr>on_entry = x, on_children = []\<rparr>" for x by simp
      then show ?thesis using j here tree 1 by (auto simp: moved_def completed_def)
    next
      case 2
      then show ?thesis using j cs[of j] assms(2) by (auto simp: moved_def completed_def)
    next
      case 3
      have "(\<exists>p. k \<le> p \<and> p < length ?ns \<and> j \<in> set (on_children (?ns ! p))) =
         (\<exists>p. Suc k \<le> p \<and> p < length ?ns \<and> j \<in> set (on_children (?ns ! p)))"
        using 3 by (metis Suc_leD Suc_leI le_neq_implies_less)
      then show ?thesis using j 3 by (auto simp: moved_def completed_def)
    qed
  qed (simp add: moved_def completed_def)
  ultimately show ?thesis using assms(2) by (simp add: complete_node_def index_o_def completed_def)
qed

lemma complete_all:
  assumes "arena_ok ou"
  shows "fold_o complete_node (rev [0..<length (ou_nodes ou)]) (ou_nodes ou) = (Ok (completed (ou_nodes ou) 0) :: (_, 'e) outcome)"
proof -
  have "k \<le> length (ou_nodes ou) \<Longrightarrow>
     fold_o complete_node (rev [0..<k]) (completed (ou_nodes ou) k) = (Ok (completed (ou_nodes ou) 0) :: (_, 'e) outcome)" for k
    by (induction k) (simp_all add: complete_node_step[OF assms])
  moreover have "completed (ou_nodes ou) (length (ou_nodes ou)) = ou_nodes ou"
    by (auto simp: completed_def intro!: nth_equalityI)
  ultimately show ?thesis by (metis order_refl)
qed

lemma take_roots:
  assumes "distinct rs" and "\<And>r. r \<in> set rs \<Longrightarrow> r < length ns"
  shows "\<exists>ns'. fold_o take_root rs (out, ns) = (Ok (out @ map (\<lambda>r. on_entry (ns ! r)) rs, ns') :: (_, 'e) outcome)"
  using assms
proof (induction rs arbitrary: out ns)
  case (Cons r rs)
  let ?ns = "ns[r := (ns ! r)\<lparr>on_entry := placeholder\<rparr>]"
  have "take_root r (out, ns) = (Ok (out @ [on_entry (ns ! r)], ?ns) :: (_, 'e) outcome)"
    using Cons.prems(2) by (simp add: take_root_def take_entry_def)
  moreover have "map (\<lambda>q. on_entry (?ns ! q)) rs = map (\<lambda>q. on_entry (ns ! q)) rs"
    using Cons.prems(1) by (intro map_cong refl) (metis distinct.simps(2) nth_list_update_neq)
  ultimately show ?case using Cons.IH[of ?ns "out @ [on_entry (ns ! r)]"] Cons.prems by auto
qed simp

lemma materialize_ok:
  assumes "arena_ok ou"
  shows "materialize_outline ou = (Ok (outline_forest ou) :: (_, 'e) outcome)"
proof -
  let ?ns = "ou_nodes ou"
  have dist: "distinct (ou_roots ou)" and apart: "\<And>r p. r \<in> set (ou_roots ou) \<Longrightarrow> p < length ?ns \<Longrightarrow> r \<notin> set (on_children (?ns ! p))"
    using arena_ok_distinct[OF assms] by (auto dest: nth_mem)
  have "set (ou_roots ou @ concat (map on_children ?ns)) = set [0..<length ?ns]"
    using assms unfolding arena_ok_def by (metis set_mset_mset)
  then have roots: "\<And>r. r \<in> set (ou_roots ou) \<Longrightarrow> r < length ?ns" by auto
  have "map (\<lambda>r. on_entry (completed ?ns 0 ! r)) (ou_roots ou) = outline_forest ou"
    using roots apart by (auto simp: completed_def outline_forest_def)
  moreover obtain ns' where "fold_o take_root (ou_roots ou) ([], completed ?ns 0) =
      (Ok ([] @ map (\<lambda>r. on_entry (completed ?ns 0 ! r)) (ou_roots ou), ns') :: (_, 'e) outcome)"
    using take_roots[OF dist, of "completed ?ns 0" "[]"] roots by (auto simp: completed_def)
  ultimately show ?thesis by (simp add: materialize_outline_def complete_all[OF assms])
qed

subsection \<open>Every node is shown once\<close>

lemma outline_shows_all:
  assumes "arena_ok ou"
  shows "mset (concat (map entry_labels (outline_forest ou))) = mset (map (entry_label \<circ> on_entry) (ou_nodes ou))"
proof -
  let ?ns = "ou_nodes ou"
  define L where "L i = mset (entry_labels (outline_tree ?ns i))" for i
  have step: "L i = {#entry_label (on_entry (?ns ! i))#} + sum_list (map L (on_children (?ns ! i)))" if "i < length ?ns" for i
    using outline_tree_unfold[OF assms that] by (simp add: L_def[abs_def] entry_label_def mset_concat o_def)
  have flat: "sum_list (map L (concat xss)) = (\<Sum>xs \<leftarrow> xss. sum_list (map L xs))" for xss by (induction xss) auto
  have "sum_list (map L (ou_roots ou)) + sum_list (map L (concat (map on_children ?ns))) = sum_list (map L [0..<length ?ns])"
    using assms unfolding arena_ok_def
    by (metis map_append mset_map sum_list_append sum_mset_sum_list)
  also have "\<dots> = (\<Sum>i \<leftarrow> [0..<length ?ns]. {#entry_label (on_entry (?ns ! i))#} + sum_list (map L (on_children (?ns ! i))))"
    by (intro arg_cong[where f = sum_list] map_cong) (auto simp: step)
  also have "\<dots> = (\<Sum>nd \<leftarrow> ?ns. {#entry_label (on_entry nd)#}) + (\<Sum>nd \<leftarrow> ?ns. sum_list (map L (on_children nd)))"
  proof -
    have "(\<Sum>i \<leftarrow> [0..<length ?ns]. f (?ns ! i)) = (\<Sum>nd \<leftarrow> ?ns. f nd)" for f :: "outline_node \<Rightarrow> (str \<times> sym_kind \<times> span) multiset"
      using arg_cong[OF map_nth[of ?ns], of "\<lambda>xs. sum_list (map f xs)"] by (simp add: o_def)
    from this[of "\<lambda>nd. {#entry_label (on_entry nd)#} + sum_list (map L (on_children nd))"] show ?thesis
      by (simp only: sum_list_addf)
  qed
  finally have "sum_list (map L (ou_roots ou)) = (\<Sum>nd \<leftarrow> ?ns. {#entry_label (on_entry nd)#})"
    by (simp add: flat o_def)
  moreover have "(\<Sum>nd \<leftarrow> xs. {#f nd#}) = mset (map f xs)" for f :: "outline_node \<Rightarrow> str \<times> sym_kind \<times> span" and xs
    by (induction xs) auto
  ultimately show ?thesis by (simp add: outline_forest_def mset_concat L_def[abs_def] o_def)
qed

text \<open>
  C39: the outline the arena passes build is the forest of the child lists: moving the entries last node first
  never fails, every entry ends up below its parent in the order it was found, and the forest shows every
  collected definition exactly once.
\<close>

theorem document_outline_exact:
  "and_then (fold_o (outline_sink U rd) recs outline_empty) materialize_outline =
     and_then (fold_o (outline_sink U rd) recs outline_empty) (\<lambda>ou. (Ok (outline_forest ou) :: (_, 'e) outcome)) \<and>
   (case fold_o (outline_sink U rd) recs outline_empty of
      Ok ou \<Rightarrow> mset (concat (map entry_labels (outline_forest ou))) = mset (map (entry_label \<circ> on_entry) (ou_nodes ou))
    | (_ :: (_, 'e) outcome) \<Rightarrow> True)"
proof (cases "fold_o (outline_sink U rd) recs outline_empty :: (outline, 'e) outcome")
  case (Ok ou)
  have "arena_ok ou" using Ok by (rule fold_o_inv[where P = arena_ok]) (auto intro: arena_ok_empty outline_sink_ok)
  with Ok show ?thesis by (simp add: materialize_ok outline_shows_all)
qed simp_all

end
