(* ===== verification/Engine_Calls.thy ===== *)
theory Engine_Calls
  imports Engine_Outline
begin

text \<open>
  The call hierarchy of \<open>crates/ls-engine/src/call_hierarchy.rs\<close>: usages grouped by the enclosing definition,
  which is synthesised from name positions and owner chains. The per-query caches of sources and entries are
  the functions they cache. Both walks up the owner chain are loops that could revisit an entry, so they are
  options; \<open>Engine_Walks\<close> proves that they end.
\<close>

record call_item =
  ci_name :: str
  ci_kind :: sym_kind
  ci_uri :: str
  ci_span :: span
  ci_symbol :: str

record call_edge =
  ce_item :: call_item
  ce_call_sites :: "span list"

record def_entry =
  dx_symbol :: str
  dx_ord :: nat
  dx_start :: u32
  dx_span :: span
  dx_owners :: "str list"

section \<open>Definition entries\<close>

definition is_callable :: "str \<Rightarrow> i32 \<Rightarrow> bool" where
  "is_callable raw meta_kind =
     (case descriptor_of raw of
        Some (DMethod name _) \<Rightarrow> name \<noteq> CONSTRUCTOR_NAME \<and> \<not> is_setter raw
      | Some (DTerm _) \<Rightarrow> from_code meta_kind = Method \<or> from_code meta_kind = Macro
      | _ \<Rightarrow> False)"

definition entry_sink :: "segment_reader \<Rightarrow> doc_rec \<Rightarrow> def_entry list \<Rightarrow> (def_entry list, 'e) outcome" where
  "entry_sink rd rec out =
     (if \<not> has (dc_flags rec) DEFINITION then Ok out
      else and_then (read_seg (semantic_symbol_of rd (unat (dc_symbol_ord rec)))) (\<lambda>encoded.
        let (raw, local_doc_id) = decode_symbol encoded
        in if local_doc_id \<noteq> None \<or> outline_descriptor raw = None \<or> raw \<in> dx_symbol ` set out then Ok out
           else Ok (out @ [\<lparr>dx_symbol = raw, dx_ord = unat (dc_symbol_ord rec), dx_start = dc_packed_start rec,
                  dx_span = unpack_span (dc_packed_start rec) (dc_packed_end rec), dx_owners = enclosing raw\<rparr>])))"

definition doc_def_entries :: "segment_reader \<Rightarrow> nat \<Rightarrow> (def_entry list, 'e) outcome" where
  "doc_def_entries rd doc_ord =
     and_then (read_seg (scan_doc rd doc_ord False)) (\<lambda>recs.
     and_then (fold_o (entry_sink rd) recs []) (\<lambda>out. Ok (sort_key dx_start out)))"

definition is_descendant :: "unicode \<Rightarrow> def_entry \<Rightarrow> str \<Rightarrow> bool" where
  "is_descendant U entry ancestor_symbol \<longleftrightarrow>
     ancestor_symbol \<in> set (dx_owners entry) \<or>
     (case companion U ancestor_symbol of Some c \<Rightarrow> c \<in> set (dx_owners entry) | None \<Rightarrow> False)"

definition successor_start :: "unicode \<Rightarrow> def_entry list \<Rightarrow> nat \<Rightarrow> u32 option" where
  "successor_start U entries idx =
     map_option dx_start (find (\<lambda>e. \<not> is_descendant U e (dx_symbol (entries ! idx))) (drop (idx + 1) entries))"

fun position :: "('a \<Rightarrow> bool) \<Rightarrow> 'a list \<Rightarrow> nat option" where
  "position p [] = None"
| "position p (x # xs) = (if p x then Some 0 else map_option Suc (position p xs))"

definition rposition :: "('a \<Rightarrow> bool) \<Rightarrow> 'a list \<Rightarrow> nat option" where
  "rposition p xs = find (\<lambda>i. p (xs ! i)) (rev [0..<length xs])"

definition owner_entry_index :: "unicode \<Rightarrow> def_entry list \<Rightarrow> def_entry \<Rightarrow> nat option" where
  "owner_entry_index U entries entry =
     find_map (\<lambda>ancestor. case position (\<lambda>e. dx_symbol e = ancestor) entries of
         Some i \<Rightarrow> Some i
       | None \<Rightarrow> (case companion U ancestor of None \<Rightarrow> None | Some c \<Rightarrow> position (\<lambda>e. dx_symbol e = c) entries))
       (rev (dx_owners entry))"

definition entry_contains :: "unicode \<Rightarrow> def_entry list \<Rightarrow> nat \<Rightarrow> u32 \<Rightarrow> bool" where
  "entry_contains U entries at packed =
     (case successor_start U entries at of None \<Rightarrow> True | Some nxt \<Rightarrow> unpack_line packed < unpack_line nxt)"

text \<open>The walk up from an entry: \<open>None\<close> is a walk that does not end, \<open>Some None\<close> an exhausted chain.\<close>
partial_function (option) walk_up :: "(nat \<Rightarrow> bool) \<Rightarrow> (nat \<Rightarrow> nat option) \<Rightarrow> nat option \<Rightarrow> nat option option" where
  "walk_up stop up at =
     (case at of
        None \<Rightarrow> Some None
      | Some i \<Rightarrow> if stop i then Some (Some i) else walk_up stop up (up i))"

definition enclosing_entry_index :: "unicode \<Rightarrow> def_entry list \<Rightarrow> u32 \<Rightarrow> (nat option, 'e) outcome" where
  "enclosing_entry_index U entries packed =
     unwrap (walk_up (\<lambda>i. entry_contains U entries i packed) (\<lambda>i. owner_entry_index U entries (entries ! i))
       (rposition (\<lambda>e. dx_start e \<le> packed) entries))"

section \<open>Items\<close>

definition item_name :: "str \<Rightarrow> str \<Rightarrow> str" where
  "item_name display raw =
     (if display \<noteq> [] then display else case descriptor_of raw of Some d \<Rightarrow> descriptor_name d | None \<Rightarrow> raw)"

definition entry_item :: "segment_reader \<Rightarrow> nat \<Rightarrow> def_entry \<Rightarrow> (call_item, 'e) outcome" where
  "entry_item rd doc_ord entry =
     and_then (read_seg (symbol_meta rd (dx_ord entry))) (\<lambda>m.
     and_then (read_seg (uri_of rd doc_ord)) (\<lambda>uri.
       Ok \<lparr>ci_name = item_name (sm_display m) (dx_symbol entry), ci_kind = from_code (sm_kind m), ci_uri = uri,
           ci_span = dx_span entry, ci_symbol = dx_symbol entry\<rparr>))"

definition definition_item :: "segment_reader \<Rightarrow> nat \<Rightarrow> (call_item option, 'e) outcome" where
  "definition_item rd sym_ord =
     and_then (read_seg (symbol_meta rd sym_ord)) (\<lambda>m.
     if sint (sm_def_doc_ord m) < 0 then Ok None
     else and_then (read_seg (semantic_symbol_of rd sym_ord)) (\<lambda>encoded.
       let (raw, local_doc_id) = decode_symbol encoded
       in if local_doc_id \<noteq> None then Ok None
          else and_then (read_seg (uri_of rd (unat (sm_def_doc_ord m)))) (\<lambda>uri.
            Ok (Some \<lparr>ci_name = item_name (sm_display m) raw, ci_kind = from_code (sm_kind m), ci_uri = uri,
              ci_span = unpack_span (sm_def_packed_start m) (sm_def_packed_end m), ci_symbol = raw\<rparr>))))"

definition synthetic_file_item :: "str \<Rightarrow> call_item" where
  "synthetic_file_item doc_uri =
     \<lparr>ci_name = last (split_on 47 doc_uri), ci_kind = UnknownKind, ci_uri = doc_uri, ci_span = new_span 0 0 0 0, ci_symbol = []\<rparr>"

definition sort_spans :: "span list \<Rightarrow> span list" where
  "sort_spans spans = remdups_adj (sort_key span_key spans)"

definition edge_key :: "call_edge \<Rightarrow> str \<times> u32 \<times> u32 \<times> str" where
  "edge_key e = (ci_uri (ce_item e), start_line (ci_span (ce_item e)), start_char (ci_span (ce_item e)), ci_name (ce_item e))"

section \<open>Import lines\<close>

text \<open>\<open>str::lines\<close>: the pieces between line feeds without a last empty one, each without its carriage return.\<close>
definition str_lines :: "str \<Rightarrow> str list" where
  "str_lines s =
     map (\<lambda>l. let l1 = (if suffix [10] l then butlast l else l) in if suffix [10] l \<and> suffix [13] l1 then butlast l1 else l1)
       (split_inclusive 10 s)"

definition trim_start :: "unicode \<Rightarrow> str \<Rightarrow> str" where
  "trim_start U s = concat (dropWhile (is_whitespace U) (chars s))"

definition line_is_import :: "unicode \<Rightarrow> str \<Rightarrow> bool" where
  "line_is_import U l =
     (case strip_prefix (lit ''import'') (trim_start U l) of
        None \<Rightarrow> False
      | Some rest \<Rightarrow> \<not> (rest \<noteq> [] \<and> (let c = hd (chars rest) in is_alphanumeric U c \<or> c = lit ''_'' \<or> c = lit ''$'')))"

definition read_doc_lines :: "file_system \<Rightarrow> segment_reader \<Rightarrow> nat \<Rightarrow> (str list option, 'e) outcome" where
  "read_doc_lines fs rd doc_ord =
     and_then (read_seg (target_ord_of_doc rd doc_ord)) (\<lambda>t.
     if sint t < 0 then Ok None
     else and_then (read_seg (target_meta rd (unat t))) (\<lambda>m.
          and_then (read_seg (uri_of rd doc_ord)) (\<lambda>uri.
            Ok (map_option str_lines (read_to_string fs (path_join (tm_sourceroot m) uri))))))"

definition is_import_line :: "query_env \<Rightarrow> segment_reader \<Rightarrow> nat \<Rightarrow> u32 \<Rightarrow> (bool, 'e) outcome" where
  "is_import_line W rd doc_ord ln =
     and_then (read_doc_lines (w_fs W) rd doc_ord) (\<lambda>found.
       Ok (case found of
             None \<Rightarrow> False
           | Some ls \<Rightarrow> unat ln < length ls \<and> line_is_import (w_unicode W) (ls ! unat ln)))"

section \<open>The three queries\<close>

text \<open>The first callable entry above, as \<open>prepare_call_hierarchy\<close> looks for it: the kind of an entry is read when the
  walk reaches it, and a read that fails ends the walk with its failure.\<close>
definition entry_callable :: "segment_reader \<Rightarrow> def_entry \<Rightarrow> (bool, 'e) outcome" where
  "entry_callable rd e = and_then (read_seg (symbol_meta rd (dx_ord e))) (\<lambda>m. Ok (is_callable (dx_symbol e) (sm_kind m)))"

definition enclosing_callable :: "unicode \<Rightarrow> segment_reader \<Rightarrow> nat \<Rightarrow> def_entry list \<Rightarrow> nat option \<Rightarrow> (call_item option, 'e) outcome" where
  "enclosing_callable U rd doc_ord entries at0 =
     and_then (unwrap (walk_up (\<lambda>i. case entry_callable rd (entries ! i) :: (bool, 'e) outcome of Ok False \<Rightarrow> False | _ \<Rightarrow> True)
         (\<lambda>i. owner_entry_index U entries (entries ! i)) at0)) (\<lambda>found.
       case found of
         None \<Rightarrow> Ok None
       | Some i \<Rightarrow> and_then (entry_callable rd (entries ! i)) (\<lambda>_.
           and_then (entry_item rd doc_ord (entries ! i)) (\<lambda>item. Ok (Some item))))"

definition prepare_call_hierarchy ::
  "query_env \<Rightarrow> str \<Rightarrow> u32 \<Rightarrow> u32 \<Rightarrow> query_orchestrator \<Rightarrow> query_orchestrator \<times> call_item option ls_result" where
  "prepare_call_hierarchy W uri ln cl orch0 =
     (case symbol_at_cursor W uri ln cl orch0 of
        (orch, found) \<Rightarrow>
          (orch, and_then found (\<lambda>cursor.
             if cs_pc_only cursor then Err PcOnlySymbol
             else case current_snapshot orch of
                 None \<Rightarrow> Err (NotIndexed uri)
               | Some snap \<Rightarrow>
                   let rd = sn_segment snap;
                       enclosing_item =
                         and_then (doc_ord_of rd uri) (\<lambda>doc.
                           case doc of
                             None \<Rightarrow> Ok None
                           | Some doc_ord \<Rightarrow>
                               and_then (doc_def_entries rd doc_ord) (\<lambda>entries.
                               and_then (enclosing_entry_index (w_unicode W) entries
                                   (pack (start_line (cs_span cursor)) (start_char (cs_span cursor)))) (\<lambda>at0.
                                 enclosing_callable (w_unicode W) rd doc_ord entries at0)))
                   in if cs_local_doc_id cursor \<noteq> None then enclosing_item
                      else and_then (read_seg (find_symbol_ord rd (encode_symbol (cs_semantic_symbol cursor) None))) (\<lambda>ordo.
                        case ordo of
                          None \<Rightarrow> Ok None
                        | Some ord \<Rightarrow>
                            and_then (read_seg (symbol_meta rd ord)) (\<lambda>m.
                              if is_callable (cs_semantic_symbol cursor) (sm_kind m) then definition_item rd ord else enclosing_item)))))"

text \<open>The group a reference belongs to: its document and the index of its enclosing entry, none sorting first.\<close>
definition incoming_key :: "query_env \<Rightarrow> segment_reader \<Rightarrow> nat \<times> span \<Rightarrow> ((nat \<times> int) option, 'e) outcome" where
  "incoming_key W rd = (\<lambda>(doc_ord, sp).
     and_then (is_import_line W rd doc_ord (start_line sp)) (\<lambda>imp.
     if imp then Ok None
     else and_then (doc_def_entries rd doc_ord) (\<lambda>entries.
          and_then (enclosing_entry_index (w_unicode W) entries (pack (start_line sp) (start_char sp))) (\<lambda>at.
            Ok (Some (doc_ord, case at of Some i \<Rightarrow> int i | None \<Rightarrow> - 1))))))"

definition incoming_edge :: "segment_reader \<Rightarrow> (nat \<times> int) \<times> span list \<Rightarrow> (call_edge, 'e) outcome" where
  "incoming_edge rd = (\<lambda>((doc_ord, key), spans).
     and_then (if 0 \<le> key
       then and_then (doc_def_entries rd doc_ord) (\<lambda>entries. and_then (index_o entries (nat key)) (entry_item rd doc_ord))
       else and_then (read_seg (uri_of rd doc_ord)) (\<lambda>uri. Ok (synthetic_file_item uri))) (\<lambda>item.
       Ok \<lparr>ce_item = item, ce_call_sites = sort_spans spans\<rparr>))"

text \<open>A \<open>BTreeMap\<close> from keys to vectors: the keys in order, the values in the order they were pushed.\<close>
definition group_sorted :: "('k::linorder \<times> 'v) list \<Rightarrow> ('k \<times> 'v list) list" where
  "group_sorted kvs = map (\<lambda>k. (k, map snd (filter (\<lambda>kv. fst kv = k) kvs))) (sort (remdups (map fst kvs)))"

definition incoming_calls :: "query_env \<Rightarrow> query_orchestrator \<Rightarrow> str \<Rightarrow> (call_edge list, 'e) outcome" where
  "incoming_calls W orch item_symbol =
     (if item_symbol = [] \<or> sym_is_local item_symbol then Ok []
      else case current_snapshot orch of
          None \<Rightarrow> Ok []
        | Some snap \<Rightarrow>
            let rd = sn_segment snap
            in and_then (read_seg (find_symbol_ord rd (encode_symbol item_symbol None))) (\<lambda>found.
               case found of
                 None \<Rightarrow> Ok []
               | Some ord \<Rightarrow>
                   and_then (read_seg (symbol_view_at rd ord)) (\<lambda>v.
                   if sint (sv_ref_group_ord v) < 0 then Ok []
                   else and_then (read_seg (scan_ref_group rd (unat (sv_ref_group_ord v)) None)) (\<lambda>recs.
                        let refs = map (\<lambda>rec. (unat (gr_doc_ord rec), unpack_span (gr_packed_start rec) (gr_packed_end rec))) recs
                        in and_then (map_o (incoming_key W rd) refs) (\<lambda>keys.
                           and_then (map_o (incoming_edge rd)
                               (group_sorted (List.map_filter (\<lambda>(k, r). map_option (\<lambda>k. (k, snd r)) k) (zip keys refs)))) (\<lambda>out.
                             Ok (sort_key edge_key out)))))))"

definition outgoing_sink ::
  "query_env \<Rightarrow> segment_reader \<Rightarrow> nat \<Rightarrow> u32 \<Rightarrow> u32 \<Rightarrow> doc_rec \<Rightarrow> (nat \<times> span) list \<Rightarrow> ((nat \<times> span) list, 'e) outcome" where
  "outgoing_sink W rd doc_ord extent_start extent_end rec out =
     (let sp = unpack_span (dc_packed_start rec) (dc_packed_end rec)
      in if has (dc_flags rec) DEFINITION \<or> dc_packed_start rec < extent_start \<or> extent_end \<le> dc_packed_start rec then Ok out
         else and_then (is_import_line W rd doc_ord (start_line sp)) (\<lambda>imp.
           if imp then Ok out
           else and_then (read_seg (semantic_symbol_of rd (unat (dc_symbol_ord rec)))) (\<lambda>encoded.
             let (raw, local_doc_id) = decode_symbol encoded
             in if local_doc_id \<noteq> None \<or> outline_descriptor raw = None then Ok out
                else Ok (out @ [(unat (dc_symbol_ord rec), sp)]))))"

definition outgoing_edge :: "segment_reader \<Rightarrow> nat \<times> span list \<Rightarrow> (call_edge option, 'e) outcome" where
  "outgoing_edge rd = (\<lambda>(target_ord, spans).
     and_then (definition_item rd target_ord) (\<lambda>item.
       Ok (map_option (\<lambda>it. \<lparr>ce_item = it, ce_call_sites = sort_spans spans\<rparr>) item)))"

definition outgoing_calls :: "query_env \<Rightarrow> query_orchestrator \<Rightarrow> str \<Rightarrow> (call_edge list, 'e) outcome" where
  "outgoing_calls W orch item_symbol =
     (if item_symbol = [] \<or> sym_is_local item_symbol then Ok []
      else case current_snapshot orch of
          None \<Rightarrow> Ok []
        | Some snap \<Rightarrow>
            let rd = sn_segment snap
            in and_then (read_seg (find_symbol_ord rd (encode_symbol item_symbol None))) (\<lambda>found.
               case found of
                 None \<Rightarrow> Ok []
               | Some ord \<Rightarrow>
                   and_then (read_seg (symbol_meta rd ord)) (\<lambda>m.
                   if sint (sm_def_doc_ord m) < 0 then Ok []
                   else let doc_ord = unat (sm_def_doc_ord m)
                        in and_then (doc_def_entries rd doc_ord) (\<lambda>entries.
                           case position (\<lambda>e. dx_symbol e = item_symbol) entries of
                             None \<Rightarrow> Ok []
                           | Some at \<Rightarrow>
                               let extent_start = dx_start (entries ! at);
                                   extent_end = (case successor_start (w_unicode W) entries at of Some e \<Rightarrow> e | None \<Rightarrow> - 1)
                               in and_then (read_seg (scan_doc rd doc_ord False)) (\<lambda>recs.
                                  and_then (fold_o (outgoing_sink W rd doc_ord extent_start extent_end) recs []) (\<lambda>pairs.
                                  and_then (map_o (outgoing_edge rd) (group_sorted pairs)) (\<lambda>out.
                                    Ok (sort_key edge_key (List.map_filter (\<lambda>e. e) out)))))))))"

end
