(* ===== verification/Engine_Walks.thy ===== *)
theory Engine_Walks
  imports Engine_Calls
begin

text \<open>
  The two walks up the owner chain of \<open>crates/ls-engine/src/call_hierarchy.rs\<close> end. A step goes to the entry of
  an enclosing symbol or of its companion, which need not be shorter; but what encloses that entry is always
  shorter than what encloses the entry before.
\<close>

section \<open>The length of the owner\<close>

definition owner_length :: "str \<Rightarrow> nat" where
  "owner_length s = (case split_last s of Some (own, _) \<Rightarrow> length own | None \<Rightarrow> 0)"

lemma owner_loop_acc: "owner_loop cur acc = acc @ owner_loop cur []"
proof (induction cur arbitrary: acc rule: length_induct)
  case (1 cur)
  show ?case
  proof (cases "cur = [] \<or> split_last cur = None")
    case True
    then show ?thesis by (auto simp: owner_loop.simps[of cur])
  next
    case False
    then obtain own d where own: "split_last cur = Some (own, d)" "cur \<noteq> []" by auto
    with 1 split_last_shorter[OF own(1)] have "owner_loop own a = a @ owner_loop own []" for a by blast
    from this[of "acc @ [cur]"] this[of "[cur]"] own show ?thesis by (simp add: owner_loop.simps[of cur])
  qed
qed

lemma owner_loop_unfold:
  "owner_loop cur [] = (if cur = [] then [] else cur # (case split_last cur of Some (own, _) \<Rightarrow> owner_loop own [] | None \<Rightarrow> []))"
  using owner_loop_acc[of _ "[cur]"] by (simp add: owner_loop.simps[of cur] split: option.split)

lemma split_last_valid:
  assumes "split_last s = Some (own, d)" and "utf8_valid s"
  shows "utf8_valid own"
proof -
  obtain k where "own = prefix_of (chars s) k" using split_last_prefix[OF assms(1)] by blast
  then show ?thesis
    using chars_ok[OF assms(2)] by (simp add: prefix_of_def concat_valid list_all_iff) (metis concat_valid in_set_takeD list_all_iff)
qed

lemma owner_loop_elements:
  "x \<in> set (owner_loop s []) \<Longrightarrow> x \<noteq> [] \<and> length x \<le> length s \<and> (utf8_valid s \<longrightarrow> utf8_valid x)"
proof (induction s rule: length_induct)
  case (1 s)
  show ?case
  proof (cases "x = s")
    case False
    with 1(2) obtain own d where own: "split_last s = Some (own, d)" "x \<in> set (owner_loop own [])"
      by (cases "split_last s") (auto simp: owner_loop_unfold[of s] split: if_splits)
    with 1(1) split_last_shorter[OF own(1)] split_last_valid[OF own(1)] show ?thesis by fastforce
  qed (use 1(2) in \<open>simp add: owner_loop_unfold[of s] split: if_splits\<close>)
qed

lemma enclosing_shorter:
  assumes "x \<in> set (enclosing s)"
  shows "x \<noteq> []" and "length x \<le> owner_length s" and "utf8_valid s \<Longrightarrow> utf8_valid x"
proof -
  have "s \<noteq> []" "\<not> sym_is_local s" using assms by (auto simp: enclosing_def owner_chain_def)
  then have "enclosing s = rev (tl (owner_loop s []))"
    by (cases "owner_loop s []") (simp_all add: enclosing_def owner_chain_def Let_def)
  with assms have "x \<in> set (tl (owner_loop s []))" by simp
  then obtain own d where own: "split_last s = Some (own, d)" "x \<in> set (owner_loop own [])"
    by (cases "split_last s") (auto simp: owner_loop_unfold[of s] split: if_splits)
  then show "x \<noteq> []" and "length x \<le> owner_length s" and "utf8_valid s \<Longrightarrow> utf8_valid x"
    using owner_loop_elements[OF own(2)] split_last_valid[OF own(1)] by (auto simp: owner_length_def)
qed

lemma owner_length_less: "s \<noteq> [] \<Longrightarrow> owner_length s < length s"
  using split_last_shorter[of s] by (auto simp: owner_length_def split: option.splits)

section \<open>The owner of a companion\<close>

lemma name_start_upper:
  assumes "k \<le> n" and "\<And>j. k \<le> j \<Longrightarrow> j < n \<Longrightarrow> \<not> is_name_boundary (cs ! j)"
  shows "name_start cs n \<le> k"
  using assms
proof (induction n)
  case (Suc n)
  show ?case
  proof (cases "k = Suc n")
    case True
    then show ?thesis using name_start_le by blast
  next
    case False
    then show ?thesis using Suc by simp
  qed
qed simp

lemma backtick_boundary: "is_name_boundary backtick"
  by (simp add: is_name_boundary_def ch_def backtick_def)

lemma read_name_ok:
  assumes "read_name_backwards cs n = Some (start, name)" and "n \<le> length cs" and "list_all rchar_ok cs"
  shows "name_ok name"
proof -
  obtain e where n: "n = Suc e" using assms(1) by (cases n) auto
  have *: "name_ok (between cs i j)" if "j \<le> length cs" "\<And>k. i \<le> k \<Longrightarrow> k < j \<Longrightarrow> cs ! k \<noteq> backtick" for i j
  proof -
    let ?xs = "take (j - i) (drop i cs)"
    have "list_all rchar_ok ?xs" using assms(3) by (auto simp: list_all_iff dest!: in_set_takeD in_set_dropD)
    moreover have "backtick \<notin> set ?xs" using that by (auto simp: in_set_conv_nth)
    ultimately show ?thesis by (simp add: name_ok_def between_def concat_valid chars_concat)
  qed
  show ?thesis
  proof (cases "cs ! e = backtick")
    case True
    then have idx: "last_index_of cs backtick e = Some start" and nm: "name = between cs (start + 1) e" using assms(1) n by auto
    have "\<And>k. start + 1 \<le> k \<Longrightarrow> k < e \<Longrightarrow> cs ! k \<noteq> backtick" using last_index_of_Some[OF idx] by simp
    then show ?thesis unfolding nm using assms(2) n by (intro *) auto
  next
    case False
    then have s: "start = name_start cs n" "name = between cs start n" using assms(1) n by (auto simp: Let_def simp del: name_start.simps split: if_splits)
    have "\<And>k. start \<le> k \<Longrightarrow> k < n \<Longrightarrow> cs ! k \<noteq> backtick" using name_start_run[of cs n] backtick_boundary s(1) by metis
    then show ?thesis unfolding s(2) using assms(2) by (intro *) auto
  qed
qed

text \<open>Reading an encoded name backwards starts where the owner ends, or before when the name is bare.\<close>
lemma read_encoded:
  assumes "name_ok n"
  shows "\<exists>start name. read_name_backwards (os @ chars (encode_name U n) @ rest) (length os + length (chars (encode_name U n))) =
     Some (start, name) \<and> start \<le> length os"
  using assms
proof (cases rule: encode_name_cases[where U = U])
  case 1
  then obtain k where len: "length (chars n) = Suc k" by (cases "chars n") auto
  let ?cs = "os @ chars n @ rest" and ?n = "length os + length (chars n)"
  have run: "\<not> is_name_boundary (?cs ! j)" if "length os \<le> j" "j < ?n" for j
    using 1(3) that by (auto simp: nth_append list_all_length)
  have "?cs ! (length os + k) \<noteq> backtick" using run[of "length os + k"] backtick_boundary len by auto
  moreover have "name_start ?cs ?n \<le> length os" using run by (intro name_start_upper) auto
  moreover have "name_start ?cs ?n \<noteq> ?n" using \<open>name_start ?cs ?n \<le> length os\<close> len by simp
  ultimately show ?thesis using len 1(1) by (simp del: name_start.simps add: Let_def)
next
  case 2
  have e: "chars (encode_name U n) = backtick # chars n @ [backtick]"
    using assms by (simp add: 2 chars_backtick chars_append backtick_valid name_ok_def)
  let ?cs = "os @ (backtick # chars n @ [backtick]) @ rest"
  have "?cs ! (length os + Suc (length (chars n))) = backtick" by (simp add: nth_append)
  moreover have "?cs ! j \<noteq> backtick" if "length os < j" "j < length os + Suc (length (chars n))" for j
  proof -
    obtain k where j: "j = Suc (length os + k)" using \<open>length os < j\<close> less_iff_Suc_add by auto
    then have "?cs ! j = chars n ! k" "k < length (chars n)" using that by (simp_all add: nth_append)
    then show ?thesis using assms by (metis name_ok_def nth_mem)
  qed
  then have "last_index_of ?cs backtick (length os + Suc (length (chars n))) = Some (length os)"
    by (intro last_index_of_at) auto
  ultimately show ?thesis using e by simp
qed

lemma split_last_name:
  assumes "split_last a = Some (own, d)" and "d = DType n \<or> d = DTerm n"
  shows "\<exists>start. read_name_backwards (chars a) (length (chars a) - 1) = Some (start, n) \<and> own = prefix_of (chars a) start"
  using assms by (auto simp: split_last_def Let_def split: if_splits option.splits)

lemma owner_of_encoded:
  assumes "utf8_valid own" and "name_ok n"
  shows "owner_length (own @ encode_name U n @ lit ''.'') \<le> length own"
    and "owner_length (own @ encode_name U n @ lit ''#'') \<le> length own"
proof -
  let ?xs = "chars own @ chars (encode_name U n)"
  have cs: "chars (own @ encode_name U n @ lit ''#'') = ?xs @ [ch CHR ''#'']"
    "chars (own @ encode_name U n @ lit ''.'') = ?xs @ [ch CHR ''.'']"
    using assms encode_name_valid[OF assms(2)] by (simp_all add: chars_append chars_lit1)
  have last: "last ?xs \<noteq> ch CHR '')''" using encode_name_last[OF assms(2), of U] by simp
  have read: "\<exists>start name. read_name_backwards (?xs @ rest) (length ?xs) = Some (start, name) \<and> start \<le> length (chars own)" for rest
    using read_encoded[OF assms(2), of "chars own" U rest] by simp
  have own: "length (prefix_of (?xs @ rest) start) \<le> length own" if "start \<le> length (chars own)" for start rest
  proof -
    have "own = concat (take start (chars own)) @ concat (drop start (chars own))"
      by (metis append_take_drop_id concat_append concat_chars)
    then have "length (concat (take start (chars own))) \<le> length own" by (metis length_append le_add1)
    then show ?thesis using that by (simp add: prefix_of_def)
  qed
  show "owner_length (own @ encode_name U n @ lit ''.'') \<le> length own"
    using read[of "[ch CHR ''.'']"] own last
    by (auto simp: owner_length_def split_last_at[OF cs(2) boundary_ch(2)] Let_def ch_distinct)
  show "owner_length (own @ encode_name U n @ lit ''#'') \<le> length own"
    using read[of "[ch CHR ''#'']"] own
    by (auto simp: owner_length_def split_last_at[OF cs(1) boundary_ch(3)] Let_def ch_distinct)
qed

lemma companion_owner:
  assumes "companion U a = Some c" and "utf8_valid a"
  shows "owner_length c \<le> owner_length a"
proof -
  from assms(1) obtain own d n where d: "split_last a = Some (own, d)" "d = DType n \<or> d = DTerm n"
    and c: "c = own @ encode_name U n @ lit ''.'' \<or> c = own @ encode_name U n @ lit ''#''"
    by (auto simp: companion_def split: option.splits descriptor.splits)
  have "utf8_valid own" by (rule split_last_valid[OF d(1) assms(2)])
  obtain start where start: "read_name_backwards (chars a) (length (chars a) - 1) = Some (start, n)" "own = prefix_of (chars a) start"
    using split_last_name[OF d] by blast
  have ok: "list_all rchar_ok (chars a)" using chars_ok[OF assms(2)] .
  have "name_ok n" using read_name_ok[OF start(1) _ ok] by simp
  with \<open>utf8_valid own\<close> show ?thesis using c owner_of_encoded d(1) by (auto simp: owner_length_def)
qed

section \<open>The walks\<close>

text \<open>What the entries of a document are: their owners are the enclosing symbols, and the symbols are strings.\<close>
definition entries_ok :: "def_entry list \<Rightarrow> bool" where
  "entries_ok entries \<longleftrightarrow> list_all (\<lambda>e. dx_owners e = enclosing (dx_symbol e) \<and> utf8_valid (dx_symbol e)) entries"

lemma position_less: "position p xs = Some i \<Longrightarrow> i < length xs \<and> p (xs ! i)"
  by (induction xs arbitrary: i) (auto split: if_splits)

lemma owner_step:
  assumes ok: "entries_ok entries" and i: "i < length entries" and up: "owner_entry_index U entries (entries ! i) = Some j"
  shows "j < length entries \<and> owner_length (dx_symbol (entries ! j)) < owner_length (dx_symbol (entries ! i))"
proof -
  let ?s = "dx_symbol (entries ! i)"
  have e: "dx_owners (entries ! i) = enclosing ?s" "utf8_valid ?s" using ok i by (auto simp: entries_ok_def list_all_length)
  from up obtain a where a: "a \<in> set (enclosing ?s)" and
    pos: "position (\<lambda>x. dx_symbol x = a) entries = Some j \<or>
      (\<exists>c. companion U a = Some c \<and> position (\<lambda>x. dx_symbol x = c) entries = Some j)"
    by (auto simp: owner_entry_index_def e(1) dest!: find_map_Some split: option.splits)
  note shorter = enclosing_shorter[OF a]
  have "owner_length (dx_symbol (entries ! j)) \<le> owner_length a"
    using pos companion_owner[OF _ shorter(3)[OF e(2)]] by (auto dest!: position_less)
  then show ?thesis using owner_length_less[OF shorter(1)] shorter(2) pos by (auto dest: position_less)
qed

lemma walk_up_ends:
  assumes ok: "entries_ok entries" and "\<And>i. at = Some i \<Longrightarrow> i < length entries"
  shows "\<exists>r. walk_up stop (\<lambda>i. owner_entry_index U entries (entries ! i)) at = Some r \<and>
     (case r of Some i \<Rightarrow> i < length entries \<and> stop i | None \<Rightarrow> True)"
  using assms(2)
proof (induction "case at of None \<Rightarrow> 0 | Some i \<Rightarrow> Suc (owner_length (dx_symbol (entries ! i)))" arbitrary: at rule: less_induct)
  case less
  show ?case
  proof (cases at)
    case None
    then show ?thesis by (subst walk_up.simps) simp
  next
    case (Some i)
    let ?up = "owner_entry_index U entries (entries ! i)"
    have i: "i < length entries" using less.prems Some by simp
    show ?thesis
    proof (cases "stop i")
      case True
      then show ?thesis using Some i by (subst walk_up.simps) simp
    next
      case False
      have "(case ?up of None \<Rightarrow> 0 | Some j \<Rightarrow> Suc (owner_length (dx_symbol (entries ! j)))) < Suc (owner_length (dx_symbol (entries ! i)))"
        using owner_step[OF ok i] by (auto split: option.split)
      with less.hyps[of ?up] owner_step[OF ok i] Some False show ?thesis by (subst walk_up.simps) simp
    qed
  qed
qed

lemma rposition_less: "rposition p xs = Some i \<Longrightarrow> i < length xs \<and> p (xs ! i)"
  by (auto simp: rposition_def find_Some_iff rev_nth)

lemma semantic_symbol_valid: "semantic_symbol_of rd i = Ok s \<Longrightarrow> utf8_valid s"
  by (auto simp: semantic_symbol_of_def and_then_eq_Ok from_utf8_def split: if_splits option.splits)

lemma decode_global: "snd (decode_symbol s) = None \<Longrightarrow> fst (decode_symbol s) = s"
  by (auto simp: decode_symbol_def split: if_splits option.splits)

lemma entry_sink_ok: "entries_ok out \<Longrightarrow> entry_sink rd rec out = Ok out' \<Longrightarrow> entries_ok out'"
proof -
  assume "entries_ok out" and "entry_sink rd rec out = Ok out'"
  moreover have "utf8_valid s" if "read_seg (semantic_symbol_of rd i) = Ok s" for s i
    using that semantic_symbol_valid by (cases "semantic_symbol_of rd i") auto
  ultimately show "entries_ok out'"
    using decode_global by (auto simp: entry_sink_def and_then_eq_Ok Let_def case_prod_unfold entries_ok_def split: if_splits)
qed

lemma doc_def_entries_ok:
  assumes "doc_def_entries rd d = (Ok entries :: (_, 'e) outcome)"
  shows "entries_ok entries"
proof -
  from assms obtain recs out where "fold_o (entry_sink rd) recs [] = (Ok out :: (_, 'e) outcome)" and entries: "entries = sort_key dx_start out"
    by (auto simp: doc_def_entries_def and_then_eq_Ok)
  then have "entries_ok out"
    by (rule_tac fold_o_inv[where P = entries_ok and s = "[]"]) (auto simp: entries_ok_def[of "[]"] intro: entry_sink_ok)
  then show ?thesis by (simp add: entries entries_ok_def list_all_iff)
qed

text \<open>
  C40: the search for the enclosing definition ends. For the definition entries of any document and any
  position, the walk from the last entry at or before the position up the owner chain, companions included,
  stops; it stops at an entry whose extent contains the position or with none, and the walk to the nearest
  callable entry stops as well. The index it returns is in range, so the indexing that follows it cannot panic.
\<close>

theorem call_hierarchy_walks_end:
  "case doc_def_entries rd d :: (_, 'e) outcome of
     Ok entries \<Rightarrow>
       (\<exists>r. enclosing_entry_index U entries packed = (Ok r :: (_, 'e) outcome) \<and>
         (case r of Some i \<Rightarrow> i < length entries \<and> entry_contains U entries i packed \<and>
            (\<exists>q. walk_up stop (\<lambda>k. owner_entry_index U entries (entries ! k)) r = Some q \<and>
              (case q of Some j \<Rightarrow> j < length entries \<and> stop j | None \<Rightarrow> True))
          | None \<Rightarrow> True))
   | _ \<Rightarrow> True"
proof (cases "doc_def_entries rd d :: (_, 'e) outcome")
  case (Ok entries)
  note ok = doc_def_entries_ok[OF Ok]
  have start: "\<And>i. rposition (\<lambda>e. dx_start e \<le> packed) entries = Some i \<Longrightarrow> i < length entries" using rposition_less by blast
  have "\<exists>r. walk_up (\<lambda>i. entry_contains U entries i packed) (\<lambda>i. owner_entry_index U entries (entries ! i))
      (rposition (\<lambda>e. dx_start e \<le> packed) entries) = Some r \<and>
      (case r of Some i \<Rightarrow> i < length entries \<and> entry_contains U entries i packed | None \<Rightarrow> True)"
    by (rule walk_up_ends[OF ok start])
  then obtain r where
    r: "enclosing_entry_index U entries packed = (Ok r :: (_, 'e) outcome)"
      "case r of Some i \<Rightarrow> i < length entries \<and> entry_contains U entries i packed | None \<Rightarrow> True"
    by (auto simp: enclosing_entry_index_def)
  then show ?thesis using Ok walk_up_ends[OF ok, of r stop U] by (cases r) auto
qed simp_all

end
