(* ===== verification/Spec2Isabelle.thy ===== *)
theory Spec2Isabelle
  imports Sample_Store Segment_Lookup Uri Sdb_Parser Sdb_Profile Search Pc_Queries Build_Scheduler Pc_Supervisor Ingest_Writable Engine_Guarantees Engine_Walks
begin

text \<open>
  A verification of the Scala 3 language server in \<open>crates/\<close>: a Rust server that keeps an exact,
  memory-mapped index of a workspace's SemanticDB facts and answers references, rename, symbol and
  navigation requests from it, next to a presentation compiler in an embedded JVM.

  \<^bold>\<open>How the program is put together.\<close> A build writes SemanticDB files. \<open>ls-semanticdb\<close> decodes and
  normalises them and unions symbols into alias groups with rename profiles. \<open>ls-engine\<close> turns a batch
  into segment data, \<open>ls-store\<close> writes it as a new generation of immutable files, commits it through a
  manifest and serves it through validated readers. Queries go from the server through the engine to a
  snapshot of the store. Dirty buffers are answered by the presentation compiler, reached over the flat
  byte protocol of \<open>ls-pc-abi\<close> and supervised by \<open>ls-jvm\<close>. \<open>ls-index-model\<close> holds the value types that
  all of them share.

  \<^bold>\<open>Conventions.\<close> A Rust integer is a word of the same width, \<open>usize\<close> is \<open>nat\<close> (lengths and indices of
  buffers in memory on a 64-bit target), a \<open>String\<close> is its UTF-8 bytes. Fallible code returns
  \<open>outcome\<close>: \<open>Ok\<close>, \<open>Err\<close> with a typed error, or \<open>Panic\<close> for a failed \<open>unwrap\<close>, \<open>assert!\<close>, slice or index,
  so that the absence of panics is a theorem and not an assumption. Loops over collections are folds
  (\<open>fold_o\<close>, \<open>for_each\<close>, \<open>fold_break\<close>); loops that are not structural are functions with a termination
  proof, or \<open>while_option\<close>, whose \<open>None\<close> means that the loop does not end and is excluded by a theorem.
  A hash table that the program only looks up is a map or a set; one that it iterates is a list in
  insertion order, which is one of the orders the program may see, and in the search the ranking is
  shown to be a function of the set of candidates alone. Log lines are left out.

  \<^bold>\<open>Parameters.\<close> Code outside the repository is an argument of the definitions that use it: the CRC32C
  function \<open>crc32c\<close> (any function), the JSON printer and parser of the manifest (a round trip is the
  only law used, in the locale of the store), and the Unicode classification of characters, of which
  only the ASCII part is fixed. \<open>Sample_Segment\<close>,
  \<open>Sample_Rename\<close> and \<open>Sample_Store\<close> instantiate them concretely.

  \<^bold>\<open>Shared theories.\<close>
  \<^item> \<open>Prelude\<close>: machine integers, \<open>outcome\<close>, loops, byte slices and the lemmas on them.
  \<^item> \<open>Utf8\<close>, \<open>Rust_Char\<close>: the parts of \<open>str\<close> and \<open>char\<close> that the sources use.
  \<^item> \<open>Index_Model\<close> (\<open>ls-index-model\<close>: \<open>text.rs\<close>, \<open>flags.rs\<close>, \<open>symbol.rs\<close>, \<open>unsafe_reason.rs\<close>,
    \<open>groups.rs\<close>, \<open>semantics.rs\<close>, \<open>error.rs\<close>): positions packed as \<open>line << 12 | char\<close> saturate, and
    keep order and containment within the 20 and 12 bits; symbol-kind codes round-trip.
  \<^item> \<open>Target_Bitset\<close> (\<open>bitset.rs\<close>): the exact target set. The locale \<open>exact_target_set\<close> states what
    the segment scans rely on, and is interpreted by the bitset's operations.
  \<^item> \<open>Uri\<close> (\<open>uri.rs\<close>): percent-coding and normalisation of file URIs; round trip and idempotence.

  \<^bold>\<open>The store\<close> (\<open>ls-store\<close>).
  \<^item> \<open>Wire\<close>, \<open>Segment_Format\<close>: little-endian fields (locale \<open>le_codec\<close>), file names, constants, the
    in-memory segment description and the errors (\<open>wire.rs\<close>, \<open>format.rs\<close>, \<open>data.rs\<close>, \<open>error.rs\<close>).
  \<^item> \<open>Segment_Writer\<close> (\<open>writer.rs\<close>): validation, block layout, and the bytes of all fourteen files.
  \<^item> \<open>Segment_Reader\<close>, \<open>Segment_Open\<close> (\<open>reader.rs\<close>): accessors and scans, and \<open>open\<close> with every check
    it makes; on any bytes it returns a reader or a typed error.
  \<^item> \<open>Segment_Scan\<close>, \<open>Segment_Lookup\<close>: what validation buys. The scans that skip blocks by their
    metadata return exactly the matching records, the binary search and the cursor lookup with their
    early exits equal a search through everything, and none of them panics.
  \<^item> \<open>Workspace_State\<close> (\<open>workspace_state.rs\<close>): the checksummed container; round trip and exactness.
  \<^item> \<open>Store\<close>, \<open>Store_Recovery\<close> (\<open>snapshot.rs\<close>, \<open>manifest.rs\<close>, \<open>durable.rs\<close>): publication as a sequence
    of disk operations, a crash after any of them with the last one torn, a publish that stops at any of
    them with the store alive, recovery, retention of the generations that readers hold, and the janitor,
    as a step relation with its reachable states. A publish from a store whose disk recovers to what it
    serves ends, after a crash, in the old snapshot or in the new generation, which opens; a store after a
    publish that failed behind its commit still serves a snapshot that can be opened again.
  \<^item> \<open>Fuzzy_Rank\<close>, \<open>Search\<close> (\<open>search.rs\<close>): the camel-hump score is optimal over all embeddings, and
    the token index returns what a search over all names would, in rank order.

  \<^bold>\<open>The ingest\<close> (\<open>ls-semanticdb\<close>).
  \<^item> \<open>Proto_Wire\<close>, \<open>Proto_Encoding\<close>, \<open>Sdb_Parser\<close> (\<open>wire.rs\<close>, \<open>parser.rs\<close>, \<open>model.rs\<close>): the protobuf
    reader never panics and decodes every proto3 encoding of a list of documents with shortest varints:
    fields in any order, defaults absent, the last value of a scalar counting, at most one range in an
    occurrence, unknown fields and groups anywhere.
  \<^item> \<open>Sdb_Symbols\<close>, \<open>Sdb_Normalize\<close> (\<open>symbols.rs\<close>, \<open>normalize.rs\<close>): the symbol grammar and the lowering
    to the shared model.
  \<^item> \<open>Union_Find\<close>, \<open>Alias_Groups\<close>, \<open>Sdb_Profile\<close> (\<open>groups.rs\<close>, \<open>profile.rs\<close>, \<open>batch.rs\<close>): union-find
    refines the equivalence closure (locale \<open>disjoint_sets\<close>), alias groups are exactly the chains of
    merges, and a rename profile states exactly the facts of its group; of \<open>is_external\<close>, what the module's
    description and the code agree on.

  \<^bold>\<open>The presentation-compiler boundary\<close> (\<open>ls-pc-abi\<close>).
  \<^item> \<open>Pc_Codec\<close> (\<open>codec.rs\<close>): the envelope, the string blob and the field readers. The locale
    \<open>abi_codec\<close> is the contract of a payload; its lemmas give round trip, rejection of other kinds and
    safety on arbitrary bytes.
  \<^item> \<open>Pc_Payloads\<close>, \<open>Pc_Queries\<close> (\<open>payloads.rs\<close>): all 27 payloads, each an interpretation of it; every
    decoder refuses what the encoder of another payload emits.
  \<^item> \<open>Pc_Supervisor\<close> (\<open>ls-jvm\<close>: \<open>mirror.rs\<close>, \<open>dispatch.rs\<close>, \<open>watchdog.rs\<close>): the replay mirror, the
    generations and the recovery ladder over any backend; every request is answered, and a replay
    rebuilds the mirrored state.

  \<^bold>\<open>The query engine\<close> (\<open>ls-engine\<close>).
  \<^item> \<open>Engine_Targets\<close> (\<open>targets.rs\<close>), \<open>Engine_Codec\<close> (\<open>hash.rs\<close>, \<open>symbol_encoding.rs\<close>, \<open>state.rs\<close>): the
    target graph, whose closures end and are the reachable targets, and the encodings of keys and state.
  \<^item> \<open>Md5\<close>, \<open>Locator\<close> (\<open>md5.rs\<close>, \<open>locator.rs\<close> of \<open>ls-semanticdb\<close>): the digest behind freshness and the
    files of a target root.
  \<^item> \<open>Engine_Ingest\<close>, \<open>Ingest_Writable\<close> (\<open>ingest.rs\<close>): collecting and electing the documents, and the
    segment data they become. The postings are exactly the placed occurrences, and the writer accepts them
    under the stated limits on sizes, spans, uris and symbol keys.
  \<^item> \<open>Engine_Query\<close> (\<open>orchestrator.rs\<close>, \<open>overlay.rs\<close>): the orchestrator as a record; an operation returns
    the orchestrator it leaves, because resolving a cursor may ingest. \<open>Engine_References\<close>
    (\<open>references.rs\<close>, \<open>highlight.rs\<close>), \<open>Engine_Rename\<close> (\<open>rename.rs\<close>, \<open>identifiers.rs\<close>), \<open>Engine_Symbols\<close>
    (workspace symbols, definitions, methods, toplevels, implementations), \<open>Engine_Outline\<close> (the document
    outline) and \<open>Engine_Calls\<close> (\<open>call_hierarchy.rs\<close>) are the queries.
  \<^item> \<open>Segment_Source\<close>: the contract between an opened segment and its queries, the locale
    \<open>segment_source\<close>, interpreted by every segment that \<open>open\<close> returns.
  \<^item> \<open>Engine_Guarantees\<close>: over that contract, references are exactly the current records in the targets
    that can see the definition, and a rename plan exactly the editable current records of a safe group.
    \<open>Engine_Outline\<close> shows that the arena passes build the forest of the child lists, and \<open>Engine_Walks\<close>
    that the walks up the owner chain end.

  \<^bold>\<open>The server\<close> (\<open>ls-server\<close>).
  \<^item> \<open>Build_Scheduler\<close> (\<open>build_scheduler.rs\<close>): the worker thread and its callers as a step relation over
    every interleaving; no scheduled target is lost and scheduled work is done. A second relation has the
    condition variable, with parked and timed waits, notifications and spurious wake-ups: no wake-up is
    lost, and a drop ends the worker.

  \<^bold>\<open>Bounds and fuel.\<close> No definition has fuel. The searches that could run forever (the closures over the
  target graph, the walks up the owner chain, the janitor and worker loops) are options or steps, and a
  theorem excludes the outcome that does not end: a closure adds a target of the workspace at every
  insertion, a walk goes to an entry with a shorter owner. A segment is assumed to have fewer than 2^32
  targets where a target ordinal is cast to 32 bits, and the index of documents to stay below 2 GiB where an
  interval ordinal is cast; ingest states its limits of 2^31 documents, targets and keys.

  \<^bold>\<open>Not modelled.\<close>
  \<^item> The C function tables, raw buffers and layout check of \<open>ls-pc-abi\<close> (\<open>abi.rs\<close>, \<open>memory.rs\<close>,
    \<open>canary.rs\<close>) and the calls into libjvm of \<open>ls-jvm\<close> (\<open>backend.rs\<close>, \<open>boot.rs\<close>, \<open>jni.rs\<close>,
    \<open>stdout_guard.rs\<close>): foreign-function code over raw memory, threads and file descriptors, whose meaning
    is that of code outside the repository. The supervisor takes its backend as a parameter instead.
  \<^item> The BSP client (\<open>ls-bsp\<close>): JSON-RPC over a child process, generated by \<open>serde\<close> and driven by threads.
  \<^item> The request plumbing of the server (\<open>server.rs\<close>, \<open>services.rs\<close>, \<open>pc.rs\<close>, \<open>doctor.rs\<close>, \<open>bootstrap.rs\<close> and
    the conversions): it maps values of \<open>lsp-types\<close> to the calls modelled here; the types, their JSON and the
    channels are libraries.
  \<^item> \<open>ids.rs\<close>: newtypes around integers, which the model uses directly. The test kit and the benchmarks.
  \<^item> Within the modelled parts: log lines, thread labels, measured durations, and the locks, which make
    each locked section one step.
\<close>

end
